(* ===== verification/Ledger_Prelude.thy ===== *)
theory Ledger_Prelude
  imports Main "HOL-Library.AList" "HOL-Library.Char_ord" "HOL-Library.List_Lexorder"
    "HOL-Library.Multiset"
begin

text \<open>
  Shared vocabulary of the development.

  \<^item> Python exceptions are values: an operation that may raise returns
    \<open>'a result = py_error + 'a\<close>, and \<open>bindR\<close>, \<open>mapR\<close> sequence such operations
    the way a raise propagates. Messages are not modelled, exception classes are.
    \<open>Untyped\<close> is no exception: it is the outcome of reading untyped data where Python would go
    on with a value outside the declared type of a field, which the model does not follow.
  \<^item> A Python \<^verbatim>\<open>dict\<close> is an insertion-ordered association list with
    \<open>AList.update\<close> (assignment keeps the position of an existing key and appends a new
    one), \<open>map_of\<close> (lookup) and \<open>AList.delete\<close> (\<^verbatim>\<open>del\<close>/\<^verbatim>\<open>pop\<close>);
    \<open>dict_modify\<close> is \<^verbatim>\<open>d.setdefault(k, default)\<close> followed by an in-place
    mutation of the value.
  \<^item> \<open>py_lower\<close> is \<^verbatim>\<open>str.lower\<close> on ASCII letters.
  \<^item> The locales \<open>left_fold\<close>, \<open>invariant_fold\<close> and \<open>metered_fold\<close> are the contract
    that every event fold of the ledger satisfies; each fold interprets them.
\<close>

section \<open>Named collections\<close>

named_theorems dict_simps "rewriting of dictionary operations"
named_theorems result_simps "rewriting of fallible computations"

section \<open>Exceptions as values\<close>

datatype py_error =
    KeyError
  | TypeError
  | ValueError
  | InvalidOperation
  | DivisionByZero
  | UnbalancedEventError
  | FundError
  | SleeveCloseError
  | CheckpointStateError
  | FillQuarantineError
  | LedgerInvariantError
  | RuntimeError
  | ParseError
  | OverflowError
  | RecursionError
  | AttributeError
  | IndexError
  | EvaluationError
  | Untyped

text \<open>
  The classes caught by \<^verbatim>\<open>except (KeyError, TypeError, ValueError, ArithmeticError)\<close>:
  the ledger's own errors that subclass \<^verbatim>\<open>ValueError\<close> and the decimal signals that
  subclass \<^verbatim>\<open>ArithmeticError\<close> are included.
\<close>

fun data_error :: "py_error \<Rightarrow> bool" where
  "data_error KeyError = True"
| "data_error TypeError = True"
| "data_error ValueError = True"
| "data_error InvalidOperation = True"
| "data_error DivisionByZero = True"
| "data_error UnbalancedEventError = True"
| "data_error FundError = True"
| "data_error SleeveCloseError = True"
| "data_error CheckpointStateError = True"
| "data_error FillQuarantineError = False"
| "data_error LedgerInvariantError = False"
| "data_error RuntimeError = False"
| "data_error ParseError = False"
| "data_error OverflowError = True"
| "data_error RecursionError = False"
| "data_error AttributeError = False"
| "data_error IndexError = False"
| "data_error EvaluationError = False"
| "data_error Untyped = False"

type_synonym 'a result = "py_error + 'a"

fun bindR :: "'a result \<Rightarrow> ('a \<Rightarrow> 'b result) \<Rightarrow> 'b result" where
  "bindR (Inl e) f = Inl e"
| "bindR (Inr x) f = f x"

fun mapR :: "('a \<Rightarrow> 'b result) \<Rightarrow> 'a list \<Rightarrow> 'b list result" where
  "mapR f [] = Inr []"
| "mapR f (x # xs) = bindR (f x) (\<lambda>y. bindR (mapR f xs) (\<lambda>ys. Inr (y # ys)))"

fun is_ok :: "'a result \<Rightarrow> bool" where
  "is_ok (Inl e) = False"
| "is_ok (Inr x) = True"

lemma bindR_cong [fundef_cong]:
  "m = m' \<Longrightarrow> (\<And>x. m' = Inr x \<Longrightarrow> f x = g x) \<Longrightarrow> bindR m f = bindR m' g"
  by (cases m') auto

lemma mapR_cong [fundef_cong]:
  "xs = ys \<Longrightarrow> (\<And>x. x \<in> set ys \<Longrightarrow> f x = g x) \<Longrightarrow> mapR f xs = mapR g ys"
  by (induction ys arbitrary: xs) auto

lemma bindR_eq_Inr [result_simps]:
  "bindR m f = Inr y \<longleftrightarrow> (\<exists>x. m = Inr x \<and> f x = Inr y)"
  by (cases m) auto

lemma bindR_eq_Inl [result_simps]:
  "bindR m f = Inl e \<longleftrightarrow> m = Inl e \<or> (\<exists>x. m = Inr x \<and> f x = Inl e)"
  by (cases m) auto

lemma bindR_assoc: "bindR (bindR m f) g = bindR m (\<lambda>x. bindR (f x) g)"
  by (cases m) auto

lemma is_ok_iff [result_simps]: "is_ok r \<longleftrightarrow> (\<exists>x. r = Inr x)"
  by (cases r) auto

lemma mapR_Inr_iff:
  "mapR f xs = Inr ys \<longleftrightarrow> list_all2 (\<lambda>x y. f x = Inr y) xs ys"
  by (induction xs arbitrary: ys) (auto simp: result_simps list_all2_Cons1)

lemma mapR_map_Inr: "(\<And>x. x \<in> set xs \<Longrightarrow> f x = Inr (g x)) \<Longrightarrow> mapR f xs = Inr (map g xs)"
  by (induction xs) auto

section \<open>Dictionaries\<close>

type_synonym ('k, 'v) dict = "('k \<times> 'v) list"

abbreviation keys :: "('k, 'v) dict \<Rightarrow> 'k list" where
  "keys d \<equiv> map fst d"

abbreviation vals :: "('k, 'v) dict \<Rightarrow> 'v list" where
  "vals d \<equiv> map snd d"

definition dict_get :: "('k, 'v) dict \<Rightarrow> 'k \<Rightarrow> 'v \<Rightarrow> 'v" where
  "dict_get d k dflt = (case map_of d k of None \<Rightarrow> dflt | Some v \<Rightarrow> v)"

definition dict_setdefault :: "'k \<Rightarrow> 'v \<Rightarrow> ('k, 'v) dict \<Rightarrow> ('k, 'v) dict" where
  "dict_setdefault k v d = (case map_of d k of None \<Rightarrow> d @ [(k, v)] | Some _ \<Rightarrow> d)"

definition dict_modify :: "'k \<Rightarrow> 'v \<Rightarrow> ('v \<Rightarrow> 'v) \<Rightarrow> ('k, 'v) dict \<Rightarrow> ('k, 'v) dict" where
  "dict_modify k dflt f d = AList.update k (f (dict_get d k dflt)) d"

abbreviation wf_dict :: "('k, 'v) dict \<Rightarrow> bool" where
  "wf_dict d \<equiv> distinct (keys d)"

lemma map_of_update [dict_simps]:
  "map_of (AList.update k v d) j = (if j = k then Some v else map_of d j)"
  by (simp add: AList.update_conv')

lemma map_of_dict_modify [dict_simps]:
  "map_of (dict_modify k dflt f d) j =
     (if j = k then Some (f (dict_get d k dflt)) else map_of d j)"
  by (simp add: dict_modify_def dict_simps)

lemma dict_get_update [dict_simps]:
  "dict_get (AList.update k v d) j dflt = (if j = k then v else dict_get d j dflt)"
  by (simp add: dict_get_def dict_simps)

lemma dict_get_modify [dict_simps]:
  "dict_get (dict_modify k dflt f d) j dflt' =
     (if j = k then f (dict_get d k dflt) else dict_get d j dflt')"
  by (simp add: dict_get_def dict_simps)

lemma dict_get_delete [dict_simps]:
  "dict_get (AList.delete k d) j dflt = (if j = k then dflt else dict_get d j dflt)"
  by (simp add: dict_get_def AList.delete_conv')

lemma dict_get_setdefault [dict_simps]:
  "dict_get (dict_setdefault k v d) j v = dict_get d j v"
  by (auto simp: dict_get_def dict_setdefault_def map_add_def split: option.splits)

lemma dict_get_Nil [simp]: "dict_get [] k dflt = dflt"
  by (simp add: dict_get_def)

lemma dict_get_Cons: "dict_get ((j, v) # d) k dflt = (if k = j then v else dict_get d k dflt)"
  by (simp add: dict_get_def)

lemma wf_dict_update [simp]: "wf_dict d \<Longrightarrow> wf_dict (AList.update k v d)"
  by (rule AList.distinct_update)

lemma wf_dict_modify [simp]: "wf_dict d \<Longrightarrow> wf_dict (dict_modify k dflt f d)"
  by (simp add: dict_modify_def)

lemma wf_dict_delete [simp]: "wf_dict d \<Longrightarrow> wf_dict (AList.delete k d)"
  by (rule AList.distinct_delete)

lemma wf_dict_setdefault [simp]: "wf_dict d \<Longrightarrow> wf_dict (dict_setdefault k v d)"
  by (auto simp: dict_setdefault_def map_of_eq_None_iff split: option.splits)

lemma set_keys_modify [dict_simps]:
  "set (keys (dict_modify k dflt f d)) = insert k (set (keys d))"
  by (simp add: dict_modify_def AList.dom_update)

text \<open>
  The accounting lemma of the library: a sum over the values of a dictionary changes by
  exactly the change of the one value that was modified. It needs no well-formedness:
  update and lookup meet at the same, first, occurrence of the key.
\<close>

primrec sum_vals :: "('v \<Rightarrow> 'a::comm_monoid_add) \<Rightarrow> ('k, 'v) dict \<Rightarrow> 'a" where
  "sum_vals g [] = 0"
| "sum_vals g (kv # d) = g (snd kv) + sum_vals g d"

lemma sum_vals_conv: "sum_vals g d = sum_list (map g (vals d))"
  by (induction d) auto

lemma sum_vals_append [simp]: "sum_vals g (d @ e) = sum_vals g d + sum_vals g e"
  by (induction d) (auto simp: add.assoc)

lemma sum_vals_add: "sum_vals (\<lambda>v. g v + h v) d = sum_vals g d + sum_vals h d"
  by (induction d) (auto simp: ac_simps)

lemma sum_vals_cong: "(\<And>v. v \<in> set (vals d) \<Longrightarrow> g v = h v) \<Longrightarrow> sum_vals g d = sum_vals h d"
  by (induction d) auto

lemma sum_vals_update:
  fixes g :: "'v \<Rightarrow> 'a::ab_group_add"
  shows "sum_vals g (AList.update k v d) =
    sum_vals g d + g v - (case map_of d k of None \<Rightarrow> 0 | Some u \<Rightarrow> g u)"
  by (induction d) (auto simp: algebra_simps split: option.splits)

lemma sum_vals_modify:
  fixes g :: "'v \<Rightarrow> 'a::ab_group_add"
  assumes "g dflt = 0"
  shows "sum_vals g (dict_modify k dflt f d) =
    sum_vals g d + g (f (dict_get d k dflt)) - g (dict_get d k dflt)"
  using assms by (auto simp: dict_modify_def dict_get_def sum_vals_update split: option.splits)

lemma sum_vals_setdefault:
  fixes g :: "'v \<Rightarrow> 'a::ab_group_add"
  assumes "g dflt = 0"
  shows "sum_vals g (dict_setdefault k dflt d) = sum_vals g d"
  using assms by (auto simp: dict_setdefault_def split: option.splits)

lemma sum_vals_delete:
  fixes g :: "'v \<Rightarrow> 'a::ab_group_add"
  assumes "wf_dict d"
  shows "sum_vals g (AList.delete k d) =
    sum_vals g d - (case map_of d k of None \<Rightarrow> 0 | Some u \<Rightarrow> g u)"
  using assms
  by (induction d) (auto simp: map_of_eq_None_iff image_iff split: option.splits)

lemma sum_vals_nonneg:
  fixes g :: "'v \<Rightarrow> 'a::linordered_ab_group_add"
  shows "(\<And>v. 0 \<le> g v) \<Longrightarrow> 0 \<le> sum_vals g d"
  by (induction d) auto

lemma sum_vals_get_le:
  fixes g :: "'v \<Rightarrow> 'a::linordered_ab_group_add"
  assumes "\<And>v. 0 \<le> g v" "g dflt = 0"
  shows "g (dict_get d k dflt) \<le> sum_vals g d"
proof (induction d)
  case Nil
  then show ?case using assms by simp
next
  case (Cons kv d)
  obtain j v where kv: "kv = (j, v)" by (cases kv)
  show ?case
  proof (cases "j = k")
    case True
    then show ?thesis using sum_vals_nonneg [of g d] assms by (simp add: kv dict_get_Cons)
  next
    case False
    then have "g (dict_get (kv # d) k dflt) \<le> sum_vals g d"
      using Cons.IH by (simp add: kv dict_get_Cons)
    then show ?thesis using add_increasing [OF assms(1) [of v]] by (simp add: kv)
  qed
qed

lemma all_vals_get: "list_all P (vals d) \<Longrightarrow> P dflt \<Longrightarrow> P (dict_get d k dflt)"
  by (induction d) (auto simp: dict_get_Cons)

lemma all_vals_update: "list_all P (vals d) \<Longrightarrow> P v \<Longrightarrow> list_all P (vals (AList.update k v d))"
  by (induction d) auto

lemma all_vals_delete: "list_all P (vals d) \<Longrightarrow> list_all P (vals (AList.delete k d))"
  by (induction d) auto

lemma all_vals_modify:
  "list_all P (vals d) \<Longrightarrow> P (f (dict_get d k dflt)) \<Longrightarrow> list_all P (vals (dict_modify k dflt f d))"
  unfolding dict_modify_def by (rule all_vals_update)

text \<open>A comprehension that keeps at most one entry per key keeps the keys distinct.\<close>

lemma distinct_concat_map:
  assumes one: "\<And>h. map g (f h) \<in> {[], [fst h]}" and wf: "wf_dict d"
  shows "distinct (map g (concat (map f d))) \<and> set (map g (concat (map f d))) \<subseteq> set (keys d)"
  using wf
proof (induction d)
  case (Cons h d)
  let ?k = "map g (concat (map f d))"
  have IH: "distinct ?k" "set ?k \<subseteq> set (keys d)" using Cons by simp_all
  have e: "map g (concat (map f (h # d))) = map g (f h) @ ?k" by simp
  consider "map g (f h) = []" | "map g (f h) = [fst h]" using one [of h] by blast
  then show ?case
  proof cases
    case 1
    with e IH show ?thesis by (simp only: append_Nil) auto
  next
    case 2
    have "fst h \<notin> set ?k" using IH(2) Cons.prems by auto
    with 2 e IH show ?thesis by (simp only: append_Cons append_Nil distinct.simps list.set) auto
  qed
qed simp

section \<open>Sorted lists\<close>

lemma sum_list_sort_key [simp]:
  "sum_list (map g (sort_key f xs)) = sum_list (map g xs)" for g :: "'a \<Rightarrow> 'b::comm_monoid_add"
  using arg_cong [of "mset (map g (sort_key f xs))" "mset (map g xs)" sum_mset]
  by (simp add: sum_mset_sum_list [symmetric] del: sum_mset_sum_list)

lemma list_all_sort_key [simp]: "list_all P (sort_key f xs) \<longleftrightarrow> list_all P xs"
  by (simp add: list_all_iff)

section \<open>Strings\<close>

definition lower_char :: "char \<Rightarrow> char" where
  "lower_char c =
     (let n = (of_char c :: nat) in if 65 \<le> n \<and> n \<le> 90 then char_of (n + 32) else c)"

definition py_lower :: "string \<Rightarrow> string" where
  "py_lower s = map lower_char s"

lemma lower_char_idem: "lower_char (lower_char c) = lower_char c"
  by (auto simp: lower_char_def Let_def of_char_of)

lemma py_lower_idem [simp]: "py_lower (py_lower s) = py_lower s"
  by (simp add: py_lower_def lower_char_idem)

section \<open>The contract of an event fold\<close>

text \<open>
  Every derived state of the ledger is a left fold of a step function over the event log.
  \<open>left_fold\<close> gives what a checkpoint relies on: folding a suffix onto the fold of the
  prefix is folding the whole log.
\<close>

locale left_fold =
  fixes step :: "'s \<Rightarrow> 'e \<Rightarrow> 's"
    and run :: "'s \<Rightarrow> 'e list \<Rightarrow> 's"
  assumes run_Nil: "run s [] = s"
    and run_Cons: "run s (e # es) = run (step s e) es"
begin

lemma run_foldl: "run s es = foldl step s es"
  by (induction es arbitrary: s) (simp_all add: run_Nil run_Cons)

lemma resume: "run s (xs @ ys) = run (run s xs) ys"
  by (simp add: run_foldl)

lemma run_snoc: "run s (xs @ [e]) = step (run s xs) e"
  by (simp add: run_foldl)

end

locale invariant_fold = left_fold +
  fixes inv :: "'a \<Rightarrow> bool"
    and ok :: "'b \<Rightarrow> bool"
  assumes inv_step: "inv s \<Longrightarrow> ok e \<Longrightarrow> inv (step s e)"
begin

lemma inv_run: "inv s \<Longrightarrow> list_all ok es \<Longrightarrow> inv (run s es)"
  by (induction es arbitrary: s) (auto simp: run_Nil run_Cons inv_step)

end

text \<open>
  \<open>metered_fold\<close>: every step moves a measure of the state by an amount that depends on the
  event and the state it meets; the run moves it by the sum of these amounts.
\<close>

locale metered_fold = left_fold +
  fixes measure_of :: "'a \<Rightarrow> 'c::ab_group_add"
    and flow :: "'a \<Rightarrow> 'b \<Rightarrow> 'c"
    and admissible :: "'a \<Rightarrow> 'b \<Rightarrow> bool"
  assumes meter: "admissible s e \<Longrightarrow> measure_of (step s e) = measure_of s + flow s e"
begin

fun total_flow :: "'a \<Rightarrow> 'b list \<Rightarrow> 'c" where
  "total_flow s [] = 0"
| "total_flow s (e # es) = flow s e + total_flow (step s e) es"

fun admissible_run :: "'a \<Rightarrow> 'b list \<Rightarrow> bool" where
  "admissible_run s [] = True"
| "admissible_run s (e # es) = (admissible s e \<and> admissible_run (step s e) es)"

lemma measure_run:
  "admissible_run s es \<Longrightarrow> measure_of (run s es) = measure_of s + total_flow s es"
  by (induction es arbitrary: s) (auto simp: run_Nil run_Cons meter add.assoc)

end

end
