(* ===== verification/Py_Decimal.thy ===== *)
theory Py_Decimal
  imports Complex_Main Ledger_Prelude
begin

text \<open>
  Python's \<^verbatim>\<open>decimal.Decimal\<close> under the default context (precision 28,
  \<^verbatim>\<open>ROUND_HALF_EVEN\<close>), which is the arithmetic of the whole ledger: no module of the
  ledger changes the context. A finite number is a coefficient and an exponent;
  \<open>val\<close> is its numeric value. Every arithmetic operation computes the exact result and
  then rounds it to 28 significant digits (\<open>dec_fix\<close>, the context's \<^verbatim>\<open>_fix\<close>).

  Not represented: signed zeros (only \<^verbatim>\<open>str\<close> can see the sign of a zero), NaN and the
  infinities, and the exponent limits of the context (999999).

  The first part is the executable arithmetic, the second part its theory: the sign of a
  result is exact (\<open>dec_fix_sgn\<close>), a result that fits in 28 digits is exact
  (\<open>val_dec_fix\<close>), any other result is off by at most five units in the 28th digit
  (\<open>dec_fix_error\<close>), and sums of amounts on a common decimal grid are exact while they stay
  below the grid's bound (\<open>val_add_grid\<close>).
\<close>

section \<open>Numbers, rounding, arithmetic\<close>

datatype decimal = Dec (coef: int) (expo: int)

datatype rounding = ROUND_HALF_EVEN | ROUND_HALF_UP | ROUND_UP

definition val :: "decimal \<Rightarrow> rat" where
  "val d = of_int (coef d) * 10 powi expo d"

abbreviation prec :: nat where
  "prec \<equiv> 28"

function ndigits :: "int \<Rightarrow> nat" where
  "ndigits n = (if n < 10 then 1 else Suc (ndigits (n div 10)))"
  by pat_completeness auto
termination
  by (relation "measure nat") auto

declare ndigits.simps [simp del]

fun rounds_away :: "rounding \<Rightarrow> int \<Rightarrow> int \<Rightarrow> int \<Rightarrow> bool" where
  "rounds_away ROUND_HALF_EVEN p q r \<longleftrightarrow> p < 2 * r \<or> (p = 2 * r \<and> odd q)"
| "rounds_away ROUND_HALF_UP p q r \<longleftrightarrow> p \<le> 2 * r"
| "rounds_away ROUND_UP p q r \<longleftrightarrow> 0 < r"

definition round_mag :: "rounding \<Rightarrow> int \<Rightarrow> nat \<Rightarrow> int" where
  "round_mag m a s =
     (let p = 10 ^ s; q = a div p; r = a mod p
      in if rounds_away m p q r then q + 1 else q)"

definition round_coef :: "rounding \<Rightarrow> int \<Rightarrow> nat \<Rightarrow> int" where
  "round_coef m c s = sgn c * round_mag m \<bar>c\<bar> s"

definition dec_len :: "decimal \<Rightarrow> nat" where
  "dec_len d = ndigits \<bar>coef d\<bar>"

definition dec_fix :: "decimal \<Rightarrow> decimal" where
  "dec_fix d =
     (if dec_len d \<le> prec then d
      else let s = dec_len d - prec; c = round_coef ROUND_HALF_EVEN (coef d) s
           in if \<bar>c\<bar> = 10 ^ prec then Dec (c div 10) (expo d + int s + 1)
              else Dec c (expo d + int s))"

definition dec_align :: "decimal \<Rightarrow> int \<Rightarrow> int" where
  "dec_align d e = coef d * 10 ^ nat (expo d - e)"

definition add_exact :: "decimal \<Rightarrow> decimal \<Rightarrow> decimal" where
  "add_exact a b =
     (let e = min (expo a) (expo b) in Dec (dec_align a e + dec_align b e) e)"

definition is_zero :: "decimal \<Rightarrow> bool" where
  "is_zero d \<longleftrightarrow> coef d = 0"

definition deq :: "decimal \<Rightarrow> decimal \<Rightarrow> bool" where
  "deq a b \<longleftrightarrow> (let e = min (expo a) (expo b) in dec_align a e = dec_align b e)"

instantiation decimal :: "{zero, plus, minus, uminus, times, abs, ord}"
begin

definition zero_decimal :: decimal where
  "zero_decimal = Dec 0 0"

definition plus_decimal :: "decimal \<Rightarrow> decimal \<Rightarrow> decimal" where
  "plus_decimal a b = dec_fix (add_exact a b)"

definition minus_decimal :: "decimal \<Rightarrow> decimal \<Rightarrow> decimal" where
  "minus_decimal a b = dec_fix (add_exact a (Dec (- coef b) (expo b)))"

definition uminus_decimal :: "decimal \<Rightarrow> decimal" where
  "uminus_decimal a = dec_fix (Dec (- coef a) (expo a))"

definition times_decimal :: "decimal \<Rightarrow> decimal \<Rightarrow> decimal" where
  "times_decimal a b = dec_fix (Dec (coef a * coef b) (expo a + expo b))"

definition abs_decimal :: "decimal \<Rightarrow> decimal" where
  "abs_decimal a = dec_fix (Dec \<bar>coef a\<bar> (expo a))"

definition less_eq_decimal :: "decimal \<Rightarrow> decimal \<Rightarrow> bool" where
  "less_eq_decimal a b \<longleftrightarrow>
     (let e = min (expo a) (expo b) in dec_align a e \<le> dec_align b e)"

definition less_decimal :: "decimal \<Rightarrow> decimal \<Rightarrow> bool" where
  "less_decimal a b \<longleftrightarrow>
     (let e = min (expo a) (expo b) in dec_align a e < dec_align b e)"

instance ..

end

text \<open>
  Division follows the library's algorithm: a quotient of at least 29 digits, made sticky when
  it is inexact, and otherwise brought as close as possible to the ideal exponent.
\<close>

fun strip_zeros :: "nat \<Rightarrow> int \<Rightarrow> int \<Rightarrow> int \<times> int" where
  "strip_zeros 0 c e = (c, e)"
| "strip_zeros (Suc k) c e = (if c mod 10 = 0 then strip_zeros k (c div 10) (e + 1) else (c, e))"

definition dec_div :: "decimal \<Rightarrow> decimal \<Rightarrow> decimal" where
  "dec_div a b =
     (if coef a = 0 then Dec 0 (expo a - expo b)
      else
        let shift = int (dec_len b) - int (dec_len a) + int prec + 1;
            e = expo a - expo b - shift;
            num = \<bar>coef a\<bar> * 10 ^ nat shift;
            den = \<bar>coef b\<bar> * 10 ^ nat (- shift);
            q = num div den;
            sign = sgn (coef a) * sgn (coef b)
        in if num mod den \<noteq> 0
           then dec_fix (Dec (sign * (if q mod 5 = 0 then q + 1 else q)) e)
           else let (c, e') = strip_zeros (nat shift) q e in dec_fix (Dec (sign * c) e'))"

definition dec_div_r :: "decimal \<Rightarrow> decimal \<Rightarrow> decimal result" where
  "dec_div_r a b =
     (if is_zero b then Inl (if is_zero a then InvalidOperation else DivisionByZero)
      else Inr (dec_div a b))"

definition dec_quantize :: "rounding \<Rightarrow> int \<Rightarrow> decimal \<Rightarrow> decimal result" where
  "dec_quantize m e d =
     (let c = (if e \<le> expo d then coef d * 10 ^ nat (expo d - e)
               else round_coef m (coef d) (nat (e - expo d)))
      in if ndigits \<bar>c\<bar> \<le> prec then Inr (Dec c e) else Inl InvalidOperation)"

text \<open>\<^verbatim>\<open>sum((...), ZERO)\<close>: left to right, starting at \<^verbatim>\<open>ZERO\<close>.\<close>

definition dec_sum :: "decimal list \<Rightarrow> decimal" where
  "dec_sum ds = foldl (+) 0 ds"

section \<open>Values of the exact operations\<close>

lemma val_Dec: "val (Dec c e) = of_int c * 10 powi e"
  by (simp add: val_def)

lemma val_0 [simp]: "val 0 = 0"
  by (simp add: zero_decimal_def val_def)

lemma val_eq_0_iff: "val d = 0 \<longleftrightarrow> coef d = 0"
  by (simp add: val_def)

lemma is_zero_val: "is_zero d \<longleftrightarrow> val d = 0"
  by (simp add: is_zero_def val_eq_0_iff)

lemma sgn_val: "sgn (val d) = of_int (sgn (coef d))"
proof -
  have "(0::rat) < 10 powi expo d" by simp
  then have "sgn ((10::rat) powi expo d) = 1" by (rule sgn_pos)
  then show ?thesis by (simp add: val_def sgn_mult) (simp add: sgn_if)
qed

lemma powi_split: "e \<le> (i::int) \<Longrightarrow> (10::rat) ^ nat (i - e) * 10 powi e = 10 powi i"
proof -
  assume "e \<le> i"
  then have "(10::rat) powi i = 10 powi (int (nat (i - e)) + e)" by simp
  also have "\<dots> = 10 ^ nat (i - e) * 10 powi e"
    by (subst power_int_add) (simp_all del: int_nat_eq)
  finally show ?thesis by simp
qed

lemma val_align: "e \<le> expo d \<Longrightarrow> of_int (dec_align d e) * 10 powi e = val d"
  by (simp add: dec_align_def val_def mult.assoc powi_split)

lemma val_add_exact: "val (add_exact a b) = val a + val b"
proof -
  let ?e = "min (expo a) (expo b)"
  have "val (add_exact a b) =
      of_int (dec_align a ?e) * 10 powi ?e + of_int (dec_align b ?e) * 10 powi ?e"
    by (simp add: add_exact_def Let_def val_def distrib_right)
  then show ?thesis by (simp only: val_align min.cobounded1 min.cobounded2)
qed

lemma align_le_iff:
  assumes "e \<le> expo a" "e \<le> expo b"
  shows "dec_align a e \<le> dec_align b e \<longleftrightarrow> val a \<le> val b"
proof -
  have "val a \<le> val b \<longleftrightarrow>
      of_int (dec_align a e) * (10::rat) powi e \<le> of_int (dec_align b e) * 10 powi e"
    using assms by (simp only: val_align)
  moreover have "(0::rat) < 10 powi e" by simp
  ultimately show ?thesis by (simp add: mult_le_cancel_right_pos)
qed

lemma le_val: "a \<le> b \<longleftrightarrow> val a \<le> val b" for a b :: decimal
  by (simp add: less_eq_decimal_def Let_def align_le_iff)

lemma less_val: "a < b \<longleftrightarrow> val a < val b" for a b :: decimal
proof -
  have "a < b \<longleftrightarrow> \<not> b \<le> a"
    by (simp add: less_decimal_def less_eq_decimal_def Let_def min.commute not_le)
  then show ?thesis by (simp add: le_val not_le)
qed

lemma deq_val: "deq a b \<longleftrightarrow> val a = val b"
proof -
  have "deq a b \<longleftrightarrow> a \<le> b \<and> b \<le> a"
    by (auto simp: deq_def less_eq_decimal_def Let_def min.commute)
  then show ?thesis by (auto simp: le_val)
qed

instance decimal :: preorder
  by standard (auto simp: le_val less_val)

section \<open>Rounding\<close>

lemma ndigits_pos: "0 < ndigits n"
  by (subst ndigits.simps) simp

lemma ndigits_upper: "n < 10 ^ ndigits n"
proof (induction n rule: ndigits.induct)
  case (1 n)
  show ?case
  proof (cases "n < 10")
    case True
    then show ?thesis by (simp add: ndigits.simps [of n])
  next
    case False
    with 1 have "n div 10 < 10 ^ ndigits (n div 10)" by simp
    then have "n < 10 * 10 ^ ndigits (n div 10)" by linarith
    with False show ?thesis by (simp add: ndigits.simps [of n])
  qed
qed

lemma ndigits_lower: "0 < n \<Longrightarrow> 10 ^ (ndigits n - 1) \<le> n"
proof (induction n rule: ndigits.induct)
  case (1 n)
  show ?case
  proof (cases "n < 10")
    case True
    with 1 show ?thesis by (simp add: ndigits.simps [of n])
  next
    case False
    then have "0 < n div 10" by simp
    with 1 False have "10 ^ (ndigits (n div 10) - 1) \<le> n div 10" by simp
    then have "10 * 10 ^ (ndigits (n div 10) - 1) \<le> n" by linarith
    moreover have "10 * (10::int) ^ (ndigits (n div 10) - 1) = 10 ^ ndigits (n div 10)"
      using ndigits_pos [of "n div 10"] by (simp add: power_eq_if)
    ultimately show ?thesis using False by (simp add: ndigits.simps [of n])
  qed
qed

lemma ndigits_le_iff: "0 < k \<Longrightarrow> ndigits n \<le> k \<longleftrightarrow> n < 10 ^ k"
proof
  assume "ndigits n \<le> k"
  then have "(10::int) ^ ndigits n \<le> 10 ^ k" by (simp add: power_increasing)
  with ndigits_upper [of n] show "n < 10 ^ k" by linarith
next
  assume k: "0 < k" and n: "n < 10 ^ k"
  show "ndigits n \<le> k"
  proof (rule ccontr)
    assume "\<not> ndigits n \<le> k"
    with k have "1 < ndigits n" and le: "k \<le> ndigits n - 1" by auto
    then have "0 < n" by (cases "n \<le> 0") (auto simp: ndigits.simps [of n])
    then have "10 ^ (ndigits n - 1) \<le> n" by (rule ndigits_lower)
    moreover have "(10::int) ^ k \<le> 10 ^ (ndigits n - 1)" using le by (simp add: power_increasing)
    ultimately show False using n by linarith
  qed
qed

lemma dec_len_le_iff: "0 < k \<Longrightarrow> dec_len d \<le> k \<longleftrightarrow> \<bar>coef d\<bar> < 10 ^ k"
  by (simp add: dec_len_def ndigits_le_iff)

lemma dec_len_lower: "coef d \<noteq> 0 \<Longrightarrow> 10 ^ (dec_len d - 1) \<le> \<bar>coef d\<bar>"
  using ndigits_lower [of "\<bar>coef d\<bar>"] by (simp add: dec_len_def)

lemma not_le_pow10: "\<not> (10::int) ^ s \<le> 0"
  by (simp add: not_le)

lemma round_mag_nonneg: "0 \<le> a \<Longrightarrow> 0 \<le> round_mag m a s"
  by (simp add: round_mag_def Let_def pos_imp_zdiv_nonneg_iff)

lemma round_mag_error:
  assumes "m \<noteq> ROUND_UP"
  shows "2 * \<bar>round_mag m a s * 10 ^ s - a\<bar> \<le> 10 ^ s"
proof -
  define p :: int where "p = 10 ^ s"
  have p: "0 < p" by (simp add: p_def)
  have a: "a div p * p = a - a mod p" by (simp add: minus_mod_eq_div_mult)
  have r: "0 \<le> a mod p" "a mod p < p" using p by simp_all
  have up: "rounds_away m p (a div p) (a mod p) \<Longrightarrow> p \<le> 2 * (a mod p)"
    and down: "\<not> rounds_away m p (a div p) (a mod p) \<Longrightarrow> 2 * (a mod p) \<le> p"
    using assms by (cases m; auto)+
  have "round_mag m a s * p - a =
      (if rounds_away m p (a div p) (a mod p) then p - a mod p else - (a mod p))"
    using a by (simp add: round_mag_def Let_def p_def [symmetric] distrib_right)
  then show ?thesis using up down r by (simp add: p_def [symmetric] abs_if)
qed

lemma round_mag_up:
  "a \<le> round_mag ROUND_UP a s * 10 ^ s" "round_mag ROUND_UP a s * 10 ^ s < a + 10 ^ s"
proof -
  define p :: int where "p = 10 ^ s"
  have p: "0 < p" by (simp add: p_def)
  have a: "a div p * p = a - a mod p" by (simp add: minus_mod_eq_div_mult)
  have r: "0 \<le> a mod p" "a mod p < p" using p by simp_all
  have eq: "round_mag ROUND_UP a s * p = a + (if 0 < a mod p then p - a mod p else 0)"
    using a r by (auto simp: round_mag_def Let_def p_def [symmetric] distrib_right)
  show "a \<le> round_mag ROUND_UP a s * 10 ^ s" "round_mag ROUND_UP a s * 10 ^ s < a + 10 ^ s"
    unfolding p_def [symmetric] eq using r p by (simp_all add: less_imp_le)
qed

lemma round_mag_exact: "10 ^ s dvd a \<Longrightarrow> round_mag m a s * 10 ^ s = a"
  by (cases m) (auto simp: round_mag_def Let_def not_le_pow10)

lemma round_mag_lower: "10 ^ s * k \<le> a \<Longrightarrow> k \<le> round_mag m a s"
proof -
  assume "10 ^ s * k \<le> a"
  then have "k \<le> a div 10 ^ s" by (metis nonzero_mult_div_cancel_left power_not_zero
        zdiv_mono1 zero_less_numeral zero_less_power zero_neq_numeral)
  then show ?thesis by (simp add: round_mag_def Let_def)
qed

lemma round_coef_error:
  "m \<noteq> ROUND_UP \<Longrightarrow> 2 * \<bar>round_coef m c s * 10 ^ s - c\<bar> \<le> 10 ^ s"
  using round_mag_error [of m "\<bar>c\<bar>" s]
  by (auto simp: round_coef_def sgn_if abs_if split: if_splits)

lemma round_coef_exact: "10 ^ s dvd c \<Longrightarrow> round_coef m c s * 10 ^ s = c"
  using round_mag_exact [of s "\<bar>c\<bar>" m]
  by (auto simp: round_coef_def sgn_if abs_if split: if_splits)

lemma dec_fix_cases:
  assumes "prec < dec_len d"
  obtains c s where "s = dec_len d - prec" "c = round_coef ROUND_HALF_EVEN (coef d) s"
    "val (dec_fix d) = of_int (c * 10 ^ s) * 10 powi expo d" "0 < s"
proof -
  define s where "s = dec_len d - prec"
  define c where "c = round_coef ROUND_HALF_EVEN (coef d) s"
  have e: "(10::rat) powi (expo d + int s) = 10 ^ s * 10 powi expo d"
    by (simp add: power_int_add)
  have e1: "(10::rat) powi (expo d + int s + 1) = 10 * (10 ^ s * 10 powi expo d)"
    by (simp add: power_int_add)
  have "val (dec_fix d) = of_int (c * 10 ^ s) * 10 powi expo d"
  proof (cases "\<bar>c\<bar> = 10 ^ prec")
    case True
    then have "c = 10 ^ prec \<or> c = - (10 ^ prec)" by linarith
    then have "10 * (c div 10) = c" by (elim disjE) simp_all
    then have "of_int (c div 10) * (10::rat) = of_int c"
      by (metis mult.commute of_int_mult of_int_numeral)
    with True assms show ?thesis
      by (simp add: dec_fix_def Let_def s_def [symmetric] c_def [symmetric] val_def e1
          mult.assoc [symmetric])
  next
    case False
    with assms show ?thesis
      by (simp add: dec_fix_def Let_def s_def [symmetric] c_def [symmetric] val_def e)
  qed
  moreover have "0 < s" using assms by (simp add: s_def)
  ultimately show thesis using that s_def c_def by blast
qed

lemma dec_fix_error: "\<bar>val (dec_fix d) - val d\<bar> \<le> \<bar>val d\<bar> * (5 / 10 ^ 28)"
proof (cases "dec_len d \<le> prec")
  case True
  then show ?thesis by (simp add: dec_fix_def)
next
  case False
  then obtain c s where s: "s = dec_len d - prec" "0 < s"
    and c: "c = round_coef ROUND_HALF_EVEN (coef d) s"
    and v: "val (dec_fix d) = of_int (c * 10 ^ s) * 10 powi expo d"
    by (metis dec_fix_cases not_le)
  have "coef d \<noteq> 0" using False by (auto simp: dec_len_def ndigits.simps [of 0])
  then have "10 ^ (dec_len d - 1) \<le> \<bar>coef d\<bar>" by (rule dec_len_lower)
  moreover have "dec_len d - 1 = 27 + s" using False s by simp
  ultimately have low: "10 ^ 27 * 10 ^ s \<le> \<bar>coef d\<bar>" by (simp add: power_add)
  have "2 * \<bar>c * 10 ^ s - coef d\<bar> \<le> 10 ^ s" unfolding c by (rule round_coef_error) simp
  then have "2 * (10 ^ 27 * \<bar>c * 10 ^ s - coef d\<bar>) \<le> 10 ^ 27 * 10 ^ s" by simp
  from order_trans [OF this low] have "2 * (10 ^ 27 * \<bar>c * 10 ^ s - coef d\<bar>) \<le> \<bar>coef d\<bar>" .
  then have "of_int (2 * (10 ^ 27 * \<bar>c * 10 ^ s - coef d\<bar>)) \<le> (of_int \<bar>coef d\<bar> :: rat)"
    by (simp only: of_int_le_iff)
  then have *: "\<bar>of_int (c * 10 ^ s) - of_int (coef d)\<bar> \<le> \<bar>of_int (coef d)\<bar> * (5 / 10 ^ 28 :: rat)"
    by simp
  have "\<bar>val (dec_fix d) - val d\<bar> =
      \<bar>of_int (c * 10 ^ s) - of_int (coef d)\<bar> * 10 powi expo d"
    unfolding v by (simp add: val_def [of d] left_diff_distrib [symmetric] abs_mult)
  also have "\<dots> \<le> (\<bar>of_int (coef d)\<bar> * (5 / 10 ^ 28)) * 10 powi expo d"
    using * by (rule mult_right_mono) simp
  finally show ?thesis by (simp add: val_def abs_mult)
qed

lemma dec_fix_sgn: "sgn (val (dec_fix d)) = sgn (val d)"
proof -
  have e: "\<bar>val (dec_fix d) - val d\<bar> \<le> \<bar>val d\<bar> * (5 / 10 ^ 28)" by (rule dec_fix_error)
  consider "val d = 0" | "0 < val d" | "val d < 0" by linarith
  then show ?thesis
  proof cases
    case 1
    with e show ?thesis by simp
  next
    case 2
    with e have "0 < val (dec_fix d)" by (simp add: abs_if split: if_splits)
    with 2 show ?thesis by simp
  next
    case 3
    with e have "val (dec_fix d) < 0" by (simp add: abs_if split: if_splits)
    with 3 show ?thesis by simp
  qed
qed

text \<open>Values with at most 28 significant digits are fixed points of rounding.\<close>

definition rep28 :: "rat \<Rightarrow> bool" where
  "rep28 x \<longleftrightarrow> (\<exists>n k. x = of_int n * 10 powi k \<and> \<bar>n\<bar> \<le> 10 ^ prec)"

lemma rep28_dvd:
  assumes eq: "of_int c * (10::rat) powi e = of_int n * 10 powi k"
    and n: "\<bar>n\<bar> \<le> 10 ^ p" and c: "10 ^ (p + s - 1) \<le> \<bar>c\<bar>" "10 ^ p \<le> \<bar>c\<bar>" and s: "0 < s"
  shows "10 ^ s dvd c \<or> \<bar>c\<bar> = 10 ^ (p + s - 1)"
proof (cases "e \<le> k")
  case True
  define j where "j = nat (k - e)"
  have "of_int c = of_int n * (10::rat) ^ j"
    using eq powi_split [OF True] by (simp add: j_def) (metis mult.assoc mult_cancel_right
        power_int_eq_0_iff zero_neq_numeral)
  then have cj: "c = n * 10 ^ j"
    by (metis of_int_eq_iff of_int_mult of_int_numeral of_int_power)
  show ?thesis
  proof (cases "s \<le> j")
    case True
    then show ?thesis by (simp add: cj le_imp_power_dvd)
  next
    case False
    then have "p + j \<le> p + s - 1" by simp
    then have "(10::int) ^ (p + j) \<le> 10 ^ (p + s - 1)" by (simp add: power_increasing)
    moreover have "\<bar>c\<bar> \<le> 10 ^ (p + j)" using n by (simp add: cj abs_mult power_add)
    ultimately have "\<bar>c\<bar> \<le> 10 ^ (p + s - 1)" by linarith
    with c(1) have "\<bar>c\<bar> = 10 ^ (p + s - 1)" by (rule antisym [rotated])
    then show ?thesis ..
  qed
next
  case False
  then have le: "k \<le> e" by simp
  define j where "j = nat (e - k)"
  have j: "0 < j" using False by (simp add: j_def)
  have "of_int n = of_int c * (10::rat) ^ j"
    using eq powi_split [OF le] by (simp add: j_def) (metis mult.assoc mult_cancel_right
        power_int_eq_0_iff zero_neq_numeral)
  then have nj: "n = c * 10 ^ j"
    by (metis of_int_eq_iff of_int_mult of_int_numeral of_int_power)
  have "(10::int) ^ p * 10 \<le> \<bar>c\<bar> * 10 ^ j"
    using c(2) j by (intro mult_mono) (auto simp: self_le_power)
  moreover have "\<bar>c\<bar> * 10 ^ j \<le> 10 ^ p" using n by (simp add: nj abs_mult)
  moreover have "(0::int) < 10 ^ p" by simp
  ultimately have False by linarith
  then show ?thesis ..
qed

lemma val_dec_fix: "rep28 (val d) \<Longrightarrow> val (dec_fix d) = val d"
proof (cases "dec_len d \<le> prec")
  case True
  then show ?thesis by (simp add: dec_fix_def)
next
  case False
  assume "rep28 (val d)"
  then obtain n k where nk: "of_int (coef d) * (10::rat) powi expo d = of_int n * 10 powi k"
    "\<bar>n\<bar> \<le> 10 ^ prec" by (auto simp: rep28_def val_def)
  from False obtain c s where s: "s = dec_len d - prec" "0 < s"
    and c: "c = round_coef ROUND_HALF_EVEN (coef d) s"
    and v: "val (dec_fix d) = of_int (c * 10 ^ s) * 10 powi expo d"
    by (metis dec_fix_cases not_le)
  have "coef d \<noteq> 0" using False by (auto simp: dec_len_def ndigits.simps [of 0])
  then have low: "10 ^ (dec_len d - 1) \<le> \<bar>coef d\<bar>" by (rule dec_len_lower)
  have len: "dec_len d - 1 = prec + s - 1" using False s by simp
  have "(10::int) ^ prec \<le> 10 ^ (dec_len d - 1)" using False by (intro power_increasing) auto
  with low have low28: "10 ^ prec \<le> \<bar>coef d\<bar>" by linarith
  have "10 ^ s dvd coef d"
    using rep28_dvd [OF nk low [unfolded len] low28 s(2)]
  proof
    assume "\<bar>coef d\<bar> = 10 ^ (prec + s - 1)"
    then have "10 ^ s dvd \<bar>coef d\<bar>" by (simp add: le_imp_power_dvd)
    then show ?thesis by simp
  qed
  then have "c * 10 ^ s = coef d" unfolding c by (rule round_coef_exact)
  then show ?thesis by (simp add: v val_def [of d])
qed

lemma round_mag_upper: "a \<le> 10 ^ s * k \<Longrightarrow> round_mag m a s \<le> k"
proof -
  define p :: int where "p = 10 ^ s"
  have p: "0 < p" by (simp add: p_def)
  assume "a \<le> 10 ^ s * k"
  then consider "a = p * k" | "a < p * k" unfolding p_def by linarith
  then show ?thesis
  proof cases
    case 1
    then have "round_mag m a s * p = k * p"
      unfolding p_def by (subst round_mag_exact) simp_all
    with p show ?thesis by simp
  next
    case 2
    moreover have "a div p * p \<le> a" using p by (simp add: minus_mod_eq_div_mult [symmetric])
    ultimately have "a div p * p < k * p" by (simp add: mult.commute)
    then have "a div p < k" using p by (simp add: mult_less_cancel_right_pos)
    then show ?thesis by (simp add: round_mag_def Let_def p_def)
  qed
qed

lemma rep28_dec_fix: "rep28 (val (dec_fix d))"
proof (cases "dec_len d \<le> prec")
  case True
  then have "\<bar>coef d\<bar> \<le> 10 ^ prec" by (simp add: dec_len_le_iff)
  with True show ?thesis unfolding rep28_def val_def by (auto simp: dec_fix_def)
next
  case False
  then obtain c s where s: "s = dec_len d - prec" "0 < s"
    and c: "c = round_coef ROUND_HALF_EVEN (coef d) s"
    and v: "val (dec_fix d) = of_int (c * 10 ^ s) * 10 powi expo d"
    by (metis dec_fix_cases not_le)
  have "dec_len d = s + prec" using False s by simp
  then have "\<bar>coef d\<bar> < 10 ^ (s + prec)" using dec_len_le_iff [of "s + prec" d] by simp
  then have "\<bar>coef d\<bar> \<le> 10 ^ s * 10 ^ prec" by (simp add: power_add)
  then have "round_mag ROUND_HALF_EVEN \<bar>coef d\<bar> s \<le> 10 ^ prec" by (rule round_mag_upper)
  moreover have "\<bar>c\<bar> = (if coef d = 0 then 0 else round_mag ROUND_HALF_EVEN \<bar>coef d\<bar> s)"
    unfolding c round_coef_def by (simp add: abs_mult abs_sgn_eq round_mag_nonneg)
  ultimately have "\<bar>c\<bar> \<le> 10 ^ prec" by simp
  moreover have "val (dec_fix d) = of_int c * 10 powi (expo d + int s)"
    unfolding v by (simp add: power_int_add)
  ultimately show ?thesis unfolding rep28_def by blast
qed

section \<open>The arithmetic operations on values\<close>

lemma rep28_0 [simp]: "rep28 0"
  unfolding rep28_def by (rule exI [of _ 0]) simp

lemma rep28_uminusI: "rep28 x \<Longrightarrow> rep28 (- x)"
proof -
  assume "rep28 x"
  then obtain n k where "x = of_int n * 10 powi k" "\<bar>n\<bar> \<le> 10 ^ prec" by (auto simp: rep28_def)
  then have "- x = of_int (- n) * 10 powi k \<and> \<bar>- n\<bar> \<le> 10 ^ prec" by simp
  then show ?thesis unfolding rep28_def by blast
qed

lemma rep28_uminus [simp]: "rep28 (- x) \<longleftrightarrow> rep28 x"
  using rep28_uminusI [of x] rep28_uminusI [of "- x"] by auto

lemma rep28_abs: "rep28 x \<Longrightarrow> rep28 \<bar>x\<bar>"
  by (simp add: abs_if)

lemma rep28_ops [simp]:
  "rep28 (val (a + b))" "rep28 (val (a - b))" "rep28 (val (- a))"
  "rep28 (val (a * b))" "rep28 (val \<bar>a\<bar>)"
  by (simp_all add: plus_decimal_def minus_decimal_def uminus_decimal_def
      times_decimal_def abs_decimal_def rep28_dec_fix)

lemma val_neg_exact: "val (Dec (- coef a) (expo a)) = - val a"
  by (simp add: val_def)

lemma val_mult_exact: "val (Dec (coef a * coef b) (expo a + expo b)) = val a * val b"
  by (simp add: val_def power_int_add)

lemma val_abs_exact: "val (Dec \<bar>coef a\<bar> (expo a)) = \<bar>val a\<bar>"
  by (simp add: val_def abs_mult)

lemmas val_exacts = val_add_exact val_neg_exact val_mult_exact val_abs_exact

lemma val_add: "rep28 (val a + val b) \<Longrightarrow> val (a + b) = val a + val b"
  by (simp add: plus_decimal_def val_dec_fix val_exacts)

lemma val_diff: "rep28 (val a - val b) \<Longrightarrow> val (a - b) = val a - val b"
  by (simp add: minus_decimal_def val_dec_fix val_exacts)

lemma val_uminus: "rep28 (val a) \<Longrightarrow> val (- a) = - val a"
  by (simp add: uminus_decimal_def val_dec_fix val_exacts)

lemma val_mult: "rep28 (val a * val b) \<Longrightarrow> val (a * b) = val a * val b"
  by (simp add: times_decimal_def val_dec_fix val_exacts)

lemma val_abs: "rep28 (val a) \<Longrightarrow> val \<bar>a\<bar> = \<bar>val a\<bar>"
  by (simp add: abs_decimal_def val_dec_fix val_exacts rep28_abs)

lemma sgn_add: "sgn (val (a + b)) = sgn (val a + val b)"
  by (simp add: plus_decimal_def dec_fix_sgn val_exacts)

lemma sgn_diff: "sgn (val (a - b)) = sgn (val a - val b)"
  by (simp add: minus_decimal_def dec_fix_sgn val_exacts)

lemma sgn_uminus: "sgn (val (- a)) = - sgn (val a)"
  by (simp add: uminus_decimal_def dec_fix_sgn val_exacts sgn_minus)

lemma sgn_times: "sgn (val (a * b)) = sgn (val a) * sgn (val b)"
  by (simp add: times_decimal_def dec_fix_sgn val_exacts sgn_mult)

lemma sgn_abs_dec: "sgn (val \<bar>a\<bar>) = \<bar>sgn (val a)\<bar>"
  by (simp add: abs_decimal_def dec_fix_sgn val_exacts)

lemma sgn_cong_0: "sgn (x::rat) = sgn y \<Longrightarrow> (x = 0 \<longleftrightarrow> y = 0) \<and> (0 < x \<longleftrightarrow> 0 < y) \<and> (x < 0 \<longleftrightarrow> y < 0)"
  by (auto simp: sgn_if split: if_splits)

lemma val_diff_sign:
  "val (a - b) = 0 \<longleftrightarrow> val a = val b" "0 < val (a - b) \<longleftrightarrow> val b < val a"
  "val (a - b) < 0 \<longleftrightarrow> val a < val b"
  using sgn_cong_0 [OF sgn_diff, of a b] by auto

lemma val_add_sign:
  "val (a + b) = 0 \<longleftrightarrow> val a + val b = 0" "0 < val (a + b) \<longleftrightarrow> 0 < val a + val b"
  "val (a + b) < 0 \<longleftrightarrow> val a + val b < 0"
  using sgn_cong_0 [OF sgn_add, of a b] by auto

lemma val_uminus_sign:
  "val (- a) = 0 \<longleftrightarrow> val a = 0" "0 < val (- a) \<longleftrightarrow> val a < 0" "val (- a) < 0 \<longleftrightarrow> 0 < val a"
  using sgn_uminus [of a] by (auto simp: sgn_if split: if_splits)

lemma val_mult_sign:
  "val (a * b) = 0 \<longleftrightarrow> val a = 0 \<or> val b = 0"
  "0 < val a \<Longrightarrow> 0 < val b \<Longrightarrow> 0 < val (a * b)"
  "0 \<le> val a \<Longrightarrow> 0 \<le> val b \<Longrightarrow> 0 \<le> val (a * b)"
  using sgn_times [of a b] by (auto simp: sgn_if split: if_splits)

section \<open>Decimal grids: sums that are exact\<close>

text \<open>
  Money and share amounts live on a grid: multiples of \<open>10\<^sup>-\<^sup>k\<close>. As long as a sum of
  grid amounts has magnitude at most \<open>10\<^sup>2\<^sup>8\<^sup>-\<^sup>k\<close>, no rounding happens in it.
\<close>

definition grid :: "nat \<Rightarrow> rat \<Rightarrow> bool" where
  "grid k x \<longleftrightarrow> (\<exists>n. x * 10 ^ k = of_int n)"

definition room :: "nat \<Rightarrow> rat \<Rightarrow> bool" where
  "room k x \<longleftrightarrow> x * 10 ^ k \<le> 10 ^ prec"

lemma grid_0 [simp]: "grid k 0"
  unfolding grid_def by (rule exI [of _ 0]) simp

lemma grid_add: "grid k x \<Longrightarrow> grid k y \<Longrightarrow> grid k (x + y)"
  unfolding grid_def by (metis distrib_right of_int_add)

lemma grid_uminus: "grid k x \<Longrightarrow> grid k (- x)"
  unfolding grid_def by (metis mult_minus_left of_int_minus)

lemma grid_diff: "grid k x \<Longrightarrow> grid k y \<Longrightarrow> grid k (x - y)"
  using grid_add [of k x "- y"] grid_uminus [of k y] by simp

lemma grid_expo: "- int k \<le> expo d \<Longrightarrow> grid k (val d)"
  unfolding grid_def val_def
proof (rule exI)
  assume "- int k \<le> expo d"
  then have "(10::rat) ^ nat (expo d - (- int k)) * 10 powi (- int k) = 10 powi expo d" by (rule powi_split)
  then show "of_int (coef d) * 10 powi expo d * 10 ^ k = (of_int (coef d * 10 ^ nat (expo d + int k)) :: rat)"
    by (simp add: power_int_minus field_simps)
qed

lemma grid_mono: "grid j x \<Longrightarrow> j \<le> k \<Longrightarrow> grid k x"
proof -
  assume "grid j x" "j \<le> k"
  then obtain n where "x * 10 ^ j = of_int n" by (auto simp: grid_def)
  then have "x * 10 ^ k = of_int (n * 10 ^ (k - j))"
    using \<open>j \<le> k\<close> by (simp add: mult.assoc [symmetric] power_add [symmetric] flip: power_add)
      (metis le_add_diff_inverse mult.assoc power_add)
  then show ?thesis unfolding grid_def by blast
qed

lemma rep28_grid: "grid k x \<Longrightarrow> room k \<bar>x\<bar> \<Longrightarrow> rep28 x"
proof -
  assume "grid k x" and r: "room k \<bar>x\<bar>"
  then obtain n where n: "x * 10 ^ k = of_int n" by (auto simp: grid_def)
  then have "x = of_int n * 10 powi (- int k)"
    by (simp add: power_int_minus field_simps)
  moreover have "\<bar>n\<bar> \<le> 10 ^ prec"
  proof -
    have "\<bar>x * 10 ^ k\<bar> \<le> 10 ^ prec" using r by (simp add: room_def abs_mult)
    then have "of_int \<bar>n\<bar> \<le> (of_int (10 ^ prec) :: rat)" by (simp add: n)
    then show ?thesis by (simp only: of_int_le_iff)
  qed
  ultimately show ?thesis unfolding rep28_def by blast
qed

lemma room_mono: "room k x \<Longrightarrow> y \<le> x \<Longrightarrow> room k y"
  unfolding room_def by (meson mult_right_mono order_trans zero_le_numeral zero_le_power)

lemma val_add_grid:
  assumes "grid k (val a)" "grid k (val b)" "room k \<bar>val a + val b\<bar>"
  shows "val (a + b) = val a + val b"
  using assms by (intro val_add rep28_grid grid_add)

lemma exact_add_in_room:
  assumes "grid k (val a)" "grid k (val b)" "\<bar>val a\<bar> \<le> t" "room k (t + \<bar>val b\<bar>)"
  shows "val (a + b) = val a + val b"
proof (rule val_add_grid)
  have "\<bar>val a + val b\<bar> \<le> t + \<bar>val b\<bar>" using assms(3) by linarith
  with assms(4) show "room k \<bar>val a + val b\<bar>" by (rule room_mono)
qed (use assms in auto)

lemma val_diff_grid:
  assumes "grid k (val a)" "grid k (val b)" "room k \<bar>val a - val b\<bar>"
  shows "val (a - b) = val a - val b"
  using assms by (intro val_diff rep28_grid grid_diff)

lemma val_uminus_grid: "grid k (val a) \<Longrightarrow> room k \<bar>val a\<bar> \<Longrightarrow> val (- a) = - val a"
  by (intro val_uminus rep28_grid)

definition weight :: "decimal list \<Rightarrow> rat" where
  "weight ds = sum_list (map (\<lambda>d. \<bar>val d\<bar>) ds)"

definition on_grid :: "nat \<Rightarrow> decimal list \<Rightarrow> bool" where
  "on_grid k ds \<longleftrightarrow> list_all (\<lambda>d. grid k (val d)) ds"

lemma weight_simps [simp]:
  "weight [] = 0" "weight (d # ds) = \<bar>val d\<bar> + weight ds" "weight (ds @ es) = weight ds + weight es"
  by (simp_all add: weight_def)

lemma weight_nonneg [simp]: "0 \<le> weight ds"
  by (induction ds) auto

lemma abs_sum_le_weight: "\<bar>sum_list (map val ds)\<bar> \<le> weight ds"
  by (induction ds) auto

lemma weight_member: "d \<in> set ds \<Longrightarrow> \<bar>val d\<bar> \<le> weight ds"
proof (induction ds)
  case (Cons e ds)
  then show ?case using weight_nonneg [of ds] by auto
qed simp

lemma on_grid_simps [simp]:
  "on_grid k []" "on_grid k (d # ds) \<longleftrightarrow> grid k (val d) \<and> on_grid k ds"
  "on_grid k (ds @ es) \<longleftrightarrow> on_grid k ds \<and> on_grid k es"
  by (simp_all add: on_grid_def)

lemma grid_sum: "on_grid k ds \<Longrightarrow> grid k (sum_list (map val ds))"
  by (induction ds) (auto intro: grid_add)

lemma val_foldl_add:
  assumes "on_grid k ds" "grid k (val a)" "room k (\<bar>val a\<bar> + weight ds)"
  shows "val (foldl (+) a ds) = val a + sum_list (map val ds)"
  using assms
proof (induction ds arbitrary: a)
  case Nil
  then show ?case by simp
next
  case (Cons d ds)
  have "\<bar>val a + val d\<bar> \<le> \<bar>val a\<bar> + weight (d # ds)"
    using abs_triangle_ineq [of "val a" "val d"] weight_nonneg [of ds]
    unfolding weight_simps by linarith
  with Cons.prems(3) have r: "room k \<bar>val a + val d\<bar>" by (rule room_mono)
  have ad: "val (a + d) = val a + val d"
    using Cons.prems r by (intro val_add_grid) auto
  have "val (foldl (+) (a + d) ds) = val (a + d) + sum_list (map val ds)"
  proof (rule Cons.IH)
    show "on_grid k ds" "grid k (val (a + d))" using Cons.prems by (auto simp: ad intro: grid_add)
    show "room k (\<bar>val (a + d)\<bar> + weight ds)"
      using Cons.prems(3) by (rule room_mono) (simp add: ad abs_triangle_ineq)
  qed
  then show ?case by (simp add: ad)
qed

lemma val_dec_sum:
  assumes "on_grid k ds" "room k (weight ds)"
  shows "val (dec_sum ds) = sum_list (map val ds)"
  unfolding dec_sum_def using assms val_foldl_add [of k ds 0] by simp

section \<open>Sums off the grid: a bound on the rounding error\<close>

definition ulp28 :: rat where
  "ulp28 = 5 / 10 ^ 28"

lemma ulp28_pos: "0 < ulp28"
  by (simp add: ulp28_def)

lemma add_error: "\<bar>val (a + b) - (val a + val b)\<bar> \<le> ulp28 * \<bar>val a + val b\<bar>"
  using dec_fix_error [of "add_exact a b"]
  by (simp add: plus_decimal_def val_add_exact ulp28_def mult.commute)

lemma diff_error: "\<bar>val (a - b) - (val a - val b)\<bar> \<le> ulp28 * \<bar>val a - val b\<bar>"
  using dec_fix_error [of "add_exact a (Dec (- coef b) (expo b))"]
  by (simp add: minus_decimal_def val_exacts ulp28_def mult.commute)

lemma mult_error: "\<bar>val (a * b) - val a * val b\<bar> \<le> ulp28 * \<bar>val a * val b\<bar>"
  using dec_fix_error [of "Dec (coef a * coef b) (expo a + expo b)"]
  by (simp add: times_decimal_def val_exacts ulp28_def mult.commute)

lemma foldl_add_error:
  "\<bar>val (foldl (+) a ds) - (val a + sum_list (map val ds))\<bar>
     \<le> ((1 + ulp28) ^ length ds - 1) * (\<bar>val a\<bar> + weight ds)"
proof (induction ds arbitrary: a)
  case Nil
  then show ?case by simp
next
  case (Cons d ds)
  define g where "g = (1 + ulp28) ^ length ds - 1"
  define x where "x = \<bar>val a\<bar> + \<bar>val d\<bar>"
  define w where "w = weight ds"
  have g: "0 \<le> g" using ulp28_pos by (simp add: g_def)
  have w: "0 \<le> w" by (simp add: w_def)
  have err: "\<bar>val (a + d) - (val a + val d)\<bar> \<le> ulp28 * x"
  proof -
    have "ulp28 * \<bar>val a + val d\<bar> \<le> ulp28 * x"
      unfolding x_def using abs_triangle_ineq ulp28_pos by (intro mult_left_mono) simp_all
    with add_error [of a d] show ?thesis by linarith
  qed
  have mag: "\<bar>val (a + d)\<bar> \<le> (1 + ulp28) * x"
  proof -
    have "\<bar>val a + val d\<bar> \<le> x" unfolding x_def by (rule abs_triangle_ineq)
    with err have "\<bar>val (a + d)\<bar> \<le> x + ulp28 * x" by linarith
    then show ?thesis by (simp add: distrib_right)
  qed
  have "\<bar>val (foldl (+) (a + d) ds) - (val (a + d) + sum_list (map val ds))\<bar>
      \<le> g * (\<bar>val (a + d)\<bar> + w)"
    using Cons.IH [of "a + d"] by (simp add: g_def w_def)
  also have "\<dots> \<le> g * ((1 + ulp28) * x + w)"
    using mag g by (intro mult_left_mono) simp_all
  also have "\<dots> \<le> g * ((1 + ulp28) * (x + w))"
    using g w ulp28_pos by (intro mult_left_mono) (simp_all add: algebra_simps)
  finally have main: "\<bar>val (foldl (+) (a + d) ds) - (val (a + d) + sum_list (map val ds))\<bar>
      \<le> g * ((1 + ulp28) * (x + w))" .
  have "ulp28 * x \<le> ulp28 * (x + w)" using w ulp28_pos by (intro mult_left_mono) simp_all
  with main err have "\<bar>val (foldl (+) (a + d) ds) - (val a + val d + sum_list (map val ds))\<bar>
      \<le> g * ((1 + ulp28) * (x + w)) + ulp28 * (x + w)"
    by linarith
  also have "\<dots> = ((1 + ulp28) ^ length (d # ds) - 1) * (x + w)"
    by (simp add: g_def algebra_simps)
  finally show ?case by (simp add: x_def w_def add.assoc)
qed

end
