(* ===== verification/Decimal_Text.thy ===== *)
theory Decimal_Text
  imports Py_Decimal
begin

text \<open>
  \<^verbatim>\<open>str(Decimal)\<close> and \<^verbatim>\<open>Decimal(str)\<close>: every amount enters and leaves an event
  payload as text. \<open>dec_str\<close> is \<^verbatim>\<open>Decimal.__str__\<close>, \<open>dec_of_string\<close> the
  constructor's grammar for finite numbers (ASCII digits, optional sign, point and exponent,
  surrounding whitespace and underscores ignored). The strings of NaN and of the infinities
  are treated as unreadable. The constructor does not round.

  Main result: the text form is lossless, exponent included (\<open>dec_of_string_dec_str\<close>); the
  \<open>codec\<close> locale states this contract for any serialiser and lifts it to lists and
  dictionaries.
\<close>

section \<open>Digits\<close>

definition digit_char :: "int \<Rightarrow> char" where
  "digit_char n = char_of (48 + nat n)"

definition is_digit :: "char \<Rightarrow> bool" where
  "is_digit c \<longleftrightarrow> (48::nat) \<le> of_char c \<and> of_char c \<le> (57::nat)"

definition digit_val :: "char \<Rightarrow> int" where
  "digit_val c = int (of_char c) - 48"

function show_digits :: "int \<Rightarrow> string" where
  "show_digits n =
     (if n < 10 then [digit_char n] else show_digits (n div 10) @ [digit_char (n mod 10)])"
  by pat_completeness auto
termination
  by (relation "measure nat") auto

declare show_digits.simps [simp del]

definition read_digits :: "string \<Rightarrow> int" where
  "read_digits s = foldl (\<lambda>a c. 10 * a + digit_val c) 0 s"

definition show_int :: "int \<Rightarrow> string" where
  "show_int n = (if n < 0 then ''-'' else []) @ show_digits \<bar>n\<bar>"

section \<open>str and Decimal\<close>

definition exp_str :: "int \<Rightarrow> string" where
  "exp_str x = (if x = 0 then [] else ''E'' @ (if 0 \<le> x then ''+'' else ''-'') @ show_digits \<bar>x\<bar>)"

definition dec_str :: "decimal \<Rightarrow> string" where
  "dec_str d =
     (let ds = show_digits \<bar>coef d\<bar>;
          n = int (length ds);
          left = expo d + n;
          dot = (if expo d \<le> 0 \<and> -6 < left then left else 1);
          body = (if dot \<le> 0 then ''0.'' @ replicate (nat (- dot)) CHR ''0'' @ ds
                  else if n \<le> dot then ds @ replicate (nat (dot - n)) CHR ''0''
                  else take (nat dot) ds @ ''.'' @ drop (nat dot) ds)
      in (if coef d < 0 then ''-'' else []) @ body @ exp_str (left - dot))"

definition is_space :: "char \<Rightarrow> bool" where
  "is_space c \<longleftrightarrow> of_char c \<in> {32, 9, 10, 11, 12, 13, 28, 29, 30, 31, 133, 160 :: nat}"

definition py_strip :: "string \<Rightarrow> string" where
  "py_strip s = rev (dropWhile is_space (rev (dropWhile is_space s)))"

fun split_sign :: "string \<Rightarrow> bool \<times> string" where
  "split_sign [] = (False, [])"
| "split_sign (c # s) =
     (if c = CHR ''-'' then (True, s) else if c = CHR ''+'' then (False, s) else (False, c # s))"

fun split_frac :: "string \<Rightarrow> string \<times> string" where
  "split_frac [] = ([], [])"
| "split_frac (c # s) =
     (if c = CHR ''.'' then (takeWhile is_digit s, dropWhile is_digit s) else ([], c # s))"

fun read_exp :: "string \<Rightarrow> int option" where
  "read_exp [] = Some 0"
| "read_exp (c # s) =
     (if c = CHR ''E'' \<or> c = CHR ''e''
      then let (neg, ds) = split_sign s
           in if ds \<noteq> [] \<and> list_all is_digit ds
              then Some (if neg then - read_digits ds else read_digits ds) else None
      else None)"

definition dec_of_string :: "string \<Rightarrow> decimal option" where
  "dec_of_string s =
     (let (neg, u) = split_sign (filter (\<lambda>c. c \<noteq> CHR ''_'') (py_strip s));
          ip = takeWhile is_digit u;
          (fp, rest) = split_frac (dropWhile is_digit u);
          m = read_digits (ip @ fp)
      in if ip @ fp = [] then None
         else map_option (\<lambda>x. Dec (if neg then - m else m) (x - int (length fp))) (read_exp rest))"

section \<open>The round trip\<close>

lemma is_digit_digit_char: "0 \<le> n \<Longrightarrow> n < 10 \<Longrightarrow> is_digit (digit_char n)"
  by (simp add: is_digit_def digit_char_def of_char_of nat_le_iff)

lemma digit_val_digit_char: "0 \<le> n \<Longrightarrow> n < 10 \<Longrightarrow> digit_val (digit_char n) = n"
  by (simp add: digit_val_def digit_char_def of_char_of)

lemma show_digits_nonempty [simp]: "show_digits n \<noteq> []"
  by (subst show_digits.simps) simp

lemma length_show_digits: "length (show_digits n) = ndigits n"
  by (induction n rule: show_digits.induct) (simp add: show_digits.simps ndigits.simps)

lemma all_digits_show_digits: "0 \<le> n \<Longrightarrow> list_all is_digit (show_digits n)"
proof (induction n rule: show_digits.induct)
  case (1 n)
  then show ?case
    by (cases "n < 10")
      (simp_all add: show_digits.simps [of n] is_digit_digit_char pos_imp_zdiv_nonneg_iff)
qed

lemma read_digits_snoc: "read_digits (s @ [c]) = 10 * read_digits s + digit_val c"
  by (simp add: read_digits_def)

lemma read_digits_zeros: "read_digits (replicate k CHR ''0'' @ s) = read_digits s"
  by (induction k) (simp_all add: read_digits_def digit_val_def)

lemma read_show_digits: "0 \<le> n \<Longrightarrow> read_digits (show_digits n) = n"
proof (induction n rule: show_digits.induct)
  case (1 n)
  show ?case
  proof (cases "n < 10")
    case True
    with 1 show ?thesis
      by (simp add: show_digits.simps [of n] read_digits_def digit_val_digit_char)
  next
    case False
    with 1 have "read_digits (show_digits (n div 10)) = n div 10" by simp
    with False show ?thesis
      by (simp add: show_digits.simps [of n] read_digits_snoc digit_val_digit_char)
  qed
qed

lemma digit_not_special:
  assumes "is_digit c"
  shows "c \<noteq> CHR ''-''" "c \<noteq> CHR ''+''" "c \<noteq> CHR ''.''" "c \<noteq> CHR ''_''" "\<not> is_space c"
    "c \<noteq> CHR ''E''" "c \<noteq> CHR ''e''"
  using assms by (auto simp: is_digit_def is_space_def)

definition stop :: "string \<Rightarrow> bool" where
  "stop r \<longleftrightarrow> (case r of [] \<Rightarrow> True | c # _ \<Rightarrow> \<not> is_digit c)"

lemma span_digits:
  assumes "list_all is_digit ds" "stop r"
  shows "takeWhile is_digit (ds @ r) = ds" "dropWhile is_digit (ds @ r) = r"
proof -
  have r: "takeWhile is_digit r = []" "dropWhile is_digit r = r"
    using assms(2) by (auto simp: stop_def split: list.splits)
  show "takeWhile is_digit (ds @ r) = ds" "dropWhile is_digit (ds @ r) = r"
    using assms(1) r by (simp_all add: takeWhile_append2 dropWhile_append2 list_all_iff)
qed

lemma stop_exp_str: "stop (exp_str x)" "stop (CHR ''.'' # s)"
  by (simp_all add: stop_def exp_str_def is_digit_def)

lemma read_exp_exp_str: "read_exp (exp_str x) = Some x"
proof -
  have d: "list_all is_digit (show_digits \<bar>x\<bar>)" by (simp add: all_digits_show_digits)
  then show ?thesis
    by (cases "0 \<le> x") (auto simp: exp_str_def Let_def read_show_digits not_le abs_of_neg)
qed

text \<open>Texts of the numeral alphabet survive stripping and underscore removal.\<close>

definition numeral_text :: "string \<Rightarrow> bool" where
  "numeral_text s \<longleftrightarrow> list_all (\<lambda>c. is_digit c \<or> c \<in> {CHR ''-'', CHR ''+'', CHR ''.'', CHR ''E''}) s"

lemma numeral_text_append [simp]:
  "numeral_text (s @ t) \<longleftrightarrow> numeral_text s \<and> numeral_text t"
  by (simp add: numeral_text_def)

lemma numeral_text_digits: "list_all is_digit ds \<Longrightarrow> numeral_text ds"
  by (auto simp: numeral_text_def list_all_iff)

lemma numeral_text_exp_str: "numeral_text (exp_str x)"
  using numeral_text_digits [OF all_digits_show_digits, of "\<bar>x\<bar>"]
  by (auto simp: exp_str_def numeral_text_def)

lemma dropWhile_numeral: "numeral_text s \<Longrightarrow> dropWhile is_space s = s"
  by (cases s) (auto simp: numeral_text_def is_space_def is_digit_def)

lemma strip_numeral: "numeral_text s \<Longrightarrow> filter (\<lambda>c. c \<noteq> CHR ''_'') (py_strip s) = s"
proof -
  assume s: "numeral_text s"
  then have "numeral_text (rev s)" by (simp add: numeral_text_def)
  with s have "py_strip s = s" by (simp add: py_strip_def dropWhile_numeral)
  moreover have "filter (\<lambda>c. c \<noteq> CHR ''_'') s = s"
    using s by (auto simp: numeral_text_def list_all_iff is_digit_def filter_id_conv)
  ultimately show ?thesis by simp
qed

lemma dec_of_numeral:
  assumes ip: "list_all is_digit ip" "ip \<noteq> []" and fp: "list_all is_digit fp"
    and dot: "dot = CHR ''.'' # fp \<or> dot = [] \<and> fp = []"
  shows "dec_of_string ((if neg then ''-'' else []) @ ip @ dot @ exp_str x) =
    Some (Dec (if neg then - read_digits (ip @ fp) else read_digits (ip @ fp)) (x - int (length fp)))"
proof -
  let ?s = "(if neg then ''-'' else []) @ ip @ dot @ exp_str x"
  obtain c ip' where c: "ip = c # ip'" "is_digit c" using ip by (cases ip) auto
  have "numeral_text ?s"
    using ip fp dot numeral_text_exp_str
    by (auto simp: numeral_text_digits numeral_text_def [of "[_]"] numeral_text_def [of "_ # _"])
      (auto simp: numeral_text_def list_all_iff)
  then have sign: "split_sign (filter (\<lambda>c. c \<noteq> CHR ''_'') (py_strip ?s)) =
      (neg, ip @ dot @ exp_str x)"
    using c digit_not_special [OF c(2)] by (simp add: strip_numeral)
  have st: "stop (dot @ exp_str x)" using dot stop_exp_str by auto
  have frac: "split_frac (dot @ exp_str x) = (fp, exp_str x)"
    using dot
  proof
    assume "dot = CHR ''.'' # fp"
    then show ?thesis by (simp add: span_digits [OF fp stop_exp_str(1)])
  next
    assume "dot = [] \<and> fp = []"
    then show ?thesis by (simp add: exp_str_def)
  qed
  show ?thesis
    unfolding dec_of_string_def sign
    using ip by (simp add: Let_def span_digits [OF ip(1) st] frac read_exp_exp_str)
qed

theorem dec_of_string_dec_str: "dec_of_string (dec_str d) = Some d"
proof -
  define ds where "ds = show_digits \<bar>coef d\<bar>"
  define n where "n = int (length ds)"
  define left where "left = expo d + n"
  define dot where "dot = (if expo d \<le> 0 \<and> -6 < left then left else 1)"
  have ds: "list_all is_digit ds" "ds \<noteq> []" "read_digits ds = \<bar>coef d\<bar>"
    by (simp_all add: ds_def all_digits_show_digits read_show_digits)
  have n: "1 \<le> n" using ds(2) by (cases ds) (simp_all add: n_def)
  have signed: "(if coef d < 0 then - \<bar>coef d\<bar> else \<bar>coef d\<bar>) = coef d" by simp
  have z: "list_all is_digit (replicate k CHR ''0'')" for k
    by (simp add: list_all_iff is_digit_def)
  consider (lead) "dot \<le> 0" | (whole) "0 < dot" "n \<le> dot" | (point) "0 < dot" "dot < n"
    by linarith
  then show ?thesis
  proof cases
    case lead
    then have dl: "dot = left" by (simp add: dot_def split: if_splits)
    define fp where "fp = replicate (nat (- dot)) CHR ''0'' @ ds"
    have str: "dec_str d = (if coef d < 0 then ''-'' else []) @ ''0'' @ (CHR ''.'' # fp) @ exp_str 0"
      using lead dl unfolding dec_str_def Let_def ds_def [symmetric] n_def [symmetric]
        left_def [symmetric] dot_def [symmetric] fp_def by simp
    have "read_digits (''0'' @ fp) = \<bar>coef d\<bar>"
      using read_digits_zeros [of "Suc (nat (- dot))" ds] ds(3) by (simp add: fp_def)
    moreover have "0 - int (length fp) = expo d"
      using lead dl by (simp add: fp_def left_def n_def)
    moreover have "list_all is_digit fp" "list_all is_digit ''0''"
      using ds z by (simp_all add: fp_def is_digit_def)
    ultimately show ?thesis
      unfolding str using dec_of_numeral [of "''0''" fp "CHR ''.'' # fp" "coef d < 0" 0] signed
      by (cases d) simp
  next
    case whole
    have dn: "dot = n" and x: "left - dot = expo d"
      using whole n by (auto simp: dot_def left_def split: if_splits)
    have str: "dec_str d = (if coef d < 0 then ''-'' else []) @ ds @ [] @ exp_str (expo d)"
      using whole dn x unfolding dec_str_def Let_def ds_def [symmetric] n_def [symmetric]
        left_def [symmetric] dot_def [symmetric] by simp
    show ?thesis
      unfolding str using dec_of_numeral [OF ds(1,2), of "[]" "[]" "coef d < 0" "expo d"] ds signed
      by (cases d) simp
  next
    case point
    define ip where "ip = take (nat dot) ds"
    define fp where "fp = drop (nat dot) ds"
    have ipfp: "ip @ fp = ds" "int (length fp) = n - dot"
      using point by (simp_all add: ip_def fp_def n_def)
    have str: "dec_str d = (if coef d < 0 then ''-'' else []) @ ip @ (CHR ''.'' # fp) @ exp_str (left - dot)"
      using point unfolding dec_str_def Let_def ds_def [symmetric] n_def [symmetric]
        left_def [symmetric] dot_def [symmetric] ip_def fp_def by simp
    from ds(1) ipfp(1) have "list_all is_digit (ip @ fp)" by simp
    moreover have "ip \<noteq> []" using ds(2) point by (simp add: ip_def)
    ultimately have "list_all is_digit ip" "list_all is_digit fp" "ip \<noteq> []" by simp_all
    then show ?thesis
      unfolding str
      using dec_of_numeral [of ip fp "CHR ''.'' # fp" "coef d < 0" "left - dot"] ipfp ds signed
      by (cases d) (simp add: left_def)
  qed
qed

lemma read_show_int: "split_sign (show_int n) = (n < 0, show_digits \<bar>n\<bar>)"
proof -
  obtain c s where c: "show_digits \<bar>n\<bar> = c # s" by (cases "show_digits \<bar>n\<bar>") auto
  then have "is_digit c" using all_digits_show_digits [of "\<bar>n\<bar>"] by simp
  with c show ?thesis by (simp add: show_int_def digit_not_special)
qed

section \<open>Codecs\<close>

text \<open>
  The contract of a serialiser with a strict reader. Reading what was written gives the value
  back, hence writing is injective; the contract lifts to lists and to dictionaries.
\<close>

locale codec =
  fixes enc :: "'a \<Rightarrow> 'b"
    and dec :: "'b \<Rightarrow> 'a result"
  assumes dec_enc: "dec (enc x) = Inr x"
begin

lemma enc_inject: "enc x = enc y \<longleftrightarrow> x = y"
  by (metis dec_enc sum.inject(2))

lemma dec_enc_list: "mapR dec (map enc xs) = Inr xs"
  by (induction xs) (simp_all add: dec_enc)

lemma dec_enc_dict:
  "mapR (\<lambda>(k, v). bindR (dec v) (\<lambda>y. Inr (k, y))) (map (\<lambda>(k, x). (k, enc x)) d) = Inr d"
  by (induction d) (auto simp: dec_enc)

end

definition decimal_of_text :: "string \<Rightarrow> decimal result" where
  "decimal_of_text s = (case dec_of_string s of None \<Rightarrow> Inl InvalidOperation | Some d \<Rightarrow> Inr d)"

interpretation dec_text: codec dec_str decimal_of_text
  by unfold_locales (simp add: decimal_of_text_def dec_of_string_dec_str)

end
