(* ===== verification/Payload.thy ===== *)
theory Payload
  imports Decimal_Text
begin

text \<open>
  Event payloads: \<^verbatim>\<open>dict[str, object]\<close> values as they come out of a JSONB column or
  out of a planner. A float is represented by its \<^verbatim>\<open>repr\<close> text, the only way the ledger
  reads it. The readers are the Python expressions the ledger applies to a payload:
  \<^verbatim>\<open>data[key]\<close> (\<open>field\<close>), \<^verbatim>\<open>str(v)\<close> (\<open>py_str\<close>),
  \<^verbatim>\<open>Decimal(str(v))\<close> (\<open>decimal_str\<close>), \<^verbatim>\<open>int(v)\<close> (\<open>py_int\<close>) and the
  truth value of an object (\<open>truthy\<close>).
\<close>

datatype json =
    JNull
  | JBool bool
  | JInt int
  | JFloat string
  | JDec decimal
  | JStr string
  | JList "json list"
  | JObj "(string \<times> json) list"

type_synonym payload = "(string, json) dict"

section \<open>str and repr\<close>

definition hex_char :: "nat \<Rightarrow> char" where
  "hex_char n = (if n < 10 then char_of (48 + n) else char_of (87 + n))"

definition repr_char :: "char \<Rightarrow> char \<Rightarrow> string" where
  "repr_char q c =
     (let n = (of_char c :: nat)
      in if c = CHR 0x5C \<or> c = q then [CHR 0x5C, c]
         else if n = 9 then [CHR 0x5C, CHR ''t'']
         else if n = 10 then [CHR 0x5C, CHR ''n'']
         else if n = 13 then [CHR 0x5C, CHR ''r'']
         else if n < 32 \<or> n = 127
              then [CHR 0x5C, CHR ''x'', hex_char (n div 16), hex_char (n mod 16)]
         else [c])"

definition repr_str :: "string \<Rightarrow> string" where
  "repr_str s =
     (let q = (if CHR 0x27 \<in> set s \<and> CHR 0x22 \<notin> set s then CHR 0x22 else CHR 0x27)
      in [q] @ concat (map (repr_char q) s) @ [q])"

fun join :: "string \<Rightarrow> string list \<Rightarrow> string" where
  "join sep [] = []"
| "join sep [s] = s"
| "join sep (s # t # ts) = s @ sep @ join sep (t # ts)"

fun py_repr :: "json \<Rightarrow> string" where
  "py_repr JNull = ''None''"
| "py_repr (JBool b) = (if b then ''True'' else ''False'')"
| "py_repr (JInt n) = show_int n"
| "py_repr (JFloat r) = r"
| "py_repr (JDec d) = ''Decimal('' @ repr_str (dec_str d) @ '')''"
| "py_repr (JStr s) = repr_str s"
| "py_repr (JList vs) = ''['' @ join '', '' (map py_repr vs) @ '']''"
| "py_repr (JObj kvs) =
     ''{'' @ join '', '' (map (\<lambda>kv. repr_str (fst kv) @ '': '' @ py_repr (snd kv)) kvs) @ ''}''"

fun py_str :: "json \<Rightarrow> string" where
  "py_str (JStr s) = s"
| "py_str (JDec d) = dec_str d"
| "py_str v = py_repr v"

fun truthy :: "json \<Rightarrow> bool" where
  "truthy JNull = False"
| "truthy (JBool b) = b"
| "truthy (JInt n) = (n \<noteq> 0)"
| "truthy (JFloat r) = (case dec_of_string r of Some d \<Rightarrow> \<not> is_zero d | None \<Rightarrow> True)"
| "truthy (JDec d) = (\<not> is_zero d)"
| "truthy (JStr s) = (s \<noteq> [])"
| "truthy (JList vs) = (vs \<noteq> [])"
| "truthy (JObj kvs) = (kvs \<noteq> [])"

section \<open>Reading fields\<close>

definition field :: "payload \<Rightarrow> string \<Rightarrow> json result" where
  "field data k = (case map_of data k of None \<Rightarrow> Inl KeyError | Some v \<Rightarrow> Inr v)"

text \<open>\<^verbatim>\<open>data.get(k)\<close> with an absent key read as \<^verbatim>\<open>None\<close>.\<close>

definition get_opt :: "payload \<Rightarrow> string \<Rightarrow> json" where
  "get_opt data k = dict_get data k JNull"

definition has_key :: "payload \<Rightarrow> string \<Rightarrow> bool" where
  "has_key data k = (map_of data k \<noteq> None)"

fun as_dict :: "json \<Rightarrow> payload result" where
  "as_dict (JObj kvs) = Inr kvs"
| "as_dict v = Inl TypeError"

fun as_list :: "json \<Rightarrow> json list result" where
  "as_list (JList vs) = Inr vs"
| "as_list v = Inl TypeError"

definition str_field :: "payload \<Rightarrow> string \<Rightarrow> string result" where
  "str_field data k = bindR (field data k) (\<lambda>v. Inr (py_str v))"

definition decimal_str :: "json \<Rightarrow> decimal result" where
  "decimal_str v = decimal_of_text (py_str v)"

definition decimal_str_field :: "payload \<Rightarrow> string \<Rightarrow> decimal result" where
  "decimal_str_field data k = bindR (field data k) decimal_str"

definition dec_trunc :: "decimal \<Rightarrow> int" where
  "dec_trunc d =
     (if 0 \<le> expo d then coef d * 10 ^ nat (expo d)
      else sgn (coef d) * (\<bar>coef d\<bar> div 10 ^ nat (- expo d)))"

fun digits_with_underscores :: "bool \<Rightarrow> string \<Rightarrow> bool" where
  "digits_with_underscores after [] = after"
| "digits_with_underscores after (c # s) =
     (if is_digit c then digits_with_underscores True s
      else if c = CHR ''_'' \<and> after then digits_with_underscores False s
      else False)"

definition int_of_text :: "string \<Rightarrow> int result" where
  "int_of_text s =
     (let (neg, u) = split_sign (py_strip s); n = read_digits (filter is_digit u)
      in if digits_with_underscores False u then Inr (if neg then - n else n) else Inl ValueError)"

fun py_int :: "json \<Rightarrow> int result" where
  "py_int (JInt n) = Inr n"
| "py_int (JBool b) = Inr (if b then 1 else 0)"
| "py_int (JStr s) = int_of_text s"
| "py_int (JDec d) = Inr (dec_trunc d)"
| "py_int (JFloat r) =
     (case dec_of_string r of Some d \<Rightarrow> Inr (dec_trunc d) | None \<Rightarrow> Inl ValueError)"
| "py_int v = Inl TypeError"

section \<open>Facts about the readers\<close>

lemma field_simps_payload [result_simps]:
  "field ((k, v) # d) j = (if j = k then Inr v else field d j)" "field [] j = Inl KeyError"
  by (simp_all add: field_def)

lemma str_field_Inr: "map_of data k = Some v \<Longrightarrow> str_field data k = Inr (py_str v)"
  by (simp add: str_field_def field_def)

lemma decimal_str_JStr [simp]: "decimal_str (JStr (dec_str d)) = Inr d"
  by (simp add: decimal_str_def dec_text.dec_enc)

lemma decimal_str_JDec [simp]: "decimal_str (JDec d) = Inr d"
  by (simp add: decimal_str_def dec_text.dec_enc)

lemma digits_with_underscores_digits:
  "list_all is_digit s \<Longrightarrow> digits_with_underscores after s \<longleftrightarrow> (if s = [] then after else True)"
  by (induction s arbitrary: after) auto

lemma int_of_text_show_int: "int_of_text (show_int n) = Inr n"
proof -
  have d: "list_all is_digit (show_digits \<bar>n\<bar>)" by (simp add: all_digits_show_digits)
  then have nt: "numeral_text (show_int n)"
    by (simp add: show_int_def numeral_text_digits) (simp add: numeral_text_def)
  then have "numeral_text (rev (show_int n))" by (simp add: numeral_text_def)
  with nt have "py_strip (show_int n) = show_int n" by (simp add: py_strip_def dropWhile_numeral)
  moreover have "read_digits (filter is_digit (show_digits \<bar>n\<bar>)) = \<bar>n\<bar>"
    using d by (simp add: filter_True list_all_iff read_show_digits)
  ultimately show ?thesis
    using d by (cases "n < 0")
      (simp_all add: int_of_text_def Let_def read_show_int digits_with_underscores_digits)
qed

end
