(* ===== verification/Ledger_Model.thy ===== *)
theory Ledger_Model
  imports Payload
begin

text \<open>
  The persisted vocabulary of the portfolio ledger (\<^verbatim>\<open>llamatrade_db/models/ledger.py\<close>):
  the event types with their stored string values, sleeve types and statuses, and the columns
  of a \<^verbatim>\<open>LedgerEvent\<close> row that the ledger kernel reads. Identifiers (UUIDs) are kept as
  their canonical strings, timestamps as integers (microseconds).
\<close>

datatype LedgerEventType =
    FUNDS_DEPOSITED | FUNDS_WITHDRAWN | CAPITAL_ALLOCATED | CAPITAL_TRANSFERRED
  | ORDER_INTENDED | ORDER_SUBMITTED | ORDER_ACCEPTED | ORDER_REJECTED
  | ORDER_FILLED | ORDER_CANCELLED
  | LOT_OPENED | LOT_INCREASED | LOT_REDUCED | LOT_CLOSED
  | CASH_DEBITED | CASH_CREDITED | DIVIDEND_RECEIVED | FEE_CHARGED | INTEREST_ACCRUED
  | SPLIT_APPLIED | SYMBOL_CHANGED
  | EXTERNAL_TRADE_DETECTED | DRIFT_CORRECTED | RECONCILIATION_ADJUSTED
  | SLEEVE_OPENED | SLEEVE_CLOSED | SLEEVE_FROZEN | SLEEVE_RESUMED

datatype SleeveType = STRATEGY | MANUAL | UNMANAGED | UNALLOCATED

datatype SleeveStatus = ACTIVE | FROZEN | CLOSED

fun event_value :: "LedgerEventType \<Rightarrow> string" where
  "event_value FUNDS_DEPOSITED = ''funds_deposited''"
| "event_value FUNDS_WITHDRAWN = ''funds_withdrawn''"
| "event_value CAPITAL_ALLOCATED = ''capital_allocated''"
| "event_value CAPITAL_TRANSFERRED = ''capital_transferred''"
| "event_value ORDER_INTENDED = ''order_intended''"
| "event_value ORDER_SUBMITTED = ''order_submitted''"
| "event_value ORDER_ACCEPTED = ''order_accepted''"
| "event_value ORDER_REJECTED = ''order_rejected''"
| "event_value ORDER_FILLED = ''order_filled''"
| "event_value ORDER_CANCELLED = ''order_cancelled''"
| "event_value LOT_OPENED = ''lot_opened''"
| "event_value LOT_INCREASED = ''lot_increased''"
| "event_value LOT_REDUCED = ''lot_reduced''"
| "event_value LOT_CLOSED = ''lot_closed''"
| "event_value CASH_DEBITED = ''cash_debited''"
| "event_value CASH_CREDITED = ''cash_credited''"
| "event_value DIVIDEND_RECEIVED = ''dividend_received''"
| "event_value FEE_CHARGED = ''fee_charged''"
| "event_value INTEREST_ACCRUED = ''interest_accrued''"
| "event_value SPLIT_APPLIED = ''split_applied''"
| "event_value SYMBOL_CHANGED = ''symbol_changed''"
| "event_value EXTERNAL_TRADE_DETECTED = ''external_trade_detected''"
| "event_value DRIFT_CORRECTED = ''drift_corrected''"
| "event_value RECONCILIATION_ADJUSTED = ''reconciliation_adjusted''"
| "event_value SLEEVE_OPENED = ''sleeve_opened''"
| "event_value SLEEVE_CLOSED = ''sleeve_closed''"
| "event_value SLEEVE_FROZEN = ''sleeve_frozen''"
| "event_value SLEEVE_RESUMED = ''sleeve_resumed''"

definition event_types :: "LedgerEventType list" where
  "event_types =
     [FUNDS_DEPOSITED, FUNDS_WITHDRAWN, CAPITAL_ALLOCATED, CAPITAL_TRANSFERRED,
      ORDER_INTENDED, ORDER_SUBMITTED, ORDER_ACCEPTED, ORDER_REJECTED, ORDER_FILLED,
      ORDER_CANCELLED, LOT_OPENED, LOT_INCREASED, LOT_REDUCED, LOT_CLOSED, CASH_DEBITED,
      CASH_CREDITED, DIVIDEND_RECEIVED, FEE_CHARGED, INTEREST_ACCRUED, SPLIT_APPLIED,
      SYMBOL_CHANGED, EXTERNAL_TRADE_DETECTED, DRIFT_CORRECTED, RECONCILIATION_ADJUSTED,
      SLEEVE_OPENED, SLEEVE_CLOSED, SLEEVE_FROZEN, SLEEVE_RESUMED]"

text \<open>\<^verbatim>\<open>LedgerEventType(value)\<close>: the enum member with that value, or a ValueError.\<close>

definition event_type_of :: "string \<Rightarrow> LedgerEventType result" where
  "event_type_of s =
     (case find (\<lambda>t. event_value t = s) event_types of
        None \<Rightarrow> Inl ValueError | Some t \<Rightarrow> Inr t)"

record ledger_event =
  ev_id :: string
  ev_tenant :: string
  ev_account :: string
  ev_sleeve :: "string option"
  ev_type :: string
  ev_data :: payload
  ev_sequence :: "int option"
  ev_created_at :: "int option"
  ev_occurred_at :: "int option"

lemma event_type_of_value [simp]: "event_type_of (event_value t) = Inr t"
  by (cases t) (simp_all add: event_type_of_def event_types_def)

interpretation event_enum: codec event_value event_type_of
  by unfold_locales simp

lemma event_type_of_Inr: "event_type_of s = Inr t \<longleftrightarrow> s = event_value t"
proof
  assume "event_type_of s = Inr t"
  then show "s = event_value t"
    by (auto simp: event_type_of_def find_Some_iff split: option.splits)
qed simp

end
