(* ===== verification/Postings.thy ===== *)
theory Postings
  imports Ledger_Model
begin

text \<open>
  Double-entry postings (\<^verbatim>\<open>ledger/postings.py\<close>): the buckets, the posting record, the
  expansion of a ledger event into postings and the conservation check.

  The theory part shows what passing \<open>assert_balanced\<close> means for the exact dollar amounts:
  the legs sum to zero up to the context's rounding (\<open>balanced_within_rounding\<close>), and exactly
  when the legs lie on a common decimal grid (\<open>balanced_on_grid\<close>).
\<close>

datatype Bucket = CASH | POSITION | PNL | EXTERNAL

record posting =
  p_sleeve :: "string option"
  p_bucket :: Bucket
  p_amount :: decimal
  p_symbol :: "string option"
  p_qty :: "decimal option"

definition Posting :: "string option \<Rightarrow> Bucket \<Rightarrow> decimal \<Rightarrow> posting" where
  "Posting s b a = \<lparr>p_sleeve = s, p_bucket = b, p_amount = a, p_symbol = None, p_qty = None\<rparr>"

definition PositionLeg :: "string \<Rightarrow> decimal \<Rightarrow> string \<Rightarrow> decimal \<Rightarrow> posting" where
  "PositionLeg s a symbol q =
     \<lparr>p_sleeve = Some s, p_bucket = POSITION, p_amount = a, p_symbol = Some symbol,
      p_qty = Some q\<rparr>"

definition opposite_signed :: "posting \<Rightarrow> bool" where
  "opposite_signed p \<longleftrightarrow>
     p_bucket p = POSITION \<and>
     (case p_qty p of None \<Rightarrow> False
      | Some q \<Rightarrow> (0 < p_amount p \<and> q < 0) \<or> (p_amount p < 0 \<and> 0 < q))"

definition assert_balanced :: "posting list \<Rightarrow> unit result" where
  "assert_balanced ps =
     (if \<not> is_zero (dec_sum (map p_amount ps)) then Inl UnbalancedEventError
      else if list_ex opposite_signed ps then Inl UnbalancedEventError
      else Inr ())"

fun d_value :: "json \<Rightarrow> decimal result" where
  "d_value (JDec d) = Inr d"
| "d_value (JStr s) = decimal_of_text s"
| "d_value (JInt n) = Inr (Dec n 0)"
| "d_value (JBool b) = Inr (Dec (if b then 1 else 0) 0)"
| "d_value (JFloat r) = decimal_of_text r"
| "d_value v = Inl TypeError"

definition d_field :: "payload \<Rightarrow> string \<Rightarrow> decimal result" where
  "d_field data k = bindR (field data k) d_value"

definition d_field_or_zero :: "payload \<Rightarrow> string \<Rightarrow> decimal result" where
  "d_field_or_zero data k = (if has_key data k then d_field data k else Inr 0)"

definition order_filled_postings :: "payload \<Rightarrow> posting list result" where
  "order_filled_postings data =
     bindR (str_field data ''sleeve_id'') (\<lambda>sleeve.
     bindR (str_field data ''symbol'') (\<lambda>symbol.
     bindR (str_field data ''side'') (\<lambda>raw_side.
     bindR (d_field data ''qty'') (\<lambda>qty.
     bindR (d_field data ''price'') (\<lambda>price.
     bindR (d_field_or_zero data ''fees'') (\<lambda>fees.
       let side = py_lower raw_side; notional = qty * price
       in if side = ''buy'' then
            Inr [Posting (Some sleeve) CASH (- (notional + fees)),
                 PositionLeg sleeve notional symbol qty,
                 Posting (Some sleeve) PNL fees]
          else if side = ''sell'' then
            (if \<not> has_key data ''cost_basis'' then Inl ValueError
             else bindR (d_field data ''cost_basis'') (\<lambda>cost.
                    let realized = notional - cost - fees
                    in Inr [PositionLeg sleeve (- cost) symbol (- qty),
                            Posting (Some sleeve) CASH (notional - fees),
                            Posting (Some sleeve) PNL (- realized)]))
          else Inl ValueError))))))"

definition rehome_postings :: "string \<Rightarrow> string \<Rightarrow> json \<Rightarrow> posting list result" where
  "rehome_postings frm to_positions v =
     bindR (as_dict v) (\<lambda>entry.
     bindR (str_field entry ''symbol'') (\<lambda>symbol.
     bindR (d_field entry ''qty'') (\<lambda>qty.
     bindR (d_field entry ''cost_basis'') (\<lambda>cost.
       Inr [PositionLeg frm (- cost) symbol (- qty), PositionLeg to_positions cost symbol qty]))))"

definition sleeve_closed_postings :: "payload \<Rightarrow> posting list result" where
  "sleeve_closed_postings data =
     bindR (str_field data ''sleeve_id'') (\<lambda>frm.
     bindR (if truthy (get_opt data ''positions'')
            then bindR (str_field data ''to_position_sleeve_id'') (\<lambda>to_positions.
                 bindR (as_list (get_opt data ''positions'')) (\<lambda>entries.
                 bindR (mapR (rehome_postings frm to_positions) entries) (\<lambda>legs.
                   Inr (concat legs))))
            else Inr []) (\<lambda>position_legs.
     bindR (d_field_or_zero data ''cash'') (\<lambda>cash.
       if is_zero cash then Inr position_legs
       else bindR (str_field data ''to_cash_sleeve_id'') (\<lambda>to_cash.
              Inr (position_legs @ [Posting (Some frm) CASH (- cash),
                                    Posting (Some to_cash) CASH cash])))))"

definition transfer_postings :: "payload \<Rightarrow> posting list result" where
  "transfer_postings data =
     bindR (d_field data ''amount'') (\<lambda>amount.
     bindR (str_field data ''from_sleeve_id'') (\<lambda>frm.
     bindR (str_field data ''to_sleeve_id'') (\<lambda>to.
       Inr [Posting (Some frm) CASH (- amount), Posting (Some to) CASH amount])))"

definition income_postings :: "payload \<Rightarrow> posting list result" where
  "income_postings data =
     bindR (d_field data ''amount'') (\<lambda>amount.
     bindR (str_field data ''sleeve_id'') (\<lambda>sleeve.
       Inr [Posting (Some sleeve) CASH amount, Posting (Some sleeve) PNL (- amount)]))"

fun build_postings :: "LedgerEventType \<Rightarrow> payload \<Rightarrow> posting list result" where
  "build_postings CAPITAL_ALLOCATED data = transfer_postings data"
| "build_postings CAPITAL_TRANSFERRED data = transfer_postings data"
| "build_postings FUNDS_DEPOSITED data =
     bindR (d_field data ''amount'') (\<lambda>amount.
     bindR (str_field data ''sleeve_id'') (\<lambda>sleeve.
       Inr [Posting None EXTERNAL (- amount), Posting (Some sleeve) CASH amount]))"
| "build_postings FUNDS_WITHDRAWN data =
     bindR (d_field data ''amount'') (\<lambda>amount.
     bindR (str_field data ''sleeve_id'') (\<lambda>sleeve.
       Inr [Posting (Some sleeve) CASH (- amount), Posting None EXTERNAL amount]))"
| "build_postings ORDER_FILLED data = order_filled_postings data"
| "build_postings DIVIDEND_RECEIVED data = income_postings data"
| "build_postings INTEREST_ACCRUED data = income_postings data"
| "build_postings FEE_CHARGED data =
     bindR (d_field data ''amount'') (\<lambda>amount.
     bindR (str_field data ''sleeve_id'') (\<lambda>sleeve.
       Inr [Posting (Some sleeve) CASH (- amount), Posting (Some sleeve) PNL amount]))"
| "build_postings SPLIT_APPLIED data =
     bindR (str_field data ''sleeve_id'') (\<lambda>sleeve.
     bindR (str_field data ''symbol'') (\<lambda>symbol.
     bindR (d_field data ''qty_delta'') (\<lambda>qty_delta.
       Inr [PositionLeg sleeve 0 symbol qty_delta])))"
| "build_postings SYMBOL_CHANGED data =
     bindR (str_field data ''sleeve_id'') (\<lambda>sleeve.
     bindR (str_field data ''old_symbol'') (\<lambda>old_symbol.
     bindR (str_field data ''new_symbol'') (\<lambda>new_symbol.
     bindR (d_field data ''qty'') (\<lambda>qty.
     bindR (d_field data ''cost_basis'') (\<lambda>cost.
       Inr [PositionLeg sleeve (- cost) old_symbol (- qty),
            PositionLeg sleeve cost new_symbol qty])))))"
| "build_postings EXTERNAL_TRADE_DETECTED data =
     bindR (str_field data ''sleeve_id'') (\<lambda>sleeve.
     bindR (str_field data ''symbol'') (\<lambda>symbol.
     bindR (d_field data ''qty'') (\<lambda>qty.
     bindR (d_field data ''price'') (\<lambda>price.
       let notional = qty * price
       in Inr [Posting None EXTERNAL (- notional), PositionLeg sleeve notional symbol qty]))))"
| "build_postings SLEEVE_CLOSED data = sleeve_closed_postings data"
| "build_postings _ data = Inr []"

section \<open>What the conservation check guarantees\<close>

abbreviation amounts :: "posting list \<Rightarrow> decimal list" where
  "amounts ps \<equiv> map p_amount ps"

definition leg_total :: "posting list \<Rightarrow> rat" where
  "leg_total ps = sum_list (map (\<lambda>p. val (p_amount p)) ps)"

lemma leg_total_simps [simp]:
  "leg_total [] = 0" "leg_total (p # ps) = val (p_amount p) + leg_total ps"
  "leg_total (ps @ qs) = leg_total ps + leg_total qs"
  by (simp_all add: leg_total_def)

lemma leg_total_amounts: "leg_total ps = sum_list (map val (amounts ps))"
  by (simp add: leg_total_def comp_def)

lemma assert_balanced_iff:
  "assert_balanced ps = Inr () \<longleftrightarrow>
     val (dec_sum (amounts ps)) = 0 \<and> \<not> list_ex opposite_signed ps"
  by (simp add: assert_balanced_def is_zero_val)

lemma assert_balanced_error_class: "assert_balanced ps = Inl e \<Longrightarrow> e = UnbalancedEventError"
  by (auto simp: assert_balanced_def split: if_splits)

lemma balanced_within_rounding:
  assumes "assert_balanced ps = Inr ()"
  shows "\<bar>leg_total ps\<bar> \<le> ((1 + ulp28) ^ length ps - 1) * weight (amounts ps)"
  using assms foldl_add_error [of 0 "amounts ps"]
  by (simp add: assert_balanced_iff dec_sum_def leg_total_amounts)

lemma balanced_on_grid:
  assumes "on_grid k (amounts ps)" "room k (weight (amounts ps))"
  shows "assert_balanced ps = Inr () \<longleftrightarrow> leg_total ps = 0 \<and> \<not> list_ex opposite_signed ps"
  using assms by (simp add: assert_balanced_iff val_dec_sum leg_total_amounts)

section \<open>The shape of built postings\<close>

text \<open>
  The legs an event expands to are well formed: exactly the EXTERNAL legs have no sleeve, and
  every POSITION leg names a symbol and a share quantity.
\<close>

definition wf_posting :: "posting \<Rightarrow> bool" where
  "wf_posting p \<longleftrightarrow>
     (p_sleeve p = None \<longleftrightarrow> p_bucket p = EXTERNAL) \<and>
     (p_bucket p = POSITION \<longrightarrow> p_symbol p \<noteq> None \<and> p_qty p \<noteq> None)"

lemmas leg_defs = Posting_def PositionLeg_def

lemma wf_legs [simp]:
  "wf_posting (Posting (Some s) CASH a)" "wf_posting (Posting (Some s) PNL a)"
  "wf_posting (Posting None EXTERNAL a)" "wf_posting (PositionLeg s a y q)"
  by (simp_all add: wf_posting_def leg_defs)

lemma wf_rehome: "rehome_postings frm to v = Inr ps \<Longrightarrow> list_all wf_posting ps"
  by (auto simp: rehome_postings_def result_simps)

lemma wf_mapR_rehome:
  "mapR (rehome_postings frm to) vs = Inr legs \<Longrightarrow> list_all wf_posting (concat legs)"
  by (induction vs arbitrary: legs) (auto simp: result_simps dest: wf_rehome)

lemma wf_sleeve_closed: "sleeve_closed_postings data = Inr ps \<Longrightarrow> list_all wf_posting ps"
  by (auto simp: sleeve_closed_postings_def result_simps dest: wf_mapR_rehome split: if_splits)

lemma wf_order_filled: "order_filled_postings data = Inr ps \<Longrightarrow> list_all wf_posting ps"
  by (auto simp: order_filled_postings_def result_simps Let_def split: if_splits)

lemma build_postings_wf: "build_postings t data = Inr ps \<Longrightarrow> list_all wf_posting ps"
  by (cases t)
    (auto simp: result_simps transfer_postings_def income_postings_def Let_def
      dest: wf_sleeve_closed wf_order_filled)

section \<open>Errors are data errors\<close>

lemma decimal_of_text_error: "decimal_of_text s = Inl e \<Longrightarrow> data_error e"
  by (auto simp: decimal_of_text_def split: option.splits)

lemma field_error: "field data k = Inl e \<Longrightarrow> data_error e"
  by (auto simp: field_def split: option.splits)

lemma str_field_error: "str_field data k = Inl e \<Longrightarrow> data_error e"
  by (auto simp: str_field_def result_simps dest: field_error)

lemma d_value_error: "d_value v = Inl e \<Longrightarrow> data_error e"
  by (cases v) (auto dest: decimal_of_text_error)

lemma d_field_error: "d_field data k = Inl e \<Longrightarrow> data_error e"
  by (auto simp: d_field_def result_simps dest: field_error d_value_error)

lemma d_field_or_zero_error: "d_field_or_zero data k = Inl e \<Longrightarrow> data_error e"
  by (auto simp: d_field_or_zero_def dest: d_field_error split: if_splits)

lemma as_dict_error: "as_dict v = Inl e \<Longrightarrow> data_error e"
  by (cases v) auto

lemma as_list_error: "as_list v = Inl e \<Longrightarrow> data_error e"
  by (cases v) auto

lemmas reader_errors = field_error str_field_error d_field_error d_field_or_zero_error
  as_dict_error as_list_error decimal_of_text_error

lemma mapR_error: "(\<And>x e. f x = Inl e \<Longrightarrow> P e) \<Longrightarrow> mapR f xs = Inl e \<Longrightarrow> P e"
  by (induction xs) (auto simp: result_simps)

lemma rehome_error: "rehome_postings frm to v = Inl e \<Longrightarrow> data_error e"
  by (auto simp: rehome_postings_def result_simps dest: reader_errors)

lemma mapR_rehome_error: "mapR (rehome_postings frm to) vs = Inl e \<Longrightarrow> data_error e"
  using mapR_error [of "rehome_postings frm to" data_error] rehome_error by blast

lemma sleeve_closed_error: "sleeve_closed_postings data = Inl e \<Longrightarrow> data_error e"
  by (auto simp: sleeve_closed_postings_def result_simps
      dest: reader_errors mapR_rehome_error split: if_splits)

lemma order_filled_error: "order_filled_postings data = Inl e \<Longrightarrow> data_error e"
  by (auto simp: order_filled_postings_def result_simps Let_def dest: reader_errors split: if_splits)

lemma build_postings_error: "build_postings t data = Inl e \<Longrightarrow> data_error e"
  by (cases t)
    (auto simp: result_simps transfer_postings_def income_postings_def Let_def
      dest: reader_errors sleeve_closed_error order_filled_error)

end
