(* ===== verification/Projection.thy ===== *)
theory Projection
  imports Postings
begin

text \<open>
  The balance fold (\<^verbatim>\<open>ledger/projection.py\<close>, first half): sleeves, account projection,
  reservation lifecycle, \<^verbatim>\<open>fold_into\<close>. The in-place mutation of the projection and of the
  reservation state is state passing over the pair \<open>fold_state\<close>.

  Shown here: an event either applies or leaves sleeves and reservations untouched; every
  exception an event can raise is one the fold catches; a fold resumes from a checkpoint;
  value is conserved (\<open>fold_conserves\<close>); the terminal-order window stays bounded; reserved
  cash is exactly the open reservations (\<open>reserved_is_pending\<close>).
\<close>

section \<open>State\<close>

record position_state =
  ps_qty :: decimal
  ps_cost :: decimal

record sleeve_projection =
  sl_cash :: decimal
  sl_realized :: decimal
  sl_reserved :: decimal
  sl_positions :: "(string, position_state) dict"

record account_projection =
  acc_sleeves :: "(string, sleeve_projection) dict"
  acc_poison :: int

record reservation_state =
  rs_pending :: "(string, string \<times> decimal) dict"
  rs_terminal :: "string list"

type_synonym fold_state = "account_projection \<times> reservation_state"

definition empty_position :: position_state where
  "empty_position = \<lparr>ps_qty = 0, ps_cost = 0\<rparr>"

definition empty_sleeve :: sleeve_projection where
  "empty_sleeve = \<lparr>sl_cash = 0, sl_realized = 0, sl_reserved = 0, sl_positions = []\<rparr>"

definition empty_account :: account_projection where
  "empty_account = \<lparr>acc_sleeves = [], acc_poison = 0\<rparr>"

definition empty_reservations :: reservation_state where
  "empty_reservations = \<lparr>rs_pending = [], rs_terminal = []\<rparr>"

definition is_complete :: "account_projection \<Rightarrow> bool" where
  "is_complete acc \<longleftrightarrow> acc_poison acc = 0"

definition total_cash :: "account_projection \<Rightarrow> decimal" where
  "total_cash acc = dec_sum (map sl_cash (vals (acc_sleeves acc)))"

definition add_position_qty ::
  "(string, decimal) dict \<Rightarrow> (string \<times> position_state) \<Rightarrow> (string, decimal) dict" where
  "add_position_qty totals sp =
     AList.update (fst sp) (dict_get totals (fst sp) 0 + ps_qty (snd sp)) totals"

definition account_positions :: "account_projection \<Rightarrow> (string, decimal) dict" where
  "account_positions acc =
     filter (\<lambda>sq. \<not> is_zero (snd sq))
       (foldl (\<lambda>totals sleeve. foldl add_position_qty totals (sl_positions sleeve)) []
          (vals (acc_sleeves acc)))"

section \<open>Applying postings\<close>

text \<open>\<^verbatim>\<open>acc.sleeve(id)\<close> creates a missing sleeve; the mutation then happens in place.\<close>

definition on_sleeve ::
  "string \<Rightarrow> (sleeve_projection \<Rightarrow> sleeve_projection) \<Rightarrow> account_projection \<Rightarrow> account_projection"
where
  "on_sleeve sid f acc = acc\<lparr>acc_sleeves := dict_modify sid empty_sleeve f (acc_sleeves acc)\<rparr>"

definition post_position :: "posting \<Rightarrow> position_state \<Rightarrow> position_state" where
  "post_position p pos =
     pos\<lparr>ps_cost := ps_cost pos + p_amount p,
         ps_qty := (case p_qty p of None \<Rightarrow> ps_qty pos | Some q \<Rightarrow> ps_qty pos + q)\<rparr>"

definition post_sleeve :: "posting \<Rightarrow> sleeve_projection \<Rightarrow> sleeve_projection" where
  "post_sleeve p s =
     (case p_bucket p of
        CASH \<Rightarrow> s\<lparr>sl_cash := sl_cash s + p_amount p\<rparr>
      | PNL \<Rightarrow> s\<lparr>sl_realized := sl_realized s + (- p_amount p)\<rparr>
      | POSITION \<Rightarrow>
          (case p_symbol p of
             None \<Rightarrow> s
           | Some y \<Rightarrow>
               s\<lparr>sl_positions := dict_modify y empty_position (post_position p) (sl_positions s)\<rparr>)
      | EXTERNAL \<Rightarrow> s)"

definition apply_posting :: "account_projection \<Rightarrow> posting \<Rightarrow> account_projection" where
  "apply_posting acc p =
     (case p_sleeve p of None \<Rightarrow> acc | Some sid \<Rightarrow> on_sleeve sid (post_sleeve p) acc)"

definition apply_postings :: "account_projection \<Rightarrow> posting list \<Rightarrow> account_projection" where
  "apply_postings acc ps = foldl apply_posting acc ps"

section \<open>The reservation lifecycle\<close>

definition terminal_tracked :: nat where
  "terminal_tracked = 4096"

fun releases_reservation :: "LedgerEventType \<Rightarrow> bool" where
  "releases_reservation ORDER_FILLED = True"
| "releases_reservation ORDER_CANCELLED = True"
| "releases_reservation ORDER_REJECTED = True"
| "releases_reservation _ = False"

definition add_terminal :: "string \<Rightarrow> string list \<Rightarrow> string list" where
  "add_terminal coid ts =
     (let ts' = (if coid \<in> set ts then ts else ts @ [coid])
      in if terminal_tracked < length ts' then tl ts' else ts')"

definition reserve_order ::
  "fold_state \<Rightarrow> string \<Rightarrow> string \<Rightarrow> decimal \<Rightarrow> fold_state" where
  "reserve_order st coid sid amount =
     (on_sleeve sid (\<lambda>s. s\<lparr>sl_reserved := sl_reserved s + amount\<rparr>) (fst st),
      (snd st)\<lparr>rs_pending := AList.update coid (sid, amount) (rs_pending (snd st))\<rparr>)"

definition release_order :: "fold_state \<Rightarrow> string \<Rightarrow> fold_state" where
  "release_order st coid =
     (let res = (snd st)\<lparr>rs_terminal := add_terminal coid (rs_terminal (snd st))\<rparr>
      in case map_of (rs_pending res) coid of
           None \<Rightarrow> (fst st, res)
         | Some (sid, amount) \<Rightarrow>
             (on_sleeve sid (\<lambda>s. s\<lparr>sl_reserved := sl_reserved s - amount\<rparr>) (fst st),
              res\<lparr>rs_pending := AList.delete coid (rs_pending res)\<rparr>))"

definition apply_reservation ::
  "fold_state \<Rightarrow> LedgerEventType \<Rightarrow> payload \<Rightarrow> fold_state result" where
  "apply_reservation st t data =
     (case get_opt data ''client_order_id'' of
        JNull \<Rightarrow> Inr st
      | v \<Rightarrow>
          (let coid = py_str v
           in if t = ORDER_SUBMITTED \<and> has_key data ''reserved'' then
                (if coid \<in> set (rs_terminal (snd st)) then Inr st
                 else (case get_opt data ''sleeve_id'' of
                         JNull \<Rightarrow> Inr st
                       | sv \<Rightarrow>
                           bindR (decimal_str_field data ''reserved'') (\<lambda>amount.
                             Inr (reserve_order st coid (py_str sv) amount))))
              else if releases_reservation t then Inr (release_order st coid)
              else Inr st))"

section \<open>The fold\<close>

definition event_postings :: "ledger_event \<Rightarrow> (LedgerEventType \<times> posting list) result" where
  "event_postings ev =
     bindR (event_type_of (ev_type ev)) (\<lambda>t.
     bindR (build_postings t (ev_data ev)) (\<lambda>ps.
     bindR (if ps \<noteq> [] then assert_balanced ps else Inr ()) (\<lambda>_.
       Inr (t, ps))))"

definition apply_event :: "fold_state \<Rightarrow> ledger_event \<Rightarrow> fold_state result" where
  "apply_event st ev =
     bindR (event_postings ev) (\<lambda>(t, ps).
     bindR (apply_reservation st t (ev_data ev)) (\<lambda>st'.
       Inr (apply_postings (fst st') ps, snd st')))"

text \<open>
  The \<^verbatim>\<open>except\<close> branch counts the event as poison. The state it meets is the one before
  the event: validation and the conversion of the reserved amount come before any mutation.
\<close>

definition fold_step :: "fold_state \<Rightarrow> ledger_event \<Rightarrow> fold_state" where
  "fold_step st ev =
     (case apply_event st ev of
        Inr st' \<Rightarrow> st'
      | Inl e \<Rightarrow> ((fst st)\<lparr>acc_poison := acc_poison (fst st) + 1\<rparr>, snd st))"

definition max_sequence :: "ledger_event list \<Rightarrow> int" where
  "max_sequence evs =
     foldl (\<lambda>m ev. case ev_sequence ev of None \<Rightarrow> m | Some n \<Rightarrow> max m n) 0 evs"

definition fold_state_into :: "fold_state \<Rightarrow> ledger_event list \<Rightarrow> fold_state" where
  "fold_state_into st evs = foldl fold_step st evs"

definition fold_into :: "fold_state \<Rightarrow> ledger_event list \<Rightarrow> fold_state \<times> int" where
  "fold_into st evs = (fold_state_into st evs, max_sequence evs)"

definition fold_account :: "ledger_event list \<Rightarrow> account_projection" where
  "fold_account evs = fst (fst (fold_into (empty_account, empty_reservations) evs))"

section \<open>Resuming a fold\<close>

interpretation balance_fold: left_fold fold_step fold_state_into
  by unfold_locales (simp_all add: fold_state_into_def)

interpretation posting_fold: left_fold apply_posting apply_postings
  by unfold_locales (simp_all add: apply_postings_def)

lemma max_sequence_from:
  "foldl (\<lambda>m ev. case ev_sequence ev of None \<Rightarrow> m | Some n \<Rightarrow> max m n) m evs =
     max m (max_sequence evs)" if "0 \<le> m"
  using that
proof (induction evs arbitrary: m)
  case Nil
  then show ?case by (simp add: max_sequence_def)
next
  case (Cons ev evs)
  let ?f = "\<lambda>m ev. case ev_sequence ev of None \<Rightarrow> m | Some n \<Rightarrow> max m n"
  have pos: "0 \<le> ?f m ev" "0 \<le> ?f 0 ev"
    using Cons.prems by (auto split: option.splits)
  have "foldl ?f m (ev # evs) = max (?f m ev) (max_sequence evs)"
    using Cons.IH [OF pos(1)] by simp
  moreover have "max_sequence (ev # evs) = max (?f 0 ev) (max_sequence evs)"
    using Cons.IH [OF pos(2)] by (simp add: max_sequence_def)
  ultimately show ?case
    using Cons.prems by (auto simp: max_def split: option.splits)
qed

lemma max_sequence_nonneg: "0 \<le> max_sequence evs"
  using max_sequence_from [of 0 evs] by (simp add: max_sequence_def [symmetric] max_def split: if_splits)

lemma max_sequence_append: "max_sequence (xs @ ys) = max (max_sequence xs) (max_sequence ys)"
  using max_sequence_from [OF max_sequence_nonneg, of xs ys] by (simp add: max_sequence_def)

section \<open>Poison events\<close>

lemma event_postings_error: "event_postings ev = Inl e \<Longrightarrow> data_error e"
  by (auto simp: event_postings_def result_simps event_type_of_def
      dest: build_postings_error assert_balanced_error_class split: if_splits option.splits)

lemma apply_reservation_error: "apply_reservation st t data = Inl e \<Longrightarrow> data_error e"
  by (auto simp: apply_reservation_def result_simps Let_def decimal_str_field_def decimal_str_def
      dest: field_error decimal_of_text_error split: json.splits if_splits)

lemma apply_event_error: "apply_event st ev = Inl e \<Longrightarrow> data_error e"
  by (auto simp: apply_event_def result_simps dest: event_postings_error apply_reservation_error)

lemma on_sleeve_poison [simp]: "acc_poison (on_sleeve sid f acc) = acc_poison acc"
  by (simp add: on_sleeve_def)

lemma apply_posting_poison [simp]: "acc_poison (apply_posting acc p) = acc_poison acc"
  by (simp add: apply_posting_def split: option.splits)

lemma apply_postings_poison [simp]: "acc_poison (apply_postings acc ps) = acc_poison acc"
  by (induction ps arbitrary: acc) (simp_all add: apply_postings_def)

lemma reserve_order_poison [simp]: "acc_poison (fst (reserve_order st c s a)) = acc_poison (fst st)"
  by (simp add: reserve_order_def)

lemma release_order_poison [simp]: "acc_poison (fst (release_order st c)) = acc_poison (fst st)"
  by (simp add: release_order_def Let_def split: option.splits prod.splits)

lemma apply_reservation_cases:
  assumes "apply_reservation st t data = Inr st'"
  obtains "st' = st"
  | c s a where "t = ORDER_SUBMITTED" "st' = reserve_order st c s a"
      "c \<notin> set (rs_terminal (snd st))"
      "c = py_str (get_opt data ''client_order_id'')" "has_key data ''reserved''"
      "get_opt data ''client_order_id'' \<noteq> JNull"
      "decimal_str_field data ''reserved'' = Inr a"
  | c where "releases_reservation t" "st' = release_order st c"
      "c = py_str (get_opt data ''client_order_id'')"
  using assms
  by (auto simp: apply_reservation_def Let_def result_simps split: json.splits if_splits)

lemma apply_reservation_poison:
  "apply_reservation st t data = Inr st' \<Longrightarrow> acc_poison (fst st') = acc_poison (fst st)"
  by (elim apply_reservation_cases) auto

lemma apply_event_poison:
  "apply_event st ev = Inr st' \<Longrightarrow> acc_poison (fst st') = acc_poison (fst st)"
  by (auto simp: apply_event_def result_simps dest: apply_reservation_poison)

section \<open>Conservation of value\<close>

text \<open>
  The book value of a sleeve at cost, net of recognised profit; \<open>turn\<close> bounds the magnitude of
  every balance by what has been posted.
\<close>

definition sleeve_book :: "sleeve_projection \<Rightarrow> rat" where
  "sleeve_book s =
     val (sl_cash s) - val (sl_realized s) + sum_vals (\<lambda>p. val (ps_cost p)) (sl_positions s)"

definition book_value :: "account_projection \<Rightarrow> rat" where
  "book_value acc = sum_vals sleeve_book (acc_sleeves acc)"

definition sleeve_turn :: "sleeve_projection \<Rightarrow> rat" where
  "sleeve_turn s =
     \<bar>val (sl_cash s)\<bar> + \<bar>val (sl_realized s)\<bar> + sum_vals (\<lambda>p. \<bar>val (ps_cost p)\<bar>) (sl_positions s)"

definition turnover :: "account_projection \<Rightarrow> rat" where
  "turnover acc = sum_vals sleeve_turn (acc_sleeves acc)"

definition sleeve_grid :: "nat \<Rightarrow> sleeve_projection \<Rightarrow> bool" where
  "sleeve_grid k s \<longleftrightarrow>
     grid k (val (sl_cash s)) \<and> grid k (val (sl_realized s)) \<and>
     list_all (\<lambda>p. grid k (val (ps_cost p))) (vals (sl_positions s))"

definition acc_grid :: "nat \<Rightarrow> account_projection \<Rightarrow> bool" where
  "acc_grid k acc \<longleftrightarrow> list_all (sleeve_grid k) (vals (acc_sleeves acc))"

lemma empty_simps [simp]:
  "val (ps_cost empty_position) = 0" "val (ps_qty empty_position) = 0"
  "val (sl_cash empty_sleeve) = 0" "val (sl_reserved empty_sleeve) = 0"
  "val (sl_realized empty_sleeve) = 0" "sl_positions empty_sleeve = []"
  "acc_sleeves empty_account = []" "acc_poison empty_account = 0"
  "rs_pending empty_reservations = []" "rs_terminal empty_reservations = []"
  by (simp_all add: empty_position_def empty_sleeve_def empty_account_def empty_reservations_def)

lemma measures_empty [simp]:
  "sleeve_book empty_sleeve = 0" "sleeve_turn empty_sleeve = 0" "sleeve_grid k empty_sleeve"
  "book_value empty_account = 0" "turnover empty_account = 0" "acc_grid k empty_account"
  by (simp_all add: sleeve_book_def sleeve_turn_def sleeve_grid_def book_value_def turnover_def
      acc_grid_def)

lemma sleeve_turn_nonneg: "0 \<le> sleeve_turn s"
  by (simp add: sleeve_turn_def sum_vals_nonneg)

lemma sleeve_turn_parts:
  "\<bar>val (sl_cash s)\<bar> \<le> sleeve_turn s" "\<bar>val (sl_realized s)\<bar> \<le> sleeve_turn s"
  "\<bar>val (ps_cost (dict_get (sl_positions s) y empty_position))\<bar> \<le> sleeve_turn s"
proof -
  have n: "0 \<le> sum_vals (\<lambda>p. \<bar>val (ps_cost p)\<bar>) (sl_positions s)" by (simp add: sum_vals_nonneg)
  then show "\<bar>val (sl_cash s)\<bar> \<le> sleeve_turn s" "\<bar>val (sl_realized s)\<bar> \<le> sleeve_turn s"
    by (simp_all add: sleeve_turn_def)
  have "\<bar>val (ps_cost (dict_get (sl_positions s) y empty_position))\<bar>
      \<le> sum_vals (\<lambda>p. \<bar>val (ps_cost p)\<bar>) (sl_positions s)"
    by (rule sum_vals_get_le [where g = "\<lambda>p. \<bar>val (ps_cost p)\<bar>"]) simp_all
  then show "\<bar>val (ps_cost (dict_get (sl_positions s) y empty_position))\<bar> \<le> sleeve_turn s"
    by (simp add: sleeve_turn_def)
qed

lemma post_sleeve_exact:
  assumes g: "sleeve_grid k s" "grid k (val (p_amount p))"
    and p: "wf_posting p" "p_sleeve p \<noteq> None"
    and r: "room k (sleeve_turn s + \<bar>val (p_amount p)\<bar>)"
  shows "sleeve_book (post_sleeve p s) = sleeve_book s + val (p_amount p)"
    and "sleeve_grid k (post_sleeve p s)"
    and "sleeve_turn (post_sleeve p s) \<le> sleeve_turn s + \<bar>val (p_amount p)\<bar>"
proof -
  let ?a = "p_amount p"
  have gs: "grid k (val (sl_cash s))" "grid k (val (sl_realized s))"
    "list_all (\<lambda>q. grid k (val (ps_cost q))) (vals (sl_positions s))"
    using g(1) by (simp_all add: sleeve_grid_def)
  have neg: "val (- ?a) = - val ?a"
  proof (rule val_uminus_grid [OF g(2)])
    show "room k \<bar>val ?a\<bar>" using r by (rule room_mono) (simp add: sleeve_turn_nonneg)
  qed
  consider (cash) "p_bucket p = CASH" | (pnl) "p_bucket p = PNL"
    | (pos) y where "p_bucket p = POSITION" "p_symbol p = Some y"
    using p by (cases "p_bucket p") (auto simp: wf_posting_def)
  then have "sleeve_book (post_sleeve p s) = sleeve_book s + val ?a \<and>
      sleeve_grid k (post_sleeve p s) \<and> sleeve_turn (post_sleeve p s) \<le> sleeve_turn s + \<bar>val ?a\<bar>"
  proof cases
    case cash
    have "val (sl_cash s + ?a) = val (sl_cash s) + val ?a"
      by (rule exact_add_in_room [OF gs(1) g(2) sleeve_turn_parts(1) r])
    with cash gs g(2) show ?thesis
      by (auto simp: post_sleeve_def sleeve_book_def sleeve_turn_def sleeve_grid_def intro: grid_add)
  next
    case pnl
    have "val (sl_realized s + (- ?a)) = val (sl_realized s) - val ?a"
      using exact_add_in_room [OF gs(2) _ sleeve_turn_parts(2), of "- ?a"] g(2) r
      by (simp add: neg grid_uminus)
    with pnl gs g(2) show ?thesis
      by (auto simp: post_sleeve_def sleeve_book_def sleeve_turn_def sleeve_grid_def
          intro: grid_diff)
  next
    case pos
    let ?c = "ps_cost (dict_get (sl_positions s) y empty_position)"
    have gc: "grid k (val ?c)" using all_vals_get [OF gs(3)] by simp
    have c: "val (?c + ?a) = val ?c + val ?a"
      by (rule exact_add_in_room [OF gc g(2) sleeve_turn_parts(3) r])
    have post: "ps_cost (post_position p q) = ps_cost q + ?a" for q
      by (simp add: post_position_def)
    have sm: "sum_vals f (dict_modify y empty_position (post_position p) (sl_positions s)) =
        sum_vals f (sl_positions s) + f (post_position p (dict_get (sl_positions s) y empty_position))
        - f (dict_get (sl_positions s) y empty_position)"
      if "f empty_position = 0" for f :: "position_state \<Rightarrow> rat"
      using that by (rule sum_vals_modify)
    have "sleeve_book (post_sleeve p s) = sleeve_book s + val ?a"
      using pos c by (simp add: post_sleeve_def sleeve_book_def sm post)
    moreover have "sleeve_turn (post_sleeve p s) \<le> sleeve_turn s + \<bar>val ?a\<bar>"
      using pos c by (simp add: post_sleeve_def sleeve_turn_def sm post)
    moreover have "sleeve_grid k (post_sleeve p s)"
      using pos gs g(2) c gc
      by (simp add: post_sleeve_def sleeve_grid_def all_vals_modify post grid_add)
    ultimately show ?thesis by simp
  qed
  then show "sleeve_book (post_sleeve p s) = sleeve_book s + val (p_amount p)"
    and "sleeve_grid k (post_sleeve p s)"
    and "sleeve_turn (post_sleeve p s) \<le> sleeve_turn s + \<bar>val (p_amount p)\<bar>" by simp_all
qed

definition sleeved_amount :: "posting \<Rightarrow> rat" where
  "sleeved_amount p = (if p_sleeve p = None then 0 else val (p_amount p))"

definition external_total :: "posting list \<Rightarrow> rat" where
  "external_total ps = leg_total (filter (\<lambda>p. p_sleeve p = None) ps)"

definition in_room :: "nat \<Rightarrow> account_projection \<Rightarrow> posting list \<Rightarrow> bool" where
  "in_room k acc ps \<longleftrightarrow>
     acc_grid k acc \<and> list_all wf_posting ps \<and> on_grid k (amounts ps) \<and>
     room k (turnover acc + weight (amounts ps))"

lemma sleeved_external: "sum_list (map sleeved_amount ps) = leg_total ps - external_total ps"
  by (induction ps) (auto simp: sleeved_amount_def external_total_def)

lemma external_total_append [simp]:
  "external_total (ps @ qs) = external_total ps + external_total qs"
  by (simp add: external_total_def)

lemma sleeve_turn_get_le:
  "sleeve_turn (dict_get (acc_sleeves acc) sid empty_sleeve) \<le> turnover acc"
  unfolding turnover_def by (rule sum_vals_get_le) (simp_all add: sleeve_turn_nonneg)

lemma turnover_nonneg: "0 \<le> turnover acc"
  unfolding turnover_def by (rule sum_vals_nonneg) (simp add: sleeve_turn_nonneg)

lemma on_sleeve_sums:
  fixes g :: "sleeve_projection \<Rightarrow> rat"
  assumes "g empty_sleeve = 0"
  shows "sum_vals g (acc_sleeves (on_sleeve sid f acc)) =
    sum_vals g (acc_sleeves acc) + g (f (dict_get (acc_sleeves acc) sid empty_sleeve))
    - g (dict_get (acc_sleeves acc) sid empty_sleeve)"
  using assms by (simp add: on_sleeve_def sum_vals_modify)

lemma on_sleeve_all:
  "list_all P (vals (acc_sleeves acc)) \<Longrightarrow> P (f (dict_get (acc_sleeves acc) sid empty_sleeve)) \<Longrightarrow>
   list_all P (vals (acc_sleeves (on_sleeve sid f acc)))"
  by (simp add: on_sleeve_def all_vals_modify)

lemma apply_posting_exact:
  assumes "acc_grid k acc" "wf_posting p" "grid k (val (p_amount p))"
    "room k (turnover acc + \<bar>val (p_amount p)\<bar>)"
  shows "book_value (apply_posting acc p) = book_value acc + sleeved_amount p"
    and "acc_grid k (apply_posting acc p)"
    and "turnover (apply_posting acc p) \<le> turnover acc + \<bar>val (p_amount p)\<bar>"
proof -
  have "book_value (apply_posting acc p) = book_value acc + sleeved_amount p \<and>
      acc_grid k (apply_posting acc p) \<and>
      turnover (apply_posting acc p) \<le> turnover acc + \<bar>val (p_amount p)\<bar>"
  proof (cases "p_sleeve p")
    case None
    with assms(1) show ?thesis by (simp add: apply_posting_def sleeved_amount_def)
  next
    case (Some sid)
    let ?s = "dict_get (acc_sleeves acc) sid empty_sleeve"
    have sg: "sleeve_grid k ?s"
      using assms(1) by (simp add: acc_grid_def all_vals_get)
    have r: "room k (sleeve_turn ?s + \<bar>val (p_amount p)\<bar>)"
      using assms(4) by (rule room_mono) (simp add: sleeve_turn_get_le)
    note ps = post_sleeve_exact [OF sg assms(3,2) _ r]
    show ?thesis
      using Some ps assms(1)
      by (simp add: apply_posting_def sleeved_amount_def book_value_def turnover_def acc_grid_def
          on_sleeve_sums on_sleeve_all)
  qed
  then show "book_value (apply_posting acc p) = book_value acc + sleeved_amount p"
    and "acc_grid k (apply_posting acc p)"
    and "turnover (apply_posting acc p) \<le> turnover acc + \<bar>val (p_amount p)\<bar>" by simp_all
qed

lemma in_room_Cons:
  assumes "in_room k acc (p # ps)"
  shows "in_room k acc [p]" "in_room k (apply_posting acc p) ps"
proof -
  have a: "acc_grid k acc" "wf_posting p" "list_all wf_posting ps" "grid k (val (p_amount p))"
    "on_grid k (amounts ps)"
    and r: "room k (turnover acc + (\<bar>val (p_amount p)\<bar> + weight (amounts ps)))"
    using assms by (simp_all add: in_room_def)
  have r1: "room k (turnover acc + \<bar>val (p_amount p)\<bar>)" using r by (rule room_mono) simp
  then show "in_room k acc [p]" using a by (simp add: in_room_def)
  note x = apply_posting_exact [OF a(1,2,4) r1]
  have "room k (turnover (apply_posting acc p) + weight (amounts ps))"
    using r by (rule room_mono) (use x(3) in simp)
  then show "in_room k (apply_posting acc p) ps" using a x(2) by (simp add: in_room_def)
qed

interpretation conserving: metered_fold apply_posting apply_postings book_value
  "\<lambda>_. sleeved_amount" "\<lambda>acc p. in_room k acc [p]" for k
  by unfold_locales (auto simp: in_room_def intro: apply_posting_exact(1) [where k = k])

lemma in_room_admissible: "in_room k acc ps \<Longrightarrow> conserving.admissible_run k acc ps"
  by (induction ps arbitrary: acc) (auto dest: in_room_Cons)

lemma conserving_flow: "conserving.total_flow acc ps = sum_list (map sleeved_amount ps)"
  by (induction ps arbitrary: acc) auto

lemma apply_postings_book:
  "in_room k acc ps \<Longrightarrow>
   book_value (apply_postings acc ps) = book_value acc + leg_total ps - external_total ps"
  using conserving.measure_run [OF in_room_admissible]
  by (simp add: conserving_flow sleeved_external)

lemma apply_postings_room:
  "in_room k acc ps \<Longrightarrow>
   acc_grid k (apply_postings acc ps) \<and>
   turnover (apply_postings acc ps) \<le> turnover acc + weight (amounts ps)"
proof (induction ps arbitrary: acc)
  case Nil
  then show ?case by (simp add: apply_postings_def in_room_def)
next
  case (Cons p ps)
  note ir = in_room_Cons [OF Cons.prems]
  have "turnover (apply_posting acc p) \<le> turnover acc + \<bar>val (p_amount p)\<bar>"
    using ir(1) by (intro apply_posting_exact(3) [where k = k]) (simp_all add: in_room_def)
  with Cons.IH [OF ir(2)] show ?case by (simp add: posting_fold.run_Cons)
qed

text \<open>Reservations earmark value without moving it.\<close>

lemma reserved_update_measures [simp]:
  "sleeve_book (s\<lparr>sl_reserved := x\<rparr>) = sleeve_book s"
  "sleeve_turn (s\<lparr>sl_reserved := x\<rparr>) = sleeve_turn s"
  "sleeve_grid k (s\<lparr>sl_reserved := x\<rparr>) = sleeve_grid k s"
  by (simp_all add: sleeve_book_def sleeve_turn_def sleeve_grid_def)

lemma on_sleeve_reserved:
  "book_value (on_sleeve sid (\<lambda>s. s\<lparr>sl_reserved := f s\<rparr>) acc) = book_value acc"
  "turnover (on_sleeve sid (\<lambda>s. s\<lparr>sl_reserved := f s\<rparr>) acc) = turnover acc"
  "acc_grid k acc \<Longrightarrow> acc_grid k (on_sleeve sid (\<lambda>s. s\<lparr>sl_reserved := f s\<rparr>) acc)"
  by (simp_all add: book_value_def turnover_def acc_grid_def on_sleeve_sums on_sleeve_all all_vals_get)

lemma apply_reservation_measures:
  assumes "apply_reservation st t data = Inr st'"
  shows "book_value (fst st') = book_value (fst st)" "turnover (fst st') = turnover (fst st)"
    "acc_grid k (fst st) \<Longrightarrow> acc_grid k (fst st')"
  using assms
  by (auto elim!: apply_reservation_cases
      simp: reserve_order_def release_order_def Let_def on_sleeve_reserved
      split: option.splits prod.splits)

text \<open>The postings an event contributes to a fold: its legs when it applies, none when poison.\<close>

definition applied :: "fold_state \<Rightarrow> ledger_event \<Rightarrow> posting list" where
  "applied st ev =
     (case apply_event st ev of
        Inl e \<Rightarrow> []
      | Inr st' \<Rightarrow> (case event_postings ev of Inl e \<Rightarrow> [] | Inr tps \<Rightarrow> snd tps))"

fun applied_postings :: "fold_state \<Rightarrow> ledger_event list \<Rightarrow> posting list" where
  "applied_postings st [] = []"
| "applied_postings st (ev # evs) = applied st ev @ applied_postings (fold_step st ev) evs"

lemma applied_wf: "list_all wf_posting (applied st ev)"
  by (auto simp: applied_def event_postings_def result_simps dest: build_postings_wf
      split: sum.splits if_splits)

lemma applied_balanced:
  assumes "on_grid k (amounts (applied st ev))" "room k (weight (amounts (applied st ev)))"
  shows "leg_total (applied st ev) = 0"
proof (cases "applied st ev = []")
  case False
  then have "assert_balanced (applied st ev) = Inr ()"
    by (auto simp: applied_def event_postings_def result_simps split: sum.splits if_splits)
  with assms show ?thesis by (simp add: balanced_on_grid)
qed simp

lemma fold_step_measures:
  assumes "acc_grid k (fst st)" "on_grid k (amounts (applied st ev))"
    "room k (turnover (fst st) + weight (amounts (applied st ev)))"
  shows "book_value (fst (fold_step st ev)) = book_value (fst st) - external_total (applied st ev)"
    and "acc_grid k (fst (fold_step st ev))"
    and "turnover (fst (fold_step st ev)) \<le> turnover (fst st) + weight (amounts (applied st ev))"
proof -
  have "book_value (fst (fold_step st ev)) = book_value (fst st) - external_total (applied st ev) \<and>
      acc_grid k (fst (fold_step st ev)) \<and>
      turnover (fst (fold_step st ev)) \<le> turnover (fst st) + weight (amounts (applied st ev))"
  proof (cases "apply_event st ev")
    case (Inl e)
    then show ?thesis
      using assms(1)
      by (simp add: fold_step_def applied_def external_total_def book_value_def turnover_def
          acc_grid_def)
  next
    case (Inr st2)
    then obtain t ps st1 where e: "event_postings ev = Inr (t, ps)"
      and r: "apply_reservation st t (ev_data ev) = Inr st1"
      and s2: "st2 = (apply_postings (fst st1) ps, snd st1)"
      by (auto simp: apply_event_def result_simps)
    have ap: "applied st ev = ps" using Inr e by (simp add: applied_def)
    note m = apply_reservation_measures [OF r]
    have "in_room k (fst st1) ps"
      using assms m applied_wf [of st ev] by (simp add: in_room_def ap)
    moreover have "leg_total ps = 0"
      using applied_balanced [of k st ev] assms room_mono [OF assms(3)] turnover_nonneg [of "fst st"]
      by (simp add: ap)
    ultimately show ?thesis
      using m apply_postings_book [of k "fst st1" ps] apply_postings_room [of k "fst st1" ps]
      by (simp add: fold_step_def Inr s2 ap)
  qed
  then show "book_value (fst (fold_step st ev)) = book_value (fst st) - external_total (applied st ev)"
    and "acc_grid k (fst (fold_step st ev))"
    and "turnover (fst (fold_step st ev)) \<le> turnover (fst st) + weight (amounts (applied st ev))"
    by simp_all
qed

lemma fold_conserves:
  assumes "acc_grid k (fst st)" "on_grid k (amounts (applied_postings st evs))"
    "room k (turnover (fst st) + weight (amounts (applied_postings st evs)))"
  shows "book_value (fst (fold_state_into st evs)) =
    book_value (fst st) - external_total (applied_postings st evs)"
  using assms
proof (induction evs arbitrary: st)
  case Nil
  then show ?case by (simp add: balance_fold.run_Nil external_total_def)
next
  case (Cons ev evs)
  have g: "on_grid k (amounts (applied st ev))" "on_grid k (amounts (applied_postings (fold_step st ev) evs))"
    using Cons.prems(2) by simp_all
  have r: "room k (turnover (fst st) + weight (amounts (applied st ev)))"
    using Cons.prems(3) by (rule room_mono) simp
  note m = fold_step_measures [OF Cons.prems(1) g(1) r]
  have "room k (turnover (fst (fold_step st ev)) + weight (amounts (applied_postings (fold_step st ev) evs)))"
    using Cons.prems(3) by (rule room_mono) (use m(3) in simp)
  from Cons.IH [OF m(2) g(2) this] show ?case
    using m(1) by (simp add: balance_fold.run_Cons)
qed

section \<open>The terminal-order window\<close>

definition window_ok :: "fold_state \<Rightarrow> bool" where
  "window_ok st \<longleftrightarrow>
     length (rs_terminal (snd st)) \<le> terminal_tracked \<and> distinct (rs_terminal (snd st))"

lemma add_terminal_window:
  assumes "length ts \<le> terminal_tracked" "distinct ts"
  shows "length (add_terminal c ts) \<le> terminal_tracked" "distinct (add_terminal c ts)"
  using assms by (auto simp: add_terminal_def Let_def distinct_tl)

lemma reserve_order_terminal [simp]: "rs_terminal (snd (reserve_order st c s a)) = rs_terminal (snd st)"
  by (simp add: reserve_order_def)

lemma release_order_terminal [simp]:
  "rs_terminal (snd (release_order st c)) = add_terminal c (rs_terminal (snd st))"
  by (simp add: release_order_def Let_def split: option.splits prod.splits)

lemma apply_reservation_terminal:
  "apply_reservation st t data = Inr st' \<Longrightarrow>
   rs_terminal (snd st') = rs_terminal (snd st) \<or>
   (\<exists>c. rs_terminal (snd st') = add_terminal c (rs_terminal (snd st)))"
  by (elim apply_reservation_cases) auto

lemma fold_step_terminal:
  "rs_terminal (snd (fold_step st ev)) = rs_terminal (snd st) \<or>
   (\<exists>c. rs_terminal (snd (fold_step st ev)) = add_terminal c (rs_terminal (snd st)))"
  by (auto simp: fold_step_def apply_event_def result_simps split: sum.splits
      dest!: apply_reservation_terminal)

interpretation window: invariant_fold fold_step fold_state_into window_ok "\<lambda>_. True"
proof unfold_locales
  fix st ev
  assume "window_ok st"
  then show "window_ok (fold_step st ev)"
    using fold_step_terminal [of st ev] add_terminal_window by (auto simp: window_ok_def)
qed

section \<open>Reserved cash is the open reservations\<close>

definition reserved_of :: "account_projection \<Rightarrow> string \<Rightarrow> rat" where
  "reserved_of acc sid = val (sl_reserved (dict_get (acc_sleeves acc) sid empty_sleeve))"

definition pending_of :: "reservation_state \<Rightarrow> string \<Rightarrow> rat" where
  "pending_of res sid = sum_vals (\<lambda>sa. if fst sa = sid then val (snd sa) else 0) (rs_pending res)"

definition pending_weight :: "reservation_state \<Rightarrow> rat" where
  "pending_weight res = sum_vals (\<lambda>sa. \<bar>val (snd sa)\<bar>) (rs_pending res)"

definition reservation_ok :: "nat \<Rightarrow> fold_state \<Rightarrow> bool" where
  "reservation_ok k st \<longleftrightarrow>
     wf_dict (rs_pending (snd st)) \<and>
     list_all (\<lambda>sa. grid k (val (snd sa))) (vals (rs_pending (snd st))) \<and>
     (\<forall>sid. reserved_of (fst st) sid = pending_of (snd st) sid)"

lemma pending_of_grid:
  "list_all (\<lambda>sa. grid k (val (snd sa))) (vals (rs_pending res)) \<Longrightarrow> grid k (pending_of res sid)"
proof -
  have "list_all (\<lambda>sa. grid k (val (snd sa))) (vals d) \<Longrightarrow>
      grid k (sum_vals (\<lambda>sa. if fst sa = sid then val (snd sa) else 0) d)"
    for d :: "(string, string \<times> decimal) dict"
    by (induction d) (auto intro: grid_add)
  then show "list_all (\<lambda>sa. grid k (val (snd sa))) (vals (rs_pending res)) \<Longrightarrow>
      grid k (pending_of res sid)" unfolding pending_of_def .
qed

lemma pending_of_bound: "\<bar>pending_of res sid\<bar> \<le> pending_weight res"
proof -
  have "\<bar>sum_vals (\<lambda>sa. if fst sa = sid then val (snd sa) else 0) d\<bar>
      \<le> sum_vals (\<lambda>sa. \<bar>val (snd sa)\<bar>) d" for d :: "(string, string \<times> decimal) dict"
    by (induction d) auto
  then show ?thesis by (simp add: pending_of_def pending_weight_def)
qed

lemma pending_weight_nonneg: "0 \<le> pending_weight res"
  unfolding pending_weight_def by (rule sum_vals_nonneg) simp

lemma reserved_of_on_sleeve:
  "reserved_of (on_sleeve s (\<lambda>x. x\<lparr>sl_reserved := f x\<rparr>) acc) sid =
     (if sid = s then val (f (dict_get (acc_sleeves acc) s empty_sleeve)) else reserved_of acc sid)"
  by (simp add: reserved_of_def on_sleeve_def dict_simps)

lemma reserved_of_apply_posting [simp]: "reserved_of (apply_posting acc p) sid = reserved_of acc sid"
  by (auto simp: apply_posting_def reserved_of_def on_sleeve_def dict_simps post_sleeve_def
      split: option.splits Bucket.splits)

lemma reserved_of_apply_postings [simp]: "reserved_of (apply_postings acc ps) sid = reserved_of acc sid"
  by (induction ps arbitrary: acc) (simp_all add: apply_postings_def)

lemma reserve_order_ok:
  assumes ok: "reservation_ok k st" and fresh: "c \<notin> set (keys (rs_pending (snd st)))"
    and a: "grid k (val a)" "room k (pending_weight (snd st) + \<bar>val a\<bar>)"
  shows "reservation_ok k (reserve_order st c s a)"
    and "pending_weight (snd (reserve_order st c s a)) = pending_weight (snd st) + \<bar>val a\<bar>"
proof -
  let ?old = "sl_reserved (dict_get (acc_sleeves (fst st)) s empty_sleeve)"
  have none: "map_of (rs_pending (snd st)) c = None"
    using fresh by (simp add: map_of_eq_None_iff)
  have old: "val ?old = pending_of (snd st) s"
    using ok by (simp add: reservation_ok_def reserved_of_def)
  have "val (?old + a) = val ?old + val a"
  proof (rule exact_add_in_room [OF _ a(1) _ a(2)])
    show "grid k (val ?old)" using ok by (simp add: old reservation_ok_def pending_of_grid)
    show "\<bar>val ?old\<bar> \<le> pending_weight (snd st)" by (simp add: old pending_of_bound)
  qed
  then show "reservation_ok k (reserve_order st c s a)"
    using ok none a(1)
    by (auto simp: reservation_ok_def reserve_order_def reserved_of_on_sleeve pending_of_def
        sum_vals_update all_vals_update old)
  show "pending_weight (snd (reserve_order st c s a)) = pending_weight (snd st) + \<bar>val a\<bar>"
    using none by (simp add: reserve_order_def pending_weight_def sum_vals_update)
qed

lemma release_order_ok:
  assumes ok: "reservation_ok k st" and r: "room k (pending_weight (snd st))"
  shows "reservation_ok k (release_order st c)"
    and "pending_weight (snd (release_order st c)) \<le> pending_weight (snd st)"
proof -
  have "reservation_ok k (release_order st c) \<and>
      pending_weight (snd (release_order st c)) \<le> pending_weight (snd st)"
  proof (cases "map_of (rs_pending (snd st)) c")
    case None
    with ok show ?thesis
      by (simp add: release_order_def Let_def reservation_ok_def pending_of_def pending_weight_def)
  next
    case (Some sa)
    obtain s a where sa: "sa = (s, a)" by (cases sa)
    let ?old = "sl_reserved (dict_get (acc_sleeves (fst st)) s empty_sleeve)"
    have wf: "wf_dict (rs_pending (snd st))"
      and gr: "list_all (\<lambda>sa. grid k (val (snd sa))) (vals (rs_pending (snd st)))"
      using ok by (simp_all add: reservation_ok_def)
    have ga: "grid k (val a)"
      using gr map_of_SomeD [OF Some] by (force simp: sa list_all_iff)
    have old: "val ?old = pending_of (snd st) s"
      using ok by (simp add: reservation_ok_def reserved_of_def)
    let ?rest = "AList.delete c (rs_pending (snd st))"
    have del: "pending_of (x\<lparr>rs_pending := ?rest\<rparr>) sid =
        pending_of (snd st) sid - (if s = sid then val a else 0)" for sid x
      using Some wf by (simp add: pending_of_def sum_vals_delete sa)
    have w: "pending_weight (x\<lparr>rs_pending := ?rest\<rparr>) = pending_weight (snd st) - \<bar>val a\<bar>" for x
      using Some wf by (simp add: pending_weight_def sum_vals_delete sa)
    have "val (?old - a) = val ?old - val a"
    proof (rule val_diff_grid [OF _ ga])
      show "grid k (val ?old)" using gr by (simp add: old pending_of_grid)
      have "\<bar>pending_of (snd st) s - val a\<bar> \<le> pending_weight (snd st)"
        using pending_of_bound [of "(snd st)\<lparr>rs_pending := ?rest\<rparr>" s] unfolding del w by simp
      with r show "room k \<bar>val ?old - val a\<bar>" unfolding old by (rule room_mono)
    qed
    moreover have "release_order st c =
        (on_sleeve s (\<lambda>x. x\<lparr>sl_reserved := sl_reserved x - a\<rparr>) (fst st),
         (snd st)\<lparr>rs_terminal := add_terminal c (rs_terminal (snd st))\<rparr>\<lparr>rs_pending := ?rest\<rparr>)"
      using Some by (simp add: release_order_def Let_def sa)
    ultimately show ?thesis
      using ok wf gr
      by (simp only: reservation_ok_def fst_conv snd_conv del w)
        (simp add: reserved_of_on_sleeve old all_vals_delete)
  qed
  then show "reservation_ok k (release_order st c)"
    and "pending_weight (snd (release_order st c)) \<le> pending_weight (snd st)" by simp_all
qed

definition submission :: "ledger_event \<Rightarrow> (string \<times> decimal) list" where
  "submission ev =
     (if ev_type ev = event_value ORDER_SUBMITTED \<and> has_key (ev_data ev) ''reserved'' \<and>
         get_opt (ev_data ev) ''client_order_id'' \<noteq> JNull
      then [(py_str (get_opt (ev_data ev) ''client_order_id''),
             case decimal_str_field (ev_data ev) ''reserved'' of Inr a \<Rightarrow> a | Inl _ \<Rightarrow> 0)]
      else [])"

definition submissions :: "ledger_event list \<Rightarrow> (string \<times> decimal) list" where
  "submissions evs = concat (map submission evs)"

lemma reservation_ok_cong:
  assumes "reservation_ok k st" "\<And>sid. reserved_of acc sid = reserved_of (fst st) sid"
    "rs_pending res = rs_pending (snd st)"
  shows "reservation_ok k (acc, res)"
  using assms by (simp add: reservation_ok_def pending_of_def)

lemma fold_step_reservation:
  assumes ok: "reservation_ok k st" and d: "distinct (keys (submission ev))"
    and f: "set (keys (submission ev)) \<inter> set (keys (rs_pending (snd st))) = {}"
    and g: "on_grid k (vals (submission ev))"
    and r: "room k (pending_weight (snd st) + weight (vals (submission ev)))"
  shows "reservation_ok k (fold_step st ev) \<and>
    pending_weight (snd (fold_step st ev)) \<le> pending_weight (snd st) + weight (vals (submission ev)) \<and>
    set (keys (rs_pending (snd (fold_step st ev)))) \<subseteq>
      set (keys (rs_pending (snd st))) \<union> set (keys (submission ev))"
    (is "?P (fold_step st ev)")
proof (cases "apply_event st ev")
  case (Inl e)
  then have "fold_step st ev = ((fst st)\<lparr>acc_poison := acc_poison (fst st) + 1\<rparr>, snd st)"
    by (simp add: fold_step_def)
  with ok show ?thesis by (auto simp: reservation_ok_def reserved_of_def)
next
  case (Inr st2)
  then obtain t ps st1 where e: "event_postings ev = Inr (t, ps)"
    and ar: "apply_reservation st t (ev_data ev) = Inr st1"
    and s2: "fold_step st ev = (apply_postings (fst st1) ps, snd st1)"
    by (auto simp: apply_event_def result_simps fold_step_def)
  have t: "ev_type ev = event_value t"
    using e by (auto simp: event_postings_def result_simps event_type_of_Inr)
  have "?P st1"
    using ar
  proof (cases rule: apply_reservation_cases)
    case 1
    with ok show ?thesis by auto
  next
    case (2 c s a)
    have sub: "submission ev = [(c, a)]" using 2 t by (simp add: submission_def)
    have "c \<notin> set (keys (rs_pending (snd st)))" using f by (simp add: sub)
    with 2 reserve_order_ok [OF ok, of c a s] g r show ?thesis
      by (auto simp: sub reserve_order_def AList.dom_update)
  next
    case (3 c)
    have "room k (pending_weight (snd st))" using r by (rule room_mono) simp
    note rel = release_order_ok [OF ok this, of c]
    have "set (keys (rs_pending (snd (release_order st c)))) \<subseteq> set (keys (rs_pending (snd st)))"
      using AList.dom_delete_subset [of c "rs_pending (snd st)"]
      by (auto simp: release_order_def Let_def split: option.splits)
    with 3 rel show ?thesis by (auto intro: order_trans)
  qed
  then show ?thesis by (auto simp: s2 intro: reservation_ok_cong)
qed

lemma fold_reservations:
  assumes "reservation_ok k st" "distinct (keys (submissions evs))"
    "set (keys (submissions evs)) \<inter> set (keys (rs_pending (snd st))) = {}"
    "on_grid k (vals (submissions evs))"
    "room k (pending_weight (snd st) + weight (vals (submissions evs)))"
  shows "reservation_ok k (fold_state_into st evs)"
  using assms
proof (induction evs arbitrary: st)
  case Nil
  then show ?case by (simp add: balance_fold.run_Nil)
next
  case (Cons ev evs)
  have sub: "submissions (ev # evs) = submission ev @ submissions evs"
    by (simp add: submissions_def)
  have r: "room k (pending_weight (snd st) + weight (vals (submission ev)))"
    using Cons.prems(5) by (rule room_mono) (simp add: sub)
  have step: "reservation_ok k (fold_step st ev)"
    "pending_weight (snd (fold_step st ev)) \<le> pending_weight (snd st) + weight (vals (submission ev))"
    "set (keys (rs_pending (snd (fold_step st ev)))) \<subseteq>
      set (keys (rs_pending (snd st))) \<union> set (keys (submission ev))"
    using fold_step_reservation [OF Cons.prems(1) _ _ _ r] Cons.prems(2-4) by (auto simp: sub)
  have "reservation_ok k (fold_state_into (fold_step st ev) evs)"
  proof (rule Cons.IH [OF step(1)])
    show "distinct (keys (submissions evs))" "on_grid k (vals (submissions evs))"
      using Cons.prems(2,4) by (simp_all add: sub)
    show "set (keys (submissions evs)) \<inter> set (keys (rs_pending (snd (fold_step st ev)))) = {}"
    proof -
      have "set (keys (submissions evs)) \<inter> set (keys (submission ev)) = {}"
        using Cons.prems(2) unfolding sub map_append distinct_append by blast
      moreover have "set (keys (submissions evs)) \<inter> set (keys (rs_pending (snd st))) = {}"
        using Cons.prems(3) unfolding sub map_append set_append by blast
      ultimately show ?thesis using step(3) by blast
    qed
    show "room k (pending_weight (snd (fold_step st ev)) + weight (vals (submissions evs)))"
      using Cons.prems(5) by (rule room_mono) (use step(2) in \<open>simp add: sub\<close>)
  qed
  then show ?case by (simp add: balance_fold.run_Cons)
qed

lemma reservation_ok_empty [simp]: "reservation_ok k (empty_account, empty_reservations)"
  by (simp add: reservation_ok_def reserved_of_def pending_of_def)

section \<open>The projection's dictionaries stay well formed\<close>

definition state_wf :: "fold_state \<Rightarrow> bool" where
  "state_wf st \<longleftrightarrow>
     wf_dict (acc_sleeves (fst st)) \<and>
     list_all (\<lambda>s. wf_dict (sl_positions s)) (vals (acc_sleeves (fst st))) \<and>
     wf_dict (rs_pending (snd st))"

definition acc_wf :: "account_projection \<Rightarrow> bool" where
  "acc_wf acc \<longleftrightarrow>
     wf_dict (acc_sleeves acc) \<and> list_all (\<lambda>s. wf_dict (sl_positions s)) (vals (acc_sleeves acc))"

lemma on_sleeve_wf:
  assumes "acc_wf acc" "\<And>s. wf_dict (sl_positions s) \<Longrightarrow> wf_dict (sl_positions (f s))"
  shows "acc_wf (on_sleeve sid f acc)"
proof -
  have "wf_dict (sl_positions (dict_get (acc_sleeves acc) sid empty_sleeve))"
    using assms(1) unfolding acc_wf_def by (intro all_vals_get [where P = "\<lambda>s. wf_dict (sl_positions s)"]) simp_all
  then show ?thesis
    using assms unfolding acc_wf_def
    by (auto simp: on_sleeve_def intro!: all_vals_modify)
qed

lemma apply_posting_wf: "acc_wf acc \<Longrightarrow> acc_wf (apply_posting acc p)"
  by (auto simp: apply_posting_def post_sleeve_def intro!: on_sleeve_wf split: option.splits Bucket.splits)

lemma apply_postings_wf: "acc_wf acc \<Longrightarrow> acc_wf (apply_postings acc ps)"
  by (induction ps arbitrary: acc) (simp_all add: posting_fold.run_Nil posting_fold.run_Cons apply_posting_wf)

lemma apply_reservation_wf:
  assumes "apply_reservation st t data = Inr st'" "acc_wf (fst st)" "wf_dict (rs_pending (snd st))"
  shows "acc_wf (fst st') \<and> wf_dict (rs_pending (snd st'))"
  using assms
  by (elim apply_reservation_cases)
    (auto simp: reserve_order_def release_order_def Let_def intro: on_sleeve_wf split: option.splits prod.splits)

lemma state_wf_acc: "state_wf st \<longleftrightarrow> acc_wf (fst st) \<and> wf_dict (rs_pending (snd st))"
  by (simp add: state_wf_def acc_wf_def)

interpretation wf_state: invariant_fold fold_step fold_state_into state_wf "\<lambda>_. True"
proof unfold_locales
  fix st ev
  assume wf: "state_wf st"
  show "state_wf (fold_step st ev)"
  proof (cases "apply_event st ev")
    case (Inl e)
    with wf show ?thesis by (simp add: fold_step_def state_wf_def)
  next
    case (Inr st2)
    then obtain t ps st1 where "apply_reservation st t (ev_data ev) = Inr st1"
      and s2: "fold_step st ev = (apply_postings (fst st1) ps, snd st1)"
      by (auto simp: apply_event_def result_simps fold_step_def)
    from apply_reservation_wf [OF this(1)] wf show ?thesis
      by (simp add: s2 state_wf_acc apply_postings_wf)
  qed
qed

lemma fold_account_wf: "acc_wf (fold_account evs)"
  using wf_state.inv_run [of "(empty_account, empty_reservations)" evs]
  by (simp add: fold_account_def fold_into_def state_wf_acc acc_wf_def list_all_iff)

end
