(* ===== verification/Decimal_Division.thy ===== *)
theory Decimal_Division
  imports Decimal_Text
begin

text \<open>
  Facts about decimal division and quantisation: the sign of a quotient is exact, a quotient is
  within one part in \<open>10\<^sup>2\<^sup>7\<close> of the exact one, and \<^verbatim>\<open>quantize\<close> is off by at most half
  a step (\<^verbatim>\<open>ROUND_HALF_EVEN\<close>, \<^verbatim>\<open>ROUND_HALF_UP\<close>) or rounds away from zero by
  less than a step (\<^verbatim>\<open>ROUND_UP\<close>).
\<close>

section \<open>Division\<close>

lemma strip_zeros_val:
  "strip_zeros k c e = (c', e') \<Longrightarrow> of_int c' * (10::rat) powi e' = of_int c * 10 powi e"
proof (induction k arbitrary: c e)
  case 0
  then show ?case by simp
next
  case (Suc k)
  show ?case
  proof (cases "c mod 10 = 0")
    case True
    then have c: "c = 10 * (c div 10)" using mult_div_mod_eq [of 10 c] by simp
    from Suc True have "of_int c' * (10::rat) powi e' = of_int (c div 10) * 10 powi (e + 1)" by simp
    also have "\<dots> = of_int (10 * (c div 10)) * 10 powi e" by (simp add: power_int_add)
    finally show ?thesis using c by simp
  next
    case False
    with Suc.prems show ?thesis by simp
  qed
qed

lemma div_quotient_large:
  assumes a: "coef a \<noteq> 0" and b: "coef b \<noteq> 0"
    and shift: "shift = int (dec_len b) - int (dec_len a) + int prec + 1"
  shows "10 ^ prec * (\<bar>coef b\<bar> * 10 ^ nat (- shift)) \<le> \<bar>coef a\<bar> * 10 ^ nat shift"
proof -
  have la: "10 ^ (dec_len a - 1) \<le> \<bar>coef a\<bar>" using a by (rule dec_len_lower)
  have pa: "0 < dec_len a" "0 < dec_len b" by (simp_all add: dec_len_def ndigits_pos)
  have lb: "\<bar>coef b\<bar> \<le> 10 ^ dec_len b" using dec_len_le_iff [OF pa(2), of b] by simp
  show ?thesis
  proof (cases "0 \<le> shift")
    case True
    have "10 ^ prec * \<bar>coef b\<bar> \<le> 10 ^ prec * 10 ^ dec_len b" using lb by simp
    also have "\<dots> = 10 ^ (dec_len a - 1 + nat shift)"
      using True shift pa by (simp only: power_add [symmetric]) (rule arg_cong [where f = "power 10"], simp)
    also have "\<dots> \<le> \<bar>coef a\<bar> * 10 ^ nat shift" using la by (simp add: power_add)
    finally show ?thesis using True by simp
  next
    case False
    have "10 ^ prec * (\<bar>coef b\<bar> * 10 ^ nat (- shift)) \<le> 10 ^ prec * (10 ^ dec_len b * 10 ^ nat (- shift))"
      using lb by simp
    also have "\<dots> = 10 ^ (dec_len a - 1)"
      using False shift pa by (simp only: power_add [symmetric]) (rule arg_cong [where f = "power 10"], simp)
    finally show ?thesis using la False by simp
  qed
qed

definition div_eps :: rat where
  "div_eps = 1 / 10 ^ 27"

lemma sticky_error:
  fixes num den q c :: int
  assumes den: "0 < den" and q: "q = num div den" "10 ^ prec \<le> q"
    and c: "c = q \<or> c = q + 1" and x: "num mod den \<noteq> 0 \<or> c = q"
  shows "\<bar>of_int c - of_int num / of_int den\<bar> \<le> (of_int num / of_int den) * (1 / 10 ^ 28 :: rat)"
proof -
  define y where "y = (of_int num / of_int den :: rat)"
  have m: "num = q * den + num mod den" "0 \<le> num mod den" "num mod den < den"
    using den q by simp_all
  have "of_int num = of_int q * of_int den + (of_int (num mod den) :: rat)"
    using m(1) by (metis of_int_add of_int_mult)
  then have y: "y = of_int q + of_int (num mod den) / of_int den"
    using den by (simp add: y_def field_simps)
  have fr: "0 \<le> (of_int (num mod den) / of_int den :: rat)" "of_int (num mod den) / of_int den \<le> (1::rat)"
    using m(2,3) den by (simp_all add: less_imp_le del: pos_mod_bound)
  have "(of_int (10 ^ prec) :: rat) \<le> of_int q" using q(2) by (simp only: of_int_le_iff)
  then have "1 \<le> y * (1 / 10 ^ 28)" using y fr by simp
  moreover have "\<bar>of_int c - y\<bar> \<le> 1" using y fr c by auto
  ultimately show ?thesis unfolding y_def by linarith
qed

lemma dec_div_error:
  assumes b: "val b \<noteq> 0"
  shows "\<bar>val (dec_div a b) - val a / val b\<bar> \<le> \<bar>val a / val b\<bar> * div_eps"
proof (cases "coef a = 0")
  case True
  then show ?thesis by (simp add: dec_div_def val_def)
next
  case False
  define shift where "shift = int (dec_len b) - int (dec_len a) + int prec + 1"
  define e where "e = expo a - expo b - shift"
  define num where "num = \<bar>coef a\<bar> * 10 ^ nat shift"
  define den where "den = \<bar>coef b\<bar> * 10 ^ nat (- shift)"
  define sign where "sign = sgn (coef a) * sgn (coef b)"
  define q where "q = num div den"
  have cb: "coef b \<noteq> 0" using b by (simp add: val_eq_0_iff)
  have den: "0 < den" using cb by (simp add: den_def)
  have "10 ^ prec * den \<le> num"
    unfolding num_def den_def by (rule div_quotient_large [OF False cb shift_def])
  then have q: "10 ^ prec \<le> q"
    unfolding q_def using den by (metis nonzero_mult_div_cancel_right order_less_irrefl zdiv_mono1)
  have sg: "\<bar>sign\<bar> = 1" using False cb by (simp add: sign_def abs_mult abs_sgn_eq)
  define y where "y = (of_int num / of_int den :: rat)"
  have exact: "val a / val b = of_int sign * y * 10 powi e"
  proof -
    have p: "(10::rat) powi shift = 10 ^ nat shift / 10 ^ nat (- shift)"
      by (cases "0 \<le> shift") (simp_all add: power_int_def field_simps)
    have "(10::rat) powi (expo a - expo b) = 10 powi shift * 10 powi e"
      by (simp add: e_def power_int_add [symmetric])
    moreover have "(10::rat) powi (expo a - expo b) = 10 powi expo a / 10 powi expo b"
      by (rule power_int_diff) simp
    moreover have "val a / val b =
        of_int (coef a) / of_int (coef b) * (10 powi expo a / 10 powi expo b)"
      unfolding val_def by (rule times_divide_times_eq [symmetric])
    ultimately have "val a / val b =
        of_int (coef a) / of_int (coef b) * (10 powi shift * 10 powi e)"
      by metis
    moreover have "(of_int (coef a) / of_int (coef b) :: rat) =
        of_int sign * (of_int \<bar>coef a\<bar> / of_int \<bar>coef b\<bar>)"
      using False cb by (auto simp: sign_def sgn_if abs_if)
    ultimately show ?thesis by (simp add: y_def num_def den_def p)
  qed
  note unfolded = dec_div_def Let_def shift_def [symmetric] e_def [symmetric] num_def [symmetric]
    den_def [symmetric] sign_def [symmetric] q_def [symmetric]
  obtain c e' where c: "dec_div a b = dec_fix (Dec (sign * c) e')"
    and err: "\<bar>of_int c * 10 powi e' - y * 10 powi e\<bar> \<le> y * (1 / 10 ^ 28) * 10 powi e"
  proof (cases "num mod den = 0")
    case False
    define c where "c = (if q mod 5 = 0 then q + 1 else q)"
    have "dec_div a b = dec_fix (Dec (sign * c) e)"
      using \<open>coef a \<noteq> 0\<close> False
      by (simp only: unfolded if_False c_def if_True not_False_eq_True)
    moreover have "\<bar>of_int c - y\<bar> \<le> y * (1 / 10 ^ 28)"
      unfolding y_def by (rule sticky_error [OF den q_def q]) (auto simp: c_def False)
    then have "\<bar>of_int c - y\<bar> * 10 powi e \<le> y * (1 / 10 ^ 28) * 10 powi e"
      by (rule mult_right_mono) simp
    then have "\<bar>of_int c * 10 powi e - y * 10 powi e\<bar> \<le> y * (1 / 10 ^ 28) * 10 powi e"
      by (simp add: left_diff_distrib [symmetric] abs_mult)
    ultimately show thesis using that by blast
  next
    case True
    obtain c e' where s: "strip_zeros (nat shift) q e = (c, e')" by fastforce
    have "dec_div a b = dec_fix (Dec (sign * c) e')"
      using \<open>coef a \<noteq> 0\<close> True s
      by (simp only: unfolded if_False if_True simp_thms prod.case)
    moreover have "num = q * den" using True by (simp add: q_def mod_eq_0_iff_dvd)
    then have "y = of_int q" using den by (simp add: y_def)
    with strip_zeros_val [OF s] have "of_int c * 10 powi e' - y * 10 powi e = 0" by simp
    moreover have "0 \<le> y" using den by (simp add: y_def num_def)
    ultimately show thesis using that by simp
  qed
  define t where "t = y * (10::rat) powi e"
  have y: "0 \<le> y" using den by (simp add: y_def num_def)
  then have t: "0 \<le> t" by (simp add: t_def)
  define v where "v = of_int sign * (of_int c * (10::rat) powi e')"
  have sg1: "\<bar>of_int sign\<bar> = (1::rat)" using sg by (metis of_int_1 of_int_abs)
  have v: "\<bar>v - val a / val b\<bar> \<le> t * (1 / 10 ^ 28)"
  proof -
    have "v - val a / val b = of_int sign * (of_int c * 10 powi e' - y * 10 powi e)"
      by (simp add: v_def exact algebra_simps)
    then have "\<bar>v - val a / val b\<bar> = \<bar>of_int c * 10 powi e' - y * 10 powi e\<bar>"
      by (simp add: abs_mult sg1)
    with err show ?thesis by (simp add: t_def mult.commute mult.left_commute)
  qed
  have x: "\<bar>val a / val b\<bar> = t" using y by (simp add: exact abs_mult sg1 t_def)
  have f: "\<bar>val (dec_div a b) - v\<bar> \<le> \<bar>v\<bar> * (5 / 10 ^ 28)"
    unfolding c using dec_fix_error [of "Dec (sign * c) e'"]
    by (simp add: val_Dec v_def mult.assoc)
  have "\<bar>v\<bar> \<le> t + t * (1 / 10 ^ 28)" using v x by linarith
  then have "\<bar>v\<bar> * (5 / 10 ^ 28) \<le> (t + t * (1 / 10 ^ 28)) * (5 / 10 ^ 28)"
    by (rule mult_right_mono) simp
  with f v have "\<bar>val (dec_div a b) - val a / val b\<bar>
      \<le> (t + t * (1 / 10 ^ 28)) * (5 / 10 ^ 28) + t * (1 / 10 ^ 28)" by linarith
  also have "\<dots> \<le> t * div_eps" using t by (simp add: div_eps_def field_simps)
  finally show ?thesis by (simp only: x)
qed

lemma sgn_of_relative_error:
  fixes x y :: rat
  assumes "\<bar>x - y\<bar> \<le> \<bar>y\<bar> * e" "e < 1"
  shows "sgn x = sgn y"
proof (cases "y = 0")
  case True
  with assms show ?thesis by simp
next
  case False
  then have "\<bar>y\<bar> * e < \<bar>y\<bar> * 1" using assms(2) by (intro mult_strict_left_mono) simp_all
  with assms(1) have "\<bar>x - y\<bar> < \<bar>y\<bar>" by simp
  then show ?thesis by (auto simp: sgn_if abs_if split: if_splits)
qed

lemma dec_div_sgn: "val b \<noteq> 0 \<Longrightarrow> sgn (val (dec_div a b)) = sgn (val a / val b)"
  by (rule sgn_of_relative_error [OF dec_div_error]) (simp_all add: div_eps_def)

lemma dec_div_pos: "0 < val a \<Longrightarrow> 0 < val b \<Longrightarrow> 0 < val (dec_div a b)"
  using dec_div_sgn [of b a] by (simp add: sgn_if split: if_splits)

lemma dec_div_nonneg: "0 \<le> val a \<Longrightarrow> 0 < val b \<Longrightarrow> 0 \<le> val (dec_div a b)"
  using dec_div_sgn [of b a] by (simp add: sgn_if zero_le_divide_iff split: if_splits)

section \<open>Quantisation\<close>

definition quantize_coef :: "rounding \<Rightarrow> int \<Rightarrow> decimal \<Rightarrow> int" where
  "quantize_coef m e d =
     (if e \<le> expo d then coef d * 10 ^ nat (expo d - e)
      else round_coef m (coef d) (nat (e - expo d)))"

lemma dec_quantize_cases:
  "dec_quantize m e d =
     (if \<bar>quantize_coef m e d\<bar> < 10 ^ prec then Inr (Dec (quantize_coef m e d) e)
      else Inl InvalidOperation)"
  unfolding dec_quantize_def quantize_coef_def [symmetric] Let_def by (simp add: ndigits_le_iff)

lemma quantize_value:
  fixes d :: decimal and r :: decimal
  assumes r: "r = Dec (quantize_coef m e d) e"
  shows "expo r = e"
    and "m \<noteq> ROUND_UP \<Longrightarrow> \<bar>val r - val d\<bar> \<le> 10 powi e / 2"
    and "m = ROUND_UP \<Longrightarrow> \<bar>val d\<bar> \<le> \<bar>val r\<bar> \<and> \<bar>val r\<bar> < \<bar>val d\<bar> + 10 powi e"
    and "sgn (val r) = 0 \<or> sgn (val r) = sgn (val d)"
    and "grid (nat (- e)) (val r) \<or> 0 < e"
proof -
  define c where "c = quantize_coef m e d"
  note r = r [folded c_def] and c_def = c_def [unfolded quantize_coef_def]
  have pos: "(0::rat) < 10 powi e" by simp
  then show "expo r = e" by (simp add: r)
  have "grid (nat (- e)) (val r)" if "e \<le> 0"
  proof -
    have "(10::rat) powi e * 10 ^ nat (- e) = 1"
      using that powi_split [of e 0] by (simp add: mult.commute)
    then have "val r * 10 ^ nat (- e) = of_int c" by (simp add: r val_Dec mult.assoc)
    then show ?thesis unfolding grid_def by blast
  qed
  then show "grid (nat (- e)) (val r) \<or> 0 < e" by linarith
  have "(m \<noteq> ROUND_UP \<longrightarrow> \<bar>val r - val d\<bar> \<le> 10 powi e / 2) \<and>
    (m = ROUND_UP \<longrightarrow> \<bar>val d\<bar> \<le> \<bar>val r\<bar> \<and> \<bar>val r\<bar> < \<bar>val d\<bar> + 10 powi e) \<and>
    (sgn (val r) = 0 \<or> sgn (val r) = sgn (val d))"
  proof (cases "e \<le> expo d")
    case True
    then have "val r = val d"
      by (simp add: r c_def val_Dec mult.assoc powi_split) (simp add: val_def)
    with pos show ?thesis by simp
  next
    case False
    define s where "s = nat (e - expo d)"
    have c: "c = round_coef m (coef d) s" using False by (simp add: c_def s_def)
    have p: "(10::rat) powi e = 10 ^ s * 10 powi expo d"
      using False powi_split [of "expo d" e] by (simp add: s_def)
    have u: "(0::rat) < 10 powi expo d" by simp
    have vr: "val r = of_int (c * 10 ^ s) * 10 powi expo d" by (simp add: r val_Dec p)
    have "\<bar>val r - val d\<bar> \<le> 10 powi e / 2" if "m \<noteq> ROUND_UP"
    proof -
      have "2 * \<bar>c * 10 ^ s - coef d\<bar> \<le> 10 ^ s" unfolding c using that by (rule round_coef_error)
      then have "of_int (2 * \<bar>c * 10 ^ s - coef d\<bar>) \<le> (of_int (10 ^ s) :: rat)"
        by (simp only: of_int_le_iff)
      then have "\<bar>of_int (c * 10 ^ s) - of_int (coef d)\<bar> \<le> (10 ^ s / 2 :: rat)" by simp
      then have "\<bar>of_int (c * 10 ^ s) - of_int (coef d)\<bar> * 10 powi expo d
          \<le> (10 ^ s / 2 :: rat) * 10 powi expo d" by (rule mult_right_mono) simp
      then show ?thesis
        by (simp add: vr val_def [of d] p left_diff_distrib [symmetric] abs_mult)
    qed
    moreover have "\<bar>val d\<bar> \<le> \<bar>val r\<bar> \<and> \<bar>val r\<bar> < \<bar>val d\<bar> + 10 powi e" if "m = ROUND_UP"
    proof -
      have ac: "\<bar>c\<bar> * 10 ^ s = round_mag ROUND_UP \<bar>coef d\<bar> s * 10 ^ s"
      proof (cases "coef d = 0")
        case True
        then show ?thesis by (simp add: c round_coef_def round_mag_def)
      next
        case False
        then show ?thesis
          by (simp add: c that round_coef_def abs_mult abs_sgn_eq round_mag_nonneg)
      qed
      then have "of_int \<bar>coef d\<bar> \<le> (of_int (\<bar>c\<bar> * 10 ^ s) :: rat)"
        "of_int (\<bar>c\<bar> * 10 ^ s) < (of_int (\<bar>coef d\<bar> + 10 ^ s) :: rat)"
        using round_mag_up [of "\<bar>coef d\<bar>" s] by (simp_all only: of_int_le_iff of_int_less_iff)
      then have "of_int \<bar>coef d\<bar> * 10 powi expo d \<le> (of_int (\<bar>c\<bar> * 10 ^ s) :: rat) * 10 powi expo d"
        "of_int (\<bar>c\<bar> * 10 ^ s) * 10 powi expo d
          < (of_int (\<bar>coef d\<bar> + 10 ^ s) :: rat) * 10 powi expo d"
        using u by (auto intro: mult_right_mono mult_strict_right_mono)
      then show ?thesis by (simp add: vr val_def [of d] p abs_mult distrib_right)
    qed
    moreover have "sgn (val r) = 0 \<or> sgn (val r) = sgn (val d)"
    proof -
      have "sgn c = 0 \<or> sgn c = sgn (coef d)"
        using round_mag_nonneg [of "\<bar>coef d\<bar>" m s]
        by (auto simp: c round_coef_def sgn_mult sgn_if)
      then show ?thesis by (auto simp: sgn_val r)
    qed
    ultimately show ?thesis by simp
  qed
  then show "m \<noteq> ROUND_UP \<Longrightarrow> \<bar>val r - val d\<bar> \<le> 10 powi e / 2"
    and "m = ROUND_UP \<Longrightarrow> \<bar>val d\<bar> \<le> \<bar>val r\<bar> \<and> \<bar>val r\<bar> < \<bar>val d\<bar> + 10 powi e"
    and "sgn (val r) = 0 \<or> sgn (val r) = sgn (val d)" by simp_all
qed

lemma dec_quantize_Inr:
  assumes "dec_quantize m e d = Inr r"
  shows "expo r = e"
    and "m \<noteq> ROUND_UP \<Longrightarrow> \<bar>val r - val d\<bar> \<le> 10 powi e / 2"
    and "m = ROUND_UP \<Longrightarrow> \<bar>val d\<bar> \<le> \<bar>val r\<bar> \<and> \<bar>val r\<bar> < \<bar>val d\<bar> + 10 powi e"
    and "sgn (val r) = 0 \<or> sgn (val r) = sgn (val d)"
    and "grid (nat (- e)) (val r) \<or> 0 < e"
proof -
  have r: "r = Dec (quantize_coef m e d) e"
    using assms by (simp add: dec_quantize_cases split: if_splits)
  note z = quantize_value [OF r]
  show "expo r = e" by (rule z)
  show "m \<noteq> ROUND_UP \<Longrightarrow> \<bar>val r - val d\<bar> \<le> 10 powi e / 2" by (rule z)
  show "m = ROUND_UP \<Longrightarrow> \<bar>val d\<bar> \<le> \<bar>val r\<bar> \<and> \<bar>val r\<bar> < \<bar>val d\<bar> + 10 powi e" by (rule z)
  show "sgn (val r) = 0 \<or> sgn (val r) = sgn (val d)" by (rule z)
  show "grid (nat (- e)) (val r) \<or> 0 < e" by (rule z)
qed

text \<open>Two points of a grid that are less than a step apart are in order.\<close>

lemma grid_step:
  assumes "grid k x" "grid k y" "x < y + 1 / 10 ^ k"
  shows "x \<le> y"
proof -
  obtain m n where m: "x * 10 ^ k = of_int m" and n: "y * 10 ^ k = of_int n"
    using assms by (auto simp: grid_def)
  have "x * 10 ^ k < (y + 1 / 10 ^ k) * 10 ^ k"
    using assms(3) by (rule mult_strict_right_mono) simp
  then have "(of_int m :: rat) < of_int (n + 1)" by (simp add: m n distrib_right)
  then have "(of_int m :: rat) \<le> of_int n" unfolding of_int_less_iff of_int_le_iff by simp
  then have "x * 10 ^ k \<le> y * 10 ^ k" by (simp add: m n)
  then show ?thesis by simp
qed

lemma quantize_up_le:
  assumes y: "0 \<le> val d" "val d \<le> x" and x: "grid k x" "x * 10 ^ k < 10 ^ prec"
  obtains r where "dec_quantize ROUND_UP (- int k) d = Inr r" "val d \<le> val r" "val r \<le> x"
    "grid k (val r)"
proof -
  define r where "r = Dec (quantize_coef ROUND_UP (- int k) d) (- int k)"
  note z = quantize_value [OF r_def]
  have s: "\<bar>val r\<bar> = val r" using z(4) y(1) by (auto simp: sgn_if abs_if split: if_splits)
  have g: "grid k (val r)" using z(5) by simp
  have ub: "val d \<le> val r" "val r < val d + 1 / 10 ^ k"
    using z(3) y(1) by (simp_all add: s power_int_minus field_simps)
  have "val r \<le> x" using g x(1) by (rule grid_step) (use ub y in linarith)
  moreover have "\<bar>coef r\<bar> < 10 ^ prec"
  proof -
    have "val r * 10 ^ k = of_int (coef r)"
      by (simp add: r_def val_Dec power_int_minus)
    then have "\<bar>of_int (coef r)\<bar> = val r * 10 ^ k" using s by (metis abs_mult abs_numeral power_abs)
    also have "\<dots> \<le> x * 10 ^ k" using \<open>val r \<le> x\<close> by simp
    finally have "(of_int \<bar>coef r\<bar> :: rat) < of_int (10 ^ prec)" using x(2) by simp
    then show ?thesis by (simp only: of_int_less_iff)
  qed
  then have "dec_quantize ROUND_UP (- int k) d = Inr r" by (simp add: dec_quantize_cases r_def)
  ultimately show thesis using that ub(1) g by blast
qed

end
