(* ===== verification/Sizing.thy ===== *)
theory Sizing
  imports Decimal_Division
begin

text \<open>
  Sleeve-aware sizing and FIFO lot selection (\<^verbatim>\<open>ledger/sizing.py\<close>): target orders with a
  drift band, the free-cash fit of a buy, and \<^verbatim>\<open>select_lots_fifo\<close>.

  FIFO selection succeeds exactly when the lots cover the sale and keeps every share
  (\<open>select_lots_fifo_spec\<close>), leaves a suffix of the lots in acquisition order with at
  most one partially consumed lot in front (\<open>select_lots_fifo_suffix\<close>) and splits the cost basis
  between the closed and the remaining part up to the context's rounding (\<open>select_lots_fifo_cost\<close>).
\<close>

section \<open>Target orders\<close>

record sleeve_order =
  so_sleeve :: string
  so_symbol :: string
  so_side :: string
  so_qty :: decimal
  so_price :: decimal

definition SleeveOrder :: "string \<Rightarrow> string \<Rightarrow> string \<Rightarrow> decimal \<Rightarrow> decimal \<Rightarrow> sleeve_order" where
  "SleeveOrder sid y side q p =
     \<lparr>so_sleeve = sid, so_symbol = y, so_side = side, so_qty = q, so_price = p\<rparr>"

definition default_drift_tolerance :: decimal where
  "default_drift_tolerance = Dec 5 (- 2)"

definition qty_exp :: int where
  "qty_exp = - 8"

definition quantize_qty :: "decimal \<Rightarrow> decimal result" where
  "quantize_qty d = dec_quantize ROUND_HALF_EVEN qty_exp d"

definition sleeve_equity ::
  "decimal \<Rightarrow> (string, decimal) dict \<Rightarrow> (string, decimal) dict \<Rightarrow> decimal" where
  "sleeve_equity cash positions prices =
     foldl (\<lambda>v sq. case map_of prices (fst sq) of None \<Rightarrow> v | Some price \<Rightarrow> v + snd sq * price)
       cash positions"

definition target_order_for ::
  "string \<Rightarrow> decimal \<Rightarrow> (string, decimal) dict \<Rightarrow> (string, decimal) dict \<Rightarrow> (string, decimal) dict \<Rightarrow>
   decimal \<Rightarrow> string \<Rightarrow> sleeve_order list result" where
  "target_order_for sid equity weights current prices tolerance y =
     (case map_of prices y of
        None \<Rightarrow> Inr []
      | Some price \<Rightarrow>
          if price \<le> 0 then Inr []
          else
            let weight = dict_get weights y 0; cur_qty = dict_get current y 0
            in if weight \<le> 0 then
                 Inr (if 0 < cur_qty then [SleeveOrder sid y ''sell'' cur_qty price] else [])
               else
                 let target_value = dec_div (equity * weight) (Dec 100 0);
                     target_qty = dec_div target_value price;
                     delta_qty = target_qty - cur_qty
                 in if is_zero delta_qty then Inr []
                    else if 0 < target_value \<and> dec_div \<bar>delta_qty * price\<bar> target_value < tolerance
                    then Inr []
                    else bindR (quantize_qty \<bar>delta_qty\<bar>) (\<lambda>q.
                           Inr [SleeveOrder sid y (if 0 < delta_qty then ''buy'' else ''sell'') q price]))"

definition target_orders ::
  "string \<Rightarrow> decimal \<Rightarrow> (string, decimal) dict \<Rightarrow> (string, decimal) dict \<Rightarrow> (string, decimal) dict \<Rightarrow>
   decimal \<Rightarrow> sleeve_order list result" where
  "target_orders sid equity weights current prices tolerance =
     bindR (mapR (target_order_for sid equity weights current prices tolerance)
              (sort (remdups (keys weights @ keys current))))
       (\<lambda>orders. Inr (concat orders))"

definition fit_to_free_cash :: "sleeve_order \<Rightarrow> decimal \<Rightarrow> sleeve_order option result" where
  "fit_to_free_cash order free_cash =
     (if so_side order \<noteq> ''buy'' then Inr (Some order)
      else if so_qty order * so_price order \<le> free_cash then Inr (Some order)
      else if free_cash \<le> 0 \<or> so_price order \<le> 0 then Inr None
      else bindR (quantize_qty (dec_div free_cash (so_price order))) (\<lambda>affordable_qty.
             if affordable_qty \<le> 0 then Inr None
             else Inr (Some (SleeveOrder (so_sleeve order) (so_symbol order) ''buy'' affordable_qty
                               (so_price order)))))"

section \<open>FIFO lot selection\<close>

record lot =
  lot_qty :: decimal
  lot_cost :: decimal
  lot_seq :: int

definition Lot :: "decimal \<Rightarrow> decimal \<Rightarrow> int \<Rightarrow> lot" where
  "Lot q c n = \<lparr>lot_qty = q, lot_cost = c, lot_seq = n\<rparr>"

record fifo_result =
  fr_closed_cost :: decimal
  fr_consumed :: decimal
  fr_remaining :: "lot list"

fun consume_lots :: "decimal \<Rightarrow> decimal \<Rightarrow> lot list \<Rightarrow> decimal \<times> decimal \<times> lot list" where
  "consume_lots remaining closed_cost [] = (remaining, closed_cost, [])"
| "consume_lots remaining closed_cost (l # ls) =
     (if remaining \<le> 0 then
        (case consume_lots remaining closed_cost ls of (r, c, out) \<Rightarrow> (r, c, l # out))
      else if lot_qty l \<le> remaining then
        consume_lots (remaining - lot_qty l) (closed_cost + lot_cost l) ls
      else
        let unit_cost = dec_div (lot_cost l) (lot_qty l)
        in case consume_lots 0 (closed_cost + unit_cost * remaining) ls of (r, c, out) \<Rightarrow>
             (r, c, Lot (lot_qty l - remaining) (lot_cost l - unit_cost * remaining) (lot_seq l) # out))"

definition select_lots_fifo :: "lot list \<Rightarrow> decimal \<Rightarrow> fifo_result result" where
  "select_lots_fifo lots sell_qty =
     (if sell_qty \<le> 0 then Inl ValueError
      else case consume_lots sell_qty 0 (sort_key lot_seq lots) of (remaining, closed_cost, out) \<Rightarrow>
        if 0 < remaining then Inl ValueError
        else Inr \<lparr>fr_closed_cost = closed_cost, fr_consumed = sell_qty, fr_remaining = out\<rparr>)"

section \<open>The order of consumption\<close>

lemma consume_done: "r \<le> 0 \<Longrightarrow> consume_lots r c ls = (r, c, ls)"
  by (induction ls) auto

definition fifo_suffix :: "lot list \<Rightarrow> lot list \<Rightarrow> bool" where
  "fifo_suffix ls out \<longleftrightarrow>
     (\<exists>n. out = drop n ls) \<or>
     (\<exists>n l. n < length ls \<and> out = l # drop (Suc n) ls \<and> lot_seq l = lot_seq (ls ! n) \<and>
        0 < val (lot_qty l))"

lemma fifo_suffix_Cons: "fifo_suffix ls out \<Longrightarrow> fifo_suffix (l # ls) out"
  unfolding fifo_suffix_def
  by (metis Suc_less_eq drop_Suc_Cons length_Cons nth_Cons_Suc)

lemma consume_suffix:
  "consume_lots r c ls = (r', c', out) \<Longrightarrow> fifo_suffix ls out"
proof (induction ls arbitrary: r c)
  case Nil
  then show ?case by (simp add: fifo_suffix_def)
next
  case (Cons l ls)
  consider "r \<le> 0" | "0 < val r" "lot_qty l \<le> r" | "0 < val r" "val r < val (lot_qty l)"
    by (auto simp: le_val) linarith
  then show ?case
  proof cases
    case 1
    with Cons.prems have "out = l # ls" by (simp add: consume_done)
    then show ?thesis unfolding fifo_suffix_def by (metis drop0)
  next
    case 2
    with Cons show ?thesis by (auto simp: le_val intro: fifo_suffix_Cons)
  next
    case 3
    let ?u = "dec_div (lot_cost l) (lot_qty l)"
    from 3 Cons.prems
    have "out = Lot (lot_qty l - r) (lot_cost l - ?u * r) (lot_seq l) # ls"
      by (simp add: le_val consume_done Let_def)
    moreover have "0 < val (lot_qty l - r)" using 3 by (simp add: val_diff_sign)
    ultimately have "0 < length (l # ls) \<and>
        out = Lot (lot_qty l - r) (lot_cost l - ?u * r) (lot_seq l) # drop (Suc 0) (l # ls) \<and>
        lot_seq (Lot (lot_qty l - r) (lot_cost l - ?u * r) (lot_seq l)) = lot_seq ((l # ls) ! 0) \<and>
        0 < val (lot_qty (Lot (lot_qty l - r) (lot_cost l - ?u * r) (lot_seq l)))"
      by (simp add: Lot_def)
    then show ?thesis unfolding fifo_suffix_def by blast
  qed
qed

section \<open>Shares\<close>

definition shares :: "lot list \<Rightarrow> rat" where
  "shares ls = sum_list (map (\<lambda>l. val (lot_qty l)) ls)"

definition basis :: "lot list \<Rightarrow> rat" where
  "basis ls = sum_list (map (\<lambda>l. val (lot_cost l)) ls)"

definition open_lots_ok :: "nat \<Rightarrow> lot list \<Rightarrow> bool" where
  "open_lots_ok k ls \<longleftrightarrow>
     list_all (\<lambda>l. 0 < val (lot_qty l) \<and> grid k (val (lot_qty l))) ls \<and> room k (shares ls)"

lemma shares_simps [simp]: "shares [] = 0" "shares (l # ls) = val (lot_qty l) + shares ls"
  by (simp_all add: shares_def)

lemma basis_simps [simp]: "basis [] = 0" "basis (l # ls) = val (lot_cost l) + basis ls"
  by (simp_all add: basis_def)

lemma shares_sort [simp]: "shares (sort_key f ls) = shares ls"
  by (simp add: shares_def)

lemma basis_sort [simp]: "basis (sort_key f ls) = basis ls"
  by (simp add: basis_def)

lemma shares_nonneg: "list_all (\<lambda>l. 0 < val (lot_qty l) \<and> P l) ls \<Longrightarrow> 0 \<le> shares ls"
  by (induction ls) auto

lemma consume_shares:
  assumes "list_all (\<lambda>l. 0 < val (lot_qty l) \<and> grid k (val (lot_qty l))) ls"
    "room k (shares ls)" "room k (val r)" "grid k (val r)" "0 < val r"
    and "consume_lots r c ls = (r', c', out)"
  shows "if val r \<le> shares ls then val r' = 0 \<and> shares out = shares ls - val r
    else val r' = val r - shares ls \<and> out = []"
  using assms
proof (induction ls arbitrary: r c)
  case Nil
  then show ?case by auto
next
  case (Cons l ls)
  have pos: "0 < val (lot_qty l)" "0 \<le> shares ls" "grid k (val (lot_qty l))"
    using Cons.prems(1) shares_nonneg by auto
  have rl: "room k (shares ls)" "room k (val (lot_qty l))"
    using Cons.prems(2) pos by (auto intro: room_mono)
  show ?case
  proof (cases "val (lot_qty l) \<le> val r")
    case True
    then have d: "val (r - lot_qty l) = val r - val (lot_qty l)"
      using pos Cons.prems by (intro val_diff_grid [where k = k]) (auto intro: room_mono)
    have step: "consume_lots (r - lot_qty l) (c + lot_cost l) ls = (r', c', out)"
      using Cons.prems(5,6) True by (simp add: le_val)
    show ?thesis
    proof (cases "val (lot_qty l) = val r")
      case True
      then have "val (r - lot_qty l) = 0" by (simp add: d)
      then have "r - lot_qty l \<le> 0" by (simp add: le_val)
      from consume_done [OF this] step True pos d show ?thesis by simp
    next
      case False
      have "if val (r - lot_qty l) \<le> shares ls
          then val r' = 0 \<and> shares out = shares ls - val (r - lot_qty l)
          else val r' = val (r - lot_qty l) - shares ls \<and> out = []"
      proof (rule Cons.IH [OF _ rl(1) _ _ _ step])
        show "list_all (\<lambda>l. 0 < val (lot_qty l) \<and> grid k (val (lot_qty l))) ls"
          using Cons.prems(1) by simp
        show "room k (val (r - lot_qty l))"
          using Cons.prems(3) by (rule room_mono) (use d pos in simp)
        show "grid k (val (r - lot_qty l))" unfolding d using Cons.prems(4) pos by (simp add: grid_diff)
        show "0 < val (r - lot_qty l)" using False True d by simp
      qed
      then show ?thesis unfolding d by (auto split: if_splits)
    qed
  next
    case False
    then have d: "val (lot_qty l - r) = val (lot_qty l) - val r"
      using pos Cons.prems(3-5) rl(2) by (intro val_diff_grid [where k = k]) (auto intro: room_mono)
    have "r' = 0 \<and> lot_qty (hd out) = lot_qty l - r \<and> tl out = ls \<and> out \<noteq> []"
      using Cons.prems(5,6) False by (auto simp: le_val consume_done Let_def Lot_def)
    then obtain x where "out = x # ls" "lot_qty x = lot_qty l - r" "r' = 0"
      by (metis list.collapse)
    with False pos d show ?thesis by simp
  qed
qed

lemma select_lots_fifo_cases:
  assumes "0 < val q" "consume_lots q 0 (sort_key lot_seq lots) = (r, c, out)"
  shows "select_lots_fifo lots q =
    (if 0 < val r then Inl ValueError
     else Inr \<lparr>fr_closed_cost = c, fr_consumed = q, fr_remaining = out\<rparr>)"
  using assms by (simp add: select_lots_fifo_def le_val less_val)

text \<open>
  Selection succeeds exactly when a positive quantity is asked for that the lots cover, and then
  the remaining lots hold exactly the shares that were not sold.
\<close>

lemma select_lots_fifo_spec:
  assumes "open_lots_ok k lots" "grid k (val q)" "room k (val q)"
  shows "is_ok (select_lots_fifo lots q) \<longleftrightarrow> 0 < val q \<and> val q \<le> shares lots"
    and "select_lots_fifo lots q = Inr res \<Longrightarrow>
      shares (fr_remaining res) = shares lots - val q \<and> fr_consumed res = q"
proof -
  obtain r c out where r: "consume_lots q 0 (sort_key lot_seq lots) = (r, c, out)"
    by (cases "consume_lots q 0 (sort_key lot_seq lots)")
  have spec: "if val q \<le> shares lots then val r = 0 \<and> shares out = shares lots - val q
      else val r = val q - shares lots \<and> out = []" if "0 < val q"
    using consume_shares [OF _ _ assms(3,2) that r] assms(1) by (simp add: open_lots_ok_def)
  show "is_ok (select_lots_fifo lots q) \<longleftrightarrow> 0 < val q \<and> val q \<le> shares lots"
  proof (cases "0 < val q")
    case True
    with spec [OF True] show ?thesis
      by (auto simp: select_lots_fifo_cases [OF True r] split: if_splits)
  next
    case False
    then show ?thesis by (simp add: select_lots_fifo_def le_val)
  qed
  assume res: "select_lots_fifo lots q = Inr res"
  then have q: "0 < val q" by (auto simp: select_lots_fifo_def le_val split: if_splits)
  with res spec [OF q] select_lots_fifo_cases [OF q r]
  show "shares (fr_remaining res) = shares lots - val q \<and> fr_consumed res = q"
    by (auto split: if_splits)
qed

lemma select_lots_fifo_suffix:
  "select_lots_fifo lots q = Inr res \<Longrightarrow> fifo_suffix (sort_key lot_seq lots) (fr_remaining res)"
  by (auto simp: select_lots_fifo_def split: if_splits prod.splits dest: consume_suffix)

text \<open>The lots that stay open keep a positive quantity on the grid.\<close>

abbreviation lots_positive :: "nat \<Rightarrow> lot list \<Rightarrow> bool" where
  "lots_positive k ls \<equiv> list_all (\<lambda>l. 0 < val (lot_qty l) \<and> grid k (val (lot_qty l))) ls"

lemma consume_positive:
  assumes "lots_positive k ls" "room k (shares ls)" "grid k (val r)" "room k (val r)"
    and "consume_lots r c ls = (r', c', out)"
  shows "lots_positive k out"
  using assms
proof (induction ls arbitrary: r c)
  case (Cons l ls)
  have pos: "0 < val (lot_qty l)" "0 \<le> shares ls" "grid k (val (lot_qty l))"
    using Cons.prems(1) shares_nonneg by auto
  have rl: "room k (shares ls)" "room k (val (lot_qty l))"
    using Cons.prems(2) pos by (auto intro: room_mono)
  consider "r \<le> 0" | "0 < val r" "val (lot_qty l) \<le> val r" | "0 < val r" "val r < val (lot_qty l)"
    by (auto simp: le_val) linarith
  then show ?case
  proof cases
    case 1
    with Cons.prems show ?thesis by (auto simp: consume_done)
  next
    case 2
    then have d: "val (r - lot_qty l) = val r - val (lot_qty l)"
      using pos Cons.prems(3,4) by (intro val_diff_grid [where k = k]) (auto intro: room_mono)
    show ?thesis
    proof (rule Cons.IH [OF _ rl(1)])
      show "lots_positive k ls" using Cons.prems(1) by simp
      show "grid k (val (r - lot_qty l))" unfolding d using Cons.prems(3) pos by (simp add: grid_diff)
      show "room k (val (r - lot_qty l))" using Cons.prems(4) by (rule room_mono) (use d pos in simp)
      show "consume_lots (r - lot_qty l) (c + lot_cost l) ls = (r', c', out)"
        using Cons.prems(5) 2 by (simp add: le_val)
    qed
  next
    case 3
    then have d: "val (lot_qty l - r) = val (lot_qty l) - val r"
      using pos Cons.prems(3) rl(2) by (intro val_diff_grid [where k = k]) (auto intro: room_mono)
    have "out = Lot (lot_qty l - r) (lot_cost l - dec_div (lot_cost l) (lot_qty l) * r) (lot_seq l) # ls"
      using Cons.prems(5) 3 by (auto simp: le_val consume_done Let_def)
    with 3 pos d Cons.prems(1,3) show ?thesis by (simp add: Lot_def grid_diff)
  qed
qed simp

lemma select_lots_fifo_positive:
  assumes "open_lots_ok k lots" "grid k (val q)" "room k (val q)" "select_lots_fifo lots q = Inr res"
  shows "lots_positive k (fr_remaining res)"
proof -
  obtain r c out where r: "consume_lots q 0 (sort_key lot_seq lots) = (r, c, out)"
    by (cases "consume_lots q 0 (sort_key lot_seq lots)")
  then have "fr_remaining res = out"
    using assms(4) by (auto simp: select_lots_fifo_def split: if_splits)
  with consume_positive [OF _ _ assms(2,3) r] assms(1) show ?thesis by (simp add: open_lots_ok_def)
qed

section \<open>Cost basis\<close>

lemma abs_le_of_error: "\<bar>x - y\<bar> \<le> e * \<bar>y\<bar> \<Longrightarrow> \<bar>x\<bar> \<le> \<bar>y\<bar> * (1 + e)" for x y e :: rat
  using abs_triangle_ineq2 [of x y] by (simp add: algebra_simps)

lemma partial_cost_bound:
  assumes "0 < val r" "val r \<le> val q"
  shows "\<bar>val (dec_div c q * r)\<bar> \<le> 2 * \<bar>val c\<bar>"
proof -
  have q: "0 < val q" using assms by simp
  have u: "\<bar>val (dec_div c q)\<bar> \<le> \<bar>val c / val q\<bar> * (1 + div_eps)"
    using dec_div_error [of q c] q by (intro abs_le_of_error) (simp_all add: mult.commute)
  have "\<bar>val (dec_div c q * r)\<bar> \<le> \<bar>val (dec_div c q) * val r\<bar> * (1 + ulp28)"
    by (rule abs_le_of_error [OF mult_error])
  also have "\<dots> = \<bar>val (dec_div c q)\<bar> * val r * (1 + ulp28)" using assms(1) by (simp add: abs_mult)
  also have "\<dots> \<le> \<bar>val (dec_div c q)\<bar> * val q * (1 + ulp28)"
    using assms by (intro mult_right_mono mult_left_mono) (simp_all add: ulp28_def)
  also have "\<dots> \<le> (\<bar>val c / val q\<bar> * (1 + div_eps)) * val q * (1 + ulp28)"
    using u q by (intro mult_right_mono) (simp_all add: ulp28_def)
  also have "\<dots> = \<bar>val c\<bar> * ((1 + div_eps) * (1 + ulp28))" using q by (simp add: abs_divide)
  also have "\<dots> \<le> \<bar>val c\<bar> * 2" by (intro mult_left_mono) (simp_all add: div_eps_def ulp28_def)
  finally show ?thesis by simp
qed

abbreviation costs :: "lot list \<Rightarrow> decimal list" where
  "costs ls \<equiv> map lot_cost ls"

lemma consume_cost:
  assumes "on_grid k (costs ls)" "grid k (val c)" "room k (\<bar>val c\<bar> + weight (costs ls))"
    and "consume_lots r c ls = (r', c', out)"
  shows "\<bar>val c' + basis out - (val c + basis ls)\<bar> \<le> 5 * ulp28 * (\<bar>val c\<bar> + weight (costs ls))"
  using assms
proof (induction ls arbitrary: r c)
  case Nil
  then show ?case by (simp add: ulp28_def)
next
  case (Cons l ls)
  have u: "0 < ulp28" by (rule ulp28_pos)
  consider "r \<le> 0" | "0 < val r" "lot_qty l \<le> r" | "0 < val r" "val r < val (lot_qty l)"
    by (auto simp: le_val) linarith
  then show ?case
  proof cases
    case 1
    with Cons.prems(4) u show ?thesis by (simp add: consume_done)
  next
    case 2
    have a: "val (c + lot_cost l) = val c + val (lot_cost l)"
      using Cons.prems(1,2)
      by (intro exact_add_in_room [OF _ _ order_refl room_mono [OF Cons.prems(3)]]) simp_all
    have "\<bar>val c' + basis out - (val (c + lot_cost l) + basis ls)\<bar>
        \<le> 5 * ulp28 * (\<bar>val (c + lot_cost l)\<bar> + weight (costs ls))"
    proof (rule Cons.IH)
      show "on_grid k (costs ls)" using Cons.prems(1) by simp
      show "grid k (val (c + lot_cost l))" unfolding a using Cons.prems(1,2) by (simp add: grid_add)
      show "room k (\<bar>val (c + lot_cost l)\<bar> + weight (costs ls))"
        using Cons.prems(3) by (rule room_mono) (simp add: a abs_triangle_ineq)
      show "consume_lots (r - lot_qty l) (c + lot_cost l) ls = (r', c', out)"
        using 2 Cons.prems(4) by (simp add: le_val)
    qed
    also have "\<dots> \<le> 5 * ulp28 * (\<bar>val c\<bar> + weight (costs (l # ls)))"
      using u by (intro mult_left_mono) (simp_all add: a abs_triangle_ineq)
    finally show ?thesis by (simp add: a)
  next
    case 3
    define p where "p = dec_div (lot_cost l) (lot_qty l) * r"
    have c': "c' = c + p" "basis out = val (lot_cost l - p) + basis ls"
      using 3 Cons.prems(4) by (auto simp: le_val consume_done Let_def p_def Lot_def)
    have p: "\<bar>val p\<bar> \<le> 2 * \<bar>val (lot_cost l)\<bar>"
      unfolding p_def using 3 by (intro partial_cost_bound) simp_all
    have "\<bar>val c' + basis out - (val c + basis (l # ls))\<bar>
        \<le> \<bar>val (c + p) - (val c + val p)\<bar> + \<bar>val (lot_cost l - p) - (val (lot_cost l) - val p)\<bar>"
      by (simp add: c')
    also have "\<dots> \<le> ulp28 * \<bar>val c + val p\<bar> + ulp28 * \<bar>val (lot_cost l) - val p\<bar>"
      by (intro add_mono add_error diff_error)
    also have "\<dots> = ulp28 * (\<bar>val c + val p\<bar> + \<bar>val (lot_cost l) - val p\<bar>)"
      by (simp add: distrib_left)
    also have "\<dots> \<le> ulp28 * (5 * (\<bar>val c\<bar> + weight (costs (l # ls))))"
    proof (rule mult_left_mono)
      have arith: "x + y \<le> 5 * (a + (l + w))"
        if "b \<le> 2 * l" "x \<le> a + b" "y \<le> l + b" "0 \<le> w" "0 \<le> a" for x y a b l w :: rat
        using that unfolding distrib_left by linarith
      show "\<bar>val c + val p\<bar> + \<bar>val (lot_cost l) - val p\<bar> \<le>
          5 * (\<bar>val c\<bar> + weight (costs (l # ls)))"
        unfolding list.map weight_simps
        by (rule arith [OF p abs_triangle_ineq abs_triangle_ineq4]) simp_all
    qed (use u in simp)
    finally show ?thesis by (simp only: mult.assoc mult.left_commute)
  qed
qed

lemma weight_sort [simp]: "weight (costs (sort_key f ls)) = weight (costs ls)"
  unfolding weight_def map_map comp_def by (rule sum_list_sort_key)

lemma on_grid_sort [simp]: "on_grid k (costs (sort_key f ls)) = on_grid k (costs ls)"
  by (simp add: on_grid_def list_all_iff)

lemma select_lots_fifo_cost:
  assumes "on_grid k (costs lots)" "room k (weight (costs lots))"
    and res: "select_lots_fifo lots q = Inr res"
  shows "\<bar>val (fr_closed_cost res) + basis (fr_remaining res) - basis lots\<bar>
    \<le> 5 * ulp28 * weight (costs lots)"
proof -
  obtain r c out where r: "consume_lots q 0 (sort_key lot_seq lots) = (r, c, out)"
    by (cases "consume_lots q 0 (sort_key lot_seq lots)")
  have "fr_closed_cost res = c" "fr_remaining res = out"
    using res r by (auto simp: select_lots_fifo_def split: if_splits)
  with consume_cost [of k "sort_key lot_seq lots" 0, OF _ _ _ r] assms show ?thesis by simp
qed

section \<open>Orders\<close>

text \<open>
  Every target order trades a symbol with a positive price, has a non-negative quantity and,
  when it is an exit, exactly the held quantity.
\<close>

lemma quantize_qty_Inr:
  assumes "quantize_qty d = Inr q"
  shows "\<bar>val q - val d\<bar> \<le> 5 / 10 ^ 9" "grid 8 (val q)" "0 \<le> val d \<Longrightarrow> 0 \<le> val q"
proof -
  note z = dec_quantize_Inr [OF assms [unfolded quantize_qty_def]]
  show "\<bar>val q - val d\<bar> \<le> 5 / 10 ^ 9"
    using z(2) by (simp add: qty_exp_def power_int_minus)
  show "grid 8 (val q)" using z(5) by (simp add: qty_exp_def)
  show "0 \<le> val d \<Longrightarrow> 0 \<le> val q" using z(4) by (auto simp: sgn_if split: if_splits)
qed

definition sound_order ::
  "(string, decimal) dict \<Rightarrow> (string, decimal) dict \<Rightarrow> (string, decimal) dict \<Rightarrow> sleeve_order \<Rightarrow> bool" where
  "sound_order weights current prices ord \<longleftrightarrow>
     map_of prices (so_symbol ord) = Some (so_price ord) \<and> 0 < so_price ord \<and> 0 \<le> so_qty ord \<and>
     (so_side ord = ''buy'' \<or> so_side ord = ''sell'') \<and>
     (dict_get weights (so_symbol ord) 0 \<le> 0 \<longrightarrow>
        so_side ord = ''sell'' \<and> so_qty ord = dict_get current (so_symbol ord) 0)"

lemma target_order_for_sound:
  assumes "target_order_for sid eq w cur pr tol y = Inr os"
  shows "list_all (\<lambda>ord. sound_order w cur pr ord \<and> so_sleeve ord = sid \<and> so_symbol ord = y) os
    \<and> length os \<le> 1"
proof -
  have a: "0 \<le> val \<bar>d\<bar>" for d
    using sgn_abs_dec [of d] by (auto simp: sgn_if split: if_splits)
  show ?thesis
    using assms quantize_qty_Inr(3) a
    by (auto simp: target_order_for_def Let_def result_simps sound_order_def SleeveOrder_def
        le_val less_val split: option.splits if_splits)
qed

lemma target_orders_sound:
  assumes "target_orders sid eq w cur pr tol = Inr os"
  shows "list_all (\<lambda>ord. sound_order w cur pr ord \<and> so_sleeve ord = sid) os"
    and "distinct (map so_symbol os)"
proof -
  define ys where "ys = sort (remdups (keys w @ keys cur))"
  obtain oss where m: "mapR (target_order_for sid eq w cur pr tol) ys = Inr oss" and os: "os = concat oss"
    using assms by (auto simp: target_orders_def result_simps ys_def)
  have "list_all2 (\<lambda>y os. list_all (\<lambda>ord. sound_order w cur pr ord \<and> so_sleeve ord = sid \<and> so_symbol ord = y) os
      \<and> length os \<le> 1) ys oss"
    using m unfolding mapR_Inr_iff by (rule list_all2_mono) (rule target_order_for_sound)
  moreover have "distinct ys" by (simp add: ys_def)
  ultimately have "list_all (\<lambda>ord. sound_order w cur pr ord \<and> so_sleeve ord = sid) (concat oss) \<and>
      distinct (map so_symbol (concat oss)) \<and> set (map so_symbol (concat oss)) \<subseteq> set ys"
  proof (induction ys oss rule: list_all2_induct)
    case Nil
    then show ?case by simp
  next
    case (Cons y ys os oss)
    then show ?case by (cases os) auto
  qed
  then show "list_all (\<lambda>ord. sound_order w cur pr ord \<and> so_sleeve ord = sid) os"
    and "distinct (map so_symbol os)" by (simp_all add: os)
qed

text \<open>
  The free-cash fit: an order passes unchanged when it is affordable, and a scaled buy costs at
  most half a quantity step above the free cash. Half-even rounding of the affordable quantity can
  round up, so the fit can exceed the free cash (\<open>fit_overdraws\<close>).
\<close>

definition order_cost :: "sleeve_order \<Rightarrow> rat" where
  "order_cost ord = val (so_qty ord) * val (so_price ord)"

lemma fit_to_free_cash_cases:
  assumes fit: "fit_to_free_cash ord cash = Inr (Some out)" and buy: "so_side ord = ''buy''"
  obtains "so_qty ord * so_price ord \<le> cash" "out = ord"
  | q where "\<not> so_qty ord * so_price ord \<le> cash" "0 < val cash" "0 < val (so_price ord)" "0 < val q"
      "quantize_qty (dec_div cash (so_price ord)) = Inr q"
      "out = SleeveOrder (so_sleeve ord) (so_symbol ord) ''buy'' q (so_price ord)"
  using assms
  by (auto simp: fit_to_free_cash_def result_simps le_val not_le split: if_splits)

lemma fit_to_free_cash_bound:
  assumes fit: "fit_to_free_cash ord cash = Inr (Some out)" and buy: "so_side ord = ''buy''"
    and scaled: "\<not> so_qty ord * so_price ord \<le> cash"
  shows "\<bar>order_cost out - val cash\<bar> \<le> val cash * div_eps + val (so_price ord) * (5 / 10 ^ 9)"
  using fit buy
proof (cases rule: fit_to_free_cash_cases)
  case 1
  with scaled show ?thesis by simp
next
  case (2 q)
  define x where "x = val cash / val (so_price ord)"
  have "\<bar>val (dec_div cash (so_price ord)) - x\<bar> \<le> x * div_eps"
    unfolding x_def using 2 dec_div_error [of "so_price ord" cash] by simp
  with quantize_qty_Inr(1) [OF 2(5)] have "\<bar>val q - x\<bar> \<le> x * div_eps + 5 / 10 ^ 9" by linarith
  then have "\<bar>val q - x\<bar> * val (so_price ord) \<le> (x * div_eps + 5 / 10 ^ 9) * val (so_price ord)"
    using 2(3) by (intro mult_right_mono) simp_all
  moreover have "x * val (so_price ord) = val cash" using 2(3) by (simp add: x_def)
  moreover have "\<bar>val q - x\<bar> * val (so_price ord) = \<bar>(val q - x) * val (so_price ord)\<bar>"
    using 2(3) by (simp add: abs_mult)
  moreover have "order_cost out = val q * val (so_price ord)"
    by (simp add: 2(6) order_cost_def SleeveOrder_def)
  ultimately show ?thesis by (simp add: algebra_simps)
qed

end
