(* ===== verification/Lot_Book.thy ===== *)
theory Lot_Book
  imports Projection Sizing
begin

text \<open>
  The FIFO lot book (\<^verbatim>\<open>ledger/projection.py\<close>, second half): \<^verbatim>\<open>fold_lots_into\<close>
  and the corporate-action steps it dispatches to, \<^verbatim>\<open>open_lots\<close> and
  \<^verbatim>\<open>holding_history\<close>.

  The book is mutated in place and an exception is caught per event, so a step that raises half
  way keeps the mutations it made: each step returns the book as it stands when the step ends and
  the exception that ended it, if any. Every such exception is one the fold catches
  (\<open>lot_event_error\<close>).

  The book resumes from a checkpoint (\<open>fold_lots_resume\<close>), a rename and a sleeve close carry lots
  one to one (\<open>apply_rename_carries\<close>), and on a log of fills that
  never oversells the lots of every sleeve and symbol sum to the position of the balance fold
  (\<open>fold_tracks\<close>).
\<close>

section \<open>The book and its operations\<close>

type_synonym lot_book = "(string, (string, lot list) dict) dict"

type_synonym lot_outcome = "lot_book \<times> py_error option"

definition book_lots :: "lot_book \<Rightarrow> string \<Rightarrow> string \<Rightarrow> lot list" where
  "book_lots book sid y = dict_get (dict_get book sid []) y []"

definition event_lot_seq :: "ledger_event \<Rightarrow> nat \<Rightarrow> int" where
  "event_lot_seq ev index = (case ev_sequence ev of None \<Rightarrow> int index | Some n \<Rightarrow> n)"

fun rebase_lots :: "decimal \<Rightarrow> decimal \<Rightarrow> decimal \<Rightarrow> lot list \<Rightarrow> lot list" where
  "rebase_lots new_total old_total allocated [] = []"
| "rebase_lots new_total old_total allocated [l] = [l\<lparr>lot_qty := new_total - allocated\<rparr>]"
| "rebase_lots new_total old_total allocated (l # m # ls) =
     (let q = dec_div (lot_qty l * new_total) old_total
      in l\<lparr>lot_qty := q\<rparr> # rebase_lots new_total old_total (allocated + q) (m # ls))"

definition rebase_split :: "lot list \<Rightarrow> decimal \<Rightarrow> lot list" where
  "rebase_split lots qty_delta =
     (let old_total = dec_sum (map lot_qty lots); new_total = old_total + qty_delta
      in if old_total \<le> 0 \<or> new_total \<le> 0 then [] else rebase_lots new_total old_total 0 lots)"

definition apply_split :: "lot_book \<Rightarrow> payload \<Rightarrow> lot_outcome" where
  "apply_split book data =
     (case bindR (str_field data ''sleeve_id'') (\<lambda>sid.
           bindR (str_field data ''symbol'') (\<lambda>y. Inr (sid, y))) of
        Inl e \<Rightarrow> (book, Some e)
      | Inr (sid, y) \<Rightarrow>
          (let lots = book_lots book sid y
           in if lots = [] then (book, None)
              else case decimal_str_field data ''qty_delta'' of
                Inl e \<Rightarrow> (book, Some e)
              | Inr d \<Rightarrow>
                  (dict_modify sid [] (AList.update y (rebase_split lots d)) book, None)))"

definition insert_lots :: "string \<Rightarrow> lot list \<Rightarrow> (string, lot list) dict \<Rightarrow> (string, lot list) dict" where
  "insert_lots y ls symbols =
     AList.update y (sort_key lot_seq (dict_get symbols y [] @ ls)) symbols"

definition renamed_lots :: "payload \<Rightarrow> int \<Rightarrow> lot list \<Rightarrow> lot list result" where
  "renamed_lots data seq carried =
     (if carried \<noteq> [] then Inr carried
      else bindR (decimal_str_field data ''qty'') (\<lambda>qty.
             if is_zero qty then Inr []
             else bindR (decimal_str_field data ''cost_basis'') (\<lambda>cost. Inr [Lot qty cost seq])))"

definition apply_rename :: "lot_book \<Rightarrow> payload \<Rightarrow> int \<Rightarrow> lot_outcome" where
  "apply_rename book data seq =
     (case str_field data ''sleeve_id'' of
        Inl e \<Rightarrow> (book, Some e)
      | Inr sid \<Rightarrow>
          (let opened = dict_setdefault sid [] book
           in case str_field data ''old_symbol'' of
                Inl e \<Rightarrow> (opened, Some e)
              | Inr old_symbol \<Rightarrow>
                  (let popped = dict_modify sid [] (AList.delete old_symbol) opened
                   in case renamed_lots data seq (book_lots opened sid old_symbol) of
                        Inl e \<Rightarrow> (popped, Some e)
                      | Inr carried \<Rightarrow>
                          if carried = [] then (popped, None)
                          else case str_field data ''new_symbol'' of
                            Inl e \<Rightarrow> (popped, Some e)
                          | Inr new_symbol \<Rightarrow>
                              (dict_modify sid [] (insert_lots new_symbol carried) popped, None))))"

text \<open>A \<^verbatim>\<open>for\<close> loop whose body may raise: the entries before the failing one stay applied.\<close>

fun for_each :: "('s \<Rightarrow> 'x \<Rightarrow> 's \<times> py_error option) \<Rightarrow> 's \<Rightarrow> 'x list \<Rightarrow> 's \<times> py_error option" where
  "for_each f s [] = (s, None)"
| "for_each f s (x # xs) =
     (case f s x of (s', Some e) \<Rightarrow> (s', Some e) | (s', None) \<Rightarrow> for_each f s' xs)"

definition close_lot :: "string \<Rightarrow> lot_book \<Rightarrow> json \<Rightarrow> lot_outcome" where
  "close_lot target book v =
     (case bindR (as_dict v) (\<lambda>entry.
           bindR (str_field entry ''symbol'') (\<lambda>y.
           bindR (decimal_str_field entry ''qty'') (\<lambda>qty.
           bindR (decimal_str_field entry ''cost_basis'') (\<lambda>cost.
           bindR (bindR (field entry ''opened_seq'') py_int) (\<lambda>n. Inr (y, Lot qty cost n)))))) of
        Inl e \<Rightarrow> (book, Some e)
      | Inr (y, l) \<Rightarrow> (dict_modify target [] (insert_lots y [l]) book, None))"

definition close_position :: "string \<Rightarrow> int \<Rightarrow> lot_book \<Rightarrow> json \<Rightarrow> lot_outcome" where
  "close_position target seq book v =
     (case bindR (as_dict v) (\<lambda>entry.
           bindR (decimal_str_field entry ''qty'') (\<lambda>qty.
             if is_zero qty then Inr None
             else bindR (str_field entry ''symbol'') (\<lambda>y.
                  bindR (decimal_str_field entry ''cost_basis'') (\<lambda>cost.
                    Inr (Some (y, Lot qty cost seq)))))) of
        Inl e \<Rightarrow> (book, Some e)
      | Inr None \<Rightarrow> (book, None)
      | Inr (Some (y, l)) \<Rightarrow> (dict_modify target [] (insert_lots y [l]) book, None))"

text \<open>Emptying the source, then opening the target and carrying the lots into it.\<close>

definition close_source :: "lot_book \<Rightarrow> payload \<Rightarrow> lot_book" where
  "close_source book data =
     (case get_opt data ''sleeve_id'' of
        JNull \<Rightarrow> book | source \<Rightarrow> AList.update (py_str source) [] book)"

definition close_into :: "payload \<Rightarrow> int \<Rightarrow> string \<Rightarrow> lot_book \<Rightarrow> lot_outcome" where
  "close_into data seq target opened =
     (let lots = get_opt data ''lots''; positions = get_opt data ''positions''
      in if truthy lots then
           (case as_list lots of
              Inl e \<Rightarrow> (opened, Some e)
            | Inr vs \<Rightarrow> for_each (close_lot target) opened vs)
         else if truthy positions then
           (case as_list positions of
              Inl e \<Rightarrow> (opened, Some e)
            | Inr vs \<Rightarrow> for_each (close_position target seq) opened vs)
         else (opened, None))"

definition apply_sleeve_close :: "lot_book \<Rightarrow> payload \<Rightarrow> int \<Rightarrow> lot_outcome" where
  "apply_sleeve_close book data seq =
     (let emptied = close_source book data
      in case get_opt data ''to_position_sleeve_id'' of
           JNull \<Rightarrow> (emptied, None)
         | target \<Rightarrow>
             close_into data seq (py_str target) (dict_setdefault (py_str target) [] emptied))"

definition lot_posting :: "int \<Rightarrow> lot_book \<Rightarrow> posting \<Rightarrow> lot_outcome" where
  "lot_posting seq book p =
     (case (p_bucket p, p_sleeve p, p_symbol p, p_qty p) of
        (POSITION, Some sid, Some y, Some q) \<Rightarrow>
          if is_zero q then (book, None)
          else
            let opened = dict_modify sid [] (dict_setdefault y []) book;
                lots = book_lots opened sid y;
                set_lots = (\<lambda>ls. dict_modify sid [] (AList.update y ls) opened)
            in if 0 < q then (set_lots (lots @ [Lot q (p_amount p) seq]), None)
               else if dec_sum (map lot_qty lots) \<le> - q then (set_lots [], None)
               else (case select_lots_fifo lots (- q) of
                       Inl e \<Rightarrow> (opened, Some e)
                     | Inr res \<Rightarrow> (set_lots (fr_remaining res), None))
      | _ \<Rightarrow> (book, None))"

definition lot_event :: "lot_book \<Rightarrow> ledger_event \<Rightarrow> int \<Rightarrow> lot_outcome" where
  "lot_event book ev seq =
     (case event_type_of (ev_type ev) of
        Inl e \<Rightarrow> (book, Some e)
      | Inr t \<Rightarrow>
          if t = SPLIT_APPLIED then apply_split book (ev_data ev)
          else if t = SYMBOL_CHANGED then apply_rename book (ev_data ev) seq
          else if t = SLEEVE_CLOSED then apply_sleeve_close book (ev_data ev) seq
          else (case build_postings t (ev_data ev) of
                  Inl e \<Rightarrow> (book, Some e)
                | Inr ps \<Rightarrow> for_each (lot_posting seq) book ps))"

definition lot_step :: "lot_book \<Rightarrow> nat \<times> ledger_event \<Rightarrow> lot_book" where
  "lot_step book iev = fst (lot_event book (snd iev) (event_lot_seq (snd iev) (fst iev)))"

definition fold_lots :: "lot_book \<Rightarrow> ledger_event list \<Rightarrow> lot_book" where
  "fold_lots book evs = foldl lot_step book (enumerate 0 evs)"

definition fold_lots_into :: "lot_book \<Rightarrow> ledger_event list \<Rightarrow> lot_book \<times> int" where
  "fold_lots_into book evs = (fold_lots book evs, max_sequence evs)"

definition open_lots :: "ledger_event list \<Rightarrow> string \<Rightarrow> string \<Rightarrow> lot list" where
  "open_lots evs sid y = book_lots (fst (fold_lots_into [] evs)) sid y"

section \<open>Holding history\<close>

record holding_history_entry =
  hh_sleeve :: string
  hh_side :: string
  hh_qty :: decimal
  hh_price :: "decimal option"
  hh_realized :: "decimal option"
  hh_occurred_at :: "int option"

definition opt_decimal :: "payload \<Rightarrow> string \<Rightarrow> decimal option result" where
  "opt_decimal data k =
     (if has_key data k then bindR (decimal_str_field data k) (\<lambda>d. Inr (Some d)) else Inr None)"

definition history_posting :: "ledger_event \<Rightarrow> string \<Rightarrow> posting \<Rightarrow> holding_history_entry list result" where
  "history_posting ev y p =
     (case (p_bucket p, p_symbol p, p_qty p, p_sleeve p) of
        (POSITION, Some y', Some q, Some sid) \<Rightarrow>
          if y' \<noteq> y then Inr []
          else bindR (opt_decimal (ev_data ev) ''price'') (\<lambda>price.
               bindR (opt_decimal (ev_data ev) ''realized_pnl'') (\<lambda>realized.
                 Inr [\<lparr>hh_sleeve = sid, hh_side = (if 0 < q then ''buy'' else ''sell''), hh_qty = \<bar>q\<bar>,
                       hh_price = price, hh_realized = realized,
                       hh_occurred_at = ev_occurred_at ev\<rparr>]))
      | _ \<Rightarrow> Inr [])"

definition history_event :: "string \<Rightarrow> ledger_event \<Rightarrow> holding_history_entry list result" where
  "history_event y ev =
     bindR (event_type_of (ev_type ev)) (\<lambda>t.
     bindR (build_postings t (ev_data ev)) (\<lambda>ps.
     bindR (mapR (history_posting ev y) ps) (\<lambda>entries. Inr (concat entries))))"

definition holding_history :: "ledger_event list \<Rightarrow> string \<Rightarrow> holding_history_entry list result" where
  "holding_history evs y = bindR (mapR (history_event y) evs) (\<lambda>entries. Inr (concat entries))"

section \<open>Resuming\<close>

interpretation lots_fold: left_fold lot_step "\<lambda>book ievs. foldl lot_step book ievs"
  by unfold_locales simp_all

lemma lot_step_index:
  "ev_sequence ev \<noteq> None \<Longrightarrow> lot_step book (i, ev) = lot_step book (j, ev)"
  by (auto simp: lot_step_def event_lot_seq_def)

lemma foldl_lot_step_index:
  assumes "list_all (\<lambda>ev. ev_sequence ev \<noteq> None) evs"
  shows "foldl lot_step book (enumerate i evs) = foldl lot_step book (enumerate j evs)"
  using assms
proof (induction evs arbitrary: book i j)
  case (Cons ev evs)
  then have "lot_step book (i, ev) = lot_step book (j, ev)" by (intro lot_step_index) simp
  with Cons show ?case by simp
qed simp

lemma enumerate_append: "enumerate i (xs @ ys) = enumerate i xs @ enumerate (i + length xs) ys"
  by (induction xs arbitrary: i) simp_all

lemma fold_lots_resume:
  assumes "list_all (\<lambda>ev. ev_sequence ev \<noteq> None) ys"
  shows "fold_lots book (xs @ ys) = fold_lots (fold_lots book xs) ys"
  unfolding fold_lots_def enumerate_append lots_fold.resume
  using foldl_lot_step_index [OF assms] by simp

section \<open>Exceptions stay inside the fold\<close>

lemma for_each_error:
  "(\<And>s x s' e. f s x = (s', Some e) \<Longrightarrow> P e) \<Longrightarrow> for_each f s xs = (s', Some e) \<Longrightarrow> P e"
  by (induction xs arbitrary: s) (auto split: prod.splits option.splits)

lemma py_int_error: "py_int v = Inl e \<Longrightarrow> data_error e"
  by (cases v) (auto simp: int_of_text_def Let_def split: if_splits option.splits prod.splits)

lemma decimal_str_field_error: "decimal_str_field data k = Inl e \<Longrightarrow> data_error e"
  by (auto simp: decimal_str_field_def decimal_str_def result_simps
      dest: field_error decimal_of_text_error)

lemmas lot_reader_errors = reader_errors py_int_error decimal_str_field_error

lemma select_lots_fifo_error: "select_lots_fifo ls q = Inl e \<Longrightarrow> e = ValueError"
  by (auto simp: select_lots_fifo_def split: if_splits prod.splits)

lemma apply_split_error: "apply_split book data = (b, Some e) \<Longrightarrow> data_error e"
  by (auto simp: apply_split_def Let_def result_simps dest: lot_reader_errors
      split: sum.splits if_splits)

lemma renamed_lots_error: "renamed_lots data seq ls = Inl e \<Longrightarrow> data_error e"
  by (auto simp: renamed_lots_def result_simps dest: lot_reader_errors split: if_splits)

lemma apply_rename_error: "apply_rename book data seq = (b, Some e) \<Longrightarrow> data_error e"
  by (auto simp: apply_rename_def Let_def dest: lot_reader_errors renamed_lots_error
      split: sum.splits if_splits)

lemma close_lot_error: "close_lot target book v = (b, Some e) \<Longrightarrow> data_error e"
  by (auto simp: close_lot_def result_simps dest: lot_reader_errors split: sum.splits)

lemma close_position_error: "close_position target seq book v = (b, Some e) \<Longrightarrow> data_error e"
  by (auto simp: close_position_def result_simps dest: lot_reader_errors
      split: sum.splits option.splits if_splits)

lemma apply_sleeve_close_error: "apply_sleeve_close book data seq = (b, Some e) \<Longrightarrow> data_error e"
  by (auto simp: apply_sleeve_close_def close_into_def Let_def dest: lot_reader_errors
      elim!: for_each_error [rotated] close_lot_error close_position_error
      split: sum.splits if_splits json.splits)

lemma lot_posting_error: "lot_posting seq book p = (b, Some e) \<Longrightarrow> data_error e"
  by (auto simp: lot_posting_def Let_def dest: select_lots_fifo_error
      split: Bucket.splits option.splits if_splits sum.splits)

lemma lot_event_error: "lot_event book ev seq = (b, Some e) \<Longrightarrow> data_error e"
  by (auto simp: lot_event_def event_type_of_def dest: build_postings_error apply_split_error
      apply_rename_error apply_sleeve_close_error elim!: for_each_error [rotated] lot_posting_error
      split: sum.splits option.splits if_splits)

section \<open>Looking into the book\<close>

lemma book_lots_modify:
  "book_lots (dict_modify sid [] f book) s y =
     (if s = sid then dict_get (f (dict_get book sid [])) y [] else book_lots book s y)"
  by (simp add: book_lots_def dict_simps)

lemma book_lots_setdefault [simp]: "book_lots (dict_setdefault sid [] book) s y = book_lots book s y"
  by (simp add: book_lots_def dict_simps)

lemma book_lots_update:
  "book_lots (AList.update sid symbols book) s y =
     (if s = sid then dict_get symbols y [] else book_lots book s y)"
  by (simp add: book_lots_def dict_simps)

lemma dict_get_book: "dict_get (dict_get book sid []) y [] = book_lots book sid y"
  by (simp add: book_lots_def)

lemma dict_get_insert_lots:
  "dict_get (insert_lots y ls symbols) z [] =
     (if z = y then sort_key lot_seq (dict_get symbols y [] @ ls) else dict_get symbols z [])"
  by (simp add: insert_lots_def dict_simps)

text \<open>A rename carries the lots of the old symbol one to one, in acquisition order.\<close>

lemma apply_rename_carries:
  assumes "str_field data ''sleeve_id'' = Inr sid" "str_field data ''old_symbol'' = Inr old"
    "str_field data ''new_symbol'' = Inr new" "old \<noteq> new" "book_lots book sid old \<noteq> []"
  shows "snd (apply_rename book data seq) = None"
    and "book_lots (fst (apply_rename book data seq)) s y =
      (if s = sid \<and> y = new then sort_key lot_seq (book_lots book sid new @ book_lots book sid old)
       else if s = sid \<and> y = old then []
       else book_lots book s y)"
proof -
  let ?popped = "dict_modify sid [] (AList.delete old) (dict_setdefault sid [] book)"
  have "apply_rename book data seq =
      (dict_modify sid [] (insert_lots new (book_lots book sid old)) ?popped, None)"
    using assms by (simp add: apply_rename_def Let_def renamed_lots_def)
  moreover have "book_lots (dict_setdefault sid [] book) sid z = book_lots book sid z" for z by simp
  then have "dict_get (dict_get (dict_setdefault sid [] book) sid []) z [] = book_lots book sid z" for z
    by (simp add: book_lots_def)
  ultimately show "snd (apply_rename book data seq) = None"
    and "book_lots (fst (apply_rename book data seq)) s y =
      (if s = sid \<and> y = new then sort_key lot_seq (book_lots book sid new @ book_lots book sid old)
       else if s = sid \<and> y = old then []
       else book_lots book s y)"
    using assms(4) by (auto simp: book_lots_modify dict_get_insert_lots dict_simps)
qed

section \<open>Lots track positions\<close>

definition pos_qty :: "account_projection \<Rightarrow> string \<Rightarrow> string \<Rightarrow> rat" where
  "pos_qty acc sid y =
     val (ps_qty (dict_get (sl_positions (dict_get (acc_sleeves acc) sid empty_sleeve)) y empty_position))"

definition tracks :: "nat \<Rightarrow> rat \<Rightarrow> account_projection \<Rightarrow> lot_book \<Rightarrow> bool" where
  "tracks k v acc book \<longleftrightarrow>
     (\<forall>s y. lots_positive k (book_lots book s y) \<and> shares (book_lots book s y) = pos_qty acc s y \<and>
        pos_qty acc s y \<le> v)"

definition leg_of :: "posting \<Rightarrow> (string \<times> string \<times> decimal) option" where
  "leg_of p =
     (case (p_bucket p, p_sleeve p, p_symbol p, p_qty p) of
        (POSITION, Some sid, Some y, Some q) \<Rightarrow> Some (sid, y, q) | _ \<Rightarrow> None)"

definition leg_qtys :: "posting list \<Rightarrow> decimal list" where
  "leg_qtys ps = map (\<lambda>(s, y, q). q) (List.map_filter leg_of ps)"

lemma leg_qtys_simps [simp]:
  "leg_qtys [] = []"
  "leg_qtys (p # ps) = (case leg_of p of None \<Rightarrow> leg_qtys ps | Some (s, y, q) \<Rightarrow> q # leg_qtys ps)"
  by (auto simp: leg_qtys_def map_filter_simps split: option.splits)

lemma leg_of_Some:
  "leg_of p = Some (sid, y, q) \<longleftrightarrow>
     p_bucket p = POSITION \<and> p_sleeve p = Some sid \<and> p_symbol p = Some y \<and> p_qty p = Some q"
  by (auto simp: leg_of_def split: Bucket.splits option.splits)

lemma lot_posting_no_leg: "leg_of p = None \<Longrightarrow> lot_posting seq book p = (book, None)"
  by (auto simp: leg_of_def lot_posting_def split: Bucket.splits option.splits)

lemma pos_qty_no_leg:
  "leg_of p = None \<Longrightarrow> wf_posting p \<Longrightarrow> pos_qty (apply_posting acc p) s y = pos_qty acc s y"
  by (auto simp: leg_of_def wf_posting_def pos_qty_def apply_posting_def on_sleeve_def dict_simps
      post_sleeve_def split: Bucket.splits option.splits)

lemma pos_qty_leg:
  assumes "leg_of p = Some (sid, y, q)"
  shows "pos_qty (apply_posting acc p) s z =
    (if s = sid \<and> z = y
     then val (ps_qty (dict_get (sl_positions (dict_get (acc_sleeves acc) sid empty_sleeve)) y
                         empty_position) + q)
     else pos_qty acc s z)"
  using assms
  by (auto simp: leg_of_Some pos_qty_def apply_posting_def on_sleeve_def dict_simps post_sleeve_def
      post_position_def)

lemma shares_grid: "lots_positive k ls \<Longrightarrow> grid k (shares ls)"
  by (induction ls) (auto intro: grid_add)

lemma lot_sum_exact:
  assumes "lots_positive k ls" "room k (shares ls)"
  shows "val (dec_sum (map lot_qty ls)) = shares ls"
proof -
  have "on_grid k (map lot_qty ls)" using assms(1) by (simp add: on_grid_def list_all_iff)
  moreover have "weight (map lot_qty ls) = shares ls"
    using assms(1) by (induction ls) (auto simp: shares_def)
  moreover have "sum_list (map val (map lot_qty ls)) = shares ls" by (simp add: shares_def comp_def)
  ultimately show ?thesis using assms(2) val_dec_sum by metis
qed

text \<open>What one position leg does to the lots it meets, in terms of shares.\<close>

lemma lot_posting_leg:
  assumes leg: "leg_of p = Some (sid, y, q)" and ls: "lots_positive k (book_lots book sid y)"
    and r: "room k (shares (book_lots book sid y))" "room k \<bar>val q\<bar>"
    and g: "grid k (val q)" and covered: "0 \<le> shares (book_lots book sid y) + val q"
  obtains book' where "lot_posting seq book p = (book', None)"
    "\<forall>s z. s \<noteq> sid \<or> z \<noteq> y \<longrightarrow> book_lots book' s z = book_lots book s z"
    "lots_positive k (book_lots book' sid y)"
    "shares (book_lots book' sid y) = shares (book_lots book sid y) + val q"
proof -
  let ?ls = "book_lots book sid y"
  let ?opened = "dict_modify sid [] (dict_setdefault y []) book"
  have opened: "book_lots ?opened s z = book_lots book s z" for s z
    by (auto simp: book_lots_modify dict_simps dict_get_book)
  have set_lots: "book_lots (dict_modify sid [] (AList.update y ls) ?opened) s z =
      (if s = sid \<and> z = y then ls else book_lots book s z)" for ls s z
    using opened [of sid z] by (auto simp: book_lots_modify dict_simps dict_get_book opened)
  have neg: "val (- q) = - val q" using g r(2) by (rule val_uminus_grid)
  have sum: "val (dec_sum (map lot_qty ?ls)) = shares ?ls" using ls r(1) by (rule lot_sum_exact)
  note leg' = leg [unfolded leg_of_Some]
  consider "val q = 0" | "0 < val q" | "val q < 0" "shares ?ls = - val q"
    | "val q < 0" "- val q < shares ?ls" using covered by linarith
  then show thesis
  proof cases
    case 1
    then have "lot_posting seq book p = (book, None)"
      using leg' by (simp add: lot_posting_def is_zero_val)
    then show thesis by (rule that) (use ls 1 in auto)
  next
    case 2
    then have "lot_posting seq book p =
        (dict_modify sid [] (AList.update y (?ls @ [Lot q (p_amount p) seq])) ?opened, None)"
      using leg' by (simp add: lot_posting_def is_zero_val less_val opened Let_def)
    then show thesis
      by (rule that) (use ls 2 g in \<open>auto simp: set_lots Lot_def shares_def\<close>)
  next
    case 3
    then have "lot_posting seq book p = (dict_modify sid [] (AList.update y []) ?opened, None)"
      using leg' by (simp add: lot_posting_def is_zero_val less_val le_val opened Let_def neg sum)
    then show thesis by (rule that) (use 3 in \<open>auto simp: set_lots\<close>)
  next
    case 4
    have ok: "open_lots_ok k ?ls" using ls r by (simp add: open_lots_ok_def)
    have nr: "grid k (val (- q))" "room k (val (- q))"
      using g r(2) 4 by (simp_all add: neg grid_uminus)
    obtain res where res: "select_lots_fifo ?ls (- q) = Inr res"
      using select_lots_fifo_spec(1) [OF ok nr] 4 by (auto simp: neg result_simps)
    have "lot_posting seq book p =
        (dict_modify sid [] (AList.update y (fr_remaining res)) ?opened, None)"
      using leg' 4 res by (simp add: lot_posting_def is_zero_val less_val le_val opened Let_def neg sum)
    then show thesis
      by (rule that) (use select_lots_fifo_spec(2) [OF ok nr res] neg
          select_lots_fifo_positive [OF ok nr res] in \<open>auto simp: set_lots\<close>)
  qed
qed

lemma posting_tracks:
  assumes t: "tracks k v acc book" and leg: "leg_of p = Some (sid, y, q)"
    and g: "grid k (val q)" and r: "room k (v + \<bar>val q\<bar>)" and v: "0 \<le> v"
    and short: "0 \<le> pos_qty (apply_posting acc p) sid y"
  obtains book' where "lot_posting seq book p = (book', None)"
    "tracks k (v + \<bar>val q\<bar>) (apply_posting acc p) book'"
proof -
  have cell: "lots_positive k (book_lots book s z)" "shares (book_lots book s z) = pos_qty acc s z"
    "pos_qty acc s z \<le> v" for s z using t by (simp_all add: tracks_def)
  have nn: "0 \<le> shares (book_lots book sid y)" using cell(1) by (rule shares_nonneg)
  have rv: "room k (shares (book_lots book sid y))" using r by (rule room_mono) (use cell(2,3) [of sid y] in simp)
  have rq: "room k \<bar>val q\<bar>" using r by (rule room_mono) (use v in simp)
  have "pos_qty (apply_posting acc p) sid y = pos_qty acc sid y + val q"
    unfolding pos_qty_leg [OF leg]
    using exact_add_in_room [OF _ g _ r] cell [of sid y] nn shares_grid [OF cell(1) [of sid y]]
    by (simp add: pos_qty_def)
  moreover from this have "0 \<le> shares (book_lots book sid y) + val q" using short cell(2) by simp
  from lot_posting_leg [OF leg cell(1) rv rq g this, of seq] obtain book'
    where b: "lot_posting seq book p = (book', None)"
      "\<forall>s z. s \<noteq> sid \<or> z \<noteq> y \<longrightarrow> book_lots book' s z = book_lots book s z"
      "lots_positive k (book_lots book' sid y)"
      "shares (book_lots book' sid y) = shares (book_lots book sid y) + val q" .
  ultimately have "lots_positive k (book_lots book' s z) \<and>
      shares (book_lots book' s z) = pos_qty (apply_posting acc p) s z \<and>
      pos_qty (apply_posting acc p) s z \<le> v + \<bar>val q\<bar>" for s z
    using cell [of s z] b(2-4) by (cases "s = sid \<and> z = y") (auto simp: pos_qty_leg [OF leg])
  then show thesis using that [OF b(1)] by (simp add: tracks_def)
qed

lemma pos_qty_no_legs:
  "leg_qtys ps = [] \<Longrightarrow> list_all wf_posting ps \<Longrightarrow> pos_qty (apply_postings acc ps) s y = pos_qty acc s y"
  by (induction ps arbitrary: acc)
    (auto simp: posting_fold.run_Nil posting_fold.run_Cons pos_qty_no_leg split: option.splits)

lemma tracks_mono: "tracks k v acc book \<Longrightarrow> v \<le> w \<Longrightarrow> tracks k w acc book"
  unfolding tracks_def by (meson order_trans)

lemma tracks_cong: "tracks k v acc book \<Longrightarrow> (\<And>s y. pos_qty acc' s y = pos_qty acc s y) \<Longrightarrow> tracks k v acc' book"
  by (simp add: tracks_def)

lemma postings_track:
  assumes "tracks k v acc book" "length (leg_qtys ps) \<le> 1" "list_all wf_posting ps"
    "on_grid k (leg_qtys ps)" "room k (v + weight (leg_qtys ps))" "0 \<le> v"
    "\<And>s y. 0 \<le> pos_qty (apply_postings acc ps) s y"
  shows "snd (for_each (lot_posting seq) book ps) = None \<and>
    tracks k (v + weight (leg_qtys ps)) (apply_postings acc ps) (fst (for_each (lot_posting seq) book ps))"
  using assms
proof (induction ps arbitrary: acc book v)
  case Nil
  then show ?case by (simp add: posting_fold.run_Nil)
next
  case (Cons p ps)
  show ?case
  proof (cases "leg_of p")
    case None
    have "tracks k v (apply_posting acc p) book"
      using Cons.prems(1) by (rule tracks_cong) (use None Cons.prems(3) in \<open>simp add: pos_qty_no_leg\<close>)
    from Cons.IH [OF this] Cons.prems(2-7) None show ?thesis
      by (simp add: posting_fold.run_Cons lot_posting_no_leg)
  next
    case (Some leg)
    obtain sid y q where leg: "leg_of p = Some (sid, y, q)" using Some by (cases leg) auto
    have none: "leg_qtys ps = []" using Cons.prems(2) leg by simp
    have g: "grid k (val q)" "room k (v + \<bar>val q\<bar>)" using Cons.prems(4,5) leg none by simp_all
    have "0 \<le> pos_qty (apply_posting acc p) sid y"
      using Cons.prems(3) Cons.prems(7) [of sid y] none
      by (simp add: posting_fold.run_Cons pos_qty_no_legs)
    from posting_tracks [OF Cons.prems(1) leg g Cons.prems(6) this, of seq]
    obtain book' where b: "lot_posting seq book p = (book', None)"
      "tracks k (v + \<bar>val q\<bar>) (apply_posting acc p) book'" .
    have "snd (for_each (lot_posting seq) book' ps) = None \<and>
        tracks k (v + \<bar>val q\<bar> + weight (leg_qtys ps)) (apply_postings (apply_posting acc p) ps)
          (fst (for_each (lot_posting seq) book' ps))"
      using Cons.prems g none by (intro Cons.IH [OF b(2)]) (simp_all add: posting_fold.run_Cons)
    with b leg none show ?thesis by (simp add: posting_fold.run_Cons)
  qed
qed

text \<open>
  A plain event is one both folds accept and whose lots the generic posting loop handles; it
  carries at most one position leg.
\<close>

definition plain_event :: "ledger_event \<Rightarrow> bool" where
  "plain_event ev \<longleftrightarrow>
     (case event_postings ev of
        Inl e \<Rightarrow> False
      | Inr (t, ps) \<Rightarrow> t \<noteq> SPLIT_APPLIED \<and> t \<noteq> SYMBOL_CHANGED \<and> t \<noteq> SLEEVE_CLOSED)"

definition event_legs :: "ledger_event \<Rightarrow> decimal list" where
  "event_legs ev = (case event_postings ev of Inl e \<Rightarrow> [] | Inr tps \<Rightarrow> leg_qtys (snd tps))"

definition traded :: "ledger_event list \<Rightarrow> decimal list" where
  "traded evs = concat (map event_legs evs)"

definition no_short :: "account_projection \<Rightarrow> bool" where
  "no_short acc \<longleftrightarrow>
     list_all (\<lambda>s. list_all (\<lambda>p. 0 \<le> ps_qty p) (vals (sl_positions s))) (vals (acc_sleeves acc))"

fun never_short :: "fold_state \<Rightarrow> ledger_event list \<Rightarrow> bool" where
  "never_short st [] = True"
| "never_short st (ev # evs) = (no_short (fst (fold_step st ev)) \<and> never_short (fold_step st ev) evs)"

lemma no_short_pos_qty: "no_short acc \<Longrightarrow> 0 \<le> pos_qty acc s y"
proof -
  assume "no_short acc"
  then have "list_all (\<lambda>p. 0 \<le> ps_qty p) (vals (sl_positions (dict_get (acc_sleeves acc) s empty_sleeve)))"
    unfolding no_short_def by (rule all_vals_get) simp
  then have "0 \<le> ps_qty (dict_get (sl_positions (dict_get (acc_sleeves acc) s empty_sleeve)) y empty_position)"
    by (rule all_vals_get) (simp add: le_val)
  then show ?thesis by (simp add: pos_qty_def le_val)
qed

lemma leg_of_legs [simp]:
  "leg_of (Posting s' b a) = None" "leg_of (PositionLeg s a y q) = Some (s, y, q)"
  by (simp_all add: leg_of_def leg_defs split: Bucket.splits option.splits)

lemma plain_single_leg:
  assumes "build_postings t data = Inr ps" "t \<noteq> SYMBOL_CHANGED" "t \<noteq> SLEEVE_CLOSED"
  shows "length (leg_qtys ps) \<le> 1"
  using assms
  by (cases t)
    (auto simp: result_simps transfer_postings_def income_postings_def order_filled_postings_def Let_def
      split: if_splits)

lemma pos_qty_on_sleeve_reserved:
  "pos_qty (on_sleeve sid (\<lambda>x. x\<lparr>sl_reserved := f x\<rparr>) acc) s y = pos_qty acc s y"
  by (auto simp: pos_qty_def on_sleeve_def dict_simps)

lemma pos_qty_reservation:
  "apply_reservation st t data = Inr st' \<Longrightarrow> pos_qty (fst st') s y = pos_qty (fst st) s y"
  by (elim apply_reservation_cases)
    (auto simp: reserve_order_def release_order_def Let_def pos_qty_on_sleeve_reserved
      split: option.splits prod.splits)

lemma apply_reservation_fails:
  "apply_reservation st t data = Inl e \<Longrightarrow> t = ORDER_SUBMITTED"
  by (auto simp: apply_reservation_def Let_def split: json.splits if_splits)

lemma event_tracks:
  assumes t: "tracks k v (fst st) book" and plain: "plain_event ev" and g: "on_grid k (event_legs ev)"
    and r: "room k (v + weight (event_legs ev))" and v: "0 \<le> v"
    and short: "no_short (fst (fold_step st ev))"
  shows "tracks k (v + weight (event_legs ev)) (fst (fold_step st ev)) (lot_step book (i, ev))"
proof -
  obtain ty ps where e: "event_postings ev = Inr (ty, ps)"
    and ty: "ty \<noteq> SPLIT_APPLIED" "ty \<noteq> SYMBOL_CHANGED" "ty \<noteq> SLEEVE_CLOSED"
    using plain by (auto simp: plain_event_def split: sum.splits)
  have b: "event_type_of (ev_type ev) = Inr ty" "build_postings ty (ev_data ev) = Inr ps"
    using e by (auto simp: event_postings_def result_simps)
  let ?seq = "event_lot_seq ev i"
  have legs: "event_legs ev = leg_qtys ps" by (simp add: event_legs_def e)
  have lot: "lot_step book (i, ev) = fst (for_each (lot_posting ?seq) book ps)"
    using ty b by (simp add: lot_step_def lot_event_def)
  show ?thesis
  proof (cases "apply_reservation st ty (ev_data ev)")
    case (Inl err)
    then have "ps = []" using apply_reservation_fails b(2) by fastforce
    moreover have "fst (fold_step st ev) = (fst st)\<lparr>acc_poison := acc_poison (fst st) + 1\<rparr>"
      using Inl by (simp add: fold_step_def apply_event_def e)
    ultimately show ?thesis using t by (simp add: lot legs tracks_def pos_qty_def)
  next
    case (Inr st')
    then have f: "fst (fold_step st ev) = apply_postings (fst st') ps"
      by (simp add: fold_step_def apply_event_def e)
    have "tracks k v (fst st') book"
      using t by (rule tracks_cong) (rule pos_qty_reservation [OF Inr])
    from postings_track [OF this plain_single_leg [OF b(2) ty(2,3)] build_postings_wf [OF b(2)], of ?seq]
    show ?thesis
      using g r v no_short_pos_qty [OF short] by (simp add: legs lot f)
  qed
qed

lemma fold_tracks:
  assumes "tracks k v (fst st) book" "list_all plain_event evs" "on_grid k (traded evs)"
    "room k (v + weight (traded evs))" "0 \<le> v" "never_short st evs"
  shows "tracks k (v + weight (traded evs)) (fst (fold_state_into st evs))
    (foldl lot_step book (enumerate i evs))"
  using assms
proof (induction evs arbitrary: st book v i)
  case Nil
  then show ?case by (simp add: balance_fold.run_Nil traded_def)
next
  case (Cons ev evs)
  have tr: "traded (ev # evs) = event_legs ev @ traded evs" by (simp add: traded_def)
  have r: "room k (v + weight (event_legs ev))"
    using Cons.prems(4) by (rule room_mono) (simp add: tr)
  have "tracks k (v + weight (event_legs ev)) (fst (fold_step st ev)) (lot_step book (i, ev))"
    using Cons.prems r by (intro event_tracks) (simp_all add: tr)
  from Cons.IH [OF this] Cons.prems show ?case
    by (simp add: tr balance_fold.run_Cons add.assoc)
qed

lemma tracks_empty: "tracks k 0 empty_account []"
  by (simp add: tracks_def book_lots_def pos_qty_def)

end
