(* ===== verification/Invariants.thy ===== *)
theory Invariants
  imports Projection
begin

text \<open>
  Write-time sleeve invariants (\<^verbatim>\<open>ledger/invariants.py\<close>). A synchronous writing path
  reprojects and calls \<open>assert_write_invariants\<close>; it is accepted exactly when every named sleeve
  has non-negative cash, no short position and no reservation above its cash, and the account's
  total cash is not negative (\<open>assert_write_invariants_iff\<close>).
\<close>

record invariant_violation =
  iv_kind :: string
  iv_detail :: string

definition violation :: "string \<Rightarrow> string \<Rightarrow> invariant_violation" where
  "violation k d = \<lparr>iv_kind = k, iv_detail = d\<rparr>"

definition check_sleeve_invariants :: "sleeve_projection \<Rightarrow> invariant_violation list" where
  "check_sleeve_invariants s =
     (if sl_cash s < 0 then [violation ''negative_cash'' (''cash='' @ dec_str (sl_cash s))] else []) @
     (if 0 < sl_reserved s \<and> sl_cash s < sl_reserved s
      then [violation ''reserved_exceeds_cash''
              (''reserved='' @ dec_str (sl_reserved s) @ '' cash='' @ dec_str (sl_cash s))]
      else []) @
     map (\<lambda>(y, pos). violation ''negative_position'' (y @ '' qty='' @ dec_str (ps_qty pos)))
       (filter (\<lambda>(y, pos). ps_qty pos < 0) (sl_positions s))"

definition check_account_invariants :: "account_projection \<Rightarrow> invariant_violation list" where
  "check_account_invariants acc =
     (let total = total_cash acc
      in if total < 0 then [violation ''negative_account_cash'' (''total_cash='' @ dec_str total)]
         else [])"

text \<open>\<^verbatim>\<open>projection.sleeve(id)\<close> adds a missing sleeve to the projection it is asked on.\<close>

definition touch_sleeve :: "account_projection \<Rightarrow> string \<Rightarrow> account_projection" where
  "touch_sleeve acc sid = acc\<lparr>acc_sleeves := dict_setdefault sid empty_sleeve (acc_sleeves acc)\<rparr>"

definition get_sleeve :: "account_projection \<Rightarrow> string \<Rightarrow> sleeve_projection" where
  "get_sleeve acc sid = dict_get (acc_sleeves acc) sid empty_sleeve"

definition assert_write_invariants :: "account_projection \<Rightarrow> string list \<Rightarrow> account_projection result" where
  "assert_write_invariants acc sids =
     (let touched = foldl touch_sleeve acc sids;
          violations = concat (map (\<lambda>sid. check_sleeve_invariants (get_sleeve touched sid)) sids)
                       @ check_account_invariants touched
      in if violations \<noteq> [] then Inl LedgerInvariantError else Inr touched)"

section \<open>What the checks accept\<close>

definition healthy_sleeve :: "sleeve_projection \<Rightarrow> bool" where
  "healthy_sleeve s \<longleftrightarrow>
     0 \<le> val (sl_cash s) \<and> (val (sl_reserved s) \<le> 0 \<or> val (sl_reserved s) \<le> val (sl_cash s)) \<and>
     list_all (\<lambda>p. 0 \<le> val (ps_qty p)) (vals (sl_positions s))"

lemma check_sleeve_invariants_iff: "check_sleeve_invariants s = [] \<longleftrightarrow> healthy_sleeve s"
  by (auto simp: check_sleeve_invariants_def healthy_sleeve_def less_val not_less list_all_iff
      filter_empty_conv)

lemma get_sleeve_touch [simp]: "get_sleeve (touch_sleeve acc sid) s = get_sleeve acc s"
  by (simp add: get_sleeve_def touch_sleeve_def dict_simps)

lemma get_sleeve_touches [simp]: "get_sleeve (foldl touch_sleeve acc sids) s = get_sleeve acc s"
  by (induction sids arbitrary: acc) simp_all

lemma dec_sum_snoc: "dec_sum (ds @ [d]) = dec_sum ds + d"
  by (simp add: dec_sum_def)

lemma sgn_dec_sum_snoc_0: "sgn (val (dec_sum (ds @ [0]))) = sgn (val (dec_sum ds))"
  unfolding dec_sum_snoc sgn_add by simp

lemma total_cash_touch: "total_cash (touch_sleeve acc sid) < 0 \<longleftrightarrow> total_cash acc < 0"
proof -
  have "sgn (val (total_cash (touch_sleeve acc sid))) = sgn (val (total_cash acc))"
    by (auto simp: total_cash_def touch_sleeve_def dict_setdefault_def empty_sleeve_def
        sgn_dec_sum_snoc_0 split: option.splits)
  from sgn_cong_0 [OF this] show ?thesis by (simp add: less_val)
qed

lemma total_cash_touches: "total_cash (foldl touch_sleeve acc sids) < 0 \<longleftrightarrow> total_cash acc < 0"
  by (induction sids arbitrary: acc) (simp_all add: total_cash_touch)

lemma assert_write_invariants_iff:
  "is_ok (assert_write_invariants acc sids) \<longleftrightarrow>
     list_all (\<lambda>sid. healthy_sleeve (get_sleeve acc sid)) sids \<and> 0 \<le> val (total_cash acc)"
proof -
  have "is_ok (assert_write_invariants acc sids) \<longleftrightarrow>
      concat (map (\<lambda>sid. check_sleeve_invariants (get_sleeve acc sid)) sids) = [] \<and>
      check_account_invariants (foldl touch_sleeve acc sids) = []"
    by (simp add: assert_write_invariants_def Let_def)
  also have "\<dots> \<longleftrightarrow> list_all (\<lambda>sid. healthy_sleeve (get_sleeve acc sid)) sids \<and> \<not> total_cash acc < 0"
    by (auto simp: check_sleeve_invariants_iff list_all_iff check_account_invariants_def
        Let_def total_cash_touches)
  finally show ?thesis by (simp add: less_val not_less)
qed

lemma assert_write_invariants_keeps:
  "assert_write_invariants acc sids = Inr acc' \<Longrightarrow> get_sleeve acc' s = get_sleeve acc s"
  by (auto simp: assert_write_invariants_def Let_def split: if_splits)

section \<open>Sleeves under postings\<close>

lemma get_sleeve_on_sleeve:
  "get_sleeve (on_sleeve sid f acc) s = (if s = sid then f (get_sleeve acc sid) else get_sleeve acc s)"
  by (simp add: get_sleeve_def on_sleeve_def dict_simps)

lemma get_sleeve_apply_posting:
  "get_sleeve (apply_posting acc p) s =
     (if p_sleeve p = Some s then post_sleeve p (get_sleeve acc s) else get_sleeve acc s)"
  by (auto simp: apply_posting_def get_sleeve_on_sleeve split: option.splits)

lemma get_sleeve_apply_postings_Cons:
  "get_sleeve (apply_postings acc (p # ps)) s = get_sleeve (apply_postings (apply_posting acc p) ps) s"
  "get_sleeve (apply_postings acc []) s = get_sleeve acc s"
  by (simp_all add: posting_fold.run_Cons posting_fold.run_Nil)

lemma post_sleeve_cash [simp]: "post_sleeve (Posting s CASH a) x = x\<lparr>sl_cash := sl_cash x + a\<rparr>"
  by (simp add: post_sleeve_def Posting_def)

lemma p_sleeve_Posting [simp]:
  "p_sleeve (Posting s b a) = s" "p_sleeve (PositionLeg sid a y q) = Some sid"
  by (simp_all add: leg_defs)

lemmas sleeve_effect = get_sleeve_apply_postings_Cons get_sleeve_apply_posting

end
