(* ===== verification/Checkpoint.thy ===== *)
theory Checkpoint
  imports Lot_Book Invariants
begin

text \<open>
  Persisted projection checkpoints (\<^verbatim>\<open>ledger/checkpoint_store.py\<close>): the serialised fold
  state and lot book, the strict readers, the forward-only upsert and the load that degrades to a
  full fold. The table is a dictionary keyed by tenant and account; \<open>jsonb\<close> is what the JSONB
  column gives back for a stored document, which may order the keys of an object anew
  (\<open>jsonb_laws\<close>).

  \<^item> A saved checkpoint loads back as a state that is equal as dictionaries (\<open>save_load\<close>); the
    terminal-order window comes back as a set only, its age order is lost.
  \<^item> A reader only raises \<^verbatim>\<open>CheckpointStateError\<close>, so a load never raises
    (\<open>load_total\<close>), and a save never moves a checkpoint back (\<open>save_forward\<close>).
\<close>

section \<open>Strict readers\<close>

definition state_version :: int where
  "state_version = 2"

fun chk_mapping :: "json \<Rightarrow> payload result" where
  "chk_mapping (JObj kvs) = Inr kvs"
| "chk_mapping v = Inl CheckpointStateError"

fun chk_string :: "json \<Rightarrow> string result" where
  "chk_string (JStr s) = Inr s"
| "chk_string v = Inl CheckpointStateError"

fun chk_integer :: "json \<Rightarrow> int result" where
  "chk_integer (JInt n) = Inr n"
| "chk_integer v = Inl CheckpointStateError"

fun chk_decimal :: "json \<Rightarrow> decimal result" where
  "chk_decimal (JStr s) = (case decimal_of_text s of Inl e \<Rightarrow> Inl CheckpointStateError | Inr d \<Rightarrow> Inr d)"
| "chk_decimal v = Inl CheckpointStateError"

fun chk_list :: "json \<Rightarrow> json list result" where
  "chk_list (JList vs) = Inr vs"
| "chk_list v = Inl CheckpointStateError"

text \<open>The loop over the items of an object that builds a dictionary of decoded values.\<close>

definition decode_items :: "(json \<Rightarrow> 'a result) \<Rightarrow> json \<Rightarrow> (string, 'a) dict result" where
  "decode_items dec v =
     bindR (chk_mapping v) (\<lambda>kvs. mapR (\<lambda>(k, w). bindR (dec w) (\<lambda>x. Inr (k, x))) kvs)"

definition encode_items :: "('a \<Rightarrow> json) \<Rightarrow> (string, 'a) dict \<Rightarrow> json" where
  "encode_items enc d = JObj (map (\<lambda>(k, x). (k, enc x)) (sort_key fst d))"

section \<open>Fold state\<close>

definition encode_position :: "position_state \<Rightarrow> json" where
  "encode_position pos =
     JObj [(''qty'', JStr (dec_str (ps_qty pos))), (''cost_basis'', JStr (dec_str (ps_cost pos)))]"

definition encode_sleeve :: "sleeve_projection \<Rightarrow> json" where
  "encode_sleeve s =
     JObj [(''cash'', JStr (dec_str (sl_cash s))), (''realized_pnl'', JStr (dec_str (sl_realized s))),
           (''reserved'', JStr (dec_str (sl_reserved s))),
           (''positions'', encode_items encode_position (sl_positions s))]"

definition encode_pending :: "string \<times> decimal \<Rightarrow> json" where
  "encode_pending sa = JObj [(''sleeve_id'', JStr (fst sa)), (''amount'', JStr (dec_str (snd sa)))]"

definition encode_state :: "account_projection \<Rightarrow> reservation_state \<Rightarrow> payload" where
  "encode_state acc res =
     [(''v'', JInt state_version),
      (''projection'', JObj [(''poison_events'', JInt (acc_poison acc)),
                             (''sleeves'', encode_items encode_sleeve (acc_sleeves acc))]),
      (''reservations'', JObj [(''pending'', encode_items encode_pending (rs_pending res)),
                               (''terminal'', JList (map JStr (sort (rs_terminal res))))])]"

definition decode_position :: "json \<Rightarrow> position_state result" where
  "decode_position v =
     bindR (chk_mapping v) (\<lambda>raw.
     bindR (chk_decimal (get_opt raw ''qty'')) (\<lambda>qty.
     bindR (chk_decimal (get_opt raw ''cost_basis'')) (\<lambda>cost.
       Inr \<lparr>ps_qty = qty, ps_cost = cost\<rparr>)))"

definition decode_sleeve :: "json \<Rightarrow> sleeve_projection result" where
  "decode_sleeve v =
     bindR (chk_mapping v) (\<lambda>raw.
     bindR (decode_items decode_position (get_opt raw ''positions'')) (\<lambda>positions.
     bindR (chk_decimal (get_opt raw ''cash'')) (\<lambda>cash.
     bindR (chk_decimal (get_opt raw ''realized_pnl'')) (\<lambda>realized.
     bindR (chk_decimal (get_opt raw ''reserved'')) (\<lambda>reserved.
       Inr \<lparr>sl_cash = cash, sl_realized = realized, sl_reserved = reserved,
            sl_positions = positions\<rparr>)))))"

definition decode_pending :: "json \<Rightarrow> (string \<times> decimal) result" where
  "decode_pending v =
     bindR (chk_mapping v) (\<lambda>entry.
     bindR (chk_string (get_opt entry ''sleeve_id'')) (\<lambda>sid.
     bindR (chk_decimal (get_opt entry ''amount'')) (\<lambda>amount. Inr (sid, amount))))"

text \<open>\<^verbatim>\<open>dict.fromkeys\<close>: first occurrences, in order.\<close>

definition from_keys :: "string list \<Rightarrow> string list" where
  "from_keys xs = foldl (\<lambda>ks x. if x \<in> set ks then ks else ks @ [x]) [] xs"

definition decode_state :: "json \<Rightarrow> fold_state result" where
  "decode_state raw =
     bindR (chk_mapping raw) (\<lambda>root.
     bindR (chk_integer (get_opt root ''v'')) (\<lambda>v.
     if v \<noteq> state_version then Inl CheckpointStateError
     else
       bindR (chk_mapping (get_opt root ''projection'')) (\<lambda>proj_raw.
       bindR (decode_items decode_sleeve (get_opt proj_raw ''sleeves'')) (\<lambda>sleeves.
       bindR (chk_integer (get_opt proj_raw ''poison_events'')) (\<lambda>poison.
       bindR (chk_mapping (get_opt root ''reservations'')) (\<lambda>res_raw.
       bindR (decode_items decode_pending (get_opt res_raw ''pending'')) (\<lambda>pending.
       bindR (chk_list (get_opt res_raw ''terminal'')) (\<lambda>terminal_raw.
       bindR (mapR chk_string terminal_raw) (\<lambda>terminal.
         Inr (\<lparr>acc_sleeves = sleeves, acc_poison = poison\<rparr>,
              \<lparr>rs_pending = pending, rs_terminal = from_keys terminal\<rparr>))))))))))"

section \<open>Lot book\<close>

definition encode_lot :: "lot \<Rightarrow> json" where
  "encode_lot l =
     JObj [(''qty'', JStr (dec_str (lot_qty l))), (''cost_basis'', JStr (dec_str (lot_cost l))),
           (''opened_seq'', JInt (lot_seq l))]"

definition encode_lots :: "lot_book \<Rightarrow> json" where
  "encode_lots book = encode_items (encode_items (\<lambda>ls. JList (map encode_lot ls))) book"

definition decode_lot :: "json \<Rightarrow> lot result" where
  "decode_lot v =
     bindR (chk_mapping v) (\<lambda>entry.
     bindR (chk_decimal (get_opt entry ''qty'')) (\<lambda>qty.
     bindR (chk_decimal (get_opt entry ''cost_basis'')) (\<lambda>cost.
     bindR (chk_integer (get_opt entry ''opened_seq'')) (\<lambda>n. Inr (Lot qty cost n)))))"

definition decode_lot_list :: "json \<Rightarrow> lot list result" where
  "decode_lot_list v = bindR (chk_list v) (mapR decode_lot)"

definition decode_lots :: "json \<Rightarrow> lot_book result" where
  "decode_lots raw =
     (if raw = JNull then Inr [] else decode_items (decode_items decode_lot_list) raw)"

section \<open>The table\<close>

record checkpoint_row =
  ck_sequence :: int
  ck_state :: json

type_synonym checkpoint_table = "(string \<times> string, checkpoint_row) dict"

type_synonym loaded_checkpoint = "int \<times> fold_state \<times> lot_book"

definition load_row :: "checkpoint_row \<Rightarrow> loaded_checkpoint result" where
  "load_row row =
     bindR (decode_state (ck_state row)) (\<lambda>st.
     bindR (chk_mapping (ck_state row)) (\<lambda>root.
     bindR (decode_lots (get_opt root ''lots'')) (\<lambda>lots.
       Inr (ck_sequence row, st, lots))))"

definition load_checkpoint ::
  "checkpoint_table \<Rightarrow> string \<Rightarrow> string \<Rightarrow> loaded_checkpoint option result" where
  "load_checkpoint table tenant account =
     (case map_of table (tenant, account) of
        None \<Rightarrow> Inr None
      | Some row \<Rightarrow>
          (case load_row row of
             Inl e \<Rightarrow> if data_error e then Inr None else Inl e
           | Inr loaded \<Rightarrow> Inr (Some loaded)))"

definition checkpoint_document :: "fold_state \<Rightarrow> lot_book \<Rightarrow> json" where
  "checkpoint_document st lots =
     JObj (AList.update ''lots'' (encode_lots lots) (encode_state (fst st) (snd st)))"

definition save_checkpoint ::
  "(json \<Rightarrow> json) \<Rightarrow> checkpoint_table \<Rightarrow> string \<Rightarrow> string \<Rightarrow> int \<Rightarrow> fold_state \<Rightarrow> lot_book \<Rightarrow>
   checkpoint_table" where
  "save_checkpoint jsonb table tenant account as_of st lots =
     (let row = \<lparr>ck_sequence = as_of, ck_state = jsonb (checkpoint_document st lots)\<rparr>
      in case map_of table (tenant, account) of
           None \<Rightarrow> AList.update (tenant, account) row table
         | Some stored \<Rightarrow>
             if ck_sequence stored \<le> as_of then AList.update (tenant, account) row table else table)"

section \<open>What the column promises\<close>

definition jsonb_laws :: "(json \<Rightarrow> json) \<Rightarrow> bool" where
  "jsonb_laws jsonb \<longleftrightarrow>
     jsonb JNull = JNull \<and> (\<forall>s. jsonb (JStr s) = JStr s) \<and> (\<forall>n. jsonb (JInt n) = JInt n) \<and>
     (\<forall>vs. jsonb (JList vs) = JList (map jsonb vs)) \<and>
     (\<forall>kvs. wf_dict kvs \<longrightarrow>
        (\<exists>kvs'. jsonb (JObj kvs) = JObj kvs' \<and> wf_dict kvs' \<and>
           (\<forall>k. map_of kvs' k = map_option jsonb (map_of kvs k))))"

lemma jsonb_laws_id: "jsonb_laws (\<lambda>v. v)"
  by (simp add: jsonb_laws_def option.map_ident)

lemma jsonb_scalar:
  "jsonb_laws jsonb \<Longrightarrow> jsonb (JStr s) = JStr s"
  "jsonb_laws jsonb \<Longrightarrow> jsonb (JInt n) = JInt n"
  "jsonb_laws jsonb \<Longrightarrow> jsonb JNull = JNull"
  "jsonb_laws jsonb \<Longrightarrow> jsonb (JList vs) = JList (map jsonb vs)"
  by (simp_all add: jsonb_laws_def)

lemma jsonb_object:
  assumes "jsonb_laws jsonb" "wf_dict kvs"
  shows "\<exists>kvs'. jsonb (JObj kvs) = JObj kvs' \<and> wf_dict kvs' \<and>
    (\<forall>k. map_of kvs' k = map_option jsonb (map_of kvs k)) \<and> (\<forall>k. get_opt kvs' k = jsonb (get_opt kvs k))"
proof -
  obtain kvs' where k: "jsonb (JObj kvs) = JObj kvs'" "wf_dict kvs'"
      "\<forall>k. map_of kvs' k = map_option jsonb (map_of kvs k)"
    using assms unfolding jsonb_laws_def by blast
  moreover have "get_opt kvs' k = jsonb (get_opt kvs k)" for k
    using k(3) assms(1) by (simp add: get_opt_def dict_get_def jsonb_scalar split: option.splits)
  ultimately show ?thesis by blast
qed

lemma jsonb_fields:
  assumes "jsonb_laws jsonb" "wf_dict kvs"
  shows "\<exists>kvs'. jsonb (JObj kvs) = JObj kvs' \<and> (\<forall>k. get_opt kvs' k = jsonb (get_opt kvs k))"
  using jsonb_object [OF assms] by blast

section \<open>Dictionaries related entry by entry\<close>

definition dict_rel :: "('a \<Rightarrow> 'b \<Rightarrow> bool) \<Rightarrow> ('k, 'a) dict \<Rightarrow> ('k, 'b) dict \<Rightarrow> bool" where
  "dict_rel R d e \<longleftrightarrow> (\<forall>k. rel_option R (map_of d k) (map_of e k))"

lemma dict_rel_get: "dict_rel R d e \<Longrightarrow> R x y \<Longrightarrow> R (dict_get d k x) (dict_get e k y)"
  unfolding dict_rel_def dict_get_def by (drule spec [of _ k]) (auto elim!: option.rel_cases)

lemma dict_rel_update: "dict_rel R d e \<Longrightarrow> R x y \<Longrightarrow> dict_rel R (AList.update k x d) (AList.update k y e)"
  by (auto simp: dict_rel_def dict_simps)

lemma dict_rel_modify:
  assumes "dict_rel R d e" "R x y" "\<And>a b. R a b \<Longrightarrow> R (f a) (g b)"
  shows "dict_rel R (dict_modify k x f d) (dict_modify k y g e)"
  unfolding dict_modify_def by (rule dict_rel_update [OF assms(1)], rule assms(3), rule dict_rel_get [OF assms(1,2)])

lemma dict_rel_delete: "dict_rel R d e \<Longrightarrow> dict_rel R (AList.delete k d) (AList.delete k e)"
  by (auto simp: dict_rel_def AList.delete_conv')

lemma dict_rel_refl: "(\<And>x. R x x) \<Longrightarrow> dict_rel R d d"
  by (simp add: dict_rel_def option.rel_refl)

lemma dict_rel_eq: "dict_rel (=) d e \<longleftrightarrow> map_of d = map_of e"
  by (auto simp: dict_rel_def option.rel_eq)

lemma dict_rel_mono: "dict_rel R d e \<Longrightarrow> (\<And>x y. R x y \<Longrightarrow> S x y) \<Longrightarrow> dict_rel S d e"
  unfolding dict_rel_def by (blast intro: option.rel_mono_strong)

lemma dict_rel_vals:
  assumes "dict_rel R d e" "wf_dict e" "y \<in> set (vals e)"
  shows "\<exists>x. R x y"
proof -
  obtain k where "map_of e k = Some y" using assms(2,3) by force
  moreover have "rel_option R (map_of d k) (map_of e k)" using assms(1) by (simp add: dict_rel_def)
  ultimately show ?thesis by (auto elim: option.rel_cases)
qed

lemma dict_rel_trans:
  assumes "dict_rel R d e" "dict_rel R e f" "\<And>x y z. R x y \<Longrightarrow> R y z \<Longrightarrow> R x z"
  shows "dict_rel R d f"
  unfolding dict_rel_def
proof
  fix k
  have "rel_option R (map_of d k) (map_of e k)" "rel_option R (map_of e k) (map_of f k)"
    using assms(1,2) by (simp_all add: dict_rel_def)
  then show "rel_option R (map_of d k) (map_of f k)"
    by (auto elim!: option.rel_cases intro: assms(3))
qed

lemma mapR_items:
  assumes "list_all (\<lambda>(k, w). \<exists>x. dec w = Inr x) kvs"
  shows "\<exists>d. mapR (\<lambda>(k, w). bindR (dec w) (\<lambda>x. Inr (k, x))) kvs = Inr d \<and> keys d = keys kvs \<and>
    (\<forall>k. rel_option (\<lambda>w x. dec w = Inr x) (map_of kvs k) (map_of d k))"
  using assms
proof (induction kvs)
  case (Cons kw kvs)
  obtain k w where kw: "kw = (k, w)" by (cases kw)
  obtain x where x: "dec w = Inr x" using Cons.prems kw by auto
  obtain d where d: "mapR (\<lambda>(k, w). bindR (dec w) (\<lambda>x. Inr (k, x))) kvs = Inr d" "keys d = keys kvs"
      "\<forall>k. rel_option (\<lambda>w x. dec w = Inr x) (map_of kvs k) (map_of d k)"
    using Cons by auto
  show ?case by (rule exI [of _ "(k, x) # d"]) (use d x in \<open>simp add: kw\<close>)
qed simp

lemma map_of_sort_fst:
  fixes d :: "('k::linorder, 'v) dict"
  assumes "wf_dict d"
  shows "map_of (sort_key fst d) = map_of d"
proof -
  have "wf_dict (sort_key fst d)" using assms by (simp add: distinct_map)
  with assms show ?thesis by (simp add: map_of_inject_set)
qed

text \<open>
  The central lemma: a dictionary written item by item and read back through the column gives
  entrywise related values, whatever the order of the keys.
\<close>

lemma items_round_trip:
  assumes laws: "jsonb_laws jsonb" and wf: "wf_dict d"
    and val: "\<And>x. x \<in> set (vals d) \<Longrightarrow> \<exists>y. dec (jsonb (enc x)) = Inr y \<and> R x y"
  shows "\<exists>d'. decode_items dec (jsonb (encode_items enc d)) = Inr d' \<and> wf_dict d' \<and> dict_rel R d d'"
proof -
  let ?kvs = "map (\<lambda>(k, x). (k, enc x)) (sort_key fst d)"
  have "keys ?kvs = keys (sort_key fst d)" by (simp add: case_prod_unfold comp_def)
  then have wfk: "wf_dict ?kvs" using wf by (simp only:) (simp add: distinct_map)
  have mo: "map_of ?kvs k = map_option enc (map_of d k)" for k
    using map_of_map [of enc "sort_key fst d"] map_of_sort_fst [OF wf] by (simp add: fun_eq_iff)
  obtain kvs' where k: "jsonb (JObj ?kvs) = JObj kvs'" "wf_dict kvs'"
      "\<forall>k. map_of kvs' k = map_option jsonb (map_of ?kvs k)"
    using jsonb_object [OF laws wfk] by blast
  have ent: "\<exists>x y. map_of d j = Some x \<and> w = jsonb (enc x) \<and> dec w = Inr y \<and> R x y"
    if "map_of kvs' j = Some w" for j w
    using that k(3) [rule_format, of j] mo [of j] val map_of_SomeD [of d j] by force
  have "list_all (\<lambda>(k, w). \<exists>x. dec w = Inr x) kvs'"
    using ent k(2) by (fastforce simp: list_all_iff)
  from mapR_items [OF this] obtain d' where
    d': "mapR (\<lambda>(k, w). bindR (dec w) (\<lambda>x. Inr (k, x))) kvs' = Inr d'" "keys d' = keys kvs'"
      "\<And>k. rel_option (\<lambda>w x. dec w = Inr x) (map_of kvs' k) (map_of d' k)" by blast
  have "rel_option R (map_of d j) (map_of d' j)" for j
    using d'(3) [of j] k(3) [rule_format, of j] mo [of j] ent [of j]
    by (cases "map_of kvs' j"; cases "map_of d j"; cases "map_of d' j") auto
  then show ?thesis
    using d' k by (simp add: decode_items_def encode_items_def dict_rel_def)
qed

section \<open>Saved states load back\<close>

definition sleeve_sim :: "sleeve_projection \<Rightarrow> sleeve_projection \<Rightarrow> bool" where
  "sleeve_sim s t \<longleftrightarrow>
     sl_cash s = sl_cash t \<and> sl_realized s = sl_realized t \<and> sl_reserved s = sl_reserved t \<and>
     dict_rel (=) (sl_positions s) (sl_positions t)"

definition acc_sim :: "account_projection \<Rightarrow> account_projection \<Rightarrow> bool" where
  "acc_sim a b \<longleftrightarrow> acc_poison a = acc_poison b \<and> dict_rel sleeve_sim (acc_sleeves a) (acc_sleeves b)"

definition res_sim :: "reservation_state \<Rightarrow> reservation_state \<Rightarrow> bool" where
  "res_sim r q \<longleftrightarrow> dict_rel (=) (rs_pending r) (rs_pending q) \<and> set (rs_terminal r) = set (rs_terminal q)"

definition state_sim :: "fold_state \<Rightarrow> fold_state \<Rightarrow> bool" where
  "state_sim st tt \<longleftrightarrow> acc_sim (fst st) (fst tt) \<and> res_sim (snd st) (snd tt)"

definition book_sim :: "lot_book \<Rightarrow> lot_book \<Rightarrow> bool" where
  "book_sim b c \<longleftrightarrow> (\<forall>s y. book_lots b s y = book_lots c s y)"

definition book_wf :: "lot_book \<Rightarrow> bool" where
  "book_wf book \<longleftrightarrow> wf_dict book \<and> list_all wf_dict (vals book)"

lemma chk_decimal_str [simp]: "chk_decimal (JStr (dec_str d)) = Inr d"
  by (simp add: dec_text.dec_enc)

lemma get_opt_Cons: "get_opt ((j, v) # d) k = (if k = j then v else get_opt d k)"
  by (simp add: get_opt_def dict_get_Cons)

lemmas jsonb_reads = get_opt_Cons jsonb_scalar dec_text.dec_enc

lemma position_round_trip:
  assumes "jsonb_laws jsonb"
  shows "\<exists>q. decode_position (jsonb (encode_position pos)) = Inr q \<and> pos = q"
proof -
  have "\<exists>kvs'. jsonb (encode_position pos) = JObj kvs' \<and>
      (\<forall>k. get_opt kvs' k = jsonb (get_opt [(''qty'', JStr (dec_str (ps_qty pos))),
         (''cost_basis'', JStr (dec_str (ps_cost pos)))] k))"
    unfolding encode_position_def by (rule jsonb_fields [OF assms]) simp
  then show ?thesis using assms by (auto simp: decode_position_def jsonb_reads)
qed

lemma pending_round_trip:
  assumes "jsonb_laws jsonb"
  shows "\<exists>q. decode_pending (jsonb (encode_pending sa)) = Inr q \<and> sa = q"
proof -
  have "\<exists>kvs'. jsonb (encode_pending sa) = JObj kvs' \<and>
      (\<forall>k. get_opt kvs' k = jsonb (get_opt [(''sleeve_id'', JStr (fst sa)), (''amount'', JStr (dec_str (snd sa)))] k))"
    unfolding encode_pending_def by (rule jsonb_fields [OF assms]) simp
  then show ?thesis using assms by (auto simp: decode_pending_def jsonb_reads)
qed

lemma sleeve_round_trip:
  assumes laws: "jsonb_laws jsonb" and wf: "wf_dict (sl_positions s)"
  shows "\<exists>t. decode_sleeve (jsonb (encode_sleeve s)) = Inr t \<and> sleeve_sim s t \<and> wf_dict (sl_positions t)"
proof -
  obtain ps where ps: "decode_items decode_position (jsonb (encode_items encode_position (sl_positions s))) = Inr ps"
      "dict_rel (=) (sl_positions s) ps" "wf_dict ps"
    using items_round_trip [OF laws wf, of decode_position encode_position "(=)"] position_round_trip [OF laws] by blast
  have "\<exists>kvs'. jsonb (encode_sleeve s) = JObj kvs' \<and>
      (\<forall>k. get_opt kvs' k = jsonb (get_opt [(''cash'', JStr (dec_str (sl_cash s))),
         (''realized_pnl'', JStr (dec_str (sl_realized s))), (''reserved'', JStr (dec_str (sl_reserved s))),
         (''positions'', encode_items encode_position (sl_positions s))] k))"
    unfolding encode_sleeve_def by (rule jsonb_fields [OF laws]) simp
  then show ?thesis using laws ps by (auto simp: decode_sleeve_def jsonb_reads sleeve_sim_def)
qed

lemma from_keys_set: "set (from_keys xs) = set xs" and from_keys_distinct: "distinct (from_keys xs)"
proof -
  have "set (foldl (\<lambda>ks x. if x \<in> set ks then ks else ks @ [x]) ks xs) = set ks \<union> set xs \<and>
      (distinct ks \<longrightarrow> distinct (foldl (\<lambda>ks x. if x \<in> set ks then ks else ks @ [x]) ks xs))" for ks :: "string list"
    by (induction xs arbitrary: ks) auto
  from this [of "[]"] show "set (from_keys xs) = set xs" "distinct (from_keys xs)"
    by (simp_all add: from_keys_def)
qed

lemma strings_round_trip: "jsonb_laws jsonb \<Longrightarrow> mapR chk_string (map (jsonb \<circ> JStr) xs) = Inr xs"
  by (induction xs) (simp_all add: jsonb_scalar)

lemma state_round_trip:
  assumes laws: "jsonb_laws jsonb" and wf: "state_wf st"
  shows "\<exists>kvs' tt. jsonb (checkpoint_document st lots) = JObj kvs' \<and> get_opt kvs' ''lots'' = jsonb (encode_lots lots) \<and>
    decode_state (JObj kvs') = Inr tt \<and> state_sim st tt \<and> distinct (rs_terminal (snd tt)) \<and> state_wf tt"
proof -
  have wfs: "wf_dict (acc_sleeves (fst st))" "wf_dict (rs_pending (snd st))"
    and wfp: "\<And>s. s \<in> set (vals (acc_sleeves (fst st))) \<Longrightarrow> wf_dict (sl_positions s)"
    using wf by (auto simp: state_wf_def list_all_iff)
  obtain sl where sl: "decode_items decode_sleeve (jsonb (encode_items encode_sleeve (acc_sleeves (fst st)))) = Inr sl"
      "dict_rel (\<lambda>s t. sleeve_sim s t \<and> wf_dict (sl_positions t)) (acc_sleeves (fst st)) sl" "wf_dict sl"
    using items_round_trip [OF laws wfs(1), of decode_sleeve encode_sleeve
        "\<lambda>s t. sleeve_sim s t \<and> wf_dict (sl_positions t)"]
      sleeve_round_trip [OF laws wfp] by blast
  obtain pe where pe: "decode_items decode_pending (jsonb (encode_items encode_pending (rs_pending (snd st)))) = Inr pe"
      "dict_rel (=) (rs_pending (snd st)) pe" "wf_dict pe"
    using items_round_trip [OF laws wfs(2), of decode_pending encode_pending "(=)"]
      pending_round_trip [OF laws] by blast
  obtain pj where pj: "jsonb (JObj [(''poison_events'', JInt (acc_poison (fst st))),
        (''sleeves'', encode_items encode_sleeve (acc_sleeves (fst st)))]) = JObj pj"
      "\<forall>k. get_opt pj k = jsonb (get_opt [(''poison_events'', JInt (acc_poison (fst st))),
        (''sleeves'', encode_items encode_sleeve (acc_sleeves (fst st)))] k)"
    using jsonb_fields [OF laws, of "[(''poison_events'', JInt (acc_poison (fst st))),
        (''sleeves'', encode_items encode_sleeve (acc_sleeves (fst st)))]"] by auto
  obtain rj where rj: "jsonb (JObj [(''pending'', encode_items encode_pending (rs_pending (snd st))),
        (''terminal'', JList (map JStr (sort (rs_terminal (snd st)))))]) = JObj rj"
      "\<forall>k. get_opt rj k = jsonb (get_opt [(''pending'', encode_items encode_pending (rs_pending (snd st))),
        (''terminal'', JList (map JStr (sort (rs_terminal (snd st)))))] k)"
    using jsonb_fields [OF laws, of "[(''pending'', encode_items encode_pending (rs_pending (snd st))),
        (''terminal'', JList (map JStr (sort (rs_terminal (snd st)))))]"] by auto
  let ?doc = "AList.update ''lots'' (encode_lots lots) (encode_state (fst st) (snd st))"
  have "wf_dict ?doc" by (simp add: encode_state_def)
  then obtain kj where kj: "jsonb (JObj ?doc) = JObj kj" "\<forall>k. get_opt kj k = jsonb (get_opt ?doc k)"
    using jsonb_object [OF laws] by blast
  have "get_opt kj ''lots'' = jsonb (encode_lots lots)" by (simp add: kj(2) encode_state_def get_opt_Cons)
  moreover have "decode_state (JObj kj) =
      Inr (\<lparr>acc_sleeves = sl, acc_poison = acc_poison (fst st)\<rparr>,
           \<lparr>rs_pending = pe, rs_terminal = from_keys (sort (rs_terminal (snd st)))\<rparr>)"
    using laws sl(1) pe(1)
    by (simp add: decode_state_def kj(2) encode_state_def jsonb_reads pj rj comp_def [symmetric] strings_round_trip
        state_version_def)
  ultimately show ?thesis
    using kj(1) dict_rel_mono [OF sl(2), of sleeve_sim] dict_rel_vals [OF sl(2,3)] sl(3) pe(2,3)
    by (auto simp: checkpoint_document_def state_sim_def acc_sim_def res_sim_def from_keys_set from_keys_distinct
        state_wf_def list_all_iff)
qed

lemma lot_round_trip:
  assumes "jsonb_laws jsonb"
  shows "decode_lot (jsonb (encode_lot l)) = Inr l"
proof -
  have "\<exists>kvs'. jsonb (encode_lot l) = JObj kvs' \<and>
      (\<forall>k. get_opt kvs' k = jsonb (get_opt [(''qty'', JStr (dec_str (lot_qty l))),
         (''cost_basis'', JStr (dec_str (lot_cost l))), (''opened_seq'', JInt (lot_seq l))] k))"
    unfolding encode_lot_def by (rule jsonb_fields [OF assms]) simp
  then show ?thesis using assms by (auto simp: decode_lot_def jsonb_reads Lot_def)
qed

lemma lot_list_round_trip:
  assumes "jsonb_laws jsonb"
  shows "\<exists>ms. decode_lot_list (jsonb (JList (map encode_lot ls))) = Inr ms \<and> ls = ms"
proof -
  have "mapR decode_lot (map (jsonb \<circ> encode_lot) ls) = Inr ls"
    by (induction ls) (simp_all add: lot_round_trip [OF assms])
  then show ?thesis by (simp add: decode_lot_list_def jsonb_scalar [OF assms])
qed

lemma lots_round_trip:
  assumes laws: "jsonb_laws jsonb" and wf: "book_wf book"
  shows "\<exists>c. decode_lots (jsonb (encode_lots book)) = Inr c \<and> book_sim book c \<and> book_wf c"
proof -
  have inner: "\<exists>d'. decode_items decode_lot_list (jsonb (encode_items (\<lambda>ls. JList (map encode_lot ls)) d)) = Inr d' \<and>
      dict_rel (=) d d' \<and> wf_dict d'" if "d \<in> set (vals book)" for d
    using items_round_trip [OF laws, of d decode_lot_list "\<lambda>ls. JList (map encode_lot ls)" "(=)"]
      lot_list_round_trip [OF laws] wf that
    unfolding book_wf_def list_all_iff by blast
  obtain c where c: "decode_items (decode_items decode_lot_list) (jsonb (encode_lots book)) = Inr c"
      "dict_rel (\<lambda>d d'. dict_rel (=) d d' \<and> wf_dict d') book c" "wf_dict c"
    using items_round_trip [OF laws, of book "decode_items decode_lot_list"
        "encode_items (\<lambda>ls. JList (map encode_lot ls))" "\<lambda>d d'. dict_rel (=) d d' \<and> wf_dict d'"] inner wf
    unfolding encode_lots_def book_wf_def by blast
  have "dict_rel (=) (dict_get book s []) (dict_get c s [])" for s
    using dict_rel_get [OF c(2), of "[]" "[]" s] by (simp add: dict_rel_def)
  then have "book_sim book c" by (simp add: book_sim_def book_lots_def dict_get_def dict_rel_eq)
  moreover have "jsonb (encode_lots book) \<noteq> JNull"
    using c(1) by (auto simp: decode_items_def)
  moreover have "book_wf c" using dict_rel_vals [OF c(2,3)] c(3) by (auto simp: book_wf_def list_all_iff)
  ultimately show ?thesis using c(1) by (simp add: decode_lots_def)
qed

lemma save_load:
  assumes "jsonb_laws jsonb" "state_wf st" "book_wf lots"
    and newest: "\<And>row. map_of table (tenant, account) = Some row \<Longrightarrow> ck_sequence row \<le> n"
  shows "\<exists>tt book. load_checkpoint (save_checkpoint jsonb table tenant account n st lots) tenant account =
      Inr (Some (n, tt, book)) \<and> state_sim st tt \<and> distinct (rs_terminal (snd tt)) \<and> state_wf tt \<and>
      book_sim lots book \<and> book_wf book"
proof -
  obtain kj tt where kj: "jsonb (checkpoint_document st lots) = JObj kj"
      "get_opt kj ''lots'' = jsonb (encode_lots lots)" "decode_state (JObj kj) = Inr tt" "state_sim st tt"
      "distinct (rs_terminal (snd tt))" "state_wf tt"
    using state_round_trip [OF assms(1,2)] by blast
  obtain book where book: "decode_lots (jsonb (encode_lots lots)) = Inr book" "book_sim lots book" "book_wf book"
    using lots_round_trip [OF assms(1,3)] by blast
  have "save_checkpoint jsonb table tenant account n st lots =
      AList.update (tenant, account) \<lparr>ck_sequence = n, ck_state = JObj kj\<rparr> table"
    using newest by (auto simp: save_checkpoint_def kj(1) Let_def split: option.splits)
  then show ?thesis
    using kj book by (simp add: load_checkpoint_def load_row_def dict_simps)
qed

section \<open>Corrupt rows\<close>

text \<open>\<open>strict f\<close>: the only exception the reader \<open>f\<close> raises is \<^verbatim>\<open>CheckpointStateError\<close>.\<close>

definition strict :: "('a \<Rightarrow> 'b result) \<Rightarrow> bool" where
  "strict f \<longleftrightarrow> (\<forall>x e. f x = Inl e \<longrightarrow> e = CheckpointStateError)"

lemma strictD: "strict f \<Longrightarrow> f x = Inl e \<Longrightarrow> e = CheckpointStateError"
  by (simp add: strict_def)

lemma strict_readers:
  "strict chk_mapping" "strict chk_string" "strict chk_integer" "strict chk_decimal" "strict chk_list"
  unfolding strict_def
  by (intro allI, rename_tac v e, case_tac v; auto split: sum.splits)+

lemma strict_mapR: "strict f \<Longrightarrow> strict (mapR f)"
  unfolding strict_def [of "mapR f"]
proof (intro allI)
  fix xs e
  assume "strict f"
  then show "mapR f xs = Inl e \<longrightarrow> e = CheckpointStateError"
    by (induction xs) (auto simp: result_simps dest: strictD)
qed

lemma strict_items:
  assumes "strict dec"
  shows "strict (decode_items dec)"
proof -
  have "strict (\<lambda>(k :: string, w). bindR (dec w) (\<lambda>x. Inr (k, x)))"
    using assms by (auto simp: strict_def result_simps)
  from strict_mapR [OF this] show ?thesis
    unfolding strict_def [of "decode_items dec"]
    by (auto simp: decode_items_def result_simps dest: strictD strictD [OF strict_readers(1)])
qed

lemmas strict_leafD = strict_readers [THEN strictD]

lemma strict_leaves:
  "strict decode_position" "strict decode_pending" "strict decode_lot"
  unfolding strict_def
  by (auto simp: decode_position_def decode_pending_def decode_lot_def result_simps dest: strict_leafD)

lemma strict_sleeve: "strict decode_sleeve"
  unfolding strict_def
  by (auto simp: decode_sleeve_def result_simps
      dest: strict_leafD strictD [OF strict_items [OF strict_leaves(1)]])

lemma strict_lot_list: "strict decode_lot_list"
  unfolding strict_def
  by (auto simp: decode_lot_list_def result_simps dest: strict_leafD strictD [OF strict_mapR [OF strict_leaves(3)]])

lemma strict_state: "strict decode_state"
  unfolding strict_def
  by (auto simp: decode_state_def result_simps split: if_splits
      dest: strict_leafD strictD [OF strict_items [OF strict_sleeve]] strictD [OF strict_items [OF strict_leaves(2)]]
        strictD [OF strict_mapR [OF strict_readers(2)]])

lemma strict_lots: "strict decode_lots"
  unfolding strict_def
  by (auto simp: decode_lots_def split: if_splits dest: strictD [OF strict_items [OF strict_items [OF strict_lot_list]]])

lemma load_row_error: "load_row row = Inl e \<Longrightarrow> e = CheckpointStateError"
  by (auto simp: load_row_def result_simps dest: strict_leafD strictD [OF strict_state] strictD [OF strict_lots])

lemma load_total: "\<exists>r. load_checkpoint table tenant account = Inr r"
  by (auto simp: load_checkpoint_def split: option.splits sum.splits dest: load_row_error)

lemma load_version:
  assumes "load_checkpoint table tenant account = Inr (Some loaded)"
  shows "\<exists>row root. map_of table (tenant, account) = Some row \<and> ck_state row = JObj root \<and>
    get_opt root ''v'' = JInt state_version \<and> fst loaded = ck_sequence row"
proof -
  obtain row where row: "map_of table (tenant, account) = Some row" "load_row row = Inr loaded"
    using assms by (auto simp: load_checkpoint_def split: option.splits sum.splits if_splits)
  then obtain root where root: "ck_state row = JObj root" "fst loaded = ck_sequence row"
      "\<exists>st. decode_state (JObj root) = Inr st"
    by (cases "ck_state row") (auto simp: load_row_def result_simps decode_state_def)
  then show ?thesis
    using row(1) by (cases "get_opt root ''v''") (auto simp: decode_state_def result_simps split: if_splits)
qed

text \<open>A stale writer never regresses a checkpoint, and never touches another account's.\<close>

lemma save_forward:
  assumes "map_of table key = Some row"
  shows "\<exists>row'. map_of (save_checkpoint jsonb table tenant account n st lots) key = Some row' \<and>
    ck_sequence row \<le> ck_sequence row' \<and> (ck_sequence row' \<noteq> ck_sequence row \<longrightarrow> key = (tenant, account) \<and> ck_sequence row' = n)"
  using assms by (auto simp: save_checkpoint_def Let_def dict_simps split: option.splits)

end
