(* ===== verification/Ledger_Writer.thy ===== *)
theory Ledger_Writer
  imports Invariants
begin

text \<open>
  The append-only writer (\<^verbatim>\<open>ledger/writer.py\<close>) and the full projection read through it
  (\<^verbatim>\<open>LedgerProjector.project_account\<close>).

  The database is a parameter: \<open>ins\<close> is the statement
  \<^verbatim>\<open>INSERT ... ON CONFLICT (event_id) DO NOTHING RETURNING\<close>, \<open>rows\<close> the rows of the events
  table as a session sees them. \<open>table_laws\<close> states the documented behaviour of such an insert
  with a unique \<^verbatim>\<open>event_id\<close> and an identity \<^verbatim>\<open>sequence\<close>.

  Shown: an append never changes or removes a row, re-appending an event id is a no-op that
  returns the stored row, a rejected event leaves the table alone, the rows stay balanced and in
  sequence order (\<open>append_store_ok\<close>), an accepted append extends the account's projection by
  exactly that event (\<open>project_append\<close>), and the only poison a projection can meet in such a table
  is a submission whose reserved amount is unreadable (\<open>writer_poison\<close>).
\<close>

section \<open>The writer\<close>

record append_request =
  ar_tenant :: string
  ar_account :: string
  ar_type :: LedgerEventType
  ar_data :: payload
  ar_sleeve :: "string option"
  ar_event_id :: "string option"
  ar_occurred_at :: "int option"

type_synonym 'db insert_fun = "'db \<Rightarrow> ledger_event \<Rightarrow> 'db \<times> ledger_event option"

definition new_row :: "string \<Rightarrow> int \<Rightarrow> append_request \<Rightarrow> ledger_event" where
  "new_row fresh now req =
     \<lparr>ev_id = (case ar_event_id req of None \<Rightarrow> fresh | Some i \<Rightarrow> i),
      ev_tenant = ar_tenant req, ev_account = ar_account req, ev_sleeve = ar_sleeve req,
      ev_type = event_value (ar_type req), ev_data = ar_data req,
      ev_sequence = None, ev_created_at = None,
      ev_occurred_at = Some (case ar_occurred_at req of None \<Rightarrow> now | Some t \<Rightarrow> t)\<rparr>"

definition append_event ::
  "'db insert_fun \<Rightarrow> ('db \<Rightarrow> ledger_event list) \<Rightarrow> string \<Rightarrow> int \<Rightarrow> 'db \<Rightarrow> append_request \<Rightarrow>
   ('db \<times> ledger_event \<times> bool) result" where
  "append_event ins rows fresh now db req =
     bindR (build_postings (ar_type req) (ar_data req)) (\<lambda>ps.
     bindR (assert_balanced ps) (\<lambda>_.
       let row = new_row fresh now req
       in case ins db row of
            (db', Some r) \<Rightarrow> Inr (db', r, True)
          | (db', None) \<Rightarrow>
              (case find (\<lambda>r. ev_id r = ev_id row) (rows db') of
                 None \<Rightarrow> Inl RuntimeError
               | Some r \<Rightarrow> Inr (db', r, False))))"

definition seq_of :: "ledger_event \<Rightarrow> int" where
  "seq_of ev = (case ev_sequence ev of None \<Rightarrow> 0 | Some n \<Rightarrow> n)"

definition read_account_events ::
  "('db \<Rightarrow> ledger_event list) \<Rightarrow> 'db \<Rightarrow> string \<Rightarrow> string \<Rightarrow> ledger_event list" where
  "read_account_events rows db tenant account =
     sort_key seq_of (filter (\<lambda>r. ev_tenant r = tenant \<and> ev_account r = account) (rows db))"

definition read_account_events_since ::
  "('db \<Rightarrow> ledger_event list) \<Rightarrow> 'db \<Rightarrow> string \<Rightarrow> string \<Rightarrow> int \<Rightarrow> ledger_event list" where
  "read_account_events_since rows db tenant account after =
     sort_key seq_of
       (filter (\<lambda>r. ev_tenant r = tenant \<and> ev_account r = account \<and> after < seq_of r) (rows db))"

definition project_account ::
  "('db \<Rightarrow> ledger_event list) \<Rightarrow> 'db \<Rightarrow> string \<Rightarrow> string \<Rightarrow> account_projection" where
  "project_account rows db tenant account = fold_account (read_account_events rows db tenant account)"

section \<open>The documented behaviour of the insert\<close>

definition stored_as :: "ledger_event \<Rightarrow> ledger_event \<Rightarrow> bool" where
  "stored_as ev r \<longleftrightarrow>
     r = ev\<lparr>ev_sequence := ev_sequence r, ev_created_at := ev_created_at r\<rparr> \<and> ev_sequence r \<noteq> None"

definition table_laws :: "'db insert_fun \<Rightarrow> ('db \<Rightarrow> ledger_event list) \<Rightarrow> bool" where
  "table_laws ins rows \<longleftrightarrow>
     (\<forall>db ev.
        if ev_id ev \<in> set (map ev_id (rows db))
        then snd (ins db ev) = None \<and> rows (fst (ins db ev)) = rows db
        else \<exists>r. snd (ins db ev) = Some r \<and> rows (fst (ins db ev)) = rows db @ [r] \<and>
               stored_as ev r \<and> list_all (\<lambda>q. seq_of q < seq_of r) (rows db) \<and> 0 < seq_of r)"

text \<open>A table in memory that has these laws: the rows, the identity above every sequence used.\<close>

definition next_sequence :: "ledger_event list \<Rightarrow> int" where
  "next_sequence rs = 1 + foldr max (map seq_of rs) 0"

definition list_insert :: "ledger_event list insert_fun" where
  "list_insert rs ev =
     (if ev_id ev \<in> set (map ev_id rs) then (rs, None)
      else let r = ev\<lparr>ev_sequence := Some (next_sequence rs)\<rparr> in (rs @ [r], Some r))"

lemma next_sequence_above: "list_all (\<lambda>q. seq_of q < next_sequence rs) rs \<and> 0 < next_sequence rs"
proof -
  have "list_all (\<lambda>q. seq_of q \<le> foldr max (map seq_of rs) 0) rs \<and> 0 \<le> foldr max (map seq_of rs) 0"
    by (induction rs) (auto simp: list_all_iff max_def intro: order_trans)
  then show ?thesis by (auto simp: next_sequence_def list_all_iff)
qed

lemma list_insert_laws: "table_laws list_insert (\<lambda>rs. rs)"
proof -
  have "seq_of (ev\<lparr>ev_sequence := Some n\<rparr>) = n" for ev :: ledger_event and n by (simp add: seq_of_def)
  then show ?thesis
    using next_sequence_above by (auto simp: table_laws_def list_insert_def Let_def stored_as_def)
qed

section \<open>What an append does\<close>

lemma append_event_Inr:
  assumes laws: "table_laws ins rows" and ok: "append_event ins rows fresh now db req = Inr (db', r, new)"
  defines "row \<equiv> new_row fresh now req"
  shows "(if new then ev_id row \<notin> set (map ev_id (rows db)) \<and> rows db' = rows db @ [r] \<and>
              stored_as row r \<and> list_all (\<lambda>q. seq_of q < seq_of r) (rows db) \<and> 0 < seq_of r
          else rows db' = rows db \<and> r \<in> set (rows db) \<and> ev_id r = ev_id row)"
    and "\<exists>ps. build_postings (ar_type req) (ar_data req) = Inr ps \<and> assert_balanced ps = Inr ()"
proof -
  obtain ps where ps: "build_postings (ar_type req) (ar_data req) = Inr ps" "assert_balanced ps = Inr ()"
    using ok by (auto simp: append_event_def result_simps)
  then show "\<exists>ps. build_postings (ar_type req) (ar_data req) = Inr ps \<and> assert_balanced ps = Inr ()" by blast
  have law: "if ev_id row \<in> set (map ev_id (rows db))
        then snd (ins db row) = None \<and> rows (fst (ins db row)) = rows db
        else \<exists>r. snd (ins db row) = Some r \<and> rows (fst (ins db row)) = rows db @ [r] \<and>
               stored_as row r \<and> list_all (\<lambda>q. seq_of q < seq_of r) (rows db) \<and> 0 < seq_of r"
    using laws unfolding table_laws_def by blast
  show "(if new then ev_id row \<notin> set (map ev_id (rows db)) \<and> rows db' = rows db @ [r] \<and>
              stored_as row r \<and> list_all (\<lambda>q. seq_of q < seq_of r) (rows db) \<and> 0 < seq_of r
          else rows db' = rows db \<and> r \<in> set (rows db) \<and> ev_id r = ev_id row)"
    using ok law ps unfolding append_event_def row_def [symmetric]
    by (cases "ins db row") (auto simp: Let_def find_Some_iff split: option.splits if_splits)
qed

lemma append_event_total:
  assumes laws: "table_laws ins rows"
    and ps: "build_postings (ar_type req) (ar_data req) = Inr ps" "assert_balanced ps = Inr ()"
  shows "\<exists>db' r new. append_event ins rows fresh now db req = Inr (db', r, new)"
proof -
  define row where "row = new_row fresh now req"
  have law: "if ev_id row \<in> set (map ev_id (rows db))
        then snd (ins db row) = None \<and> rows (fst (ins db row)) = rows db
        else \<exists>r. snd (ins db row) = Some r"
    using laws unfolding table_laws_def by (metis (full_types))
  show ?thesis
  proof (cases "ev_id row \<in> set (map ev_id (rows db))")
    case True
    then obtain db1 where db1: "ins db row = (db1, None)" "rows db1 = rows db"
      using law by (cases "ins db row") auto
    have "find (\<lambda>r. ev_id r = ev_id row) (rows db) \<noteq> None"
      using True by (auto simp: find_None_iff)
    with db1 ps show ?thesis by (auto simp: append_event_def row_def [symmetric] Let_def)
  next
    case False
    then obtain db1 r where "ins db row = (db1, Some r)"
      using law by (cases "ins db row") auto
    with ps show ?thesis by (auto simp: append_event_def row_def [symmetric] Let_def)
  qed
qed

section \<open>The table invariant\<close>

definition valid_row :: "ledger_event \<Rightarrow> bool" where
  "valid_row r \<longleftrightarrow> is_ok (event_postings r) \<and> ev_sequence r \<noteq> None \<and> 0 < seq_of r"

definition store_ok :: "ledger_event list \<Rightarrow> bool" where
  "store_ok rs \<longleftrightarrow>
     distinct (map ev_id rs) \<and> sorted_wrt (<) (map seq_of rs) \<and> list_all valid_row rs"

lemma new_row_postings:
  assumes "build_postings (ar_type req) (ar_data req) = Inr ps" "assert_balanced ps = Inr ()"
    and "stored_as (new_row fresh now req) r"
  shows "event_postings r = Inr (ar_type req, ps)" "ev_data r = ar_data req"
    "ev_tenant r = ar_tenant req" "ev_account r = ar_account req" "ev_id r = ev_id (new_row fresh now req)"
proof -
  have r: "r = (new_row fresh now req)\<lparr>ev_sequence := ev_sequence r, ev_created_at := ev_created_at r\<rparr>"
    using assms(3) by (simp add: stored_as_def)
  show d: "ev_data r = ar_data req" "ev_tenant r = ar_tenant req" "ev_account r = ar_account req"
    "ev_id r = ev_id (new_row fresh now req)"
    by (subst r, simp add: new_row_def)+
  have "ev_type r = event_value (ar_type req)" by (subst r) (simp add: new_row_def)
  then show "event_postings r = Inr (ar_type req, ps)"
    using assms(1,2) d(1) by (simp add: event_postings_def)
qed

lemma append_store_ok:
  assumes "table_laws ins rows" "store_ok (rows db)"
    and "append_event ins rows fresh now db req = Inr (db', r, new)"
  shows "store_ok (rows db')"
proof -
  note a = append_event_Inr [OF assms(1,3)]
  show ?thesis
  proof (cases new)
    case True
    obtain ps where ps: "build_postings (ar_type req) (ar_data req) = Inr ps" "assert_balanced ps = Inr ()"
      using a(2) by blast
    have n: "ev_id (new_row fresh now req) \<notin> set (map ev_id (rows db))" "rows db' = rows db @ [r]"
      "stored_as (new_row fresh now req) r" "list_all (\<lambda>q. seq_of q < seq_of r) (rows db)" "0 < seq_of r"
      using a(1) True by simp_all
    note nr = new_row_postings [OF ps n(3)]
    have "valid_row r" using nr(1) n(3,5) by (simp add: valid_row_def stored_as_def)
    with assms(2) n nr(5) show ?thesis
      by (auto simp: store_ok_def sorted_wrt_append list_all_iff)
  next
    case False
    with a(1) assms(2) show ?thesis by simp
  qed
qed

text \<open>Re-appending an event id that is in the table changes no row and returns the stored one.\<close>

lemma append_event_dedup:
  assumes "table_laws ins rows" "append_event ins rows fresh now db req = Inr (db', r, new)"
    and "ev_id (new_row fresh now req) \<in> set (map ev_id (rows db))"
  shows "\<not> new \<and> rows db' = rows db \<and> r \<in> set (rows db) \<and> ev_id r = ev_id (new_row fresh now req)"
  using append_event_Inr(1) [OF assms(1,2)] assms(3) by (auto split: if_splits)

section \<open>The projection follows the log\<close>

lemma sort_key_sorted:
  assumes "sorted_wrt (<) (map seq_of rs)" shows "sort_key seq_of rs = rs"
proof -
  have "sorted_wrt (\<le>) (map seq_of rs)" by (rule sorted_wrt_mono_rel [OF _ assms]) simp
  then show ?thesis by (simp add: sorted_sort_id sort_key_id_if_sorted)
qed

lemma sorted_filter_rows: "sorted_wrt (<) (map seq_of rs) \<Longrightarrow> sorted_wrt (<) (map seq_of (filter P rs))"
  by (induction rs) auto

lemma read_account_events_eq:
  assumes "store_ok (rows db)"
  shows "read_account_events rows db tenant account =
    filter (\<lambda>r. ev_tenant r = tenant \<and> ev_account r = account) (rows db)"
  unfolding read_account_events_def using assms
  by (intro sort_key_sorted sorted_filter_rows) (simp add: store_ok_def)

lemma read_account_events_since_eq:
  assumes "store_ok (rows db)"
  shows "read_account_events_since rows db tenant account after =
    filter (\<lambda>r. after < seq_of r) (read_account_events rows db tenant account)"
proof -
  have "read_account_events_since rows db tenant account after =
      filter (\<lambda>r. ev_tenant r = tenant \<and> ev_account r = account \<and> after < seq_of r) (rows db)"
    unfolding read_account_events_since_def using assms
    by (intro sort_key_sorted sorted_filter_rows) (simp add: store_ok_def)
  then show ?thesis
    by (simp add: read_account_events_eq [where rows = rows, OF assms] conj_ac)
qed

lemma fold_account_snoc:
  "fold_account (evs @ [ev]) = fst (fold_step (fold_state_into (empty_account, empty_reservations) evs) ev)"
  by (simp add: fold_account_def fold_into_def balance_fold.run_snoc)

lemma project_append:
  assumes "table_laws ins rows" "store_ok (rows db)"
    and "append_event ins rows fresh now db req = Inr (db', r, True)"
  shows "read_account_events rows db' (ar_tenant req) (ar_account req) =
      read_account_events rows db (ar_tenant req) (ar_account req) @ [r]"
    and "(tenant, account) \<noteq> (ar_tenant req, ar_account req) \<Longrightarrow>
      read_account_events rows db' tenant account = read_account_events rows db tenant account"
proof -
  note a = append_event_Inr [OF assms(1,3)]
  obtain ps where ps: "build_postings (ar_type req) (ar_data req) = Inr ps" "assert_balanced ps = Inr ()"
    using a(2) by blast
  have n: "rows db' = rows db @ [r]" "stored_as (new_row fresh now req) r" using a(1) by simp_all
  note nr = new_row_postings [OF ps n(2)]
  note eqs = read_account_events_eq [where rows = rows, OF append_store_ok [OF assms]]
    read_account_events_eq [where rows = rows, OF assms(2)]
  show "read_account_events rows db' (ar_tenant req) (ar_account req) =
      read_account_events rows db (ar_tenant req) (ar_account req) @ [r]"
    by (simp add: eqs n(1) nr)
  show "(tenant, account) \<noteq> (ar_tenant req, ar_account req) \<Longrightarrow>
      read_account_events rows db' tenant account = read_account_events rows db tenant account"
    by (auto simp: eqs n(1) nr)
qed

section \<open>Poison in a written log\<close>

definition unreadable_reservation :: "ledger_event \<Rightarrow> bool" where
  "unreadable_reservation ev \<longleftrightarrow>
     ev_type ev = event_value ORDER_SUBMITTED \<and> has_key (ev_data ev) ''reserved'' \<and>
     \<not> is_ok (decimal_str_field (ev_data ev) ''reserved'')"

lemma apply_reservation_unreadable:
  assumes "apply_reservation st t data = Inl e"
  shows "t = ORDER_SUBMITTED \<and> has_key data ''reserved'' \<and> \<not> is_ok (decimal_str_field data ''reserved'')"
  using assms
  by (auto simp: apply_reservation_def Let_def result_simps split: json.splits if_splits)

lemma fold_poison_bound:
  assumes "list_all (\<lambda>ev. is_ok (event_postings ev)) evs"
  shows "acc_poison (fst (fold_state_into st evs)) \<le>
    acc_poison (fst st) + int (length (filter unreadable_reservation evs))"
  using assms
proof (induction evs arbitrary: st)
  case Nil
  then show ?case by (simp add: balance_fold.run_Nil)
next
  case (Cons ev evs)
  obtain t ps where e: "event_postings ev = Inr (t, ps)" using Cons.prems by (auto simp: result_simps)
  have ty: "ev_type ev = event_value t"
    using e by (auto simp: event_postings_def result_simps event_type_of_Inr)
  have "acc_poison (fst (fold_step st ev)) \<le>
      acc_poison (fst st) + (if unreadable_reservation ev then 1 else 0)"
  proof (cases "apply_event st ev")
    case (Inl err)
    then obtain err where "apply_reservation st t (ev_data ev) = Inl err"
      by (auto simp: apply_event_def e result_simps)
    from apply_reservation_unreadable [OF this] have "unreadable_reservation ev"
      by (simp add: unreadable_reservation_def ty)
    then show ?thesis using Inl by (simp add: fold_step_def)
  next
    case (Inr st')
    then show ?thesis using apply_event_poison [OF Inr] by (simp add: fold_step_def)
  qed
  with Cons.IH [of "fold_step st ev"] Cons.prems show ?case
    by (auto simp: balance_fold.run_Cons split: if_splits)
qed

lemma writer_poison:
  assumes "store_ok (rows db)"
  shows "acc_poison (project_account rows db tenant account) \<le>
    int (length (filter unreadable_reservation (read_account_events rows db tenant account)))"
proof -
  have "list_all (\<lambda>ev. is_ok (event_postings ev)) (read_account_events rows db tenant account)"
    using assms unfolding read_account_events_eq [where rows = rows, OF assms]
    by (auto simp: store_ok_def valid_row_def list_all_iff)
  from fold_poison_bound [OF this, of "(empty_account, empty_reservations)"] show ?thesis
    by (simp add: project_account_def fold_account_def fold_into_def)
qed

end
