(* ===== verification/Reconciliation.thy ===== *)
theory Reconciliation
  imports Sizing Projection
begin

text \<open>
  Shadow reconciliation (\<^verbatim>\<open>ledger/reconciliation.py\<close>), the dollar valuation of a drift
  (\<^verbatim>\<open>ledger/projector.py\<close>, \<^verbatim>\<open>_mismatch_dollars\<close>) and block-and-allocate netting
  (\<^verbatim>\<open>ledger/netting.py\<close>).

  Reconciliation is sound and complete (\<open>reconcile_complete\<close>): it reports exactly the symbols whose
  ledger aggregate differs from the broker quantity, each once, in symbol order; the aggregate is
  the sum over the sleeves (\<open>account_positions_total\<close>). Netting sends exactly the net flow of each
  symbol to the broker (\<open>net_orders_flow\<close>).
\<close>

section \<open>Drifts\<close>

datatype DriftKind = OK | DUST | MISSING_AT_BROKER | MISSING_IN_LEDGER | QTY_MISMATCH

record drift =
  dr_symbol :: string
  dr_ledger_qty :: decimal
  dr_broker_qty :: decimal
  dr_kind :: DriftKind

definition default_dust_tolerance :: decimal where
  "default_dust_tolerance = Dec 1 (- 4)"

definition drift_delta :: "drift \<Rightarrow> decimal" where
  "drift_delta d = dr_broker_qty d - dr_ledger_qty d"

definition reconcile_symbol ::
  "(string, decimal) dict \<Rightarrow> (string, decimal) dict \<Rightarrow> decimal \<Rightarrow> string \<Rightarrow> drift list" where
  "reconcile_symbol ledger broker tolerance y =
     (let ledger_qty = dict_get ledger y 0; broker_qty = dict_get broker y 0;
          delta = broker_qty - ledger_qty
      in if is_zero delta then []
         else [\<lparr>dr_symbol = y, dr_ledger_qty = ledger_qty, dr_broker_qty = broker_qty,
                dr_kind = (if \<bar>delta\<bar> \<le> tolerance then DUST
                           else if is_zero ledger_qty then MISSING_IN_LEDGER
                           else if is_zero broker_qty then MISSING_AT_BROKER
                           else QTY_MISMATCH)\<rparr>])"

definition reconcile ::
  "account_projection \<Rightarrow> (string, decimal) dict \<Rightarrow> decimal \<Rightarrow> drift list" where
  "reconcile acc broker tolerance =
     (let ledger = account_positions acc
      in concat (map (reconcile_symbol ledger broker tolerance)
           (sort (remdups (keys ledger @ keys broker)))))"

definition ledger_cash :: "account_projection \<Rightarrow> decimal" where
  "ledger_cash acc = dec_sum (map sl_cash (vals (acc_sleeves acc)))"

definition cash_drift :: "account_projection \<Rightarrow> decimal \<Rightarrow> decimal" where
  "cash_drift acc broker_cash = broker_cash - ledger_cash acc"

text \<open>\<^verbatim>\<open>_mismatch_dollars\<close>: aggregate cost and quantity per symbol, then the valued drifts.\<close>

definition tally :: "(position_state \<Rightarrow> decimal) \<Rightarrow> account_projection \<Rightarrow> (string, decimal) dict" where
  "tally f acc =
     foldl (\<lambda>totals (y, pos). AList.update y (dict_get totals y 0 + f pos) totals) []
       (concat (map sl_positions (vals (acc_sleeves acc))))"

definition drift_dollars ::
  "(string, decimal) dict \<Rightarrow> (string, decimal) dict \<Rightarrow> decimal result \<Rightarrow> drift \<Rightarrow> decimal result" where
  "drift_dollars cost_by qty_by running d =
     bindR running (\<lambda>sum_so_far.
       let qty = dict_get qty_by (dr_symbol d) 0
       in if is_zero qty then Inr sum_so_far
          else bindR (dec_div_r (dict_get cost_by (dr_symbol d) 0) qty) (\<lambda>avg_cost.
                 Inr (sum_so_far + \<bar>drift_delta d * avg_cost\<bar>)))"

definition mismatch_dollars :: "account_projection \<Rightarrow> drift list \<Rightarrow> decimal result" where
  "mismatch_dollars acc drifts =
     foldl (drift_dollars (tally ps_cost acc) (tally ps_qty acc)) (Inr 0) drifts"

section \<open>Netting\<close>

record broker_order =
  bo_symbol :: string
  bo_side :: string
  bo_qty :: decimal

record sleeve_allocation =
  sa_sleeve :: string
  sa_symbol :: string
  sa_side :: string
  sa_qty :: decimal

record netting_result =
  nr_broker_orders :: "broker_order list"
  nr_allocations :: "sleeve_allocation list"

definition allocation_of :: "sleeve_order \<Rightarrow> sleeve_allocation" where
  "allocation_of ord =
     \<lparr>sa_sleeve = so_sleeve ord, sa_symbol = so_symbol ord, sa_side = so_side ord, sa_qty = so_qty ord\<rparr>"

definition net_step :: "(string, decimal) dict \<Rightarrow> sleeve_order \<Rightarrow> (string, decimal) dict" where
  "net_step signed ord =
     (let delta = (if so_side ord = ''buy'' then so_qty ord else - so_qty ord)
      in AList.update (so_symbol ord) (dict_get signed (so_symbol ord) 0 + delta) signed)"

definition broker_order_of :: "string \<times> decimal \<Rightarrow> broker_order list" where
  "broker_order_of yn =
     (if is_zero (snd yn) then []
      else [\<lparr>bo_symbol = fst yn, bo_side = (if 0 < snd yn then ''buy'' else ''sell''), bo_qty = \<bar>snd yn\<bar>\<rparr>])"

text \<open>
  \<^verbatim>\<open>sorted(signed.items())\<close> compares the symbol first; symbols of a dict are distinct.
\<close>

definition net_orders :: "sleeve_order list \<Rightarrow> netting_result" where
  "net_orders orders =
     \<lparr>nr_broker_orders = concat (map broker_order_of (sort_key fst (foldl net_step [] orders))),
      nr_allocations = map allocation_of orders\<rparr>"

section \<open>Reconciliation is sound and complete\<close>

definition differs :: "account_projection \<Rightarrow> (string, decimal) dict \<Rightarrow> string \<Rightarrow> bool" where
  "differs acc broker y \<longleftrightarrow> val (dict_get (account_positions acc) y 0) \<noteq> val (dict_get broker y 0)"

lemma diff_is_zero: "is_zero (a - b) \<longleftrightarrow> val a = val b"
  using sgn_cong_0 [OF sgn_diff [of a b]] by (auto simp: is_zero_val)

lemma reconcile_symbol_symbols:
  "map dr_symbol (reconcile_symbol ledger broker tol y) =
     (if val (dict_get ledger y 0) = val (dict_get broker y 0) then [] else [y])"
  by (auto simp: reconcile_symbol_def Let_def diff_is_zero)

lemma concat_singletons:
  "(\<And>x. map g (f x) = (if P x then [x] else [])) \<Longrightarrow> map g (concat (map f xs)) = filter P xs"
  by (induction xs) auto

lemma dict_get_absent: "y \<notin> set (keys d) \<Longrightarrow> dict_get d y dflt = dflt"
  by (induction d) (auto simp: dict_get_Cons)

lemma reconcile_symbols:
  "map dr_symbol (reconcile acc broker tol) =
     filter (differs acc broker) (sort (remdups (keys (account_positions acc) @ keys broker)))"
  unfolding reconcile_def Let_def
  by (rule concat_singletons) (auto simp: reconcile_symbol_symbols differs_def)

lemma differs_known:
  "differs acc broker y \<Longrightarrow> y \<in> set (keys (account_positions acc) @ keys broker)"
  using dict_get_absent [of y "account_positions acc" 0] dict_get_absent [of y broker 0]
  by (metis UnI1 UnI2 differs_def set_append)

lemma reconcile_complete:
  "set (map dr_symbol (reconcile acc broker tol)) = {y. differs acc broker y}"
  using differs_known [of acc broker] unfolding reconcile_symbols by auto

lemma reconcile_sorted: "sorted (map dr_symbol (reconcile acc broker tol))"
  unfolding reconcile_symbols by (rule sorted_wrt_filter) simp

lemma reconcile_distinct: "distinct (map dr_symbol (reconcile acc broker tol))"
  unfolding reconcile_symbols by simp

lemma reconcile_fields:
  assumes "d \<in> set (reconcile acc broker tol)"
  shows "dr_ledger_qty d = dict_get (account_positions acc) (dr_symbol d) 0"
    and "dr_broker_qty d = dict_get broker (dr_symbol d) 0"
    and "dr_kind d \<noteq> OK"
    and "dr_kind d = DUST \<longleftrightarrow> \<bar>drift_delta d\<bar> \<le> tol"
    and "dr_kind d = MISSING_IN_LEDGER \<longleftrightarrow> \<not> \<bar>drift_delta d\<bar> \<le> tol \<and> val (dr_ledger_qty d) = 0"
    and "dr_kind d = MISSING_AT_BROKER \<longleftrightarrow>
      \<not> \<bar>drift_delta d\<bar> \<le> tol \<and> val (dr_ledger_qty d) \<noteq> 0 \<and> val (dr_broker_qty d) = 0"
  using assms
  by (auto simp: reconcile_def Let_def reconcile_symbol_def drift_delta_def is_zero_val split: if_splits)

lemma reconcile_empty_iff: "reconcile acc broker tol = [] \<longleftrightarrow> (\<forall>y. \<not> differs acc broker y)"
  using reconcile_complete [of acc broker tol] by (metis (mono_tags) Collect_empty_eq map_is_Nil_conv set_empty)

section \<open>The ledger aggregate is the sum over the sleeves\<close>

definition symbol_qtys :: "string \<Rightarrow> (string \<times> decimal) list \<Rightarrow> decimal list" where
  "symbol_qtys y xs = vals (filter (\<lambda>x. fst x = y) xs)"

lemma symbol_qtys_simps [simp]:
  "symbol_qtys y [] = []"
  "symbol_qtys y ((z, q) # xs) = (if z = y then q # symbol_qtys y xs else symbol_qtys y xs)"
  "symbol_qtys y (xs @ ys) = symbol_qtys y xs @ symbol_qtys y ys"
  by (simp_all add: symbol_qtys_def)

definition add_qty :: "(string, decimal) dict \<Rightarrow> string \<times> decimal \<Rightarrow> (string, decimal) dict" where
  "add_qty totals x = AList.update (fst x) (dict_get totals (fst x) 0 + snd x) totals"

lemma add_qty_get:
  "dict_get (foldl add_qty totals xs) y 0 = foldl (+) (dict_get totals y 0) (symbol_qtys y xs)"
  by (induction xs arbitrary: totals) (auto simp: add_qty_def dict_simps)

lemma add_qty_total:
  assumes "on_grid k (symbol_qtys y xs)" "room k (weight (symbol_qtys y xs))"
  shows "val (dict_get (foldl add_qty [] xs) y 0) = sum_list (map val (symbol_qtys y xs))"
  using val_dec_sum [OF assms] by (simp add: add_qty_get dec_sum_def)

lemma add_qty_wf: "wf_dict totals \<Longrightarrow> wf_dict (foldl add_qty totals xs)"
  by (induction xs arbitrary: totals) (auto simp: add_qty_def)

lemma dict_get_filter:
  "wf_dict d \<Longrightarrow> dict_get (filter (\<lambda>kv. P (snd kv)) d) y dflt =
     (if y \<in> set (keys d) \<and> P (dict_get d y dflt) then dict_get d y dflt else dflt)"
  by (induction d) (auto simp: dict_get_Cons dict_get_absent image_iff)

definition holdings :: "account_projection \<Rightarrow> (string \<times> decimal) list" where
  "holdings acc =
     map (\<lambda>(y, pos). (y, ps_qty pos)) (concat (map sl_positions (vals (acc_sleeves acc))))"

lemma foldl_foldl_concat: "foldl (\<lambda>a x. foldl f a (g x)) a xs = foldl f a (concat (map g xs))"
  by (induction xs arbitrary: a) auto

lemma account_positions_holdings:
  "account_positions acc = filter (\<lambda>sq. \<not> is_zero (snd sq)) (foldl add_qty [] (holdings acc))"
  unfolding account_positions_def foldl_foldl_concat holdings_def foldl_map
  by (simp add: add_position_qty_def [abs_def] add_qty_def case_prod_unfold)

lemma account_positions_get:
  "val (dict_get (account_positions acc) y 0) = val (dict_get (foldl add_qty [] (holdings acc)) y 0)"
  unfolding account_positions_holdings
  by (subst dict_get_filter [where P = "\<lambda>q. \<not> is_zero q"])
    (auto simp: add_qty_wf is_zero_val dict_get_absent)

lemma account_positions_total:
  assumes "on_grid k (symbol_qtys y (holdings acc))" "room k (weight (symbol_qtys y (holdings acc)))"
  shows "val (dict_get (account_positions acc) y 0) = sum_list (map val (symbol_qtys y (holdings acc)))"
  using add_qty_total [OF assms] by (simp add: account_positions_get)

section \<open>Netting preserves the flow of every symbol\<close>

definition order_flow :: "sleeve_order \<Rightarrow> decimal" where
  "order_flow ord = (if so_side ord = ''buy'' then so_qty ord else - so_qty ord)"

definition flows :: "sleeve_order list \<Rightarrow> (string \<times> decimal) list" where
  "flows orders = map (\<lambda>ord. (so_symbol ord, order_flow ord)) orders"

definition broker_flow :: "broker_order \<Rightarrow> rat" where
  "broker_flow b = (if bo_side b = ''buy'' then val (bo_qty b) else - val (bo_qty b))"

definition sent :: "string \<Rightarrow> broker_order list \<Rightarrow> rat" where
  "sent y bs = sum_list (map broker_flow (filter (\<lambda>b. bo_symbol b = y) bs))"

lemma net_step_add_qty: "foldl net_step totals orders = foldl add_qty totals (flows orders)"
  by (simp add: flows_def foldl_map net_step_def [abs_def] add_qty_def order_flow_def Let_def)

lemma rep28_plus [simp]: "rep28 (val (a + b))"
  by (simp add: plus_decimal_def rep28_dec_fix)

lemma broker_order_of_flow:
  "rep28 (val (snd yn)) \<Longrightarrow> sent y (broker_order_of yn) = (if fst yn = y then val (snd yn) else 0)"
  by (auto simp: broker_order_of_def sent_def broker_flow_def val_abs less_val is_zero_val)

lemma sent_append [simp]: "sent y (xs @ ys) = sent y xs + sent y ys"
  by (simp add: sent_def)

lemma sent_concat:
  assumes "list_all (\<lambda>yn. rep28 (val (snd yn))) xs" "wf_dict xs"
  shows "sent y (concat (map broker_order_of xs)) = val (dict_get xs y 0)"
  using assms
proof (induction xs)
  case (Cons yn xs)
  then show ?case
    using dict_get_absent [of "fst yn" xs 0]
    by (cases yn) (auto simp: broker_order_of_flow dict_get_Cons)
qed (simp add: sent_def)

lemma add_qty_rep28:
  assumes "list_all (\<lambda>yn. rep28 (val (snd yn))) totals"
  shows "list_all (\<lambda>yn. rep28 (val (snd yn))) (foldl add_qty totals xs)"
  using assms
proof (induction xs arbitrary: totals)
  case (Cons x xs)
  have "list_all (\<lambda>v. rep28 (val v)) (vals (add_qty totals x))"
    unfolding add_qty_def by (rule all_vals_update) (use Cons.prems in \<open>simp_all add: list_all_iff\<close>)
  then show ?case using Cons.IH [of "add_qty totals x"] by (simp add: list_all_iff)
qed simp

lemma dict_get_sort_key:
  assumes "wf_dict d"
  shows "dict_get (sort_key fst d) y dflt = dict_get d y dflt"
proof -
  have "wf_dict (sort_key fst d)" using assms by (simp add: distinct_map)
  then have "map_of (sort_key fst d) = map_of d" using assms by (simp add: map_of_inject_set)
  then show ?thesis by (simp add: dict_get_def)
qed

lemma net_orders_sent:
  "sent y (nr_broker_orders (net_orders orders)) = val (dict_get (foldl add_qty [] (flows orders)) y 0)"
proof -
  let ?d = "foldl add_qty [] (flows orders)"
  have "sent y (concat (map broker_order_of (sort_key fst ?d))) = val (dict_get (sort_key fst ?d) y 0)"
    using add_qty_rep28 [of "[]" "flows orders"] add_qty_wf [of "[]" "flows orders"]
    by (intro sent_concat) (simp_all add: distinct_map)
  then show ?thesis
    using add_qty_wf [of "[]" "flows orders"]
    by (simp add: net_orders_def net_step_add_qty dict_get_sort_key)
qed

lemma net_orders_flow:
  assumes "on_grid k (symbol_qtys y (flows orders))" "room k (weight (symbol_qtys y (flows orders)))"
  shows "sent y (nr_broker_orders (net_orders orders)) = sum_list (map val (symbol_qtys y (flows orders)))"
  using add_qty_total [OF assms] by (simp add: net_orders_sent)

lemma broker_order_of_sound:
  assumes "b \<in> set (broker_order_of yn)"
  shows "0 < val (bo_qty b)" "bo_side b = ''buy'' \<or> bo_side b = ''sell''" "bo_symbol b = fst yn"
proof -
  have "\<not> is_zero (snd yn)" "bo_qty b = \<bar>snd yn\<bar>" "bo_symbol b = fst yn"
      "bo_side b = ''buy'' \<or> bo_side b = ''sell''"
    using assms by (auto simp: broker_order_of_def split: if_splits)
  then show "0 < val (bo_qty b)" "bo_side b = ''buy'' \<or> bo_side b = ''sell''" "bo_symbol b = fst yn"
    using sgn_abs_dec [of "snd yn"] by (auto simp: is_zero_val sgn_if split: if_splits)
qed

text \<open>At most one broker order per symbol: intents of one symbol never compete at the broker.\<close>

lemma net_orders_one_per_symbol:
  "distinct (map bo_symbol (nr_broker_orders (net_orders orders)))"
proof -
  have "wf_dict (sort_key fst (foldl net_step [] orders))"
    using add_qty_wf [of "[]" "flows orders"] by (simp add: net_step_add_qty distinct_map)
  then show ?thesis
    unfolding net_orders_def
    by (simp only: netting_result.simps)
      (rule distinct_concat_map [THEN conjunct1], auto simp: broker_order_of_def)
qed

end
