(* ===== verification/Projector.thy ===== *)
theory Projector
  imports Checkpoint Ledger_Writer Reconciliation
begin

text \<open>
  The projector (\<^verbatim>\<open>ledger/projector.py\<close>): the bounded process-level cache of
  checkpoints, the cut of the delta at the safety window, the incremental projection with its two
  checkpoint levels, the incremental lot read and the reconciliation of an account.

  \<^item> The incremental projection equals the full fold, dictionary by dictionary, from an empty
    cache, a cached or a persisted checkpoint (\<open>incremental_correct\<close>), as long as no more than
    4096 orders have closed; and it leaves cache and table in a state that keeps this true.
  \<^item> The cache never holds more than 2048 accounts (\<open>cache_put_bound\<close>).
  \<^item> The safe prefix of the window is a prefix of every later reading of the log when creation
    times follow the sequence (\<open>window_safe\<close>).
\<close>

section \<open>State\<close>

record checkpoint =
  cp_sequence :: int
  cp_state :: fold_state
  cp_lots :: lot_book

type_synonym checkpoint_cache = "(string \<times> string, checkpoint) dict"

definition max_cached_accounts :: nat where
  "max_cached_accounts = 2048"

definition cash_drift_alert_dollars :: decimal where
  "cash_drift_alert_dollars = Dec 1 0"

definition cache_put :: "string \<times> string \<Rightarrow> checkpoint \<Rightarrow> checkpoint_cache \<Rightarrow> checkpoint_cache" where
  "cache_put key cp cache =
     (let moved = AList.delete key cache @ [(key, cp)]
      in drop (length moved - max_cached_accounts) moved)"

definition recent_event :: "int \<Rightarrow> ledger_event \<Rightarrow> bool" where
  "recent_event cutoff ev = (case ev_created_at ev of None \<Rightarrow> False | Some created \<Rightarrow> cutoff \<le> created)"

fun partition_at_window ::
  "ledger_event list \<Rightarrow> int \<Rightarrow> ledger_event list \<times> ledger_event list" where
  "partition_at_window [] cutoff = ([], [])"
| "partition_at_window (ev # delta) cutoff =
     (if recent_event cutoff ev then ([], ev # delta)
      else let (safe, tail) = partition_at_window delta cutoff in (ev # safe, tail))"

definition seed_checkpoint ::
  "checkpoint_cache \<Rightarrow> checkpoint_table \<Rightarrow> string \<Rightarrow> string \<Rightarrow> checkpoint option result" where
  "seed_checkpoint cache table tenant account =
     (case map_of cache (tenant, account) of
        Some cached \<Rightarrow> Inr (Some cached)
      | None \<Rightarrow>
          bindR (load_checkpoint table tenant account) (\<lambda>loaded.
            Inr (map_option (\<lambda>(n, st, lots). \<lparr>cp_sequence = n, cp_state = st, cp_lots = lots\<rparr>) loaded)))"

text \<open>
  \<open>persisted\<close> says whether the best-effort save and its commit succeed; a failing one is rolled
  back and swallowed.
\<close>

record 'db projector_env =
  pe_rows :: "'db \<Rightarrow> ledger_event list"
  pe_jsonb :: "json \<Rightarrow> json"
  pe_cutoff :: int
  pe_persisted :: bool

definition advance_checkpoint ::
  "'db projector_env \<Rightarrow> checkpoint_cache \<Rightarrow> checkpoint_table \<Rightarrow> string \<Rightarrow> string \<Rightarrow> int \<Rightarrow> checkpoint \<Rightarrow>
   checkpoint_cache \<times> checkpoint_table" where
  "advance_checkpoint env cache table tenant account after cp =
     ((case map_of cache (tenant, account) of
         Some current \<Rightarrow>
           if cp_sequence current \<le> cp_sequence cp then cache_put (tenant, account) cp cache else cache
       | None \<Rightarrow> cache_put (tenant, account) cp cache),
      (if after < cp_sequence cp \<and> is_complete (fst (cp_state cp)) \<and> pe_persisted env
       then save_checkpoint (pe_jsonb env) table tenant account (cp_sequence cp) (cp_state cp) (cp_lots cp)
       else table))"

definition seed_parts :: "checkpoint option \<Rightarrow> int \<times> fold_state \<times> lot_book" where
  "seed_parts seed =
     (case seed of
        None \<Rightarrow> (0, (empty_account, empty_reservations), [])
      | Some cp \<Rightarrow> (cp_sequence cp, cp_state cp, cp_lots cp))"

definition project_account_incremental ::
  "'db projector_env \<Rightarrow> 'db \<Rightarrow> checkpoint_cache \<Rightarrow> checkpoint_table \<Rightarrow> string \<Rightarrow> string \<Rightarrow> bool \<Rightarrow>
   (checkpoint_cache \<times> checkpoint_table \<times> account_projection) result" where
  "project_account_incremental env db cache table tenant account persist =
     bindR (seed_checkpoint cache table tenant account) (\<lambda>seed.
       let (after, st, lots) = seed_parts seed;
           delta = read_account_events_since (pe_rows env) db tenant account after
       in if map_of cache (tenant, account) \<noteq> None \<and> delta = [] then Inr (cache, table, fst st)
          else if \<not> persist then Inr (cache, table, fst (fst (fold_into st delta)))
          else
            let (safe, tail) = partition_at_window delta (pe_cutoff env);
                (safe_st, safe_seq) = fold_into st safe;
                cp = \<lparr>cp_sequence = (if safe \<noteq> [] then safe_seq else after), cp_state = safe_st,
                      cp_lots = fst (fold_lots_into lots safe)\<rparr>;
                (cache', table') = advance_checkpoint env cache table tenant account after cp
            in Inr (cache', table', if tail = [] then fst safe_st else fst (fst (fold_into safe_st tail))))"

definition open_lots_incremental ::
  "'db projector_env \<Rightarrow> 'db \<Rightarrow> checkpoint_cache \<Rightarrow> checkpoint_table \<Rightarrow> string \<Rightarrow> string \<Rightarrow> string \<Rightarrow> string \<Rightarrow>
   lot list result" where
  "open_lots_incremental env db cache table tenant account sid y =
     bindR (seed_checkpoint cache table tenant account) (\<lambda>seed.
       let (after, st, lots) = seed_parts seed;
           delta = read_account_events_since (pe_rows env) db tenant account after
       in Inr (book_lots (fst (fold_lots_into lots delta)) sid y))"

text \<open>
  The reconciliation of an account: the drifts, the cash drift when broker cash was read, and
  whether the cash alert is logged. The valuation that feeds the gauge can raise, and its exception
  leaves the operation.
\<close>

definition reconcile_account ::
  "'db projector_env \<Rightarrow> 'db \<Rightarrow> checkpoint_cache \<Rightarrow> checkpoint_table \<Rightarrow> string \<Rightarrow> string \<Rightarrow>
   (string, decimal) dict \<Rightarrow> decimal option \<Rightarrow>
   (checkpoint_cache \<times> checkpoint_table \<times> drift list \<times> decimal option \<times> bool) result" where
  "reconcile_account env db cache table tenant account broker_positions broker_cash =
     bindR (project_account_incremental env db cache table tenant account True) (\<lambda>(cache', table', acc).
       let drifts = reconcile acc broker_positions default_dust_tolerance
       in bindR (mismatch_dollars acc drifts) (\<lambda>_.
          let cash_delta = map_option (cash_drift acc) broker_cash
          in Inr (cache', table', drifts, cash_delta,
                  (case cash_delta of None \<Rightarrow> False | Some d \<Rightarrow> cash_drift_alert_dollars < \<bar>d\<bar>))))"

section \<open>The folds respect dictionary equality\<close>

lemma sleeve_sim_refl [simp]: "sleeve_sim s s"
  by (simp add: sleeve_sim_def dict_rel_refl)

lemma post_sleeve_sim: "sleeve_sim s t \<Longrightarrow> sleeve_sim (post_sleeve p s) (post_sleeve p t)"
  by (auto simp: sleeve_sim_def post_sleeve_def intro!: dict_rel_modify split: Bucket.splits option.splits)

lemma on_sleeve_sim:
  assumes "acc_sim a b" "\<And>s t. sleeve_sim s t \<Longrightarrow> sleeve_sim (f s) (f t)"
  shows "acc_sim (on_sleeve sid f a) (on_sleeve sid f b)"
  using assms by (auto simp: acc_sim_def on_sleeve_def intro: dict_rel_modify)

lemma apply_posting_sim: "acc_sim a b \<Longrightarrow> acc_sim (apply_posting a p) (apply_posting b p)"
  by (auto simp: apply_posting_def intro: on_sleeve_sim post_sleeve_sim split: option.splits)

lemma apply_postings_sim: "acc_sim a b \<Longrightarrow> acc_sim (apply_postings a ps) (apply_postings b ps)"
  by (induction ps arbitrary: a b)
    (simp_all add: posting_fold.run_Nil posting_fold.run_Cons apply_posting_sim)

lemma reserve_order_sim: "state_sim st tt \<Longrightarrow> state_sim (reserve_order st c s a) (reserve_order tt c s a)"
  by (auto simp: state_sim_def reserve_order_def res_sim_def sleeve_sim_def intro!: on_sleeve_sim dict_rel_update)

lemma add_terminal_set:
  "length ts < terminal_tracked \<Longrightarrow> set (add_terminal c ts) = insert c (set ts)"
  by (auto simp: add_terminal_def Let_def)

definition windows_match :: "fold_state \<Rightarrow> fold_state \<Rightarrow> bool" where
  "windows_match st tt \<longleftrightarrow>
     state_sim st tt \<and> distinct (rs_terminal (snd st)) \<and> distinct (rs_terminal (snd tt))"

lemma windows_match_length:
  "windows_match st tt \<Longrightarrow> length (rs_terminal (snd st)) = length (rs_terminal (snd tt))"
  using distinct_card [of "rs_terminal (snd st)"] distinct_card [of "rs_terminal (snd tt)"]
  by (simp add: windows_match_def state_sim_def res_sim_def)

lemma release_order_sim:
  assumes "state_sim st tt" "length (rs_terminal (snd st)) < terminal_tracked"
    "length (rs_terminal (snd tt)) < terminal_tracked"
  shows "state_sim (release_order st c) (release_order tt c)"
proof -
  have p: "map_of (rs_pending (snd st)) = map_of (rs_pending (snd tt))"
    using assms(1) by (simp add: state_sim_def res_sim_def dict_rel_eq)
  show ?thesis
    using assms p
    by (auto simp: state_sim_def release_order_def Let_def res_sim_def sleeve_sim_def add_terminal_set
        intro!: on_sleeve_sim dict_rel_delete split: option.splits prod.splits)
qed

definition closing :: "ledger_event \<Rightarrow> bool" where
  "closing ev = (case event_type_of (ev_type ev) of Inl e \<Rightarrow> False | Inr t \<Rightarrow> releases_reservation t)"

lemma apply_reservation_if:
  "apply_reservation st t data =
     (if get_opt data ''client_order_id'' = JNull then Inr st
      else if t = ORDER_SUBMITTED \<and> has_key data ''reserved''
        then (if py_str (get_opt data ''client_order_id'') \<in> set (rs_terminal (snd st)) \<or>
                 get_opt data ''sleeve_id'' = JNull then Inr st
              else bindR (decimal_str_field data ''reserved'') (\<lambda>amount.
                     Inr (reserve_order st (py_str (get_opt data ''client_order_id''))
                            (py_str (get_opt data ''sleeve_id'')) amount)))
      else if releases_reservation t then Inr (release_order st (py_str (get_opt data ''client_order_id'')))
      else Inr st)"
  unfolding apply_reservation_def Let_def
  by (cases "get_opt data ''client_order_id''"; cases "get_opt data ''sleeve_id''") simp_all

lemma apply_reservation_sim:
  assumes sim: "state_sim st tt"
    and room: "releases_reservation t \<Longrightarrow>
      length (rs_terminal (snd st)) < terminal_tracked \<and> length (rs_terminal (snd tt)) < terminal_tracked"
  shows "rel_sum (=) state_sim (apply_reservation st t data) (apply_reservation tt t data)"
proof -
  have "set (rs_terminal (snd st)) = set (rs_terminal (snd tt))"
    using sim by (simp add: state_sim_def res_sim_def)
  then show ?thesis
    using sim room reserve_order_sim [OF sim] release_order_sim [OF sim] unfolding apply_reservation_if
    by (cases "decimal_str_field data ''reserved''") auto
qed

lemma fold_step_sim:
  assumes sim: "state_sim st tt"
    and room: "closing ev \<Longrightarrow>
      length (rs_terminal (snd st)) < terminal_tracked \<and> length (rs_terminal (snd tt)) < terminal_tracked"
  shows "state_sim (fold_step st ev) (fold_step tt ev)"
proof (cases "event_postings ev")
  case (Inl e)
  then show ?thesis using sim by (simp add: fold_step_def apply_event_def state_sim_def acc_sim_def)
next
  case (Inr tps)
  obtain t ps where tps: "tps = (t, ps)" by (cases tps)
  have ty: "event_type_of (ev_type ev) = Inr t"
    using Inr by (auto simp: tps event_postings_def result_simps)
  have "rel_sum (=) state_sim (apply_reservation st t (ev_data ev)) (apply_reservation tt t (ev_data ev))"
    using sim room by (intro apply_reservation_sim) (simp_all add: closing_def ty)
  then consider e where "apply_reservation st t (ev_data ev) = Inl e" "apply_reservation tt t (ev_data ev) = Inl e"
    | s1 t1 where "apply_reservation st t (ev_data ev) = Inr s1" "apply_reservation tt t (ev_data ev) = Inr t1"
        "state_sim s1 t1"
    by (auto elim: rel_sum.cases)
  then show ?thesis
  proof cases
    case 1
    then show ?thesis using sim Inr by (simp add: fold_step_def apply_event_def tps state_sim_def acc_sim_def)
  next
    case 2
    then show ?thesis using Inr by (simp add: fold_step_def apply_event_def tps state_sim_def apply_postings_sim)
  qed
qed

lemma fold_step_closing:
  assumes "window_ok st"
  shows "length (rs_terminal (snd (fold_step st ev))) \<le>
    length (rs_terminal (snd st)) + (if closing ev then 1 else 0)"
proof (cases "apply_event st ev")
  case (Inr st2)
  then obtain t ps st1 where r: "apply_reservation st t (ev_data ev) = Inr st1"
      "event_type_of (ev_type ev) = Inr t" "st2 = (apply_postings (fst st1) ps, snd st1)"
    by (auto simp: apply_event_def event_postings_def result_simps)
  from r(1) show ?thesis
    by (cases rule: apply_reservation_cases)
      (auto simp: fold_step_def Inr r(2,3) closing_def add_terminal_def Let_def)
qed (simp add: fold_step_def)

lemma fold_sim:
  assumes "windows_match st tt" "window_ok st" "window_ok tt"
    and "length (rs_terminal (snd st)) + length (filter closing evs) \<le> terminal_tracked"
  shows "windows_match (fold_state_into st evs) (fold_state_into tt evs)"
  using assms
proof (induction evs arbitrary: st tt)
  case Nil
  then show ?case by (simp add: balance_fold.run_Nil)
next
  case (Cons ev evs)
  have "state_sim (fold_step st ev) (fold_step tt ev)"
    using Cons.prems windows_match_length [OF Cons.prems(1)]
    by (intro fold_step_sim) (auto simp: windows_match_def)
  moreover have w: "window_ok (fold_step st ev)" "window_ok (fold_step tt ev)"
    using Cons.prems window.inv_step by simp_all
  ultimately have "windows_match (fold_step st ev) (fold_step tt ev)"
    by (simp add: windows_match_def window_ok_def)
  with w show ?case
    unfolding balance_fold.run_Cons
    using Cons.prems(4) fold_step_closing [OF Cons.prems(2), of ev]
    by (intro Cons.IH) (auto split: if_splits)
qed

section \<open>The lot fold respects the lots it can see\<close>

lemma book_sim_refl [simp]: "book_sim b b"
  by (simp add: book_sim_def)

lemma book_sim_trans: "book_sim a b \<Longrightarrow> book_sim b c \<Longrightarrow> book_sim a c"
  by (simp add: book_sim_def)

lemmas book_reads = book_lots_modify book_lots_update dict_get_insert_lots dict_get_book dict_simps

definition outcome_sim :: "lot_outcome \<Rightarrow> lot_outcome \<Rightarrow> bool" where
  "outcome_sim r q \<longleftrightarrow> book_sim (fst r) (fst q) \<and> snd r = snd q"

lemma outcome_sim_Pair [simp]: "outcome_sim (b, e) (c, f) \<longleftrightarrow> book_sim b c \<and> e = f"
  by (simp add: outcome_sim_def)

lemma apply_split_sim: "book_sim b c \<Longrightarrow> outcome_sim (apply_split b data) (apply_split c data)"
  by (auto simp: apply_split_def Let_def book_sim_def book_reads split: sum.splits)

lemma apply_rename_sim: "book_sim b c \<Longrightarrow> outcome_sim (apply_rename b data seq) (apply_rename c data seq)"
  by (auto simp: apply_rename_def Let_def book_sim_def book_reads split: sum.splits)

lemma for_each_sim:
  assumes "\<And>b c x. book_sim b c \<Longrightarrow> outcome_sim (f b x) (f c x)" "book_sim b c"
  shows "outcome_sim (for_each f b xs) (for_each f c xs)"
  using assms(2)
proof (induction xs arbitrary: b c)
  case (Cons x xs)
  have "outcome_sim (f b x) (f c x)" using assms(1) Cons.prems by blast
  then show ?case
    using Cons.IH by (cases "f b x"; cases "f c x") (auto split: option.splits)
qed simp

lemma close_lot_sim: "book_sim b c \<Longrightarrow> outcome_sim (close_lot target b v) (close_lot target c v)"
  by (auto simp: close_lot_def book_sim_def book_reads split: sum.splits)

lemma close_position_sim:
  "book_sim b c \<Longrightarrow> outcome_sim (close_position target seq b v) (close_position target seq c v)"
  by (auto simp: close_position_def book_sim_def book_reads split: sum.splits option.splits)

lemma close_source_sim: "book_sim b c \<Longrightarrow> book_sim (close_source b data) (close_source c data)"
  by (cases "get_opt data ''sleeve_id''") (auto simp: close_source_def book_sim_def book_reads)

lemma close_into_sim:
  "book_sim b c \<Longrightarrow> outcome_sim (close_into data seq t b) (close_into data seq t c)"
  by (auto simp: close_into_def Let_def split: sum.splits intro: for_each_sim close_lot_sim close_position_sim)

lemma apply_sleeve_close_sim:
  assumes "book_sim b c"
  shows "outcome_sim (apply_sleeve_close b data seq) (apply_sleeve_close c data seq)"
proof -
  have "book_sim (dict_setdefault t [] (close_source b data)) (dict_setdefault t [] (close_source c data))" for t
    using close_source_sim [OF assms] by (simp add: book_sim_def)
  from close_into_sim [OF this] show ?thesis
    using close_source_sim [OF assms]
    by (cases "get_opt data ''to_position_sleeve_id''") (simp_all add: apply_sleeve_close_def)
qed

lemma lot_posting_sim: "book_sim b c \<Longrightarrow> outcome_sim (lot_posting seq b p) (lot_posting seq c p)"
  by (auto simp: lot_posting_def Let_def book_sim_def book_reads split: Bucket.splits option.splits sum.splits)

lemma lot_event_sim: "book_sim b c \<Longrightarrow> outcome_sim (lot_event b ev seq) (lot_event c ev seq)"
  by (auto simp: lot_event_def split: sum.splits
      intro: apply_split_sim apply_rename_sim apply_sleeve_close_sim for_each_sim lot_posting_sim)

lemma fold_lots_sim: "book_sim b c \<Longrightarrow> book_sim (fold_lots b evs) (fold_lots c evs)"
proof -
  have "book_sim b c \<Longrightarrow> book_sim (foldl lot_step b ievs) (foldl lot_step c ievs)" for ievs
  proof (induction ievs arbitrary: b c)
    case (Cons iev ievs)
    have "book_sim (lot_step b iev) (lot_step c iev)"
      using lot_event_sim [OF Cons.prems] by (simp add: lot_step_def outcome_sim_def)
    then show ?case using Cons.IH by simp
  qed simp
  then show "book_sim b c \<Longrightarrow> book_sim (fold_lots b evs) (fold_lots c evs)" by (simp add: fold_lots_def)
qed

section \<open>The book stays a dictionary of dictionaries\<close>

lemma book_wf_modify:
  assumes "book_wf b" "\<And>d. wf_dict d \<Longrightarrow> wf_dict (f d)"
  shows "book_wf (dict_modify sid [] f b)"
proof -
  have "wf_dict (dict_get b sid [])" using assms(1) unfolding book_wf_def
    by (intro all_vals_get [where P = wf_dict]) simp_all
  then show ?thesis
    using assms unfolding book_wf_def by (intro conjI wf_dict_modify all_vals_modify [where P = wf_dict]) simp_all
qed

lemma book_wf_setdefault: "book_wf b \<Longrightarrow> book_wf (dict_setdefault sid [] b)"
  unfolding book_wf_def by (auto simp: dict_setdefault_def list_all_iff map_of_eq_None_iff split: option.splits)

lemma book_wf_clear: "book_wf b \<Longrightarrow> book_wf (AList.update sid [] b)"
  unfolding book_wf_def by (auto intro: all_vals_update [where P = wf_dict])

lemmas book_wf_intros = book_wf_modify book_wf_setdefault book_wf_clear

lemma wf_dict_insert_lots: "wf_dict d \<Longrightarrow> wf_dict (insert_lots y ls d)"
  by (simp add: insert_lots_def)

lemma for_each_wf:
  assumes "\<And>b x. book_wf b \<Longrightarrow> book_wf (fst (f b x))" "book_wf b"
  shows "book_wf (fst (for_each f b xs))"
  using assms(2)
proof (induction xs arbitrary: b)
  case (Cons x xs)
  have "book_wf (fst (f b x))" using assms(1) Cons.prems by blast
  then show ?case using Cons.IH by (auto split: prod.splits option.splits)
qed simp

lemma apply_split_wf: "book_wf b \<Longrightarrow> book_wf (fst (apply_split b data))"
  by (auto simp: apply_split_def Let_def intro!: book_wf_intros split: sum.splits)

lemma apply_rename_wf: "book_wf b \<Longrightarrow> book_wf (fst (apply_rename b data seq))"
  by (auto simp: apply_rename_def Let_def intro!: book_wf_intros wf_dict_insert_lots split: sum.splits)

lemma close_lot_wf: "book_wf b \<Longrightarrow> book_wf (fst (close_lot t b v))"
  by (auto simp: close_lot_def intro!: book_wf_intros wf_dict_insert_lots split: sum.splits)

lemma close_position_wf: "book_wf b \<Longrightarrow> book_wf (fst (close_position t seq b v))"
  by (auto simp: close_position_def intro!: book_wf_intros wf_dict_insert_lots split: sum.splits option.splits)

lemma close_source_wf: "book_wf b \<Longrightarrow> book_wf (close_source b data)"
  by (cases "get_opt data ''sleeve_id''") (simp_all add: close_source_def book_wf_clear)

lemma close_into_wf: "book_wf b \<Longrightarrow> book_wf (fst (close_into data seq t b))"
  by (auto simp: close_into_def Let_def split: sum.splits intro!: for_each_wf close_lot_wf close_position_wf)

lemma apply_sleeve_close_wf: "book_wf b \<Longrightarrow> book_wf (fst (apply_sleeve_close b data seq))"
  by (cases "get_opt data ''to_position_sleeve_id''")
    (simp_all add: apply_sleeve_close_def close_source_wf close_into_wf book_wf_setdefault)

lemma lot_posting_wf: "book_wf b \<Longrightarrow> book_wf (fst (lot_posting seq b p))"
  by (auto simp: lot_posting_def Let_def intro!: book_wf_intros split: Bucket.splits option.splits sum.splits)

lemma lot_step_wf: "book_wf b \<Longrightarrow> book_wf (lot_step b iev)"
  by (auto simp: lot_step_def lot_event_def split: sum.splits
      intro: apply_split_wf apply_rename_wf apply_sleeve_close_wf for_each_wf lot_posting_wf)

interpretation wf_lots: invariant_fold lot_step "\<lambda>book ievs. foldl lot_step book ievs" book_wf "\<lambda>_. True"
  by unfold_locales (rule lot_step_wf)

lemma fold_lots_wf: "book_wf b \<Longrightarrow> book_wf (fold_lots b evs)"
  unfolding fold_lots_def by (rule wf_lots.inv_run) (simp_all add: list_all_iff)

section \<open>The cache\<close>

lemma set_keys_delete: "set (keys (AList.delete k d)) = set (keys d) - {k}"
  by (induction d) auto

lemma cache_put_bound: "length (cache_put key cp cache) \<le> max_cached_accounts"
  by (simp add: cache_put_def Let_def)

lemma cache_put_wf: "wf_dict cache \<Longrightarrow> wf_dict (cache_put key cp cache)"
proof -
  assume "wf_dict cache"
  then have "wf_dict (AList.delete key cache @ [(key, cp)])" using set_keys_delete [of key cache] by simp
  then show ?thesis unfolding cache_put_def Let_def by (simp only: drop_map [symmetric] distinct_drop)
qed

lemma map_of_drop: "wf_dict d \<Longrightarrow> map_of (drop n d) k = Some v \<Longrightarrow> map_of d k = Some v"
  using set_drop_subset [of n d] by (auto dest: map_of_SomeD)

lemma cache_put_get:
  assumes "wf_dict cache" "map_of (cache_put key cp cache) k = Some c"
  shows "k = key \<and> c = cp \<or> k \<noteq> key \<and> map_of cache k = Some c"
proof -
  have "wf_dict (AList.delete key cache @ [(key, cp)])"
    using assms(1) set_keys_delete [of key cache] by simp
  from map_of_drop [OF this] assms(2)
  have "map_of (AList.delete key cache @ [(key, cp)]) k = Some c"
    unfolding cache_put_def Let_def by blast
  then show ?thesis
    by (auto simp: AList.delete_conv' map_add_def fun_upd_def split: if_splits option.splits)
qed

lemma cache_put_newest: "map_of (cache_put key cp cache) key = Some cp"
proof -
  let ?m = "AList.delete key cache @ [(key, cp)]"
  have "drop (length ?m - max_cached_accounts) ?m = drop (length ?m - max_cached_accounts) (AList.delete key cache) @ [(key, cp)]"
    by (simp add: max_cached_accounts_def)
  moreover have "map_of (drop n (AList.delete key cache)) key = None" for n
    using set_drop_subset [of n "AList.delete key cache"] set_keys_delete [of key cache]
    by (auto simp: map_of_eq_None_iff)
  ultimately show ?thesis unfolding cache_put_def Let_def by (simp add: map_add_def)
qed

section \<open>The incremental projection equals the full fold\<close>

abbreviation start :: fold_state where
  "start \<equiv> (empty_account, empty_reservations)"

definition log_upto :: "int \<Rightarrow> ledger_event list \<Rightarrow> ledger_event list" where
  "log_upto n evs = filter (\<lambda>r. seq_of r \<le> n) evs"

definition ordered_log :: "ledger_event list \<Rightarrow> bool" where
  "ordered_log evs \<longleftrightarrow>
     sorted_wrt (<) (map seq_of evs) \<and> list_all (\<lambda>r. ev_sequence r \<noteq> None \<and> 0 < seq_of r) evs"

definition cp_ok :: "ledger_event list \<Rightarrow> checkpoint \<Rightarrow> bool" where
  "cp_ok evs cp \<longleftrightarrow>
     windows_match (fold_state_into start (log_upto (cp_sequence cp) evs)) (cp_state cp) \<and>
     window_ok (cp_state cp) \<and> state_wf (cp_state cp) \<and>
     book_sim (fold_lots [] (log_upto (cp_sequence cp) evs)) (cp_lots cp) \<and> book_wf (cp_lots cp) \<and>
     cp_sequence cp \<in> insert 0 (seq_of ` set evs)"

definition caches_ok :: "'db projector_env \<Rightarrow> 'db \<Rightarrow> checkpoint_cache \<Rightarrow> checkpoint_table \<Rightarrow> bool" where
  "caches_ok env db cache table \<longleftrightarrow>
     wf_dict cache \<and>
     (\<forall>t a cp. map_of cache (t, a) = Some cp \<longrightarrow> cp_ok (read_account_events (pe_rows env) db t a) cp) \<and>
     (\<forall>t a n st lots. load_checkpoint table t a = Inr (Some (n, st, lots)) \<longrightarrow>
        cp_ok (read_account_events (pe_rows env) db t a) \<lparr>cp_sequence = n, cp_state = st, cp_lots = lots\<rparr>)"

lemma ordered_read:
  assumes "store_ok (rows db)"
  shows "ordered_log (read_account_events rows db tenant account)"
  using assms unfolding read_account_events_eq [where rows = rows, OF assms]
  by (auto simp: ordered_log_def store_ok_def valid_row_def list_all_iff sorted_filter_rows)

lemma split_sorted:
  fixes f :: "'a \<Rightarrow> int"
  assumes "sorted_wrt (<) (map f xs)"
  shows "filter (\<lambda>x. f x \<le> n) xs @ filter (\<lambda>x. n < f x) xs = xs"
  using assms
proof (induction xs)
  case (Cons x xs)
  show ?case
  proof (cases "f x \<le> n")
    case True
    with Cons show ?thesis by simp
  next
    case False
    then have "filter (\<lambda>x. f x \<le> n) xs = []" "filter (\<lambda>x. n < f x) xs = xs"
      using Cons.prems by (auto simp: filter_empty_conv intro!: filter_True)
    with False show ?thesis by simp
  qed
qed simp

lemma partition_append:
  "partition_at_window delta cutoff = (safe, tail) \<Longrightarrow> delta = safe @ tail"
  by (induction delta cutoff arbitrary: safe tail rule: partition_at_window.induct)
    (auto split: if_splits prod.splits)

lemma max_sequence_fold:
  assumes "list_all (\<lambda>r. ev_sequence r \<noteq> None) evs"
  shows "max_sequence evs = foldl max 0 (map seq_of evs)"
proof -
  have "foldl (\<lambda>m ev. case ev_sequence ev of None \<Rightarrow> m | Some n \<Rightarrow> max m n) i evs = foldl max i (map seq_of evs)" for i
    using assms by (induction evs arbitrary: i) (auto simp: seq_of_def)
  then show ?thesis by (simp add: max_sequence_def)
qed

lemma foldl_max_upper: "list_all (\<lambda>x. x \<le> foldl max i xs) xs \<and> i \<le> foldl max i xs" for i :: int
proof (induction xs arbitrary: i)
  case (Cons x xs)
  from Cons [of "max i x"] show ?case by (auto simp: list_all_iff)
qed simp

lemma foldl_max_in: "foldl max i xs \<in> insert i (set xs)" for i :: int
proof (induction xs arbitrary: i)
  case (Cons x xs)
  from Cons [of "max i x"] show ?case by (auto simp: max_def)
qed simp

text \<open>The checkpoint sequence names exactly the events folded so far.\<close>

lemma upto_safe:
  assumes log: "ordered_log evs" and evs: "filter (\<lambda>r. n < seq_of r) evs = safe @ tail" and ne: "safe \<noteq> []"
  shows "log_upto (max_sequence safe) evs = log_upto n evs @ safe" and "max_sequence safe \<in> seq_of ` set evs"
proof -
  define m where "m = max_sequence safe"
  have all: "evs = log_upto n evs @ safe @ tail"
    using split_sorted [of seq_of evs n] log evs by (simp add: ordered_log_def log_upto_def)
  have sub: "set safe \<subseteq> set evs" using evs by (metis Un_upper1 filter_is_subset set_append subset_trans)
  have pos: "\<forall>r \<in> set safe. n < seq_of r \<and> ev_sequence r \<noteq> None \<and> 0 < seq_of r"
    using log sub evs filter_set [of "\<lambda>r. n < seq_of r" evs] by (auto simp: ordered_log_def list_all_iff)
  have m: "m = foldl max 0 (map seq_of safe)"
    unfolding m_def using pos by (intro max_sequence_fold) (simp add: list_all_iff)
  have up: "\<forall>r \<in> set safe. seq_of r \<le> m"
    using foldl_max_upper [of 0 "map seq_of safe"] by (simp add: m list_all_iff)
  then have "m \<noteq> 0" using pos ne by (metis last_in_set not_le)
  then obtain r where r: "r \<in> set safe" "m = seq_of r"
    using foldl_max_in [of 0 "map seq_of safe"] unfolding m by auto
  have srt: "sorted_wrt (<) (map seq_of (log_upto n evs @ safe @ tail))"
    using log all by (simp add: ordered_log_def)
  then have "\<forall>t \<in> set tail. m < seq_of t" using r by (auto simp: sorted_wrt_append)
  moreover have "\<forall>x \<in> set (log_upto n evs). seq_of x \<le> m" using r pos by (auto simp: log_upto_def)
  ultimately have "filter (\<lambda>x. seq_of x \<le> m) (log_upto n evs @ safe @ tail) = log_upto n evs @ safe"
    using up by (simp add: filter_empty_conv not_le)
  then show "log_upto (max_sequence safe) evs = log_upto n evs @ safe"
    using all unfolding m_def log_upto_def by metis
  show "max_sequence safe \<in> seq_of ` set evs" using r sub unfolding m_def by auto
qed

lemma fold_closing_bound:
  "window_ok st \<Longrightarrow> length (rs_terminal (snd (fold_state_into st evs))) \<le>
     length (rs_terminal (snd st)) + length (filter closing evs)"
proof (induction evs arbitrary: st)
  case Nil
  then show ?case by (simp add: balance_fold.run_Nil)
next
  case (Cons ev evs)
  have "window_ok (fold_step st ev)" using Cons.prems window.inv_step by simp
  from Cons.IH [OF this] fold_step_closing [OF Cons.prems, of ev] show ?case
    by (auto simp: balance_fold.run_Cons split: if_splits)
qed

lemma rs_terminal_empty [simp]: "rs_terminal empty_reservations = []"
  by (simp add: empty_reservations_def)

lemma window_ok_start [simp]: "window_ok start"
  by (simp add: window_ok_def)

lemma window_ok_fold: "window_ok st \<Longrightarrow> window_ok (fold_state_into st evs)"
  by (rule window.inv_run) (simp_all add: list_all_iff)

lemma state_wf_fold: "state_wf st \<Longrightarrow> state_wf (fold_state_into st evs)"
  by (rule wf_state.inv_run) (simp_all add: list_all_iff)

text \<open>Folding more of the log onto a good checkpoint gives a good checkpoint.\<close>

lemma cp_ok_advance:
  assumes ok: "cp_ok evs cp" and log: "ordered_log evs"
    and more: "log_upto n evs = log_upto (cp_sequence cp) evs @ safe"
    and known: "n \<in> insert 0 (seq_of ` set evs)"
    and room: "length (filter closing evs) \<le> terminal_tracked"
  shows "cp_ok evs \<lparr>cp_sequence = n, cp_state = fold_state_into (cp_state cp) safe,
      cp_lots = fold_lots (cp_lots cp) safe\<rparr>"
proof -
  let ?pre = "log_upto (cp_sequence cp) evs"
  have c: "length (filter closing ?pre) + length (filter closing safe) \<le> length (filter closing evs)"
  proof -
    have "length (filter closing (log_upto n evs)) \<le> length (filter closing evs)"
      unfolding log_upto_def by (induction evs) auto
    then show ?thesis by (simp add: more)
  qed
  have "windows_match (fold_state_into (fold_state_into start ?pre) safe) (fold_state_into (cp_state cp) safe)"
    using ok room c fold_closing_bound [of start ?pre]
    by (intro fold_sim) (auto simp: cp_ok_def window_ok_fold)
  moreover have "fold_lots [] (?pre @ safe) = fold_lots (fold_lots [] ?pre) safe"
  proof (rule fold_lots_resume)
    have "set safe \<subseteq> set evs" using more by (metis Un_upper2 filter_is_subset set_append subset_trans log_upto_def)
    then show "list_all (\<lambda>ev. ev_sequence ev \<noteq> None) safe"
      using log by (auto simp: ordered_log_def list_all_iff)
  qed
  ultimately show ?thesis
    using ok known
    by (simp add: cp_ok_def more balance_fold.resume window_ok_fold state_wf_fold fold_lots_wf fold_lots_sim)
qed

lemma state_sim_refl [simp]: "state_sim st st"
  by (simp add: state_sim_def acc_sim_def res_sim_def dict_rel_refl)

lemma state_wf_start [simp]: "state_wf start"
  by (simp add: state_wf_def empty_account_def empty_reservations_def)

lemma cp_ok_empty:
  assumes "ordered_log evs"
  shows "cp_ok evs \<lparr>cp_sequence = 0, cp_state = start, cp_lots = []\<rparr>"
proof -
  have "log_upto 0 evs = []" using assms by (auto simp: ordered_log_def log_upto_def filter_empty_conv list_all_iff)
  then show ?thesis
    by (simp add: cp_ok_def balance_fold.run_Nil fold_lots_def windows_match_def book_wf_def)
qed

lemma seed_ok:
  assumes "store_ok (pe_rows env db)" "caches_ok env db cache table"
  obtains seed where "seed_checkpoint cache table tenant account = Inr seed"
    "\<And>after st lots. seed_parts seed = (after, st, lots) \<Longrightarrow>
       cp_ok (read_account_events (pe_rows env) db tenant account)
         \<lparr>cp_sequence = after, cp_state = st, cp_lots = lots\<rparr>"
    "map_of cache (tenant, account) \<noteq> None \<Longrightarrow> seed = map_of cache (tenant, account)"
proof (cases "map_of cache (tenant, account)")
  case (Some cp)
  then have "cp_ok (read_account_events (pe_rows env) db tenant account) cp"
    using assms(2) by (simp add: caches_ok_def)
  with Some show ?thesis
    by (intro that [of "Some cp"]; cases cp) (auto simp: seed_checkpoint_def seed_parts_def)
next
  case None
  obtain l where l: "load_checkpoint table tenant account = Inr l" using load_total by blast
  show ?thesis
  proof (rule that [of "map_option (\<lambda>(n, st, lots). \<lparr>cp_sequence = n, cp_state = st, cp_lots = lots\<rparr>) l"])
    fix after st lots
    assume s: "seed_parts (map_option (\<lambda>(n, st, lots). \<lparr>cp_sequence = n, cp_state = st, cp_lots = lots\<rparr>) l) =
        (after, st, lots)"
    show "cp_ok (read_account_events (pe_rows env) db tenant account)
         \<lparr>cp_sequence = after, cp_state = st, cp_lots = lots\<rparr>"
      using s l assms(2) cp_ok_empty [OF ordered_read [where rows = "pe_rows env", OF assms(1)]]
      by (cases l) (auto simp: seed_parts_def caches_ok_def)
  qed (use None l in \<open>simp_all add: seed_checkpoint_def\<close>)
qed

text \<open>What the two checkpoint levels hold after a pass.\<close>

lemma windows_match_trans:
  assumes "windows_match a b" "state_sim b c" "distinct (rs_terminal (snd c))"
  shows "windows_match a c"
proof -
  have "dict_rel sleeve_sim (acc_sleeves (fst a)) (acc_sleeves (fst c))"
  proof (rule dict_rel_trans)
    show "dict_rel sleeve_sim (acc_sleeves (fst a)) (acc_sleeves (fst b))"
      "dict_rel sleeve_sim (acc_sleeves (fst b)) (acc_sleeves (fst c))"
      using assms by (simp_all add: windows_match_def state_sim_def acc_sim_def)
    show "sleeve_sim x z" if "sleeve_sim x y" "sleeve_sim y z" for x y z
      using that by (simp add: sleeve_sim_def dict_rel_eq)
  qed
  then show ?thesis
    using assms by (auto simp: windows_match_def state_sim_def acc_sim_def res_sim_def dict_rel_eq)
qed

lemma window_ok_match: "windows_match a b \<Longrightarrow> window_ok a \<Longrightarrow> window_ok b"
  using windows_match_length [of a b] by (simp add: windows_match_def window_ok_def)

lemma load_other:
  "(t, a) \<noteq> (tenant, account) \<Longrightarrow>
   load_checkpoint (save_checkpoint jsonb table tenant account n st lots) t a = load_checkpoint table t a"
  by (auto simp: load_checkpoint_def save_checkpoint_def Let_def dict_simps split: option.splits)

lemma save_cp_ok:
  assumes laws: "jsonb_laws jsonb" and cp: "cp_ok evs cp"
    and old: "\<And>n st lots. load_checkpoint table tenant account = Inr (Some (n, st, lots)) \<Longrightarrow>
      cp_ok evs \<lparr>cp_sequence = n, cp_state = st, cp_lots = lots\<rparr>"
    and new: "load_checkpoint (save_checkpoint jsonb table tenant account (cp_sequence cp) (cp_state cp) (cp_lots cp))
      tenant account = Inr (Some (n, st, lots))"
  shows "cp_ok evs \<lparr>cp_sequence = n, cp_state = st, cp_lots = lots\<rparr>"
proof (cases "\<exists>row. map_of table (tenant, account) = Some row \<and> \<not> ck_sequence row \<le> cp_sequence cp")
  case True
  then have "load_checkpoint table tenant account = Inr (Some (n, st, lots))"
    using new by (auto simp: load_checkpoint_def save_checkpoint_def Let_def)
  then show ?thesis by (rule old)
next
  case False
  then have nw: "\<And>row. map_of table (tenant, account) = Some row \<Longrightarrow> ck_sequence row \<le> cp_sequence cp" by auto
  have wf: "state_wf (cp_state cp)" "book_wf (cp_lots cp)" using cp by (simp_all add: cp_ok_def)
  obtain tt book where
    l: "load_checkpoint (save_checkpoint jsonb table tenant account (cp_sequence cp) (cp_state cp) (cp_lots cp))
        tenant account = Inr (Some (cp_sequence cp, tt, book))"
      "state_sim (cp_state cp) tt" "distinct (rs_terminal (snd tt))" "state_wf tt" "book_sim (cp_lots cp) book" "book_wf book"
    using save_load [OF laws wf nw] by blast
  have eq: "n = cp_sequence cp" "st = tt" "lots = book" using new l(1) by auto
  let ?s = "fold_state_into start (log_upto (cp_sequence cp) evs)"
  have w: "windows_match ?s tt" using cp l(2,3) by (auto simp: cp_ok_def intro: windows_match_trans)
  from window_ok_match [OF this] have "window_ok tt" by (simp add: window_ok_fold)
  with w cp l(4-6) show ?thesis
    by (auto simp: cp_ok_def eq intro: book_sim_trans)
qed

lemma advance_ok:
  assumes laws: "jsonb_laws (pe_jsonb env)" and ok: "caches_ok env db cache table"
    and cp: "cp_ok (read_account_events (pe_rows env) db tenant account) cp"
    and adv: "advance_checkpoint env cache table tenant account after cp = (cache', table')"
  shows "caches_ok env db cache' table'"
proof -
  have cache': "cache' = cache \<or> cache' = cache_put (tenant, account) cp cache"
    using adv by (auto simp: advance_checkpoint_def split: option.splits if_splits)
  have wf: "wf_dict cache" using ok by (simp add: caches_ok_def)
  have "cp_ok (read_account_events (pe_rows env) db t a) c" if "map_of cache' (t, a) = Some c" for t a c
    using cache' that ok cp cache_put_get [OF wf, of "(tenant, account)" cp "(t, a)" c]
    by (auto simp: caches_ok_def)
  moreover have "wf_dict cache'" using cache' wf cache_put_wf by auto
  moreover have "cp_ok (read_account_events (pe_rows env) db t a) \<lparr>cp_sequence = n, cp_state = st, cp_lots = lots\<rparr>"
    if l: "load_checkpoint table' t a = Inr (Some (n, st, lots))" for t a n st lots
  proof (cases "table' = table \<or> (t, a) \<noteq> (tenant, account)")
    case True
    then have "load_checkpoint table t a = Inr (Some (n, st, lots))"
      using l adv load_other [of t a tenant account "pe_jsonb env" table "cp_sequence cp" "cp_state cp" "cp_lots cp"]
      unfolding advance_checkpoint_def by (auto split: if_splits)
    then show ?thesis using ok unfolding caches_ok_def by blast
  next
    case False
    then have tab: "table' = save_checkpoint (pe_jsonb env) table tenant account (cp_sequence cp) (cp_state cp) (cp_lots cp)"
      and ta: "t = tenant" "a = account"
      using adv by (auto simp: advance_checkpoint_def split: if_splits)
    have old: "cp_ok (read_account_events (pe_rows env) db tenant account)
        \<lparr>cp_sequence = m, cp_state = tt, cp_lots = ms\<rparr>"
      if "load_checkpoint table tenant account = Inr (Some (m, tt, ms))" for m tt ms
      using ok that unfolding caches_ok_def by blast
    show ?thesis
      unfolding ta
    proof (rule save_cp_ok [OF laws cp])
      show "load_checkpoint (save_checkpoint (pe_jsonb env) table tenant account (cp_sequence cp) (cp_state cp)
          (cp_lots cp)) tenant account = Inr (Some (n, st, lots))"
        using l unfolding ta tab .
    qed (rule old)
  qed
  ultimately show ?thesis by (auto simp: caches_ok_def)
qed

lemma delta_split:
  assumes "ordered_log evs"
  shows "evs = log_upto n evs @ filter (\<lambda>r. n < seq_of r) evs"
  using assms split_sorted [of seq_of evs n] by (simp add: ordered_log_def log_upto_def)

lemma incremental_state:
  assumes cp: "cp_ok evs \<lparr>cp_sequence = after, cp_state = st, cp_lots = lots\<rparr>" and log: "ordered_log evs"
    and room: "length (filter closing evs) \<le> terminal_tracked"
  shows "windows_match (fold_state_into start evs) (fold_state_into st (filter (\<lambda>r. after < seq_of r) evs))"
    and "book_sim (fold_lots [] evs) (fold_lots lots (filter (\<lambda>r. after < seq_of r) evs))"
proof -
  define m where "m = Max (insert 0 (set (map seq_of evs)))"
  have "log_upto m evs = evs" by (auto simp: log_upto_def m_def intro!: filter_True Max_ge)
  then have "log_upto m evs = log_upto after evs @ filter (\<lambda>r. after < seq_of r) evs"
    using delta_split [OF log, of after] by simp
  moreover have "m \<in> insert 0 (seq_of ` set evs)" unfolding m_def using Max_in [of "insert 0 (seq_of ` set evs)"] by simp
  ultimately have "cp_ok evs \<lparr>cp_sequence = m, cp_state = fold_state_into st (filter (\<lambda>r. after < seq_of r) evs),
      cp_lots = fold_lots lots (filter (\<lambda>r. after < seq_of r) evs)\<rparr>"
    using cp_ok_advance [OF cp log _ _ room, of m] by simp
  with \<open>log_upto m evs = evs\<close>
  show "windows_match (fold_state_into start evs) (fold_state_into st (filter (\<lambda>r. after < seq_of r) evs))"
    "book_sim (fold_lots [] evs) (fold_lots lots (filter (\<lambda>r. after < seq_of r) evs))"
    by (simp_all add: cp_ok_def)
qed

theorem incremental_correct:
  assumes store: "store_ok (pe_rows env db)" and laws: "jsonb_laws (pe_jsonb env)"
    and ok: "caches_ok env db cache table"
    and room: "length (filter closing (read_account_events (pe_rows env) db tenant account)) \<le> terminal_tracked"
  shows "\<exists>cache' table' acc.
    project_account_incremental env db cache table tenant account persist = Inr (cache', table', acc) \<and>
    acc_sim (project_account (pe_rows env) db tenant account) acc \<and> caches_ok env db cache' table'"
proof -
  let ?evs = "read_account_events (pe_rows env) db tenant account"
  obtain seed where seed: "seed_checkpoint cache table tenant account = Inr seed"
    "\<And>after st lots. seed_parts seed = (after, st, lots) \<Longrightarrow>
       cp_ok ?evs \<lparr>cp_sequence = after, cp_state = st, cp_lots = lots\<rparr>"
    by (rule seed_ok [OF store ok, of tenant account]) blast
  obtain after st lots where parts: "seed_parts seed = (after, st, lots)" by (cases "seed_parts seed") auto
  define delta where "delta = filter (\<lambda>r. after < seq_of r) ?evs"
  have since: "read_account_events_since (pe_rows env) db tenant account after = delta"
    unfolding delta_def by (rule read_account_events_since_eq [where rows = "pe_rows env", OF store])
  have log: "ordered_log ?evs" by (rule ordered_read [where rows = "pe_rows env", OF store])
  note cp = seed(2) [OF parts]
  have full: "acc_sim (project_account (pe_rows env) db tenant account) (fst (fold_state_into st delta))"
    using incremental_state(1) [OF cp log room]
    by (simp add: delta_def windows_match_def state_sim_def project_account_def fold_account_def fold_into_def)
  obtain safe tail where cut: "partition_at_window delta (pe_cutoff env) = (safe, tail)" by (cases "partition_at_window delta (pe_cutoff env)")
  note app = partition_append [OF cut]
  define n where "n = (if safe \<noteq> [] then max_sequence safe else after)"
  define cp' where "cp' = \<lparr>cp_sequence = n, cp_state = fold_state_into st safe, cp_lots = fold_lots lots safe\<rparr>"
  have "log_upto n ?evs = log_upto after ?evs @ safe" "n \<in> insert 0 (seq_of ` set ?evs)"
    using upto_safe [OF log, of after safe tail] app cp by (auto simp: n_def delta_def cp_ok_def)
  from cp_ok_advance [OF cp log _ this(2) room, of safe] this(1) have cp': "cp_ok ?evs cp'" by (simp add: cp'_def)
  obtain cache' table' where adv: "advance_checkpoint env cache table tenant account after cp' = (cache', table')"
    by (cases "advance_checkpoint env cache table tenant account after cp'")
  have res: "(if tail = [] then fst (fold_state_into st safe) else fst (fst (fold_into (fold_state_into st safe) tail))) =
      fst (fold_state_into st delta)"
    by (auto simp: app fold_into_def balance_fold.resume balance_fold.run_Nil)
  consider "map_of cache (tenant, account) \<noteq> None \<and> delta = []" | "\<not> persist" "\<not> (map_of cache (tenant, account) \<noteq> None \<and> delta = [])"
    | "persist" "\<not> (map_of cache (tenant, account) \<noteq> None \<and> delta = [])" by blast
  then show ?thesis
  proof cases
    case 1
    then show ?thesis
      using full ok by (simp add: project_account_incremental_def seed(1) parts since balance_fold.run_Nil)
  next
    case 2
    then show ?thesis
      using full ok by (auto simp: project_account_incremental_def seed(1) parts since fold_into_def)
  next
    case 3
    have "project_account_incremental env db cache table tenant account persist =
        Inr (cache', table', fst (fold_state_into st delta))"
      using 3 adv res
      by (auto simp: project_account_incremental_def seed(1) parts since cut fold_into_def fold_lots_into_def
          cp'_def n_def)
    then show ?thesis using full advance_ok [OF laws ok cp' adv] by blast
  qed
qed

lemma open_lots_incremental_correct:
  assumes store: "store_ok (pe_rows env db)" and ok: "caches_ok env db cache table"
    and room: "length (filter closing (read_account_events (pe_rows env) db tenant account)) \<le> terminal_tracked"
  shows "open_lots_incremental env db cache table tenant account sid y =
    Inr (open_lots (read_account_events (pe_rows env) db tenant account) sid y)"
proof -
  let ?evs = "read_account_events (pe_rows env) db tenant account"
  obtain seed where seed: "seed_checkpoint cache table tenant account = Inr seed"
    "\<And>after st lots. seed_parts seed = (after, st, lots) \<Longrightarrow>
       cp_ok ?evs \<lparr>cp_sequence = after, cp_state = st, cp_lots = lots\<rparr>"
    by (rule seed_ok [OF store ok, of tenant account]) blast
  obtain after st lots where parts: "seed_parts seed = (after, st, lots)" by (cases "seed_parts seed") auto
  have "book_sim (fold_lots [] ?evs) (fold_lots lots (filter (\<lambda>r. after < seq_of r) ?evs))"
    using incremental_state(2) [OF seed(2) [OF parts] ordered_read [where rows = "pe_rows env", OF store] room] .
  then show ?thesis
    by (simp add: open_lots_incremental_def seed(1) parts fold_lots_into_def open_lots_def book_sim_def
        read_account_events_since_eq [where rows = "pe_rows env", OF store])
qed

text \<open>Appending to the log keeps every checkpoint good.\<close>

lemma caches_ok_append:
  assumes laws: "table_laws ins (pe_rows env)" and store: "store_ok (pe_rows env db)"
    and ok: "caches_ok env db cache table"
    and app: "append_event ins (pe_rows env) fresh now db req = Inr (db', r, new)"
  shows "caches_ok env db' cache table"
proof -
  have "cp_ok (read_account_events (pe_rows env) db' t a) cp" if cp: "cp_ok (read_account_events (pe_rows env) db t a) cp" for t a cp
  proof (cases new)
    case False
    then have "pe_rows env db' = pe_rows env db" using append_event_Inr(1) [OF laws app] by simp
    then show ?thesis using cp by (simp add: read_account_events_def)
  next
    case True
    let ?evs = "read_account_events (pe_rows env) db t a"
    have r: "list_all (\<lambda>q. seq_of q < seq_of r) (pe_rows env db)" "0 < seq_of r"
      using append_event_Inr(1) [OF laws app] True by simp_all
    have "cp_sequence cp < seq_of r"
      using cp r unfolding cp_ok_def read_account_events_eq [where rows = "pe_rows env", OF store]
      by (auto simp: list_all_iff)
    then have "cp_ok (?evs @ [r]) cp" using cp by (auto simp: cp_ok_def log_upto_def)
    have app': "append_event ins (pe_rows env) fresh now db req = Inr (db', r, True)" using app True by simp
    show ?thesis
      using \<open>cp_ok (?evs @ [r]) cp\<close> project_append [OF laws store app'] cp by (cases "(t, a) = (ar_tenant req, ar_account req)") auto
  qed
  then show ?thesis using ok unfolding caches_ok_def by blast
qed

section \<open>The safety window\<close>

text \<open>
  \<open>committed\<close> marks the rows a reading of the log can see. Rows in flight are younger than the
  window. \<open>recent_tail\<close>: creation times follow the sequence at the cutoff.
\<close>

definition in_flight_recent :: "(ledger_event \<Rightarrow> bool) \<Rightarrow> int \<Rightarrow> ledger_event list \<Rightarrow> bool" where
  "in_flight_recent committed cutoff full \<longleftrightarrow> list_all (\<lambda>r. committed r \<or> recent_event cutoff r) full"

definition recent_tail :: "int \<Rightarrow> ledger_event list \<Rightarrow> bool" where
  "recent_tail cutoff full \<longleftrightarrow> sorted_wrt (\<lambda>r q. recent_event cutoff r \<longrightarrow> recent_event cutoff q) full"

lemma partition_recent:
  "list_all (recent_event cutoff) delta \<Longrightarrow> fst (partition_at_window delta cutoff) = []"
  by (cases delta) simp_all

lemma window_safe:
  assumes "in_flight_recent committed cutoff full" "recent_tail cutoff full"
  shows "\<exists>rest. full = fst (partition_at_window (filter committed full) cutoff) @ rest"
  using assms
proof (induction full)
  case (Cons r full)
  show ?case
  proof (cases "recent_event cutoff r")
    case True
    then have "list_all (recent_event cutoff) (filter committed (r # full))"
      using Cons.prems(2) by (auto simp: recent_tail_def list_all_iff)
    then show ?thesis by (simp only: partition_recent) simp
  next
    case False
    then have "committed r" using Cons.prems(1) by (simp add: in_flight_recent_def)
    moreover obtain rest where "full = fst (partition_at_window (filter committed full) cutoff) @ rest"
      using Cons by (auto simp: in_flight_recent_def recent_tail_def)
    ultimately show ?thesis
      using False by (auto split: prod.splits)
  qed
qed simp

end
