(* ===== verification/Repository.thy ===== *)
theory Repository
  imports Ledger_Writer
begin

text \<open>
  The sleeve repository (\<^verbatim>\<open>repositories.py\<close>, \<^verbatim>\<open>SqlSleeveRepository\<close>) and account
  and sleeve bootstrap (\<^verbatim>\<open>services/sleeve_service.py\<close>). The account and sleeve tables are
  lists of rows in creation order; a query that returns one row returns the first that matches.
  The store environment bundles what the services take from outside: the database statements of
  the writer, the hash behind \<^verbatim>\<open>deterministic_event_id\<close>, a fresh UUID and the clock.

  Bootstrap is idempotent (\<open>ensure_base_sleeves_idem\<close>, \<open>resolve_account_again\<close>) and
  \<^verbatim>\<open>resolve_account\<close> never books one broker account twice within a tenant
  (\<open>resolve_account_unique\<close>).
\<close>

record account_row =
  ac_id :: string
  ac_tenant :: string
  ac_credentials :: string
  ac_broker_id :: "string option"

record sleeve_row =
  sr_id :: string
  sr_tenant :: string
  sr_account :: string
  sr_type :: SleeveType
  sr_status :: SleeveStatus
  sr_name :: string
  sr_execution :: "string option"
  sr_allocated :: decimal

record 'db store_env =
  se_insert :: "'db insert_fun"
  se_rows :: "'db \<Rightarrow> ledger_event list"
  se_event_id :: "string \<Rightarrow> string"
  se_fresh :: string
  se_now :: int

definition store_append ::
  "'db store_env \<Rightarrow> 'db \<Rightarrow> append_request \<Rightarrow> ('db \<times> ledger_event \<times> bool) result" where
  "store_append env db req =
     append_event (se_insert env) (se_rows env) (se_fresh env) (se_now env) db req"

definition store_project :: "'db store_env \<Rightarrow> 'db \<Rightarrow> string \<Rightarrow> string \<Rightarrow> account_projection" where
  "store_project env db tenant account = project_account (se_rows env) db tenant account"

section \<open>Queries\<close>

definition get_account_by_credentials :: "account_row list \<Rightarrow> string \<Rightarrow> string \<Rightarrow> account_row option" where
  "get_account_by_credentials accounts tenant creds =
     find (\<lambda>a. ac_tenant a = tenant \<and> ac_credentials a = creds) accounts"

definition get_account_by_broker_id :: "account_row list \<Rightarrow> string \<Rightarrow> string \<Rightarrow> account_row option" where
  "get_account_by_broker_id accounts tenant broker =
     find (\<lambda>a. ac_tenant a = tenant \<and> ac_broker_id a = Some broker) accounts"

definition find_sleeve :: "sleeve_row list \<Rightarrow> string \<Rightarrow> string \<Rightarrow> sleeve_row option" where
  "find_sleeve sleeves tenant sid = find (\<lambda>s. sr_tenant s = tenant \<and> sr_id s = sid) sleeves"

definition get_sleeve_by_type ::
  "sleeve_row list \<Rightarrow> string \<Rightarrow> string \<Rightarrow> SleeveType \<Rightarrow> sleeve_row option" where
  "get_sleeve_by_type sleeves tenant account ty =
     find (\<lambda>s. sr_tenant s = tenant \<and> sr_account s = account \<and> sr_type s = ty \<and> sr_execution s = None)
       sleeves"

definition get_strategy_sleeve ::
  "sleeve_row list \<Rightarrow> string \<Rightarrow> string \<Rightarrow> string \<Rightarrow> sleeve_row option" where
  "get_strategy_sleeve sleeves tenant account execution =
     find (\<lambda>s. sr_tenant s = tenant \<and> sr_account s = account \<and> sr_type s = STRATEGY \<and>
               sr_execution s = Some execution) sleeves"

definition list_sleeves :: "sleeve_row list \<Rightarrow> string \<Rightarrow> string \<Rightarrow> sleeve_row list" where
  "list_sleeves sleeves tenant account =
     filter (\<lambda>s. sr_tenant s = tenant \<and> sr_account s = account) sleeves"

definition set_sleeve_status :: "sleeve_row list \<Rightarrow> string \<Rightarrow> SleeveStatus \<Rightarrow> sleeve_row list" where
  "set_sleeve_status sleeves sid st = map (\<lambda>s. if sr_id s = sid then s\<lparr>sr_status := st\<rparr> else s) sleeves"

definition set_account :: "account_row list \<Rightarrow> string \<Rightarrow> (account_row \<Rightarrow> account_row) \<Rightarrow> account_row list" where
  "set_account accounts aid f = map (\<lambda>a. if ac_id a = aid then f a else a) accounts"

section \<open>Account and sleeve bootstrap\<close>

definition adopt_broker_id :: "account_row list \<Rightarrow> account_row \<Rightarrow> string \<Rightarrow> account_row list" where
  "adopt_broker_id accounts account broker =
     (if ac_broker_id account = Some broker then accounts
      else if ac_broker_id account \<noteq> None then accounts
      else case get_account_by_broker_id accounts (ac_tenant account) broker of
             Some other \<Rightarrow> accounts
           | None \<Rightarrow> set_account accounts (ac_id account) (\<lambda>a. a\<lparr>ac_broker_id := Some broker\<rparr>))"

text \<open>The accounts table afterwards, the id of the resolved account and whether it was created.\<close>

definition resolve_account ::
  "string \<Rightarrow> account_row list \<Rightarrow> string \<Rightarrow> string \<Rightarrow> string option \<Rightarrow> account_row list \<times> string \<times> bool"
where
  "resolve_account fresh accounts tenant creds broker =
     (case get_account_by_credentials accounts tenant creds of
        Some account \<Rightarrow>
          ((case broker of None \<Rightarrow> accounts | Some b \<Rightarrow> adopt_broker_id accounts account b),
           ac_id account, False)
      | None \<Rightarrow>
          (let created = (accounts @ [\<lparr>ac_id = fresh, ac_tenant = tenant, ac_credentials = creds,
                                       ac_broker_id = broker\<rparr>], fresh, True)
           in case broker of
                None \<Rightarrow> created
              | Some b \<Rightarrow>
                  (case get_account_by_broker_id accounts tenant b of
                     Some relinked \<Rightarrow>
                       (set_account accounts (ac_id relinked) (\<lambda>a. a\<lparr>ac_credentials := creds\<rparr>),
                        ac_id relinked, False)
                   | None \<Rightarrow> created)))"

definition base_sleeves :: "(SleeveType \<times> string) list" where
  "base_sleeves = [(UNALLOCATED, ''Unallocated''), (MANUAL, ''Manual''), (UNMANAGED, ''Unmanaged'')]"

definition new_sleeve ::
  "string \<Rightarrow> account_row \<Rightarrow> SleeveType \<Rightarrow> string \<Rightarrow> string option \<Rightarrow> decimal \<Rightarrow> sleeve_row" where
  "new_sleeve sid account ty name execution allocated =
     \<lparr>sr_id = sid, sr_tenant = ac_tenant account, sr_account = ac_id account, sr_type = ty,
      sr_status = ACTIVE, sr_name = name, sr_execution = execution, sr_allocated = allocated\<rparr>"

text \<open>\<open>ids\<close> supplies the generated primary key for each base sleeve type.\<close>

definition ensure_base_sleeve ::
  "(SleeveType \<Rightarrow> string) \<Rightarrow> account_row \<Rightarrow> sleeve_row list \<Rightarrow> SleeveType \<times> string \<Rightarrow> sleeve_row list" where
  "ensure_base_sleeve ids account sleeves tn =
     (case get_sleeve_by_type sleeves (ac_tenant account) (ac_id account) (fst tn) of
        Some s \<Rightarrow> sleeves
      | None \<Rightarrow> sleeves @ [new_sleeve (ids (fst tn)) account (fst tn) (snd tn) None 0])"

definition ensure_base_sleeves ::
  "(SleeveType \<Rightarrow> string) \<Rightarrow> account_row \<Rightarrow> sleeve_row list \<Rightarrow> sleeve_row list" where
  "ensure_base_sleeves ids account sleeves = foldl (ensure_base_sleeve ids account) sleeves base_sleeves"

definition get_or_create_strategy_sleeve ::
  "string \<Rightarrow> account_row \<Rightarrow> sleeve_row list \<Rightarrow> string \<Rightarrow> string \<Rightarrow> decimal \<Rightarrow> sleeve_row list \<times> sleeve_row"
where
  "get_or_create_strategy_sleeve sid account sleeves execution name allocated =
     (case get_strategy_sleeve sleeves (ac_tenant account) (ac_id account) execution of
        Some s \<Rightarrow> (sleeves, s)
      | None \<Rightarrow>
          (let s = new_sleeve sid account STRATEGY name (Some execution) allocated
           in (sleeves @ [s], s)))"

section \<open>Bootstrap facts\<close>

lemma find_append: "find P (xs @ ys) = (case find P xs of None \<Rightarrow> find P ys | Some x \<Rightarrow> Some x)"
  by (induction xs) auto

lemma get_sleeve_by_type_ensure:
  "get_sleeve_by_type sleeves tenant aid ty = Some s \<Longrightarrow>
   get_sleeve_by_type (ensure_base_sleeve ids account sleeves tn) tenant aid ty = Some s"
  by (auto simp: ensure_base_sleeve_def get_sleeve_by_type_def find_append split: option.splits)

lemma get_sleeve_by_type_ensure_self:
  "get_sleeve_by_type (ensure_base_sleeve ids account sleeves (ty, name)) (ac_tenant account)
     (ac_id account) ty \<noteq> None"
  by (auto simp: ensure_base_sleeve_def get_sleeve_by_type_def find_append new_sleeve_def
      split: option.splits)

lemma ensure_base_sleeves_exist:
  assumes "ty \<in> fst ` set base_sleeves"
  shows "get_sleeve_by_type (ensure_base_sleeves ids account sleeves) (ac_tenant account)
    (ac_id account) ty \<noteq> None"
proof -
  have kept: "get_sleeve_by_type (foldl (ensure_base_sleeve ids account) ss tns) (ac_tenant account)
      (ac_id account) ty \<noteq> None"
    if "get_sleeve_by_type ss (ac_tenant account) (ac_id account) ty \<noteq> None" for ss tns
    using that by (induction tns arbitrary: ss) (auto dest: get_sleeve_by_type_ensure)
  have "get_sleeve_by_type (foldl (ensure_base_sleeve ids account) ss tns) (ac_tenant account)
      (ac_id account) ty \<noteq> None" if "ty \<in> fst ` set tns" for ss tns
    using that
  proof (induction tns arbitrary: ss)
    case (Cons tn tns)
    show ?case
    proof (cases "fst tn = ty")
      case True
      then show ?thesis
        using kept [OF get_sleeve_by_type_ensure_self [of ids account ss ty "snd tn"]]
        by (cases tn) auto
    next
      case False
      with Cons show ?thesis by auto
    qed
  qed simp
  with assms show ?thesis unfolding ensure_base_sleeves_def by blast
qed

lemma ensure_present:
  "get_sleeve_by_type sleeves (ac_tenant account) (ac_id account) (fst tn) \<noteq> None \<Longrightarrow>
   ensure_base_sleeve ids account sleeves tn = sleeves"
  by (auto simp: ensure_base_sleeve_def)

lemma ensure_base_sleeves_idem:
  "ensure_base_sleeves ids' account (ensure_base_sleeves ids account sleeves) =
     ensure_base_sleeves ids account sleeves"
proof -
  let ?s = "ensure_base_sleeves ids account sleeves"
  have "foldl (ensure_base_sleeve ids' account) ?s tns = ?s" if "set tns \<subseteq> set base_sleeves" for tns
    using that
  proof (induction tns)
    case (Cons tn tns)
    have "ensure_base_sleeve ids' account ?s tn = ?s"
      using Cons.prems by (intro ensure_present ensure_base_sleeves_exist) auto
    with Cons show ?case by simp
  qed simp
  then show ?thesis unfolding ensure_base_sleeves_def by blast
qed

definition brokers_unique :: "account_row list \<Rightarrow> bool" where
  "brokers_unique accounts \<longleftrightarrow>
     distinct (map (\<lambda>a. (ac_tenant a, ac_broker_id a)) (filter (\<lambda>a. ac_broker_id a \<noteq> None) accounts))"

lemma set_account_other: "aid \<notin> set (map ac_id accounts) \<Longrightarrow> set_account accounts aid f = accounts"
  by (induction accounts) (auto simp: set_account_def)

lemma set_account_Cons:
  "set_account (a # accounts) aid f = (if ac_id a = aid then f a else a) # set_account accounts aid f"
  by (simp add: set_account_def)

lemma set_broker_unique:
  assumes "brokers_unique accounts" "distinct (map ac_id accounts)"
    and "\<And>a. a \<in> set accounts \<Longrightarrow> ac_id a = aid \<Longrightarrow> ac_tenant a = t"
    and "\<And>a. a \<in> set accounts \<Longrightarrow> ac_tenant a = t \<Longrightarrow> ac_broker_id a \<noteq> Some b"
  shows "brokers_unique (set_account accounts aid (\<lambda>a. a\<lparr>ac_broker_id := Some b\<rparr>))"
  using assms
proof (induction accounts)
  case Nil
  then show ?case by (simp add: set_account_def)
next
  case (Cons a accounts)
  show ?case
  proof (cases "ac_id a = aid")
    case True
    then have "set_account accounts aid (\<lambda>a. a\<lparr>ac_broker_id := Some b\<rparr>) = accounts"
      using Cons.prems(2) by (intro set_account_other) auto
    with True Cons.prems show ?thesis
      by (auto simp: set_account_Cons brokers_unique_def split: if_splits)
  next
    case False
    have IH: "brokers_unique (set_account accounts aid (\<lambda>a. a\<lparr>ac_broker_id := Some b\<rparr>))"
      using Cons by (auto simp: brokers_unique_def split: if_splits)
    have "(ac_tenant a, ac_broker_id a) \<noteq> (ac_tenant x, ac_broker_id x)"
      if x: "x \<in> set (set_account accounts aid (\<lambda>a. a\<lparr>ac_broker_id := Some b\<rparr>))"
        and some: "ac_broker_id a \<noteq> None" for x
    proof -
      obtain y where y: "y \<in> set accounts" "x = (if ac_id y = aid then y\<lparr>ac_broker_id := Some b\<rparr> else y)"
        using x by (auto simp: set_account_def)
      show ?thesis
      proof (cases "ac_id y = aid")
        case True
        then have "ac_tenant x = t" "ac_broker_id x = Some b" using y Cons.prems(3) by auto
        with Cons.prems(4) [of a] show ?thesis by auto
      next
        case False
        then have "x = y" using y by simp
        with y(1) some Cons.prems(1) show ?thesis by (auto simp: brokers_unique_def)
      qed
    qed
    then have "ac_broker_id a \<noteq> None \<Longrightarrow> (ac_tenant a, ac_broker_id a) \<notin>
        (\<lambda>a. (ac_tenant a, ac_broker_id a)) `
          set (filter (\<lambda>a. ac_broker_id a \<noteq> None) (set_account accounts aid (\<lambda>a. a\<lparr>ac_broker_id := Some b\<rparr>)))"
      by (metis (no_types, lifting) filter_is_subset imageE subsetD)
    with False IH show ?thesis by (simp add: set_account_Cons brokers_unique_def)
  qed
qed

lemma set_credentials_unique:
  "brokers_unique (set_account accounts aid (\<lambda>a. a\<lparr>ac_credentials := c\<rparr>)) \<longleftrightarrow> brokers_unique accounts"
proof -
  let ?f = "\<lambda>a. if ac_id a = aid then a\<lparr>ac_credentials := c\<rparr> else a"
  have "map (\<lambda>a. (ac_tenant a, ac_broker_id a)) (filter (\<lambda>a. ac_broker_id a \<noteq> None) (map ?f accounts)) =
      map (\<lambda>a. (ac_tenant a, ac_broker_id a)) (filter (\<lambda>a. ac_broker_id a \<noteq> None) accounts)"
    by (induction accounts) auto
  then show ?thesis by (simp add: brokers_unique_def set_account_def)
qed

lemma find_None_all: "find P xs = None \<Longrightarrow> x \<in> set xs \<Longrightarrow> \<not> P x"
  by (auto simp: find_None_iff)

lemma resolve_account_unique:
  assumes "brokers_unique accounts" "distinct (map ac_id accounts)"
  shows "brokers_unique (fst (resolve_account fresh accounts tenant creds broker))"
proof (cases "get_account_by_credentials accounts tenant creds")
  case None
  have "brokers_unique (accounts @ [\<lparr>ac_id = fresh, ac_tenant = tenant, ac_credentials = creds,
      ac_broker_id = broker\<rparr>])"
    if "\<And>b. broker = Some b \<Longrightarrow> get_account_by_broker_id accounts tenant b = None"
    using assms(1) that
    by (cases broker) (auto simp: brokers_unique_def get_account_by_broker_id_def dest: find_None_all)
  with None assms(1) show ?thesis
    by (auto simp: resolve_account_def Let_def set_credentials_unique split: option.splits)
next
  case (Some account)
  then have acc: "account \<in> set accounts" "ac_tenant account = tenant"
    by (auto simp: get_account_by_credentials_def find_Some_iff)
  have uni: "ac_tenant a = ac_tenant account" if "a \<in> set accounts" "ac_id a = ac_id account" for a
    using assms(2) acc(1) that by (metis distinct_map inj_on_def)
  show ?thesis
    using assms Some uni
    by (auto simp: resolve_account_def adopt_broker_id_def get_account_by_broker_id_def
        intro!: set_broker_unique dest: find_None_all split: option.splits)
qed

text \<open>Resolving the same credentials again finds the account, creates nothing and relinks nothing.\<close>

lemma resolve_account_again:
  assumes "get_account_by_credentials accounts tenant creds = Some account"
  shows "resolve_account fresh accounts tenant creds None = (accounts, ac_id account, False)"
  using assms by (simp add: resolve_account_def)

lemma resolve_account_created:
  assumes "resolve_account fresh accounts tenant creds broker = (accounts', aid, True)"
  shows "aid = fresh \<and> (\<exists>a. accounts' = accounts @ [a] \<and> ac_tenant a = tenant \<and>
      ac_credentials a = creds \<and> ac_broker_id a = broker) \<and>
    get_account_by_credentials accounts tenant creds = None"
  using assms by (auto simp: resolve_account_def Let_def split: option.splits)

section \<open>The projection after an operation\<close>

lemma project_after_append:
  assumes "table_laws (se_insert env) (se_rows env)" "store_ok (se_rows env db)"
    and "store_append env db req = Inr (db', r, True)"
    and "build_postings (ar_type req) (ar_data req) = Inr ps"
    and "get_opt (ar_data req) ''client_order_id'' = JNull"
  shows "store_project env db' (ar_tenant req) (ar_account req) =
    apply_postings (store_project env db (ar_tenant req) (ar_account req)) ps"
proof -
  note app = assms(3) [unfolded store_append_def]
  note a = append_event_Inr [OF assms(1) app]
  have bal: "assert_balanced ps = Inr ()" using a(2) assms(4) by auto
  have st: "stored_as (new_row (se_fresh env) (se_now env) req) r" using a(1) by simp
  note nr = new_row_postings [OF assms(4) bal st]
  have "fst (fold_step stt r) = apply_postings (fst stt) ps" for stt
    using nr(1,2) assms(5) by (simp add: fold_step_def apply_event_def apply_reservation_def)
  then show ?thesis
    unfolding store_project_def project_account_def project_append(1) [OF assms(1,2) app] fold_account_snoc
    by (simp add: fold_account_def fold_into_def)
qed

lemma inserts_new:
  assumes "table_laws (se_insert env) (se_rows env)"
    and "build_postings (ar_type req) (ar_data req) = Inr ps" "assert_balanced ps = Inr ()"
    and "ev_id (new_row (se_fresh env) (se_now env) req) \<notin> set (map ev_id (se_rows env db))"
  obtains db' r where "store_append env db req = Inr (db', r, True)"
proof -
  obtain db' r new where app: "store_append env db req = Inr (db', r, new)"
    using append_event_total [OF assms(1-3)] unfolding store_append_def by blast
  have new
  proof (rule ccontr)
    assume "\<not> new"
    with append_event_Inr(1) [OF assms(1) app [unfolded store_append_def]] assms(4) show False
      by (auto simp: image_iff)
  qed
  with app show thesis using that by simp
qed

section \<open>Appending a batch\<close>

text \<open>The loops that append planned events one by one; an exception ends the transaction.\<close>

fun append_requests :: "'db store_env \<Rightarrow> 'db \<Rightarrow> append_request list \<Rightarrow> 'db result" where
  "append_requests env db [] = Inr db"
| "append_requests env db (req # reqs) =
     bindR (store_append env db req) (\<lambda>(db', r, new). append_requests env db' reqs)"

definition stored_id :: "'db store_env \<Rightarrow> append_request \<Rightarrow> string" where
  "stored_id env req = ev_id (new_row (se_fresh env) (se_now env) req)"

definition posts :: "append_request \<Rightarrow> posting list \<Rightarrow> bool" where
  "posts req ps \<longleftrightarrow>
     build_postings (ar_type req) (ar_data req) = Inr ps \<and> assert_balanced ps = Inr () \<and>
     get_opt (ar_data req) ''client_order_id'' = JNull"

lemma append_requests_project:
  assumes "table_laws (se_insert env) (se_rows env)" "store_ok (se_rows env db)"
    and "list_all2 posts reqs pss"
    and "list_all (\<lambda>req. ar_tenant req = tenant \<and> ar_account req = account) reqs"
    and "distinct (map (stored_id env) reqs)"
    and "set (map (stored_id env) reqs) \<inter> set (map ev_id (se_rows env db)) = {}"
  obtains db' where "append_requests env db reqs = Inr db'" "store_ok (se_rows env db')"
    "store_project env db' tenant account = foldl apply_postings (store_project env db tenant account) pss"
  using assms
proof (induction reqs arbitrary: db pss thesis)
  case Nil
  then show ?case by auto
next
  case (Cons req reqs)
  obtain ps pss' where pss: "pss = ps # pss'" "posts req ps" "list_all2 posts reqs pss'"
    using Cons.prems(4) by (auto simp: list_all2_Cons1)
  have p: "build_postings (ar_type req) (ar_data req) = Inr ps" "assert_balanced ps = Inr ()"
    "get_opt (ar_data req) ''client_order_id'' = JNull" using pss(2) by (simp_all add: posts_def)
  have fresh: "ev_id (new_row (se_fresh env) (se_now env) req) \<notin> set (map ev_id (se_rows env db))"
    using Cons.prems(7) by (auto simp: stored_id_def)
  obtain db1 r where app: "store_append env db req = Inr (db1, r, True)"
    using inserts_new [OF Cons.prems(2) p(1,2) fresh] .
  note a = append_event_Inr(1) [OF Cons.prems(2) app [unfolded store_append_def]]
  have rows: "se_rows env db1 = se_rows env db @ [r]" and
    st: "stored_as (new_row (se_fresh env) (se_now env) req) r" using a by simp_all
  have rid: "ev_id r = stored_id env req"
    using new_row_postings(5) [OF p(1,2) st] by (simp add: stored_id_def)
  have ok1: "store_ok (se_rows env db1)"
    using append_store_ok [OF Cons.prems(2,3) app [unfolded store_append_def]] .
  have proj: "store_project env db1 tenant account = apply_postings (store_project env db tenant account) ps"
    using project_after_append [OF Cons.prems(2,3) app p(1,3)] Cons.prems(5) by simp
  have d: "set (map (stored_id env) reqs) \<inter> set (map ev_id (se_rows env db1)) = {}"
    using Cons.prems(6,7) rid by (auto simp: rows image_iff)
  obtain db' where db': "append_requests env db1 reqs = Inr db'" "store_ok (se_rows env db')"
    "store_project env db' tenant account = foldl apply_postings (store_project env db1 tenant account) pss'"
    using Cons.IH [OF _ Cons.prems(2) ok1 pss(3) _ _ d] Cons.prems(5,6) by auto
  show ?case
  proof (rule Cons.prems(1))
    show "append_requests env db (req # reqs) = Inr db'" using app db'(1) by simp
  qed (use db' proj pss(1) in simp_all)
qed

end
