(* ===== verification/Ingestion.thy ===== *)
theory Ingestion
  imports Projector Repository
begin

text \<open>
  Fill ingestion: the translation of the trading service's messages into ledger appends
  (\<^verbatim>\<open>ledger/ingestion.py\<close>) and the transaction that books one of them
  (\<^verbatim>\<open>tasks/fill_ingestion.py\<close>: re-routing of fills for closed sleeves, FIFO enrichment of
  sells, append, freeze on a violated invariant, and the entry handler's classification of
  failures). A \<^verbatim>\<open>UUID\<close> is its canonical text; the hash that derives event ids, the
  clock and \<^verbatim>\<open>datetime.fromisoformat\<close> are parameters of the environment.

  \<^item> An enriched sell is balanced, so the writer accepts it (\<open>enriched_balanced\<close>); a sell is
    quarantined exactly when the open lots do not cover it (\<open>enrich_quarantine_iff\<close>).
  \<^item> No fill is booked on a closed sleeve of an account with an Unmanaged sleeve
    (\<open>reroute_not_closed\<close>), and after a fill is booked its sleeve is healthy or frozen
    (\<open>persist_healthy_or_frozen\<close>).
\<close>

section \<open>UUID texts\<close>

function remove_sub :: "string \<Rightarrow> string \<Rightarrow> string" where
  "remove_sub pat [] = []"
| "remove_sub pat (c # s) =
     (if pat \<noteq> [] \<and> take (length pat) (c # s) = pat then remove_sub pat (drop (length pat - 1) s)
      else c # remove_sub pat s)"
  by pat_completeness auto
termination by (relation "measure (\<lambda>(pat, s). length s)") auto

definition is_brace :: "char \<Rightarrow> bool" where
  "is_brace c \<longleftrightarrow> c = CHR 0x7B \<or> c = CHR 0x7D"

definition strip_braces :: "string \<Rightarrow> string" where
  "strip_braces s = rev (dropWhile is_brace (rev (dropWhile is_brace s)))"

definition is_hex :: "char \<Rightarrow> bool" where
  "is_hex c \<longleftrightarrow> is_digit c \<or> lower_char c \<in> set ''abcdef''"

definition uuid_layout :: "string \<Rightarrow> string" where
  "uuid_layout h =
     take 8 h @ ''-'' @ take 4 (drop 8 h) @ ''-'' @ take 4 (drop 12 h) @ ''-'' @ take 4 (drop 16 h) @
     ''-'' @ drop 20 h"

text \<open>\<^verbatim>\<open>UUID(text)\<close> on 32 hexadecimal digits, as its canonical text.\<close>

definition uuid_of_text :: "string \<Rightarrow> string result" where
  "uuid_of_text s =
     (let h = filter (\<lambda>c. c \<noteq> CHR ''-'') (strip_braces (remove_sub ''uuid:'' (remove_sub ''urn:'' s)))
      in if length h = 32 \<and> list_all is_hex h then Inr (uuid_layout (py_lower h)) else Inl ValueError)"

section \<open>Messages\<close>

record ledger_fill =
  lf_tenant :: string
  lf_account :: string
  lf_sleeve :: string
  lf_client_order_id :: string
  lf_symbol :: string
  lf_side :: string
  lf_qty :: string
  lf_price :: string
  lf_fees :: string
  lf_cost_basis :: string
  lf_realized_pnl :: string
  lf_order_id :: string
  lf_filled_at :: string

record ledger_reservation =
  lr_event_type :: string
  lr_tenant :: string
  lr_account :: string
  lr_sleeve :: string
  lr_client_order_id :: string
  lr_symbol :: string
  lr_side :: string
  lr_reserved :: string
  lr_order_id :: string

datatype ledger_message = Fill ledger_fill | Reservation ledger_reservation

record ledger_append =
  la_tenant :: string
  la_account :: string
  la_sleeve :: string
  la_type :: LedgerEventType
  la_data :: payload
  la_event_id :: string
  la_occurred_at :: int

record ingest_env =
  ie_event_id :: "string \<Rightarrow> string"
  ie_now :: int
  ie_iso :: "string \<Rightarrow> int option"

definition lifecycle_event_types :: "(string, LedgerEventType) dict" where
  "lifecycle_event_types =
     [(''order_submitted'', ORDER_SUBMITTED), (''order_cancelled'', ORDER_CANCELLED),
      (''order_rejected'', ORDER_REJECTED)]"

definition require_field :: "string \<Rightarrow> string result" where
  "require_field v = (if v = [] then Inl ValueError else Inr v)"

definition optional_fields :: "(string \<times> string) list \<Rightarrow> payload" where
  "optional_fields nvs = map (\<lambda>(n, v). (n, JStr v)) (filter (\<lambda>(n, v). v \<noteq> []) nvs)"

text \<open>\<^verbatim>\<open>raw.replace("Z", "+00:00")\<close>\<close>

definition expand_z :: "string \<Rightarrow> string" where
  "expand_z s = concat (map (\<lambda>c. if c = CHR ''Z'' then ''+00:00'' else [c]) s)"

definition parse_ts :: "ingest_env \<Rightarrow> string option \<Rightarrow> int" where
  "parse_ts env raw =
     (case raw of
        None \<Rightarrow> ie_now env
      | Some s \<Rightarrow> (case ie_iso env (expand_z s) of Some t \<Rightarrow> t | None \<Rightarrow> ie_now env))"

definition fill_to_append :: "ingest_env \<Rightarrow> ledger_fill \<Rightarrow> ledger_append result" where
  "fill_to_append env fill =
     bindR (require_field (lf_client_order_id fill)) (\<lambda>coid.
     bindR (require_field (lf_sleeve fill)) (\<lambda>sleeve.
     bindR (require_field (lf_symbol fill)) (\<lambda>symbol.
     bindR (require_field (lf_side fill)) (\<lambda>side.
     bindR (require_field (lf_qty fill)) (\<lambda>qty.
     bindR (require_field (lf_price fill)) (\<lambda>price.
     let data = [(''sleeve_id'', JStr sleeve), (''symbol'', JStr symbol), (''side'', JStr (py_lower side)),
                 (''qty'', JStr qty), (''price'', JStr price), (''client_order_id'', JStr coid)] @
                optional_fields [(''fees'', lf_fees fill), (''cost_basis'', lf_cost_basis fill),
                                 (''realized_pnl'', lf_realized_pnl fill), (''order_id'', lf_order_id fill)]
     in bindR (bindR (require_field (lf_tenant fill)) uuid_of_text) (\<lambda>tenant.
        bindR (bindR (require_field (lf_account fill)) uuid_of_text) (\<lambda>account.
        bindR (uuid_of_text sleeve) (\<lambda>sleeve_id.
          Inr \<lparr>la_tenant = tenant, la_account = account, la_sleeve = sleeve_id, la_type = ORDER_FILLED,
               la_data = data, la_event_id = ie_event_id env coid,
               la_occurred_at = parse_ts env (Some (lf_filled_at fill))\<rparr>)))))))))"

definition reservation_to_append :: "ingest_env \<Rightarrow> ledger_reservation \<Rightarrow> ledger_append result" where
  "reservation_to_append env r =
     bindR (require_field (lr_event_type r)) (\<lambda>raw_kind.
     let kind = py_lower raw_kind
     in case map_of lifecycle_event_types kind of
          None \<Rightarrow> Inl ValueError
        | Some t \<Rightarrow>
            bindR (require_field (lr_client_order_id r)) (\<lambda>coid.
            bindR (require_field (lr_sleeve r)) (\<lambda>sleeve.
            let data = [(''sleeve_id'', JStr sleeve), (''client_order_id'', JStr coid)] @
                       optional_fields [(''symbol'', lr_symbol r), (''side'', lr_side r),
                                        (''reserved'', lr_reserved r), (''order_id'', lr_order_id r)]
            in bindR (bindR (require_field (lr_tenant r)) uuid_of_text) (\<lambda>tenant.
               bindR (bindR (require_field (lr_account r)) uuid_of_text) (\<lambda>account.
               bindR (uuid_of_text sleeve) (\<lambda>sleeve_id.
                 Inr \<lparr>la_tenant = tenant, la_account = account, la_sleeve = sleeve_id, la_type = t,
                      la_data = data, la_event_id = ie_event_id env (coid @ '':'' @ kind),
                      la_occurred_at = parse_ts env None\<rparr>))))))"

fun append_from_message :: "ingest_env \<Rightarrow> ledger_message \<Rightarrow> ledger_append result" where
  "append_from_message env (Reservation r) = reservation_to_append env r"
| "append_from_message env (Fill f) = fill_to_append env f"

definition needs_cost_basis :: "ledger_append \<Rightarrow> bool" where
  "needs_cost_basis app \<longleftrightarrow>
     la_type app = ORDER_FILLED \<and> get_opt (la_data app) ''side'' = JStr ''sell'' \<and>
     \<not> has_key (la_data app) ''cost_basis''"

text \<open>
  The catch clause turns the selection's \<^verbatim>\<open>ValueError\<close> into a quarantine; the reads of
  quantity, price and fees are outside of it.
\<close>

definition enrich_sell_fill :: "ledger_append \<Rightarrow> lot list \<Rightarrow> ledger_append result" where
  "enrich_sell_fill app lots =
     (if \<not> needs_cost_basis app then Inr app
      else
        bindR (decimal_str_field (la_data app) ''qty'') (\<lambda>qty.
        bindR (case select_lots_fifo lots qty of
                 Inl e \<Rightarrow> Inl (if e = ValueError then FillQuarantineError else e)
               | Inr res \<Rightarrow> Inr res) (\<lambda>res.
        bindR (decimal_str_field (la_data app) ''price'') (\<lambda>price.
        bindR (if has_key (la_data app) ''fees'' then decimal_str_field (la_data app) ''fees'' else Inr 0) (\<lambda>fees.
          let realized = qty * price - fr_closed_cost res - fees;
              priced = AList.update ''cost_basis'' (JStr (dec_str (fr_closed_cost res))) (la_data app)
          in Inr (app\<lparr>la_data := dict_setdefault ''realized_pnl'' (JStr (dec_str realized)) priced\<rparr>))))))"

section \<open>Booking a message\<close>

definition reroute_if_sleeve_closed :: "sleeve_row list \<Rightarrow> ledger_append \<Rightarrow> ledger_append" where
  "reroute_if_sleeve_closed sleeves app =
     (case find_sleeve sleeves (la_tenant app) (la_sleeve app) of
        None \<Rightarrow> app
      | Some sleeve \<Rightarrow>
          if sr_status sleeve \<noteq> CLOSED then app
          else case get_sleeve_by_type sleeves (la_tenant app) (la_account app) UNMANAGED of
                 None \<Rightarrow> app
               | Some unmanaged \<Rightarrow>
                   app\<lparr>la_sleeve := sr_id unmanaged,
                       la_data := AList.update ''sleeve_id'' (JStr (sr_id unmanaged)) (la_data app)\<rparr>)"

definition fill_request :: "ledger_append \<Rightarrow> append_request" where
  "fill_request app =
     \<lparr>ar_tenant = la_tenant app, ar_account = la_account app, ar_type = la_type app, ar_data = la_data app,
      ar_sleeve = Some (la_sleeve app), ar_event_id = Some (la_event_id app),
      ar_occurred_at = Some (la_occurred_at app)\<rparr>"

definition em_dash :: string where
  "em_dash = [CHR 0xE2, CHR 0x80, CHR 0x94]"

definition violation_text :: "invariant_violation list \<Rightarrow> string" where
  "violation_text vs = join ''; '' (map (\<lambda>v. iv_kind v @ ''('' @ iv_detail v @ '')'') vs)"

definition freeze_request :: "ledger_append \<Rightarrow> string \<Rightarrow> string \<Rightarrow> append_request" where
  "freeze_request app reason event_id =
     \<lparr>ar_tenant = la_tenant app, ar_account = la_account app, ar_type = SLEEVE_FROZEN,
      ar_data = [(''sleeve_id'', JStr (la_sleeve app)),
                 (''reason'', JStr (''invariant violation '' @ em_dash @ '' '' @ reason))],
      ar_sleeve = Some (la_sleeve app), ar_event_id = Some event_id, ar_occurred_at = None\<rparr>"

record ingest_state =
  is_cache :: checkpoint_cache
  is_table :: checkpoint_table
  is_sleeves :: "sleeve_row list"

definition freeze_if_invariant_violated ::
  "'db store_env \<Rightarrow> 'db projector_env \<Rightarrow> 'db \<Rightarrow> ingest_state \<Rightarrow> ledger_append \<Rightarrow> ('db \<times> ingest_state) result"
where
  "freeze_if_invariant_violated env penv db st app =
     bindR (project_account_incremental penv db (is_cache st) (is_table st) (la_tenant app) (la_account app) False)
       (\<lambda>(cache, table, projection).
       let violations = check_sleeve_invariants (get_sleeve projection (la_sleeve app))
       in if violations = [] then Inr (db, st)
          else case find_sleeve (is_sleeves st) (la_tenant app) (la_sleeve app) of
                 None \<Rightarrow> Inr (db, st)
               | Some sleeve \<Rightarrow>
                   if sr_status sleeve = FROZEN then Inr (db, st)
                   else
                     bindR (store_append env db (freeze_request app (violation_text violations)
                              (se_event_id env (la_event_id app @ '':invariant_freeze'')))) (\<lambda>(db', r, new).
                       Inr (db', st\<lparr>is_sleeves := set_sleeve_status (is_sleeves st) (sr_id sleeve) FROZEN\<rparr>)))"

text \<open>One transaction: an exception rolls back every write, so only its class leaves.\<close>

definition persist_append ::
  "'db store_env \<Rightarrow> 'db projector_env \<Rightarrow> 'db \<Rightarrow> ingest_state \<Rightarrow> ledger_append \<Rightarrow> ('db \<times> ingest_state) result"
where
  "persist_append env penv db st app =
     (let routed = reroute_if_sleeve_closed (is_sleeves st) app
      in bindR (if needs_cost_basis routed
                then bindR (str_field (la_data routed) ''symbol'') (\<lambda>symbol.
                     bindR (open_lots_incremental penv db (is_cache st) (is_table st) (la_tenant routed)
                              (la_account routed) (la_sleeve routed) symbol) (\<lambda>lots.
                       enrich_sell_fill routed lots))
                else Inr routed) (\<lambda>final.
         bindR (store_append env db (fill_request final)) (\<lambda>(db', r, new).
           if la_type final = ORDER_FILLED then freeze_if_invariant_violated env penv db' st final
           else Inr (db', st))))"

datatype entry_outcome = Success | Quarantined | Poison | Retry

text \<open>
  The entry handler: an untranslatable message and a quarantined fill are declared poison and
  parked; every other exception is transient and retried in place.
\<close>

definition handle_entry ::
  "ingest_env \<Rightarrow> 'db store_env \<Rightarrow> 'db projector_env \<Rightarrow> 'db \<Rightarrow> ingest_state \<Rightarrow> ledger_message \<Rightarrow>
   'db \<times> ingest_state \<times> entry_outcome" where
  "handle_entry ienv env penv db st message =
     (case append_from_message ienv message of
        Inl e \<Rightarrow> (db, st, Poison)
      | Inr app \<Rightarrow>
          (case persist_append env penv db st app of
             Inl FillQuarantineError \<Rightarrow> (db, st, Quarantined)
           | Inl e \<Rightarrow> (db, st, Retry)
           | Inr (db', st') \<Rightarrow> (db', st', Success)))"

section \<open>Lag tracking\<close>

record lag_tracker =
  lt_threshold :: int
  lt_sustained :: nat
  lt_pending :: int
  lt_consecutive :: nat

definition record_lag :: "lag_tracker \<Rightarrow> int \<Rightarrow> lag_tracker" where
  "record_lag t pending =
     t\<lparr>lt_pending := pending,
       lt_consecutive := (if lt_threshold t < pending then lt_consecutive t + 1 else 0)\<rparr>"

definition is_backlogged :: "lag_tracker \<Rightarrow> bool" where
  "is_backlogged t \<longleftrightarrow> lt_sustained t \<le> lt_consecutive t"

section \<open>Backlog\<close>

lemma record_lag_simps [simp]:
  "lt_threshold (record_lag t p) = lt_threshold t" "lt_sustained (record_lag t p) = lt_sustained t"
  by (simp_all add: record_lag_def)

lemma lag_parameters [simp]:
  "lt_threshold (foldl record_lag t ps) = lt_threshold t" "lt_sustained (foldl record_lag t ps) = lt_sustained t"
  by (induction ps arbitrary: t) simp_all

lemma backlogged_iff:
  assumes "lt_consecutive t = 0"
  shows "is_backlogged (foldl record_lag t samples) \<longleftrightarrow>
    lt_sustained t \<le> length (takeWhile (\<lambda>p. lt_threshold t < p) (rev samples))"
proof -
  have "lt_consecutive (foldl record_lag t samples) = length (takeWhile (\<lambda>p. lt_threshold t < p) (rev samples))"
    using assms by (induction samples rule: rev_induct) (auto simp: record_lag_def [of "foldl _ _ _"] simp del: record_lag_simps)
  then show ?thesis by (simp add: is_backlogged_def)
qed

section \<open>Enriched sells\<close>

lemma consume_cost_nonneg:
  assumes "list_all (\<lambda>l. 0 < val (lot_qty l) \<and> 0 \<le> val (lot_cost l)) ls" "0 \<le> val c"
    "consume_lots r c ls = (r', c', out)"
  shows "0 \<le> val c'"
  using assms
proof (induction r c ls arbitrary: r' c' out rule: consume_lots.induct)
  case (2 remaining closed_cost l ls)
  have nn: "0 \<le> val (a + b)" if "0 \<le> val a" "0 \<le> val b" for a b
    using val_add_sign(3) [of a b] that by (simp add: not_less [symmetric])
  show ?case
  proof (cases "remaining \<le> 0")
    case True
    then show ?thesis using "2.prems"(2,3) consume_done [OF True, of closed_cost "l # ls"] by simp
  next
    case False
    then have pos: "0 < val remaining" by (simp add: le_val)
    show ?thesis
    proof (cases "lot_qty l \<le> remaining")
      case True
      then have "consume_lots (remaining - lot_qty l) (closed_cost + lot_cost l) ls = (r', c', out)"
        using "2.prems"(3) False by simp
      moreover have "0 \<le> val (closed_cost + lot_cost l)" using nn "2.prems"(1,2) by simp
      ultimately show ?thesis
        using "2.prems"(1) by (intro "2.IH"(2) [OF False True, of r' c' out]) simp_all
    next
      case l: False
      have "0 \<le> val (dec_div (lot_cost l) (lot_qty l))" using "2.prems"(1) by (intro dec_div_nonneg) simp_all
      then have "0 \<le> val (dec_div (lot_cost l) (lot_qty l) * remaining)"
        using pos by (intro val_mult_sign(3)) simp_all
      with nn "2.prems"(2) have "0 \<le> val (closed_cost + dec_div (lot_cost l) (lot_qty l) * remaining)" by blast
      moreover obtain r1 c1 out1 where c1: "consume_lots 0 (closed_cost + dec_div (lot_cost l) (lot_qty l) * remaining) ls = (r1, c1, out1)"
        by (cases "consume_lots 0 (closed_cost + dec_div (lot_cost l) (lot_qty l) * remaining) ls")
      moreover have "c1 = c'" using "2.prems"(3) False l c1 by (simp add: Let_def)
      ultimately show ?thesis using "2.IH"(3) [OF False l refl] "2.prems"(1) by simp
    qed
  qed
qed simp

lemma select_cost_nonneg:
  assumes "list_all (\<lambda>l. 0 < val (lot_qty l) \<and> 0 \<le> val (lot_cost l)) lots"
    "select_lots_fifo lots q = Inr res"
  shows "0 \<le> val (fr_closed_cost res)"
  using assms(2) consume_cost_nonneg [of "sort_key lot_seq lots" 0 q] assms(1)
  by (auto simp: select_lots_fifo_def list_all_sort_key split: if_splits prod.splits)

lemma has_key_iff: "has_key data k \<longleftrightarrow> k \<in> set (keys data)"
  by (auto simp: has_key_def map_of_eq_None_iff)

lemma fill_data:
  assumes "fill_to_append env fill = Inr app"
  shows "la_type app = ORDER_FILLED" "la_event_id app = ie_event_id env (lf_client_order_id fill)"
    "map_of (la_data app) ''sleeve_id'' = Some (JStr (lf_sleeve fill))"
    "map_of (la_data app) ''symbol'' = Some (JStr (lf_symbol fill))"
    "map_of (la_data app) ''side'' = Some (JStr (py_lower (lf_side fill)))"
    "map_of (la_data app) ''qty'' = Some (JStr (lf_qty fill))"
    "map_of (la_data app) ''price'' = Some (JStr (lf_price fill))"
    "map_of (la_data app) ''fees'' = (if lf_fees fill = [] then None else Some (JStr (lf_fees fill)))"
    "map_of (la_data app) ''cost_basis'' = (if lf_cost_basis fill = [] then None else Some (JStr (lf_cost_basis fill)))"
proof -
  have a: "la_data app = [(''sleeve_id'', JStr (lf_sleeve fill)), (''symbol'', JStr (lf_symbol fill)),
        (''side'', JStr (py_lower (lf_side fill))), (''qty'', JStr (lf_qty fill)), (''price'', JStr (lf_price fill)),
        (''client_order_id'', JStr (lf_client_order_id fill))] @
       optional_fields [(''fees'', lf_fees fill), (''cost_basis'', lf_cost_basis fill),
         (''realized_pnl'', lf_realized_pnl fill), (''order_id'', lf_order_id fill)]"
    and b: "la_type app = ORDER_FILLED" "la_event_id app = ie_event_id env (lf_client_order_id fill)"
    using assms unfolding fill_to_append_def Let_def bindR_eq_Inr require_field_def by (auto split: if_split_asm)
  show "la_type app = ORDER_FILLED" "la_event_id app = ie_event_id env (lf_client_order_id fill)" by (fact b)+
  show "map_of (la_data app) ''sleeve_id'' = Some (JStr (lf_sleeve fill))"
    "map_of (la_data app) ''symbol'' = Some (JStr (lf_symbol fill))"
    "map_of (la_data app) ''side'' = Some (JStr (py_lower (lf_side fill)))"
    "map_of (la_data app) ''qty'' = Some (JStr (lf_qty fill))"
    "map_of (la_data app) ''price'' = Some (JStr (lf_price fill))"
    "map_of (la_data app) ''fees'' = (if lf_fees fill = [] then None else Some (JStr (lf_fees fill)))"
    "map_of (la_data app) ''cost_basis'' = (if lf_cost_basis fill = [] then None else Some (JStr (lf_cost_basis fill)))"
    by (simp_all add: a optional_fields_def)
qed

lemma read_JStr:
  assumes "map_of data k = Some (JStr s)"
  shows "str_field data k = Inr s" "decimal_str_field data k = decimal_of_text s" "d_field data k = decimal_of_text s"
    "has_key data k" "get_opt data k = JStr s"
  using assms
  by (simp_all add: str_field_def field_def decimal_str_field_def decimal_str_def d_field_def has_key_def
      get_opt_def dict_get_def)

lemma map_of_setdefault:
  "map_of (dict_setdefault k v d) j = (if j = k then Some (case map_of d k of None \<Rightarrow> v | Some w \<Rightarrow> w) else map_of d j)"
  by (auto simp: dict_setdefault_def map_add_def split: option.splits)

lemma py_lower_sell: "py_lower ''sell'' = ''sell''" and py_lower_buy: "py_lower ''buy'' = ''buy''"
  by code_simp+

text \<open>What an enriched sell carries: the FIFO cost, and the postings the fold will build from it.\<close>

lemma enrich_sell_fill_Inr:
  assumes fill: "fill_to_append env fill = Inr app" and need: "needs_cost_basis app"
    and ok: "enrich_sell_fill app lots = Inr app'"
  obtains qty price fees res where
    "decimal_of_text (lf_qty fill) = Inr qty" "decimal_of_text (lf_price fill) = Inr price"
    "(if lf_fees fill = [] then Inr 0 else decimal_of_text (lf_fees fill)) = Inr fees"
    "select_lots_fifo lots qty = Inr res"
    "map_of (la_data app') ''cost_basis'' = Some (JStr (dec_str (fr_closed_cost res)))"
    "build_postings (la_type app') (la_data app') =
       Inr [PositionLeg (lf_sleeve fill) (- fr_closed_cost res) (lf_symbol fill) (- qty),
            Posting (Some (lf_sleeve fill)) CASH (qty * price - fees),
            Posting (Some (lf_sleeve fill)) PNL (- (qty * price - fr_closed_cost res - fees))]"
proof -
  note d = fill_data [OF fill]
  note r = d(3) [THEN read_JStr(1)] d(4) [THEN read_JStr(1)] d(5) [THEN read_JStr(1)]
    d(6) [THEN read_JStr(2)] d(7) [THEN read_JStr(2)]
  have side: "py_lower (lf_side fill) = ''sell''" using need d(5) by (simp add: needs_cost_basis_def read_JStr(5))
  obtain qty where q: "decimal_of_text (lf_qty fill) = Inr qty"
    using ok need r unfolding enrich_sell_fill_def by (cases "decimal_of_text (lf_qty fill)") simp_all
  obtain res where res: "select_lots_fifo lots qty = Inr res"
    using ok need r q unfolding enrich_sell_fill_def by (cases "select_lots_fifo lots qty") simp_all
  obtain price fees where o: "decimal_of_text (lf_price fill) = Inr price"
      "(if has_key (la_data app) ''fees'' then decimal_str_field (la_data app) ''fees'' else Inr 0) = Inr fees"
      "app' = app\<lparr>la_data := dict_setdefault ''realized_pnl'' (JStr (dec_str (qty * price - fr_closed_cost res - fees)))
         (AList.update ''cost_basis'' (JStr (dec_str (fr_closed_cost res))) (la_data app))\<rparr>"
    using ok need r q res unfolding enrich_sell_fill_def by (auto simp: result_simps Let_def)
  have fees: "(if lf_fees fill = [] then Inr 0 else decimal_of_text (lf_fees fill)) = Inr fees"
    using o(2) d(8) by (auto simp: read_JStr has_key_def split: if_splits)
  let ?data = "la_data app'"
  have m: "map_of ?data k = (if k = ''cost_basis'' then Some (JStr (dec_str (fr_closed_cost res))) else map_of (la_data app) k)"
    if "k \<noteq> ''realized_pnl''" for k
    using that by (simp add: o(3) map_of_setdefault dict_simps)
  have f: "str_field ?data ''sleeve_id'' = Inr (lf_sleeve fill)" "str_field ?data ''symbol'' = Inr (lf_symbol fill)"
      "str_field ?data ''side'' = Inr (py_lower (lf_side fill))" "d_field ?data ''qty'' = Inr qty"
      "d_field ?data ''price'' = Inr price" "d_field ?data ''cost_basis'' = Inr (fr_closed_cost res)"
      "has_key ?data ''cost_basis''"
    using d(3-7) q o(1) m by (simp_all add: read_JStr dec_text.dec_enc)
  have "d_field_or_zero ?data ''fees'' = Inr fees"
    using fees d(8) m [of "''fees''"] by (auto simp: d_field_or_zero_def read_JStr has_key_def split: if_splits)
  then have "build_postings (la_type app') ?data =
       Inr [PositionLeg (lf_sleeve fill) (- fr_closed_cost res) (lf_symbol fill) (- qty),
            Posting (Some (lf_sleeve fill)) CASH (qty * price - fees),
            Posting (Some (lf_sleeve fill)) PNL (- (qty * price - fr_closed_cost res - fees))]"
    using f side d(1) by (simp add: o(3) order_filled_postings_def Let_def py_lower_sell)
  then show ?thesis using that [OF q o(1) fees res] m [of "''cost_basis''"] by simp
qed

lemma enriched_balanced:
  assumes fill: "fill_to_append env fill = Inr app" and need: "needs_cost_basis app"
    and ok: "enrich_sell_fill app lots = Inr app'"
    and lots: "list_all (\<lambda>l. 0 < val (lot_qty l) \<and> 0 \<le> val (lot_cost l)) lots"
    and exact: "\<And>qty price fees res. decimal_of_text (lf_qty fill) = Inr qty \<Longrightarrow>
      decimal_of_text (lf_price fill) = Inr price \<Longrightarrow>
      (if lf_fees fill = [] then Inr 0 else decimal_of_text (lf_fees fill)) = Inr fees \<Longrightarrow>
      select_lots_fifo lots qty = Inr res \<Longrightarrow>
      on_grid k [qty * price, fr_closed_cost res, fees] \<and> room k (2 * weight [qty * price, fr_closed_cost res, fees])"
  shows "\<exists>ps. build_postings (la_type app') (la_data app') = Inr ps \<and> assert_balanced ps = Inr ()"
proof -
  obtain qty price fees res where o: "decimal_of_text (lf_qty fill) = Inr qty" "decimal_of_text (lf_price fill) = Inr price"
      "(if lf_fees fill = [] then Inr 0 else decimal_of_text (lf_fees fill)) = Inr fees"
      "select_lots_fifo lots qty = Inr res"
      "build_postings (la_type app') (la_data app') =
       Inr [PositionLeg (lf_sleeve fill) (- fr_closed_cost res) (lf_symbol fill) (- qty),
            Posting (Some (lf_sleeve fill)) CASH (qty * price - fees),
            Posting (Some (lf_sleeve fill)) PNL (- (qty * price - fr_closed_cost res - fees))]"
    by (rule enrich_sell_fill_Inr [OF fill need ok]) blast
  let ?n = "qty * price" and ?c = "fr_closed_cost res"
  have g: "grid k (val ?n)" "grid k (val ?c)" "grid k (val fees)"
    and rm: "room k (2 * (\<bar>val ?n\<bar> + \<bar>val ?c\<bar> + \<bar>val fees\<bar>))"
    using exact [OF o(1-4)] by (simp_all add: add.assoc)
  have rm': "room k x" if "x \<le> 2 * (\<bar>val ?n\<bar> + \<bar>val ?c\<bar> + \<bar>val fees\<bar>)" for x using rm that by (rule room_mono)
  have v1: "val (?n - ?c) = val ?n - val ?c" by (rule val_diff_grid [OF g(1,2)]) (rule rm', simp)
  have v2: "val (?n - ?c - fees) = val ?n - val ?c - val fees"
    unfolding v1 [symmetric] by (rule val_diff_grid [OF _ g(3)]) (simp_all add: v1 grid_diff g, rule rm', simp)
  have v3: "val (?n - fees) = val ?n - val fees" by (rule val_diff_grid [OF g(1,3)]) (rule rm', simp)
  have v4: "val (- (?n - ?c - fees)) = - (val ?n - val ?c - val fees)"
    unfolding v2 [symmetric] by (rule val_uminus_grid [of k]) (simp_all add: v2 grid_diff g, rule rm', simp)
  have v5: "val (- ?c) = - val ?c" by (rule val_uminus_grid [OF g(2)]) (rule rm', simp)
  have sold: "0 < val qty" using o(4) by (auto simp: select_lots_fifo_def le_val split: if_splits)
  let ?ps = "[PositionLeg (lf_sleeve fill) (- ?c) (lf_symbol fill) (- qty),
            Posting (Some (lf_sleeve fill)) CASH (?n - fees), Posting (Some (lf_sleeve fill)) PNL (- (?n - ?c - fees))]"
  have amounts: "amounts ?ps = [- ?c, ?n - fees, - (?n - ?c - fees)]" by (simp add: PositionLeg_def Posting_def)
  have "assert_balanced ?ps = Inr () \<longleftrightarrow> leg_total ?ps = 0 \<and> \<not> list_ex opposite_signed ?ps"
  proof (rule balanced_on_grid [of k])
    show "on_grid k (amounts ?ps)"
      unfolding amounts by (simp add: v3 v4 v5 grid_diff grid_uminus g del: minus_diff_eq)
    show "room k (weight (amounts ?ps))"
      unfolding amounts by (rule rm') (simp add: v3 v4 v5)
  qed
  moreover have "leg_total ?ps = 0" by (simp add: PositionLeg_def Posting_def v3 v4 v5)
  moreover have "\<not> list_ex opposite_signed ?ps"
    using select_cost_nonneg [OF lots o(4)] sold
    by (simp add: PositionLeg_def Posting_def opposite_signed_def less_val val_uminus_sign)
  ultimately show ?thesis using o(5) by simp
qed

lemma enrich_quarantine_iff:
  assumes need: "needs_cost_basis app" and qty: "decimal_str_field (la_data app) ''qty'' = Inr qty"
    and lots: "open_lots_ok k lots" "grid k (val qty)" "room k (val qty)"
  shows "enrich_sell_fill app lots = Inl FillQuarantineError \<longleftrightarrow> \<not> (0 < val qty \<and> val qty \<le> shares lots)"
proof (cases "select_lots_fifo lots qty")
  case (Inl e)
  then have "\<not> (0 < val qty \<and> val qty \<le> shares lots)"
    using select_lots_fifo_spec(1) [OF lots] by (simp add: result_simps)
  moreover have "e = ValueError" using select_lots_fifo_error [OF Inl] .
  ultimately show ?thesis using Inl need qty by (simp add: enrich_sell_fill_def)
next
  case (Inr res)
  then have "0 < val qty \<and> val qty \<le> shares lots"
    using select_lots_fifo_spec(1) [OF lots] by (simp add: result_simps)
  moreover have "decimal_str_field (la_data app) k \<noteq> Inl FillQuarantineError" for k
    using decimal_str_field_error [of "la_data app" k FillQuarantineError] by auto
  ultimately show ?thesis
    using Inr need qty by (auto simp: enrich_sell_fill_def result_simps Let_def split: if_splits)
qed

section \<open>Routing and freezing\<close>

lemma find_sleeve_some: "find_sleeve sleeves t s = Some row \<Longrightarrow> row \<in> set sleeves \<and> sr_tenant row = t \<and> sr_id row = s"
  by (auto simp: find_sleeve_def find_Some_iff)

lemma reroute_not_closed:
  assumes "distinct (map sr_id sleeves)" "get_sleeve_by_type sleeves (la_tenant app) (la_account app) UNMANAGED = Some u"
    "sr_status u \<noteq> CLOSED"
    and "find_sleeve sleeves (la_tenant app) (la_sleeve (reroute_if_sleeve_closed sleeves app)) = Some row"
  shows "sr_status row \<noteq> CLOSED"
proof (cases "\<exists>r. find_sleeve sleeves (la_tenant app) (la_sleeve app) = Some r \<and> sr_status r = CLOSED")
  case True
  then have "la_sleeve (reroute_if_sleeve_closed sleeves app) = sr_id u"
    using assms(2) by (auto simp: reroute_if_sleeve_closed_def)
  then have "row \<in> set sleeves" "sr_id row = sr_id u" using find_sleeve_some [OF assms(4)] by simp_all
  moreover have "u \<in> set sleeves" using assms(2) by (auto simp: get_sleeve_by_type_def find_Some_iff)
  ultimately have "row = u" using assms(1) unfolding distinct_map by (blast dest: inj_onD)
  then show ?thesis using assms(3) by simp
next
  case False
  then have "reroute_if_sleeve_closed sleeves app = app"
    by (auto simp: reroute_if_sleeve_closed_def split: option.splits)
  then show ?thesis using False assms(4) by auto
qed

lemma healthy_sim:
  assumes "sleeve_sim s t" "wf_dict (sl_positions s)" "healthy_sleeve t"
  shows "healthy_sleeve s"
proof -
  have "0 \<le> val (ps_qty pos)" if "(y, pos) \<in> set (sl_positions s)" for y pos
  proof -
    have "map_of (sl_positions t) y = Some pos"
      using assms(1) map_of_is_SomeI [OF assms(2) that] by (simp add: sleeve_sim_def dict_rel_eq)
    then show ?thesis using assms(3) by (force simp: healthy_sleeve_def list_all_iff dest: map_of_SomeD)
  qed
  then show ?thesis using assms(1,3) by (auto simp: healthy_sleeve_def sleeve_sim_def list_all_iff)
qed

lemma find_set_status:
  "find_sleeve sleeves t s = Some row \<Longrightarrow>
   find_sleeve (set_sleeve_status sleeves s st) t s = Some (row\<lparr>sr_status := st\<rparr>)"
  by (induction sleeves) (auto simp: find_sleeve_def set_sleeve_status_def)

text \<open>
  After a fill has been booked, the sleeve it went to is healthy in the book of record, or frozen,
  or unknown to the sleeve table.
\<close>

lemma freeze_healthy_or_frozen:
  assumes env: "table_laws (se_insert env) (se_rows env)" "store_ok (se_rows env db)" "pe_rows penv = se_rows env"
    and cache: "jsonb_laws (pe_jsonb penv)" "caches_ok penv db (is_cache st) (is_table st)"
    and room: "length (filter closing (read_account_events (se_rows env) db (la_tenant app) (la_account app)))
      \<le> terminal_tracked"
    and ok: "freeze_if_invariant_violated env penv db st app = Inr (db', st')"
  shows "(case find_sleeve (is_sleeves st') (la_tenant app) (la_sleeve app) of
       None \<Rightarrow> True
     | Some row \<Rightarrow> sr_status row = FROZEN \<or>
         healthy_sleeve (get_sleeve (store_project env db' (la_tenant app) (la_account app)) (la_sleeve app)))"
proof -
  obtain cache' table' acc where p:
      "project_account_incremental penv db (is_cache st) (is_table st) (la_tenant app) (la_account app) False =
         Inr (cache', table', acc)"
      "acc_sim (project_account (pe_rows penv) db (la_tenant app) (la_account app)) acc"
    using incremental_correct [OF env(2) [folded env(3)] cache room [folded env(3)], of False] by blast
  let ?full = "store_project env db (la_tenant app) (la_account app)"
  have full: "acc_sim ?full acc" using p(2) env(3) by (simp add: store_project_def)
  show ?thesis
  proof (cases "check_sleeve_invariants (get_sleeve acc (la_sleeve app)) = []")
    case True
    have "acc_wf ?full" unfolding store_project_def project_account_def by (rule fold_account_wf)
    then have wf: "wf_dict (sl_positions (get_sleeve ?full (la_sleeve app)))"
      unfolding acc_wf_def get_sleeve_def
      by (intro all_vals_get [where P = "\<lambda>s. wf_dict (sl_positions s)"]) (simp_all add: empty_sleeve_def)
    have "sleeve_sim (get_sleeve ?full (la_sleeve app)) (get_sleeve acc (la_sleeve app))"
      using full unfolding acc_sim_def get_sleeve_def by (intro dict_rel_get [where R = sleeve_sim]) simp_all
    from healthy_sim [OF this wf] True have "healthy_sleeve (get_sleeve ?full (la_sleeve app))"
      by (simp add: check_sleeve_invariants_iff)
    moreover have "db' = db"
      using ok p(1) True unfolding freeze_if_invariant_violated_def by (simp add: result_simps)
    ultimately show ?thesis by (simp split: option.splits)
  next
    case False
    show ?thesis
    proof (cases "find_sleeve (is_sleeves st) (la_tenant app) (la_sleeve app)")
      case None
      then show ?thesis using ok p(1) False unfolding freeze_if_invariant_violated_def
        by (auto simp: result_simps Let_def split: option.splits if_splits)
    next
      case (Some row)
      then have "sr_id row = la_sleeve app" by (auto dest: find_sleeve_some)
      then show ?thesis using ok p(1) False Some find_set_status [OF Some, of FROZEN]
        unfolding freeze_if_invariant_violated_def
        by (auto simp: result_simps Let_def split: if_splits)
    qed
  qed
qed

lemma enrich_keeps:
  "enrich_sell_fill app lots = Inr app' \<Longrightarrow>
   la_tenant app' = la_tenant app \<and> la_account app' = la_account app \<and> la_sleeve app' = la_sleeve app \<and>
   la_type app' = la_type app \<and> la_event_id app' = la_event_id app"
  unfolding enrich_sell_fill_def by (auto simp: result_simps Let_def split: if_splits)

lemma reroute_keeps [simp]:
  "la_tenant (reroute_if_sleeve_closed sleeves app) = la_tenant app"
  "la_account (reroute_if_sleeve_closed sleeves app) = la_account app"
  "la_type (reroute_if_sleeve_closed sleeves app) = la_type app"
  "la_event_id (reroute_if_sleeve_closed sleeves app) = la_event_id app"
  "k \<noteq> ''sleeve_id'' \<Longrightarrow> map_of (la_data (reroute_if_sleeve_closed sleeves app)) k = map_of (la_data app) k"
  by (simp_all add: reroute_if_sleeve_closed_def dict_simps split: option.splits)

lemma closing_append:
  assumes "table_laws (se_insert env) (se_rows env)" "store_ok (se_rows env db)"
    and "store_append env db req = Inr (db', r, new)"
  shows "length (filter closing (read_account_events (se_rows env) db' t a))
    \<le> Suc (length (filter closing (read_account_events (se_rows env) db t a)))"
proof (cases new)
  case False
  then have "se_rows env db' = se_rows env db"
    using append_event_Inr(1) [OF assms(1) assms(3) [unfolded store_append_def]] by simp
  then show ?thesis by (simp add: read_account_events_def)
next
  case True
  then have "append_event (se_insert env) (se_rows env) (se_fresh env) (se_now env) db req = Inr (db', r, True)"
    using assms(3) by (simp add: store_append_def)
  from project_append [OF assms(1,2) this] show ?thesis
    by (cases "(t, a) = (ar_tenant req, ar_account req)") auto
qed

lemma persist_append_Inr:
  assumes fill: "la_type app = ORDER_FILLED" and ok: "persist_append env penv db st app = Inr (db', st')"
  obtains final db1 r new where "la_tenant final = la_tenant app" "la_account final = la_account app"
    "la_sleeve final = la_sleeve (reroute_if_sleeve_closed (is_sleeves st) app)" "la_type final = ORDER_FILLED"
    "store_append env db (fill_request final) = Inr (db1, r, new)"
    "freeze_if_invariant_violated env penv db1 st final = Inr (db', st')"
proof (cases "needs_cost_basis (reroute_if_sleeve_closed (is_sleeves st) app)")
  case True
  then obtain lots final where "enrich_sell_fill (reroute_if_sleeve_closed (is_sleeves st) app) lots = Inr final"
      "bindR (store_append env db (fill_request final)) (\<lambda>(db', r, new).
           if la_type final = ORDER_FILLED then freeze_if_invariant_violated env penv db' st final
           else Inr (db', st)) = Inr (db', st')"
    using ok by (auto simp: persist_append_def Let_def bindR_eq_Inr)
  then show ?thesis using that fill by (fastforce simp: bindR_eq_Inr dest: enrich_keeps)
next
  case False
  then obtain db1 r new where "store_append env db (fill_request (reroute_if_sleeve_closed (is_sleeves st) app)) = Inr (db1, r, new)"
    "freeze_if_invariant_violated env penv db1 st (reroute_if_sleeve_closed (is_sleeves st) app) = Inr (db', st')"
    using ok fill by (auto simp: persist_append_def Let_def bindR_eq_Inr)
  then show ?thesis using fill by (intro that [of "reroute_if_sleeve_closed (is_sleeves st) app"]) simp_all
qed

lemma persist_healthy_or_frozen:
  assumes env: "table_laws (se_insert env) (se_rows env)" "store_ok (se_rows env db)" "pe_rows penv = se_rows env"
    and cache: "jsonb_laws (pe_jsonb penv)" "caches_ok penv db (is_cache st) (is_table st)"
    and room: "length (filter closing (read_account_events (se_rows env) db (la_tenant app) (la_account app)))
      < terminal_tracked"
    and fill: "la_type app = ORDER_FILLED"
    and ok: "persist_append env penv db st app = Inr (db', st')"
  defines "s \<equiv> la_sleeve (reroute_if_sleeve_closed (is_sleeves st) app)"
  shows "case find_sleeve (is_sleeves st') (la_tenant app) s of
       None \<Rightarrow> True
     | Some row \<Rightarrow> sr_status row = FROZEN \<or>
         healthy_sleeve (get_sleeve (store_project env db' (la_tenant app) (la_account app)) s)"
proof -
  obtain final db1 r new where f: "la_tenant final = la_tenant app" "la_account final = la_account app"
      "la_sleeve final = s" "la_type final = ORDER_FILLED"
    and a: "store_append env db (fill_request final) = Inr (db1, r, new)"
    and z: "freeze_if_invariant_violated env penv db1 st final = Inr (db', st')"
    by (rule persist_append_Inr [OF fill ok]) (simp add: s_def)
  have a': "append_event (se_insert env) (pe_rows penv) (se_fresh env) (se_now env) db (fill_request final) =
      Inr (db1, r, new)"
    using a env(3) by (simp add: store_append_def)
  have "store_ok (se_rows env db1)"
    using append_store_ok [OF env(1,2)] a unfolding store_append_def by blast
  moreover have "caches_ok penv db1 (is_cache st) (is_table st)"
    using env(1,2) cache(2) by (intro caches_ok_append [OF _ _ _ a']) (simp_all add: env(3))
  moreover have "length (filter closing (read_account_events (se_rows env) db1 (la_tenant final) (la_account final)))
      \<le> terminal_tracked"
    using closing_append [OF env(1,2) a, of "la_tenant app" "la_account app"] room f(1,2) by simp
  ultimately show ?thesis
    using freeze_healthy_or_frozen [OF env(1) _ env(3) cache(1) _ _ z] unfolding f(1-3) by blast
qed

section \<open>Messages the handler never gets rid of\<close>

text \<open>
  A fill whose quantity is no decimal number passes the translation, so it is not poison; booking it
  raises, which is retried, and nothing the other entries book changes that.
\<close>

lemma open_lots_incremental_total: "\<exists>lots. open_lots_incremental penv db cache table t a sid y = Inr lots"
proof -
  obtain seed where "seed_checkpoint cache table t a = Inr seed"
    using load_total [of table t a] by (cases "map_of cache (t, a)") (auto simp: seed_checkpoint_def)
  then show ?thesis by (simp add: open_lots_incremental_def Let_def split: prod.split)
qed

lemma unreadable_not_quarantined:
  assumes fill: "fill_to_append env fill = Inr app" and bad: "decimal_of_text (lf_qty fill) = Inl e"
  shows "\<exists>e'. persist_append senv penv db st app = Inl e' \<and> e' \<noteq> FillQuarantineError"
proof -
  let ?r = "reroute_if_sleeve_closed (is_sleeves st) app"
  note d = fill_data [OF fill]
  have e: "data_error e" "e \<noteq> FillQuarantineError" using decimal_of_text_error [OF bad] by auto
  have q: "decimal_str_field (la_data ?r) ''qty'' = Inl e" "d_field (la_data ?r) ''qty'' = Inl e"
      "str_field (la_data ?r) ''symbol'' = Inr (lf_symbol fill)"
    using d bad by (simp_all add: read_JStr)
  obtain lots where lots: "open_lots_incremental penv db (is_cache st) (is_table st) (la_tenant ?r) (la_account ?r)
      (la_sleeve ?r) (lf_symbol fill) = Inr lots"
    using open_lots_incremental_total [of penv db "is_cache st" "is_table st" "la_tenant ?r" "la_account ?r"
        "la_sleeve ?r" "lf_symbol fill"] by blast
  show ?thesis
  proof (cases "needs_cost_basis ?r")
    case True
    then show ?thesis using q lots e
      by (auto simp: persist_append_def Let_def enrich_sell_fill_def)
  next
    case False
    have "\<exists>s. map_of (la_data ?r) ''sleeve_id'' = Some (JStr s)"
      using d(3) by (auto simp: reroute_if_sleeve_closed_def dict_simps split: option.splits)
    then obtain sleeve where "str_field (la_data ?r) ''sleeve_id'' = Inr sleeve" using read_JStr(1) by blast
    then have "build_postings (la_type ?r) (la_data ?r) = Inl e"
      using q d(1,5) by (simp add: order_filled_postings_def read_JStr)
    then show ?thesis using False e
      by (auto simp: persist_append_def Let_def store_append_def append_event_def fill_request_def)
  qed
qed

lemma unreadable_retried:
  assumes "fill_to_append ienv fill = Inr app" "decimal_of_text (lf_qty fill) = Inl e"
  shows "handle_entry ienv env penv db st (Fill fill) = (db, st, Retry)"
  using unreadable_not_quarantined [OF assms, of env penv db st] assms(1)
  by (auto simp: handle_entry_def split: py_error.split)

end
