(* ===== verification/Funds.thy ===== *)
theory Funds
  imports Lot_Book Invariants
begin

text \<open>
  Fund disbursement planners (\<^verbatim>\<open>ledger/funds.py\<close>): deposit, withdraw, allocate, transfer
  with the raise-cash plan, and admission checks.

  A plan is refused exactly when the amount is not positive or exceeds the free cash
  (\<open>plan_withdraw_Inr\<close>, \<open>plan_allocate_Inr\<close>). The raise-cash plan
  covers the shortfall with proceeds from positions the sleeve holds, never selling more than is
  held, and fails only when liquidating everything would not be enough (\<open>raise_cash_spec\<close>).
\<close>

section \<open>Planners\<close>

record planned_fund_event =
  pf_type :: LedgerEventType
  pf_data :: payload

record raise_cash_sell =
  rc_symbol :: string
  rc_qty :: decimal
  rc_price :: decimal

record transfer_plan =
  tp_transfer :: planned_fund_event
  tp_raise_cash :: "raise_cash_sell list"

definition RaiseCashSell :: "string \<Rightarrow> decimal \<Rightarrow> decimal \<Rightarrow> raise_cash_sell" where
  "RaiseCashSell y q p = \<lparr>rc_symbol = y, rc_qty = q, rc_price = p\<rparr>"

definition needs_raise_cash :: "transfer_plan \<Rightarrow> bool" where
  "needs_raise_cash plan \<longleftrightarrow> tp_raise_cash plan \<noteq> []"

definition require_positive :: "decimal \<Rightarrow> unit result" where
  "require_positive amount = (if amount \<le> 0 then Inl FundError else Inr ())"

definition plan_deposit :: "string \<Rightarrow> decimal \<Rightarrow> planned_fund_event list result" where
  "plan_deposit unallocated amount =
     bindR (require_positive amount) (\<lambda>_.
       Inr [\<lparr>pf_type = FUNDS_DEPOSITED,
             pf_data = [(''sleeve_id'', JStr unallocated), (''amount'', JStr (dec_str amount))]\<rparr>])"

definition plan_withdraw :: "string \<Rightarrow> decimal \<Rightarrow> decimal \<Rightarrow> planned_fund_event list result" where
  "plan_withdraw sid amount free_cash =
     bindR (require_positive amount) (\<lambda>_.
       if free_cash < amount then Inl FundError
       else Inr [\<lparr>pf_type = FUNDS_WITHDRAWN,
                  pf_data = [(''sleeve_id'', JStr sid), (''amount'', JStr (dec_str amount))]\<rparr>])"

definition move_data :: "string \<Rightarrow> string \<Rightarrow> decimal \<Rightarrow> payload" where
  "move_data frm to amount =
     [(''from_sleeve_id'', JStr frm), (''to_sleeve_id'', JStr to), (''amount'', JStr (dec_str amount))]"

definition plan_allocate ::
  "string \<Rightarrow> string \<Rightarrow> decimal \<Rightarrow> decimal \<Rightarrow> planned_fund_event list result" where
  "plan_allocate frm to amount free_cash =
     bindR (require_positive amount) (\<lambda>_.
       if free_cash < amount then Inl FundError
       else Inr [\<lparr>pf_type = CAPITAL_ALLOCATED, pf_data = move_data frm to amount\<rparr>])"

fun raise_loop ::
  "decimal \<Rightarrow> (string \<times> decimal \<times> decimal) list \<Rightarrow> (raise_cash_sell list \<times> decimal) result" where
  "raise_loop remaining [] = Inr ([], remaining)"
| "raise_loop remaining ((y, qty, price) # ps) =
     (if remaining \<le> 0 then Inr ([], remaining)
      else if qty \<le> 0 \<or> price \<le> 0 then raise_loop remaining ps
      else let value = qty * price
           in if value \<le> remaining then
                bindR (raise_loop (remaining - value) ps) (\<lambda>(sells, r).
                  Inr (RaiseCashSell y qty price # sells, r))
              else
                bindR (dec_quantize ROUND_UP (- 8) (dec_div remaining price)) (\<lambda>need_qty.
                bindR (raise_loop 0 ps) (\<lambda>(sells, r).
                  Inr (RaiseCashSell y need_qty price # sells, r))))"

text \<open>Highest market value first; Python's reversed sort keeps the order of equal keys.\<close>

definition by_value :: "(string, decimal \<times> decimal) dict \<Rightarrow> (string \<times> decimal \<times> decimal) list" where
  "by_value positions = sort_key (\<lambda>(y, q, p). - val (q * p)) positions"

definition raise_cash ::
  "(string, decimal \<times> decimal) dict \<Rightarrow> decimal \<Rightarrow> raise_cash_sell list result" where
  "raise_cash positions shortfall =
     bindR (raise_loop shortfall (by_value positions)) (\<lambda>(sells, remaining).
       if 0 < remaining then Inl FundError else Inr sells)"

definition plan_transfer ::
  "string \<Rightarrow> string \<Rightarrow> decimal \<Rightarrow> decimal \<Rightarrow> (string, decimal \<times> decimal) dict \<Rightarrow>
   transfer_plan result" where
  "plan_transfer frm to amount free_cash positions =
     bindR (require_positive amount) (\<lambda>_.
       let transfer = \<lparr>pf_type = CAPITAL_TRANSFERRED, pf_data = move_data frm to amount\<rparr>
       in if amount \<le> free_cash then Inr \<lparr>tp_transfer = transfer, tp_raise_cash = []\<rparr>
          else bindR (raise_cash positions (amount - free_cash)) (\<lambda>sells.
                 Inr \<lparr>tp_transfer = transfer, tp_raise_cash = sells\<rparr>))"

definition check_admission ::
  "decimal \<Rightarrow> decimal \<Rightarrow> (string, decimal) dict \<Rightarrow> decimal \<Rightarrow> string list" where
  "check_admission requested unallocated_free weights min_notional =
     (if requested \<le> 0 then [''requested capital must be positive''] else []) @
     (if unallocated_free < requested
      then [''insufficient free cash: have '' @ dec_str unallocated_free @ '', need '' @ dec_str requested]
      else []) @
     concat (map (\<lambda>(y, weight).
       let slice_value = dec_div (requested * weight) (Dec 100 0)
       in if slice_value < min_notional
          then [y @ '': slice '' @ dec_str slice_value @ '' below min notional '' @ dec_str min_notional]
          else []) weights)"

section \<open>Raising cash\<close>

lemma grid_mult: "grid a x \<Longrightarrow> grid b y \<Longrightarrow> grid (a + b) (x * y)"
proof -
  assume "grid a x" "grid b y"
  then obtain m n where m: "x * 10 ^ a = of_int m" and n: "y * 10 ^ b = of_int n"
    by (auto simp: grid_def)
  have "x * y * 10 ^ (a + b) = (x * 10 ^ a) * (y * 10 ^ b)" by (simp add: power_add)
  also have "\<dots> = of_int (m * n)" by (simp add: m n)
  finally show ?thesis unfolding grid_def by blast
qed

text \<open>
  The data the plan works on: positive prices and market values on the money grid \<open>k\<close>, share
  counts on the grid of the quantity step.
\<close>

definition raisable :: "nat \<Rightarrow> string \<times> decimal \<times> decimal \<Rightarrow> bool" where
  "raisable k = (\<lambda>(y, q, p). 0 < val q \<and> 0 < val p \<longrightarrow>
     rep28 (val q * val p) \<and> grid k (val q * val p) \<and> grid k (val p) \<and> grid 8 (val q) \<and>
     val q * 10 ^ 8 < 10 ^ prec)"

definition market :: "(string \<times> decimal \<times> decimal) list \<Rightarrow> rat" where
  "market ps = sum_list (map (\<lambda>(y, q, p). if 0 < val q \<and> 0 < val p then val q * val p else 0) ps)"

definition proceeds :: "raise_cash_sell list \<Rightarrow> rat" where
  "proceeds sells = sum_list (map (\<lambda>s. val (rc_qty s) * val (rc_price s)) sells)"

definition held :: "(string \<times> decimal \<times> decimal) list \<Rightarrow> raise_cash_sell \<Rightarrow> bool" where
  "held ps s \<longleftrightarrow> list_ex (\<lambda>(y, q, p). rc_symbol s = y \<and> rc_price s = p \<and> rc_qty s \<le> q) ps"

lemma partial_sell:
  assumes rem: "0 < val rem" "grid k (val rem)" "val rem * 10 ^ (k + 8) < 10 ^ 27"
    and p: "0 < val p" "grid k (val p)"
    and q: "val rem < val q * val p" "grid k (val q * val p)" "grid 8 (val q)" "val q * 10 ^ 8 < 10 ^ prec"
  obtains n where "dec_quantize ROUND_UP (- 8) (dec_div rem p) = Inr n"
    "val rem \<le> val n * val p" "val n \<le> val q"
proof -
  define y where "y = val (dec_div rem p)"
  have step: "val rem * div_eps < 1 / 10 ^ (k + 8)"
    using rem(3) by (simp add: div_eps_def field_simps)
  have "\<bar>y - val rem / val p\<bar> \<le> val rem / val p * div_eps"
    unfolding y_def using dec_div_error [of p rem] rem p by simp
  then have "\<bar>y - val rem / val p\<bar> * val p \<le> val rem / val p * div_eps * val p"
    using p by (intro mult_right_mono) simp_all
  then have "\<bar>(y - val rem / val p) * val p\<bar> \<le> val rem * div_eps"
    using p by (simp add: abs_mult)
  then have near: "\<bar>y * val p - val rem\<bar> < 1 / 10 ^ (k + 8)"
    using step p by (simp add: left_diff_distrib)
  have y0: "0 \<le> y" unfolding y_def using rem p by (intro dec_div_nonneg) simp_all
  have "\<not> val q * val p < val rem + 1 / 10 ^ k"
    using grid_step [OF q(2) rem(2)] q(1) by linarith
  moreover have "(1::rat) / 10 ^ (k + 8) \<le> 1 / 10 ^ k" by (simp add: field_simps power_add)
  ultimately have "y * val p \<le> val q * val p" using near by linarith
  then have "y \<le> val q" using p(1) by simp
  from quantize_up_le [OF y0 [unfolded y_def] this [unfolded y_def] q(3,4)]
  obtain n where n: "dec_quantize ROUND_UP (- int 8) (dec_div rem p) = Inr n" "y \<le> val n" "val n \<le> val q"
    "grid 8 (val n)" unfolding y_def .
  have "y * val p \<le> val n * val p" using n(2) p(1) by simp
  then have "val rem < val n * val p + 1 / 10 ^ (k + 8)" using near by linarith
  moreover have "grid (k + 8) (val n * val p)" using grid_mult [OF n(4) p(2)] by (simp add: add.commute)
  moreover have "grid (k + 8) (val rem)" using rem(2) by (rule grid_mono) simp
  ultimately have "val rem \<le> val n * val p" using grid_step by blast
  with n show thesis using that by simp
qed

lemma market_nonneg: "0 \<le> market ps"
  by (induction ps) (auto simp: market_def)

lemma market_simps [simp]:
  "market [] = 0"
  "market ((y, q, p) # ps) = (if 0 < val q \<and> 0 < val p then val q * val p else 0) + market ps"
  by (simp_all add: market_def)

lemma proceeds_simps [simp]:
  "proceeds [] = 0" "proceeds (s # ss) = val (rc_qty s) * val (rc_price s) + proceeds ss"
  by (simp_all add: proceeds_def)

lemma held_Cons: "held ps s \<Longrightarrow> held (x # ps) s"
  by (simp add: held_def)

lemma room_of_bound: "0 \<le> x \<Longrightarrow> x * 10 ^ (k + 8) < 10 ^ 27 \<Longrightarrow> room k x"
proof -
  assume x: "0 \<le> x" "x * 10 ^ (k + 8) < 10 ^ 27"
  have "x * 10 ^ k \<le> x * 10 ^ (k + 8)" using x(1) by (intro mult_left_mono power_increasing) simp_all
  with x(2) show ?thesis by (simp add: room_def)
qed

lemma raise_loop_spec:
  assumes "list_all (raisable k) ps" "0 \<le> val rem" "grid k (val rem)" "val rem * 10 ^ (k + 8) < 10 ^ 27"
  shows "\<exists>sells r. raise_loop rem ps = Inr (sells, r) \<and> list_all (held ps) sells \<and>
    (if val rem \<le> market ps then val r = 0 \<and> val rem \<le> proceeds sells
     else val r = val rem - market ps)"
  using assms
proof (induction ps arbitrary: rem)
  case Nil
  then show ?case by auto
next
  case (Cons x ps)
  obtain y q p where x: "x = (y, q, p)" by (cases x)
  have m: "0 \<le> market ps" by (rule market_nonneg)
  have mono: "list_all (held ps) ss \<Longrightarrow> list_all (held (x # ps)) ss" for ss
    by (auto simp: list_all_iff intro: held_Cons)
  have IH: "\<exists>sells r. raise_loop rm ps = Inr (sells, r) \<and> list_all (held (x # ps)) sells \<and>
      (if val rm \<le> market ps then val r = 0 \<and> val rm \<le> proceeds sells
       else val r = val rm - market ps)"
    if "0 \<le> val rm" "grid k (val rm)" "val rm \<le> val rem" for rm
  proof -
    have "val rm * 10 ^ (k + 8) \<le> val rem * 10 ^ (k + 8)" using that(3) by simp
    then have "val rm * 10 ^ (k + 8) < 10 ^ 27" using Cons.prems(4) by (rule le_less_trans)
    moreover have "list_all (raisable k) ps" using Cons.prems(1) by simp
    ultimately show ?thesis using Cons.IH [OF _ that(1,2)] mono by meson
  qed
  consider "val rem = 0" | "0 < val rem" "\<not> (0 < val q \<and> 0 < val p)"
    | "0 < val rem" "0 < val q" "0 < val p" using Cons.prems(2) by linarith
  then show ?case
  proof cases
    case 1
    then have "raise_loop rem (x # ps) = Inr ([], rem)" by (simp add: x le_val)
    moreover have "0 \<le> market (x # ps)" by (rule market_nonneg)
    ultimately show ?thesis using 1 by simp
  next
    case 2
    then have "raise_loop rem (x # ps) = raise_loop rem ps" by (auto simp: x le_val)
    moreover have "market (x # ps) = market ps" using 2 by (auto simp: x)
    ultimately show ?thesis using IH [OF Cons.prems(2,3) order_refl] by (simp only:)
  next
    case 3
    have rx: "rep28 (val q * val p)" "grid k (val q * val p)" "grid k (val p)" "grid 8 (val q)"
      "val q * 10 ^ 8 < 10 ^ prec"
      using Cons.prems(1) 3 by (simp_all add: x raisable_def)
    have v: "val (q * p) = val q * val p" using rx(1) by (rule val_mult)
    have pos: "0 < val q * val p" using 3 by simp
    show ?thesis
    proof (cases "val q * val p \<le> val rem")
      case True
      have rr: "room k (val rem)" using Cons.prems(2,4) by (rule room_of_bound)
      have d: "val (rem - q * p) = val rem - val q * val p"
        using val_diff_grid [of k rem "q * p"] Cons.prems(3) rx(2) room_mono [OF rr] True pos
        by (simp add: v)
      obtain ss r where ss: "raise_loop (rem - q * p) ps = Inr (ss, r)" "list_all (held (x # ps)) ss"
        "if val (rem - q * p) \<le> market ps then val r = 0 \<and> val (rem - q * p) \<le> proceeds ss
         else val r = val (rem - q * p) - market ps"
        using IH [of "rem - q * p"] True pos Cons.prems(3) rx(2) by (auto simp: d grid_diff)
      have "raise_loop rem (x # ps) = Inr (RaiseCashSell y q p # ss, r)"
        using 3 True ss(1) by (simp add: x le_val v Let_def)
      moreover have "held (x # ps) (RaiseCashSell y q p)" by (simp add: held_def x RaiseCashSell_def)
      ultimately show ?thesis
        using ss(2,3) 3 unfolding d by (auto simp: x RaiseCashSell_def split: if_splits)
    next
      case False
      obtain n where n: "dec_quantize ROUND_UP (- 8) (dec_div rem p) = Inr n"
        "val rem \<le> val n * val p" "val n \<le> val q"
        using partial_sell [OF 3(1) Cons.prems(3,4) 3(3) rx(3) _ rx(2,4,5)] False by auto
      have z: "raise_loop 0 ps = Inr ([], 0)" by (cases ps) (auto simp: le_val)
      have "raise_loop rem (x # ps) = Inr ([RaiseCashSell y n p], 0)"
        using 3 False n z by (simp add: x le_val v Let_def)
      moreover have "held (x # ps) (RaiseCashSell y n p)"
        using n(3) by (simp add: held_def x RaiseCashSell_def le_val)
      ultimately show ?thesis using n(2) False m 3 by (auto simp: x RaiseCashSell_def)
    qed
  qed
qed

lemma raise_cash_spec:
  assumes "list_all (raisable k) positions" "0 \<le> val shortfall" "grid k (val shortfall)"
    "val shortfall * 10 ^ (k + 8) < 10 ^ 27"
  shows "if val shortfall \<le> market positions
    then \<exists>sells. raise_cash positions shortfall = Inr sells \<and> val shortfall \<le> proceeds sells \<and>
           list_all (held positions) sells
    else raise_cash positions shortfall = Inl FundError"
proof -
  have m: "market (by_value positions) = market positions"
    by (simp add: market_def by_value_def)
  have h: "held (by_value positions) = held positions"
    by (intro ext) (simp add: held_def by_value_def list_ex_iff)
  have "list_all (raisable k) (by_value positions)" using assms(1) by (simp add: by_value_def)
  from raise_loop_spec [OF this assms(2-4)] show ?thesis
    unfolding m h raise_cash_def by (auto simp: less_val split: if_splits)
qed

section \<open>What an accepted plan posts\<close>

lemma d_field_str [simp]: "d_field ((k, JStr (dec_str a)) # data) k = Inr a"
  by (simp add: d_field_def field_def dec_text.dec_enc)

lemma d_field_skip [simp]: "j \<noteq> k \<Longrightarrow> d_field ((j, v) # data) k = d_field data k"
  by (simp add: d_field_def field_def)

lemma str_field_str [simp]: "str_field ((k, JStr v) # data) k = Inr v"
  by (simp add: str_field_def field_def)

lemma str_field_skip [simp]: "j \<noteq> k \<Longrightarrow> str_field ((j, v) # data) k = str_field data k"
  by (simp add: str_field_def field_def)

lemma require_positive_Inr: "require_positive a = Inr u \<longleftrightarrow> 0 < val a"
  by (auto simp: require_positive_def le_val)

lemma plan_deposit_Inr:
  "plan_deposit sid amount = Inr evs \<longleftrightarrow>
     0 < val amount \<and>
     evs = [\<lparr>pf_type = FUNDS_DEPOSITED,
             pf_data = [(''sleeve_id'', JStr sid), (''amount'', JStr (dec_str amount))]\<rparr>]"
  by (auto simp: plan_deposit_def result_simps require_positive_Inr)

lemma plan_withdraw_Inr:
  "plan_withdraw sid amount free = Inr evs \<longleftrightarrow>
     0 < val amount \<and> val amount \<le> val free \<and>
     evs = [\<lparr>pf_type = FUNDS_WITHDRAWN,
             pf_data = [(''sleeve_id'', JStr sid), (''amount'', JStr (dec_str amount))]\<rparr>]"
  by (auto simp: plan_withdraw_def result_simps require_positive_Inr less_val split: if_splits)

lemma plan_allocate_Inr:
  "plan_allocate frm to amount free = Inr evs \<longleftrightarrow>
     0 < val amount \<and> val amount \<le> val free \<and>
     evs = [\<lparr>pf_type = CAPITAL_ALLOCATED, pf_data = move_data frm to amount\<rparr>]"
  by (auto simp: plan_allocate_def result_simps require_positive_Inr less_val split: if_splits)

lemma deposit_postings:
  "build_postings FUNDS_DEPOSITED [(''sleeve_id'', JStr sid), (''amount'', JStr (dec_str a))] =
     Inr [Posting None EXTERNAL (- a), Posting (Some sid) CASH a]"
  by simp

lemma withdraw_postings:
  "build_postings FUNDS_WITHDRAWN [(''sleeve_id'', JStr sid), (''amount'', JStr (dec_str a))] =
     Inr [Posting (Some sid) CASH (- a), Posting None EXTERNAL a]"
  by simp

lemma move_postings:
  "transfer_postings (move_data frm to a) =
     Inr [Posting (Some frm) CASH (- a), Posting (Some to) CASH a]"
  by (simp add: transfer_postings_def move_data_def)

lemma check_admission_iff:
  "check_admission requested free weights min_notional = [] \<longleftrightarrow>
     0 < val requested \<and> val requested \<le> val free \<and>
     list_all (\<lambda>(y, w). val min_notional \<le> val (dec_div (requested * w) (Dec 100 0))) weights"
  by (auto simp: check_admission_def Let_def less_val le_val not_less list_all_iff split: if_splits)

end
