(* ===== verification/Fund_Service.thy ===== *)
theory Fund_Service
  imports Repository Funds
begin

text \<open>
  Transactional fund disbursement (\<^verbatim>\<open>services/fund_service.py\<close>): the planners of
  \<^verbatim>\<open>ledger/funds.py\<close> run against the projection, append through the writer and reproject.
  An exception rolls the transaction back, so an operation returns either an error or the new
  database with the sleeve's projected cash. Telemetry is left out.

  On a healthy account an operation succeeds exactly when the amount is positive and covered by
  free cash (\<open>withdraw_ok_iff\<close>, \<open>allocate_ok_iff\<close>), and the account stays healthy.
\<close>

section \<open>The service\<close>

definition fund_event_id :: "'db store_env \<Rightarrow> string \<Rightarrow> string \<Rightarrow> string \<Rightarrow> nat \<Rightarrow> string" where
  "fund_event_id env account op request_id index =
     se_event_id env (account @ '':'' @ op @ '':'' @ request_id @ '':'' @ show_int (int index))"

definition fund_request ::
  "'db store_env \<Rightarrow> string \<Rightarrow> string \<Rightarrow> string \<Rightarrow> string \<Rightarrow> nat \<Rightarrow> planned_fund_event \<Rightarrow> append_request" where
  "fund_request env tenant account op request_id index ev =
     \<lparr>ar_tenant = tenant, ar_account = account, ar_type = pf_type ev, ar_data = pf_data ev,
      ar_sleeve = None,
      ar_event_id = (if request_id \<noteq> [] then Some (fund_event_id env account op request_id index) else None),
      ar_occurred_at = None\<rparr>"

fun append_all ::
  "'db store_env \<Rightarrow> string \<Rightarrow> string \<Rightarrow> string \<Rightarrow> string \<Rightarrow> 'db \<Rightarrow> (nat \<times> planned_fund_event) list \<Rightarrow>
   'db result" where
  "append_all env tenant account op request_id db [] = Inr db"
| "append_all env tenant account op request_id db ((i, ev) # evs) =
     bindR (store_append env db (fund_request env tenant account op request_id i ev)) (\<lambda>(db', r, new).
       append_all env tenant account op request_id db' evs)"

definition require_unallocated :: "sleeve_row list \<Rightarrow> string \<Rightarrow> string \<Rightarrow> sleeve_row result" where
  "require_unallocated sleeves tenant account =
     (case get_sleeve_by_type sleeves tenant account UNALLOCATED of
        None \<Rightarrow> Inl FundError | Some s \<Rightarrow> Inr s)"

definition require_sleeve :: "sleeve_row list \<Rightarrow> string \<Rightarrow> string \<Rightarrow> string \<Rightarrow> sleeve_row result" where
  "require_sleeve sleeves tenant account sid =
     (case find_sleeve sleeves tenant sid of
        None \<Rightarrow> Inl FundError
      | Some s \<Rightarrow> if sr_account s \<noteq> account then Inl FundError else Inr s)"

definition free_cash :: "'db store_env \<Rightarrow> 'db \<Rightarrow> string \<Rightarrow> string \<Rightarrow> string \<Rightarrow> decimal" where
  "free_cash env db tenant account sid =
     (let s = get_sleeve (store_project env db tenant account) sid in sl_cash s - sl_reserved s)"

text \<open>Append the planned events, reproject, assert the write invariants on the named sleeves.\<close>

definition commit_plan ::
  "'db store_env \<Rightarrow> string \<Rightarrow> string \<Rightarrow> string \<Rightarrow> string \<Rightarrow> 'db \<Rightarrow> planned_fund_event list \<Rightarrow>
   string list \<Rightarrow> ('db \<times> account_projection) result" where
  "commit_plan env tenant account op request_id db evs sids =
     bindR (append_all env tenant account op request_id db (enumerate 0 evs)) (\<lambda>db'.
     bindR (assert_write_invariants (store_project env db' tenant account) sids) (\<lambda>proj.
       Inr (db', proj)))"

definition fund_deposit ::
  "'db store_env \<Rightarrow> sleeve_row list \<Rightarrow> 'db \<Rightarrow> string \<Rightarrow> string \<Rightarrow> decimal \<Rightarrow> string \<Rightarrow>
   ('db \<times> sleeve_row \<times> decimal) result" where
  "fund_deposit env sleeves db tenant account amount request_id =
     bindR (require_unallocated sleeves tenant account) (\<lambda>unalloc.
     bindR (plan_deposit (sr_id unalloc) amount) (\<lambda>evs.
     bindR (commit_plan env tenant account ''deposit'' request_id db evs [sr_id unalloc]) (\<lambda>(db', proj).
       Inr (db', unalloc, sl_cash (get_sleeve proj (sr_id unalloc))))))"

definition fund_withdraw ::
  "'db store_env \<Rightarrow> sleeve_row list \<Rightarrow> 'db \<Rightarrow> string \<Rightarrow> string \<Rightarrow> decimal \<Rightarrow> string \<Rightarrow>
   ('db \<times> sleeve_row \<times> decimal) result" where
  "fund_withdraw env sleeves db tenant account amount request_id =
     bindR (require_unallocated sleeves tenant account) (\<lambda>unalloc.
     let free = free_cash env db tenant account (sr_id unalloc)
     in bindR (plan_withdraw (sr_id unalloc) amount free) (\<lambda>evs.
        bindR (commit_plan env tenant account ''withdraw'' request_id db evs [sr_id unalloc]) (\<lambda>(db', proj).
          Inr (db', unalloc, sl_cash (get_sleeve proj (sr_id unalloc))))))"

definition fund_allocate ::
  "'db store_env \<Rightarrow> sleeve_row list \<Rightarrow> 'db \<Rightarrow> string \<Rightarrow> string \<Rightarrow> string \<Rightarrow> decimal \<Rightarrow> string \<Rightarrow>
   ('db \<times> sleeve_row \<times> decimal) result" where
  "fund_allocate env sleeves db tenant account to_sid amount request_id =
     bindR (require_unallocated sleeves tenant account) (\<lambda>unalloc.
     bindR (require_sleeve sleeves tenant account to_sid) (\<lambda>to_sleeve.
     let free = free_cash env db tenant account (sr_id unalloc)
     in bindR (plan_allocate (sr_id unalloc) to_sid amount free) (\<lambda>evs.
        bindR (commit_plan env tenant account ''allocate'' request_id db evs [sr_id unalloc, to_sid])
          (\<lambda>(db', proj). Inr (db', to_sleeve, sl_cash (get_sleeve proj to_sid))))))"

definition fund_transfer ::
  "'db store_env \<Rightarrow> sleeve_row list \<Rightarrow> 'db \<Rightarrow> string \<Rightarrow> string \<Rightarrow> string \<Rightarrow> string \<Rightarrow> decimal \<Rightarrow> string \<Rightarrow>
   ('db \<times> decimal \<times> decimal) result" where
  "fund_transfer env sleeves db tenant account from_sid to_sid amount request_id =
     bindR (require_sleeve sleeves tenant account from_sid) (\<lambda>from_sleeve.
     bindR (require_sleeve sleeves tenant account to_sid) (\<lambda>to_sleeve.
     let free = free_cash env db tenant account from_sid
     in if free < amount then Inl FundError
        else bindR (plan_transfer from_sid to_sid amount free []) (\<lambda>plan.
             bindR (commit_plan env tenant account ''transfer'' request_id db [tp_transfer plan]
                      [from_sid, to_sid]) (\<lambda>(db', proj).
               Inr (db', sl_cash (get_sleeve proj from_sid), sl_cash (get_sleeve proj to_sid))))))"

section \<open>Healthy accounts\<close>

definition healthy_account :: "account_projection \<Rightarrow> bool" where
  "healthy_account acc \<longleftrightarrow> list_all healthy_sleeve (vals (acc_sleeves acc))"

lemma healthy_empty_sleeve [simp]: "healthy_sleeve empty_sleeve"
  by (simp add: healthy_sleeve_def)

lemma healthy_get_sleeve: "healthy_account acc \<Longrightarrow> healthy_sleeve (get_sleeve acc s)"
  unfolding healthy_account_def get_sleeve_def by (rule all_vals_get) simp_all

lemma dec_sum_nonneg:
  assumes "list_all (\<lambda>d. 0 \<le> val d) ds" shows "0 \<le> val (dec_sum ds)"
proof -
  have "0 \<le> val a \<Longrightarrow> 0 \<le> val (foldl (+) a ds)" for a
    using assms
  proof (induction ds arbitrary: a)
    case (Cons d ds)
    have "0 \<le> val (a + d)"
      using Cons.prems val_add_sign(3) [of a d] by (simp add: not_less [symmetric])
    with Cons show ?case by simp
  qed simp
  then show ?thesis by (simp add: dec_sum_def)
qed

lemma healthy_total_cash: "healthy_account acc \<Longrightarrow> 0 \<le> val (total_cash acc)"
  unfolding total_cash_def
  by (rule dec_sum_nonneg) (auto simp: healthy_account_def healthy_sleeve_def list_all_iff)

lemma healthy_write_ok: "healthy_account acc \<Longrightarrow> is_ok (assert_write_invariants acc sids)"
  by (simp add: assert_write_invariants_iff healthy_get_sleeve healthy_total_cash list_all_iff)

lemma healthy_on_sleeve:
  "healthy_account acc \<Longrightarrow> healthy_sleeve (f (get_sleeve acc sid)) \<Longrightarrow> healthy_account (on_sleeve sid f acc)"
  unfolding healthy_account_def get_sleeve_def by (rule on_sleeve_all)

lemma apply_cash_leg:
  "apply_posting acc (Posting (Some sid) CASH a) = on_sleeve sid (\<lambda>s. s\<lparr>sl_cash := sl_cash s + a\<rparr>) acc"
  by (simp add: apply_posting_def post_sleeve_def [abs_def] Posting_def)

lemma apply_external_leg [simp]: "apply_posting acc (Posting None b a) = acc"
  by (simp add: apply_posting_def Posting_def)

lemma healthy_credit:
  assumes "healthy_sleeve s" "0 \<le> val a" "grid k (val (sl_cash s))" "grid k (val a)"
    "room k (\<bar>val (sl_cash s)\<bar> + \<bar>val a\<bar>)"
  shows "healthy_sleeve (s\<lparr>sl_cash := sl_cash s + a\<rparr>)"
  using assms exact_add_in_room [OF assms(3,4) order_refl assms(5)]
  by (auto simp: healthy_sleeve_def)

lemma val_add_uminus_grid:
  assumes "grid k (val x)" "grid k (val a)" "room k (\<bar>val x\<bar> + \<bar>val a\<bar>)"
  shows "val (x + - a) = val x - val a"
proof -
  have "room k \<bar>val a\<bar>" using assms(3) by (rule room_mono) simp
  then have "val (- a) = - val a" using assms(2) by (intro val_uminus_grid)
  then show ?thesis
    using exact_add_in_room [of k x "- a" "\<bar>val x\<bar>"] assms by (simp add: grid_uminus)
qed

lemma healthy_debit:
  assumes "healthy_sleeve s" "0 \<le> val (sl_reserved s)"
    and g: "grid k (val (sl_cash s))" "grid k (val a)" "room k (\<bar>val (sl_cash s)\<bar> + \<bar>val a\<bar>)"
    and covered: "val a \<le> val (sl_cash s) - val (sl_reserved s)"
  shows "healthy_sleeve (s\<lparr>sl_cash := sl_cash s + - a\<rparr>)"
  using assms(1,2,6) val_add_uminus_grid [OF g] by (auto simp: healthy_sleeve_def)

section \<open>Committing one event\<close>

lemma cash_pair_balanced:
  assumes "grid k (val a)" "room k (2 * \<bar>val a\<bar>)" "b \<noteq> POSITION" "c \<noteq> POSITION"
  shows "assert_balanced [Posting s b (- a), Posting t c a] = Inr ()"
    and "assert_balanced [Posting s b a, Posting t c (- a)] = Inr ()"
proof -
  have "room k \<bar>val a\<bar>" using assms(2) by (rule room_mono) simp
  then have "val (- a) = - val a" using assms(1) by (intro val_uminus_grid)
  then show "assert_balanced [Posting s b (- a), Posting t c a] = Inr ()"
    and "assert_balanced [Posting s b a, Posting t c (- a)] = Inr ()"
    using assms by (simp_all add: balanced_on_grid [where k = k] Posting_def grid_uminus opposite_signed_def)
qed

text \<open>
  One planned event with a fresh id: the append inserts it, the projection moves by its postings,
  and the invariants of a healthy result are accepted.
\<close>

lemma commit_single:
  assumes env: "table_laws (se_insert env) (se_rows env)" "store_ok (se_rows env db)"
    and ps: "build_postings (pf_type ev) (pf_data ev) = Inr ps" "assert_balanced ps = Inr ()"
      "get_opt (pf_data ev) ''client_order_id'' = JNull"
    and fresh: "ev_id (new_row (se_fresh env) (se_now env) (fund_request env tenant account op rid 0 ev))
      \<notin> set (map ev_id (se_rows env db))"
    and healthy: "healthy_account (apply_postings (store_project env db tenant account) ps)"
  obtains db' proj where "commit_plan env tenant account op rid db [ev] sids = Inr (db', proj)"
    "store_project env db' tenant account = apply_postings (store_project env db tenant account) ps"
    "store_ok (se_rows env db')"
    "\<And>s. get_sleeve proj s = get_sleeve (store_project env db' tenant account) s"
proof -
  let ?req = "fund_request env tenant account op rid 0 ev"
  have req: "ar_type ?req = pf_type ev" "ar_data ?req = pf_data ev" "ar_tenant ?req = tenant"
    "ar_account ?req = account" by (simp_all add: fund_request_def)
  obtain db' r where app: "store_append env db ?req = Inr (db', r, True)"
    using inserts_new [OF env(1), of ?req ps db] ps(1,2) fresh by (auto simp: req)
  have proj: "store_project env db' tenant account = apply_postings (store_project env db tenant account) ps"
    using project_after_append [OF env app] ps(1,3) by (simp add: req)
  have ok: "store_ok (se_rows env db')" using append_store_ok [OF env app [unfolded store_append_def]] .
  obtain pr where pr: "assert_write_invariants (store_project env db' tenant account) sids = Inr pr"
    using healthy_write_ok [OF healthy, of sids] by (auto simp: result_simps proj)
  have "commit_plan env tenant account op rid db [ev] sids = Inr (db', pr)"
    using app pr by (simp add: commit_plan_def)
  with proj ok show thesis using that assert_write_invariants_keeps [OF pr] by blast
qed

lemma commit_plan_healthy:
  assumes "commit_plan env tenant account op rid db evs sids = Inr (db', proj)" "sid \<in> set sids"
  shows "healthy_sleeve (get_sleeve (store_project env db' tenant account) sid)"
proof -
  have "is_ok (assert_write_invariants (store_project env db' tenant account) sids)"
    using assms(1) by (auto simp: commit_plan_def result_simps)
  with assms(2) show ?thesis by (simp add: assert_write_invariants_iff list_all_iff)
qed

section \<open>Exactly the covered amounts are accepted\<close>

text \<open>The state a capital operation meets: a healthy account with amounts on a common grid.\<close>

definition solvent :: "nat \<Rightarrow> account_projection \<Rightarrow> string \<Rightarrow> decimal \<Rightarrow> bool" where
  "solvent k acc sid a \<longleftrightarrow>
     (let s = get_sleeve acc sid
      in healthy_account acc \<and> 0 \<le> val (sl_reserved s) \<and> grid k (val (sl_cash s)) \<and>
         grid k (val (sl_reserved s)) \<and> grid k (val a) \<and>
         room k (\<bar>val (sl_cash s)\<bar> + \<bar>val (sl_reserved s)\<bar> + 2 * \<bar>val a\<bar>))"

lemma solvent_free:
  assumes "solvent k acc sid a"
  shows "val (sl_cash (get_sleeve acc sid) - sl_reserved (get_sleeve acc sid)) =
    val (sl_cash (get_sleeve acc sid)) - val (sl_reserved (get_sleeve acc sid))"
proof (rule val_diff_grid)
  show "grid k (val (sl_cash (get_sleeve acc sid)))" "grid k (val (sl_reserved (get_sleeve acc sid)))"
    using assms by (simp_all add: solvent_def Let_def)
  have "room k (\<bar>val (sl_cash (get_sleeve acc sid))\<bar> + \<bar>val (sl_reserved (get_sleeve acc sid))\<bar> + 2 * \<bar>val a\<bar>)"
    using assms unfolding solvent_def Let_def by blast
  then show "room k \<bar>val (sl_cash (get_sleeve acc sid)) - val (sl_reserved (get_sleeve acc sid))\<bar>"
    by (rule room_mono) linarith
qed

lemma solvent_debit:
  assumes "solvent k acc sid a" "0 \<le> val a"
    "val a \<le> val (sl_cash (get_sleeve acc sid)) - val (sl_reserved (get_sleeve acc sid))"
  shows "healthy_account (apply_posting acc (Posting (Some sid) CASH (- a)))"
    and "val (sl_cash (get_sleeve (apply_posting acc (Posting (Some sid) CASH (- a))) sid)) =
      val (sl_cash (get_sleeve acc sid)) - val a"
proof -
  let ?s = "get_sleeve acc sid"
  have g: "grid k (val (sl_cash ?s))" "grid k (val a)" "healthy_account acc" "0 \<le> val (sl_reserved ?s)"
    using assms(1) by (simp_all add: solvent_def Let_def)
  have r: "room k (\<bar>val (sl_cash ?s)\<bar> + \<bar>val a\<bar>)"
    using assms(1) by (auto simp: solvent_def Let_def elim!: room_mono)
  show "healthy_account (apply_posting acc (Posting (Some sid) CASH (- a)))"
    unfolding apply_cash_leg using g r assms(3)
    by (intro healthy_on_sleeve healthy_debit healthy_get_sleeve) simp_all
  show "val (sl_cash (get_sleeve (apply_posting acc (Posting (Some sid) CASH (- a))) sid)) =
      val (sl_cash ?s) - val a"
    using val_add_uminus_grid [OF g(1,2) r] by (simp add: get_sleeve_apply_posting)
qed

lemma solvent_pair:
  assumes "solvent k acc sid a"
  shows "grid k (val a)" "room k (2 * \<bar>val a\<bar>)"
  using assms by (auto simp: solvent_def Let_def elim!: room_mono)

lemma withdraw_ok_iff:
  assumes env: "table_laws (se_insert env) (se_rows env)" "store_ok (se_rows env db)"
    and u: "get_sleeve_by_type sleeves tenant account UNALLOCATED = Some u"
    and s: "solvent k (store_project env db tenant account) (sr_id u) amount"
    and fresh: "\<And>ev. ev_id (new_row (se_fresh env) (se_now env)
      (fund_request env tenant account ''withdraw'' rid 0 ev)) \<notin> set (map ev_id (se_rows env db))"
  defines "before \<equiv> get_sleeve (store_project env db tenant account) (sr_id u)"
  shows "if 0 < val amount \<and> val amount \<le> val (sl_cash before) - val (sl_reserved before)
    then \<exists>db' cash. fund_withdraw env sleeves db tenant account amount rid = Inr (db', u, cash) \<and>
      val cash = val (sl_cash before) - val amount \<and>
      healthy_account (store_project env db' tenant account) \<and> store_ok (se_rows env db')
    else fund_withdraw env sleeves db tenant account amount rid = Inl FundError"
proof -
  let ?acc = "store_project env db tenant account"
  let ?ok = "0 < val amount \<and> val amount \<le> val (sl_cash before) - val (sl_reserved before)"
  let ?free = "free_cash env db tenant account (sr_id u)"
  have free: "val ?free = val (sl_cash before) - val (sl_reserved before)"
    using solvent_free [OF s] by (simp add: free_cash_def before_def Let_def)
  show ?thesis
  proof (cases ?ok)
    case False
    then have "plan_withdraw (sr_id u) amount ?free = Inl FundError"
      by (auto simp: plan_withdraw_def require_positive_def le_val less_val free)
    then show ?thesis using False u by (simp add: fund_withdraw_def require_unallocated_def Let_def)
  next
    case True
    let ?ev = "\<lparr>pf_type = FUNDS_WITHDRAWN,
      pf_data = [(''sleeve_id'', JStr (sr_id u)), (''amount'', JStr (dec_str amount))]\<rparr>"
    let ?ps = "[Posting (Some (sr_id u)) CASH (- amount), Posting None EXTERNAL amount]"
    have plan: "plan_withdraw (sr_id u) amount ?free = Inr [?ev]"
      using True by (simp add: plan_withdraw_Inr free)
    have post: "apply_postings ?acc ?ps = apply_posting ?acc (Posting (Some (sr_id u)) CASH (- amount))"
      by (simp add: posting_fold.run_Cons posting_fold.run_Nil)
    note d = solvent_debit [OF s, folded before_def]
    have "assert_balanced ?ps = Inr ()" using solvent_pair [OF s] by (intro cash_pair_balanced) simp_all
    then obtain db' proj where c: "commit_plan env tenant account ''withdraw'' rid db [?ev] [sr_id u] = Inr (db', proj)"
      "store_project env db' tenant account = apply_postings ?acc ?ps" "store_ok (se_rows env db')"
      "\<And>s. get_sleeve proj s = get_sleeve (store_project env db' tenant account) s"
      using commit_single [OF env, of ?ev ?ps tenant account "''withdraw''" rid "[sr_id u]"] fresh True d(1)
      by (auto simp: post get_opt_def dict_get_def)
    have "fund_withdraw env sleeves db tenant account amount rid =
        Inr (db', u, sl_cash (get_sleeve proj (sr_id u)))"
      using u plan c(1) by (simp add: fund_withdraw_def require_unallocated_def Let_def)
    moreover have "val (sl_cash (get_sleeve proj (sr_id u))) = val (sl_cash before) - val amount"
      unfolding c(4) c(2) post using d(2) True by simp
    moreover have "healthy_account (store_project env db' tenant account)"
      unfolding c(2) post using d(1) True by simp
    ultimately show ?thesis using True c(3) by simp
  qed
qed

lemma move_data_coid [simp]: "get_opt (move_data frm to a) ''client_order_id'' = JNull"
  by (simp add: move_data_def get_opt_def dict_get_def)

text \<open>An allocation debits the Unallocated sleeve and credits another sleeve by the same amount.\<close>

lemma allocate_effect:
  assumes s: "solvent k acc frm a" and a: "0 \<le> val a"
    and covered: "val a \<le> val (sl_cash (get_sleeve acc frm)) - val (sl_reserved (get_sleeve acc frm))"
    and ne: "frm \<noteq> to"
    and t: "grid k (val (sl_cash (get_sleeve acc to)))"
      "room k (\<bar>val (sl_cash (get_sleeve acc to))\<bar> + \<bar>val a\<bar>)"
  defines "acc' \<equiv> apply_postings acc [Posting (Some frm) CASH (- a), Posting (Some to) CASH a]"
  shows "healthy_account acc'"
    and "val (sl_cash (get_sleeve acc' frm)) = val (sl_cash (get_sleeve acc frm)) - val a"
    and "val (sl_cash (get_sleeve acc' to)) = val (sl_cash (get_sleeve acc to)) + val a"
proof -
  let ?mid = "apply_posting acc (Posting (Some frm) CASH (- a))"
  note d = solvent_debit [OF s a covered]
  have acc': "acc' = on_sleeve to (\<lambda>s. s\<lparr>sl_cash := sl_cash s + a\<rparr>) ?mid"
    unfolding acc'_def posting_fold.run_Cons posting_fold.run_Nil apply_cash_leg [of ?mid] by (rule refl)
  have to: "get_sleeve ?mid to = get_sleeve acc to" using ne by (simp add: get_sleeve_apply_posting)
  have g: "grid k (val a)" by (rule solvent_pair [OF s])
  show "healthy_account acc'"
    unfolding acc' using d(1) healthy_get_sleeve [OF d(1), of to] a t g
    by (intro healthy_on_sleeve healthy_credit) (simp_all add: to)
  show "val (sl_cash (get_sleeve acc' frm)) = val (sl_cash (get_sleeve acc frm)) - val a"
    using ne d(2) by (simp add: acc' get_sleeve_on_sleeve)
  show "val (sl_cash (get_sleeve acc' to)) = val (sl_cash (get_sleeve acc to)) + val a"
    using exact_add_in_room [OF t(1) g order_refl t(2)] by (simp add: acc' get_sleeve_on_sleeve to)
qed

lemma allocate_ok_iff:
  assumes env: "table_laws (se_insert env) (se_rows env)" "store_ok (se_rows env db)"
    and u: "get_sleeve_by_type sleeves tenant account UNALLOCATED = Some u"
    and t: "require_sleeve sleeves tenant account to_sid = Inr to_row" "sr_id u \<noteq> to_sid"
    and s: "solvent k (store_project env db tenant account) (sr_id u) amount"
    and g: "grid k (val (sl_cash (get_sleeve (store_project env db tenant account) to_sid)))"
      "room k (\<bar>val (sl_cash (get_sleeve (store_project env db tenant account) to_sid))\<bar> + \<bar>val amount\<bar>)"
    and fresh: "\<And>ev. ev_id (new_row (se_fresh env) (se_now env)
      (fund_request env tenant account ''allocate'' rid 0 ev)) \<notin> set (map ev_id (se_rows env db))"
  defines "before \<equiv> store_project env db tenant account"
  shows "if 0 < val amount \<and>
      val amount \<le> val (sl_cash (get_sleeve before (sr_id u))) - val (sl_reserved (get_sleeve before (sr_id u)))
    then \<exists>db' cash. fund_allocate env sleeves db tenant account to_sid amount rid = Inr (db', to_row, cash) \<and>
      val cash = val (sl_cash (get_sleeve before to_sid)) + val amount \<and>
      val (sl_cash (get_sleeve (store_project env db' tenant account) (sr_id u))) =
        val (sl_cash (get_sleeve before (sr_id u))) - val amount \<and>
      healthy_account (store_project env db' tenant account) \<and> store_ok (se_rows env db')
    else fund_allocate env sleeves db tenant account to_sid amount rid = Inl FundError"
    (is "if ?ok then ?P else ?Q")
proof -
  let ?free = "free_cash env db tenant account (sr_id u)"
  have free: "val ?free =
      val (sl_cash (get_sleeve before (sr_id u))) - val (sl_reserved (get_sleeve before (sr_id u)))"
    using solvent_free [OF s] by (simp add: free_cash_def before_def Let_def)
  show ?thesis
  proof (cases ?ok)
    case False
    then have "plan_allocate (sr_id u) to_sid amount ?free = Inl FundError"
      by (auto simp: plan_allocate_def require_positive_def le_val less_val free)
    then show ?thesis using False u t by (simp add: fund_allocate_def require_unallocated_def Let_def)
  next
    case True
    let ?ev = "\<lparr>pf_type = CAPITAL_ALLOCATED, pf_data = move_data (sr_id u) to_sid amount\<rparr>"
    let ?ps = "[Posting (Some (sr_id u)) CASH (- amount), Posting (Some to_sid) CASH amount]"
    have plan: "plan_allocate (sr_id u) to_sid amount ?free = Inr [?ev]"
      using True by (simp add: plan_allocate_Inr free)
    note e = allocate_effect [OF s _ _ t(2) g, folded before_def]
    have "assert_balanced ?ps = Inr ()" using solvent_pair [OF s] by (intro cash_pair_balanced) simp_all
    then obtain db' proj where c: "commit_plan env tenant account ''allocate'' rid db [?ev] [sr_id u, to_sid] = Inr (db', proj)"
      "store_project env db' tenant account = apply_postings before ?ps" "store_ok (se_rows env db')"
      "\<And>s. get_sleeve proj s = get_sleeve (store_project env db' tenant account) s"
      using commit_single [OF env, of ?ev ?ps tenant account "''allocate''" rid "[sr_id u, to_sid]"] fresh True e(1)
      by (auto simp: move_postings before_def)
    have "fund_allocate env sleeves db tenant account to_sid amount rid =
        Inr (db', to_row, sl_cash (get_sleeve proj to_sid))"
      using u t plan c(1) by (simp add: fund_allocate_def require_unallocated_def Let_def)
    with True c(3,4) e show ?thesis by (simp add: c(2))
  qed
qed

end
