(* ===== verification/Corporate.thy ===== *)
theory Corporate
  imports Fund_Service "HOL-Library.Product_Lexorder"
begin

text \<open>
  Corporate actions: the planners of \<^verbatim>\<open>ledger/corporate.py\<close> and the service that fans an
  action out across every holding sleeve (\<^verbatim>\<open>services/corporate_action_service.py\<close>).

  A split multiplies the quantity of every sleeve that holds the symbol by the ratio and leaves
  cash and cost alone (\<open>apply_split_spec\<close>); the planned event ids of one action are distinct
  (\<open>plan_split_distinct\<close>); a dividend split pays out exactly the total (\<open>split_dividend_total\<close>).
\<close>

section \<open>Planners\<close>

record planned_corporate_event =
  pc_type :: LedgerEventType
  pc_sleeve :: string
  pc_data :: payload
  pc_dedup :: string

definition colons :: "string list \<Rightarrow> string" where
  "colons parts = join '':'' parts"

definition plan_split_event :: "string \<Rightarrow> decimal \<Rightarrow> string \<Rightarrow> string \<times> decimal \<Rightarrow> planned_corporate_event list" where
  "plan_split_event y ratio external_id h =
     (let qty_delta = snd h * (ratio - Dec 1 0)
      in if is_zero (snd h) \<or> is_zero qty_delta then []
         else [\<lparr>pc_type = SPLIT_APPLIED, pc_sleeve = fst h,
                pc_data = [(''sleeve_id'', JStr (fst h)), (''symbol'', JStr y),
                           (''qty_delta'', JStr (dec_str qty_delta))],
                pc_dedup = colons [''split'', y, external_id, dec_str ratio, fst h]\<rparr>])"

definition plan_split ::
  "string \<Rightarrow> decimal \<Rightarrow> (string, decimal) dict \<Rightarrow> string \<Rightarrow> planned_corporate_event list result" where
  "plan_split y ratio holders external_id =
     (if ratio \<le> 0 then Inl ValueError
      else if external_id = [] then Inl ValueError
      else Inr (concat (map (plan_split_event y ratio external_id) holders)))"

definition plan_rename_event ::
  "string \<Rightarrow> string \<Rightarrow> string \<Rightarrow> string \<times> decimal \<times> decimal \<Rightarrow> planned_corporate_event list" where
  "plan_rename_event old_symbol new_symbol external_id h =
     (case h of (sid, qty, cost) \<Rightarrow>
        if is_zero qty then []
        else [\<lparr>pc_type = SYMBOL_CHANGED, pc_sleeve = sid,
               pc_data = [(''sleeve_id'', JStr sid), (''old_symbol'', JStr old_symbol),
                          (''new_symbol'', JStr new_symbol), (''qty'', JStr (dec_str qty)),
                          (''cost_basis'', JStr (dec_str cost))],
               pc_dedup = colons [''rename'', old_symbol, new_symbol, external_id, sid]\<rparr>])"

definition plan_symbol_change ::
  "string \<Rightarrow> string \<Rightarrow> (string, decimal \<times> decimal) dict \<Rightarrow> string \<Rightarrow> planned_corporate_event list result" where
  "plan_symbol_change old_symbol new_symbol holders external_id =
     (if external_id = [] then Inl ValueError
      else Inr (concat (map (plan_rename_event old_symbol new_symbol external_id) holders)))"

text \<open>
  The pro-rata loop over all holders but the largest: the cent-rounded shares_paid and their sum.
\<close>

fun dividend_shares ::
  "decimal \<Rightarrow> decimal \<Rightarrow> decimal \<Rightarrow> (string \<times> decimal) list \<Rightarrow> ((string \<times> decimal) list \<times> decimal) result" where
  "dividend_shares total_amount total_qty allocated [] = Inr ([], allocated)"
| "dividend_shares total_amount total_qty allocated ((sid, qty) # hs) =
     bindR (dec_quantize ROUND_HALF_UP (- 2) (dec_div (total_amount * qty) total_qty)) (\<lambda>amt.
     bindR (dividend_shares total_amount total_qty (allocated + amt) hs) (\<lambda>(rest, allocated').
       Inr ((sid, amt) # rest, allocated')))"

definition largest_first :: "(string, decimal) dict \<Rightarrow> (string \<times> decimal) list" where
  "largest_first holders = rev (sort_key (\<lambda>(sid, q). (val q, sid)) (rev holders))"

definition dividend_amounts ::
  "decimal \<Rightarrow> (string, decimal) dict \<Rightarrow> (string, decimal) dict result" where
  "dividend_amounts total_amount holders =
     (let positive = filter (\<lambda>(sid, q). 0 < q) holders; total_qty = dec_sum (vals positive)
      in if is_zero total_qty then Inr []
         else case largest_first positive of
                [] \<Rightarrow> Inr []
              | (sid, q) # rest \<Rightarrow>
                  bindR (dividend_shares total_amount total_qty 0 rest) (\<lambda>(shares_paid, allocated).
                    Inr (AList.update sid (total_amount - allocated) shares_paid)))"

definition split_dividend ::
  "string \<Rightarrow> decimal \<Rightarrow> (string, decimal) dict \<Rightarrow> string \<Rightarrow> planned_corporate_event list result" where
  "split_dividend y total_amount holders pay_id =
     (if total_amount \<le> 0 then Inl ValueError
      else bindR (dividend_amounts total_amount holders) (\<lambda>shares_paid.
             Inr (map (\<lambda>(sid, amount).
               \<lparr>pc_type = DIVIDEND_RECEIVED, pc_sleeve = sid,
                pc_data = [(''sleeve_id'', JStr sid), (''amount'', JStr (dec_str amount))],
                pc_dedup = colons [''div'', y, pay_id, sid]\<rparr>) shares_paid)))"

section \<open>The service\<close>

definition holders_of :: "account_projection \<Rightarrow> string \<Rightarrow> (string \<times> position_state) list" where
  "holders_of acc y =
     concat (map (\<lambda>(sid, s).
       case map_of (sl_positions s) y of
         None \<Rightarrow> [] | Some pos \<Rightarrow> if is_zero (ps_qty pos) then [] else [(sid, pos)]) (acc_sleeves acc))"

definition corporate_request ::
  "'db store_env \<Rightarrow> string \<Rightarrow> string \<Rightarrow> planned_corporate_event \<Rightarrow> append_request" where
  "corporate_request env tenant account ev =
     \<lparr>ar_tenant = tenant, ar_account = account, ar_type = pc_type ev, ar_data = pc_data ev,
      ar_sleeve = Some (pc_sleeve ev), ar_event_id = Some (se_event_id env (pc_dedup ev)),
      ar_occurred_at = None\<rparr>"

definition corporate_append_all ::
  "'db store_env \<Rightarrow> 'db \<Rightarrow> string \<Rightarrow> string \<Rightarrow> planned_corporate_event list \<Rightarrow> ('db \<times> nat) result" where
  "corporate_append_all env db tenant account evs =
     bindR (append_requests env db (map (corporate_request env tenant account) evs)) (\<lambda>db'.
       if evs = [] then Inr (db', 0)
       else bindR (assert_write_invariants (store_project env db' tenant account)
                     (sort (remdups (map pc_sleeve evs)))) (\<lambda>_.
              Inr (db', length evs)))"

definition apply_split_action ::
  "'db store_env \<Rightarrow> 'db \<Rightarrow> string \<Rightarrow> string \<Rightarrow> string \<Rightarrow> decimal \<Rightarrow> string \<Rightarrow> ('db \<times> nat) result" where
  "apply_split_action env db tenant account y ratio external_id =
     bindR (plan_split y ratio
              (map (\<lambda>(sid, pos). (sid, ps_qty pos)) (holders_of (store_project env db tenant account) y))
              external_id) (\<lambda>evs.
       corporate_append_all env db tenant account evs)"

definition apply_symbol_change ::
  "'db store_env \<Rightarrow> 'db \<Rightarrow> string \<Rightarrow> string \<Rightarrow> string \<Rightarrow> string \<Rightarrow> string \<Rightarrow> ('db \<times> nat) result" where
  "apply_symbol_change env db tenant account old_symbol new_symbol external_id =
     bindR (plan_symbol_change old_symbol new_symbol
              (map (\<lambda>(sid, pos). (sid, ps_qty pos, ps_cost pos))
                 (holders_of (store_project env db tenant account) old_symbol))
              external_id) (\<lambda>evs.
       corporate_append_all env db tenant account evs)"

definition apply_dividend ::
  "'db store_env \<Rightarrow> 'db \<Rightarrow> string \<Rightarrow> string \<Rightarrow> string \<Rightarrow> decimal \<Rightarrow> string \<Rightarrow> ('db \<times> nat) result" where
  "apply_dividend env db tenant account y total_amount pay_id =
     bindR (split_dividend y total_amount
              (filter (\<lambda>(sid, q). 0 < q)
                 (map (\<lambda>(sid, pos). (sid, ps_qty pos))
                    (holders_of (store_project env db tenant account) y)))
              pay_id) (\<lambda>evs.
       corporate_append_all env db tenant account evs)"

section \<open>Dividends pay out the total\<close>

lemma dividend_share_bound:
  assumes q: "0 < val qty" "val qty \<le> val total_qty" and t: "0 < val total_amount"
    and z: "dec_quantize ROUND_HALF_UP (- 2) (dec_div (total_amount * qty) total_qty) = Inr amt"
  shows "grid 2 (val amt)" "0 \<le> val amt" "val amt \<le> 2 * val total_amount + 1"
proof -
  have tq: "0 < val total_qty" using q by linarith
  have p: "0 < val (total_amount * qty)" using q t by (simp add: val_mult_sign)
  define x where "x = val (dec_div (total_amount * qty) total_qty)"
  have x0: "0 \<le> x" unfolding x_def using p tq by (intro dec_div_nonneg) simp_all
  have "val (total_amount * qty) \<le> val total_amount * val qty * (1 + ulp28)"
    using abs_le_of_error [OF mult_error [of total_amount qty]] q t p by simp
  also have "\<dots> \<le> val total_amount * val total_qty * (1 + ulp28)"
    using q t by (intro mult_right_mono mult_left_mono) (simp_all add: ulp28_def)
  finally have num: "val (total_amount * qty) \<le> val total_amount * val total_qty * (1 + ulp28)" .
  have "\<bar>x\<bar> \<le> \<bar>val (total_amount * qty) / val total_qty\<bar> * (1 + div_eps)"
    unfolding x_def using dec_div_error [of total_qty "total_amount * qty"] tq
    by (intro abs_le_of_error) (simp_all add: mult.commute)
  then have "x \<le> val (total_amount * qty) / val total_qty * (1 + div_eps)" using x0 p tq by simp
  also have "\<dots> \<le> (val total_amount * val total_qty * (1 + ulp28)) / val total_qty * (1 + div_eps)"
    using num tq by (intro mult_right_mono divide_right_mono) (simp_all add: div_eps_def)
  also have "\<dots> = val total_amount * ((1 + ulp28) * (1 + div_eps))" using tq by simp
  also have "\<dots> \<le> val total_amount * 2"
    using t by (intro mult_left_mono) (simp_all add: ulp28_def div_eps_def)
  finally have x: "x \<le> 2 * val total_amount" by simp
  note d = dec_quantize_Inr [OF z]
  show "grid 2 (val amt)" using d(5) by simp
  show "0 \<le> val amt" using d(4) x0 by (auto simp: x_def sgn_if split: if_splits)
  have "\<bar>val amt - x\<bar> \<le> 1 / 200" using d(2) by (simp add: x_def power_int_minus)
  with x show "val amt \<le> 2 * val total_amount + 1" by linarith
qed

lemma dividend_shares_sum:
  assumes "dividend_shares total_amount total_qty allocated hs = Inr (shares_paid, allocated')"
    and "list_all (\<lambda>(s, q). 0 < val q \<and> val q \<le> val total_qty) hs" "0 < val total_amount"
    and "grid k (val allocated)" "2 \<le> k" "0 \<le> val allocated"
    and "room k (val allocated + (2 * val total_amount + 1) * of_nat (length hs))"
  shows "map fst shares_paid = map fst hs"
    and "val allocated' = val allocated + sum_list (map (\<lambda>(s, a). val a) shares_paid)"
    and "grid k (val allocated')" "0 \<le> val allocated'"
    "val allocated' \<le> val allocated + (2 * val total_amount + 1) * of_nat (length hs)"
    and "list_all (\<lambda>(s, a). grid 2 (val a) \<and> 0 \<le> val a) shares_paid"
proof -
  have "map fst shares_paid = map fst hs \<and>
      val allocated' = val allocated + sum_list (map (\<lambda>(s, a). val a) shares_paid) \<and>
      grid k (val allocated') \<and> 0 \<le> val allocated' \<and>
      val allocated' \<le> val allocated + (2 * val total_amount + 1) * of_nat (length hs) \<and>
      list_all (\<lambda>(s, a). grid 2 (val a) \<and> 0 \<le> val a) shares_paid"
    using assms
  proof (induction hs arbitrary: allocated shares_paid)
    case Nil
    then show ?case by simp
  next
    case (Cons h hs)
    obtain sid qty where h: "h = (sid, qty)" by (cases h)
    obtain amt rest where amt: "dec_quantize ROUND_HALF_UP (- 2) (dec_div (total_amount * qty) total_qty) = Inr amt"
      and rest: "dividend_shares total_amount total_qty (allocated + amt) hs = Inr (rest, allocated')"
      and shares_paid: "shares_paid = (sid, amt) # rest"
      using Cons.prems(1) by (auto simp: h result_simps)
    have q: "0 < val qty" "val qty \<le> val total_qty" using Cons.prems(2) by (simp_all add: h)
    note b = dividend_share_bound [OF q Cons.prems(3) amt]
    let ?c = "2 * val total_amount + 1"
    have n: "0 \<le> ?c * of_nat (length hs)" using Cons.prems(3) by simp
    have len: "?c * of_nat (length (h # hs)) = ?c + ?c * of_nat (length hs)"
      by (simp add: algebra_simps)
    have g: "grid k (val amt)" using b(1) Cons.prems(5) by (rule grid_mono)
    have "room k (\<bar>val allocated\<bar> + \<bar>val amt\<bar>)"
      using Cons.prems(7) by (rule room_mono) (use len n b Cons.prems(6) in linarith)
    then have v: "val (allocated + amt) = val allocated + val amt"
      using exact_add_in_room [OF Cons.prems(4) g order_refl] by simp
    have "room k (val (allocated + amt) + ?c * of_nat (length hs))"
      using Cons.prems(7) by (rule room_mono) (use len b(3) v in linarith)
    from Cons.IH [OF rest _ Cons.prems(3) _ Cons.prems(5) _ this] Cons.prems(2,4,6) b g
    show ?case unfolding v len by (auto simp: shares_paid h grid_add)
  qed
  then show "map fst shares_paid = map fst hs"
    and "val allocated' = val allocated + sum_list (map (\<lambda>(s, a). val a) shares_paid)"
    and "grid k (val allocated')" "0 \<le> val allocated'"
    "val allocated' \<le> val allocated + (2 * val total_amount + 1) * of_nat (length hs)"
    and "list_all (\<lambda>(s, a). grid 2 (val a) \<and> 0 \<le> val a) shares_paid" by blast+
qed

definition dividend_paid :: "planned_corporate_event \<Rightarrow> rat" where
  "dividend_paid ev = (case d_field (pc_data ev) ''amount'' of Inr a \<Rightarrow> val a | Inl e \<Rightarrow> 0)"

lemma set_largest_first [simp]: "set (largest_first hs) = set hs"
  by (simp add: largest_first_def)

lemma keys_largest_first: "wf_dict hs \<Longrightarrow> wf_dict (largest_first hs)"
proof -
  assume "wf_dict hs"
  moreover have "mset (keys (largest_first hs)) = mset (keys hs)"
    by (simp add: largest_first_def)
  ultimately show ?thesis by (metis mset_eq_imp_distinct_iff)
qed

lemma length_largest_first [simp]: "length (largest_first hs) = length hs"
  by (simp add: largest_first_def)

lemma member_le_sum:
  assumes "list_all (\<lambda>(s, q). 0 < val q) hs" "(s, q) \<in> set hs"
  shows "val q \<le> sum_list (map val (vals hs))"
  using assms
proof (induction hs)
  case (Cons h hs)
  have "0 \<le> sum_list (map val (vals hs))" using Cons.prems(1) by (intro sum_list_nonneg) (auto simp: list_all_iff)
  with Cons show ?case by auto
qed simp

lemma dividend_amounts_sum:
  assumes ok: "dividend_amounts total_amount holders = Inr shares_paid"
    and wf: "wf_dict holders" and ex: "list_ex (\<lambda>(s, q). 0 < val q) holders"
    and q: "on_grid j (vals (filter (\<lambda>(s, q). 0 < q) holders))"
      "room j (weight (vals (filter (\<lambda>(s, q). 0 < q) holders)))"
    and t: "0 < val total_amount" "grid k (val total_amount)" "2 \<le> k"
      "room k ((2 * val total_amount + 1) * of_nat (length holders))"
  shows "sum_vals val shares_paid = val total_amount"
proof -
  define positive where "positive = filter (\<lambda>(s, q). 0 < q) holders"
  let ?c = "2 * val total_amount + 1"
  define total_qty where "total_qty = dec_sum (vals positive)"
  have pos: "list_all (\<lambda>(s, q). 0 < val q) positive"
    by (auto simp: positive_def list_all_iff less_val)
  have ne: "positive \<noteq> []" using ex by (auto simp: positive_def list_ex_iff less_val filter_empty_conv)
  have wfp: "wf_dict positive" using wf by (simp add: positive_def distinct_map_filter)
  have tq: "val total_qty = sum_list (map val (vals positive))"
    unfolding total_qty_def positive_def by (rule val_dec_sum [OF q])
  have le: "val b \<le> val total_qty" "0 < val b" if "(a, b) \<in> set positive" for a b
    using member_le_sum [OF pos that] pos that by (auto simp: tq list_all_iff)
  obtain sid0 q0 rest where lf: "largest_first positive = (sid0, q0) # rest"
    using ne by (metis length_0_conv length_largest_first list.exhaust prod.exhaust)
  have tq0: "\<not> is_zero total_qty"
    using ne le by (cases positive) (force simp: is_zero_val)+
  obtain ss allocated where sh: "dividend_shares total_amount total_qty 0 rest = Inr (ss, allocated)"
    and out: "shares_paid = AList.update sid0 (total_amount - allocated) ss"
    using ok tq0 lf
    by (auto simp: dividend_amounts_def Let_def positive_def [symmetric] total_qty_def [symmetric] result_simps)
  have len: "length rest \<le> length holders"
    using arg_cong [OF lf, of length] length_filter_le [of "\<lambda>(s, q). 0 < q" holders]
    by (simp add: positive_def)
  have "set rest \<subseteq> set positive" using set_largest_first [of positive] by (auto simp: lf)
  then have rp: "list_all (\<lambda>(s, q). 0 < val q \<and> val q \<le> val total_qty) rest"
    using le by (auto simp: list_all_iff)
  have c: "0 < ?c" using t(1) by simp
  have "?c * of_nat (length rest) \<le> ?c * of_nat (length holders)"
    using len c by (intro mult_left_mono) simp_all
  then have r: "room k (?c * of_nat (length rest))" using t(4) by (rule room_mono [rotated])
  have ds: "map fst ss = map fst rest" "val allocated = sum_list (map (\<lambda>(s, a). val a) ss)"
    "grid k (val allocated)" "0 \<le> val allocated" "val allocated \<le> ?c * of_nat (length rest)"
    using dividend_shares_sum [OF sh rp t(1) _ t(3)] r by simp_all
  have "\<bar>val total_amount - val allocated\<bar> \<le> ?c * of_nat (length holders)"
  proof -
    have arith: "\<bar>x - a\<bar> \<le> y" if "c * 1 \<le> y" "z \<le> y" "0 \<le> a" "a \<le> z" "0 < x" "x \<le> c" for x a y z c :: rat
      using that by linarith
    have "1 \<le> length holders" using ex by (cases holders) auto
    then have one: "?c * 1 \<le> ?c * of_nat (length holders)" using c by (intro mult_left_mono) simp_all
    have more: "?c * of_nat (length rest) \<le> ?c * of_nat (length holders)" by fact
    show ?thesis by (rule arith [OF one more ds(4,5) t(1)]) (use t(1) in simp)
  qed
  with t(4) have "room k \<bar>val total_amount - val allocated\<bar>" by (rule room_mono)
  then have d: "val (total_amount - allocated) = val total_amount - val allocated"
    by (rule val_diff_grid [OF t(2) ds(3)])
  have "sid0 \<notin> set (keys ss)"
    using keys_largest_first [OF wfp] by (simp add: lf ds(1))
  then have "map_of ss sid0 = None" by (simp add: map_of_eq_None_iff)
  moreover have "sum_vals val ss = val allocated"
    by (simp add: ds(2) sum_vals_conv comp_def case_prod_unfold)
  ultimately show ?thesis by (simp add: out sum_vals_update d)
qed

lemma split_dividend_total:
  assumes ok: "split_dividend y total_amount holders pay_id = Inr evs"
    and wf: "wf_dict holders" and ex: "list_ex (\<lambda>(s, q). 0 < val q) holders"
    and q: "on_grid j (vals (filter (\<lambda>(s, q). 0 < q) holders))"
      "room j (weight (vals (filter (\<lambda>(s, q). 0 < q) holders)))"
    and t: "grid k (val total_amount)" "2 \<le> k"
      "room k ((2 * val total_amount + 1) * of_nat (length holders))"
  shows "sum_list (map dividend_paid evs) = val total_amount"
proof -
  have pos: "0 < val total_amount" using ok by (auto simp: split_dividend_def le_val split: if_splits)
  obtain am where am: "dividend_amounts total_amount holders = Inr am"
    and evs: "map dividend_paid evs = map (\<lambda>(sid, a). val a) am"
    using ok by (auto simp: split_dividend_def result_simps dividend_paid_def comp_def case_prod_beta
        split: if_splits)
  have "sum_vals val am = val total_amount"
    by (rule dividend_amounts_sum [OF am wf ex q pos t])
  then show ?thesis by (simp add: evs sum_vals_conv comp_def case_prod_unfold)
qed

section \<open>Planned ids are distinct\<close>

lemma colons_last_inject: "colons (ps @ [x]) = colons (ps @ [y]) \<longleftrightarrow> x = y"
proof (cases ps)
  case Nil
  then show ?thesis by (simp add: colons_def)
next
  case (Cons p qs)
  have "\<exists>w. \<forall>x. join '':'' (p # qs @ [x]) = w @ x"
  proof (induction qs arbitrary: p)
    case Nil
    then show ?case by auto
  next
    case (Cons q qs)
    from Cons.IH [of q] obtain w where "\<forall>x. join '':'' (q # qs @ [x]) = w @ x" by blast
    then have "\<forall>x. join '':'' (p # (q # qs) @ [x]) = (p @ '':'' @ w) @ x" by simp
    then show ?case by blast
  qed
  then show ?thesis using Cons by (auto simp: colons_def)
qed

lemma split_dedup_inject:
  "colons [''split'', y, e, r, s] = colons [''split'', y, e, r, s'] \<longleftrightarrow> s = s'"
  using colons_last_inject [of "[''split'', y, e, r]" s s'] by simp

lemma plan_split_event_sleeves: "map pc_sleeve (plan_split_event y r e h) \<in> {[], [fst h]}"
  by (simp add: plan_split_event_def Let_def)

lemma plan_split_distinct:
  assumes "plan_split y ratio holders external_id = Inr evs" "wf_dict holders"
  shows "distinct (map pc_dedup evs)" "distinct (map pc_sleeve evs)"
    "set (map pc_sleeve evs) \<subseteq> set (keys holders)"
proof -
  have evs: "evs = concat (map (plan_split_event y ratio external_id) holders)"
    using assms(1) by (simp add: plan_split_def split: if_splits)
  have "map pc_sleeve (plan_split_event y ratio external_id h) \<in> {[], [fst h]}" for h
    by (rule plan_split_event_sleeves)
  note distinct_concat_map [of pc_sleeve "plan_split_event y ratio external_id", OF this assms(2)]
  then show s: "distinct (map pc_sleeve evs)" "set (map pc_sleeve evs) \<subseteq> set (keys holders)"
    unfolding evs by blast+
  have "map pc_dedup evs = map (\<lambda>s. colons [''split'', y, external_id, dec_str ratio, s]) (map pc_sleeve evs)"
    unfolding evs map_map comp_def map_concat
    by (rule arg_cong [where f = concat]) (simp add: plan_split_event_def Let_def)
  moreover have "inj_on (\<lambda>s. colons [''split'', y, external_id, dec_str ratio, s]) (set (map pc_sleeve evs))"
    by (simp add: inj_on_def split_dedup_inject)
  ultimately show "distinct (map pc_dedup evs)" using s(1) by (metis distinct_map)
qed

section \<open>A split multiplies every holding\<close>

definition cell :: "account_projection \<Rightarrow> string \<Rightarrow> string \<Rightarrow> position_state" where
  "cell acc s y = dict_get (sl_positions (get_sleeve acc s)) y empty_position"

lemma pos_qty_cell: "pos_qty acc s y = val (ps_qty (cell acc s y))"
  by (simp add: pos_qty_def cell_def get_sleeve_def)

definition split_leg :: "string \<Rightarrow> string \<times> decimal \<Rightarrow> posting list" where
  "split_leg y sd = [PositionLeg (fst sd) 0 y (snd sd)]"

lemma split_leg_balanced: "assert_balanced (split_leg y sd) = Inr ()"
  by (simp add: assert_balanced_iff split_leg_def PositionLeg_def dec_sum_def val_add_sign
      opposite_signed_def less_val)

lemma apply_split_leg:
  "apply_postings acc (split_leg y sd) =
     on_sleeve (fst sd) (\<lambda>s. s\<lparr>sl_positions := dict_modify y empty_position
       (\<lambda>pos. pos\<lparr>ps_cost := ps_cost pos + 0, ps_qty := ps_qty pos + snd sd\<rparr>) (sl_positions s)\<rparr>) acc"
  by (simp add: split_leg_def posting_fold.run_Cons posting_fold.run_Nil apply_posting_def
      post_sleeve_def [abs_def] post_position_def [abs_def] PositionLeg_def)

lemma cell_split_leg:
  "cell (apply_postings acc (split_leg y sd)) s z =
     (if s = fst sd \<and> z = y
      then (cell acc s y)\<lparr>ps_cost := ps_cost (cell acc s y) + 0, ps_qty := ps_qty (cell acc s y) + snd sd\<rparr>
      else cell acc s z)"
  by (auto simp: apply_split_leg cell_def get_sleeve_on_sleeve dict_simps)

lemma cash_split_leg:
  "sl_cash (get_sleeve (apply_postings acc (split_leg y sd)) s) = sl_cash (get_sleeve acc s)"
  by (auto simp: apply_split_leg get_sleeve_on_sleeve)

definition splits_by :: "decimal \<Rightarrow> position_state \<Rightarrow> decimal \<Rightarrow> bool" where
  "splits_by ratio pos d \<longleftrightarrow>
     val (ps_qty pos + d) = val (ps_qty pos) * val ratio \<and> val (ps_cost pos + 0) = val (ps_cost pos)"

lemma split_legs_effect:
  assumes "distinct (map fst legs)" "healthy_account acc" "0 < val ratio"
    and "list_all (\<lambda>sd. splits_by ratio (cell acc (fst sd) y) (snd sd)) legs"
  defines "acc' \<equiv> foldl apply_postings acc (map (split_leg y) legs)"
  shows "healthy_account acc' \<and>
    (\<forall>s z. val (ps_qty (cell acc' s z)) =
       (if z = y \<and> s \<in> set (map fst legs) then val (ps_qty (cell acc s z)) * val ratio
        else val (ps_qty (cell acc s z))) \<and>
       val (ps_cost (cell acc' s z)) = val (ps_cost (cell acc s z)) \<and>
       sl_cash (get_sleeve acc' s) = sl_cash (get_sleeve acc s))"
  using assms(1,2,4) unfolding acc'_def
proof (induction legs arbitrary: acc)
  case Nil
  then show ?case by simp
next
  case (Cons sd legs)
  let ?acc = "apply_postings acc (split_leg y sd)"
  have sp: "splits_by ratio (cell acc (fst sd) y) (snd sd)" using Cons.prems(3) by simp
  have other: "cell ?acc (fst x) y = cell acc (fst x) y" if "x \<in> set legs" for x
    using Cons.prems(1) that by (auto simp: cell_split_leg image_iff)
  have healthy: "healthy_account ?acc"
    unfolding apply_split_leg
  proof (rule healthy_on_sleeve [OF Cons.prems(2)])
    let ?s = "get_sleeve acc (fst sd)"
    have h: "healthy_sleeve ?s" using Cons.prems(2) by (rule healthy_get_sleeve)
    then have "0 \<le> val (ps_qty (cell acc (fst sd) y))"
      unfolding cell_def healthy_sleeve_def by (auto intro: all_vals_get)
    then have "0 \<le> val (ps_qty (cell acc (fst sd) y) + snd sd)"
      using sp assms(3) by (simp add: splits_by_def)
    then show "healthy_sleeve (?s\<lparr>sl_positions := dict_modify y empty_position
       (\<lambda>pos. pos\<lparr>ps_cost := ps_cost pos + 0, ps_qty := ps_qty pos + snd sd\<rparr>) (sl_positions ?s)\<rparr>)"
      using h by (auto simp: healthy_sleeve_def cell_def intro!: all_vals_modify)
  qed
  have "list_all (\<lambda>sd. splits_by ratio (cell ?acc (fst sd) y) (snd sd)) legs"
    using Cons.prems(3) other by (auto simp: list_all_iff)
  note IH = Cons.IH [OF _ healthy this]
  have fst: "fst sd \<notin> set (map fst legs)" using Cons.prems(1) by simp
  show ?case
    using IH Cons.prems(1) sp fst
    by (auto simp: cell_split_leg cash_split_leg splits_by_def)
qed

lemma split_exact:
  assumes "rep28 (val ratio - 1)" "rep28 (val q * (val ratio - 1))" "rep28 (val q * val ratio)"
  shows "val (q + q * (ratio - Dec 1 0)) = val q * val ratio"
    and "is_zero (q * (ratio - Dec 1 0)) \<longleftrightarrow> val q = 0 \<or> val ratio = 1"
proof -
  have one: "val (Dec 1 0) = 1" by (simp add: val_Dec)
  have d: "val (ratio - Dec 1 0) = val ratio - 1" using assms(1) by (simp add: val_diff one)
  have m: "val (q * (ratio - Dec 1 0)) = val q * (val ratio - 1)" using assms(2) by (simp add: val_mult d)
  have "val q + val q * (val ratio - 1) = val q * val ratio" by (simp add: algebra_simps)
  then show "val (q + q * (ratio - Dec 1 0)) = val q * val ratio"
    using assms(3) by (simp add: val_add m)
  show "is_zero (q * (ratio - Dec 1 0)) \<longleftrightarrow> val q = 0 \<or> val ratio = 1"
    by (simp add: is_zero_val m)
qed

lemma holders_in:
  "(sid, pos) \<in> set (holders_of acc y) \<longleftrightarrow>
     (\<exists>s. (sid, s) \<in> set (acc_sleeves acc) \<and> map_of (sl_positions s) y = Some pos \<and> \<not> is_zero (ps_qty pos))"
  by (force simp: holders_of_def split: option.splits if_splits)

lemma holders_keys:
  assumes "acc_wf acc" shows "wf_dict (holders_of acc y)"
  using assms unfolding holders_of_def acc_wf_def
  by (intro distinct_concat_map [THEN conjunct1]) (auto split: option.splits)

lemma holders_cell:
  assumes "acc_wf acc"
  shows "(sid, pos) \<in> set (holders_of acc y) \<longleftrightarrow> pos = cell acc sid y \<and> \<not> is_zero (ps_qty pos)"
proof
  assume "(sid, pos) \<in> set (holders_of acc y)"
  then obtain s where s: "(sid, s) \<in> set (acc_sleeves acc)" "map_of (sl_positions s) y = Some pos"
    "\<not> is_zero (ps_qty pos)" by (auto simp: holders_in)
  then have "get_sleeve acc sid = s"
    using assms by (simp add: get_sleeve_def dict_get_def acc_wf_def)
  then show "pos = cell acc sid y \<and> \<not> is_zero (ps_qty pos)"
    using s(2,3) by (simp add: cell_def dict_get_def)
next
  assume pos: "pos = cell acc sid y \<and> \<not> is_zero (ps_qty pos)"
  then have "map_of (acc_sleeves acc) sid \<noteq> None"
    by (auto simp: cell_def get_sleeve_def dict_get_def is_zero_val split: option.splits)
  then obtain s where s: "map_of (acc_sleeves acc) sid = Some s" by auto
  moreover have "map_of (sl_positions s) y = Some pos"
    using pos s by (auto simp: cell_def get_sleeve_def dict_get_def is_zero_val split: option.splits)
  ultimately show "(sid, pos) \<in> set (holders_of acc y)"
    using pos by (auto simp: holders_in dest: map_of_SomeD)
qed

definition split_legs :: "decimal \<Rightarrow> (string, decimal) dict \<Rightarrow> (string \<times> decimal) list" where
  "split_legs ratio holders =
     concat (map (\<lambda>(sid, q). let d = q * (ratio - Dec 1 0)
       in if is_zero q \<or> is_zero d then [] else [(sid, d)]) holders)"

definition split_event_of :: "string \<Rightarrow> decimal \<Rightarrow> string \<Rightarrow> string \<times> decimal \<Rightarrow> planned_corporate_event" where
  "split_event_of y ratio external_id sd =
     \<lparr>pc_type = SPLIT_APPLIED, pc_sleeve = fst sd,
      pc_data = [(''sleeve_id'', JStr (fst sd)), (''symbol'', JStr y),
                 (''qty_delta'', JStr (dec_str (snd sd)))],
      pc_dedup = colons [''split'', y, external_id, dec_str ratio, fst sd]\<rparr>"

lemma plan_split_legs:
  assumes "0 < val ratio" "external_id \<noteq> []"
  shows "plan_split y ratio holders external_id =
    Inr (map (split_event_of y ratio external_id) (split_legs ratio holders))"
proof -
  have "concat (map (plan_split_event y ratio external_id) holders) =
      map (split_event_of y ratio external_id) (split_legs ratio holders)"
    by (induction holders)
      (auto simp: plan_split_event_def split_legs_def split_event_of_def Let_def)
  then show ?thesis using assms by (simp add: plan_split_def le_val)
qed

lemma split_legs_in:
  "(sid, d) \<in> set (split_legs ratio holders) \<longleftrightarrow>
     (\<exists>q. (sid, q) \<in> set holders \<and> d = q * (ratio - Dec 1 0) \<and> \<not> is_zero q \<and> \<not> is_zero d)"
  by (force simp: split_legs_def Let_def split: if_splits)

lemma split_legs_keys: "wf_dict holders \<Longrightarrow> wf_dict (split_legs ratio holders)"
  unfolding split_legs_def
  by (rule distinct_concat_map [THEN conjunct1]) (auto simp: Let_def split: if_splits)

lemma split_request_posts:
  "posts (corporate_request env tenant account (split_event_of y ratio external_id sd)) (split_leg y sd)"
  by (simp add: posts_def corporate_request_def split_event_of_def split_leg_balanced get_opt_def dict_get_def)
    (simp add: split_leg_def)

definition exact_split :: "decimal \<Rightarrow> position_state \<Rightarrow> bool" where
  "exact_split ratio pos \<longleftrightarrow>
     rep28 (val ratio - 1) \<and> rep28 (val (ps_qty pos) * (val ratio - 1)) \<and>
     rep28 (val (ps_qty pos) * val ratio) \<and> rep28 (val (ps_cost pos))"

lemma apply_split_spec:
  assumes env: "table_laws (se_insert env) (se_rows env)" "store_ok (se_rows env db)"
    and acc: "acc = store_project env db tenant account" "healthy_account acc"
    and ratio: "0 < val ratio" "external_id \<noteq> []"
    and exact: "list_all (\<lambda>(sid, pos). exact_split ratio pos) (holders_of acc y)"
    and fresh: "inj_on (\<lambda>sid. se_event_id env (colons [''split'', y, external_id, dec_str ratio, sid]))
        (set (keys (holders_of acc y)))"
      "\<And>sid. sid \<in> set (keys (holders_of acc y)) \<Longrightarrow>
        se_event_id env (colons [''split'', y, external_id, dec_str ratio, sid]) \<notin> set (map ev_id (se_rows env db))"
  shows "\<exists>db' n. apply_split_action env db tenant account y ratio external_id = Inr (db', n) \<and>
    store_ok (se_rows env db') \<and>
    (\<forall>s z. let acc' = store_project env db' tenant account in
       val (ps_qty (cell acc' s z)) = val (ps_qty (cell acc s z)) * (if z = y then val ratio else 1) \<and>
       val (ps_cost (cell acc' s z)) = val (ps_cost (cell acc s z)) \<and>
       sl_cash (get_sleeve acc' s) = sl_cash (get_sleeve acc s))"
proof -
  have wf: "acc_wf acc" unfolding acc(1) store_project_def project_account_def by (rule fold_account_wf)
  define holders where "holders = map (\<lambda>(sid, pos). (sid, ps_qty pos)) (holders_of acc y)"
  define legs where "legs = split_legs ratio holders"
  define evs where "evs = map (split_event_of y ratio external_id) legs"
  define key where "key = (\<lambda>sid. se_event_id env (colons [''split'', y, external_id, dec_str ratio, sid]))"
  have hk: "keys holders = keys (holders_of acc y)" by (simp add: holders_def comp_def case_prod_unfold)
  have wfl: "wf_dict legs"
    unfolding legs_def using holders_keys [OF wf, of y] by (intro split_legs_keys) (simp add: hk)
  have plan: "plan_split y ratio holders external_id = Inr evs"
    using ratio by (simp add: plan_split_legs evs_def legs_def)
  have leg: "splits_by ratio (cell acc sid y) d \<and> sid \<in> set (keys (holders_of acc y))"
    if sd: "(sid, d) \<in> set legs" for sid d
  proof -
    obtain q where "(sid, q) \<in> set holders" and d: "d = q * (ratio - Dec 1 0)"
      using sd unfolding legs_def split_legs_in by blast
    then obtain pos where pos: "(sid, pos) \<in> set (holders_of acc y)" "q = ps_qty pos"
      unfolding holders_def by auto
    have c: "pos = cell acc sid y" using holders_cell [OF wf] pos(1) by blast
    have ex: "exact_split ratio pos" using exact pos(1) by (auto simp: list_all_iff)
    then show ?thesis
      using split_exact(1) [of ratio "ps_qty pos"] pos(1)
      by (force simp: splits_by_def c [symmetric] d pos(2) exact_split_def val_add)
  qed
  have eff: "healthy_account (foldl apply_postings acc (map (split_leg y) legs)) \<and>
    (\<forall>s z. val (ps_qty (cell (foldl apply_postings acc (map (split_leg y) legs)) s z)) =
       (if z = y \<and> s \<in> set (map fst legs) then val (ps_qty (cell acc s z)) * val ratio
        else val (ps_qty (cell acc s z))) \<and>
       val (ps_cost (cell (foldl apply_postings acc (map (split_leg y) legs)) s z)) = val (ps_cost (cell acc s z)) \<and>
       sl_cash (get_sleeve (foldl apply_postings acc (map (split_leg y) legs)) s) = sl_cash (get_sleeve acc s))"
    using leg by (intro split_legs_effect [OF wfl acc(2) ratio(1)]) (auto simp: list_all_iff)
  let ?reqs = "map (corporate_request env tenant account) evs"
  have ids: "map (stored_id env) ?reqs = map key (keys legs)"
    by (simp add: evs_def stored_id_def new_row_def corporate_request_def split_event_of_def key_def comp_def)
  have sub: "set (keys legs) \<subseteq> set (keys (holders_of acc y))" using leg by auto
  have "inj_on key (set (keys legs))" using fresh(1) sub unfolding key_def by (rule inj_on_subset)
  then have d: "distinct (map (stored_id env) ?reqs)" using wfl by (simp only: ids distinct_map)
  have nw: "set (map (stored_id env) ?reqs) \<inter> set (map ev_id (se_rows env db)) = {}"
  proof -
    have "key sid \<notin> set (map ev_id (se_rows env db))" if "sid \<in> set (keys legs)" for sid
      unfolding key_def using fresh(2) sub that by blast
    then show ?thesis unfolding ids set_map by blast
  qed
  have p2: "list_all2 posts ?reqs (map (split_leg y) legs)"
    by (simp add: evs_def list_all2_map1 list_all2_map2 split_request_posts list_all2_same)
  have ta: "list_all (\<lambda>req. ar_tenant req = tenant \<and> ar_account req = account) ?reqs"
    by (simp add: corporate_request_def list_all_iff)
  obtain db' where db': "append_requests env db ?reqs = Inr db'" "store_ok (se_rows env db')"
    "store_project env db' tenant account = foldl apply_postings acc (map (split_leg y) legs)"
    unfolding acc(1) by (rule append_requests_project [OF env p2 ta d nw])
  obtain pr where pr: "assert_write_invariants (store_project env db' tenant account)
      (sort (remdups (map pc_sleeve evs))) = Inr pr"
    unfolding db'(3) using healthy_write_ok [OF eff [THEN conjunct1]] unfolding is_ok_iff by blast
  have act: "apply_split_action env db tenant account y ratio external_id =
      Inr (db', length evs)"
    unfolding apply_split_action_def acc(1) [symmetric] holders_def [symmetric] plan corporate_append_all_def
    by (simp add: db'(1) pr)
  have rest: "val (ps_qty (cell acc s y)) = 0 \<or> val ratio = 1" if "s \<notin> set (map fst legs)" for s
  proof (rule ccontr)
    assume n: "\<not> ?thesis"
    then have h: "(s, cell acc s y) \<in> set (holders_of acc y)"
      using holders_cell [OF wf, of s "cell acc s y" y] by (simp add: is_zero_val)
    then have "exact_split ratio (cell acc s y)" using exact by (auto simp: list_all_iff)
    then have "\<not> is_zero (ps_qty (cell acc s y) * (ratio - Dec 1 0))"
      using n split_exact(2) [of ratio "ps_qty (cell acc s y)"] by (simp add: exact_split_def)
    then have "(s, ps_qty (cell acc s y) * (ratio - Dec 1 0)) \<in> set legs"
      using h n unfolding legs_def split_legs_in holders_def by (force simp: is_zero_val)
    with that show False by force
  qed
  have "val (ps_qty (cell (store_project env db' tenant account) s z)) =
      val (ps_qty (cell acc s z)) * (if z = y then val ratio else 1)" for s z
    using eff rest [of s] unfolding db'(3) by (cases "z = y"; cases "s \<in> set (map fst legs)") auto
  then show ?thesis
    using eff db'(2) act unfolding db'(3) [symmetric] Let_def by blast
qed

end
