(* ===== verification/Lifecycle.thy ===== *)
theory Lifecycle
  imports Corporate
begin

text \<open>
  Closing a sleeve: the planner (\<^verbatim>\<open>ledger/lifecycle.py\<close>) and the service
  (\<^verbatim>\<open>services/sleeve_lifecycle_service.py\<close>), which re-homes the positions to Unmanaged and
  the cash to Unallocated with one \<^verbatim>\<open>SLEEVE_CLOSED\<close> event and flips the sleeve's status.
  The lot reader is optional, as in the constructor; \<open>store_open_lots\<close> is the one the gRPC
  servicer passes.

  \<^item> The event of a plan is balanced whatever the amounts are: each leg is followed by its
    opposite, and every balance of a projection has at most 28 digits, so negation is exact
    (\<open>close_plan_postings\<close>, \<open>rehome_balanced\<close>, \<open>fold_exact\<close>).
  \<^item> An accepted close leaves the sleeve with no cash and no shares, its status \<open>CLOSED\<close>, and what
    it held on Unmanaged and Unallocated (\<open>close_sleeve_effect\<close>).
  \<^item> A close is refused exactly on the documented conditions, before anything is written
    (\<open>close_refused\<close>), and closing again changes nothing (\<open>close_again\<close>).
\<close>

section \<open>Planner\<close>

record rehomed_position =
  rp_symbol :: string
  rp_qty :: decimal
  rp_cost :: decimal
  rp_lots :: "lot list"

record close_plan =
  cl_data :: payload
  cl_positions :: "rehomed_position list"
  cl_cash :: decimal

definition close_event_id :: "'db store_env \<Rightarrow> string \<Rightarrow> string" where
  "close_event_id env sid = se_event_id env (sid @ '':close'')"

definition rehomed_entry :: "rehomed_position \<Rightarrow> json" where
  "rehomed_entry p =
     JObj [(''symbol'', JStr (rp_symbol p)), (''qty'', JStr (dec_str (rp_qty p))),
           (''cost_basis'', JStr (dec_str (rp_cost p)))]"

definition rehomed_lot :: "rehomed_position \<Rightarrow> lot \<Rightarrow> json" where
  "rehomed_lot p l =
     JObj [(''symbol'', JStr (rp_symbol p)), (''qty'', JStr (dec_str (lot_qty l))),
           (''cost_basis'', JStr (dec_str (lot_cost l))), (''opened_seq'', JStr (show_int (lot_seq l)))]"

definition plan_sleeve_close ::
  "string \<Rightarrow> rehomed_position list \<Rightarrow> decimal \<Rightarrow> string \<Rightarrow> string \<Rightarrow> string option \<Rightarrow> close_plan" where
  "plan_sleeve_close frm positions cash unmanaged unallocated reason =
     (let nonzero = filter (\<lambda>p. \<not> is_zero (rp_qty p)) positions;
          lots = concat (map (\<lambda>p. map (rehomed_lot p) (rp_lots p)) nonzero);
          data = [(''sleeve_id'', JStr frm), (''to_position_sleeve_id'', JStr unmanaged),
                  (''to_cash_sleeve_id'', JStr unallocated),
                  (''positions'', JList (map rehomed_entry nonzero)), (''cash'', JStr (dec_str cash))] @
                 (if lots \<noteq> [] then [(''lots'', JList lots)] else []) @
                 (case reason of None \<Rightarrow> [] | Some r \<Rightarrow> if r = [] then [] else [(''reason'', JStr r)])
      in \<lparr>cl_data = data, cl_positions = nonzero, cl_cash = cash\<rparr>)"

section \<open>Service\<close>

definition uncloseable_types :: "SleeveType list" where
  "uncloseable_types = [UNALLOCATED, UNMANAGED]"

record close_result =
  cr_positions :: "rehomed_position list"
  cr_cash :: decimal
  cr_already_closed :: bool

definition store_open_lots :: "'db store_env \<Rightarrow> 'db \<Rightarrow> string \<Rightarrow> string \<Rightarrow> string \<Rightarrow> string \<Rightarrow> lot list" where
  "store_open_lots env db tenant account sid y = open_lots (read_account_events (se_rows env) db tenant account) sid y"

definition rehome :: "(string \<Rightarrow> lot list) option \<Rightarrow> (string, position_state) dict \<Rightarrow> rehomed_position list" where
  "rehome reader positions =
     map (\<lambda>(y, pos). \<lparr>rp_symbol = y, rp_qty = ps_qty pos, rp_cost = ps_cost pos,
                      rp_lots = (case reader of None \<Rightarrow> [] | Some f \<Rightarrow> f y)\<rparr>)
       (filter (\<lambda>(y, pos). \<not> is_zero (ps_qty pos)) positions)"

definition close_request :: "'db store_env \<Rightarrow> string \<Rightarrow> string \<Rightarrow> string \<Rightarrow> close_plan \<Rightarrow> append_request" where
  "close_request env tenant account sid plan =
     \<lparr>ar_tenant = tenant, ar_account = account, ar_type = SLEEVE_CLOSED, ar_data = cl_data plan,
      ar_sleeve = Some sid, ar_event_id = Some (close_event_id env sid), ar_occurred_at = None\<rparr>"

text \<open>The guards in front of the write, with what they hand on: the row and the two base sleeves.\<close>

definition close_sleeve ::
  "'db store_env \<Rightarrow> ('db \<Rightarrow> string \<Rightarrow> string \<Rightarrow> string \<Rightarrow> string \<Rightarrow> lot list) option \<Rightarrow> sleeve_row list \<Rightarrow> 'db \<Rightarrow>
   string \<Rightarrow> string \<Rightarrow> string \<Rightarrow> string option \<Rightarrow> ('db \<times> sleeve_row list \<times> close_result) result" where
  "close_sleeve env lots sleeves db tenant account sid reason =
     (case find_sleeve sleeves tenant sid of
        None \<Rightarrow> Inl SleeveCloseError
      | Some sleeve \<Rightarrow>
          if sr_account sleeve \<noteq> account then Inl SleeveCloseError
          else if sr_type sleeve \<in> set uncloseable_types then Inl SleeveCloseError
          else if sr_status sleeve = CLOSED
            then Inr (db, sleeves, \<lparr>cr_positions = [], cr_cash = 0, cr_already_closed = True\<rparr>)
          else
            let s = get_sleeve (store_project env db tenant account) sid
            in if \<not> is_zero (sl_reserved s) then Inl SleeveCloseError
               else case (get_sleeve_by_type sleeves tenant account UNMANAGED,
                          get_sleeve_by_type sleeves tenant account UNALLOCATED) of
                      (Some unmanaged, Some unallocated) \<Rightarrow>
                        let reader = map_option (\<lambda>f. f db tenant account sid) lots;
                            plan = plan_sleeve_close sid (rehome reader (sl_positions s)) (sl_cash s)
                                     (sr_id unmanaged) (sr_id unallocated) reason
                        in bindR (store_append env db (close_request env tenant account sid plan)) (\<lambda>(db', r, new).
                           let sleeves' = set_sleeve_status sleeves sid CLOSED
                           in bindR (assert_write_invariants (store_project env db' tenant account)
                                       [sid, sr_id unmanaged, sr_id unallocated]) (\<lambda>proj.
                              Inr (db', sleeves', \<lparr>cr_positions = cl_positions plan, cr_cash = cl_cash plan,
                                                   cr_already_closed = False\<rparr>)))
                    | _ \<Rightarrow> Inl SleeveCloseError)"

section \<open>Balances have at most 28 digits\<close>

definition pos_exact :: "position_state \<Rightarrow> bool" where
  "pos_exact p \<longleftrightarrow> rep28 (val (ps_qty p)) \<and> rep28 (val (ps_cost p))"

definition sleeve_exact :: "sleeve_projection \<Rightarrow> bool" where
  "sleeve_exact s \<longleftrightarrow> rep28 (val (sl_cash s)) \<and> list_all pos_exact (vals (sl_positions s))"

definition acc_exact :: "account_projection \<Rightarrow> bool" where
  "acc_exact acc \<longleftrightarrow> list_all sleeve_exact (vals (acc_sleeves acc))"

lemma sleeve_exact_empty [simp]: "sleeve_exact empty_sleeve"
  by (simp add: sleeve_exact_def empty_sleeve_def)

lemma on_sleeve_exact:
  assumes "acc_exact acc" "\<And>s. sleeve_exact s \<Longrightarrow> sleeve_exact (f s)"
  shows "acc_exact (on_sleeve sid f acc)"
proof -
  have "sleeve_exact (dict_get (acc_sleeves acc) sid empty_sleeve)"
    using assms(1) unfolding acc_exact_def by (intro all_vals_get [where P = sleeve_exact]) simp_all
  then show ?thesis using assms unfolding acc_exact_def by (simp add: on_sleeve_def all_vals_modify)
qed

lemma post_sleeve_rep28: "sleeve_exact s \<Longrightarrow> sleeve_exact (post_sleeve p s)"
proof -
  assume s: "sleeve_exact s"
  have "pos_exact (post_position p pos)" if "pos_exact pos" for pos
    using that by (auto simp: post_position_def pos_exact_def split: option.splits)
  moreover have "pos_exact (dict_get (sl_positions s) y empty_position)" for y
    using s by (intro all_vals_get [where P = pos_exact]) (simp_all add: sleeve_exact_def pos_exact_def empty_position_def)
  ultimately show ?thesis
    using s by (auto simp: post_sleeve_def sleeve_exact_def all_vals_modify split: Bucket.splits option.splits)
qed

lemma apply_postings_exact: "acc_exact acc \<Longrightarrow> acc_exact (apply_postings acc ps)"
  by (induction ps arbitrary: acc)
    (auto simp: posting_fold.run_Nil posting_fold.run_Cons apply_posting_def split: option.splits
      intro: on_sleeve_exact post_sleeve_rep28)

lemma apply_reservation_exact:
  assumes "apply_reservation st t data = Inr st'" "acc_exact (fst st)"
  shows "acc_exact (fst st')"
  using assms
  by (elim apply_reservation_cases)
    (auto simp: reserve_order_def release_order_def Let_def sleeve_exact_def intro!: on_sleeve_exact
      split: option.splits prod.splits)

interpretation exact_state: invariant_fold fold_step fold_state_into "\<lambda>st. acc_exact (fst st)" "\<lambda>_. True"
proof unfold_locales
  fix st :: fold_state and ev
  assume st: "acc_exact (fst st)"
  show "acc_exact (fst (fold_step st ev))"
  proof (cases "apply_event st ev")
    case (Inl e)
    with st show ?thesis by (simp add: fold_step_def acc_exact_def)
  next
    case (Inr st2)
    then obtain t ps st1 where "apply_reservation st t (ev_data ev) = Inr st1"
      "fold_step st ev = (apply_postings (fst st1) ps, snd st1)"
      by (auto simp: apply_event_def result_simps fold_step_def)
    with apply_reservation_exact [OF _ st] show ?thesis by (simp add: apply_postings_exact)
  qed
qed

lemma fold_exact: "acc_exact (fold_account evs)"
  using exact_state.inv_run [of "(empty_account, empty_reservations)" evs]
  by (simp add: fold_account_def fold_into_def acc_exact_def list_all_iff)

lemma exact_get: "acc_exact acc \<Longrightarrow> sleeve_exact (get_sleeve acc s)"
  unfolding acc_exact_def get_sleeve_def by (rule all_vals_get [where P = sleeve_exact]) simp_all

section \<open>The postings of a close\<close>

definition close_legs :: "string \<Rightarrow> string \<Rightarrow> rehomed_position \<Rightarrow> posting list" where
  "close_legs frm to p =
     [PositionLeg frm (- rp_cost p) (rp_symbol p) (- rp_qty p), PositionLeg to (rp_cost p) (rp_symbol p) (rp_qty p)]"

definition cash_legs :: "string \<Rightarrow> string \<Rightarrow> decimal \<Rightarrow> posting list" where
  "cash_legs frm to cash =
     (if is_zero cash then [] else [Posting (Some frm) CASH (- cash), Posting (Some to) CASH cash])"

definition rehome_legs :: "string \<Rightarrow> string \<Rightarrow> string \<Rightarrow> rehomed_position list \<Rightarrow> decimal \<Rightarrow> posting list" where
  "rehome_legs frm um ua ps cash = concat (map (close_legs frm um) ps) @ cash_legs frm ua cash"

lemma rehome_entry: "rehome_postings frm to (rehomed_entry p) = Inr (close_legs frm to p)"
  by (simp add: rehome_postings_def rehomed_entry_def str_field_def field_def d_field_def dec_text.dec_enc close_legs_def)

lemma close_plan_postings:
  fixes frm positions cash um ua reason
  defines "plan \<equiv> plan_sleeve_close frm positions cash um ua reason"
  shows "build_postings SLEEVE_CLOSED (cl_data plan) = Inr (rehome_legs frm um ua (cl_positions plan) (cl_cash plan))"
    and "get_opt (cl_data plan) ''client_order_id'' = JNull"
proof -
  let ?nz = "filter (\<lambda>p. \<not> is_zero (rp_qty p)) positions"
  have "mapR (rehome_postings frm um) (map rehomed_entry ?nz) = Inr (map (close_legs frm um) ?nz)"
    by (induction positions) (simp_all add: rehome_entry)
  then show "build_postings SLEEVE_CLOSED (cl_data plan) = Inr (rehome_legs frm um ua (cl_positions plan) (cl_cash plan))"
    by (simp add: plan_def plan_sleeve_close_def Let_def sleeve_closed_postings_def str_field_def field_def
        get_opt_def dict_get_def d_field_or_zero_def has_key_def d_field_def dec_text.dec_enc rehome_legs_def cash_legs_def)
  show "get_opt (cl_data plan) ''client_order_id'' = JNull"
    by (simp add: plan_def plan_sleeve_close_def Let_def get_opt_def dict_get_def split: option.splits)
qed

lemma cancel_pair: "val a = 0 \<Longrightarrow> rep28 (val c) \<Longrightarrow> val (a + (- c) + c) = 0"
  by (simp add: val_add val_uminus)

lemma rehome_balanced:
  assumes "list_all (\<lambda>p. rep28 (val (rp_cost p))) ps" "rep28 (val cash)"
    and signs: "list_all (\<lambda>p. 0 \<le> val (rp_qty p) \<and> 0 \<le> val (rp_cost p) \<or> val (rp_qty p) \<le> 0 \<and> val (rp_cost p) \<le> 0) ps"
  shows "assert_balanced (rehome_legs frm um ua ps cash) = Inr ()"
proof -
  have positions: "val (foldl (+) a (map p_amount (concat (map (close_legs frm um) ps)))) = 0" if "val a = 0" for a
    using assms(1) that
  proof (induction ps arbitrary: a)
    case (Cons p ps)
    have "val (a + (- rp_cost p) + rp_cost p) = 0" using Cons.prems by (intro cancel_pair) simp_all
    then show ?case using Cons by (simp add: close_legs_def PositionLeg_def)
  qed simp
  have "val (dec_sum (map p_amount (rehome_legs frm um ua ps cash))) = 0"
    using cancel_pair [OF positions assms(2), of 0] positions [of 0]
    by (simp add: dec_sum_def rehome_legs_def cash_legs_def Posting_def)
  moreover have "\<not> list_ex opposite_signed (rehome_legs frm um ua ps cash)"
    using signs by (auto simp: rehome_legs_def cash_legs_def close_legs_def PositionLeg_def Posting_def list_ex_iff
        list_all_iff opposite_signed_def less_val val_uminus_sign split: if_splits)
  ultimately show ?thesis by (simp add: assert_balanced_def is_zero_val)
qed

section \<open>What a close does\<close>

lemma cell_apply:
  "cell (apply_posting acc p) sid y =
     (if p_sleeve p = Some sid \<and> p_bucket p = POSITION \<and> p_symbol p = Some y then post_position p (cell acc sid y)
      else cell acc sid y)"
  by (auto simp: cell_def get_sleeve_apply_posting post_sleeve_def dict_simps split: Bucket.splits option.splits)

lemma cash_apply:
  "sl_cash (get_sleeve (apply_posting acc p) sid) =
     (if p_sleeve p = Some sid \<and> p_bucket p = CASH then sl_cash (get_sleeve acc sid) + p_amount p
      else sl_cash (get_sleeve acc sid))"
  by (auto simp: get_sleeve_apply_posting post_sleeve_def split: Bucket.splits option.splits)

lemma cash_untouched:
  "list_all (\<lambda>p. p_bucket p \<noteq> CASH) ps \<Longrightarrow> sl_cash (get_sleeve (apply_postings acc ps) sid) = sl_cash (get_sleeve acc sid)"
  by (induction ps arbitrary: acc) (simp_all add: cash_apply posting_fold.run_Cons posting_fold.run_Nil)

lemma cell_untouched:
  "list_all (\<lambda>p. p_symbol p \<noteq> Some y) ps \<Longrightarrow> cell (apply_postings acc ps) sid y = cell acc sid y"
  by (induction ps arbitrary: acc) (simp_all add: cell_apply posting_fold.run_Cons posting_fold.run_Nil)

lemma find_SomeD: "find P xs = Some x \<Longrightarrow> x \<in> set xs \<and> P x"
  by (induction xs) (auto split: if_splits)

lemma cell_close_legs:
  "frm \<noteq> to \<Longrightarrow> cell (apply_postings acc (close_legs frm to p)) s y =
     (if y \<noteq> rp_symbol p then cell acc s y
      else if s = frm then (cell acc s y)\<lparr>ps_cost := ps_cost (cell acc s y) + (- rp_cost p),
                                           ps_qty := ps_qty (cell acc s y) + (- rp_qty p)\<rparr>
      else if s = to then (cell acc s y)\<lparr>ps_cost := ps_cost (cell acc s y) + rp_cost p,
                                          ps_qty := ps_qty (cell acc s y) + rp_qty p\<rparr>
      else cell acc s y)"
  by (auto simp: close_legs_def apply_postings_def cell_apply post_position_def PositionLeg_def)

lemma cells_rehomed:
  assumes "frm \<noteq> to" "distinct (map rp_symbol ps)"
  shows "cell (apply_postings acc (concat (map (close_legs frm to) ps))) s y =
    (case find (\<lambda>p. rp_symbol p = y) ps of
       None \<Rightarrow> cell acc s y
     | Some p \<Rightarrow> cell (apply_postings acc (close_legs frm to p)) s y)"
  using assms(2)
proof (induction ps arbitrary: acc)
  case Nil
  then show ?case by (simp add: posting_fold.run_Nil)
next
  case (Cons p ps)
  have "find (\<lambda>p. rp_symbol p = y) ps = None" if "rp_symbol p = y"
    using Cons.prems that by (force simp: find_None_iff image_iff)
  then show ?case using Cons
    by (auto simp: posting_fold.resume cell_close_legs [OF assms(1)] split: option.splits)
qed

lemma rehome_find:
  assumes "wf_dict positions"
  shows "find (\<lambda>p. rp_symbol p = y) (rehome reader positions) =
    (case map_of positions y of
       None \<Rightarrow> None
     | Some pos \<Rightarrow> if is_zero (ps_qty pos) then None
                   else Some \<lparr>rp_symbol = y, rp_qty = ps_qty pos, rp_cost = ps_cost pos,
                              rp_lots = (case reader of None \<Rightarrow> [] | Some f \<Rightarrow> f y)\<rparr>)"
  using assms
  by (induction positions) (auto simp: rehome_def map_of_eq_None_iff image_iff split: option.splits)

lemma rehome_symbols: "wf_dict positions \<Longrightarrow> distinct (map rp_symbol (rehome reader positions))"
  by (induction positions) (force simp: rehome_def image_iff)+

lemma rehome_nonzero: "filter (\<lambda>p. \<not> is_zero (rp_qty p)) (rehome reader positions) = rehome reader positions"
  by (auto simp: rehome_def filter_id_conv)

lemma plan_fields:
  "cl_positions (plan_sleeve_close frm (rehome reader positions) cash um ua reason) = rehome reader positions"
  "cl_cash (plan_sleeve_close frm ps cash um ua reason) = cash"
  by (simp_all add: plan_sleeve_close_def Let_def rehome_nonzero)

lemma close_sleeve_Inr:
  assumes "close_sleeve env lots sleeves db tenant account sid reason = Inr (db', sleeves', res)" "\<not> cr_already_closed res"
  obtains row um ua plan r new where "find_sleeve sleeves tenant sid = Some row" "sr_type row \<notin> {UNALLOCATED, UNMANAGED}"
    "get_sleeve_by_type sleeves tenant account UNMANAGED = Some um"
    "get_sleeve_by_type sleeves tenant account UNALLOCATED = Some ua"
    "plan = plan_sleeve_close sid (rehome (map_option (\<lambda>f. f db tenant account sid) lots)
        (sl_positions (get_sleeve (store_project env db tenant account) sid)))
        (sl_cash (get_sleeve (store_project env db tenant account) sid)) (sr_id um) (sr_id ua) reason"
    "store_append env db (close_request env tenant account sid plan) = Inr (db', r, new)"
    "sleeves' = set_sleeve_status sleeves sid CLOSED"
proof -
  obtain row where row: "find_sleeve sleeves tenant sid = Some row"
    using assms(1) by (cases "find_sleeve sleeves tenant sid") (simp_all add: close_sleeve_def)
  have g: "sr_type row \<notin> {UNALLOCATED, UNMANAGED}" "sr_account row = account" "sr_status row \<noteq> CLOSED"
    using assms by (auto simp: close_sleeve_def row uncloseable_types_def split: if_split_asm)
  obtain um ua where base: "get_sleeve_by_type sleeves tenant account UNMANAGED = Some um"
    "get_sleeve_by_type sleeves tenant account UNALLOCATED = Some ua"
    using assms(1) g by (cases "get_sleeve_by_type sleeves tenant account UNMANAGED";
        cases "get_sleeve_by_type sleeves tenant account UNALLOCATED")
      (simp_all add: close_sleeve_def row uncloseable_types_def Let_def split: if_split_asm)
  define plan where "plan = plan_sleeve_close sid (rehome (map_option (\<lambda>f. f db tenant account sid) lots)
        (sl_positions (get_sleeve (store_project env db tenant account) sid)))
        (sl_cash (get_sleeve (store_project env db tenant account) sid)) (sr_id um) (sr_id ua) reason"
  obtain r new where "store_append env db (close_request env tenant account sid plan) = Inr (db', r, new)"
    "sleeves' = set_sleeve_status sleeves sid CLOSED"
    using assms(1) g base unfolding plan_def
    by (auto simp: close_sleeve_def row uncloseable_types_def Let_def bindR_eq_Inr split: if_split_asm)
  with that row g(1) base plan_def show ?thesis by blast
qed

text \<open>Position and cash after the legs of a close, for a source distinct from the two targets.\<close>

lemma rehome_legs_effect:
  fixes reader :: "(string \<Rightarrow> lot list) option"
  assumes exact: "acc_exact acc" and wf: "wf_dict (sl_positions (get_sleeve acc sid))"
    and ids: "sid \<noteq> um" "sid \<noteq> ua"
  defines "s \<equiv> get_sleeve acc sid"
  defines "acc' \<equiv> apply_postings acc (rehome_legs sid um ua (rehome reader (sl_positions s)) (sl_cash s))"
  shows "val (sl_cash (get_sleeve acc' sid)) = 0"
    and "val (sl_cash (get_sleeve acc' ua)) = val (sl_cash (get_sleeve acc ua) + sl_cash s)"
    and "val (ps_qty (cell acc' sid y)) = 0"
    and "val (ps_qty (cell acc' um y)) = val (ps_qty (cell acc um y) + ps_qty (cell acc sid y))"
proof -
  let ?ps = "concat (map (close_legs sid um) (rehome reader (sl_positions s)))"
  define acc1 where "acc1 = apply_postings acc ?ps"
  have acc': "acc' = apply_postings acc1 (cash_legs sid ua (sl_cash s))"
    by (simp add: acc'_def acc1_def rehome_legs_def posting_fold.resume)
  have e: "rep28 (val (sl_cash (get_sleeve acc z)))" "rep28 (val (ps_qty (cell acc z w)))" for z w
  proof -
    have "sleeve_exact (get_sleeve acc z)" using exact by (rule exact_get)
    moreover from this have "pos_exact (cell acc z w)" unfolding cell_def sleeve_exact_def
      by (intro all_vals_get [where P = pos_exact]) (simp_all add: pos_exact_def empty_position_def)
    ultimately show "rep28 (val (sl_cash (get_sleeve acc z)))" "rep28 (val (ps_qty (cell acc z w)))"
      by (simp_all add: sleeve_exact_def pos_exact_def)
  qed
  have c1: "sl_cash (get_sleeve acc1 z) = sl_cash (get_sleeve acc z)" for z
    unfolding acc1_def by (rule cash_untouched) (auto simp: list_all_iff close_legs_def PositionLeg_def)
  show "val (sl_cash (get_sleeve acc' sid)) = 0"
    using ids e(1) [of sid] by (simp add: acc' cash_legs_def apply_postings_def cash_apply Posting_def c1 s_def
        is_zero_val val_add_sign val_uminus)
  show "val (sl_cash (get_sleeve acc' ua)) = val (sl_cash (get_sleeve acc ua) + sl_cash s)"
    using ids e(1) [of ua] by (auto simp: acc' cash_legs_def apply_postings_def cash_apply Posting_def c1 is_zero_val val_add)
  have c2: "cell acc' z y = cell acc1 z y" for z
    unfolding acc' by (rule cell_untouched) (auto simp: cash_legs_def Posting_def)
  note f = rehome_find [OF wf [folded s_def], of y reader]
  have some: "rp_symbol p = y \<and> rp_qty p = ps_qty (cell acc sid y)"
    if "find (\<lambda>p. rp_symbol p = y) (rehome reader (sl_positions s)) = Some p" for p
    using that unfolding f by (auto simp: cell_def dict_get_def s_def split: option.splits if_split_asm)
  have none: "val (ps_qty (cell acc sid y)) = 0"
    if "find (\<lambda>p. rp_symbol p = y) (rehome reader (sl_positions s)) = None"
    using that unfolding f
    by (auto simp: cell_def dict_get_def s_def empty_position_def is_zero_val split: option.splits if_split_asm)
  note g = cells_rehomed [OF ids(1) rehome_symbols [OF wf [folded s_def]], of acc reader, folded acc1_def]
  consider (absent) "find (\<lambda>p. rp_symbol p = y) (rehome reader (sl_positions s)) = None" "val (ps_qty (cell acc sid y)) = 0"
    | (held) p where "find (\<lambda>p. rp_symbol p = y) (rehome reader (sl_positions s)) = Some p" "rp_symbol p = y"
        "rp_qty p = ps_qty (cell acc sid y)"
    using none some by (cases "find (\<lambda>p. rp_symbol p = y) (rehome reader (sl_positions s))") blast+
  then have "val (ps_qty (cell acc' sid y)) = 0 \<and>
      val (ps_qty (cell acc' um y)) = val (ps_qty (cell acc um y) + ps_qty (cell acc sid y))"
  proof cases
    case absent
    then show ?thesis using e(2) [of um y] unfolding c2 g by (simp add: val_add)
  next
    case held
    then show ?thesis using e(2) [of sid y] ids(1) unfolding c2 g
      by (simp add: cell_close_legs [OF ids(1)] val_add_sign val_uminus)
  qed
  then show "val (ps_qty (cell acc' sid y)) = 0"
    "val (ps_qty (cell acc' um y)) = val (ps_qty (cell acc um y) + ps_qty (cell acc sid y))" by simp_all
qed

theorem close_sleeve_effect:
  assumes laws: "table_laws (se_insert env) (se_rows env)" "store_ok (se_rows env db)"
    and keys: "distinct (map sr_id sleeves)"
    and ok: "close_sleeve env lots sleeves db tenant account sid reason = Inr (db', sleeves', res)" "\<not> cr_already_closed res"
    and new: "close_event_id env sid \<notin> set (map ev_id (se_rows env db))"
  defines "before \<equiv> store_project env db tenant account" and "after \<equiv> store_project env db' tenant account"
  shows "\<exists>row um ua. find_sleeve sleeves' tenant sid = Some row \<and> sr_status row = CLOSED \<and>
    get_sleeve_by_type sleeves tenant account UNMANAGED = Some um \<and>
    get_sleeve_by_type sleeves tenant account UNALLOCATED = Some ua \<and>
    val (sl_cash (get_sleeve after sid)) = 0 \<and> (\<forall>y. val (ps_qty (cell after sid y)) = 0) \<and>
    val (sl_cash (get_sleeve after (sr_id ua))) = val (sl_cash (get_sleeve before (sr_id ua)) + sl_cash (get_sleeve before sid)) \<and>
    (\<forall>y. val (ps_qty (cell after (sr_id um) y)) = val (ps_qty (cell before (sr_id um) y) + ps_qty (cell before sid y)))"
proof -
  obtain row um ua plan r n where c: "find_sleeve sleeves tenant sid = Some row" "sr_type row \<notin> {UNALLOCATED, UNMANAGED}"
    "get_sleeve_by_type sleeves tenant account UNMANAGED = Some um"
    "get_sleeve_by_type sleeves tenant account UNALLOCATED = Some ua"
    "plan = plan_sleeve_close sid (rehome (map_option (\<lambda>f. f db tenant account sid) lots)
        (sl_positions (get_sleeve before sid))) (sl_cash (get_sleeve before sid)) (sr_id um) (sr_id ua) reason"
    "store_append env db (close_request env tenant account sid plan) = Inr (db', r, n)"
    "sleeves' = set_sleeve_status sleeves sid CLOSED"
    by (rule close_sleeve_Inr [OF ok]) (simp add: before_def)
  have inj: "a = b" if "a \<in> set sleeves" "b \<in> set sleeves" "sr_id a = sr_id b" for a b
    using keys that unfolding distinct_map by (blast dest: inj_onD)
  have row: "row \<in> set sleeves" "sr_id row = sid" and um: "um \<in> set sleeves" "sr_type um = UNMANAGED"
    and ua: "ua \<in> set sleeves" "sr_type ua = UNALLOCATED"
    using find_SomeD [OF c(1) [unfolded find_sleeve_def]] find_SomeD [OF c(3) [unfolded get_sleeve_by_type_def]]
      find_SomeD [OF c(4) [unfolded get_sleeve_by_type_def]] by simp_all
  have ids: "sid \<noteq> sr_id um" "sid \<noteq> sr_id ua"
    using c(2) inj [of row um] inj [of row ua] row um ua by auto
  have n: "n" using append_event_Inr(1) [OF laws(1) c(6) [unfolded store_append_def]] new
    by (cases n) (auto simp: close_request_def new_row_def image_iff)
  note post = close_plan_postings [of sid _ _ "sr_id um" "sr_id ua" reason]
  have acc: "acc_exact before" "acc_wf before"
    by (simp_all add: before_def store_project_def project_account_def fold_exact fold_account_wf)
  then have wf: "wf_dict (sl_positions (get_sleeve before sid))" unfolding acc_wf_def get_sleeve_def
    by (intro all_vals_get [where P = "\<lambda>s. wf_dict (sl_positions s)"]) (simp_all add: empty_sleeve_def)
  have after: "after = apply_postings before (rehome_legs sid (sr_id um) (sr_id ua)
      (rehome (map_option (\<lambda>f. f db tenant account sid) lots) (sl_positions (get_sleeve before sid)))
      (sl_cash (get_sleeve before sid)))"
    using project_after_append [OF laws, of "close_request env tenant account sid plan" db' r] c(6) n post
    by (simp add: after_def before_def close_request_def c(5) plan_fields del: build_postings.simps)
  note eff = rehome_legs_effect [OF acc(1) wf ids, of "map_option (\<lambda>f. f db tenant account sid) lots", folded after]
  have "find_sleeve sleeves' tenant sid = Some (row\<lparr>sr_status := CLOSED\<rparr>)"
    unfolding c(7) using c(1) by (induction sleeves) (auto simp: find_sleeve_def set_sleeve_status_def)
  with c(3,4) eff show ?thesis by auto
qed

lemma close_again:
  assumes "find_sleeve sleeves tenant sid = Some row" "sr_account row = account" "sr_status row = CLOSED"
    "sr_type row \<notin> {UNALLOCATED, UNMANAGED}"
  shows "close_sleeve env lots sleeves db tenant account sid reason =
    Inr (db, sleeves, \<lparr>cr_positions = [], cr_cash = 0, cr_already_closed = True\<rparr>)"
  using assms by (simp add: close_sleeve_def uncloseable_types_def)

lemma close_append_error:
  "store_append env db (close_request env tenant account sid (plan_sleeve_close sid ps cash um ua reason)) = Inl e \<Longrightarrow>
   e \<in> {UnbalancedEventError, RuntimeError}"
  unfolding store_append_def append_event_def close_request_def
  by (auto simp: result_simps Let_def close_plan_postings simp del: build_postings.simps
      dest: assert_balanced_error_class split: prod.splits option.splits)

lemma close_refused:
  "close_sleeve env lots sleeves db tenant account sid reason = Inl SleeveCloseError \<longleftrightarrow>
     (case find_sleeve sleeves tenant sid of
        None \<Rightarrow> True
      | Some row \<Rightarrow>
          sr_account row \<noteq> account \<or> sr_type row \<in> {UNALLOCATED, UNMANAGED} \<or>
          sr_status row \<noteq> CLOSED \<and>
          (val (sl_reserved (get_sleeve (store_project env db tenant account) sid)) \<noteq> 0 \<or>
           get_sleeve_by_type sleeves tenant account UNMANAGED = None \<or>
           get_sleeve_by_type sleeves tenant account UNALLOCATED = None))"
proof -
  have "store_append env db (close_request env tenant account sid (plan_sleeve_close sid ps cash um ua reason)) \<noteq>
      Inl SleeveCloseError" for ps cash um ua
    by (auto dest: close_append_error)
  moreover have "assert_write_invariants acc sids \<noteq> Inl SleeveCloseError" for acc sids
    by (simp add: assert_write_invariants_def Let_def)
  ultimately show ?thesis
    by (auto simp: close_sleeve_def uncloseable_types_def is_zero_val Let_def bindR_eq_Inl split: option.splits)
qed

end
