(* ===== verification/Onboarding.thy ===== *)
theory Onboarding
  imports Repository Reconciliation Lifecycle
begin

text \<open>
  Seeding a new book from broker state: the planner (\<^verbatim>\<open>ledger/backfill.py\<close>) and the
  onboarding service (\<^verbatim>\<open>services/onboarding_service.py\<close>). The broker snapshot is an
  argument; the hash behind the event ids is the environment's.

  The aim of the backfill is that the sleeves sum to the broker from day one: after a first
  onboarding with non-negative cash, reconciliation finds no drift at all and the ledger's cash is
  the broker's (\<open>onboard_seeds\<close>). A known account is never seeded again
  (\<open>onboard_known\<close>). Negative broker cash is not booked (\<open>backfill_margin\<close>).
\<close>

section \<open>Planner\<close>

record broker_position =
  bp_symbol :: string
  bp_qty :: decimal
  bp_avg_price :: decimal

record planned_event =
  pe_type :: LedgerEventType
  pe_sleeve :: string
  pe_data :: payload
  pe_dedup :: string

definition position_event :: "string \<Rightarrow> broker_position \<Rightarrow> planned_event" where
  "position_event unmanaged pos =
     \<lparr>pe_type = EXTERNAL_TRADE_DETECTED, pe_sleeve = unmanaged,
      pe_data = [(''sleeve_id'', JStr unmanaged), (''symbol'', JStr (bp_symbol pos)),
                 (''qty'', JStr (dec_str (bp_qty pos))), (''price'', JStr (dec_str (bp_avg_price pos)))],
      pe_dedup = ''backfill:pos:'' @ bp_symbol pos\<rparr>"

definition plan_backfill :: "decimal \<Rightarrow> broker_position list \<Rightarrow> string \<Rightarrow> string \<Rightarrow> planned_event list" where
  "plan_backfill broker_cash positions unallocated unmanaged =
     (if 0 < broker_cash
      then [\<lparr>pe_type = FUNDS_DEPOSITED, pe_sleeve = unallocated,
             pe_data = [(''sleeve_id'', JStr unallocated), (''amount'', JStr (dec_str broker_cash))],
             pe_dedup = ''backfill:cash''\<rparr>]
      else []) @
     map (position_event unmanaged) (filter (\<lambda>pos. \<not> is_zero (bp_qty pos)) positions)"

section \<open>Service\<close>

record broker_snapshot =
  bs_cash :: decimal
  bs_holdings :: "broker_position list"
  bs_account_id :: "string option"

definition backfill_event_id :: "'db store_env \<Rightarrow> string \<Rightarrow> string \<Rightarrow> string" where
  "backfill_event_id env account dedup_key = se_event_id env (account @ '':'' @ dedup_key)"

definition backfill_request :: "'db store_env \<Rightarrow> string \<Rightarrow> string \<Rightarrow> planned_event \<Rightarrow> append_request" where
  "backfill_request env tenant account ev =
     \<lparr>ar_tenant = tenant, ar_account = account, ar_type = pe_type ev, ar_data = pe_data ev,
      ar_sleeve = Some (pe_sleeve ev), ar_event_id = Some (backfill_event_id env account (pe_dedup ev)),
      ar_occurred_at = None\<rparr>"

record onboard_state =
  os_accounts :: "account_row list"
  os_sleeves :: "sleeve_row list"

text \<open>
  The book: the store, the two metadata tables and the id of the resolved account. \<open>fresh\<close> and
  \<open>ids\<close> are the primary keys the database generates.
\<close>

definition onboard ::
  "'db store_env \<Rightarrow> string \<Rightarrow> (SleeveType \<Rightarrow> string) \<Rightarrow> 'db \<Rightarrow> onboard_state \<Rightarrow> string \<Rightarrow> string \<Rightarrow>
   broker_snapshot \<Rightarrow> ('db \<times> onboard_state \<times> string) result" where
  "onboard env fresh ids db st tenant creds snapshot =
     (let (accounts, aid, created) = resolve_account fresh (os_accounts st) tenant creds (bs_account_id snapshot)
      in case find (\<lambda>a. ac_id a = aid) accounts of
           None \<Rightarrow> Inl RuntimeError
         | Some account \<Rightarrow>
             let sleeves = ensure_base_sleeves ids account (os_sleeves st);
                 st' = \<lparr>os_accounts = accounts, os_sleeves = sleeves\<rparr>
             in if \<not> created then Inr (db, st', aid)
                else case (get_sleeve_by_type sleeves (ac_tenant account) aid UNALLOCATED,
                           get_sleeve_by_type sleeves (ac_tenant account) aid UNMANAGED) of
                       (Some unallocated, Some unmanaged) \<Rightarrow>
                         bindR (append_requests env db
                                  (map (backfill_request env tenant aid)
                                     (plan_backfill (bs_cash snapshot) (bs_holdings snapshot)
                                        (sr_id unallocated) (sr_id unmanaged)))) (\<lambda>db'.
                           Inr (db', st', aid))
                     | _ \<Rightarrow> Inl KeyError)"

section \<open>The seeded book\<close>

definition trade_legs :: "string \<Rightarrow> broker_position \<Rightarrow> posting list" where
  "trade_legs um pos =
     [Posting None EXTERNAL (- (bp_qty pos * bp_avg_price pos)),
      PositionLeg um (bp_qty pos * bp_avg_price pos) (bp_symbol pos) (bp_qty pos)]"

definition deposit_legs :: "string \<Rightarrow> decimal \<Rightarrow> posting list" where
  "deposit_legs ua cash = [Posting None EXTERNAL (- cash), Posting (Some ua) CASH cash]"

definition seeded_position :: "broker_position \<Rightarrow> string \<times> position_state" where
  "seeded_position pos =
     (bp_symbol pos, \<lparr>ps_qty = 0 + bp_qty pos, ps_cost = 0 + bp_qty pos * bp_avg_price pos\<rparr>)"

lemma update_absent: "k \<notin> fst ` set d \<Longrightarrow> AList.update k v d = d @ [(k, v)]"
  by (induction d) auto

lemma modify_absent: "k \<notin> fst ` set d \<Longrightarrow> dict_modify k dflt f d = d @ [(k, f dflt)]"
  by (simp add: dict_modify_def update_absent dict_get_absent)

lemma modify_last: "k \<notin> fst ` set d \<Longrightarrow> dict_modify k dflt f (d @ [(k, v)]) = d @ [(k, f v)]"
  by (induction d) (auto simp: dict_modify_def dict_get_def split: option.splits)

lemma seed_positions:
  assumes "um \<notin> fst ` set (acc_sleeves acc)" "distinct (map bp_symbol ps)"
  shows "foldl apply_postings acc (map (trade_legs um) ps) =
    acc\<lparr>acc_sleeves := acc_sleeves acc @
       (if ps = [] then [] else [(um, empty_sleeve\<lparr>sl_positions := map seeded_position ps\<rparr>)])\<rparr>"
  using assms(2)
proof (induction ps rule: rev_induct)
  case (snoc p ps)
  have "bp_symbol p \<notin> fst ` set (map seeded_position ps)"
    using snoc.prems by (auto simp: seeded_position_def)
  with snoc assms(1) show ?case
    by (auto simp: trade_legs_def apply_postings_def apply_posting_def Posting_def PositionLeg_def on_sleeve_def
        modify_absent modify_last post_sleeve_def post_position_def seeded_position_def empty_sleeve_def empty_position_def)
qed simp

definition seed_legs :: "decimal \<Rightarrow> broker_position list \<Rightarrow> string \<Rightarrow> string \<Rightarrow> posting list list" where
  "seed_legs cash hs ua um =
     (if 0 < cash then [deposit_legs ua cash] else []) @
     map (trade_legs um) (filter (\<lambda>pos. \<not> is_zero (bp_qty pos)) hs)"

lemma seeded_account:
  assumes "ua \<noteq> um" "distinct (map bp_symbol hs)"
  defines "nz \<equiv> filter (\<lambda>pos. \<not> is_zero (bp_qty pos)) hs"
  shows "foldl apply_postings empty_account (seed_legs cash hs ua um) =
    empty_account\<lparr>acc_sleeves :=
      (if 0 < cash then [(ua, empty_sleeve\<lparr>sl_cash := 0 + cash\<rparr>)] else []) @
      (if nz = [] then [] else [(um, empty_sleeve\<lparr>sl_positions := map seeded_position nz\<rparr>)])\<rparr>"
proof -
  have d: "distinct (map bp_symbol nz)" unfolding nz_def using assms(2) by (rule distinct_map_filter)
  have a: "apply_postings empty_account (deposit_legs ua cash) =
      empty_account\<lparr>acc_sleeves := [(ua, empty_sleeve\<lparr>sl_cash := 0 + cash\<rparr>)]\<rparr>"
    by (simp add: deposit_legs_def apply_postings_def apply_posting_def Posting_def on_sleeve_def dict_modify_def
        post_sleeve_def empty_account_def empty_sleeve_def)
  show ?thesis
    using seed_positions [OF _ d, of um empty_account]
      seed_positions [OF _ d, of um "apply_postings empty_account (deposit_legs ua cash)"] assms(1)
    by (simp add: seed_legs_def nz_def [symmetric] a)
qed

lemma seeded_qty:
  assumes "distinct (map bp_symbol hs)" "list_all (\<lambda>p. rep28 (val (bp_qty p))) hs"
  shows "val (foldl (+) 0 (symbol_qtys y (map (\<lambda>p. (bp_symbol p, 0 + bp_qty p)) (filter (\<lambda>p. \<not> is_zero (bp_qty p)) hs)))) =
    val (dict_get (map (\<lambda>p. (bp_symbol p, bp_qty p)) hs) y 0)"
  using assms
proof (induction hs)
  case (Cons h hs)
  have no: "symbol_qtys y (map (\<lambda>p. (bp_symbol p, 0 + bp_qty p)) (filter (\<lambda>p. \<not> is_zero (bp_qty p)) hs)) = []"
    if "y = bp_symbol h"
  proof -
    have "bp_symbol p \<noteq> y" if "p \<in> set hs" for p
      using Cons.prems(1) \<open>y = bp_symbol h\<close> that by (metis distinct.simps(2) imageI list.map(2) list.set_map)
    then show ?thesis by (auto simp: symbol_qtys_def filter_empty_conv)
  qed
  show ?case
  proof (cases "y = bp_symbol h")
    case True
    have "val (0 + (0 + bp_qty h)) = val (bp_qty h)" using Cons.prems(2) by (simp add: val_add)
    with True no [OF True] show ?thesis by (simp add: dict_get_Cons is_zero_val)
  next
    case False
    with Cons show ?thesis by (simp add: dict_get_Cons)
  qed
qed simp

lemma seeded_matches:
  assumes ids: "ua \<noteq> um" and hs: "distinct (map bp_symbol hs)" "list_all (\<lambda>p. rep28 (val (bp_qty p))) hs"
    and cash: "0 \<le> val cash" "rep28 (val cash)"
  defines "acc \<equiv> foldl apply_postings empty_account (seed_legs cash hs ua um)"
  shows "reconcile acc (map (\<lambda>p. (bp_symbol p, bp_qty p)) hs) tol = []" and "val (ledger_cash acc) = val cash"
proof -
  note acc = seeded_account [OF ids hs(1), of cash, folded acc_def]
  have h: "holdings acc = map (\<lambda>p. (bp_symbol p, 0 + bp_qty p)) (filter (\<lambda>p. \<not> is_zero (bp_qty p)) hs)"
    by (auto simp: acc holdings_def empty_account_def empty_sleeve_def seeded_position_def)
  show "reconcile acc (map (\<lambda>p. (bp_symbol p, bp_qty p)) hs) tol = []"
    unfolding reconcile_empty_iff differs_def account_positions_get add_qty_get h
    using seeded_qty [OF hs] by simp
  show "val (ledger_cash acc) = val cash"
    using cash by (auto simp: acc ledger_cash_def dec_sum_def empty_account_def empty_sleeve_def val_add less_val)
qed

section \<open>Onboarding\<close>

lemma backfill_posts:
  assumes "list_all (\<lambda>p. 0 \<le> val (bp_avg_price p)) hs" "rep28 (val cash)"
  shows "list_all2 posts (map (backfill_request env tenant aid) (plan_backfill cash hs ua um)) (seed_legs cash hs ua um)"
proof -
  have p: "posts (backfill_request env tenant aid (position_event um h)) (trade_legs um h)"
    if "0 \<le> val (bp_avg_price h)" for h
  proof -
    have "sgn (val (bp_qty h * bp_avg_price h)) = sgn (val (bp_qty h)) * sgn (val (bp_avg_price h))" by (rule sgn_times)
    then have "\<not> list_ex opposite_signed (trade_legs um h)"
      using that by (auto simp: trade_legs_def Posting_def PositionLeg_def opposite_signed_def less_val sgn_if split: if_split_asm)
    then show ?thesis
      by (simp add: posts_def backfill_request_def position_event_def str_field_def field_def d_field_def
          dec_text.dec_enc trade_legs_def assert_balanced_iff get_opt_def dict_get_def dec_sum_def Posting_def
          PositionLeg_def Let_def val_add val_uminus val_add_sign)
  qed
  have c: "posts (backfill_request env tenant aid \<lparr>pe_type = FUNDS_DEPOSITED, pe_sleeve = ua,
             pe_data = [(''sleeve_id'', JStr ua), (''amount'', JStr (dec_str cash))], pe_dedup = ''backfill:cash''\<rparr>)
      (deposit_legs ua cash)"
    using assms(2) by (simp add: posts_def backfill_request_def str_field_def field_def d_field_def dec_text.dec_enc
        deposit_legs_def assert_balanced_iff get_opt_def dict_get_def dec_sum_def Posting_def opposite_signed_def
        val_add val_uminus val_add_sign)
  have "list_all2 posts (map (backfill_request env tenant aid) (map (position_event um) hs')) (map (trade_legs um) hs')"
    if "list_all (\<lambda>p. 0 \<le> val (bp_avg_price p)) hs'" for hs'
    using that by (induction hs') (simp_all add: p)
  moreover have "list_all (\<lambda>p. 0 \<le> val (bp_avg_price p)) (filter (\<lambda>pos. \<not> is_zero (bp_qty pos)) hs)"
    using assms(1) by (auto simp: list_all_iff)
  ultimately show ?thesis
    unfolding plan_backfill_def seed_legs_def map_append by (intro list_all2_appendI) (simp_all add: c)
qed

lemma backfill_stored_id:
  "stored_id env (backfill_request env tenant aid ev) = se_event_id env (aid @ '':'' @ pe_dedup ev)"
  by (simp add: stored_id_def new_row_def backfill_request_def backfill_event_id_def)

lemma backfill_ids:
  assumes "distinct (map bp_symbol hs)" "inj_on (se_event_id env) {aid @ '':'' @ k |k. True}"
  shows "distinct (map (stored_id env) (map (backfill_request env tenant aid) (plan_backfill cash hs ua um)))"
proof -
  have "distinct (map pe_dedup (plan_backfill cash hs ua um))"
    using distinct_map_filter [OF assms(1), of "\<lambda>pos. \<not> is_zero (bp_qty pos)"]
    by (auto simp: plan_backfill_def position_event_def comp_def distinct_map inj_on_def)
  then have "inj_on (\<lambda>ev. se_event_id env (aid @ '':'' @ pe_dedup ev)) (set (plan_backfill cash hs ua um))"
    "distinct (plan_backfill cash hs ua um)"
    using assms(2) unfolding distinct_map inj_on_def by blast+
  then show ?thesis by (simp add: distinct_map comp_def backfill_stored_id)
qed

lemma base_sleeve_ids:
  assumes "list_all (\<lambda>s. sr_account s \<noteq> ac_id account) sleeves"
  shows "\<exists>s. get_sleeve_by_type (ensure_base_sleeves ids account sleeves) (ac_tenant account) (ac_id account) UNALLOCATED = Some s \<and>
      sr_id s = ids UNALLOCATED"
    and "\<exists>s. get_sleeve_by_type (ensure_base_sleeves ids account sleeves) (ac_tenant account) (ac_id account) UNMANAGED = Some s \<and>
      sr_id s = ids UNMANAGED"
proof -
  have "find (\<lambda>s. sr_tenant s = ac_tenant account \<and> sr_account s = ac_id account \<and> sr_type s = ty \<and> sr_execution s = None) sleeves = None" for ty
    using assms by (auto simp: find_None_iff list_all_iff)
  then show "\<exists>s. get_sleeve_by_type (ensure_base_sleeves ids account sleeves) (ac_tenant account) (ac_id account) UNALLOCATED = Some s \<and>
      sr_id s = ids UNALLOCATED"
    "\<exists>s. get_sleeve_by_type (ensure_base_sleeves ids account sleeves) (ac_tenant account) (ac_id account) UNMANAGED = Some s \<and>
      sr_id s = ids UNMANAGED"
    by (simp_all add: ensure_base_sleeves_def base_sleeves_def ensure_base_sleeve_def get_sleeve_by_type_def find_append new_sleeve_def)
qed

definition new_book :: "'db store_env \<Rightarrow> string \<Rightarrow> (SleeveType \<Rightarrow> string) \<Rightarrow> 'db \<Rightarrow> onboard_state \<Rightarrow> bool" where
  "new_book env fresh ids db st \<longleftrightarrow>
     fresh \<notin> set (map ac_id (os_accounts st)) \<and> list_all (\<lambda>s. sr_account s \<noteq> fresh) (os_sleeves st) \<and>
     list_all (\<lambda>r. ev_account r \<noteq> fresh) (se_rows env db) \<and> ids UNALLOCATED \<noteq> ids UNMANAGED \<and>
     inj_on (se_event_id env) {fresh @ '':'' @ k |k. True} \<and>
     list_all (\<lambda>r. \<forall>k. ev_id r \<noteq> se_event_id env (fresh @ '':'' @ k)) (se_rows env db)"

definition sound_snapshot :: "broker_snapshot \<Rightarrow> bool" where
  "sound_snapshot snap \<longleftrightarrow>
     distinct (map bp_symbol (bs_holdings snap)) \<and>
     list_all (\<lambda>p. rep28 (val (bp_qty p)) \<and> 0 \<le> val (bp_avg_price p)) (bs_holdings snap) \<and>
     0 \<le> val (bs_cash snap) \<and> rep28 (val (bs_cash snap))"

lemma onboard_seeds:
  assumes laws: "table_laws (se_insert env) (se_rows env)" "store_ok (se_rows env db)"
    and book: "new_book env fresh ids db st" and snap: "sound_snapshot snap"
    and created: "snd (snd (resolve_account fresh (os_accounts st) tenant creds (bs_account_id snap)))"
  shows "\<exists>db' st'. onboard env fresh ids db st tenant creds snap = Inr (db', st', fresh) \<and>
    reconcile (store_project env db' tenant fresh) (map (\<lambda>p. (bp_symbol p, bp_qty p)) (bs_holdings snap)) tol = [] \<and>
    val (ledger_cash (store_project env db' tenant fresh)) = val (bs_cash snap)"
proof -
  obtain accounts a where r: "resolve_account fresh (os_accounts st) tenant creds (bs_account_id snap) = (accounts, fresh, True)"
    and a: "accounts = os_accounts st @ [a]" "ac_tenant a = tenant" "ac_id a = fresh"
    using created by (auto simp: resolve_account_def Let_def split: option.splits)
  have "find (\<lambda>x. ac_id x = fresh) (os_accounts st) = None"
    using book by (force simp: new_book_def find_None_iff)
  then have find: "find (\<lambda>x. ac_id x = fresh) accounts = Some a" using a by (simp add: find_append)
  obtain ua um where base:
    "get_sleeve_by_type (ensure_base_sleeves ids a (os_sleeves st)) tenant fresh UNALLOCATED = Some ua" "sr_id ua = ids UNALLOCATED"
    "get_sleeve_by_type (ensure_base_sleeves ids a (os_sleeves st)) tenant fresh UNMANAGED = Some um" "sr_id um = ids UNMANAGED"
    using base_sleeve_ids [of a "os_sleeves st" ids] book a by (auto simp: new_book_def)
  let ?reqs = "map (backfill_request env tenant fresh) (plan_backfill (bs_cash snap) (bs_holdings snap) (sr_id ua) (sr_id um))"
  have h: "list_all (\<lambda>p. 0 \<le> val (bp_avg_price p)) (bs_holdings snap)" "list_all (\<lambda>p. rep28 (val (bp_qty p))) (bs_holdings snap)"
    using snap by (simp_all add: sound_snapshot_def list_all_iff)
  have none: "store_project env db tenant fresh = empty_account"
    using book by (simp add: store_project_def project_account_def read_account_events_eq [where rows = "se_rows env", OF laws(2)]
        new_book_def list_all_iff filter_empty_conv fold_account_def fold_into_def balance_fold.run_Nil)
  obtain db' where db': "append_requests env db ?reqs = Inr db'"
    "store_project env db' tenant fresh =
       foldl apply_postings empty_account (seed_legs (bs_cash snap) (bs_holdings snap) (sr_id ua) (sr_id um))"
  proof (rule append_requests_project [OF laws backfill_posts [OF h(1)]])
    show "rep28 (val (bs_cash snap))" using snap by (simp add: sound_snapshot_def)
    show "list_all (\<lambda>req. ar_tenant req = tenant \<and> ar_account req = fresh) ?reqs"
      by (simp add: list_all_iff backfill_request_def)
    show "distinct (map (stored_id env) ?reqs)"
      using snap book by (intro backfill_ids) (simp_all add: sound_snapshot_def new_book_def)
    show "set (map (stored_id env) ?reqs) \<inter> set (map ev_id (se_rows env db)) = {}"
    proof -
      have "ev_id r \<noteq> stored_id env (backfill_request env tenant fresh ev)" if "r \<in> set (se_rows env db)" for r ev
        using book that unfolding new_book_def list_all_iff backfill_stored_id by blast
      then have "stored_id env (backfill_request env tenant fresh ev) \<notin> ev_id ` set (se_rows env db)" for ev
        by (metis imageE)
      then show ?thesis by (auto simp: set_map)
    qed
  qed (simp add: none)
  have "onboard env fresh ids db st tenant creds snap =
      Inr (db', \<lparr>os_accounts = accounts, os_sleeves = ensure_base_sleeves ids a (os_sleeves st)\<rparr>, fresh)"
    by (simp add: onboard_def r find a(2) base(1,3) db'(1))
  with seeded_matches [of "sr_id ua" "sr_id um" "bs_holdings snap" "bs_cash snap"] snap h(2) base(2,4) book db'(2)
  show ?thesis by (simp add: sound_snapshot_def new_book_def)
qed

lemma onboard_known:
  assumes "\<not> snd (snd (resolve_account fresh (os_accounts st) tenant creds (bs_account_id snap)))"
    and "onboard env fresh ids db st tenant creds snap = Inr (db', st', aid)"
  shows "db' = db"
  using assms by (auto simp: onboard_def split: prod.splits option.splits)

lemma backfill_margin:
  assumes "ua \<noteq> um" "val cash < 0"
  shows "val (ledger_cash (foldl apply_postings empty_account (seed_legs cash [] ua um))) = 0"
  using seeded_account [of ua um "[]" cash] assms by (simp add: ledger_cash_def dec_sum_def empty_account_def less_val)

end
