(* ===== verification/Drift_Policy.thy ===== *)
theory Drift_Policy
  imports Onboarding
begin

text \<open>
  What reconciliation does about drift (\<^verbatim>\<open>tasks/drift_policy.py\<close>). The broker snapshot is a
  parameter per attempt (\<open>None\<close> when the adapter raises), the pass date is its ISO text, times are
  microseconds. Alerts are the list of incidents handed to the sink; a sink never raises or its
  exception is swallowed.

  \<^item> Adopting a broker-only holding makes the ledger's aggregate of the symbol equal to the broker's
    quantity (\<open>adopt_heals_book\<close>).
  \<^item> The freeze policy never corrects: no balance changes, and exactly the sleeves of the account that
    hold the symbol end up frozen (\<open>freeze_keeps_book\<close>, \<open>freeze_exact\<close>). The cash freeze stops every
    sleeve of the account (\<open>cash_freeze_sleeves\<close>), closed ones included.
\<close>

section \<open>Recent orders\<close>

datatype OrderStatus =
    ORDER_STATUS_UNSPECIFIED
  | ORDER_STATUS_PENDING
  | ORDER_STATUS_SUBMITTED
  | ORDER_STATUS_ACCEPTED
  | ORDER_STATUS_PARTIAL
  | ORDER_STATUS_FILLED
  | ORDER_STATUS_CANCELLED
  | ORDER_STATUS_REJECTED
  | ORDER_STATUS_EXPIRED

record order_row =
  or_tenant :: string
  or_account :: string
  or_symbol :: string
  or_status :: OrderStatus
  or_updated_at :: int

definition terminal_order_statuses :: "OrderStatus list" where
  "terminal_order_statuses =
     [ORDER_STATUS_FILLED, ORDER_STATUS_CANCELLED, ORDER_STATUS_REJECTED, ORDER_STATUS_EXPIRED]"

definition recent_terminal_window :: int where
  "recent_terminal_window = 10 * 60 * 1000000"

definition has_recent_activity :: "int \<Rightarrow> order_row list \<Rightarrow> string \<Rightarrow> string \<Rightarrow> string \<Rightarrow> bool" where
  "has_recent_activity now orders tenant account y \<longleftrightarrow>
     list_ex (\<lambda>o'. or_tenant o' = tenant \<and> or_account o' = account \<and> or_symbol o' = y \<and>
       (or_status o' \<notin> set terminal_order_statuses \<or> now - recent_terminal_window \<le> or_updated_at o')) orders"

section \<open>Policy\<close>

record ledger_incident =
  li_kind :: string
  li_message :: string
  li_context :: "(string \<times> string) list"

record drift_env =
  de_now :: int
  de_date :: string
  de_snapshot :: "nat \<Rightarrow> broker_snapshot option"
  de_orders :: "order_row list option"
  de_alerts :: bool

definition snapshot_attempts :: nat where
  "snapshot_attempts = 3"

definition freeze_kinds :: "DriftKind list" where
  "freeze_kinds = [MISSING_AT_BROKER, QTY_MISMATCH]"

fun kind_text :: "DriftKind \<Rightarrow> string" where
  "kind_text OK = ''ok''"
| "kind_text DUST = ''dust''"
| "kind_text MISSING_AT_BROKER = ''missing_at_broker''"
| "kind_text MISSING_IN_LEDGER = ''missing_in_ledger''"
| "kind_text QTY_MISMATCH = ''qty_mismatch''"

definition q_text :: "decimal \<Rightarrow> string result" where
  "q_text v = bindR (dec_quantize ROUND_HALF_EVEN (- 8) v) (\<lambda>d. Inr (dec_str d))"

definition drift_event_id :: "'db store_env \<Rightarrow> string \<Rightarrow> drift \<Rightarrow> string \<Rightarrow> string \<Rightarrow> string result" where
  "drift_event_id env owner d kind on_date =
     bindR (q_text (dr_ledger_qty d)) (\<lambda>ledger.
     bindR (q_text (dr_broker_qty d)) (\<lambda>broker.
       Inr (se_event_id env (owner @ '':'' @ kind @ '':'' @ dr_symbol d @ '':'' @ ledger @ '':'' @ broker @
                             '':'' @ on_date))))"

fun snapshot_loop :: "(nat \<Rightarrow> 'a option) \<Rightarrow> nat \<Rightarrow> nat \<Rightarrow> 'a option" where
  "snapshot_loop snap attempt 0 = None"
| "snapshot_loop snap attempt (Suc left) =
     (case snap attempt of Some s \<Rightarrow> Some s | None \<Rightarrow> snapshot_loop snap (Suc attempt) left)"

definition snapshot_with_retry :: "drift_env \<Rightarrow> broker_snapshot option" where
  "snapshot_with_retry denv = snapshot_loop (de_snapshot denv) 0 snapshot_attempts"

definition adopt_request ::
  "string \<Rightarrow> string \<Rightarrow> drift \<Rightarrow> string \<Rightarrow> decimal \<Rightarrow> string \<Rightarrow> append_request" where
  "adopt_request tenant account d unmanaged price event_id =
     \<lparr>ar_tenant = tenant, ar_account = account, ar_type = EXTERNAL_TRADE_DETECTED,
      ar_data = [(''sleeve_id'', JStr unmanaged), (''symbol'', JStr (dr_symbol d)),
                 (''qty'', JStr (dec_str (drift_delta d))), (''price'', JStr (dec_str price))],
      ar_sleeve = Some unmanaged, ar_event_id = Some event_id, ar_occurred_at = None\<rparr>"

definition adopt_incident :: "string \<Rightarrow> drift \<Rightarrow> decimal \<Rightarrow> ledger_incident" where
  "adopt_incident account d price =
     \<lparr>li_kind = ''external_trade_adopted'',
      li_message = dec_str (drift_delta d) @ '' '' @ dr_symbol d @ '' adopted at '' @ dec_str price,
      li_context = [(''account_id'', account), (''symbol'', dr_symbol d), (''qty'', dec_str (drift_delta d)),
                    (''price'', dec_str price)]\<rparr>"

type_synonym 'db policy_result = "('db \<times> sleeve_row list \<times> string \<times> ledger_incident list) result"

definition adopt_external_trade ::
  "'db store_env \<Rightarrow> drift_env \<Rightarrow> 'db \<Rightarrow> sleeve_row list \<Rightarrow> string \<Rightarrow> string \<Rightarrow> drift \<Rightarrow> 'db policy_result" where
  "adopt_external_trade env denv db sleeves tenant account d =
     (if (case de_orders denv of None \<Rightarrow> False
          | Some orders \<Rightarrow> has_recent_activity (de_now denv) orders tenant account (dr_symbol d))
      then Inr (db, sleeves, ''deferred'', [])
      else case get_sleeve_by_type sleeves tenant account UNMANAGED of
             None \<Rightarrow> Inr (db, sleeves, ''skipped'', [])
           | Some unmanaged \<Rightarrow>
               (case snapshot_with_retry denv of
                  None \<Rightarrow> Inr (db, sleeves, ''skipped'', [])
                | Some snapshot \<Rightarrow>
                    (case find (\<lambda>h. bp_symbol h = dr_symbol d) (bs_holdings snapshot) of
                       None \<Rightarrow> Inr (db, sleeves, ''skipped'', [])
                     | Some holding \<Rightarrow>
                         bindR (drift_event_id env account d ''adopt'' (de_date denv)) (\<lambda>event_id.
                         bindR (store_append env db
                                  (adopt_request tenant account d (sr_id unmanaged) (bp_avg_price holding) event_id))
                           (\<lambda>(db', r, inserted).
                              if \<not> inserted then Inr (db', sleeves, ''deduped'', [])
                              else Inr (db', sleeves, ''adopted'',
                                        if de_alerts denv then [adopt_incident account d (bp_avg_price holding)]
                                        else []))))))"

definition frozen_request ::
  "string \<Rightarrow> string \<Rightarrow> string \<Rightarrow> string \<Rightarrow> string \<Rightarrow> append_request" where
  "frozen_request tenant account sid reason event_id =
     \<lparr>ar_tenant = tenant, ar_account = account, ar_type = SLEEVE_FROZEN,
      ar_data = [(''sleeve_id'', JStr sid), (''reason'', JStr reason)],
      ar_sleeve = Some sid, ar_event_id = Some event_id, ar_occurred_at = None\<rparr>"

definition freeze_reason :: "drift \<Rightarrow> string" where
  "freeze_reason d =
     kind_text (dr_kind d) @ '': '' @ dr_symbol d @ '' ledger='' @ dec_str (dr_ledger_qty d) @ '' broker='' @
     dec_str (dr_broker_qty d)"

definition freeze_incident :: "string \<Rightarrow> string \<Rightarrow> drift \<Rightarrow> string \<Rightarrow> ledger_incident" where
  "freeze_incident account sid d reason =
     \<lparr>li_kind = ''sleeve_frozen'', li_message = ''Sleeve '' @ sid @ '' frozen: '' @ reason @ ''. Trading on it is halted.'',
      li_context = [(''sleeve_id'', sid), (''account_id'', account), (''symbol'', dr_symbol d),
                    (''drift_kind'', kind_text (dr_kind d)), (''ledger_qty'', dec_str (dr_ledger_qty d)),
                    (''broker_qty'', dec_str (dr_broker_qty d))]\<rparr>"

text \<open>
  The body both freezes share: flip the status, append the audit event, go on. \<open>picked\<close> is the
  loop's own guard, \<open>event_id\<close> derives the id, \<open>reason\<close> goes into the event.
\<close>

fun freeze_loop ::
  "'db store_env \<Rightarrow> string \<Rightarrow> string \<Rightarrow> (sleeve_row \<Rightarrow> bool) \<Rightarrow> (string \<Rightarrow> string result) \<Rightarrow> string \<Rightarrow>
   'db \<Rightarrow> sleeve_row list \<Rightarrow> sleeve_row list \<Rightarrow> ('db \<times> sleeve_row list \<times> string list) result" where
  "freeze_loop env tenant account picked event_id reason db sleeves [] = Inr (db, sleeves, [])"
| "freeze_loop env tenant account picked event_id reason db sleeves (s # ss) =
     (if \<not> picked s \<or> sr_status s = FROZEN
      then freeze_loop env tenant account picked event_id reason db sleeves ss
      else bindR (event_id (sr_id s)) (\<lambda>eid.
           bindR (store_append env db (frozen_request tenant account (sr_id s) reason eid)) (\<lambda>(db', r, new).
           bindR (freeze_loop env tenant account picked event_id reason db'
                    (set_sleeve_status sleeves (sr_id s) FROZEN) ss) (\<lambda>(db'', sleeves', frozen).
             Inr (db'', sleeves', sr_id s # frozen)))))"

definition holds_symbol :: "account_projection \<Rightarrow> string \<Rightarrow> sleeve_row \<Rightarrow> bool" where
  "holds_symbol acc y s =
     (case map_of (sl_positions (get_sleeve acc (sr_id s))) y of
        None \<Rightarrow> False | Some pos \<Rightarrow> \<not> is_zero (ps_qty pos))"

definition freeze_holding_sleeves ::
  "'db store_env \<Rightarrow> drift_env \<Rightarrow> 'db \<Rightarrow> sleeve_row list \<Rightarrow> string \<Rightarrow> string \<Rightarrow> drift \<Rightarrow> 'db policy_result" where
  "freeze_holding_sleeves env denv db sleeves tenant account d =
     (let projection = store_project env db tenant account; reason = freeze_reason d
      in bindR (freeze_loop env tenant account (holds_symbol projection (dr_symbol d))
                  (\<lambda>sid. drift_event_id env sid d ''freeze'' (de_date denv)) reason db sleeves
                  (list_sleeves sleeves tenant account)) (\<lambda>(db', sleeves', frozen).
           Inr (db', sleeves', ''froze:'' @ show_int (int (length frozen)),
                if de_alerts denv then map (\<lambda>sid. freeze_incident account sid d reason) frozen else [])))"

definition apply_drift_action ::
  "'db store_env \<Rightarrow> drift_env \<Rightarrow> 'db \<Rightarrow> sleeve_row list \<Rightarrow> string \<Rightarrow> string \<Rightarrow> drift \<Rightarrow> 'db policy_result" where
  "apply_drift_action env denv db sleeves tenant account d =
     (if dr_kind d = MISSING_IN_LEDGER then adopt_external_trade env denv db sleeves tenant account d
      else if dr_kind d \<in> set freeze_kinds then freeze_holding_sleeves env denv db sleeves tenant account d
      else Inr (db, sleeves, ''observed'', []))"

definition cash_freeze_event_id :: "'db store_env \<Rightarrow> string \<Rightarrow> string \<Rightarrow> string" where
  "cash_freeze_event_id env sid on_date = se_event_id env (sid @ '':cash_drift_freeze:'' @ on_date)"

definition minus_sign :: string where
  "minus_sign = [CHR 0xE2, CHR 0x88, CHR 0x92]"

definition cash_incident :: "string \<Rightarrow> decimal \<Rightarrow> string \<Rightarrow> ledger_incident" where
  "cash_incident account drift_amount reason =
     \<lparr>li_kind = ''sleeve_frozen'',
      li_message = ''Account '' @ account @ '' sleeves frozen: '' @ reason @
                   ''. Trading is halted until the cash discrepancy is reconciled.'',
      li_context = [(''account_id'', account), (''cash_drift'', dec_str drift_amount)]\<rparr>"

definition freeze_account_for_cash_drift ::
  "'db store_env \<Rightarrow> drift_env \<Rightarrow> 'db \<Rightarrow> sleeve_row list \<Rightarrow> string \<Rightarrow> string \<Rightarrow> decimal \<Rightarrow>
   ('db \<times> sleeve_row list \<times> nat \<times> ledger_incident list) result" where
  "freeze_account_for_cash_drift env denv db sleeves tenant account drift_amount =
     (let reason = ''sustained cash drift: broker '' @ minus_sign @ '' ledger = '' @ dec_str drift_amount
      in bindR (freeze_loop env tenant account (\<lambda>s. True)
                  (\<lambda>sid. Inr (cash_freeze_event_id env sid (de_date denv))) reason db sleeves
                  (list_sleeves sleeves tenant account)) (\<lambda>(db', sleeves', frozen).
           Inr (db', sleeves', length frozen,
                if frozen \<noteq> [] \<and> de_alerts denv then [cash_incident account drift_amount reason] else [])))"

section \<open>Retries\<close>

lemma snapshot_loop_None: "snapshot_loop snap a n = None \<longleftrightarrow> (\<forall>i<n. snap (a + i) = None)"
proof (induction n arbitrary: a)
  case (Suc n)
  show ?case using Suc.IH [of "Suc a"] unfolding All_less_Suc2 by (cases "snap a") simp_all
qed simp

lemma snapshot_with_retry_None: "snapshot_with_retry denv = None \<longleftrightarrow> (\<forall>i<3. de_snapshot denv i = None)"
  by (simp add: snapshot_with_retry_def snapshot_attempts_def snapshot_loop_None)

section \<open>Freezing\<close>

lemma frozen_posts: "posts (frozen_request tenant account sid reason eid) []"
  by (simp add: posts_def frozen_request_def assert_balanced_def dec_sum_def get_opt_def dict_get_def is_zero_val)

lemma freeze_append:
  assumes laws: "table_laws (se_insert env) (se_rows env)" "store_ok (se_rows env db)"
    and app: "store_append env db (frozen_request tenant account sid reason eid) = Inr (db', r, new)"
  shows "store_ok (se_rows env db')" "store_project env db' tenant account = store_project env db tenant account"
proof -
  show "store_ok (se_rows env db')" using append_store_ok [OF laws app [unfolded store_append_def]] .
  show "store_project env db' tenant account = store_project env db tenant account"
  proof (cases new)
    case True
    then show ?thesis
      using project_after_append [OF laws, of "frozen_request tenant account sid reason eid" db' r "[]"] app frozen_posts
      by (simp add: posts_def frozen_request_def posting_fold.run_Nil)
  next
    case False
    then have "se_rows env db' = se_rows env db" using append_event_Inr(1) [OF laws(1) app [unfolded store_append_def]] by simp
    then show ?thesis by (simp add: store_project_def project_account_def read_account_events_def)
  qed
qed

lemma freeze_loop_book:
  assumes "table_laws (se_insert env) (se_rows env)" "store_ok (se_rows env db)"
    and "freeze_loop env tenant account picked event_id reason db sleeves ss = Inr (db', sleeves', frozen)"
  shows "store_project env db' tenant account = store_project env db tenant account"
  using assms(2,3)
proof (induction ss arbitrary: db sleeves frozen)
  case (Cons s ss)
  show ?case
  proof (cases "\<not> picked s \<or> sr_status s = FROZEN")
    case True
    with Cons show ?thesis by simp
  next
    case False
    then obtain eid db1 r new frozen1 where a:
        "store_append env db (frozen_request tenant account (sr_id s) reason eid) = Inr (db1, r, new)"
      and l: "freeze_loop env tenant account picked event_id reason db1 (set_sleeve_status sleeves (sr_id s) FROZEN) ss =
        Inr (db', sleeves', frozen1)"
      using Cons.prems(2) by (auto simp: bindR_eq_Inr)
    show ?thesis using Cons.IH [OF freeze_append(1) [OF assms(1) Cons.prems(1) a] l]
        freeze_append(2) [OF assms(1) Cons.prems(1) a] by simp
  qed
qed simp

lemma freeze_loop_sleeves:
  assumes "freeze_loop env tenant account picked event_id reason db sleeves ss = Inr (db', sleeves', frozen)"
  shows "frozen = map sr_id (filter (\<lambda>s. picked s \<and> sr_status s \<noteq> FROZEN) ss)"
    and "sleeves' = map (\<lambda>s. if sr_id s \<in> set frozen then s\<lparr>sr_status := FROZEN\<rparr> else s) sleeves"
  using assms
proof (induction ss arbitrary: db sleeves frozen)
  case (Cons s ss)
  { case 1
    then show ?case using Cons.IH(1) by (auto simp: bindR_eq_Inr split: if_split_asm)
  next
    case 2
    then show ?case using Cons.IH(2) by (fastforce simp: bindR_eq_Inr set_sleeve_status_def split: if_split_asm)
  }
qed simp_all

lemma freeze_keeps_book:
  assumes "table_laws (se_insert env) (se_rows env)" "store_ok (se_rows env db)"
    and "freeze_holding_sleeves env denv db sleeves tenant account d = Inr (db', sleeves', action, incidents)"
  shows "store_project env db' tenant account = store_project env db tenant account"
  using freeze_loop_book [OF assms(1,2)] assms(3) by (auto simp: freeze_holding_sleeves_def Let_def bindR_eq_Inr)

text \<open>Primary keys are unique, so a row is determined by its id.\<close>

lemma frozen_ids:
  assumes "distinct (map sr_id sleeves)" "s \<in> set sleeves"
  shows "sr_id s \<in> sr_id ` set (filter P (list_sleeves sleeves tenant account)) \<longleftrightarrow>
    P s \<and> sr_tenant s = tenant \<and> sr_account s = account"
proof -
  have "x = s" if "x \<in> set sleeves" "sr_id x = sr_id s" for x
    using assms that unfolding distinct_map by (blast dest: inj_onD)
  then show ?thesis using assms(2) by (auto simp: list_sleeves_def)
qed

lemma freeze_rows:
  assumes "distinct (map sr_id sleeves)"
  shows "map (\<lambda>s. if sr_id s \<in> sr_id ` set (filter (\<lambda>s. P s \<and> sr_status s \<noteq> FROZEN) (list_sleeves sleeves tenant account))
      then s\<lparr>sr_status := FROZEN\<rparr> else s) sleeves =
    map (\<lambda>s. if sr_tenant s = tenant \<and> sr_account s = account \<and> P s then s\<lparr>sr_status := FROZEN\<rparr> else s) sleeves"
proof (rule map_cong [OF refl])
  fix s assume s: "s \<in> set sleeves"
  have "s\<lparr>sr_status := FROZEN\<rparr> = s" if "sr_status s = FROZEN" using that by (cases s) simp
  then show "(if sr_id s \<in> sr_id ` set (filter (\<lambda>s. P s \<and> sr_status s \<noteq> FROZEN) (list_sleeves sleeves tenant account))
      then s\<lparr>sr_status := FROZEN\<rparr> else s) =
    (if sr_tenant s = tenant \<and> sr_account s = account \<and> P s then s\<lparr>sr_status := FROZEN\<rparr> else s)"
    unfolding frozen_ids [OF assms s] by auto
qed

lemma freeze_exact:
  assumes keys: "distinct (map sr_id sleeves)"
    and ok: "freeze_holding_sleeves env denv db sleeves tenant account d = Inr (db', sleeves', action, incidents)"
  shows "sleeves' = map (\<lambda>s. if sr_tenant s = tenant \<and> sr_account s = account \<and>
      holds_symbol (store_project env db tenant account) (dr_symbol d) s then s\<lparr>sr_status := FROZEN\<rparr> else s) sleeves"
proof -
  obtain frozen where l: "freeze_loop env tenant account (holds_symbol (store_project env db tenant account) (dr_symbol d))
      (\<lambda>sid. drift_event_id env sid d ''freeze'' (de_date denv)) (freeze_reason d) db sleeves
      (list_sleeves sleeves tenant account) = Inr (db', sleeves', frozen)"
    using ok by (auto simp: freeze_holding_sleeves_def Let_def bindR_eq_Inr)
  show ?thesis unfolding freeze_loop_sleeves(2) [OF l] freeze_loop_sleeves(1) [OF l] set_map by (rule freeze_rows [OF keys])
qed

lemma cash_freeze_sleeves:
  assumes keys: "distinct (map sr_id sleeves)"
    and ok: "freeze_account_for_cash_drift env denv db sleeves tenant account x = Inr (db', sleeves', n, incidents)"
  shows "sleeves' = map (\<lambda>s. if sr_tenant s = tenant \<and> sr_account s = account then s\<lparr>sr_status := FROZEN\<rparr> else s) sleeves"
proof -
  obtain frozen reason where l: "freeze_loop env tenant account (\<lambda>s. True)
      (\<lambda>sid. Inr (cash_freeze_event_id env sid (de_date denv))) reason db sleeves
      (list_sleeves sleeves tenant account) = Inr (db', sleeves', frozen)"
    using ok by (auto simp: freeze_account_for_cash_drift_def Let_def bindR_eq_Inr)
  show ?thesis unfolding freeze_loop_sleeves(2) [OF l] freeze_loop_sleeves(1) [OF l] set_map
    using freeze_rows [OF keys, of "\<lambda>s. True"] by simp
qed

lemma freeze_loop_total:
  assumes laws: "table_laws (se_insert env) (se_rows env)"
    and ids: "\<And>sid. \<exists>eid. event_id sid = Inr eid"
  shows "\<exists>db' sleeves' frozen. freeze_loop env tenant account picked event_id reason db sleeves ss = Inr (db', sleeves', frozen)"
proof (induction ss arbitrary: db sleeves)
  case (Cons s ss)
  obtain eid where e: "event_id (sr_id s) = Inr eid" using ids by blast
  have p: "posts (frozen_request tenant account (sr_id s) reason eid) []" by (rule frozen_posts)
  then obtain db1 r new where a: "store_append env db (frozen_request tenant account (sr_id s) reason eid) = Inr (db1, r, new)"
    using append_event_total [OF laws, of "frozen_request tenant account (sr_id s) reason eid" "[]"]
    unfolding posts_def store_append_def by blast
  obtain db' sleeves' frozen where "freeze_loop env tenant account picked event_id reason db1
      (set_sleeve_status sleeves (sr_id s) FROZEN) ss = Inr (db', sleeves', frozen)"
    using Cons.IH by blast
  with Cons.IH [of db sleeves] show ?case by (simp add: e a)
qed simp

lemma cash_freeze_total:
  assumes "table_laws (se_insert env) (se_rows env)"
  shows "\<exists>db' sleeves' n incidents. freeze_account_for_cash_drift env denv db sleeves tenant account x =
    Inr (db', sleeves', n, incidents)"
proof -
  obtain reason where r: "reason = ''sustained cash drift: broker '' @ minus_sign @ '' ledger = '' @ dec_str x" by simp
  obtain db' sleeves' frozen where "freeze_loop env tenant account (\<lambda>s. True)
      (\<lambda>sid. Inr (cash_freeze_event_id env sid (de_date denv))) reason db sleeves
      (list_sleeves sleeves tenant account) = Inr (db', sleeves', frozen)"
    using freeze_loop_total [OF assms, of "\<lambda>sid. Inr (cash_freeze_event_id env sid (de_date denv))"] by blast
  then show ?thesis by (simp add: freeze_account_for_cash_drift_def Let_def r)
qed

section \<open>Adoption heals the aggregate\<close>

definition sleeve_qtys :: "string \<Rightarrow> sleeve_projection \<Rightarrow> decimal list" where
  "sleeve_qtys y s = symbol_qtys y (map (\<lambda>(y, pos). (y, ps_qty pos)) (sl_positions s))"

lemma symbol_qtys_holdings: "symbol_qtys y (holdings acc) = concat (map (sleeve_qtys y) (vals (acc_sleeves acc)))"
proof -
  have "symbol_qtys y (map f (concat xss)) = concat (map (\<lambda>xs. symbol_qtys y (map f xs)) xss)"
    for f :: "string \<times> position_state \<Rightarrow> string \<times> decimal" and xss
    by (induction xss) simp_all
  then show ?thesis by (simp add: holdings_def sleeve_qtys_def [abs_def] comp_def)
qed

lemma sleeve_qtys_wf:
  "wf_dict (sl_positions s) \<Longrightarrow>
   sleeve_qtys y s = (case map_of (sl_positions s) y of None \<Rightarrow> [] | Some pos \<Rightarrow> [ps_qty pos])"
proof -
  have "symbol_qtys y (map (\<lambda>(y, pos). (y, ps_qty pos)) d) = (case map_of d y of None \<Rightarrow> [] | Some pos \<Rightarrow> [ps_qty pos])"
    if "wf_dict d" for d :: "(string, position_state) dict"
    using that
  proof (induction d)
    case (Cons x d)
    then have "symbol_qtys y (map (\<lambda>(y, pos). (y, ps_qty pos)) d) = []" if "fst x = y"
      using that by (metis (no_types, lifting) distinct.simps(2) list.map(2) map_of_eq_None_iff option.simps(4) set_map)
    with Cons show ?case by (cases x) (auto split: option.splits)
  qed simp
  then show "wf_dict (sl_positions s) \<Longrightarrow> ?thesis" by (simp add: sleeve_qtys_def)
qed

lemma sum_qtys:
  fixes F :: "decimal \<Rightarrow> rat"
  assumes "acc_wf acc" "F 0 = 0"
  shows "sum_list (map F (symbol_qtys y (holdings acc))) =
    sum_vals (\<lambda>s. F (ps_qty (dict_get (sl_positions s) y empty_position))) (acc_sleeves acc)"
proof -
  have "sum_list (map F (sleeve_qtys y s)) = F (ps_qty (dict_get (sl_positions s) y empty_position))"
    if "wf_dict (sl_positions s)" for s
    using that assms(2) by (auto simp: sleeve_qtys_wf dict_get_def empty_position_def split: option.splits)
  moreover have "sum_list (map F (concat (map (sleeve_qtys y) ss))) =
      sum_list (map (\<lambda>s. sum_list (map F (sleeve_qtys y s))) ss)" for ss
    by (induction ss) simp_all
  moreover have "wf_dict (sl_positions s)" if "s \<in> set (vals (acc_sleeves acc))" for s
    using assms(1) that by (auto simp: acc_wf_def list_all_iff)
  ultimately show ?thesis
    unfolding symbol_qtys_holdings sum_vals_conv by (metis (mono_tags, lifting) map_cong)
qed

lemma adopt_postings:
  "build_postings (ar_type (adopt_request tenant account d um price eid)) (ar_data (adopt_request tenant account d um price eid)) =
     Inr [Posting None EXTERNAL (- (drift_delta d * price)), PositionLeg um (drift_delta d * price) (dr_symbol d) (drift_delta d)]"
  "get_opt (ar_data (adopt_request tenant account d um price eid)) ''client_order_id'' = JNull"
  by (simp_all add: adopt_request_def str_field_def field_def d_field_def dec_text.dec_enc Let_def get_opt_def dict_get_def)

text \<open>One more share lot on one sleeve moves the aggregate of its symbol by exactly its quantity.\<close>

lemma aggregate_after_trade:
  fixes um :: string and c e :: decimal
  assumes wf: "acc_wf acc" and g: "on_grid k (symbol_qtys y (holdings acc))" "grid k (val q)"
    and rm: "room k (weight (symbol_qtys y (holdings acc)) + \<bar>val q\<bar>)"
  defines "acc' \<equiv> apply_postings acc [Posting None EXTERNAL e, PositionLeg um c y q]"
  shows "val (dict_get (account_positions acc') y 0) = val (dict_get (account_positions acc) y 0) + val q"
proof -
  define old where "old = ps_qty (cell acc um y)"
  define post where "post = (\<lambda>s::sleeve_projection. s\<lparr>sl_positions := dict_modify y empty_position (post_position (PositionLeg um c y q)) (sl_positions s)\<rparr>)"
  have acc': "acc' = on_sleeve um post acc"
    by (simp add: acc'_def apply_postings_def apply_posting_def Posting_def PositionLeg_def post_sleeve_def [abs_def] post_def)
  have wf': "acc_wf acc'" unfolding acc'_def by (rule apply_postings_wf [OF wf])
  have q': "ps_qty (dict_get (sl_positions (post s)) y empty_position) =
      ps_qty (dict_get (sl_positions s) y empty_position) + q" for s
    by (simp add: post_def dict_simps post_position_def PositionLeg_def)
  have step: "sum_list (map F (symbol_qtys y (holdings acc'))) =
      sum_list (map F (symbol_qtys y (holdings acc))) + F (old + q) - F old" if "F 0 = 0" for F :: "decimal \<Rightarrow> rat"
  proof -
    have z: "F (ps_qty (dict_get (sl_positions empty_sleeve) y empty_position)) = 0"
      using that by (simp add: empty_sleeve_def empty_position_def)
    show ?thesis
      unfolding sum_qtys [of acc' F, OF wf' that] sum_qtys [of acc F, OF wf that]
      unfolding acc' on_sleeve_def old_def
      by (simp add: sum_vals_modify [where g = "\<lambda>s. F (ps_qty (dict_get (sl_positions s) y empty_position))", OF z]
          q' cell_def get_sleeve_def)
  qed
  have w0: "0 \<le> weight (symbol_qtys y (holdings acc))" by (rule weight_nonneg)
  have in_old: "old = 0 \<or> old \<in> set (symbol_qtys y (holdings acc))"
  proof (cases "map_of (acc_sleeves acc) um")
    case (Some s)
    then have s: "s \<in> set (vals (acc_sleeves acc))" by (force dest: map_of_SomeD)
    with wf have "wf_dict (sl_positions s)" by (auto simp: acc_wf_def list_all_iff)
    moreover have "old = ps_qty (dict_get (sl_positions s) y empty_position)"
      using Some by (simp add: old_def cell_def get_sleeve_def dict_get_def)
    ultimately have "old = 0 \<or> old \<in> set (sleeve_qtys y s)"
      by (auto simp: sleeve_qtys_wf dict_get_def empty_position_def split: option.splits)
    with s show ?thesis by (auto simp: symbol_qtys_holdings)
  qed (simp add: old_def cell_def get_sleeve_def dict_get_def empty_sleeve_def empty_position_def)
  have go: "grid k (val old)" "\<bar>val old\<bar> \<le> weight (symbol_qtys y (holdings acc))"
    using in_old g(1) w0 weight_member by (auto simp: on_grid_def list_all_iff)
  have sum: "val (old + q) = val old + val q"
    using go(2) by (intro val_add_grid [OF go(1) g(2)] room_mono [OF rm]) linarith
  have w: "weight (symbol_qtys y (holdings acc')) \<le> weight (symbol_qtys y (holdings acc)) + \<bar>val q\<bar>"
    using step [of "\<lambda>d. \<bar>val d\<bar>"] by (simp add: weight_def sum)
  have g': "on_grid k (symbol_qtys y (holdings acc'))"
  proof -
    have P: "on_grid k (symbol_qtys y (holdings a)) \<longleftrightarrow> list_all (\<lambda>s. on_grid k (sleeve_qtys y s)) (vals (acc_sleeves a))" for a
      by (auto simp: symbol_qtys_holdings on_grid_def list_all_iff)
    let ?s = "dict_get (acc_sleeves acc) um empty_sleeve"
    have "wf_dict (sl_positions ?s)"
      using wf unfolding acc_wf_def by (intro all_vals_get [where P = "\<lambda>s. wf_dict (sl_positions s)"]) (simp_all add: empty_sleeve_def)
    then have "wf_dict (sl_positions (post ?s))" by (simp add: post_def)
    then have "sleeve_qtys y (post ?s) = [old + q]"
      by (simp add: sleeve_qtys_wf) (simp add: post_def dict_simps post_position_def PositionLeg_def old_def cell_def get_sleeve_def)
    then have "on_grid k (sleeve_qtys y (post ?s))" using go(1) g(2) by (simp add: on_grid_def sum grid_add)
    with g(1) show ?thesis unfolding P by (simp add: acc' on_sleeve_def all_vals_modify)
  qed
  have "val (dict_get (account_positions acc') y 0) = sum_list (map val (symbol_qtys y (holdings acc')))"
    using w rm by (intro account_positions_total [OF g']) (rule room_mono)
  moreover have "val (dict_get (account_positions acc) y 0) = sum_list (map val (symbol_qtys y (holdings acc)))"
    by (rule account_positions_total [OF g(1) room_mono [OF rm]]) simp
  ultimately show ?thesis using step [of val] by (simp add: sum)
qed

lemma adopt_Inr:
  assumes "adopt_external_trade env denv db sleeves tenant account d = Inr (db', sleeves', ''adopted'', incidents)"
  obtains um price eid r where "store_append env db (adopt_request tenant account d (sr_id um) price eid) = Inr (db', r, True)"
    "get_sleeve_by_type sleeves tenant account UNMANAGED = Some um" "sleeves' = sleeves"
  using assms unfolding adopt_external_trade_def
  by (auto simp: bindR_eq_Inr split: option.splits if_split_asm)

theorem adopt_heals_book:
  assumes laws: "table_laws (se_insert env) (se_rows env)" "store_ok (se_rows env db)"
    and d: "d \<in> set (reconcile (store_project env db tenant account) broker tol)" "dr_kind d = MISSING_IN_LEDGER"
    and g: "on_grid k (symbol_qtys (dr_symbol d) (holdings (store_project env db tenant account)))"
      "grid k (val (dr_broker_qty d))"
    and rm: "room k (weight (symbol_qtys (dr_symbol d) (holdings (store_project env db tenant account))) + \<bar>val (dr_broker_qty d)\<bar>)"
    and ok: "adopt_external_trade env denv db sleeves tenant account d = Inr (db', sleeves', ''adopted'', incidents)"
  shows "\<not> differs (store_project env db' tenant account) broker (dr_symbol d)"
proof -
  let ?acc = "store_project env db tenant account"
  obtain um :: sleeve_row and price eid r where a: "store_append env db (adopt_request tenant account d (sr_id um) price eid) = Inr (db', r, True)"
    by (rule adopt_Inr [OF ok]) blast
  note f = reconcile_fields [OF d(1)]
  have z: "val (dr_ledger_qty d) = 0" using f(5) d(2) by simp
  have w0: "0 \<le> weight (symbol_qtys (dr_symbol d) (holdings ?acc))" by (rule weight_nonneg)
  have delta: "val (drift_delta d) = val (dr_broker_qty d)"
    unfolding drift_delta_def using z
    by (subst val_diff_grid [OF g(2), of "dr_ledger_qty d"]) (simp_all add: grid_def, rule room_mono [OF rm], use w0 in simp)
  have "store_project env db' tenant account = apply_postings ?acc
      [Posting None EXTERNAL (- (drift_delta d * price)), PositionLeg (sr_id um) (drift_delta d * price) (dr_symbol d) (drift_delta d)]"
    using project_after_append [OF laws a adopt_postings] by (simp add: adopt_request_def)
  moreover have "acc_wf ?acc" by (simp add: store_project_def project_account_def fold_account_wf)
  ultimately have "val (dict_get (account_positions (store_project env db' tenant account)) (dr_symbol d) 0) =
      val (dict_get (account_positions ?acc) (dr_symbol d) 0) + val (drift_delta d)"
    using aggregate_after_trade g rm by (simp add: delta)
  then show ?thesis using f(1,2) z delta by (simp add: differs_def)
qed

end
