(* ===== verification/Reconciliation_Task.thy ===== *)
theory Reconciliation_Task
  imports Drift_Policy Projector
begin

text \<open>
  The reconciliation pass (\<^verbatim>\<open>tasks/reconciliation.py\<close>): one account's outcome, the
  staleness clock and the cash-drift streaks that lead to an account freeze. Account ids are
  strings; clock readings are rationals, exact where Python's floats round.

  \<^item> An account whose broker truth is unreadable is skipped without any drift (\<open>unreadable_skipped\<close>).
  \<^item> An account is frozen only after \<open>n\<close> cash readings in a row above the threshold, and \<open>n\<close> such
    readings do freeze it (\<open>fires_sound\<close>, \<open>fires_complete\<close>): unread passes neither count nor reset.
  \<^item> An account is stale exactly when its last success, or first sighting, is too long ago
    (\<open>staleness_iff\<close>).
\<close>

section \<open>One account\<close>

record recon_result =
  rr_account :: string
  rr_drifts :: "drift list"
  rr_error :: "string option"
  rr_skipped :: bool
  rr_cash_drift :: "decimal option"

definition recon_ok :: "recon_result \<Rightarrow> bool" where
  "recon_ok r \<longleftrightarrow> rr_error r = None \<and> rr_drifts r = [] \<and> \<not> rr_skipped r"

definition material_drift_kinds :: "DriftKind list" where
  "material_drift_kinds = [QTY_MISMATCH, MISSING_AT_BROKER, MISSING_IN_LEDGER]"

text \<open>How a call that leaves the process ends: a value, or one of the exception classes of the handlers.\<close>

datatype 'a outcome = Value 'a | Unavailable | TimedOut | Failed string

fun bind_outcome :: "'a outcome \<Rightarrow> ('a \<Rightarrow> 'b outcome) \<Rightarrow> 'b outcome" where
  "bind_outcome (Value x) f = f x"
| "bind_outcome Unavailable f = Unavailable"
| "bind_outcome TimedOut f = TimedOut"
| "bind_outcome (Failed e) f = Failed e"

fun read_broker_cash :: "decimal outcome \<Rightarrow> decimal option" where
  "read_broker_cash (Value c) = Some c"
| "read_broker_cash _ = None"

text \<open>The drifts forwarded to the handler; the handler's own failures are logged and dropped.\<close>

definition surface_drifts :: "drift list \<Rightarrow> drift list" where
  "surface_drifts drifts = filter (\<lambda>d. dr_kind d \<in> set material_drift_kinds) drifts"

definition reconcile_one ::
  "string \<Rightarrow> (string, decimal) dict outcome \<Rightarrow> decimal outcome \<Rightarrow>
   ((string, decimal) dict \<Rightarrow> decimal option \<Rightarrow> (drift list \<times> decimal option) outcome) \<Rightarrow>
   recon_result \<times> drift list" where
  "reconcile_one account positions cash reconcile_acc =
     (let base = \<lparr>rr_account = account, rr_drifts = [], rr_error = None, rr_skipped = False, rr_cash_drift = None\<rparr>
      in case bind_outcome positions (\<lambda>broker. reconcile_acc broker (read_broker_cash cash)) of
           Value (drifts, drift_amount) \<Rightarrow>
             (base\<lparr>rr_drifts := drifts, rr_cash_drift := drift_amount\<rparr>, surface_drifts drifts)
         | Unavailable \<Rightarrow> (base\<lparr>rr_skipped := True\<rparr>, [])
         | TimedOut \<Rightarrow> (base\<lparr>rr_error := Some ''timeout''\<rparr>, [])
         | Failed e \<Rightarrow> (base\<lparr>rr_error := Some e\<rparr>, []))"

section \<open>Staleness\<close>

definition stale_after_intervals :: rat where
  "stale_after_intervals = 3"

definition prune :: "string set \<Rightarrow> (string, 'v) dict \<Rightarrow> (string, 'v) dict" where
  "prune seen d = filter (\<lambda>kv. fst kv \<in> seen) d"

definition record_result :: "rat \<Rightarrow> (string, rat) dict \<Rightarrow> recon_result \<Rightarrow> (string, rat) dict" where
  "record_result now seen_at r =
     (if rr_error r = None \<and> \<not> rr_skipped r then AList.update (rr_account r) now seen_at
      else dict_setdefault (rr_account r) now seen_at)"

definition update_staleness ::
  "recon_result list \<Rightarrow> (string, rat) dict \<Rightarrow> rat \<Rightarrow> rat \<Rightarrow> (string, rat) dict \<times> string list" where
  "update_staleness results last_success interval now =
     (let kept = prune (rr_account ` set results) last_success;
          updated = foldl (record_result now) kept results;
          threshold = stale_after_intervals * interval
      in (updated, map fst (filter (\<lambda>(a, ts). threshold < now - ts) updated)))"

section \<open>Cash-drift streaks\<close>

definition streak_step ::
  "decimal \<Rightarrow> int \<Rightarrow> (string, int) dict \<times> string list \<Rightarrow> recon_result \<Rightarrow> (string, int) dict \<times> string list" where
  "streak_step threshold sustained st r =
     (let (streaks, candidates) = st
      in case rr_cash_drift r of
           None \<Rightarrow> st
         | Some x \<Rightarrow>
             let a = rr_account r;
                 n = (if threshold < \<bar>x\<bar> then dict_get streaks a 0 + 1 else 0)
             in if sustained \<le> n then (AList.update a 0 streaks, candidates @ [a])
                else (AList.update a n streaks, candidates))"

definition update_cash_drift_streaks ::
  "recon_result list \<Rightarrow> (string, int) dict \<Rightarrow> decimal \<Rightarrow> int \<Rightarrow> (string, int) dict \<times> string list" where
  "update_cash_drift_streaks results streaks threshold sustained =
     foldl (streak_step threshold sustained) (prune (rr_account ` set results) streaks, []) results"

text \<open>The accounts to freeze with their drift, in candidate order; later rows win in the two dicts.\<close>

definition freeze_targets ::
  "recon_result list \<Rightarrow> account_row list \<Rightarrow> string list \<Rightarrow> (account_row \<times> decimal) list" where
  "freeze_targets results accounts candidates =
     List.map_filter (\<lambda>aid.
       case (find (\<lambda>a. ac_id a = aid) (rev accounts), find (\<lambda>r. rr_account r = aid) (rev results)) of
         (Some a, Some r) \<Rightarrow> map_option (Pair a) (rr_cash_drift r)
       | _ \<Rightarrow> None) candidates"

section \<open>Facts\<close>

lemma unreadable_skipped:
  "reconcile_one account Unavailable cash f =
     (\<lparr>rr_account = account, rr_drifts = [], rr_error = None, rr_skipped = True, rr_cash_drift = None\<rparr>, [])"
  by (simp add: reconcile_one_def)

text \<open>The account's own reading in a pass with one result per account.\<close>

definition reading :: "recon_result list \<Rightarrow> string \<Rightarrow> decimal option" where
  "reading results a = (case find (\<lambda>r. rr_account r = a) results of None \<Rightarrow> None | Some r \<Rightarrow> rr_cash_drift r)"

definition exceeds :: "decimal \<Rightarrow> decimal \<Rightarrow> bool" where
  "exceeds threshold d \<longleftrightarrow> threshold < \<bar>d\<bar>"

definition streak_next :: "decimal \<Rightarrow> int \<Rightarrow> int \<Rightarrow> decimal option \<Rightarrow> int \<times> bool" where
  "streak_next threshold sustained n x =
     (case x of None \<Rightarrow> (n, False)
      | Some d \<Rightarrow> let m = (if exceeds threshold d then n + 1 else 0)
                  in if sustained \<le> m then (0, True) else (m, False))"

lemma reading_simps:
  "reading [] a = None" "reading (r # rs) a = (if rr_account r = a then rr_cash_drift r else reading rs a)"
  by (simp_all add: reading_def)

lemma reading_absent: "a \<notin> set (map rr_account rs) \<Longrightarrow> reading rs a = None"
  by (induction rs) (auto simp: reading_simps)

lemma streak_next_None [simp]: "streak_next t n k None = (k, False)"
  by (simp add: streak_next_def)

lemma streak_fold:
  assumes "distinct (map rr_account rs)"
  shows "dict_get (fst (foldl (streak_step t n) (s, cs) rs)) a 0 = fst (streak_next t n (dict_get s a 0) (reading rs a)) \<and>
    (a \<in> set (snd (foldl (streak_step t n) (s, cs) rs)) \<longleftrightarrow> a \<in> set cs \<or> snd (streak_next t n (dict_get s a 0) (reading rs a)))"
  using assms
proof (induction rs arbitrary: s cs)
  case (Cons r rs)
  have absent: "reading rs a = None" if "rr_account r = a"
    using Cons.prems that by (intro reading_absent) auto
  obtain s' cs' where st: "streak_step t n (s, cs) r = (s', cs')" by (cases "streak_step t n (s, cs) r")
  have one: "dict_get s' a 0 = (if rr_account r = a then fst (streak_next t n (dict_get s a 0) (rr_cash_drift r)) else dict_get s a 0)"
    "a \<in> set cs' \<longleftrightarrow> a \<in> set cs \<or> rr_account r = a \<and> snd (streak_next t n (dict_get s a 0) (rr_cash_drift r))"
    using st by (auto simp: streak_step_def streak_next_def exceeds_def Let_def dict_simps split: option.splits if_split_asm)
  show ?case using Cons.IH [of s' cs'] Cons.prems absent by (auto simp: st one reading_simps)
qed (simp add: reading_simps)

lemma prune_get: "a \<in> seen \<Longrightarrow> dict_get (prune seen d) a dflt = dict_get d a dflt"
  by (induction d) (auto simp: prune_def dict_get_Cons)

text \<open>A sequence of passes, and the account's view of it.\<close>

fun run_passes :: "decimal \<Rightarrow> int \<Rightarrow> (string, int) dict \<Rightarrow> recon_result list list \<Rightarrow> string list list" where
  "run_passes t n s [] = []"
| "run_passes t n s (p # ps) =
     (let (s', cs) = update_cash_drift_streaks p s t n in cs # run_passes t n s' ps)"

fun fires :: "decimal \<Rightarrow> int \<Rightarrow> int \<Rightarrow> decimal option list \<Rightarrow> bool list" where
  "fires t n k [] = []"
| "fires t n k (x # xs) = snd (streak_next t n k x) # fires t n (fst (streak_next t n k x)) xs"

definition proper_pass :: "string \<Rightarrow> recon_result list \<Rightarrow> bool" where
  "proper_pass a p \<longleftrightarrow> distinct (map rr_account p) \<and> a \<in> set (map rr_account p)"

lemma passes_fire:
  assumes "list_all (proper_pass a) ps"
  shows "map (\<lambda>cs. a \<in> set cs) (run_passes t n s ps) = fires t n (dict_get s a 0) (map (\<lambda>p. reading p a) ps)"
  using assms
proof (induction ps arbitrary: s)
  case (Cons p ps)
  obtain s' cs where u: "update_cash_drift_streaks p s t n = (s', cs)" by (cases "update_cash_drift_streaks p s t n")
  have p: "distinct (map rr_account p)" "a \<in> rr_account ` set p" using Cons.prems by (simp_all add: proper_pass_def)
  have "dict_get s' a 0 = fst (streak_next t n (dict_get s a 0) (reading p a))"
    "a \<in> set cs \<longleftrightarrow> snd (streak_next t n (dict_get s a 0) (reading p a))"
    using streak_fold [OF p(1), where s = "prune (rr_account ` set p) s" and cs = "[]" and a = a and t = t and n = n] u prune_get [OF p(2), of s 0]
    by (simp_all add: update_cash_drift_streaks_def)
  with Cons show ?case by (simp add: u)
qed simp

fun seen_values :: "'a option list \<Rightarrow> 'a list" where
  "seen_values [] = []"
| "seen_values (None # xs) = seen_values xs"
| "seen_values (Some x # xs) = x # seen_values xs"

lemma fires_length [simp]: "length (fires t n k xs) = length xs"
  by (induction xs arbitrary: k) simp_all

lemma fires_sound:
  assumes "0 < n" "i < length xs" "fires t n k xs ! i" "k \<le> int (length (takeWhile (exceeds t) (rev past)))"
  shows "n \<le> int (length (takeWhile (exceeds t) (rev (past @ seen_values (take (Suc i) xs)))))"
  using assms(2-)
proof (induction xs arbitrary: k i past)
  case (Cons x xs)
  define k' where "k' = fst (streak_next t n k x)"
  show ?case
  proof (cases x)
    case None
    with Cons.prems show ?thesis using Cons.IH [of "i - 1" k past] by (cases i) auto
  next
    case (Some d)
    have inv: "k' \<le> int (length (takeWhile (exceeds t) (rev (past @ [d]))))"
      using Cons.prems(3) Some by (auto simp: k'_def streak_next_def Let_def)
    show ?thesis
    proof (cases i)
      case 0
      with Cons.prems Some assms(1) show ?thesis by (auto simp: streak_next_def Let_def split: if_split_asm)
    next
      case (Suc j)
      with Cons.prems Some Cons.IH [of j k' "past @ [d]"] inv show ?thesis by (simp add: k'_def)
    qed
  qed
qed simp

lemma streak_next_nonneg: "0 \<le> k \<Longrightarrow> 0 \<le> fst (streak_next t n k x)"
  by (auto simp: streak_next_def Let_def split: option.splits)

lemma fires_complete_from:
  assumes "list_all (exceeds t) (seen_values xs)" "0 < n" "n \<le> k + int (length (seen_values xs))" "k < n"
  shows "True \<in> set (fires t n k xs)"
  using assms(1,3,4)
proof (induction xs arbitrary: k)
  case (Cons x xs)
  show ?case
  proof (cases x)
    case None
    with Cons show ?thesis by simp
  next
    case (Some d)
    with Cons.prems have "exceeds t d" by simp
    with Cons Some show ?thesis by (cases "n \<le> k + 1") (auto simp: streak_next_def Let_def)
  qed
qed simp

lemma fires_complete:
  assumes "list_all (exceeds t) (seen_values mid)" "0 < n" "n \<le> int (length (seen_values mid))" "0 \<le> k" "k < n"
  shows "True \<in> set (drop (length pre) (fires t n k (pre @ mid)))"
  using assms(4,5)
proof (induction pre arbitrary: k)
  case Nil
  then show ?case using fires_complete_from [OF assms(1,2), of k] assms(3) by simp
next
  case (Cons x pre)
  have "fst (streak_next t n k x) < n" using Cons.prems assms(2) by (auto simp: streak_next_def Let_def split: option.splits)
  with Cons streak_next_nonneg [of k t n x] show ?case by simp
qed

section \<open>Staleness\<close>

definition succeeded :: "recon_result list \<Rightarrow> string \<Rightarrow> bool" where
  "succeeded rs a \<longleftrightarrow> list_ex (\<lambda>r. rr_account r = a \<and> rr_error r = None \<and> \<not> rr_skipped r) rs"

lemma record_results:
  assumes "distinct (map rr_account rs)"
  shows "map_of (foldl (record_result now) d rs) a =
    (if a \<notin> set (map rr_account rs) then map_of d a
     else if succeeded rs a then Some now
     else Some (case map_of d a of None \<Rightarrow> now | Some t \<Rightarrow> t))"
  using assms
proof (induction rs arbitrary: d)
  case (Cons r rs)
  have absent: "\<not> succeeded rs a" if "a \<notin> rr_account ` set rs" using that by (auto simp: succeeded_def list_ex_iff)
  have "map_of (record_result now d r) a =
      (if a = rr_account r then Some (if rr_error r = None \<and> \<not> rr_skipped r then now
         else case map_of d a of None \<Rightarrow> now | Some t \<Rightarrow> t) else map_of d a)"
    by (auto simp: record_result_def dict_simps dict_setdefault_def map_add_def split: option.splits)
  with Cons absent show ?case by (auto simp: succeeded_def)
qed simp

lemma record_results_wf: "wf_dict d \<Longrightarrow> wf_dict (foldl (record_result now) d rs)"
  by (induction rs arbitrary: d) (simp_all add: record_result_def)

lemma staleness_iff:
  assumes "distinct (map rr_account rs)" "wf_dict clock"
  shows "a \<in> set (snd (update_staleness rs clock interval now)) \<longleftrightarrow>
    a \<in> set (map rr_account rs) \<and>
    stale_after_intervals * interval <
      now - (if succeeded rs a then now else case map_of clock a of None \<Rightarrow> now | Some t \<Rightarrow> t)"
proof -
  let ?kept = "prune (rr_account ` set rs) clock"
  let ?up = "foldl (record_result now) ?kept rs"
  have wf: "wf_dict ?up"
    by (rule record_results_wf) (simp add: prune_def assms(2) distinct_map_filter)
  have kept: "map_of ?kept a = (if a \<in> rr_account ` set rs then map_of clock a else None)"
    by (induction clock) (auto simp: prune_def)
  have "a \<in> set (snd (update_staleness rs clock interval now)) \<longleftrightarrow>
      (\<exists>ts. map_of ?up a = Some ts \<and> stale_after_intervals * interval < now - ts)"
    using wf by (force simp: update_staleness_def Let_def dest: map_of_SomeD map_of_is_SomeI)
  then show ?thesis unfolding record_results [OF assms(1)] kept by (auto split: option.splits)
qed

end
