(* ===== verification/Read_Model.thy ===== *)
theory Read_Model
  imports Reconciliation
begin

text \<open>
  The read side: marking a sleeve to market (\<^verbatim>\<open>ledger/performance.py\<close>), the aggregate
  positions, summary and transaction history of a tenant (\<^verbatim>\<open>ledger/read_model.py\<close>) with the
  two decimal helpers of \<^verbatim>\<open>ledger/analytics.py\<close>, and the intended orders of a rebalance
  (\<^verbatim>\<open>ledger/desired_state.py\<close>).

  \<^item> A sleeve's equity is cash plus marked positions and its unrealized profit is the marked value
    minus the cost (\<open>sleeve_pnl_exact\<close>).
  \<^item> The position view has exactly one row per symbol with a non-zero aggregate, sorted
    (\<open>aggregate_symbols\<close>), with the aggregate's magnitude and sign (\<open>aggregate_rows\<close>).
  \<^item> The history of a longer log is the new event's rows followed by the old history
    (\<open>transactions_snoc\<close>).
  \<^item> A rebalance sells before it buys, and no planned buy costs more than the free cash by more than
    a rounding step (\<open>rebalance_shape\<close>, \<open>rebalance_buy_bound\<close>).
\<close>

section \<open>Profit and loss\<close>

record sleeve_pnl_row =
  pn_sleeve :: string
  pn_cash :: decimal
  pn_positions_value :: decimal
  pn_equity :: decimal
  pn_realized :: decimal
  pn_unrealized :: decimal

definition mark :: "(string, decimal) dict \<Rightarrow> string \<times> position_state \<Rightarrow> decimal" where
  "mark prices yp =
     (case map_of prices (fst yp) of None \<Rightarrow> ps_cost (snd yp) | Some price \<Rightarrow> ps_qty (snd yp) * price)"

definition pnl_step ::
  "(string, decimal) dict \<Rightarrow> decimal \<times> decimal \<Rightarrow> string \<times> position_state \<Rightarrow> decimal \<times> decimal" where
  "pnl_step prices st yp =
     (let market_value = mark prices yp
      in (fst st + market_value, snd st + (market_value - ps_cost (snd yp))))"

definition sleeve_pnl :: "string \<Rightarrow> sleeve_projection \<Rightarrow> (string, decimal) dict \<Rightarrow> sleeve_pnl_row" where
  "sleeve_pnl sid s prices =
     (let (positions_value, unrealized) = foldl (pnl_step prices) (0, 0) (sl_positions s)
      in \<lparr>pn_sleeve = sid, pn_cash = sl_cash s, pn_positions_value = positions_value,
          pn_equity = sl_cash s + positions_value, pn_realized = sl_realized s, pn_unrealized = unrealized\<rparr>)"

definition account_pnl :: "account_projection \<Rightarrow> (string, decimal) dict \<Rightarrow> sleeve_pnl_row list" where
  "account_pnl acc prices = map (\<lambda>(sid, s). sleeve_pnl sid s prices) (sort_key fst (acc_sleeves acc))"

definition unrealized_pnl :: "string \<Rightarrow> decimal \<Rightarrow> decimal \<Rightarrow> decimal \<Rightarrow> decimal" where
  "unrealized_pnl side qty entry current =
     (if side = ''short'' then (entry - current) * qty else (current - entry) * qty)"

definition pnl_percent :: "decimal \<Rightarrow> decimal \<Rightarrow> decimal" where
  "pnl_percent pnl cost = (if is_zero cost then 0 else dec_div pnl cost * Dec 100 0)"

section \<open>Positions and summary\<close>

record position_view =
  pv_symbol :: string
  pv_qty :: decimal
  pv_side :: string
  pv_cost_basis :: decimal
  pv_market_value :: decimal
  pv_unrealized :: decimal
  pv_unrealized_percent :: decimal
  pv_current_price :: decimal
  pv_avg_entry :: decimal

record summary_view =
  sv_total_equity :: decimal
  sv_cash :: decimal
  sv_market_value :: decimal
  sv_unrealized :: decimal
  sv_realized :: decimal
  sv_day_pnl :: decimal
  sv_day_pnl_percent :: decimal
  sv_total_pnl_percent :: decimal
  sv_positions_count :: nat

definition view_price :: "(string, decimal) dict \<Rightarrow> string \<Rightarrow> decimal \<Rightarrow> decimal" where
  "view_price prices y fallback =
     (case map_of prices y of None \<Rightarrow> fallback | Some p \<Rightarrow> if is_zero p then fallback else p)"

text \<open>The loops over accounts, sleeves and positions, skipping positions of zero quantity.\<close>

definition open_positions :: "account_projection list \<Rightarrow> (string \<times> position_state) list" where
  "open_positions accs =
     filter (\<lambda>yp. \<not> is_zero (ps_qty (snd yp)))
       (concat (map (\<lambda>acc. concat (map sl_positions (vals (acc_sleeves acc)))) accs))"

definition sum_by :: "(position_state \<Rightarrow> decimal) \<Rightarrow> (string \<times> position_state) list \<Rightarrow> (string, decimal) dict" where
  "sum_by f yps = foldl add_qty [] (map (\<lambda>yp. (fst yp, f (snd yp))) yps)"

definition position_view_of :: "(string, decimal) dict \<Rightarrow> string \<Rightarrow> decimal \<Rightarrow> decimal \<Rightarrow> position_view" where
  "position_view_of prices y qty cost =
     (let avg_entry = dec_div cost qty;
          side = (if 0 < qty then ''long'' else ''short'');
          magnitude = \<bar>qty\<bar>;
          current = view_price prices y avg_entry;
          upnl = unrealized_pnl side magnitude avg_entry current
      in \<lparr>pv_symbol = y, pv_qty = magnitude, pv_side = side, pv_cost_basis = \<bar>cost\<bar>,
          pv_market_value = magnitude * current, pv_unrealized = upnl,
          pv_unrealized_percent = pnl_percent upnl \<bar>cost\<bar>, pv_current_price = current,
          pv_avg_entry = \<bar>avg_entry\<bar>\<rparr>)"

definition aggregate_positions ::
  "account_projection list \<Rightarrow> (string, decimal) dict \<Rightarrow> position_view list" where
  "aggregate_positions accs prices =
     (let qty_by = sum_by ps_qty (open_positions accs); cost_by = sum_by ps_cost (open_positions accs)
      in concat (map (\<lambda>y. let qty = dict_get qty_by y 0
                          in if is_zero qty then [] else [position_view_of prices y qty (dict_get cost_by y 0)])
                   (sort (keys qty_by))))"

definition portfolio_summary ::
  "account_projection list \<Rightarrow> (string, decimal) dict \<Rightarrow> decimal option \<Rightarrow> summary_view" where
  "portfolio_summary accs prices prior =
     (let positions = aggregate_positions accs prices;
          cash = dec_sum (map total_cash accs);
          realized = foldl (+) 0 (concat (map (\<lambda>acc. map sl_realized (vals (acc_sleeves acc))) accs));
          market_value = dec_sum (map pv_market_value positions);
          unrealized = dec_sum (map pv_unrealized positions);
          total_equity = cash + market_value;
          cost_total = dec_sum (map pv_cost_basis positions);
          total_percent = (if is_zero cost_total then 0 else dec_div (unrealized + realized) cost_total * Dec 100 0);
          (day, day_percent) = (case prior of
             None \<Rightarrow> (0, 0)
           | Some p \<Rightarrow> if is_zero p then (0, 0)
                       else (total_equity - p, dec_div (total_equity - p) p * Dec 100 0))
      in \<lparr>sv_total_equity = total_equity, sv_cash = cash, sv_market_value = market_value,
          sv_unrealized = unrealized, sv_realized = realized, sv_day_pnl = day,
          sv_day_pnl_percent = day_percent, sv_total_pnl_percent = total_percent,
          sv_positions_count = length positions\<rparr>)"

section \<open>Transactions\<close>

record transaction_view =
  tv_event_id :: string
  tv_type :: string
  tv_symbol :: "string option"
  tv_qty :: "decimal option"
  tv_price :: "decimal option"
  tv_amount :: decimal
  tv_fees :: decimal
  tv_occurred_at :: "int option"
  tv_sleeve :: "string option"

fun txn_type :: "LedgerEventType \<Rightarrow> string option" where
  "txn_type FUNDS_DEPOSITED = Some ''deposit''"
| "txn_type FUNDS_WITHDRAWN = Some ''withdrawal''"
| "txn_type DIVIDEND_RECEIVED = Some ''dividend''"
| "txn_type INTEREST_ACCRUED = Some ''interest''"
| "txn_type FEE_CHARGED = Some ''fee''"
| "txn_type CAPITAL_ALLOCATED = Some ''transfer_in''"
| "txn_type CAPITAL_TRANSFERRED = Some ''transfer_in''"
| "txn_type _ = None"

definition f_value :: "payload \<Rightarrow> string \<Rightarrow> decimal option result" where
  "f_value data k =
     (if get_opt data k = JNull then Inr None
      else bindR (decimal_str (get_opt data k)) (\<lambda>d. Inr (Some d)))"

definition or_zero :: "decimal option \<Rightarrow> decimal" where
  "or_zero v = (case v of None \<Rightarrow> 0 | Some d \<Rightarrow> if is_zero d then 0 else d)"

definition opt_text :: "payload \<Rightarrow> string \<Rightarrow> string option" where
  "opt_text data k = (if truthy (get_opt data k) then Some (py_str (get_opt data k)) else None)"

definition fill_view :: "ledger_event \<Rightarrow> transaction_view list result" where
  "fill_view ev =
     (let data = ev_data ev; side = py_lower (if has_key data ''side'' then py_str (get_opt data ''side'') else [])
      in bindR (f_value data ''qty'') (\<lambda>qty.
         bindR (f_value data ''price'') (\<lambda>price.
         bindR (f_value data ''fees'') (\<lambda>fees.
           Inr [\<lparr>tv_event_id = ev_id ev, tv_type = (if side = [] then ''buy'' else side),
                 tv_symbol = opt_text data ''symbol'', tv_qty = qty, tv_price = price,
                 tv_amount = \<bar>or_zero qty * or_zero price\<bar>, tv_fees = or_zero fees,
                 tv_occurred_at = ev_occurred_at ev, tv_sleeve = None\<rparr>]))))"

definition cash_view :: "ledger_event \<Rightarrow> LedgerEventType \<Rightarrow> string \<Rightarrow> posting list \<Rightarrow> transaction_view list result" where
  "cash_view ev t label postings =
     (let data = ev_data ev
      in bindR (f_value data ''amount'') (\<lambda>given.
         let amount = \<bar>if is_zero (or_zero given)
                       then dec_sum (map p_amount (filter (\<lambda>p. p_bucket p = CASH \<and> p_amount p < 0) postings))
                       else or_zero given\<bar>;
             row = \<lparr>tv_event_id = ev_id ev, tv_type = label, tv_symbol = opt_text data ''symbol'',
                    tv_qty = None, tv_price = None, tv_amount = amount, tv_fees = 0,
                    tv_occurred_at = ev_occurred_at ev, tv_sleeve = opt_text data ''to_sleeve_id''\<rparr>
         in Inr ((if t = CAPITAL_TRANSFERRED \<and> truthy (get_opt data ''from_sleeve_id'')
                  then [row\<lparr>tv_type := ''transfer_out'', tv_sleeve := opt_text data ''from_sleeve_id''\<rparr>] else []) @
                 [row])))"

definition transaction_rows :: "ledger_event \<Rightarrow> transaction_view list result" where
  "transaction_rows ev =
     bindR (event_type_of (ev_type ev)) (\<lambda>t.
     bindR (build_postings t (ev_data ev)) (\<lambda>postings.
       if postings = [] then Inr []
       else if t = ORDER_FILLED then fill_view ev
       else (case txn_type t of None \<Rightarrow> Inr [] | Some label \<Rightarrow> cash_view ev t label postings)))"

definition transactions_view :: "ledger_event list \<Rightarrow> transaction_view list result" where
  "transactions_view evs = bindR (mapR transaction_rows evs) (\<lambda>rows. Inr (rev (concat rows)))"

section \<open>Desired state\<close>

record sleeve_desired =
  sd_sleeve :: string
  sd_equity :: decimal
  sd_target_weights :: "(string, decimal) dict"
  sd_positions :: "(string, decimal) dict"
  sd_free_cash :: decimal

definition fit_buys :: "decimal \<Rightarrow> sleeve_order list \<Rightarrow> sleeve_order list result" where
  "fit_buys free orders =
     bindR (mapR (\<lambda>ord. fit_to_free_cash ord free) (filter (\<lambda>ord. so_side ord = ''buy'') orders)) (\<lambda>fitted.
       Inr (List.map_filter id fitted))"

definition rebalance_sleeve ::
  "(string, decimal) dict \<Rightarrow> decimal \<Rightarrow> sleeve_desired \<Rightarrow> sleeve_order list result" where
  "rebalance_sleeve prices tolerance d =
     bindR (target_orders (sd_sleeve d) (sd_equity d) (sd_target_weights d) (sd_positions d) prices tolerance)
       (\<lambda>orders.
       bindR (fit_buys (sd_free_cash d) orders) (\<lambda>buys.
         Inr (filter (\<lambda>ord. so_side ord = ''sell'') orders @ buys)))"

fun plan_rebalance ::
  "(string, decimal) dict \<Rightarrow> decimal \<Rightarrow> (string, sleeve_order list) dict \<Rightarrow> sleeve_desired list \<Rightarrow>
   (string, sleeve_order list) dict result" where
  "plan_rebalance prices tolerance plan [] = Inr plan"
| "plan_rebalance prices tolerance plan (d # ds) =
     bindR (rebalance_sleeve prices tolerance d) (\<lambda>orders.
       plan_rebalance prices tolerance (AList.update (sd_sleeve d) orders plan) ds)"

section \<open>Marks are exact on a grid\<close>

definition marks :: "(string, decimal) dict \<Rightarrow> sleeve_projection \<Rightarrow> decimal list" where
  "marks prices s = map (mark prices) (sl_positions s)"

definition gains :: "(string, decimal) dict \<Rightarrow> sleeve_projection \<Rightarrow> decimal list" where
  "gains prices s = map (\<lambda>yp. mark prices yp - ps_cost (snd yp)) (sl_positions s)"

lemma pnl_fold: "foldl (pnl_step prices) (a, b) yps =
    (foldl (+) a (map (mark prices) yps), foldl (+) b (map (\<lambda>yp. mark prices yp - ps_cost (snd yp)) yps))"
  by (induction yps arbitrary: a b) (simp_all add: pnl_step_def Let_def)

lemma sleeve_pnl_fields:
  "pn_positions_value (sleeve_pnl sid s prices) = dec_sum (marks prices s)"
  "pn_equity (sleeve_pnl sid s prices) = sl_cash s + dec_sum (marks prices s)"
  "pn_unrealized (sleeve_pnl sid s prices) = dec_sum (gains prices s)"
  by (simp_all add: sleeve_pnl_def pnl_fold marks_def gains_def dec_sum_def)

lemma pnl_gains:
  fixes m :: "string \<times> position_state \<Rightarrow> decimal"
  assumes "on_grid k (map m yps)" "on_grid k (map (\<lambda>yp. ps_cost (snd yp)) yps)"
    "room k (weight (map m yps) + weight (map (\<lambda>yp. ps_cost (snd yp)) yps))"
  defines "ds \<equiv> map (\<lambda>yp. m yp - ps_cost (snd yp)) yps"
  shows "weight ds \<le> weight (map m yps) + weight (map (\<lambda>yp. ps_cost (snd yp)) yps) \<and> on_grid k ds \<and>
    sum_list (map val ds) = sum_list (map val (map m yps)) - sum_list (map val (map (\<lambda>yp. ps_cost (snd yp)) yps))"
  using assms(1-3) unfolding ds_def
proof (induction yps)
  case (Cons yp yps)
  have nn: "0 \<le> weight (map m yps)" "0 \<le> weight (map (\<lambda>yp. ps_cost (snd yp)) yps)" by simp_all
  have g: "grid k (val (m yp))" "grid k (val (ps_cost (snd yp)))" using Cons.prems by simp_all
  have v: "val (m yp - ps_cost (snd yp)) = val (m yp) - val (ps_cost (snd yp))"
    by (rule val_diff_grid [OF g], rule room_mono [OF Cons.prems(3)]) (use nn in \<open>simp, linarith\<close>)
  have "room k (weight (map m yps) + weight (map (\<lambda>yp. ps_cost (snd yp)) yps))"
    by (rule room_mono [OF Cons.prems(3)]) simp
  with Cons g show ?case by (auto simp: v grid_diff)
qed simp

lemma sleeve_pnl_exact:
  assumes g: "on_grid k (marks prices s)" "on_grid k (map (\<lambda>yp. ps_cost (snd yp)) (sl_positions s))" "grid k (val (sl_cash s))"
    and rm: "room k (\<bar>val (sl_cash s)\<bar> + weight (marks prices s) + weight (map (\<lambda>yp. ps_cost (snd yp)) (sl_positions s)))"
  shows "val (pn_equity (sleeve_pnl sid s prices)) = val (sl_cash s) + sum_list (map val (marks prices s))"
    and "val (pn_unrealized (sleeve_pnl sid s prices)) =
      sum_list (map val (marks prices s)) - sum_list (map (\<lambda>yp. val (ps_cost (snd yp))) (sl_positions s))"
proof -
  let ?m = "marks prices s" and ?c = "map (\<lambda>yp. ps_cost (snd yp)) (sl_positions s)"
  have m: "val (dec_sum ?m) = sum_list (map val ?m)"
    by (rule val_dec_sum [OF g(1) room_mono [OF rm]]) simp
  have gm: "grid k (val (dec_sum ?m))" unfolding m using g(1) by (rule grid_sum)
  have "\<bar>val (dec_sum ?m)\<bar> \<le> weight ?m" unfolding m by (rule abs_sum_le_weight)
  then show "val (pn_equity (sleeve_pnl sid s prices)) = val (sl_cash s) + sum_list (map val (marks prices s))"
    unfolding sleeve_pnl_fields m [symmetric]
    by (intro val_add_grid [OF g(3) gm] room_mono [OF rm]) (use weight_nonneg [of ?c] in linarith)
  have w: "weight (gains prices s) \<le> weight ?m + weight ?c" "on_grid k (gains prices s)"
      "sum_list (map val (gains prices s)) = sum_list (map val ?m) - sum_list (map val ?c)"
    using pnl_gains [of k "mark prices" "sl_positions s"] g(1,2) room_mono [OF rm, of "weight ?m + weight ?c"]
    by (simp_all add: gains_def marks_def)
  have "val (dec_sum (gains prices s)) = sum_list (map val (gains prices s))"
    using w(1) by (intro val_dec_sum [OF w(2)] room_mono [OF rm]) linarith
  moreover note w(3)
  ultimately show "val (pn_unrealized (sleeve_pnl sid s prices)) =
      sum_list (map val (marks prices s)) - sum_list (map (\<lambda>yp. val (ps_cost (snd yp))) (sl_positions s))"
    unfolding sleeve_pnl_fields by (simp add: comp_def)
qed

section \<open>Rows of the position view\<close>

definition net_qty :: "account_projection list \<Rightarrow> string \<Rightarrow> decimal" where
  "net_qty accs y = dict_get (sum_by ps_qty (open_positions accs)) y 0"

lemma sum_by_wf: "wf_dict (sum_by f yps)"
  unfolding sum_by_def by (rule add_qty_wf) simp

lemma aggregate_rows:
  "aggregate_positions accs prices =
     map (\<lambda>y. position_view_of prices y (net_qty accs y) (dict_get (sum_by ps_cost (open_positions accs)) y 0))
       (filter (\<lambda>y. val (net_qty accs y) \<noteq> 0) (sort (keys (sum_by ps_qty (open_positions accs)))))"
proof -
  have "concat (map (\<lambda>y. if P y then [] else [f y]) ys) = map f (filter (\<lambda>y. \<not> P y) ys)"
    for P :: "string \<Rightarrow> bool" and f :: "string \<Rightarrow> position_view" and ys
    by (induction ys) simp_all
  then show ?thesis by (simp add: aggregate_positions_def Let_def net_qty_def is_zero_val)
qed

lemma aggregate_symbols:
  "set (map pv_symbol (aggregate_positions accs prices)) = {y. val (net_qty accs y) \<noteq> 0}"
  "sorted (map pv_symbol (aggregate_positions accs prices))" "distinct (map pv_symbol (aggregate_positions accs prices))"
proof -
  let ?ks = "keys (sum_by ps_qty (open_positions accs))"
  have sy: "map pv_symbol (aggregate_positions accs prices) = filter (\<lambda>y. val (net_qty accs y) \<noteq> 0) (sort ?ks)"
    unfolding aggregate_rows by (simp add: position_view_of_def Let_def comp_def)
  have "y \<in> set ?ks" if "val (net_qty accs y) \<noteq> 0" for y
    using that by (metis net_qty_def dict_get_absent val_0)
  then show "set (map pv_symbol (aggregate_positions accs prices)) = {y. val (net_qty accs y) \<noteq> 0}"
    unfolding sy by auto
  show "sorted (map pv_symbol (aggregate_positions accs prices))" unfolding sy by (rule sorted_wrt_filter) simp
  show "distinct (map pv_symbol (aggregate_positions accs prices))" unfolding sy by (simp add: sum_by_wf)
qed

lemma mapR_snoc: "mapR f (xs @ [x]) = bindR (mapR f xs) (\<lambda>ys. bindR (f x) (\<lambda>y. Inr (ys @ [y])))"
  by (induction xs) (auto simp: bindR_assoc)

lemma transactions_snoc:
  assumes "transactions_view (evs @ [ev]) = Inr rows"
  shows "\<exists>new old. transaction_rows ev = Inr new \<and> transactions_view evs = Inr old \<and> rows = rev new @ old"
  using assms by (auto simp: transactions_view_def mapR_snoc result_simps)

section \<open>Rebalancing\<close>

lemma fit_buy_side: "fit_to_free_cash ord cash = Inr (Some out) \<Longrightarrow> so_side ord = ''buy'' \<Longrightarrow> so_side out = ''buy''"
  by (erule fit_to_free_cash_cases, assumption) (auto simp: SleeveOrder_def)

lemma list_all2_source: "list_all2 P xs ys \<Longrightarrow> y \<in> set ys \<Longrightarrow> \<exists>x \<in> set xs. P x y"
  by (induction rule: list_all2_induct) auto

lemma fit_buys_Inr:
  assumes "fit_buys free orders = Inr buys" "out \<in> set buys"
  shows "\<exists>ord \<in> set orders. so_side ord = ''buy'' \<and> fit_to_free_cash ord free = Inr (Some out)"
proof -
  obtain fitted where f: "list_all2 (\<lambda>ord y. fit_to_free_cash ord free = Inr y) (filter (\<lambda>ord. so_side ord = ''buy'') orders) fitted"
    and b: "buys = List.map_filter id fitted"
    using assms(1) by (auto simp: fit_buys_def result_simps mapR_Inr_iff)
  have "Some out \<in> set fitted" using assms(2) b by (auto simp: List.map_filter_def)
  from list_all2_source [OF f this] obtain ord where
    "ord \<in> set (filter (\<lambda>ord. so_side ord = ''buy'') orders)" "fit_to_free_cash ord free = Inr (Some out)"
    by blast
  then show ?thesis by auto
qed

lemma rebalance_shape:
  assumes "rebalance_sleeve prices tol d = Inr orders"
  shows "\<exists>sells buys. orders = sells @ buys \<and> list_all (\<lambda>ord. so_side ord = ''sell'') sells \<and>
    list_all (\<lambda>ord. so_side ord = ''buy'') buys"
proof -
  obtain os buys where o: "fit_buys (sd_free_cash d) os = Inr buys" "orders = filter (\<lambda>ord. so_side ord = ''sell'') os @ buys"
    using assms by (auto simp: rebalance_sleeve_def result_simps)
  have "list_all (\<lambda>ord. so_side ord = ''buy'') buys"
    using fit_buys_Inr [OF o(1)] fit_buy_side by (fastforce simp: list_all_iff)
  moreover have "list_all (\<lambda>ord. so_side ord = ''sell'') (filter (\<lambda>ord. so_side ord = ''sell'') os)"
    by (simp add: list_all_iff)
  ultimately show ?thesis using o(2) by blast
qed

text \<open>A planned buy never costs more than the free cash by more than half a quantity step.\<close>

lemma rebalance_buy_bound:
  assumes "rebalance_sleeve prices tol d = Inr orders" "out \<in> set orders" "so_side out = ''buy''"
  shows "so_qty out * so_price out \<le> sd_free_cash d \<or>
    order_cost out \<le> val (sd_free_cash d) + val (sd_free_cash d) * div_eps + val (so_price out) * (5 / 10 ^ 9)"
proof -
  obtain ord where o: "so_side ord = ''buy''" "fit_to_free_cash ord (sd_free_cash d) = Inr (Some out)"
    using assms by (auto simp: rebalance_sleeve_def result_simps dest!: fit_buys_Inr)
  from o(2,1) show ?thesis
  proof (cases rule: fit_to_free_cash_cases)
    case 1
    then show ?thesis by simp
  next
    case (2 q)
    then have "so_price out = so_price ord" by (simp add: SleeveOrder_def)
    then show ?thesis using fit_to_free_cash_bound [OF o(2,1) 2(1)] by auto
  qed
qed

end
