(* ===== verification/Samples.thy ===== *)
theory Samples
  imports Ingestion Reconciliation_Task Read_Model
begin

text \<open>
  Concrete data the witnesses of the properties run on: a sample event log, an event store held in
  memory whose insert has the laws of the event table, and the evaluation rules for decimals and
  grids of numerals.
\<close>

section \<open>A sample account\<close>

definition start_state :: fold_state where
  "start_state = (empty_account, empty_reservations)"

definition sample_event :: "LedgerEventType \<Rightarrow> int \<Rightarrow> payload \<Rightarrow> ledger_event" where
  "sample_event t n data =
     \<lparr>ev_id = ''e'' @ show_int n, ev_tenant = ''t'', ev_account = ''a'', ev_sleeve = None,
      ev_type = event_value t, ev_data = data, ev_sequence = Some n, ev_created_at = Some n,
      ev_occurred_at = None\<rparr>"

definition sample_log :: "ledger_event list" where
  "sample_log =
     [sample_event FUNDS_DEPOSITED 1 [(''amount'', JStr ''100.50''), (''sleeve_id'', JStr ''u'')],
      sample_event CAPITAL_ALLOCATED 2
        [(''amount'', JStr ''60''), (''from_sleeve_id'', JStr ''u''), (''to_sleeve_id'', JStr ''s'')],
      sample_event ORDER_FILLED 3
        [(''side'', JStr ''buy''), (''qty'', JStr ''2''), (''price'', JStr ''20.25''),
         (''symbol'', JStr ''SPY''), (''sleeve_id'', JStr ''s'')],
      sample_event FEE_CHARGED 4 [(''sleeve_id'', JStr ''s'')]]"

lemma sample_applied:
  "amounts (applied_postings start_state sample_log) =
     [Dec (- 10050) (- 2), Dec 10050 (- 2), Dec (- 60) 0, Dec 60 0, Dec (- 4050) (- 2), Dec 4050 (- 2),
      Dec 0 0]"
  by code_simp


lemma grid_Ints: "grid k x \<longleftrightarrow> x * 10 ^ k \<in> \<int>"
  unfolding grid_def by (auto elim: Ints_cases)

lemmas eval_decimals = grid_Ints room_def val_Dec power_int_minus

lemma rep28_Dec: "rep28 (val (Dec m e))" if "\<bar>m\<bar> < 10 ^ prec"
  using that unfolding rep28_def by (intro exI [of _ m] exI [of _ e]) (simp add: val_Dec)

section \<open>A store in memory\<close>

definition list_store :: "ledger_event list store_env" where
  "list_store =
     \<lparr>se_insert = list_insert, se_rows = (\<lambda>rs. rs), se_event_id = (\<lambda>s. s), se_fresh = ''fresh'', se_now = 0\<rparr>"

lemma list_store_simps [simp]:
  "se_insert list_store = list_insert" "se_rows list_store = (\<lambda>rs. rs)" "se_event_id list_store = (\<lambda>s. s)"
  "se_fresh list_store = ''fresh''" "se_now list_store = 0"
  by (simp_all add: list_store_def)

lemma list_store_laws [simp]: "table_laws (se_insert list_store) (se_rows list_store)"
  by (simp add: list_insert_laws)

definition memory_projector :: "int \<Rightarrow> ledger_event list projector_env" where
  "memory_projector cutoff =
     \<lparr>pe_rows = (\<lambda>rs. rs), pe_jsonb = (\<lambda>j. j), pe_cutoff = cutoff, pe_persisted = True\<rparr>"

lemma memory_projector_simps [simp]:
  "pe_rows (memory_projector c) = (\<lambda>rs. rs)" "pe_jsonb (memory_projector c) = (\<lambda>j. j)"
  "pe_cutoff (memory_projector c) = c" "pe_persisted (memory_projector c)"
  by (simp_all add: memory_projector_def)

definition sleeve_of :: "SleeveType \<Rightarrow> string \<Rightarrow> sleeve_row" where
  "sleeve_of t sid =
     \<lparr>sr_id = sid, sr_tenant = ''t'', sr_account = ''a'', sr_type = t, sr_status = ACTIVE, sr_name = sid,
      sr_execution = None, sr_allocated = 0\<rparr>"

definition sample_sleeves :: "sleeve_row list" where
  "sample_sleeves = [sleeve_of UNALLOCATED ''u'', sleeve_of UNMANAGED ''m'', sleeve_of STRATEGY ''s'']"

definition sample_rows :: "ledger_event list" where
  "sample_rows = take 3 sample_log"

lemma sample_store_ok: "store_ok sample_rows"
  by code_simp

end
