(* ===== verification/Kernel_Properties.thy ===== *)
theory Kernel_Properties
  imports Samples
begin

text \<open>
  Properties of the ledger's pure kernel: the account fold, FIFO lots, order sizing and netting,
  reconciliation, cash raising, dividends and decimal texts. Each stands with a witness that
  evaluates the definitions on a concrete input.
\<close>

section \<open>The account fold\<close>

text \<open>
  C1. Value is conserved by the account fold: starting from an empty account, after folding any
  event log (poison events included) the book value of the account - cash plus positions at cost
  minus realized profit, summed over the sleeves - is exactly what the applied events moved in from
  outside, provided the posted amounts lie on a common decimal grid that fits 28 digits.
\<close>

theorem fold_account_conserves:
  assumes "on_grid k (amounts (applied_postings start_state evs))"
    and "room k (weight (amounts (applied_postings start_state evs)))"
  shows "book_value (fold_account evs) = - external_total (applied_postings start_state evs)"
  using fold_conserves [of k start_state evs] assms
  by (simp add: fold_account_def fold_into_def start_state_def)

theorem fold_account_conserves_witness:
  "book_value (fold_account sample_log) = - external_total (applied_postings start_state sample_log)"
proof (rule fold_account_conserves [of 2])
  show "on_grid 2 (amounts (applied_postings start_state sample_log))"
    unfolding sample_applied by (simp add: eval_decimals)
  show "room 2 (weight (amounts (applied_postings start_state sample_log)))"
    unfolding sample_applied by (simp add: eval_decimals)
qed





text \<open>
  Every projection is well formed whatever the log holds: no sleeve and no symbol of a sleeve
  appears twice.
\<close>

theorem projection_well_formed: "acc_wf (fold_account evs)"
  by (rule fold_account_wf)





section \<open>FIFO lots\<close>

text \<open>
  C13. Selling against open lots is first-in first-out and exact in shares: the selection succeeds
  exactly when the quantity is positive and covered, then what remains is a suffix of the lots in
  acquisition order (its first lot possibly cut) holding the difference; otherwise it raises
  ValueError.
\<close>

theorem fifo_selection:
  assumes "open_lots_ok k lots" "grid k (val q)" "room k (val q)"
  shows "case select_lots_fifo lots q of
      Inl e \<Rightarrow> e = ValueError \<and> \<not> (0 < val q \<and> val q \<le> shares lots)
    | Inr res \<Rightarrow> 0 < val q \<and> val q \<le> shares lots \<and> shares (fr_remaining res) = shares lots - val q \<and>
        fifo_suffix (sort_key lot_seq lots) (fr_remaining res)"
  using select_lots_fifo_spec [OF assms] select_lots_fifo_error select_lots_fifo_suffix
  by (auto split: sum.split)

definition sample_lots :: "lot list" where
  "sample_lots = [Lot (Dec 3 0) (Dec 33 0) 7, Lot (Dec 2 0) (Dec 20 0) 5]"

theorem fifo_selection_witness:
  "case select_lots_fifo sample_lots (Dec 4 0) of
      Inl e \<Rightarrow> e = ValueError \<and> \<not> (0 < val (Dec 4 0) \<and> val (Dec 4 0) \<le> shares sample_lots)
    | Inr res \<Rightarrow> 0 < val (Dec 4 0) \<and> val (Dec 4 0) \<le> shares sample_lots \<and>
        shares (fr_remaining res) = shares sample_lots - val (Dec 4 0) \<and>
        fifo_suffix (sort_key lot_seq sample_lots) (fr_remaining res)"
  by (rule fifo_selection [of 0])
    (simp_all add: sample_lots_def open_lots_ok_def Lot_def eval_decimals)


definition sample_sale :: fifo_result where
  "sample_sale = \<lparr>fr_closed_cost = Dec 42 0, fr_consumed = Dec 4 0, fr_remaining = [Lot (Dec 1 0) (Dec 11 0) 7]\<rparr>"

lemma sample_sale_eq: "select_lots_fifo sample_lots (Dec 4 0) = Inr sample_sale"
  by code_simp


section \<open>Postings and planned events\<close>

text \<open>
  The balance check is exact on money amounts: for legs on a common grid that fit 28 digits it
  passes exactly when the signed amounts add up to zero and no position leg moves quantity and cost
  in opposite directions.
\<close>

theorem balance_check_exact:
  assumes "on_grid k (amounts ps)" "room k (weight (amounts ps))"
  shows "assert_balanced ps = Inr () \<longleftrightarrow> leg_total ps = 0 \<and> \<not> list_ex opposite_signed ps"
  by (rule balanced_on_grid [OF assms])

definition sample_legs :: "posting list" where
  "sample_legs =
     [PositionLeg ''s'' (Dec 4050 (- 2)) ''SPY'' (Dec 2 0), Posting (Some ''s'') CASH (Dec (- 4050) (- 2))]"

theorem balance_check_exact_witness:
  "assert_balanced sample_legs = Inr () \<longleftrightarrow> leg_total sample_legs = 0 \<and> \<not> list_ex opposite_signed sample_legs"
  by (rule balance_check_exact [of 2]) (simp_all add: sample_legs_def PositionLeg_def Posting_def eval_decimals)

text \<open>
  A planned allocation survives its trip through the event log: the amount is written as text
  and the postings built from the stored event carry exactly that amount out of the source sleeve
  and into the destination.
\<close>

theorem planned_move_round_trip:
  assumes "plan_allocate frm to amount free = Inr evs"
  shows "map (\<lambda>ev. build_postings (pf_type ev) (pf_data ev)) evs =
    [Inr [Posting (Some frm) CASH (- amount), Posting (Some to) CASH amount]]"
  using assms by (auto simp: plan_allocate_Inr move_postings)

definition sample_move :: "planned_fund_event list" where
  "sample_move = [\<lparr>pf_type = CAPITAL_ALLOCATED, pf_data = move_data ''u'' ''s'' (Dec 6050 (- 2))\<rparr>]"

theorem planned_move_round_trip_witness:
  "map (\<lambda>ev. build_postings (pf_type ev) (pf_data ev)) sample_move =
    [Inr [Posting (Some ''u'') CASH (- Dec 6050 (- 2)), Posting (Some ''s'') CASH (Dec 6050 (- 2))]]"
  by (rule planned_move_round_trip [of _ _ _ "Dec 100 0"]) (simp add: plan_allocate_Inr sample_move_def eval_decimals)

section \<open>Sizing, netting and cash raising\<close>

text \<open>
  Target sizing emits at most one order per symbol, each of them in the sleeve's name, at a
  positive quoted price, of non-negative size; a symbol whose target weight is not positive is only
  ever sold, in full.
\<close>

theorem target_orders_safe:
  assumes "target_orders sid equity weights current prices tolerance = Inr orders"
  shows "list_all (\<lambda>ord. sound_order weights current prices ord \<and> so_sleeve ord = sid) orders \<and>
    distinct (map so_symbol orders)"
  using target_orders_sound [OF assms] by blast

definition sample_targets :: "sleeve_order list" where
  "sample_targets =
     [SleeveOrder ''s'' ''QQQ'' ''sell'' (Dec 1 0) (Dec 50 0),
      SleeveOrder ''s'' ''SPY'' ''buy'' (Dec 450000000 (- 8)) (Dec 100 0)]"

theorem target_orders_safe_witness:
  "list_all (\<lambda>ord. sound_order [(''SPY'', Dec 50 0)] [(''QQQ'', Dec 1 0), (''SPY'', Dec 5 (- 1))]
      [(''SPY'', Dec 100 0), (''QQQ'', Dec 50 0)] ord \<and> so_sleeve ord = ''s'') sample_targets \<and>
   distinct (map so_symbol sample_targets)"
  by (rule target_orders_safe [of _ "Dec 1000 0" _ _ _ default_drift_tolerance]) code_simp

text \<open>
  C30. Netting is equivalent to sending every sleeve's order on its own: per symbol, the signed
  quantity of the broker orders is the signed sum of the sleeve orders, and no symbol is sent twice.
\<close>

theorem netting_preserves_flow:
  assumes "on_grid k (symbol_qtys y (flows orders))" "room k (weight (symbol_qtys y (flows orders)))"
  shows "sent y (nr_broker_orders (net_orders orders)) = sum_list (map val (symbol_qtys y (flows orders))) \<and>
    distinct (map bo_symbol (nr_broker_orders (net_orders orders)))"
  using net_orders_flow [OF assms] net_orders_one_per_symbol by blast

definition opposed_orders :: "sleeve_order list" where
  "opposed_orders =
     [SleeveOrder ''s'' ''SPY'' ''buy'' (Dec 5 0) (Dec 100 0),
      SleeveOrder ''r'' ''SPY'' ''sell'' (Dec 15 (- 1)) (Dec 100 0)]"

theorem netting_preserves_flow_witness:
  "sent ''SPY'' (nr_broker_orders (net_orders opposed_orders)) =
     sum_list (map val (symbol_qtys ''SPY'' (flows opposed_orders))) \<and>
   distinct (map bo_symbol (nr_broker_orders (net_orders opposed_orders)))"
proof -
  have "symbol_qtys ''SPY'' (flows opposed_orders) = [Dec 5 0, Dec (- 15) (- 1)]" by code_simp
  then show ?thesis by (intro netting_preserves_flow [of 1]) (simp_all add: eval_decimals)
qed

text \<open>
  Raising cash sells exactly when it can: if the positions are worth the shortfall the plan
  raises at least the shortfall selling no more than is held, otherwise it raises FundError.
\<close>

theorem raise_cash_covers:
  assumes "list_all (raisable k) positions" "0 \<le> val shortfall" "grid k (val shortfall)"
    "val shortfall * 10 ^ (k + 8) < 10 ^ 27"
  shows "if val shortfall \<le> market positions
    then \<exists>sells. raise_cash positions shortfall = Inr sells \<and> val shortfall \<le> proceeds sells \<and>
           list_all (held positions) sells
    else raise_cash positions shortfall = Inl FundError"
  by (rule raise_cash_spec [OF assms])

definition sample_holdings :: "(string, decimal \<times> decimal) dict" where
  "sample_holdings = [(''QQQ'', Dec 1 0, Dec 50 0), (''SPY'', Dec 3 0, Dec 30 0)]"

theorem raise_cash_covers_witness:
  "\<exists>sells. raise_cash sample_holdings (Dec 100 0) = Inr sells \<and> 100 \<le> proceeds sells \<and>
     list_all (held sample_holdings) sells"
proof -
  have "rep28 50" "rep28 90" using rep28_Dec [of 50 0] rep28_Dec [of 90 0] by (simp_all add: val_Dec)
  then have "list_all (raisable 0) sample_holdings"
    by (simp add: sample_holdings_def raisable_def eval_decimals)
  from raise_cash_covers [OF this, of "Dec 100 0"] show ?thesis
    by (simp add: eval_decimals sample_holdings_def market_def)
qed

text \<open>
  Strategy admission accepts a request exactly when it is positive, covered by free cash and
  every weighted slice reaches the minimum notional.
\<close>

theorem admission_iff:
  "check_admission requested free weights min_notional = [] \<longleftrightarrow>
     0 < val requested \<and> val requested \<le> val free \<and>
     list_all (\<lambda>(y, w). val min_notional \<le> val (dec_div (requested * w) (Dec 100 0))) weights"
  by (rule check_admission_iff)

text \<open>
  The half-even rounding of the affordable quantity can round up: with two dollars of free cash and
  a price of three the fitted buy costs more than the free cash.
\<close>

lemma fit_overdraws:
  "fit_to_free_cash (SleeveOrder s y ''buy'' (Dec 1 0) (Dec 3 0)) (Dec 2 0) =
     Inr (Some (SleeveOrder s y ''buy'' (Dec 66666667 (- 8)) (Dec 3 0)))"
  "2 < order_cost (SleeveOrder s y ''buy'' (Dec 66666667 (- 8)) (Dec 3 0))"
proof -
  have "fit_to_free_cash (SleeveOrder [] [] ''buy'' (Dec 1 0) (Dec 3 0)) (Dec 2 0) =
     Inr (Some (SleeveOrder [] [] ''buy'' (Dec 66666667 (- 8)) (Dec 3 0)))" by code_simp
  then show "fit_to_free_cash (SleeveOrder s y ''buy'' (Dec 1 0) (Dec 3 0)) (Dec 2 0) =
     Inr (Some (SleeveOrder s y ''buy'' (Dec 66666667 (- 8)) (Dec 3 0)))"
    by (auto simp: fit_to_free_cash_def SleeveOrder_def result_simps split: if_splits)
  show "2 < order_cost (SleeveOrder s y ''buy'' (Dec 66666667 (- 8)) (Dec 3 0))"
    by (simp add: order_cost_def SleeveOrder_def eval_decimals)
qed

text \<open>
  A buy scaled down to the free cash spends the free cash up to the rounding of the quantity:
  its cost differs from the free cash by at most half a quantity step at the order's price plus the
  28-digit error of the division.
\<close>

theorem scaled_buy_cost:
  assumes "fit_to_free_cash ord cash = Inr (Some out)" "so_side ord = ''buy''" "\<not> so_qty ord * so_price ord \<le> cash"
  shows "\<bar>order_cost out - val cash\<bar> \<le> val cash * div_eps + val (so_price ord) * (5 / 10 ^ 9)"
  by (rule fit_to_free_cash_bound [OF assms])

theorem scaled_buy_cost_witness:
  "\<bar>order_cost (SleeveOrder ''s'' ''SPY'' ''buy'' (Dec 66666667 (- 8)) (Dec 3 0)) - val (Dec 2 0)\<bar>
     \<le> val (Dec 2 0) * div_eps + val (so_price (SleeveOrder ''s'' ''SPY'' ''buy'' (Dec 1 0) (Dec 3 0))) * (5 / 10 ^ 9)"
proof (rule scaled_buy_cost)
  show "fit_to_free_cash (SleeveOrder ''s'' ''SPY'' ''buy'' (Dec 1 0) (Dec 3 0)) (Dec 2 0) =
     Inr (Some (SleeveOrder ''s'' ''SPY'' ''buy'' (Dec 66666667 (- 8)) (Dec 3 0)))" by (rule fit_overdraws)
  show "\<not> so_qty (SleeveOrder ''s'' ''SPY'' ''buy'' (Dec 1 0) (Dec 3 0)) *
      so_price (SleeveOrder ''s'' ''SPY'' ''buy'' (Dec 1 0) (Dec 3 0)) \<le> Dec 2 0" by code_simp
qed (simp add: SleeveOrder_def)

section \<open>Reconciliation and income\<close>

text \<open>
  C27. Reconciliation misses nothing and invents nothing: the reported symbols are exactly those on
  which ledger and broker disagree, each reported once, in symbol order.
\<close>

theorem reconcile_reports_differences:
  "set (map dr_symbol (reconcile acc broker tol)) = {y. differs acc broker y} \<and>
   sorted (map dr_symbol (reconcile acc broker tol)) \<and> distinct (map dr_symbol (reconcile acc broker tol))"
  using reconcile_complete reconcile_sorted reconcile_distinct by blast

text \<open>
  C36. A dividend is paid out in full: the shares of the sleeves that hold the symbol add up to the
  total exactly, the rounding going to the largest holder.
\<close>

theorem dividend_paid_in_full:
  assumes "split_dividend y total_amount holders pay_id = Inr evs"
    and "wf_dict holders" "list_ex (\<lambda>(s, q). 0 < val q) holders"
    and "on_grid j (vals (filter (\<lambda>(s, q). 0 < q) holders))"
      "room j (weight (vals (filter (\<lambda>(s, q). 0 < q) holders)))"
    and "grid k (val total_amount)" "2 \<le> k"
      "room k ((2 * val total_amount + 1) * of_nat (length holders))"
  shows "sum_list (map dividend_paid evs) = val total_amount"
  by (rule split_dividend_total [OF assms])

definition three_holders :: "(string, decimal) dict" where
  "three_holders = [(''p'', Dec 1 0), (''q'', Dec 1 0), (''r'', Dec 1 0)]"

definition three_payments :: "planned_corporate_event list" where
  "three_payments =
     map (\<lambda>(s, a). \<lparr>pc_type = DIVIDEND_RECEIVED, pc_sleeve = s,
        pc_data = [(''sleeve_id'', JStr s), (''amount'', JStr a)], pc_dedup = colons [''div'', ''SPY'', ''1'', s]\<rparr>)
      [(''q'', ''33.33''), (''p'', ''33.33''), (''r'', ''33.34'')]"

lemma three_way_split: "split_dividend ''SPY'' (Dec 100 0) three_holders ''1'' = Inr three_payments"
  by code_simp

lemma three_holders_kept: "filter (\<lambda>(s, q). 0 < q) three_holders = three_holders"
  by code_simp

theorem dividend_paid_in_full_witness: "sum_list (map dividend_paid three_payments) = val (Dec 100 0)"
  by (rule dividend_paid_in_full [OF three_way_split, where j = 0 and k = 2])
    (unfold three_holders_kept, simp_all add: three_holders_def eval_decimals)

text \<open>
  The remainder rule can charge the largest holder: of four equal holders of a two cent dividend,
  three are paid a cent each and the last one is debited one.
\<close>

lemma dividend_negative:
  "case split_dividend ''SPY'' (Dec 2 (- 2)) [(''o'', Dec 1 0), (''p'', Dec 1 0), (''q'', Dec 1 0), (''r'', Dec 1 0)] ''1'' of
     Inl e \<Rightarrow> False | Inr evs \<Rightarrow> list_ex (\<lambda>ev. get_opt (pc_data ev) ''amount'' = JStr ''-0.01'') evs"
  by code_simp

section \<open>Writes and fills\<close>

text \<open>
  The guard on ledger writes lets a projection pass exactly when every touched sleeve is
  healthy and the account's total cash is not negative.
\<close>

theorem write_guard_iff:
  "is_ok (assert_write_invariants acc sids) \<longleftrightarrow>
     list_all (\<lambda>sid. healthy_sleeve (get_sleeve acc sid)) sids \<and> 0 \<le> val (total_cash acc)"
  by (rule assert_write_invariants_iff)

text \<open>
  A sell fill that arrives without cost basis is quarantined exactly when the open lots do not
  cover it.
\<close>

theorem uncovered_sell_quarantined:
  assumes "needs_cost_basis app" "decimal_str_field (la_data app) ''qty'' = Inr qty"
    "open_lots_ok k lots" "grid k (val qty)" "room k (val qty)"
  shows "enrich_sell_fill app lots = Inl FillQuarantineError \<longleftrightarrow> \<not> (0 < val qty \<and> val qty \<le> shares lots)"
  by (rule enrich_quarantine_iff [OF assms])

definition sample_fill :: "string \<Rightarrow> ledger_fill" where
  "sample_fill side =
     \<lparr>lf_tenant = replicate 32 CHR ''a'', lf_account = replicate 32 CHR ''b'', lf_sleeve = replicate 32 CHR ''c'',
      lf_client_order_id = ''coid'', lf_symbol = ''SPY'', lf_side = side, lf_qty = ''4'', lf_price = ''12.50'',
      lf_fees = ''0.25'', lf_cost_basis = [], lf_realized_pnl = [], lf_order_id = [], lf_filled_at = []\<rparr>"

definition plain_env :: ingest_env where
  "plain_env = \<lparr>ie_event_id = (\<lambda>s. s), ie_now = 0, ie_iso = (\<lambda>s. None)\<rparr>"

definition sell_append :: ledger_append where
  "sell_append =
     \<lparr>la_tenant = ''aaaaaaaa-aaaa-aaaa-aaaa-aaaaaaaaaaaa'', la_account = ''bbbbbbbb-bbbb-bbbb-bbbb-bbbbbbbbbbbb'',
      la_sleeve = ''cccccccc-cccc-cccc-cccc-cccccccccccc'', la_type = ORDER_FILLED,
      la_data = [(''sleeve_id'', JStr (replicate 32 CHR ''c'')), (''symbol'', JStr ''SPY''), (''side'', JStr ''sell''),
                 (''qty'', JStr ''4''), (''price'', JStr ''12.50''), (''client_order_id'', JStr ''coid''),
                 (''fees'', JStr ''0.25'')],
      la_event_id = ''coid'', la_occurred_at = 0\<rparr>"

lemma sell_append_eq: "fill_to_append plain_env (sample_fill ''SELL'') = Inr sell_append"
  by code_simp

lemma sell_append_facts: "needs_cost_basis sell_append" "decimal_str_field (la_data sell_append) ''qty'' = Inr (Dec 4 0)"
  by code_simp+

theorem uncovered_sell_quarantined_witness:
  "enrich_sell_fill sell_append sample_lots = Inl FillQuarantineError \<longleftrightarrow>
     \<not> (0 < val (Dec 4 0) \<and> val (Dec 4 0) \<le> shares sample_lots)"
  by (rule uncovered_sell_quarantined [OF sell_append_facts, of 0])
    (simp_all add: sample_lots_def open_lots_ok_def Lot_def eval_decimals)

text \<open>
  An enriched sell is a balanced event: from a fill message through the FIFO cost basis to the
  postings, closed cost, proceeds net of fees and realized profit cancel exactly, so the writer
  accepts it.
\<close>

theorem enriched_sell_balances:
  assumes "fill_to_append env fill = Inr app" "needs_cost_basis app" "enrich_sell_fill app lots = Inr app'"
    and "list_all (\<lambda>l. 0 < val (lot_qty l) \<and> 0 \<le> val (lot_cost l)) lots"
    and "\<And>qty price fees res. decimal_of_text (lf_qty fill) = Inr qty \<Longrightarrow>
      decimal_of_text (lf_price fill) = Inr price \<Longrightarrow>
      (if lf_fees fill = [] then Inr 0 else decimal_of_text (lf_fees fill)) = Inr fees \<Longrightarrow>
      select_lots_fifo lots qty = Inr res \<Longrightarrow>
      on_grid k [qty * price, fr_closed_cost res, fees] \<and> room k (2 * weight [qty * price, fr_closed_cost res, fees])"
  shows "\<exists>ps. build_postings (la_type app') (la_data app') = Inr ps \<and> assert_balanced ps = Inr ()"
  by (rule enriched_balanced [OF assms])

definition enriched_sell :: ledger_append where
  "enriched_sell =
     sell_append\<lparr>la_data := la_data sell_append @ [(''cost_basis'', JStr ''42''), (''realized_pnl'', JStr ''7.75'')]\<rparr>"

lemma sell_append_reads:
  "decimal_str_field (la_data sell_append) ''price'' = Inr (Dec 1250 (- 2))"
  "decimal_str_field (la_data sell_append) ''fees'' = Inr (Dec 25 (- 2))" "has_key (la_data sell_append) ''fees''"
  "Dec 4 0 * Dec 1250 (- 2) - Dec 42 0 - Dec 25 (- 2) = Dec 775 (- 2)"
  "dec_str (Dec 775 (- 2)) = ''7.75''" "dec_str (Dec 42 0) = ''42''"
  "dict_setdefault ''realized_pnl'' (JStr ''7.75'') (AList.update ''cost_basis'' (JStr ''42'') (la_data sell_append)) =
     la_data enriched_sell"
  by code_simp+

lemma enriched_sell_eq: "enrich_sell_fill sell_append sample_lots = Inr enriched_sell"
  unfolding enrich_sell_fill_def Let_def
  by (simp add: sell_append_facts sell_append_reads sample_sale_eq, simp add: sample_sale_def sell_append_reads,
      simp add: enriched_sell_def)

lemma sample_texts:
  "decimal_of_text ''4'' = Inr (Dec 4 0)" "decimal_of_text ''12.50'' = Inr (Dec 1250 (- 2))"
  "decimal_of_text ''0.25'' = Inr (Dec 25 (- 2))"
  by code_simp+

lemma sample_notional: "Dec 4 0 * Dec 1250 (- 2) = Dec 5000 (- 2)"
  by code_simp

lemma sample_sell_reads:
  "decimal_of_text (lf_qty (sample_fill s)) = Inr (Dec 4 0)" "decimal_of_text (lf_price (sample_fill s)) = Inr (Dec 1250 (- 2))"
  "decimal_of_text (lf_fees (sample_fill s)) = Inr (Dec 25 (- 2))" "lf_fees (sample_fill s) \<noteq> []"
  by (simp_all add: sample_fill_def sample_texts)

theorem enriched_sell_balances_witness:
  "\<exists>ps. build_postings (la_type enriched_sell) (la_data enriched_sell) = Inr ps \<and> assert_balanced ps = Inr ()"
proof (rule enriched_sell_balances [OF sell_append_eq sell_append_facts(1) enriched_sell_eq, of 2])
  show "list_all (\<lambda>l. 0 < val (lot_qty l) \<and> 0 \<le> val (lot_cost l)) sample_lots"
    by (simp add: sample_lots_def Lot_def eval_decimals)
  fix qty price fees res
  assume reads: "decimal_of_text (lf_qty (sample_fill ''SELL'')) = Inr qty"
      "decimal_of_text (lf_price (sample_fill ''SELL'')) = Inr price"
      "(if lf_fees (sample_fill ''SELL'') = [] then Inr 0 else decimal_of_text (lf_fees (sample_fill ''SELL''))) = Inr fees"
    and res: "select_lots_fifo sample_lots qty = Inr res"
  from reads have vals: "qty = Dec 4 0" "price = Dec 1250 (- 2)" "fees = Dec 25 (- 2)" by (simp_all add: sample_sell_reads)
  moreover from res vals have "res = sample_sale" by (simp add: sample_sale_eq)
  ultimately show "on_grid 2 [qty * price, fr_closed_cost res, fees] \<and>
      room 2 (2 * weight [qty * price, fr_closed_cost res, fees])"
    by (simp add: sample_notional sample_sale_def eval_decimals)
qed

section \<open>Performance and rebalancing\<close>

text \<open>
  Profit and loss of a sleeve is exact: equity is cash plus the signed market value of every
  position (at cost where no price is known) and the unrealized profit is market value minus cost.
\<close>

theorem pnl_exact:
  assumes "on_grid k (marks prices s)" "on_grid k (map (\<lambda>yp. ps_cost (snd yp)) (sl_positions s))" "grid k (val (sl_cash s))"
    "room k (\<bar>val (sl_cash s)\<bar> + weight (marks prices s) + weight (map (\<lambda>yp. ps_cost (snd yp)) (sl_positions s)))"
  shows "val (pn_equity (sleeve_pnl sid s prices)) = val (sl_cash s) + sum_list (map val (marks prices s)) \<and>
    val (pn_unrealized (sleeve_pnl sid s prices)) =
      sum_list (map val (marks prices s)) - sum_list (map (\<lambda>yp. val (ps_cost (snd yp))) (sl_positions s))"
  using sleeve_pnl_exact [OF assms] by blast

definition short_sleeve :: sleeve_projection where
  "short_sleeve =
     empty_sleeve\<lparr>sl_cash := Dec 1000 0,
       sl_positions := [(''SPY'', \<lparr>ps_qty = Dec (- 10) 0, ps_cost = Dec (- 1000) 0\<rparr>)]\<rparr>"

lemma short_marks:
  "marks [(''SPY'', Dec 90 0)] short_sleeve = [Dec (- 900) 0]"
  "map (\<lambda>yp. ps_cost (snd yp)) (sl_positions short_sleeve) = [Dec (- 1000) 0]" "sl_cash short_sleeve = Dec 1000 0"
  by code_simp+

theorem pnl_exact_witness:
  "val (pn_equity (sleeve_pnl ''s'' short_sleeve [(''SPY'', Dec 90 0)])) =
     val (sl_cash short_sleeve) + sum_list (map val (marks [(''SPY'', Dec 90 0)] short_sleeve)) \<and>
   val (pn_unrealized (sleeve_pnl ''s'' short_sleeve [(''SPY'', Dec 90 0)])) =
     sum_list (map val (marks [(''SPY'', Dec 90 0)] short_sleeve)) -
     sum_list (map (\<lambda>yp. val (ps_cost (snd yp))) (sl_positions short_sleeve))"
  by (rule pnl_exact [of 0]) (simp_all add: short_marks eval_decimals)

text \<open>
  The account summary values the same short position at its magnitude and so reports an equity of
  1900 where the performance report has 100.
\<close>

lemma summary_short:
  "sv_total_equity (portfolio_summary [empty_account\<lparr>acc_sleeves := [(''s'', short_sleeve)]\<rparr>] [(''SPY'', Dec 90 0)] None) =
     Dec 1900 0"
  "pn_equity (sleeve_pnl ''s'' short_sleeve [(''SPY'', Dec 90 0)]) = Dec 100 0"
  by code_simp+

text \<open>
  The positions page lists exactly the symbols with a non-zero net quantity across accounts and
  sleeves, each once, in symbol order.
\<close>

theorem positions_page:
  "set (map pv_symbol (aggregate_positions accs prices)) = {y. val (net_qty accs y) \<noteq> 0} \<and>
   sorted (map pv_symbol (aggregate_positions accs prices)) \<and>
   distinct (map pv_symbol (aggregate_positions accs prices))"
  using aggregate_symbols by blast

text \<open>
  A rebalance plan sells before it buys, and every buy is affordable from the sleeve's free cash
  up to the rounding of its quantity.
\<close>

theorem rebalance_sells_first:
  assumes "rebalance_sleeve prices tol d = Inr orders"
  shows "(\<exists>sells buys. orders = sells @ buys \<and> list_all (\<lambda>ord. so_side ord = ''sell'') sells \<and>
      list_all (\<lambda>ord. so_side ord = ''buy'') buys) \<and>
    list_all (\<lambda>out. so_side out = ''buy'' \<longrightarrow> so_qty out * so_price out \<le> sd_free_cash d \<or>
      order_cost out \<le> val (sd_free_cash d) + val (sd_free_cash d) * div_eps + val (so_price out) * (5 / 10 ^ 9)) orders"
  using rebalance_shape [OF assms] rebalance_buy_bound [OF assms] by (auto simp: list_all_iff)

definition two_targets :: sleeve_desired where
  "two_targets =
     \<lparr>sd_sleeve = ''s'', sd_equity = Dec 1000 0, sd_target_weights = [(''AAA'', Dec 50 0), (''BBB'', Dec 50 0)],
      sd_positions = [(''CCC'', Dec 6 0)], sd_free_cash = Dec 400 0\<rparr>"

definition two_prices :: "(string, decimal) dict" where
  "two_prices = [(''AAA'', Dec 100 0), (''BBB'', Dec 50 0), (''CCC'', Dec 100 0)]"

definition two_orders :: "sleeve_order list" where
  "two_orders =
     [SleeveOrder ''s'' ''CCC'' ''sell'' (Dec 6 0) (Dec 100 0),
      SleeveOrder ''s'' ''AAA'' ''buy'' (Dec 400000000 (- 8)) (Dec 100 0),
      SleeveOrder ''s'' ''BBB'' ''buy'' (Dec 800000000 (- 8)) (Dec 50 0)]"

lemma two_orders_eq: "rebalance_sleeve two_prices (Dec 5 (- 2)) two_targets = Inr two_orders"
  by code_simp

theorem rebalance_sells_first_witness:
  "(\<exists>sells buys. two_orders = sells @ buys \<and> list_all (\<lambda>ord. so_side ord = ''sell'') sells \<and>
      list_all (\<lambda>ord. so_side ord = ''buy'') buys) \<and>
    list_all (\<lambda>out. so_side out = ''buy'' \<longrightarrow> so_qty out * so_price out \<le> sd_free_cash two_targets \<or>
      order_cost out \<le> val (sd_free_cash two_targets) + val (sd_free_cash two_targets) * div_eps +
        val (so_price out) * (5 / 10 ^ 9)) two_orders"
  by (rule rebalance_sells_first [OF two_orders_eq])

text \<open>The buys of one plan are fitted one by one to the same free cash: together they cost twice as much.\<close>

lemma rebalance_overspends:
  "sum_list (map order_cost (filter (\<lambda>ord. so_side ord = ''buy'') two_orders)) = 800"
  by (simp add: two_orders_def SleeveOrder_def order_cost_def eval_decimals)

end
