(* ===== verification/Ledger_Machine.thy ===== *)
theory Ledger_Machine
  imports Ingestion
begin

text \<open>
  The ledger as a state machine: an event store written by \<^verbatim>\<open>LedgerWriter.append\<close>, read
  by \<^verbatim>\<open>project_account_incremental\<close> through a process cache and a checkpoint table, and a
  process that may restart and lose its cache at any moment. Operations of any tenants and accounts
  interleave in any order; every projection may run with its own safety window and its own success
  of the checkpoint save.

  Every reachable state keeps the store ordered and balanced and its checkpoints true to the log
  (\<open>reachable_inv\<close>), as long as no account has closed more orders than the terminal window
  tracks. Reading the ledger therefore refines the plain fold of the log at every moment.
\<close>

record 'db ledger_state =
  ls_db :: 'db
  ls_cache :: checkpoint_cache
  ls_table :: checkpoint_table

definition projector_at :: "'db store_env \<Rightarrow> (json \<Rightarrow> json) \<Rightarrow> int \<Rightarrow> bool \<Rightarrow> 'db projector_env" where
  "projector_at env jsonb cutoff persisted =
     \<lparr>pe_rows = se_rows env, pe_jsonb = jsonb, pe_cutoff = cutoff, pe_persisted = persisted\<rparr>"

inductive ledger_step :: "'db store_env \<Rightarrow> (json \<Rightarrow> json) \<Rightarrow> 'db ledger_state \<Rightarrow> 'db ledger_state \<Rightarrow> bool"
  for env jsonb where
  append: "store_append env (ls_db st) req = Inr (db', r, new) \<Longrightarrow>
    ledger_step env jsonb st (st\<lparr>ls_db := db'\<rparr>)"
| project: "project_account_incremental (projector_at env jsonb cutoff persisted) (ls_db st) (ls_cache st) (ls_table st)
      tenant account persist = Inr (cache', table', acc) \<Longrightarrow>
    ledger_step env jsonb st (st\<lparr>ls_cache := cache', ls_table := table'\<rparr>)"
| restart: "ledger_step env jsonb st (st\<lparr>ls_cache := []\<rparr>)"

definition reachable :: "'db store_env \<Rightarrow> (json \<Rightarrow> json) \<Rightarrow> 'db ledger_state \<Rightarrow> bool" where
  "reachable env jsonb st \<longleftrightarrow>
     (\<exists>db. se_rows env db = [] \<and> (ledger_step env jsonb)\<^sup>*\<^sup>* \<lparr>ls_db = db, ls_cache = [], ls_table = []\<rparr> st)"

definition checkpoints_ok :: "'db store_env \<Rightarrow> 'db \<Rightarrow> checkpoint_cache \<Rightarrow> checkpoint_table \<Rightarrow> bool" where
  "checkpoints_ok env db cache table \<longleftrightarrow> caches_ok (projector_at env (\<lambda>j. j) 0 True) db cache table"

definition machine_inv :: "'db store_env \<Rightarrow> 'db ledger_state \<Rightarrow> bool" where
  "machine_inv env st \<longleftrightarrow>
     store_ok (se_rows env (ls_db st)) \<and>
     checkpoints_ok env (ls_db st) (ls_cache st) (ls_table st)"

definition closings :: "'db store_env \<Rightarrow> 'db \<Rightarrow> string \<Rightarrow> string \<Rightarrow> nat" where
  "closings env db tenant account =
     length (filter closing (read_account_events (se_rows env) db tenant account))"

definition windows_hold :: "'db store_env \<Rightarrow> 'db ledger_state \<Rightarrow> bool" where
  "windows_hold env st \<longleftrightarrow> (\<forall>tenant account. closings env (ls_db st) tenant account \<le> terminal_tracked)"

lemma projector_at_simps [simp]:
  "pe_rows (projector_at env jsonb c p) = se_rows env" "pe_jsonb (projector_at env jsonb c p) = jsonb"
  "pe_cutoff (projector_at env jsonb c p) = c" "pe_persisted (projector_at env jsonb c p) = p"
  by (simp_all add: projector_at_def)

lemma caches_ok_at: "caches_ok (projector_at env jsonb c p) db cache table \<longleftrightarrow> checkpoints_ok env db cache table"
  by (simp add: checkpoints_ok_def caches_ok_def)

lemma caches_ok_empty: "caches_ok env db [] []"
  by (simp add: caches_ok_def load_checkpoint_def)

lemma checkpoints_ok_empty: "checkpoints_ok env db [] []"
  by (simp add: checkpoints_ok_def caches_ok_empty)

lemma checkpoints_ok_restart: "checkpoints_ok env db cache table \<Longrightarrow> checkpoints_ok env db [] table"
  by (simp add: checkpoints_ok_def caches_ok_def)

lemma store_append_step:
  assumes "table_laws (se_insert env) (se_rows env)" "store_ok (se_rows env db)" "store_append env db req = Inr (db', r, new)"
  shows "store_ok (se_rows env db')" and "closings env db tenant account \<le> closings env db' tenant account"
proof -
  show "store_ok (se_rows env db')"
    using append_store_ok [OF assms(1,2)] assms(3) unfolding store_append_def by blast
  show "closings env db tenant account \<le> closings env db' tenant account"
  proof (cases new)
    case True
    then have "append_event (se_insert env) (se_rows env) (se_fresh env) (se_now env) db req = Inr (db', r, True)"
      using assms(3) by (simp add: store_append_def)
    from project_append [OF assms(1,2) this] show ?thesis
      by (cases "(tenant, account) = (ar_tenant req, ar_account req)") (auto simp: closings_def)
  next
    case False
    then show ?thesis
      using append_event_Inr(1) [OF assms(1) assms(3) [unfolded store_append_def]]
      by (simp add: closings_def read_account_events_def)
  qed
qed

lemma ledger_step_inv:
  assumes laws: "table_laws (se_insert env) (se_rows env)" "jsonb_laws jsonb"
    and step: "ledger_step env jsonb st st'" and inv: "machine_inv env st" and room: "windows_hold env st"
  shows "machine_inv env st'"
  using step
proof (cases rule: ledger_step.cases)
  case (append req db' r new)
  let ?p = "projector_at env jsonb 0 True"
  have "append_event (se_insert env) (pe_rows ?p) (se_fresh env) (se_now env) (ls_db st) req = Inr (db', r, new)"
    using append(2) by (simp add: store_append_def)
  from caches_ok_append [OF _ _ _ this] laws(1) inv
  have "checkpoints_ok env db' (ls_cache st) (ls_table st)"
    by (simp add: machine_inv_def caches_ok_at)
  then show ?thesis
    using append store_append_step(1) [OF laws(1) _ append(2)] inv by (simp add: machine_inv_def)
next
  case (project cutoff persisted tenant account persist cache' table' acc)
  let ?p = "projector_at env jsonb cutoff persisted"
  have "\<exists>cache' table' acc. project_account_incremental ?p (ls_db st) (ls_cache st) (ls_table st) tenant account persist =
      Inr (cache', table', acc) \<and>
    acc_sim (project_account (pe_rows ?p) (ls_db st) tenant account) acc \<and> caches_ok ?p (ls_db st) cache' table'"
    by (rule incremental_correct)
      (use laws inv room in \<open>simp_all add: machine_inv_def caches_ok_at windows_hold_def closings_def\<close>)
  then show ?thesis using project inv by (auto simp: machine_inv_def caches_ok_at)
next
  case restart
  then show ?thesis using inv checkpoints_ok_restart by (auto simp: machine_inv_def)
qed

lemma ledger_step_windows:
  assumes "table_laws (se_insert env) (se_rows env)" "ledger_step env jsonb st st'" "store_ok (se_rows env (ls_db st))"
    "windows_hold env st'"
  shows "windows_hold env st"
  using assms(2)
proof (cases rule: ledger_step.cases)
  case (append req db' r new)
  then show ?thesis
    using store_append_step(2) [OF assms(1,3) append(2)] assms(4)
    unfolding windows_hold_def by (metis ledger_state.select_convs(1) ledger_state.surjective ledger_state.update_convs(1) order_trans)
qed (use assms(4) in \<open>auto simp: windows_hold_def\<close>)

lemma ledger_step_store:
  assumes "table_laws (se_insert env) (se_rows env)" "ledger_step env jsonb st st'" "store_ok (se_rows env (ls_db st))"
  shows "store_ok (se_rows env (ls_db st'))"
  using assms(2)
  by (cases rule: ledger_step.cases) (use assms store_append_step(1) in auto)

lemma reachable_inv:
  assumes laws: "table_laws (se_insert env) (se_rows env)" "jsonb_laws jsonb"
    and reach: "reachable env jsonb st" and room: "windows_hold env st"
  shows "machine_inv env st"
proof -
  obtain db where db: "se_rows env db = []"
    and run: "(ledger_step env jsonb)\<^sup>*\<^sup>* \<lparr>ls_db = db, ls_cache = [], ls_table = []\<rparr> st"
    using reach by (auto simp: reachable_def)
  have "store_ok (se_rows env (ls_db st)) \<and> (windows_hold env st \<longrightarrow> machine_inv env st)"
    using run
  proof (induction rule: rtranclp_induct)
    case base
    then show ?case by (simp add: machine_inv_def db store_ok_def checkpoints_ok_empty)
  next
    case (step y z)
    then show ?case
      using ledger_step_store [OF laws(1) step(2)] ledger_step_windows [OF laws(1) step(2)]
        ledger_step_inv [OF laws step(2)] by blast
  qed
  with room show ?thesis by blast
qed

lemma reachable_read:
  assumes laws: "table_laws (se_insert env) (se_rows env)" "jsonb_laws jsonb"
    and reach: "reachable env jsonb st" and room: "windows_hold env st"
  shows "\<exists>cache' table' acc.
    project_account_incremental (projector_at env jsonb cutoff persisted) (ls_db st) (ls_cache st) (ls_table st)
      tenant account persist = Inr (cache', table', acc) \<and>
    acc_sim (store_project env (ls_db st) tenant account) acc"
proof -
  let ?p = "projector_at env jsonb cutoff persisted"
  have "\<exists>cache' table' acc. project_account_incremental ?p (ls_db st) (ls_cache st) (ls_table st) tenant account persist =
      Inr (cache', table', acc) \<and>
    acc_sim (project_account (pe_rows ?p) (ls_db st) tenant account) acc \<and> caches_ok ?p (ls_db st) cache' table'"
    by (rule incremental_correct)
      (use laws reachable_inv [OF assms] room in
        \<open>simp_all add: machine_inv_def caches_ok_at windows_hold_def closings_def\<close>)
  then show ?thesis by (auto simp: store_project_def)
qed

end
