(* ===== verification/Store_Properties.thy ===== *)
theory Store_Properties
  imports Samples Ledger_Machine
begin

text \<open>
  Properties of the event store, the checkpoints and the projector: what an append does to the
  table, what survives a save and a load of a checkpoint, and that reading through cache,
  checkpoint table and delta is reading the whole log.
\<close>

section \<open>The event table\<close>

definition deposit_request :: append_request where
  "deposit_request =
     \<lparr>ar_tenant = ''t'', ar_account = ''a'', ar_type = FUNDS_DEPOSITED,
      ar_data = [(''sleeve_id'', JStr ''u''), (''amount'', JStr ''25.75'')], ar_sleeve = Some ''u'',
      ar_event_id = Some ''d1'', ar_occurred_at = Some 0\<rparr>"

definition deposit_row :: "int \<Rightarrow> ledger_event" where
  "deposit_row n = (new_row ''fresh'' 0 deposit_request)\<lparr>ev_sequence := Some n\<rparr>"

lemma deposit_appended:
  "append_event list_insert (\<lambda>rs. rs) ''fresh'' 0 sample_rows deposit_request =
     Inr (sample_rows @ [deposit_row 4], deposit_row 4, True)"
  by code_simp




text \<open>
  C6. The writer keeps the table well formed: event ids stay unique, sequences strictly increase in
  insertion order and every stored event builds balanced postings.
\<close>

theorem append_keeps_table:
  assumes "table_laws ins rows" "store_ok (rows db)" "append_event ins rows fresh now db req = Inr (db', r, new)"
  shows "store_ok (rows db')"
  by (rule append_store_ok [OF assms])

theorem append_keeps_table_witness: "store_ok (sample_rows @ [deposit_row 4])"
  using append_keeps_table [OF list_insert_laws _ deposit_appended] sample_store_ok by simp

text \<open>
  Nothing the writer accepts poisons a projection except one thing: the poison count of an
  account is bounded by the number of its order submissions whose reserved amount is unreadable,
  which the writer does not look at.
\<close>

theorem poison_only_from_reservations:
  assumes "store_ok (rows db)"
  shows "acc_poison (project_account rows db tenant account) \<le>
    int (length (filter unreadable_reservation (read_account_events rows db tenant account)))"
  by (rule writer_poison [where rows = rows, OF assms])

theorem poison_only_from_reservations_witness:
  "acc_poison (project_account (\<lambda>rs. rs) sample_rows ''t'' ''a'') \<le>
    int (length (filter unreadable_reservation (read_account_events (\<lambda>rs. rs) sample_rows ''t'' ''a'')))"
  by (rule poison_only_from_reservations [where rows = "\<lambda>rs. rs"]) (rule sample_store_ok)

text \<open>The exception is real: the writer accepts a submission that the fold then counts as poison.\<close>

definition bad_submission :: append_request where
  "bad_submission =
     deposit_request\<lparr>ar_type := ORDER_SUBMITTED,
       ar_data := [(''sleeve_id'', JStr ''u''), (''client_order_id'', JStr ''c''), (''reserved'', JStr ''n/a'')]\<rparr>"

lemma accepted_poison:
  "case append_event list_insert (\<lambda>rs. rs) ''fresh'' 0 [] bad_submission of
     Inl e \<Rightarrow> False | Inr (db, r, new) \<Rightarrow> acc_poison (project_account (\<lambda>rs. rs) db ''t'' ''a'') = 1"
  by code_simp

section \<open>Checkpoints\<close>

text \<open>
  C20. A checkpoint saved at a newer sequence than the stored one loads back: balances, reservations
  and lots are the same dictionaries, the terminal orders the same set.
\<close>

theorem checkpoint_round_trip:
  assumes "jsonb_laws jsonb" "state_wf st" "book_wf lots"
    and "\<And>row. map_of table (tenant, account) = Some row \<Longrightarrow> ck_sequence row \<le> n"
  shows "\<exists>st' lots'. load_checkpoint (save_checkpoint jsonb table tenant account n st lots) tenant account =
      Inr (Some (n, st', lots')) \<and> state_sim st st' \<and> book_sim lots lots'"
  using save_load [OF assms] by blast

definition saved_state :: fold_state where
  "saved_state = fold_state_into start_state sample_rows"

definition saved_lots :: lot_book where
  "saved_lots = fold_lots [] sample_rows"

theorem checkpoint_round_trip_witness:
  "\<exists>st' lots'. load_checkpoint (save_checkpoint (\<lambda>j. j) [] ''t'' ''a'' 3 saved_state saved_lots) ''t'' ''a'' =
      Inr (Some (3, st', lots')) \<and> state_sim saved_state st' \<and> book_sim saved_lots lots'"
proof (rule checkpoint_round_trip)
  show "jsonb_laws (\<lambda>j. j)" by (rule jsonb_laws_id)
  show "state_wf saved_state"
    unfolding saved_state_def start_state_def by (rule state_wf_fold) simp
  show "book_wf saved_lots"
    unfolding saved_lots_def by (rule fold_lots_wf) (simp add: book_wf_def)
qed simp

text \<open>
  Loading a checkpoint never raises, whatever the stored document holds: a row of another
  version, a malformed or a truncated document is reported as no checkpoint.
\<close>

theorem load_never_raises: "\<exists>r. load_checkpoint table tenant account = Inr r"
  by (rule load_total)

text \<open>
  The order of the terminal orders does not survive: the encoder sorts them, so after a restore the
  bounded window evicts the lexicographically smallest id instead of the oldest.
\<close>

lemma terminal_order_lost:
  "case decode_state (JObj (encode_state empty_account (empty_reservations\<lparr>rs_terminal := [''b'', ''a'']\<rparr>))) of
     Inl e \<Rightarrow> False | Inr st \<Rightarrow> rs_terminal (snd st) = [''a'', ''b'']"
  by code_simp

text \<open>A document without lots seeds an empty lot book at the sequence of the balances.\<close>

lemma missing_lots_seed_empty: "decode_lots JNull = Inr []"
  by code_simp

section \<open>The projector\<close>








text \<open>
  The process cache is bounded and remembers the checkpoint it was just given: at most 2048
  accounts, the newest always among them.
\<close>

theorem cache_bounded:
  "length (cache_put key cp cache) \<le> 2048 \<and> map_of (cache_put key cp cache) key = Some cp"
  using cache_put_bound [of key cp cache] cache_put_newest [of key cp cache] by (simp add: max_cached_accounts_def)


definition created_at :: "int \<Rightarrow> int \<Rightarrow> ledger_event" where
  "created_at n t = (deposit_row n)\<lparr>ev_id := show_int n, ev_created_at := Some t\<rparr>"


text \<open>
  When a row in flight has a lower sequence than an older committed one, the window checkpoints past
  it: event 2 is in flight, event 3 is old enough, and the safe part is no prefix of the log.
\<close>

lemma window_unsafe:
  "take 2 [created_at 1 5, created_at 2 100, created_at 3 50] \<noteq>
     fst (partition_at_window (filter (\<lambda>r. ev_sequence r \<noteq> Some 2) [created_at 1 5, created_at 2 100, created_at 3 50]) 60)"
  "length (fst (partition_at_window (filter (\<lambda>r. ev_sequence r \<noteq> Some 2)
     [created_at 1 5, created_at 2 100, created_at 3 50]) 60)) = 2"
  by code_simp+

end
