(* ===== verification/Service_Properties.thy ===== *)
theory Service_Properties
  imports Samples Ledger_Machine
begin

text \<open>
  Properties of the services on top of the store: capital movements, corporate actions, sleeve
  close, onboarding, the drift policy, fill ingestion and the reconciliation task. The witnesses run
  the services on a store in memory.
\<close>

lemma sample_project:
  "store_project list_store sample_rows ''t'' ''a'' =
     \<lparr>acc_sleeves =
        [(''u'', \<lparr>sl_cash = Dec 4050 (- 2), sl_realized = 0, sl_reserved = 0, sl_positions = []\<rparr>),
         (''s'', \<lparr>sl_cash = Dec 1950 (- 2), sl_realized = 0, sl_reserved = 0,
           sl_positions = [(''SPY'', \<lparr>ps_qty = Dec 2 0, ps_cost = Dec 4050 (- 2)\<rparr>)]\<rparr>)],
      acc_poison = 0\<rparr>"
  by code_simp

lemma sample_rows_ids: "set (map ev_id sample_rows) = {''e1'', ''e2'', ''e3''}"
  by code_simp

lemma sample_unallocated: "get_sleeve_by_type sample_sleeves ''t'' ''a'' UNALLOCATED = Some (sleeve_of UNALLOCATED ''u'')"
  by code_simp

lemmas sample_sleeve_facts = sleeve_of_def get_sleeve_def dict_get_def

lemma sample_solvent: "solvent 2 (store_project list_store sample_rows ''t'' ''a'') ''u'' (Dec 1025 (- 2))"
  unfolding sample_project
  by (simp add: solvent_def Let_def healthy_account_def healthy_sleeve_def sample_sleeve_facts eval_decimals le_val)

section \<open>Capital movements\<close>

text \<open>
  C18. A withdrawal succeeds exactly when it is positive and covered by the free cash of the
  unallocated sleeve; then the sleeve's cash drops by exactly the amount and the account stays
  healthy, otherwise FundError is raised.
\<close>

theorem withdraw_exactly_when_covered:
  assumes "table_laws (se_insert env) (se_rows env)" "store_ok (se_rows env db)"
    and "get_sleeve_by_type sleeves tenant account UNALLOCATED = Some u"
    and "solvent k (store_project env db tenant account) (sr_id u) amount"
    and "\<And>ev. ev_id (new_row (se_fresh env) (se_now env)
      (fund_request env tenant account ''withdraw'' rid 0 ev)) \<notin> set (map ev_id (se_rows env db))"
  shows "let before = get_sleeve (store_project env db tenant account) (sr_id u) in
    if 0 < val amount \<and> val amount \<le> val (sl_cash before) - val (sl_reserved before)
    then \<exists>db' cash. fund_withdraw env sleeves db tenant account amount rid = Inr (db', u, cash) \<and>
      val cash = val (sl_cash before) - val amount \<and>
      healthy_account (store_project env db' tenant account) \<and> store_ok (se_rows env db')
    else fund_withdraw env sleeves db tenant account amount rid = Inl FundError"
  unfolding Let_def by (rule withdraw_ok_iff [OF assms])

lemma fund_id_new:
  "ev_id (new_row (se_fresh list_store) (se_now list_store) (fund_request list_store ''t'' ''a'' op ''r1'' 0 ev))
     \<notin> set (map ev_id (se_rows list_store sample_rows))"
  by (simp add: fund_request_def fund_event_id_def new_row_def sample_rows_ids del: set_map)

theorem withdraw_exactly_when_covered_witness:
  "\<exists>db' cash. fund_withdraw list_store sample_sleeves sample_rows ''t'' ''a'' (Dec 1025 (- 2)) ''r1'' =
      Inr (db', sleeve_of UNALLOCATED ''u'', cash) \<and> val cash = 3025 / 100 \<and>
      healthy_account (store_project list_store db' ''t'' ''a'') \<and> store_ok (se_rows list_store db')"
  using withdraw_exactly_when_covered [OF list_store_laws _ sample_unallocated _ fund_id_new, of 2 "Dec 1025 (- 2)"]
    sample_store_ok sample_solvent
  by (simp add: sample_project sample_sleeve_facts eval_decimals Let_def)

text \<open>
  Allocating capital moves exactly the amount: it leaves the unallocated sleeve and arrives in
  the target sleeve, exactly when it is positive and covered by free cash, else FundError.
\<close>

theorem allocate_moves_amount:
  assumes "table_laws (se_insert env) (se_rows env)" "store_ok (se_rows env db)"
    and "get_sleeve_by_type sleeves tenant account UNALLOCATED = Some u"
    and "require_sleeve sleeves tenant account to_sid = Inr to_row" "sr_id u \<noteq> to_sid"
    and "solvent k (store_project env db tenant account) (sr_id u) amount"
    and "grid k (val (sl_cash (get_sleeve (store_project env db tenant account) to_sid)))"
      "room k (\<bar>val (sl_cash (get_sleeve (store_project env db tenant account) to_sid))\<bar> + \<bar>val amount\<bar>)"
    and "\<And>ev. ev_id (new_row (se_fresh env) (se_now env)
      (fund_request env tenant account ''allocate'' rid 0 ev)) \<notin> set (map ev_id (se_rows env db))"
  shows "let before = store_project env db tenant account in
    if 0 < val amount \<and>
      val amount \<le> val (sl_cash (get_sleeve before (sr_id u))) - val (sl_reserved (get_sleeve before (sr_id u)))
    then \<exists>db' cash. fund_allocate env sleeves db tenant account to_sid amount rid = Inr (db', to_row, cash) \<and>
      val cash = val (sl_cash (get_sleeve before to_sid)) + val amount \<and>
      val (sl_cash (get_sleeve (store_project env db' tenant account) (sr_id u))) =
        val (sl_cash (get_sleeve before (sr_id u))) - val amount \<and>
      healthy_account (store_project env db' tenant account) \<and> store_ok (se_rows env db')
    else fund_allocate env sleeves db tenant account to_sid amount rid = Inl FundError"
  unfolding Let_def by (rule allocate_ok_iff [OF assms])

lemma sample_target: "require_sleeve sample_sleeves ''t'' ''a'' ''s'' = Inr (sleeve_of STRATEGY ''s'')"
  by code_simp

theorem allocate_moves_amount_witness:
  "\<exists>db' cash. fund_allocate list_store sample_sleeves sample_rows ''t'' ''a'' ''s'' (Dec 1025 (- 2)) ''r1'' =
      Inr (db', sleeve_of STRATEGY ''s'', cash) \<and> val cash = 2975 / 100 \<and>
      val (sl_cash (get_sleeve (store_project list_store db' ''t'' ''a'') ''u'')) = 3025 / 100 \<and>
      healthy_account (store_project list_store db' ''t'' ''a'') \<and> store_ok (se_rows list_store db')"
  using allocate_moves_amount [OF list_store_laws _ sample_unallocated sample_target _ _ _ _ fund_id_new, of 2 "Dec 1025 (- 2)"]
    sample_store_ok sample_solvent
  by (simp add: sample_project sample_sleeve_facts eval_decimals Let_def)

text \<open>
  A retried withdrawal is checked against the balance its first attempt has debited, before the
  event id could deduplicate it: the retry raises although the withdrawal is booked.
\<close>

lemma retry_refused:
  "case fund_withdraw list_store sample_sleeves sample_rows ''t'' ''a'' (Dec 30 0) ''r1'' of
     Inl e \<Rightarrow> False
   | Inr (db', u, cash) \<Rightarrow>
       fund_withdraw list_store sample_sleeves db' ''t'' ''a'' (Dec 30 0) ''r1'' = Inl FundError"
  by code_simp

section \<open>Corporate actions and sleeve close\<close>


definition sample_account :: account_projection where
  "sample_account = store_project list_store sample_rows ''t'' ''a''"





text \<open>
  C19. Closing a sleeve empties it and loses nothing: its status becomes CLOSED, its cash arrives in
  the unallocated sleeve and every position in the unmanaged sleeve.
\<close>

theorem close_rehomes_everything:
  assumes "table_laws (se_insert env) (se_rows env)" "store_ok (se_rows env db)" "distinct (map sr_id sleeves)"
    and "close_sleeve env lots sleeves db tenant account sid reason = Inr (db', sleeves', res)" "\<not> cr_already_closed res"
    and "close_event_id env sid \<notin> set (map ev_id (se_rows env db))"
  shows "let before = store_project env db tenant account; after = store_project env db' tenant account in
   \<exists>row um ua. find_sleeve sleeves' tenant sid = Some row \<and> sr_status row = CLOSED \<and>
    get_sleeve_by_type sleeves tenant account UNMANAGED = Some um \<and>
    get_sleeve_by_type sleeves tenant account UNALLOCATED = Some ua \<and>
    val (sl_cash (get_sleeve after sid)) = 0 \<and> (\<forall>y. val (ps_qty (cell after sid y)) = 0) \<and>
    val (sl_cash (get_sleeve after (sr_id ua))) = val (sl_cash (get_sleeve before (sr_id ua)) + sl_cash (get_sleeve before sid)) \<and>
    (\<forall>y. val (ps_qty (cell after (sr_id um) y)) = val (ps_qty (cell before (sr_id um) y) + ps_qty (cell before sid y)))"
  unfolding Let_def by (rule close_sleeve_effect [OF assms])

definition sample_plan :: close_plan where
  "sample_plan =
     plan_sleeve_close ''s'' (rehome None (sl_positions (get_sleeve sample_account ''s''))) (Dec 1950 (- 2)) ''m'' ''u'' None"

definition close_row :: ledger_event where
  "close_row = (new_row ''fresh'' 0 (close_request list_store ''t'' ''a'' ''s'' sample_plan))\<lparr>ev_sequence := Some 4\<rparr>"

definition close_outcome :: close_result where
  "close_outcome =
     \<lparr>cr_positions = cl_positions sample_plan, cr_cash = cl_cash sample_plan, cr_already_closed = False\<rparr>"

lemma close_steps:
  "find_sleeve sample_sleeves ''t'' ''s'' = Some (sleeve_of STRATEGY ''s'')"
  "get_sleeve_by_type sample_sleeves ''t'' ''a'' UNMANAGED = Some (sleeve_of UNMANAGED ''m'')"
  "STRATEGY \<notin> set uncloseable_types" "is_zero (sl_reserved (get_sleeve sample_account ''s''))"
  "sl_cash (get_sleeve sample_account ''s'') = Dec 1950 (- 2)"
  "store_append list_store sample_rows (close_request list_store ''t'' ''a'' ''s'' sample_plan) =
     Inr (sample_rows @ [close_row], close_row, True)"
  by code_simp+

lemma close_checked:
  "is_ok (assert_write_invariants (store_project list_store (sample_rows @ [close_row]) ''t'' ''a'') [''s'', ''m'', ''u''])"
  by code_simp

lemma sample_closed:
  "close_sleeve list_store None sample_sleeves sample_rows ''t'' ''a'' ''s'' None =
     Inr (sample_rows @ [close_row], set_sleeve_status sample_sleeves ''s'' CLOSED, close_outcome)"
proof -
  obtain proj where proj: "assert_write_invariants (store_project list_store (sample_rows @ [close_row]) ''t'' ''a'')
      [''s'', ''m'', ''u''] = Inr proj"
    using close_checked by (auto simp: result_simps)
  have s: "sr_id (sleeve_of t i) = i" "sr_account (sleeve_of t i) = ''a''" "sr_type (sleeve_of t i) = t"
      "sr_status (sleeve_of t i) = ACTIVE" for t i
    by (simp_all add: sleeve_of_def)
  show ?thesis
    unfolding close_sleeve_def Let_def sample_account_def [symmetric]
    by (simp add: close_steps sample_unallocated s, fold sample_plan_def, simp add: close_steps proj close_outcome_def)
qed

theorem close_rehomes_everything_witness:
  "let before = store_project list_store sample_rows ''t'' ''a''; after = store_project list_store (sample_rows @ [close_row]) ''t'' ''a'' in
   \<exists>row um ua. find_sleeve (set_sleeve_status sample_sleeves ''s'' CLOSED) ''t'' ''s'' = Some row \<and> sr_status row = CLOSED \<and>
    get_sleeve_by_type sample_sleeves ''t'' ''a'' UNMANAGED = Some um \<and>
    get_sleeve_by_type sample_sleeves ''t'' ''a'' UNALLOCATED = Some ua \<and>
    val (sl_cash (get_sleeve after ''s'')) = 0 \<and> (\<forall>y. val (ps_qty (cell after ''s'' y)) = 0) \<and>
    val (sl_cash (get_sleeve after (sr_id ua))) = val (sl_cash (get_sleeve before (sr_id ua)) + sl_cash (get_sleeve before ''s'')) \<and>
    (\<forall>y. val (ps_qty (cell after (sr_id um) y)) = val (ps_qty (cell before (sr_id um) y) + ps_qty (cell before ''s'' y)))"
proof (rule close_rehomes_everything [OF list_store_laws _ _ sample_closed])
  show "store_ok (se_rows list_store sample_rows)" using sample_store_ok by simp
  show "distinct (map sr_id sample_sleeves)" by (simp add: sample_sleeves_def sleeve_of_def)
  show "close_event_id list_store ''s'' \<notin> set (map ev_id (se_rows list_store sample_rows))"
    by (simp add: close_event_id_def sample_rows_ids del: set_map)
qed (simp add: close_outcome_def)

text \<open>
  Closing is refused exactly for an unknown sleeve, a sleeve of another account, a base sleeve,
  or a sleeve that still reserves cash or whose account lacks a base sleeve; closing a closed sleeve
  is no error.
\<close>

theorem close_refused_iff:
  "close_sleeve env lots sleeves db tenant account sid reason = Inl SleeveCloseError \<longleftrightarrow>
     (case find_sleeve sleeves tenant sid of
        None \<Rightarrow> True
      | Some row \<Rightarrow>
          sr_account row \<noteq> account \<or> sr_type row \<in> {UNALLOCATED, UNMANAGED} \<or>
          sr_status row \<noteq> CLOSED \<and>
          (val (sl_reserved (get_sleeve (store_project env db tenant account) sid)) \<noteq> 0 \<or>
           get_sleeve_by_type sleeves tenant account UNMANAGED = None \<or>
           get_sleeve_by_type sleeves tenant account UNALLOCATED = None))"
  by (rule close_refused)

lemma sample_base_row: "find_sleeve sample_sleeves ''t'' ''u'' = Some (sleeve_of UNALLOCATED ''u'')"
  by code_simp

theorem close_refused_iff_witness:
  "close_sleeve list_store None sample_sleeves sample_rows ''t'' ''a'' ''u'' None = Inl SleeveCloseError"
  using close_refused_iff [of list_store None sample_sleeves sample_rows "''t''" "''a''" "''u''" None]
  by (simp add: sample_base_row sleeve_of_def)

section \<open>Onboarding and drift policy\<close>

text \<open>
  C29. Onboarding a new broker account seeds a book that agrees with the broker: reconciliation
  reports no position drift and ledger cash equals broker cash, for a snapshot with distinct symbols
  and non-negative cash.
\<close>

theorem onboarding_reconciles:
  assumes "table_laws (se_insert env) (se_rows env)" "store_ok (se_rows env db)"
    and "new_book env fresh ids db st" "sound_snapshot snap"
    and "snd (snd (resolve_account fresh (os_accounts st) tenant creds (bs_account_id snap)))"
  shows "\<exists>db' st'. onboard env fresh ids db st tenant creds snap = Inr (db', st', fresh) \<and>
    reconcile (store_project env db' tenant fresh) (map (\<lambda>p. (bp_symbol p, bp_qty p)) (bs_holdings snap)) tol = [] \<and>
    val (ledger_cash (store_project env db' tenant fresh)) = val (bs_cash snap)"
  by (rule onboard_seeds [OF assms])

definition sample_snapshot :: broker_snapshot where
  "sample_snapshot =
     \<lparr>bs_cash = Dec 10050 (- 2),
      bs_holdings = [\<lparr>bp_symbol = ''QQQ'', bp_qty = Dec 2 0, bp_avg_price = Dec 50 0\<rparr>], bs_account_id = Some ''b1''\<rparr>"

definition no_accounts :: onboard_state where
  "no_accounts = \<lparr>os_accounts = [], os_sleeves = []\<rparr>"

definition base_ids :: "SleeveType \<Rightarrow> string" where
  "base_ids t = (if t = UNALLOCATED then ''u'' else ''m'')"

lemma sample_snapshot_sound: "sound_snapshot sample_snapshot"
proof -
  have "rep28 2" "rep28 (201 / 2)"
    using rep28_Dec [of 2 0] rep28_Dec [of 10050 "- 2"] by (simp_all add: eval_decimals)
  then show ?thesis by (simp add: sound_snapshot_def sample_snapshot_def eval_decimals)
qed

theorem onboarding_reconciles_witness:
  "\<exists>db' st'. onboard list_store ''acc'' base_ids [] no_accounts ''t'' ''c'' sample_snapshot = Inr (db', st', ''acc'') \<and>
    reconcile (store_project list_store db' ''t'' ''acc'') (map (\<lambda>p. (bp_symbol p, bp_qty p)) (bs_holdings sample_snapshot)) 0 = [] \<and>
    val (ledger_cash (store_project list_store db' ''t'' ''acc'')) = val (bs_cash sample_snapshot)"
proof (rule onboarding_reconciles [OF list_store_laws _ _ sample_snapshot_sound])
  show "store_ok (se_rows list_store [])" by (simp add: store_ok_def)
  show "new_book list_store ''acc'' base_ids [] no_accounts"
    by (simp add: new_book_def no_accounts_def base_ids_def inj_on_def)
  show "snd (snd (resolve_account ''acc'' (os_accounts no_accounts) ''t'' ''c'' (bs_account_id sample_snapshot)))"
    by code_simp
qed

text \<open>
  A margin account's negative cash is not seeded: the book of an account that owes the broker starts
  with no cash at all.
\<close>

lemma margin_not_seeded:
  "val cash < 0 \<Longrightarrow> val (ledger_cash (foldl apply_postings empty_account (seed_legs cash [] ''u'' ''m''))) = 0"
  by (rule backfill_margin) simp_all

text \<open>
  C28. Adopting an external trade heals the book: once a position missing in the ledger is adopted,
  ledger and broker agree on its symbol.
\<close>

theorem adoption_heals:
  assumes "table_laws (se_insert env) (se_rows env)" "store_ok (se_rows env db)"
    and "d \<in> set (reconcile (store_project env db tenant account) broker tol)" "dr_kind d = MISSING_IN_LEDGER"
    and "on_grid k (symbol_qtys (dr_symbol d) (holdings (store_project env db tenant account)))"
      "grid k (val (dr_broker_qty d))"
    and "room k (weight (symbol_qtys (dr_symbol d) (holdings (store_project env db tenant account))) + \<bar>val (dr_broker_qty d)\<bar>)"
    and "adopt_external_trade env denv db sleeves tenant account d = Inr (db', sleeves', ''adopted'', incidents)"
  shows "\<not> differs (store_project env db' tenant account) broker (dr_symbol d)"
  by (rule adopt_heals_book [OF assms])

definition missing_qqq :: drift where
  "missing_qqq = \<lparr>dr_symbol = ''QQQ'', dr_ledger_qty = 0, dr_broker_qty = Dec 2 0, dr_kind = MISSING_IN_LEDGER\<rparr>"

definition broker_book :: "(string, decimal) dict" where
  "broker_book = [(''SPY'', Dec 2 0), (''QQQ'', Dec 2 0)]"

definition quiet_env :: drift_env where
  "quiet_env = \<lparr>de_now = 0, de_date = ''2026-01-01'', de_snapshot = (\<lambda>i. if i = 0 then None else Some sample_snapshot),
     de_orders = Some [], de_alerts = False\<rparr>"

lemma adopt_facts:
  "reconcile (store_project list_store sample_rows ''t'' ''a'') broker_book default_dust_tolerance = [missing_qqq]"
  "symbol_qtys ''QQQ'' (holdings (store_project list_store sample_rows ''t'' ''a'')) = []"
  by code_simp+

definition adopted_row :: ledger_event where
  "adopted_row = (new_row ''fresh'' 0 (adopt_request ''t'' ''a'' missing_qqq ''m'' (Dec 50 0)
     ''a:adopt:QQQ:0E-8:2.00000000:2026-01-01''))\<lparr>ev_sequence := Some 4\<rparr>"

lemma sample_adopted:
  "adopt_external_trade list_store quiet_env sample_rows sample_sleeves ''t'' ''a'' missing_qqq =
     Inr (sample_rows @ [adopted_row], sample_sleeves, ''adopted'', [])"
  by code_simp

theorem adoption_heals_witness:
  "\<not> differs (store_project list_store (sample_rows @ [adopted_row]) ''t'' ''a'') broker_book (dr_symbol missing_qqq)"
proof (rule adoption_heals [OF list_store_laws _ _ _ _ _ _ sample_adopted, where k = 0 and tol = default_dust_tolerance])
  show "store_ok (se_rows list_store sample_rows)" using sample_store_ok by simp
qed (simp_all add: adopt_facts missing_qqq_def eval_decimals)

text \<open>
  Reading the broker for an adoption ends after three attempts: it fails exactly when the first
  three reads all fail.
\<close>

theorem snapshot_three_attempts:
  "snapshot_with_retry denv = None \<longleftrightarrow> list_all (\<lambda>i. de_snapshot denv i = None) [0, 1, 2]"
proof -
  have "(\<forall>i<3. de_snapshot denv i = None) \<longleftrightarrow> list_all (\<lambda>i. de_snapshot denv i = None) [0, 1, 2]"
    by (auto simp: numeral_3_eq_3 less_Suc_eq numeral_2_eq_2)
  then show ?thesis by (simp add: snapshot_with_retry_None)
qed

section \<open>Fill ingestion\<close>

text \<open>
  C12. Booking a fill never leaves a broken sleeve trading: after a booked fill, the sleeve it was
  booked to (after rerouting from a closed sleeve) is healthy in the full projection or frozen.
\<close>

theorem booked_fill_healthy_or_frozen:
  assumes "table_laws (se_insert env) (se_rows env)" "store_ok (se_rows env db)" "pe_rows penv = se_rows env"
    and "jsonb_laws (pe_jsonb penv)" "caches_ok penv db (is_cache st) (is_table st)"
    and "length (filter closing (read_account_events (se_rows env) db (la_tenant app) (la_account app))) < terminal_tracked"
    and "la_type app = ORDER_FILLED" "persist_append env penv db st app = Inr (db', st')"
  shows "let s = la_sleeve (reroute_if_sleeve_closed (is_sleeves st) app) in
     case find_sleeve (is_sleeves st') (la_tenant app) s of
       None \<Rightarrow> True
     | Some row \<Rightarrow> sr_status row = FROZEN \<or>
         healthy_sleeve (get_sleeve (store_project env db' (la_tenant app) (la_account app)) s)"
  unfolding Let_def by (rule persist_healthy_or_frozen [OF assms])

definition unfunded_buy :: ledger_append where
  "unfunded_buy =
     \<lparr>la_tenant = ''t'', la_account = ''a'', la_sleeve = ''s'', la_type = ORDER_FILLED,
      la_data = [(''sleeve_id'', JStr ''s''), (''symbol'', JStr ''SPY''), (''side'', JStr ''buy''),
                 (''qty'', JStr ''1''), (''price'', JStr ''30''), (''client_order_id'', JStr ''c9'')],
      la_event_id = ''c9'', la_occurred_at = 0\<rparr>"

definition ingest_start :: ingest_state where
  "ingest_start = \<lparr>is_cache = [], is_table = [], is_sleeves = sample_sleeves\<rparr>"

definition buy_row :: ledger_event where
  "buy_row = (new_row ''fresh'' 0 (fill_request unfunded_buy))\<lparr>ev_sequence := Some 4\<rparr>"

definition overdrawn :: account_projection where
  "overdrawn = store_project list_store (sample_rows @ [buy_row]) ''t'' ''a''"

definition overdraft_reason :: string where
  "overdraft_reason = violation_text (check_sleeve_invariants (get_sleeve overdrawn ''s''))"

definition overdraft_row :: ledger_event where
  "overdraft_row =
     (new_row ''fresh'' 0 (freeze_request unfunded_buy overdraft_reason ''c9:invariant_freeze''))\<lparr>ev_sequence := Some 5\<rparr>"

lemma buy_steps:
  "reroute_if_sleeve_closed sample_sleeves unfunded_buy = unfunded_buy" "\<not> needs_cost_basis unfunded_buy"
  "store_append list_store sample_rows (fill_request unfunded_buy) = Inr (sample_rows @ [buy_row], buy_row, True)"
  "check_sleeve_invariants (get_sleeve overdrawn ''s'') \<noteq> []"
  "find_sleeve sample_sleeves ''t'' ''s'' = Some (sleeve_of STRATEGY ''s'')"
  by code_simp+

lemma buy_frozen:
  "store_append list_store (sample_rows @ [buy_row]) (freeze_request unfunded_buy overdraft_reason ''c9:invariant_freeze'') =
     Inr (sample_rows @ [buy_row, overdraft_row], overdraft_row, True)"
  by code_simp

lemma buy_projected:
  "project_account_incremental (memory_projector 0) (sample_rows @ [buy_row]) [] [] ''t'' ''a'' False = Inr ([], [], overdrawn)"
proof -
  have "read_account_events_since (\<lambda>rs. rs) (sample_rows @ [buy_row]) ''t'' ''a'' 0 =
      read_account_events (\<lambda>rs. rs) (sample_rows @ [buy_row]) ''t'' ''a''"
    by code_simp
  then show ?thesis
    by (simp add: project_account_incremental_def seed_checkpoint_def load_checkpoint_def seed_parts_def
        overdrawn_def store_project_def project_account_def fold_account_def)
qed

lemma unfunded_buy_booked:
  "persist_append list_store (memory_projector 0) sample_rows ingest_start unfunded_buy =
     Inr (sample_rows @ [buy_row, overdraft_row],
          ingest_start\<lparr>is_sleeves := set_sleeve_status sample_sleeves ''s'' FROZEN\<rparr>)"
proof -
  have f: "la_tenant unfunded_buy = ''t''" "la_account unfunded_buy = ''a''" "la_sleeve unfunded_buy = ''s''"
      "la_type unfunded_buy = ORDER_FILLED" "la_event_id unfunded_buy = ''c9''"
      "is_cache ingest_start = []" "is_table ingest_start = []" "is_sleeves ingest_start = sample_sleeves"
    by (simp_all add: unfunded_buy_def ingest_start_def)
  show ?thesis
    unfolding persist_append_def freeze_if_invariant_violated_def Let_def f
    by (simp add: buy_steps buy_projected f buy_frozen [unfolded overdraft_reason_def] sleeve_of_def)
qed

theorem booked_fill_healthy_or_frozen_witness:
  "let s = la_sleeve (reroute_if_sleeve_closed (is_sleeves ingest_start) unfunded_buy) in
     case find_sleeve (is_sleeves (ingest_start\<lparr>is_sleeves := set_sleeve_status sample_sleeves ''s'' FROZEN\<rparr>))
       (la_tenant unfunded_buy) s of
       None \<Rightarrow> True
     | Some row \<Rightarrow> sr_status row = FROZEN \<or>
         healthy_sleeve (get_sleeve (store_project list_store (sample_rows @ [buy_row, overdraft_row])
           (la_tenant unfunded_buy) (la_account unfunded_buy)) s)"
proof (rule booked_fill_healthy_or_frozen [OF list_store_laws _ _ _ _ _ _ unfunded_buy_booked])
  show "store_ok (se_rows list_store sample_rows)" using sample_store_ok by simp
  show "jsonb_laws (pe_jsonb (memory_projector 0))" by (simp add: jsonb_laws_id)
  show "caches_ok (memory_projector 0) sample_rows (is_cache ingest_start) (is_table ingest_start)"
    by (simp add: ingest_start_def caches_ok_empty)
  show "length (filter closing (read_account_events (se_rows list_store) sample_rows (la_tenant unfunded_buy)
      (la_account unfunded_buy))) < terminal_tracked" by code_simp
qed (simp_all add: unfunded_buy_def)

text \<open>
  A fill whose quantity is no number is neither booked nor parked: the handler asks for a retry in
  every state of the store.
\<close>

lemma unreadable_fill_retried:
  "fill_to_append ienv fill = Inr app \<Longrightarrow> decimal_of_text (lf_qty fill) = Inl e \<Longrightarrow>
   handle_entry ienv env penv db st (Fill fill) = (db, st, Retry)"
  by (rule unreadable_retried)

section \<open>The reconciliation task\<close>

lemma length_run_passes: "length (run_passes t n s ps) = length ps"
  by (induction ps arbitrary: s) (simp_all split: prod.split)

lemma passes_nth:
  assumes "list_all (proper_pass a) ps" "i < length ps"
  shows "a \<in> set (run_passes t n [] ps ! i) \<longleftrightarrow> fires t n 0 (map (\<lambda>p. reading p a) ps) ! i"
  using arg_cong [OF passes_fire [OF assms(1), of t n "[]"], of "\<lambda>xs. xs ! i"] assms(2)
  by (simp add: length_run_passes dict_get_def)

text \<open>
  C26. An account is never halted for cash drift without cause: when a pass names it as a candidate,
  its last readings - as many as the sustain count - all exceeded the threshold, unreadable passes
  not counting.
\<close>

theorem halt_has_cause:
  assumes "list_all (proper_pass a) passes" "0 < n" "i < length passes" "a \<in> set (run_passes t n [] passes ! i)"
  shows "n \<le> int (length (takeWhile (exceeds t) (rev (seen_values (map (\<lambda>p. reading p a) (take (Suc i) passes))))))"
  using fires_sound [of n i "map (\<lambda>p. reading p a) passes" t 0 "[]"] passes_nth [OF assms(1,3)] assms
  by (simp add: take_map)

definition pass_of :: "decimal option \<Rightarrow> recon_result list" where
  "pass_of x = [\<lparr>rr_account = ''a'', rr_drifts = [], rr_error = None, rr_skipped = False, rr_cash_drift = x\<rparr>]"

definition drifting_passes :: "recon_result list list" where
  "drifting_passes = map pass_of [Some (Dec 5 0), None, Some (Dec (- 7) 0), Some (Dec 9 0)]"

lemma drifting_facts:
  "list_all (proper_pass ''a'') drifting_passes" "length drifting_passes = 4"
  "''a'' \<in> set (run_passes (Dec 1 0) 3 [] drifting_passes ! 3)"
  "seen_values (map (\<lambda>p. reading p ''a'') drifting_passes) = [Dec 5 0, Dec (- 7) 0, Dec 9 0]"
  "exceeds (Dec 1 0) (Dec 5 0)" "exceeds (Dec 1 0) (Dec (- 7) 0)" "exceeds (Dec 1 0) (Dec 9 0)"
  by code_simp+

theorem halt_has_cause_witness:
  "3 \<le> int (length (takeWhile (exceeds (Dec 1 0))
     (rev (seen_values (map (\<lambda>p. reading p ''a'') (take (Suc 3) drifting_passes))))))"
  by (rule halt_has_cause) (simp_all add: drifting_facts)

text \<open>
  C21. Sustained cash drift is always caught: whenever the readings of some stretch of passes all
  exceed the threshold and there are as many of them as the sustain count, a pass of that stretch
  names the account as a candidate to freeze.
\<close>

theorem drift_is_caught:
  assumes "list_all (proper_pass a) (pre @ mid)" "0 < n"
    and "list_all (exceeds t) (seen_values (map (\<lambda>p. reading p a) mid))"
    and "n \<le> int (length (seen_values (map (\<lambda>p. reading p a) mid)))"
  shows "\<exists>i. length pre \<le> i \<and> i < length (pre @ mid) \<and> a \<in> set (run_passes t n [] (pre @ mid) ! i)"
proof -
  let ?f = "fires t n 0 (map (\<lambda>p. reading p a) (pre @ mid))"
  have "True \<in> set (drop (length pre) ?f)"
    using fires_complete [of t "map (\<lambda>p. reading p a) mid" n 0 "map (\<lambda>p. reading p a) pre"] assms(2-4) by simp
  then obtain j where j: "j < length (drop (length pre) ?f)" "drop (length pre) ?f ! j" by (metis in_set_conv_nth)
  then have "length pre + j < length (pre @ mid)" "?f ! (length pre + j)" by simp_all
  then show ?thesis using passes_nth [OF assms(1)] by (intro exI [of _ "length pre + j"]) simp
qed

theorem drift_is_caught_witness:
  "\<exists>i. length [pass_of None] \<le> i \<and> i < length ([pass_of None] @ drifting_passes) \<and>
     ''a'' \<in> set (run_passes (Dec 1 0) 3 [] ([pass_of None] @ drifting_passes) ! i)"
proof (rule drift_is_caught)
  have "proper_pass ''a'' (pass_of None)" by code_simp
  then show "list_all (proper_pass ''a'') ([pass_of None] @ drifting_passes)" by (simp add: drifting_facts)
qed (simp_all add: drifting_facts)

end
