(* ===== verification/Dsl_Syntax.thy ===== *)
theory Dsl_Syntax
  imports Payload
begin

text \<open>
  The abstract syntax of the strategy language (\<^verbatim>\<open>libs/dsl/llamatrade_dsl/ast.py\<close>): values,
  conditions and blocks with the constructors and fields of the dataclasses, and the vocabulary
  sets. Source locations are left out: they only decorate error messages. The string fields that
  Python types as literals stay strings, because the validator checks them at run time.

  Python floats are a type parameter \<open>'f\<close>; what the library does with them is the record
  \<open>float_ops\<close>: reading a numeral (\<^verbatim>\<open>float(text)\<close>), truncation (\<^verbatim>\<open>int(x)\<close>, which
  raises for an infinity), comparison with an integer, \<^verbatim>\<open>str(x)\<close> and conversion of an integer,
  and what the validator uses: \<^verbatim>\<open>sum\<close>, the tests \<^verbatim>\<open>abs(x - y) <= 0.01\<close> and
  \<^verbatim>\<open>abs(x - y) > 0.01\<close> (both false for a NaN) and \<^verbatim>\<open>x <= 0\<close>.
\<close>

section \<open>Floats\<close>

record 'f float_ops =
  fl_of_text :: "string \<Rightarrow> 'f"
  fl_int :: "'f \<Rightarrow> int result"
  fl_is :: "'f \<Rightarrow> int \<Rightarrow> bool"
  fl_str :: "'f \<Rightarrow> string"
  fl_of_int :: "int \<Rightarrow> 'f"
  fl_sum :: "'f list \<Rightarrow> 'f"
  fl_near :: "'f \<Rightarrow> 'f \<Rightarrow> bool"
  fl_far :: "'f \<Rightarrow> 'f \<Rightarrow> bool"
  fl_nonpos :: "'f \<Rightarrow> bool"

section \<open>Values, conditions, blocks\<close>

datatype 'f param = PInt int | PFloat 'f

datatype 'f dsl_value =
    NumericLiteral 'f
  | Price string string
  | Indicator string string "'f param list" "string option"
  | Metric string string "int option"

datatype 'f condition =
    Comparison string "'f dsl_value" "'f dsl_value"
  | Crossover string "'f dsl_value" "'f dsl_value"
  | LogicalOp string "'f condition list"

record strategy_attrs =
  at_rebalance :: "string option"
  at_benchmark :: "string option"
  at_description :: "string option"

datatype 'f block =
    StrategyB string "'f block list" strategy_attrs
  | GroupB string "'f block list" "'f option"
  | WeightB string "'f block list" "int option" "int option"
  | AssetB string "'f option"
  | IfB "'f condition" "'f block" "'f block option"
  | FilterB string string int "'f block list" "int option"

section \<open>Vocabulary\<close>

definition rebalance_frequencies :: "string list" where
  "rebalance_frequencies = [''daily'', ''weekly'', ''monthly'', ''quarterly'', ''annually'']"

definition weight_methods :: "string list" where
  "weight_methods =
     [''specified'', ''equal'', ''momentum'', ''inverse-volatility'', ''min-variance'', ''market-cap'',
      ''risk-parity'']"

definition filter_criteria :: "string list" where
  "filter_criteria = [''momentum'', ''volatility'', ''volume'']"

definition comparison_ops :: "string list" where
  "comparison_ops = [''>'', ''<'', ''>='', ''<='', ''='', ''!='']"

definition logical_ops :: "string list" where
  "logical_ops = [''and'', ''or'', ''not'']"

definition crossover_ops :: "string list" where
  "crossover_ops = [''crosses-above'', ''crosses-below'']"

definition indicators :: "string list" where
  "indicators =
     [''sma'', ''ema'', ''rsi'', ''macd'', ''atr'', ''adx'', ''bbands'', ''stoch'', ''cci'', ''obv'', ''vwap'',
      ''mfi'', ''williams-r'', ''keltner'', ''donchian'', ''stddev'', ''momentum'']"

definition metrics :: "string list" where
  "metrics = [''drawdown'', ''return'', ''volatility'']"

definition price_fields :: "string list" where
  "price_fields = [''close'', ''open'', ''high'', ''low'', ''volume'']"

lemmas vocabulary = rebalance_frequencies_def weight_methods_def filter_criteria_def comparison_ops_def
  logical_ops_def crossover_ops_def indicators_def metrics_def price_fields_def

section \<open>Characters and replacement\<close>

abbreviation quote_char :: char where "quote_char \<equiv> CHR 0x22"
abbreviation back_slash :: char where "back_slash \<equiv> CHR 0x5C"
abbreviation new_line :: char where "new_line \<equiv> CHR 0x0A"

text \<open>\<^verbatim>\<open>s.replace(old, new)\<close> for a non-empty \<open>old\<close>: left to right, without overlap.\<close>

function py_replace :: "string \<Rightarrow> string \<Rightarrow> string \<Rightarrow> string" where
  "py_replace old new [] = []"
| "py_replace old new (c # s) =
     (if old \<noteq> [] \<and> take (length old) (c # s) = old
      then new @ py_replace old new (drop (length old) (c # s))
      else c # py_replace old new s)"
  by pat_completeness auto
termination
  by (relation "measure (\<lambda>(old, new, s). length s)") auto

end
