(* ===== verification/Dsl_Parser.thy ===== *)
theory Dsl_Parser
  imports Dsl_Syntax
begin

text \<open>
  The tokenizer and the recursive-descent parser (\<^verbatim>\<open>parser.py\<close>). The token pattern is a
  deterministic scan, one alternative after the other; what no alternative matches is skipped, one
  character at a time, as \<^verbatim>\<open>finditer\<close> does. A parser method takes the remaining tokens and
  returns its node with the tokens left. Nested blocks and conditions are parsed with a recursion
  budget; running out of it would be Python's \<^verbatim>\<open>RecursionError\<close>. The budget that
  \<open>parse\<close> takes, twice the number of tokens, is always enough (\<open>parse_source_error\<close>).
\<close>

section \<open>Tokens\<close>

datatype token_kind = LPAREN | RPAREN | STRING | KEYWORD | NUMBER | OPERATOR | SYMBOL | SKIP | COMMENT

type_synonym token = "token_kind \<times> string"

definition is_letter :: "char \<Rightarrow> bool" where
  "is_letter c \<longleftrightarrow> (let n = of_char c :: nat in 65 \<le> n \<and> n \<le> 90 \<or> 97 \<le> n \<and> n \<le> 122)"

definition is_head :: "char \<Rightarrow> bool" where
  "is_head c \<longleftrightarrow> is_letter c \<or> c = CHR ''_''"

definition is_word :: "char \<Rightarrow> bool" where
  "is_word c \<longleftrightarrow> is_head c \<or> is_digit c \<or> c = CHR ''-''"

text \<open>The body of a string literal up to and including the closing quote.\<close>

fun scan_string :: "string \<Rightarrow> (string \<times> string) option" where
  "scan_string [] = None"
| "scan_string (c # s) =
     (if c = quote_char then Some ([c], s)
      else if c = back_slash then
        (case s of [] \<Rightarrow> None
         | d # t \<Rightarrow> if d = new_line then None
                    else map_option (\<lambda>(body, rest). (c # d # body, rest)) (scan_string t))
      else map_option (\<lambda>(body, rest). (c # body, rest)) (scan_string s))"

definition scan_number :: "string \<Rightarrow> (string \<times> string) option" where
  "scan_number s =
     (let sign = (if take 1 s = ''-'' then ''-'' else []);
          u = drop (length sign) s;
          ds = takeWhile is_digit u; v = dropWhile is_digit u
      in if ds = [] then None
         else if take 1 v = ''.''
         then Some (sign @ ds @ ''.'' @ takeWhile is_digit (tl v), dropWhile is_digit (tl v))
         else Some (sign @ ds, v))"

definition operators :: "string list" where
  "operators =
     [''>='', ''<='', ''!='', ''crosses-above'', ''crosses-below'', ''>'', ''<'', ''+'', ''-'', ''*'', ''/'', ''='']"

definition scan_operator :: "string \<Rightarrow> (string \<times> string) option" where
  "scan_operator s =
     map_option (\<lambda>w. (w, drop (length w) s)) (find (\<lambda>w. take (length w) s = w) operators)"

definition scan_word :: "string \<Rightarrow> string \<times> string" where
  "scan_word s = (takeWhile is_word s, dropWhile is_word s)"

definition next_token :: "string \<Rightarrow> (token \<times> string) option" where
  "next_token s =
     (case s of [] \<Rightarrow> None
      | c # t \<Rightarrow>
          if c = CHR ''('' then Some ((LPAREN, [c]), t)
          else if c = CHR '')'' then Some ((RPAREN, [c]), t)
          else if c = quote_char \<and> scan_string t \<noteq> None
          then map_option (\<lambda>(body, rest). ((STRING, c # body), rest)) (scan_string t)
          else if c = CHR '':'' \<and> t \<noteq> [] \<and> is_head (hd t)
          then (case scan_word t of (w, rest) \<Rightarrow> Some ((KEYWORD, c # w), rest))
          else if scan_number s \<noteq> None
          then map_option (\<lambda>(w, rest). ((NUMBER, w), rest)) (scan_number s)
          else if scan_operator s \<noteq> None
          then map_option (\<lambda>(w, rest). ((OPERATOR, w), rest)) (scan_operator s)
          else if is_head c \<or> c = CHR ''$''
          then (case scan_word t of (w, rest) \<Rightarrow> Some ((SYMBOL, c # w), rest))
          else if is_space c then Some ((SKIP, takeWhile is_space s), dropWhile is_space s)
          else if c = CHR '';''
          then Some ((COMMENT, takeWhile (\<lambda>d. d \<noteq> new_line) s), dropWhile (\<lambda>d. d \<noteq> new_line) s)
          else None)"

lemma length_dropWhile_less: "s \<noteq> [] \<Longrightarrow> P (hd s) \<Longrightarrow> length (dropWhile P s) < length s"
  by (cases s) (auto intro: le_imp_less_Suc length_dropWhile_le)

lemma scan_string_shorter: "scan_string s = Some (body, rest) \<Longrightarrow> length rest < length s"
  by (induction s arbitrary: body rest rule: scan_string.induct) (fastforce split: if_splits list.splits)+

lemma scan_number_shorter: "scan_number s = Some (w, rest) \<Longrightarrow> length rest < length s"
proof -
  assume a: "scan_number s = Some (w, rest)"
  define u where "u = drop (length (if take 1 s = ''-'' then ''-'' else [])) s"
  have u: "takeWhile is_digit u \<noteq> []" "rest = dropWhile is_digit u \<or> rest = dropWhile is_digit (tl (dropWhile is_digit u))"
    using a by (auto simp: scan_number_def Let_def u_def split: if_splits)
  then have "length (dropWhile is_digit u) < length u" by (cases u) (auto split: if_splits intro: le_imp_less_Suc length_dropWhile_le)
  moreover have "length (dropWhile is_digit (tl (dropWhile is_digit u))) \<le> length (dropWhile is_digit u)"
    by (rule order_trans [OF length_dropWhile_le]) simp
  moreover have "length u \<le> length s" by (simp add: u_def)
  ultimately show ?thesis using u(2) by auto
qed

lemma scan_operator_shorter:
  assumes "scan_operator s = Some (w, rest)"
  shows "length rest < length s"
proof -
  from assms have w: "w \<in> set operators" "take (length w) s = w" "rest = drop (length w) s"
    by (auto simp: scan_operator_def find_Some_iff)
  then have "w \<noteq> []" by (auto simp: operators_def)
  with w show ?thesis by (cases s) auto
qed

lemma next_token_shorter: "next_token s = Some (t, rest) \<Longrightarrow> length rest < length s"
  by (auto simp: next_token_def scan_word_def split: list.splits if_splits
      dest: scan_string_shorter scan_number_shorter scan_operator_shorter
      intro: le_imp_less_Suc length_dropWhile_le)

function tokenize :: "string \<Rightarrow> token list" where
  "tokenize [] = []"
| "tokenize (c # s) =
     (case next_token (c # s) of
        None \<Rightarrow> tokenize s
      | Some (t, rest) \<Rightarrow> if fst t \<in> {SKIP, COMMENT} then tokenize rest else t # tokenize rest)"
  by pat_completeness auto
termination
  by (relation "measure length") (use next_token_shorter in \<open>fastforce+\<close>)

section \<open>Nesting\<close>

definition max_nesting :: nat where
  "max_nesting = 150"

fun check_nesting :: "nat \<Rightarrow> token list \<Rightarrow> unit result" where
  "check_nesting depth [] = Inr ()"
| "check_nesting depth ((k, v) # ts) =
     (if k = LPAREN then if max_nesting < depth + 1 then Inl ParseError else check_nesting (depth + 1) ts
      else if k = RPAREN then check_nesting (depth - 1) ts
      else check_nesting depth ts)"

section \<open>Primitives\<close>

fun expect :: "token_kind \<Rightarrow> token list \<Rightarrow> (string \<times> token list) result" where
  "expect kind [] = Inl ParseError"
| "expect kind ((k, v) # ts) = (if k \<noteq> kind then Inl ParseError else Inr (v, ts))"

fun expect_symbol :: "string \<Rightarrow> token list \<Rightarrow> token list result" where
  "expect_symbol w [] = Inl ParseError"
| "expect_symbol w ((k, v) # ts) = (if k \<noteq> SYMBOL \<or> v \<noteq> w then Inl ParseError else Inr ts)"

fun expect_keyword :: "string \<Rightarrow> token list \<Rightarrow> token list result" where
  "expect_keyword w [] = Inl ParseError"
| "expect_keyword w ((k, v) # ts) = (if k \<noteq> KEYWORD \<or> v \<noteq> '':'' @ w then Inl ParseError else Inr ts)"

fun peek_keyword :: "token list \<Rightarrow> string option" where
  "peek_keyword ((k, v) # ts) = (if k = KEYWORD then Some (tl v) else None)"
| "peek_keyword [] = None"

definition unescape :: "string \<Rightarrow> string" where
  "unescape s =
     py_replace [back_slash, back_slash] [back_slash]
       (py_replace [back_slash, CHR ''n''] [new_line]
         (py_replace [back_slash, quote_char] [quote_char] s))"

text \<open>\<open>butlast (tl v)\<close> is \<^verbatim>\<open>tok[1][1:-1]\<close>.\<close>

definition parse_string :: "token list \<Rightarrow> (string \<times> token list) result" where
  "parse_string ts = bindR (expect STRING ts) (\<lambda>(v, rest). Inr (unescape (butlast (tl v)), rest))"

definition parse_int :: "token list \<Rightarrow> (int \<times> token list) result" where
  "parse_int ts = bindR (expect NUMBER ts) (\<lambda>(v, rest). bindR (int_of_text v) (\<lambda>n. Inr (n, rest)))"

definition parse_float :: "'f float_ops \<Rightarrow> token list \<Rightarrow> ('f \<times> token list) result" where
  "parse_float ops ts = bindR (expect NUMBER ts) (\<lambda>(v, rest). Inr (fl_of_text ops v, rest))"

text \<open>The optional \<^verbatim>\<open>:weight N\<close> of an asset and of a group.\<close>

definition parse_opt_weight :: "'f float_ops \<Rightarrow> token list \<Rightarrow> ('f option \<times> token list) result" where
  "parse_opt_weight ops ts =
     (if peek_keyword ts = Some ''weight''
      then bindR (parse_float ops (tl ts)) (\<lambda>(w, rest). Inr (Some w, rest))
      else Inr (None, ts))"

section \<open>Values\<close>

definition parse_price_rest :: "token list \<Rightarrow> ('f dsl_value \<times> token list) result" where
  "parse_price_rest ts =
     bindR (expect SYMBOL ts) (\<lambda>(symbol, ts1).
       let (fld, ts2) = (case peek_keyword ts1 of
             Some kw \<Rightarrow> if kw \<in> set price_fields then (kw, tl ts1) else (''close'', ts1)
           | None \<Rightarrow> (''close'', ts1))
       in bindR (expect RPAREN ts2) (\<lambda>(_, rest). Inr (Price symbol fld, rest)))"

fun parse_params :: "'f float_ops \<Rightarrow> token list \<Rightarrow> ('f param list \<times> token list) result" where
  "parse_params ops [] = Inr ([], [])"
| "parse_params ops ((k, v) # ts) =
     (if k \<noteq> NUMBER then Inr ([], (k, v) # ts)
      else bindR (if CHR ''.'' \<in> set v then Inr (PFloat (fl_of_text ops v))
                  else bindR (int_of_text v) (\<lambda>n. Inr (PInt n))) (\<lambda>p.
           bindR (parse_params ops ts) (\<lambda>(ps, rest). Inr (p # ps, rest))))"

definition parse_indicator_rest :: "'f float_ops \<Rightarrow> string \<Rightarrow> token list \<Rightarrow> ('f dsl_value \<times> token list) result" where
  "parse_indicator_rest ops name ts =
     bindR (expect SYMBOL ts) (\<lambda>(symbol, ts1).
     bindR (parse_params ops ts1) (\<lambda>(params, ts2).
       let (out, ts3) = (case peek_keyword ts2 of Some kw \<Rightarrow> (Some kw, tl ts2) | None \<Rightarrow> (None, ts2))
       in bindR (expect RPAREN ts3) (\<lambda>(_, rest). Inr (Indicator name symbol params out, rest))))"

definition parse_metric_rest :: "string \<Rightarrow> token list \<Rightarrow> ('f dsl_value \<times> token list) result" where
  "parse_metric_rest name ts =
     bindR (expect SYMBOL ts) (\<lambda>(symbol, ts1).
     bindR (case ts1 of (NUMBER, v) # ts2 \<Rightarrow> bindR (int_of_text v) (\<lambda>n. Inr (Some n, ts2)) | _ \<Rightarrow> Inr (None, ts1))
       (\<lambda>(period, ts2). bindR (expect RPAREN ts2) (\<lambda>(_, rest). Inr (Metric name symbol period, rest))))"

definition parse_value :: "'f float_ops \<Rightarrow> token list \<Rightarrow> ('f dsl_value \<times> token list) result" where
  "parse_value ops ts =
     (case ts of [] \<Rightarrow> Inl ParseError
      | (k, v) # ts1 \<Rightarrow>
          if k = NUMBER then Inr (NumericLiteral (fl_of_text ops v), ts1)
          else bindR (expect LPAREN ts) (\<lambda>(_, ts2).
               bindR (expect SYMBOL ts2) (\<lambda>(fn, ts3).
                 if fn = ''price'' then parse_price_rest ts3
                 else if fn \<in> set indicators then parse_indicator_rest ops fn ts3
                 else if fn \<in> set metrics then parse_metric_rest fn ts3
                 else Inl ParseError)))"

section \<open>Conditions\<close>

definition parse_pair :: "'f float_ops \<Rightarrow> token list \<Rightarrow> (('f dsl_value \<times> 'f dsl_value) \<times> token list) result" where
  "parse_pair ops ts =
     bindR (parse_value ops ts) (\<lambda>(l, ts1).
     bindR (parse_value ops ts1) (\<lambda>(r, ts2).
     bindR (expect RPAREN ts2) (\<lambda>(_, rest). Inr ((l, r), rest))))"

definition parse_operator :: "token list \<Rightarrow> (string \<times> token list) result" where
  "parse_operator ts =
     (case ts of [] \<Rightarrow> Inl ParseError
      | (k, v) # rest \<Rightarrow> if k = OPERATOR \<or> k = SYMBOL then Inr (v, rest) else Inl ParseError)"

fun parse_condition :: "'f float_ops \<Rightarrow> nat \<Rightarrow> token list \<Rightarrow> ('f condition \<times> token list) result"
  and parse_operands :: "'f float_ops \<Rightarrow> nat \<Rightarrow> token list \<Rightarrow> ('f condition list \<times> token list) result" where
  "parse_condition ops 0 ts = Inl RecursionError"
| "parse_condition ops (Suc n) ts =
     bindR (expect LPAREN ts) (\<lambda>(_, ts1).
     bindR (parse_operator ts1) (\<lambda>(op, ts2).
       if op \<in> set comparison_ops
       then bindR (parse_pair ops ts2) (\<lambda>((l, r), rest). Inr (Comparison op l r, rest))
       else if op \<in> set crossover_ops
       then bindR (parse_pair ops ts2) (\<lambda>((l, r), rest).
              Inr (Crossover (if op = ''crosses-above'' then ''above'' else ''below'') l r, rest))
       else if op \<in> set logical_ops
       then bindR (parse_operands ops n ts2) (\<lambda>(operands, ts3).
            bindR (expect RPAREN ts3) (\<lambda>(_, rest). Inr (LogicalOp op operands, rest)))
       else Inl ParseError))"
| "parse_operands ops 0 ts = Inl RecursionError"
| "parse_operands ops (Suc n) ts =
     (case ts of [] \<Rightarrow> Inr ([], ts)
      | t # _ \<Rightarrow>
          if fst t = RPAREN then Inr ([], ts)
          else bindR (parse_condition ops n ts) (\<lambda>(c, ts1).
               bindR (parse_operands ops n ts1) (\<lambda>(cs, rest). Inr (c # cs, rest))))"

text \<open>The budget of a recursive parser on the tokens left.\<close>

definition budget :: "token list \<Rightarrow> nat" where
  "budget ts = 2 * length ts + 2"

section \<open>Blocks\<close>

type_synonym 'f children_parser = "token list \<Rightarrow> ('f block list \<times> token list) result"

definition parse_group ::
  "'f float_ops \<Rightarrow> 'f children_parser \<Rightarrow> token list \<Rightarrow> ('f block \<times> token list) result" where
  "parse_group ops kids ts =
     bindR (expect LPAREN ts) (\<lambda>(_, ts1).
     bindR (expect_symbol ''group'' ts1) (\<lambda>ts2.
     bindR (parse_string ts2) (\<lambda>(name, ts3).
     bindR (parse_opt_weight ops ts3) (\<lambda>(w, ts4).
     bindR (kids ts4) (\<lambda>(children, ts5).
     bindR (expect RPAREN ts5) (\<lambda>(_, rest). Inr (GroupB name children w, rest)))))))"

text \<open>The loop over \<^verbatim>\<open>:lookback\<close> and \<^verbatim>\<open>:top\<close>.\<close>

fun parse_weight_options ::
  "int option \<Rightarrow> int option \<Rightarrow> token list \<Rightarrow> ((int option \<times> int option) \<times> token list) result" where
  "parse_weight_options lookback topn ((k, v) # ts) =
     (if k = KEYWORD \<and> (tl v = ''lookback'' \<or> tl v = ''top'')
      then (case ts of
              (NUMBER, w) # ts1 \<Rightarrow>
                bindR (int_of_text w) (\<lambda>n.
                  if tl v = ''lookback'' then parse_weight_options (Some n) topn ts1
                  else parse_weight_options lookback (Some n) ts1)
            | _ \<Rightarrow> Inl ParseError)
      else Inr ((lookback, topn), (k, v) # ts))"
| "parse_weight_options lookback topn [] = Inr ((lookback, topn), [])"

definition parse_member :: "string list \<Rightarrow> token list \<Rightarrow> (string \<times> token list) result" where
  "parse_member vocab ts =
     bindR (expect SYMBOL ts) (\<lambda>(v, rest). if v \<in> set vocab then Inr (v, rest) else Inl ParseError)"

definition parse_weight :: "'f children_parser \<Rightarrow> token list \<Rightarrow> ('f block \<times> token list) result" where
  "parse_weight kids ts =
     bindR (expect LPAREN ts) (\<lambda>(_, ts1).
     bindR (expect_symbol ''weight'' ts1) (\<lambda>ts2.
     bindR (expect_keyword ''method'' ts2) (\<lambda>ts3.
     bindR (parse_member weight_methods ts3) (\<lambda>(meth, ts4).
     bindR (parse_weight_options None None ts4) (\<lambda>((lookback, topn), ts5).
     bindR (kids ts5) (\<lambda>(children, ts6).
     bindR (expect RPAREN ts6) (\<lambda>(_, rest). Inr (WeightB meth children lookback topn, rest))))))))"

definition parse_asset :: "'f float_ops \<Rightarrow> token list \<Rightarrow> ('f block \<times> token list) result" where
  "parse_asset ops ts =
     bindR (expect LPAREN ts) (\<lambda>(_, ts1).
     bindR (expect_symbol ''asset'' ts1) (\<lambda>ts2.
     bindR (expect SYMBOL ts2) (\<lambda>(symbol, ts3).
     bindR (parse_opt_weight ops ts3) (\<lambda>(w, ts4).
     bindR (expect RPAREN ts4) (\<lambda>(_, rest). Inr (AssetB symbol w, rest))))))"

definition parse_else ::
  "(token list \<Rightarrow> ('f block \<times> token list) result) \<Rightarrow> token list \<Rightarrow> ('f block option \<times> token list) result" where
  "parse_else blk ts =
     (case ts of
        (LPAREN, p) # (k, v) # ts1 \<Rightarrow>
          if v = ''else''
          then bindR (expect_symbol ''else'' ((k, v) # ts1)) (\<lambda>ts2.
               bindR (blk ts2) (\<lambda>(else_block, ts3).
               bindR (expect RPAREN ts3) (\<lambda>(_, rest). Inr (Some else_block, rest))))
          else Inr (None, ts)
      | _ \<Rightarrow> Inr (None, ts))"

definition parse_if ::
  "'f float_ops \<Rightarrow> (token list \<Rightarrow> ('f block \<times> token list) result) \<Rightarrow> token list \<Rightarrow> ('f block \<times> token list) result" where
  "parse_if ops blk ts =
     bindR (expect LPAREN ts) (\<lambda>(_, ts1).
     bindR (expect_symbol ''if'' ts1) (\<lambda>ts2.
     bindR (parse_condition ops (budget ts2) ts2) (\<lambda>(cond, ts3).
     bindR (blk ts3) (\<lambda>(then_block, ts4).
     bindR (parse_else blk ts4) (\<lambda>(else_block, ts9).
     bindR (expect RPAREN ts9) (\<lambda>(_, rest). Inr (IfB cond then_block else_block, rest)))))))"

definition parse_opt_lookback :: "token list \<Rightarrow> (int option \<times> token list) result" where
  "parse_opt_lookback ts =
     (if peek_keyword ts = Some ''lookback''
      then bindR (parse_int (tl ts)) (\<lambda>(n, rest). Inr (Some n, rest))
      else Inr (None, ts))"

definition parse_filter :: "'f children_parser \<Rightarrow> token list \<Rightarrow> ('f block \<times> token list) result" where
  "parse_filter kids ts =
     bindR (expect LPAREN ts) (\<lambda>(_, ts1).
     bindR (expect_symbol ''filter'' ts1) (\<lambda>ts2.
     bindR (expect_keyword ''by'' ts2) (\<lambda>ts3.
     bindR (parse_member filter_criteria ts3) (\<lambda>(crit, ts4).
     bindR (expect_keyword ''select'' ts4) (\<lambda>ts5.
     bindR (expect LPAREN ts5) (\<lambda>(_, ts6).
     bindR (parse_member [''top'', ''bottom''] ts6) (\<lambda>(dir, ts7).
     bindR (parse_int ts7) (\<lambda>(cnt, ts8).
     bindR (expect RPAREN ts8) (\<lambda>(_, ts9).
     bindR (parse_opt_lookback ts9) (\<lambda>(lookback, ts10).
     bindR (kids ts10) (\<lambda>(children, ts11).
     bindR (expect RPAREN ts11) (\<lambda>(_, rest). Inr (FilterB crit dir cnt children lookback, rest)))))))))))))"

fun parse_block :: "'f float_ops \<Rightarrow> nat \<Rightarrow> token list \<Rightarrow> ('f block \<times> token list) result"
  and parse_children :: "'f float_ops \<Rightarrow> nat \<Rightarrow> token list \<Rightarrow> ('f block list \<times> token list) result" where
  "parse_block ops 0 ts = Inl RecursionError"
| "parse_block ops (Suc n) ts =
     (case ts of
        (LPAREN, p) # (SYMBOL, ty) # ts2 \<Rightarrow>
          if ty = ''group'' then parse_group ops (parse_children ops n) ts
          else if ty = ''weight'' then parse_weight (parse_children ops n) ts
          else if ty = ''asset'' then parse_asset ops ts
          else if ty = ''if'' then parse_if ops (parse_block ops n) ts
          else if ty = ''filter'' then parse_filter (parse_children ops n) ts
          else Inl ParseError
      | _ \<Rightarrow> Inl ParseError)"
| "parse_children ops 0 ts = Inl RecursionError"
| "parse_children ops (Suc n) ts =
     (case ts of [] \<Rightarrow> Inr ([], ts)
      | t # _ \<Rightarrow>
          if fst t = RPAREN then Inr ([], ts)
          else bindR (parse_block ops n ts) (\<lambda>(b, ts1).
               bindR (parse_children ops n ts1) (\<lambda>(bs, rest). Inr (b # bs, rest))))"

fun parse_attrs :: "strategy_attrs \<Rightarrow> token list \<Rightarrow> (strategy_attrs \<times> token list) result" where
  "parse_attrs a [] = Inr (a, [])"
| "parse_attrs a ((k, v) # ts) =
     (if k = KEYWORD \<and> tl v \<in> {''rebalance'', ''benchmark'', ''description''}
      then (case ts of [] \<Rightarrow> Inl ParseError
            | (k1, w) # ts1 \<Rightarrow>
                if tl v = ''rebalance''
                then if k1 = SYMBOL \<and> w \<in> set rebalance_frequencies
                     then parse_attrs (a\<lparr>at_rebalance := Some w\<rparr>) ts1 else Inl ParseError
                else if tl v = ''benchmark''
                then if k1 = SYMBOL then parse_attrs (a\<lparr>at_benchmark := Some w\<rparr>) ts1 else Inl ParseError
                else if k1 = STRING
                then parse_attrs (a\<lparr>at_description := Some (unescape (butlast (tl w)))\<rparr>) ts1 else Inl ParseError)
      else Inr (a, (k, v) # ts))"

definition no_attrs :: strategy_attrs where
  "no_attrs = \<lparr>at_rebalance = None, at_benchmark = None, at_description = None\<rparr>"

definition parse_strategy_block :: "'f float_ops \<Rightarrow> token list \<Rightarrow> ('f block \<times> token list) result" where
  "parse_strategy_block ops ts =
     bindR (expect LPAREN ts) (\<lambda>(_, ts1).
     bindR (expect_symbol ''strategy'' ts1) (\<lambda>ts2.
     bindR (parse_string ts2) (\<lambda>(name, ts3).
     bindR (parse_attrs no_attrs ts3) (\<lambda>(a, ts4).
     bindR (parse_children ops (budget ts4) ts4) (\<lambda>(children, ts5).
     bindR (expect RPAREN ts5) (\<lambda>(_, rest). Inr (StrategyB name children a, rest)))))))"

definition parse_source :: "'f float_ops \<Rightarrow> string \<Rightarrow> 'f block result" where
  "parse_source ops source =
     (let ts = tokenize source
      in bindR (check_nesting 0 ts) (\<lambda>_.
         if ts = [] then Inl ParseError
         else bindR (parse_strategy_block ops ts) (\<lambda>(s, rest).
                if rest \<noteq> [] then Inl ParseError else Inr s)))"

section \<open>The parser ends and raises only parse and value errors\<close>

text \<open>
  \<open>leaves m r\<close>: a parser's outcome is a parse or value error, or leaves at most \<open>m\<close> tokens. The
  rules below follow the structure of the parser methods.
\<close>

definition dsl_error :: "py_error \<Rightarrow> bool" where
  "dsl_error e \<longleftrightarrow> e = ParseError \<or> e = ValueError"

definition leaves :: "nat \<Rightarrow> ('a \<times> token list) result \<Rightarrow> bool" where
  "leaves m r = (case r of Inl e \<Rightarrow> dsl_error e | Inr (x, rest) \<Rightarrow> length rest \<le> m)"

definition shrinks :: "nat \<Rightarrow> token list result \<Rightarrow> bool" where
  "shrinks m r = (case r of Inl e \<Rightarrow> dsl_error e | Inr rest \<Rightarrow> length rest \<le> m)"

lemma leaves_Inl [intro!]: "dsl_error e \<Longrightarrow> leaves m (Inl e)"
  by (simp add: leaves_def)

lemma leaves_Inr [intro!]: "length rest \<le> m \<Longrightarrow> leaves m (Inr (x, rest))"
  by (simp add: leaves_def)

lemma parse_errors [simp]: "dsl_error ParseError" "dsl_error ValueError"
  by (simp_all add: dsl_error_def)

lemma leaves_bind:
  assumes "leaves m r" "\<And>x rest. length rest \<le> m \<Longrightarrow> leaves k (f x rest)"
  shows "leaves k (bindR r (\<lambda>(x, rest). f x rest))"
proof (cases r)
  case (Inl e)
  then show ?thesis using assms(1) by (simp add: leaves_def)
next
  case (Inr xr)
  then show ?thesis using assms by (cases xr) (simp add: leaves_def)
qed

lemma shrinks_bind:
  assumes "shrinks m r" "\<And>rest. length rest \<le> m \<Longrightarrow> leaves k (f rest)"
  shows "leaves k (bindR r f)"
  using assms by (cases r) (auto simp: shrinks_def)

lemma value_bind:
  assumes "\<And>e. r = Inl e \<Longrightarrow> dsl_error e" "\<And>x. r = Inr x \<Longrightarrow> leaves k (f x)"
  shows "leaves k (bindR r f)"
  using assms by (cases r) (auto simp: leaves_def)

lemma leaves_split: "(\<And>l r. x = (l, r) \<Longrightarrow> leaves k (f l r rest)) \<Longrightarrow> leaves k (case_prod f x rest)"
  by (cases x) auto

lemma leaves_mono: "leaves m r \<Longrightarrow> m \<le> k \<Longrightarrow> leaves k r"
  by (auto simp: leaves_def split: sum.splits prod.splits)

lemma int_of_text_error: "int_of_text s = Inl e \<Longrightarrow> dsl_error e"
  by (auto simp: int_of_text_def Let_def split: if_splits prod.splits)

lemma expect_leaves: "leaves (length ts - 1) (expect k ts)"
  by (cases ts) (auto simp: leaves_def)

lemma expect_shrinks:
  "shrinks (length ts - 1) (expect_symbol w ts)" "shrinks (length ts - 1) (expect_keyword w ts)"
  by (cases ts; auto simp: shrinks_def)+

lemma parse_string_leaves: "leaves (length ts - 1) (parse_string ts)"
  unfolding parse_string_def by (rule leaves_bind [OF expect_leaves]) auto

lemma parse_int_leaves: "leaves (length ts - 1) (parse_int ts)"
  unfolding parse_int_def by (rule leaves_bind [OF expect_leaves], rule value_bind) (auto dest: int_of_text_error)

lemma parse_float_leaves: "leaves (length ts - 1) (parse_float ops ts)"
  unfolding parse_float_def by (rule leaves_bind [OF expect_leaves]) auto

lemma parse_opt_weight_leaves: "leaves (length ts) (parse_opt_weight ops ts)"
  unfolding parse_opt_weight_def by (auto intro!: leaves_bind [OF parse_float_leaves])

lemma parse_opt_lookback_leaves: "leaves (length ts) (parse_opt_lookback ts)"
  unfolding parse_opt_lookback_def by (auto intro!: leaves_bind [OF parse_int_leaves])

lemma parse_member_leaves: "leaves (length ts - 1) (parse_member vocab ts)"
  unfolding parse_member_def by (rule leaves_bind [OF expect_leaves]) auto

lemma parse_operator_leaves: "leaves (length ts - 1) (parse_operator ts)"
  unfolding parse_operator_def by (cases ts) auto

lemma parse_price_leaves: "leaves (length ts - 1) (parse_price_rest ts)"
  unfolding parse_price_rest_def Let_def
  by (rule leaves_bind [OF expect_leaves])
    (auto intro!: leaves_bind [OF expect_leaves] split: option.splits)

lemma parse_params_leaves: "leaves (length ts) (parse_params ops ts)"
proof (induction ts)
  case (Cons t ts)
  obtain k v where t: "t = (k, v)" by (cases t)
  have "leaves (Suc (length ts)) (bindR (parse_params ops ts) (\<lambda>(ps, rest). Inr (p # ps, rest)))" for p
    by (rule leaves_bind [OF Cons.IH]) auto
  then show ?case
    unfolding t parse_params.simps using int_of_text_error
    by (cases "int_of_text v") (auto simp: leaves_Inr)
qed auto

lemma parse_indicator_leaves: "leaves (length ts - 1) (parse_indicator_rest ops name ts)"
  unfolding parse_indicator_rest_def Let_def
  by (rule leaves_bind [OF expect_leaves], rule leaves_bind [OF parse_params_leaves])
    (auto intro!: leaves_bind [OF expect_leaves] split: option.splits)

lemma parse_metric_leaves: "leaves (length ts - 1) (parse_metric_rest name ts)"
proof -
  have "leaves (length us) (case us of (NUMBER, v) # ts2 \<Rightarrow> bindR (int_of_text v) (\<lambda>n. Inr (Some n, ts2)) | _ \<Rightarrow> Inr (None, us))"
    for us :: "token list"
    by (auto split: list.split prod.split token_kind.split intro!: value_bind dest: int_of_text_error)
  then show ?thesis
    unfolding parse_metric_rest_def
    by (intro leaves_bind [OF expect_leaves]) (rule leaves_bind, assumption, rule leaves_bind [OF expect_leaves], auto)
qed

lemma parse_value_leaves: "leaves (length ts - 1) (parse_value ops ts)"
proof (cases ts)
  case (Cons t us)
  have "leaves (length us) (bindR (expect LPAREN ts) (\<lambda>(_, ts2).
      bindR (expect SYMBOL ts2) (\<lambda>(fn, ts3).
        if fn = ''price'' then parse_price_rest ts3 else if fn \<in> set indicators then parse_indicator_rest ops fn ts3
        else if fn \<in> set metrics then parse_metric_rest fn ts3 else Inl ParseError)))"
    by (rule leaves_bind [OF expect_leaves], rule leaves_bind [OF expect_leaves])
      (auto simp: Cons intro: leaves_mono [OF parse_price_leaves] leaves_mono [OF parse_indicator_leaves]
        leaves_mono [OF parse_metric_leaves])
  then show ?thesis by (auto simp: parse_value_def Cons split: prod.split)
qed (auto simp: parse_value_def)

lemma parse_pair_leaves: "leaves (length ts - 1) (parse_pair ops ts)"
  unfolding parse_pair_def
  by (rule leaves_bind [OF parse_value_leaves], rule leaves_bind [OF parse_value_leaves], rule leaves_bind [OF expect_leaves]) auto

lemma parse_condition_leaves:
  "(2 * length ts + 1 \<le> n \<longrightarrow> leaves (length ts - 1) (parse_condition ops n ts)) \<and>
   (2 * length ts + 2 \<le> n \<longrightarrow> leaves (length ts) (parse_operands ops n ts))"
proof (induction n arbitrary: ts)
  case (Suc n)
  have "leaves (length ts - 1) (parse_condition ops (Suc n) ts)" if n: "2 * length ts + 1 \<le> Suc n"
  proof (cases ts)
    case (Cons t us)
    have operands: "leaves (length ts2) (parse_operands ops n ts2)" if "length ts2 \<le> length ts - 1" for ts2
      using Suc.IH [of ts2] n that Cons by auto
    show ?thesis
      unfolding parse_condition.simps
      by (rule leaves_bind [OF expect_leaves], rule leaves_bind [OF parse_operator_leaves])
        (auto intro!: leaves_split leaves_bind [OF parse_pair_leaves] leaves_bind [OF operands] leaves_bind [OF expect_leaves])
  qed auto
  moreover have "leaves (length ts) (parse_operands ops (Suc n) ts)" if n: "2 * length ts + 2 \<le> Suc n"
  proof (cases ts)
    case (Cons t us)
    have "leaves (length ts) (bindR (parse_condition ops n ts) (\<lambda>(c, ts1).
        bindR (parse_operands ops n ts1) (\<lambda>(cs, rest). Inr (c # cs, rest))))"
    proof (rule leaves_bind)
      show "leaves (length ts - 1) (parse_condition ops n ts)" using Suc.IH [of ts] n by simp
      fix c and ts1 :: "token list"
      assume "length ts1 \<le> length ts - 1"
      moreover from this have "leaves (length ts1) (parse_operands ops n ts1)" using Suc.IH [of ts1] n Cons by auto
      ultimately show "leaves (length ts) (bindR (parse_operands ops n ts1) (\<lambda>(cs, rest). Inr (c # cs, rest)))"
        by (intro leaves_bind) auto
    qed
    then show ?thesis by (auto simp: Cons)
  qed auto
  ultimately show ?case by blast
qed simp

lemma parse_weight_options_leaves: "leaves (length ts) (parse_weight_options lookback topn ts)"
proof (induction lookback topn ts rule: parse_weight_options.induct)
  case (1 lookback topn k v ts)
  show ?case
  proof (cases "k = KEYWORD \<and> (tl v = ''lookback'' \<or> tl v = ''top'')")
    case True
    show ?thesis
    proof (cases "\<exists>w ts1. ts = (NUMBER, w) # ts1")
      case True
      then obtain w ts1 where ts: "ts = (NUMBER, w) # ts1" by blast
      show ?thesis
      proof (cases "int_of_text w")
        case (Inl e)
        then show ?thesis using \<open>k = KEYWORD \<and> _\<close> int_of_text_error [OF Inl] by (auto simp: ts)
      next
        case (Inr i)
        have "leaves (length ts1) (if tl v = ''lookback'' then parse_weight_options (Some i) topn ts1
            else parse_weight_options lookback (Some i) ts1)"
          using 1 [OF \<open>k = KEYWORD \<and> _\<close> ts refl refl, of i] Inr by auto
        then show ?thesis using \<open>k = KEYWORD \<and> _\<close> Inr by (auto simp: ts intro: leaves_mono)
      qed
    next
      case False
      then have "parse_weight_options lookback topn ((k, v) # ts) = Inl ParseError"
        using \<open>k = KEYWORD \<and> _\<close> by (auto split: list.split prod.split token_kind.split)
      then show ?thesis by auto
    qed
  qed auto
qed auto

text \<open>The end of every container: the children, then the closing parenthesis.\<close>

lemma children_close_leaves:
  assumes "\<And>us. length us \<le> k \<Longrightarrow> leaves (length us) (kids us)" "length us \<le> k"
  shows "leaves k (bindR (kids us) (\<lambda>(cs, ts). bindR (expect RPAREN ts) (\<lambda>(_, rest). Inr (g cs, rest))))"
  by (rule leaves_bind [OF assms(1) [OF assms(2)]], rule leaves_bind [OF expect_leaves]) (use assms(2) in auto)

definition bounded_parser :: "nat \<Rightarrow> (token list \<Rightarrow> ('a \<times> token list) result) \<Rightarrow> bool" where
  "bounded_parser m p \<longleftrightarrow> (\<forall>us. length us < m \<longrightarrow> leaves (length us) (p us))"

lemma bounded_parserD:
  "bounded_parser (length ts) p \<Longrightarrow> ts \<noteq> [] \<Longrightarrow> length us \<le> length ts - 1 \<Longrightarrow> leaves (length us) (p us)"
  by (cases ts) (auto simp: bounded_parser_def)

lemma parse_group_leaves:
  assumes "bounded_parser (length ts) kids"
  shows "leaves (length ts - 1) (parse_group ops kids ts)"
proof (cases "ts = []")
  case False
  note kids = bounded_parserD [OF assms False]
  show ?thesis
    unfolding parse_group_def
    by (rule leaves_bind [OF expect_leaves], rule shrinks_bind [OF expect_shrinks(1)],
        rule leaves_bind [OF parse_string_leaves], rule leaves_bind [OF parse_opt_weight_leaves],
        rule children_close_leaves [OF kids]) auto
qed (auto simp: parse_group_def)

lemma parse_weight_leaves:
  assumes "bounded_parser (length ts) kids"
  shows "leaves (length ts - 1) (parse_weight kids ts)"
proof (cases "ts = []")
  case False
  note kids = bounded_parserD [OF assms False]
  show ?thesis
    unfolding parse_weight_def
    by (rule leaves_bind [OF expect_leaves], rule shrinks_bind [OF expect_shrinks(1)],
        rule shrinks_bind [OF expect_shrinks(2)], rule leaves_bind [OF parse_member_leaves],
        rule leaves_bind [OF parse_weight_options_leaves], rule leaves_split, rule children_close_leaves [OF kids]) auto
qed (auto simp: parse_weight_def)

lemma parse_asset_leaves: "leaves (length ts - 1) (parse_asset ops ts)"
  unfolding parse_asset_def
  by (rule leaves_bind [OF expect_leaves], rule shrinks_bind [OF expect_shrinks(1)],
      rule leaves_bind [OF expect_leaves], rule leaves_bind [OF parse_opt_weight_leaves],
      rule leaves_bind [OF expect_leaves]) auto

lemma expect_keeps:
  "leaves (length ts) (expect k ts)" "shrinks (length ts) (expect_symbol w ts)" "shrinks (length ts) (expect_keyword w ts)"
  by (cases ts; auto simp: leaves_def shrinks_def)+

lemmas parse_member_keeps = leaves_mono [OF parse_member_leaves diff_le_self]
lemmas parse_int_keeps = leaves_mono [OF parse_int_leaves diff_le_self]

lemma parse_filter_leaves:
  assumes "bounded_parser (length ts) kids"
  shows "leaves (length ts - 1) (parse_filter kids ts)"
proof (cases "ts = []")
  case False
  note kids = bounded_parserD [OF assms False]
  show ?thesis
    unfolding parse_filter_def
    by (rule leaves_bind [OF expect_leaves], rule shrinks_bind [OF expect_keeps(2)],
        rule shrinks_bind [OF expect_keeps(3)], rule leaves_bind [OF parse_member_keeps],
        rule shrinks_bind [OF expect_keeps(3)], rule leaves_bind [OF expect_keeps(1)],
        rule leaves_bind [OF parse_member_keeps], rule leaves_bind [OF parse_int_keeps],
        rule leaves_bind [OF expect_keeps(1)], rule leaves_bind [OF parse_opt_lookback_leaves],
        rule children_close_leaves [OF kids]) auto
qed (auto simp: parse_filter_def)

lemma parse_else_leaves:
  assumes blk: "\<And>us. length us \<le> k \<Longrightarrow> leaves (length us) (blk us)" and "length ts \<le> k"
  shows "leaves k (parse_else blk ts)"
proof -
  have "leaves k (bindR (blk us) (\<lambda>(else_block, ts7). bindR (expect RPAREN ts7) (\<lambda>(_, ts8). Inr (Some else_block, ts8))))"
    if "length us \<le> k" for us
    by (rule leaves_bind [OF blk [OF that]], rule leaves_bind [OF expect_leaves]) (use that in auto)
  with assms(2) show ?thesis
    unfolding parse_else_def by (auto split: list.split prod.split token_kind.split)
qed

lemma parse_if_leaves:
  assumes "bounded_parser (length ts) blk"
  shows "leaves (length ts - 1) (parse_if ops blk ts)"
proof (cases "ts = []")
  case False
  note blk = bounded_parserD [OF assms False]
  have cond: "leaves (length us) (parse_condition ops (budget us) us)" for us
    by (rule leaves_mono [OF parse_condition_leaves [of us "budget us" ops, THEN conjunct1, rule_format]])
      (simp_all add: budget_def)
  have branches: "leaves (length ts - 1) (bindR (blk ts3) (\<lambda>(then_block, ts4).
      bindR (parse_else blk ts4) (\<lambda>(else_block, ts9).
      bindR (expect RPAREN ts9) (\<lambda>(_, rest). Inr (IfB c then_block else_block, rest)))))"
    if l3: "length ts3 \<le> length ts - 1" for c ts3
  proof (rule leaves_bind [OF blk [OF l3]])
    fix then_block and ts4 :: "token list"
    assume "length ts4 \<le> length ts3"
    with l3 have "length ts4 \<le> length ts - 1" by simp
    have "leaves (length ts - 1) (parse_else blk ts4)"
      using \<open>length ts4 \<le> length ts - 1\<close> by (intro parse_else_leaves [OF blk])
    then show "leaves (length ts - 1) (bindR (parse_else blk ts4) (\<lambda>(else_block, ts9).
        bindR (expect RPAREN ts9) (\<lambda>(_, rest). Inr (IfB c then_block else_block, rest))))"
      by (rule leaves_bind) (rule leaves_bind [OF expect_leaves], auto)
  qed
  show ?thesis
    unfolding parse_if_def
    by (rule leaves_bind [OF expect_leaves], rule shrinks_bind [OF expect_shrinks(1)], rule leaves_bind [OF cond],
        rule branches) simp
qed (auto simp: parse_if_def)

lemma parse_block_leaves:
  "(2 * length ts + 1 \<le> n \<longrightarrow> leaves (length ts - 1) (parse_block ops n ts)) \<and>
   (2 * length ts + 2 \<le> n \<longrightarrow> leaves (length ts) (parse_children ops n ts))"
proof (induction n arbitrary: ts)
  case (Suc n)
  have "leaves (length ts - 1) (parse_block ops (Suc n) ts)" if n: "2 * length ts + 1 \<le> Suc n"
  proof -
    have kids: "bounded_parser (length ts) (parse_children ops n)"
      unfolding bounded_parser_def
    proof (intro allI impI)
      fix us :: "token list"
      assume "length us < length ts"
      then show "leaves (length us) (parse_children ops n us)" using Suc.IH [of us] n by simp
    qed
    have blk: "bounded_parser (length ts) (parse_block ops n)"
      unfolding bounded_parser_def
    proof (intro allI impI)
      fix us :: "token list"
      assume "length us < length ts"
      then have "leaves (length us - 1) (parse_block ops n us)" using Suc.IH [of us] n by simp
      then show "leaves (length us) (parse_block ops n us)" by (rule leaves_mono) simp
    qed
    note containers = parse_group_leaves [OF kids, of ops] parse_weight_leaves [OF kids] parse_filter_leaves [OF kids]
      parse_if_leaves [OF blk, of ops] parse_asset_leaves [of ts ops]
    show ?thesis
    proof (cases "\<exists>p ty ts2. ts = (LPAREN, p) # (SYMBOL, ty) # ts2")
      case True
      then obtain p ty ts2 where ts: "ts = (LPAREN, p) # (SYMBOL, ty) # ts2" by blast
      have "parse_block ops (Suc n) ts =
          (if ty = ''group'' then parse_group ops (parse_children ops n) ts
           else if ty = ''weight'' then parse_weight (parse_children ops n) ts
           else if ty = ''asset'' then parse_asset ops ts
           else if ty = ''if'' then parse_if ops (parse_block ops n) ts
           else if ty = ''filter'' then parse_filter (parse_children ops n) ts
           else Inl ParseError)"
        by (simp add: ts)
      with containers show ?thesis by (simp only: split: if_split) (auto simp: leaves_Inl)
    next
      case False
      then have "parse_block ops (Suc n) ts = Inl ParseError"
        by (auto split: list.split prod.split token_kind.split)
      then show ?thesis by auto
    qed
  qed
  moreover have "leaves (length ts) (parse_children ops (Suc n) ts)" if n: "2 * length ts + 2 \<le> Suc n"
  proof (cases ts)
    case (Cons t us)
    have "leaves (length ts) (bindR (parse_block ops n ts) (\<lambda>(b, ts1).
        bindR (parse_children ops n ts1) (\<lambda>(bs, rest). Inr (b # bs, rest))))"
    proof (rule leaves_bind)
      show "leaves (length ts - 1) (parse_block ops n ts)" using Suc.IH [of ts] n by simp
      fix b and ts1 :: "token list"
      assume "length ts1 \<le> length ts - 1"
      moreover from this have "leaves (length ts1) (parse_children ops n ts1)" using Suc.IH [of ts1] n Cons by auto
      ultimately show "leaves (length ts) (bindR (parse_children ops n ts1) (\<lambda>(bs, rest). Inr (b # bs, rest)))"
        by (intro leaves_bind) auto
    qed
    then show ?thesis by (auto simp: Cons)
  qed auto
  ultimately show ?case by blast
qed simp

lemma parse_attrs_leaves: "leaves (length ts) (parse_attrs a ts)"
  by (induction a ts rule: parse_attrs.induct) (fastforce split: list.splits intro: leaves_mono)+

lemma parse_strategy_leaves: "leaves (length ts - 1) (parse_strategy_block ops ts)"
proof -
  have kids: "leaves (length us) (parse_children ops (budget us) us)" for us
    using parse_block_leaves [of us "budget us" ops] by (simp add: budget_def)
  show ?thesis
    unfolding parse_strategy_block_def
    by (rule leaves_bind [OF expect_leaves], rule shrinks_bind [OF expect_shrinks(1)],
        rule leaves_bind [OF parse_string_leaves], rule leaves_bind [OF parse_attrs_leaves],
        rule leaves_bind [OF kids], rule leaves_bind [OF expect_leaves]) auto
qed

lemma check_nesting_error: "check_nesting depth ts = Inl e \<Longrightarrow> e = ParseError"
  by (induction depth ts rule: check_nesting.induct) (auto split: if_splits)

text \<open>Whatever the text, parsing ends with a strategy, a parse error or a value error.\<close>

lemma parse_source_error: "parse_source ops source = Inl e \<Longrightarrow> e = ParseError \<or> e = ValueError"
  using parse_strategy_leaves [of "tokenize source" ops]
  by (auto simp: parse_source_def Let_def result_simps leaves_def dsl_error_def split: if_splits dest: check_nesting_error)

end
