(* ===== verification/Dsl_Printer.thy ===== *)
theory Dsl_Printer
  imports Dsl_Parser
begin

text \<open>
  The serializer (\<^verbatim>\<open>serializer.py\<close>) in its compact and its pretty layout, and how the printed
  pieces read back: \<open>lexes text tokens\<close> says that the tokenizer turns the text into these tokens
  wherever it is followed by a delimiter. Reading back an escaped string gives the string exactly
  when it has no backslash before an \<open>n\<close> (\<open>unescape_escape_iff\<close>).
\<close>

section \<open>The serializer\<close>

definition escape_string :: "string \<Rightarrow> string" where
  "escape_string s =
     py_replace [new_line] [back_slash, CHR ''n'']
       (py_replace [quote_char] [back_slash, quote_char]
         (py_replace [back_slash] [back_slash, back_slash] s))"

definition quoted :: "string \<Rightarrow> string" where
  "quoted s = [quote_char] @ escape_string s @ [quote_char]"

text \<open>\<^verbatim>\<open>str(int(x)) if x == int(x) else str(x)\<close>\<close>

definition format_weight :: "'f float_ops \<Rightarrow> 'f \<Rightarrow> string result" where
  "format_weight ops x = bindR (fl_int ops x) (\<lambda>n. Inr (if fl_is ops x n then show_int n else fl_str ops x))"

fun serialize_param :: "'f float_ops \<Rightarrow> 'f param \<Rightarrow> string result" where
  "serialize_param ops (PInt n) = Inr (show_int n)"
| "serialize_param ops (PFloat x) = format_weight ops x"

definition parens :: "string list \<Rightarrow> string" where
  "parens parts = ''('' @ join '' '' parts @ '')''"

fun serialize_value :: "'f float_ops \<Rightarrow> 'f dsl_value \<Rightarrow> string result" where
  "serialize_value ops (NumericLiteral x) = format_weight ops x"
| "serialize_value ops (Price symbol fld) =
     Inr (if fld = ''close'' then parens [''price'', symbol] else parens [''price'', symbol, '':'' @ fld])"
| "serialize_value ops (Indicator name symbol params out) =
     bindR (mapR (serialize_param ops) params) (\<lambda>ps.
       Inr (parens ([name, symbol] @ ps @ (case out of None \<Rightarrow> [] | Some w \<Rightarrow> if w = [] then [] else ['':'' @ w]))))"
| "serialize_value ops (Metric name symbol period) =
     Inr (case period of
            None \<Rightarrow> parens [name, symbol]
          | Some n \<Rightarrow> if n = 0 then parens [name, symbol] else parens [name, symbol, show_int n])"

fun serialize_condition :: "'f float_ops \<Rightarrow> 'f condition \<Rightarrow> string result" where
  "serialize_condition ops (Comparison op l r) =
     bindR (serialize_value ops l) (\<lambda>a. bindR (serialize_value ops r) (\<lambda>b. Inr (parens [op, a, b])))"
| "serialize_condition ops (Crossover dir f s) =
     bindR (serialize_value ops f) (\<lambda>a. bindR (serialize_value ops s) (\<lambda>b. Inr (parens [''crosses-'' @ dir, a, b])))"
| "serialize_condition ops (LogicalOp op cs) =
     bindR (mapR (serialize_condition ops) cs) (\<lambda>xs. Inr (''('' @ op @ '' '' @ join '' '' xs @ '')''))"

definition spaces :: "nat \<Rightarrow> string" where
  "spaces n = replicate n CHR '' ''"

definition weight_attr :: "'f float_ops \<Rightarrow> 'f option \<Rightarrow> string result" where
  "weight_attr ops w =
     (case w of None \<Rightarrow> Inr [] | Some x \<Rightarrow> bindR (format_weight ops x) (\<lambda>t. Inr ('' :weight '' @ t)))"

text \<open>A container prints its opening text and its children, in one line or in lines.\<close>

definition layout :: "bool \<Rightarrow> nat \<Rightarrow> string \<Rightarrow> string list \<Rightarrow> string" where
  "layout pretty indent opening children =
     (if pretty then join [new_line] ([spaces indent @ opening] @ children @ [spaces indent @ '')''])
      else opening @ '' '' @ join '' '' children @ '')'')"

definition option_attr :: "string \<Rightarrow> int option \<Rightarrow> string list" where
  "option_attr name v = (case v of None \<Rightarrow> [] | Some n \<Rightarrow> ['':'' @ name @ '' '' @ show_int n])"

definition text_attr :: "string \<Rightarrow> string option \<Rightarrow> (string \<Rightarrow> string) \<Rightarrow> string list" where
  "text_attr name v f = (case v of None \<Rightarrow> [] | Some w \<Rightarrow> if w = [] then [] else ['':'' @ name @ '' '' @ f w])"

definition strategy_parts :: "string \<Rightarrow> strategy_attrs \<Rightarrow> string list" where
  "strategy_parts name a =
     [quoted name] @ text_attr ''rebalance'' (at_rebalance a) id @ text_attr ''benchmark'' (at_benchmark a) id @
     text_attr ''description'' (at_description a) quoted"

fun serialize_block :: "'f float_ops \<Rightarrow> bool \<Rightarrow> nat \<Rightarrow> 'f block \<Rightarrow> string result" where
  "serialize_block ops pretty indent (StrategyB name children a) =
     bindR (mapR (serialize_block ops pretty (if pretty then indent + 2 else 0)) children) (\<lambda>kids.
       Inr (if pretty
            then join [new_line] ([spaces indent @ ''(strategy''] @ map (\<lambda>p. spaces (indent + 2) @ p) (strategy_parts name a) @
                   kids @ [spaces indent @ '')''])
            else ''(strategy '' @ join '' '' (strategy_parts name a) @ '' '' @ join '' '' kids @ '')''))"
| "serialize_block ops pretty indent (GroupB name children w) =
     bindR (weight_attr ops w) (\<lambda>attr.
     bindR (mapR (serialize_block ops pretty (if pretty then indent + 2 else 0)) children) (\<lambda>kids.
       Inr (layout pretty indent (''(group '' @ quoted name @ attr) kids)))"
| "serialize_block ops pretty indent (WeightB meth children lookback topn) =
     bindR (mapR (serialize_block ops pretty (if pretty then indent + 2 else 0)) children) (\<lambda>kids.
       Inr (layout pretty indent
              (''(weight '' @ join '' '' ([('':method '' @ meth)] @ option_attr ''lookback'' lookback @ option_attr ''top'' topn))
              kids))"
| "serialize_block ops pretty indent (AssetB symbol w) =
     bindR (weight_attr ops w) (\<lambda>attr.
       Inr ((if pretty then spaces indent else []) @ ''(asset '' @ symbol @ attr @ '')''))"
| "serialize_block ops pretty indent (IfB c th el) =
     bindR (serialize_condition ops c) (\<lambda>cond.
     bindR (serialize_block ops pretty (if pretty then indent + 2 else 0) th) (\<lambda>then_text.
     bindR (case el of None \<Rightarrow> Inr None
            | Some b \<Rightarrow> bindR (serialize_block ops pretty (if pretty then indent + 4 else 0) b) (\<lambda>t. Inr (Some t))) (\<lambda>else_text.
       Inr (if pretty
            then join [new_line] ([spaces indent @ ''(if '' @ cond, then_text] @
                   (case else_text of None \<Rightarrow> []
                    | Some t \<Rightarrow> [spaces (indent + 2) @ ''(else'', t, spaces (indent + 2) @ '')'']) @ [spaces indent @ '')''])
            else ''(if '' @ cond @ '' '' @ then_text @
                 (case else_text of None \<Rightarrow> [] | Some t \<Rightarrow> '' (else '' @ t @ '')'') @ '')''))))"
| "serialize_block ops pretty indent (FilterB crit dir cnt children lookback) =
     bindR (mapR (serialize_block ops pretty (if pretty then indent + 2 else 0)) children) (\<lambda>kids.
       Inr (layout pretty indent
              (''(filter '' @ join '' '' ([('':by '' @ crit), ('':select ('' @ dir @ '' '' @ show_int cnt @ '')'')] @
                 option_attr ''lookback'' lookback)) kids))"

definition serialize :: "'f float_ops \<Rightarrow> bool \<Rightarrow> 'f block \<Rightarrow> string result" where
  "serialize ops pretty s = serialize_block ops pretty 0 s"

section \<open>What a text lexes to\<close>

definition delim :: "string \<Rightarrow> bool" where
  "delim s \<longleftrightarrow> s = [] \<or> hd s \<in> {CHR '' '', new_line, CHR ''('', CHR '')''}"

definition lexes :: "string \<Rightarrow> token list \<Rightarrow> bool" where
  "lexes x ts \<longleftrightarrow> (\<forall>rest. delim rest \<longrightarrow> tokenize (x @ rest) = ts @ tokenize rest)"

abbreviation lp :: token where "lp \<equiv> (LPAREN, ''('')"
abbreviation rp :: token where "rp \<equiv> (RPAREN, '')'')"

lemma tokenize_parens [simp]:
  "tokenize (CHR ''('' # s) = lp # tokenize s" "tokenize (CHR '')'' # s) = rp # tokenize s"
  by (simp_all add: next_token_def)

lemma space_not:
  assumes "is_space c"
  shows "c \<notin> {CHR ''('', CHR '')'', quote_char, CHR '':'', CHR ''-'', CHR ''$'', CHR '';''}" "\<not> is_head c" "\<not> is_digit c"
    "c \<notin> hd ` set operators"
  using assms by (auto simp: is_space_def is_head_def is_letter_def is_digit_def operators_def)

lemma scan_operator_head: "c \<notin> hd ` set operators \<Longrightarrow> scan_operator (c # s) = None"
  by (auto simp: scan_operator_def find_None_iff operators_def)

lemma next_token_space:
  assumes "is_space c"
  shows "next_token (c # s) = Some ((SKIP, takeWhile is_space (c # s)), dropWhile is_space (c # s))"
  using assms space_not [OF assms] scan_operator_head [of c s]
  by (simp add: next_token_def scan_number_def)

lemma tokenize_dropWhile: "tokenize (dropWhile is_space s) = tokenize s"
proof (cases s)
  case (Cons c t)
  then show ?thesis by (cases "is_space c") (simp_all add: next_token_space)
qed simp

lemma tokenize_space: "is_space c \<Longrightarrow> tokenize (c # s) = tokenize s"
  using tokenize_dropWhile [of "c # s"] tokenize_dropWhile [of s] by simp

lemma space_sep [simp]: "is_space CHR '' ''" "is_space new_line"
  by (simp_all add: is_space_def)

lemma tokenize_sep [simp]: "tokenize (CHR '' '' # s) = tokenize s" "tokenize (new_line # s) = tokenize s"
  by (simp_all add: tokenize_space del: tokenize.simps)

declare tokenize.simps(2) [simp del]

section \<open>Composition\<close>

lemma lexesD: "lexes x ts \<Longrightarrow> delim rest \<Longrightarrow> tokenize (x @ rest) = ts @ tokenize rest"
  by (simp add: lexes_def)

lemma lexes_Nil [simp]: "lexes [] []"
  by (simp add: lexes_def)

definition is_sep :: "char \<Rightarrow> bool" where
  "is_sep c \<longleftrightarrow> c = CHR '' '' \<or> c = new_line"

lemma is_sep_simps [simp]: "is_sep CHR '' ''" "is_sep new_line"
  by (simp_all add: is_sep_def)

lemma delim_simps [simp]: "delim []" "delim (c # s) \<longleftrightarrow> c \<in> {CHR '' '', new_line, CHR ''('', CHR '')''}"
  by (simp_all add: delim_def)

lemma lexes_sep:
  assumes "lexes x ts" "lexes y us" "is_sep c"
  shows "lexes (x @ c # y) (ts @ us)"
proof -
  have "tokenize ((x @ c # y) @ rest) = (ts @ us) @ tokenize rest" if "delim rest" for rest
    using lexesD [OF assms(1), of "c # y @ rest"] lexesD [OF assms(2) that] assms(3) by (auto simp: is_sep_def)
  then show ?thesis by (simp add: lexes_def)
qed

lemma lexes_open: "lexes x ts \<Longrightarrow> lexes (CHR ''('' # x) (lp # ts)"
  by (simp add: lexes_def)

lemma lexes_close: "lexes x ts \<Longrightarrow> lexes (x @ '')'') (ts @ [rp])"
  by (simp add: lexes_def)

lemma lexes_rp: "lexes '')'' [rp]"
  by (simp add: lexes_def)

lemma lexes_spaces: "lexes x ts \<Longrightarrow> lexes (spaces n @ x) ts"
  by (induction n) (simp_all add: lexes_def spaces_def)

lemma lexes_join:
  assumes "list_all2 lexes xs tss" "is_sep c"
  shows "lexes (join [c] xs) (concat tss)"
  using assms(1)
proof (induction xs tss rule: list_all2_induct)
  case (Cons x xs ts tss)
  then show ?case
  proof (cases xs)
    case (Cons y ys)
    then show ?thesis using lexes_sep [OF Cons.hyps(1) Cons.IH assms(2)] by simp
  qed simp
qed simp

lemma lexes_parens:
  assumes "list_all2 lexes xs tss"
  shows "lexes (parens xs) (lp # concat tss @ [rp])"
  using lexes_close [OF lexes_open [OF lexes_join [OF assms, of "CHR '' ''"]]] by (simp add: parens_def)

lemma lexes_layout:
  assumes "lexes opening ts" "list_all2 lexes kids tss"
  shows "lexes (layout pretty indent opening kids) (ts @ concat tss @ [rp])"
proof (cases pretty)
  case True
  have "list_all2 lexes ([spaces indent @ opening] @ kids @ [spaces indent @ '')'']) ([ts] @ tss @ [[rp]])"
    using assms lexes_spaces lexes_rp by (intro list_all2_appendI) auto
  from lexes_join [OF this, of new_line] show ?thesis using True by (simp add: layout_def)
next
  case False
  then show ?thesis
    using lexes_sep [OF assms(1) lexes_close [OF lexes_join [OF assms(2), of "CHR '' ''"]], of "CHR '' ''"]
    by (simp add: layout_def)
qed

section \<open>Words, numerals, operators and strings\<close>

definition symbol_ok :: "string \<Rightarrow> bool" where
  "symbol_ok w \<longleftrightarrow> w \<noteq> [] \<and> (is_head (hd w) \<or> hd w = CHR ''$'') \<and> list_all is_word (tl w) \<and> scan_operator w = None"

definition keyword_ok :: "string \<Rightarrow> bool" where
  "keyword_ok w \<longleftrightarrow> w \<noteq> [] \<and> is_head (hd w) \<and> list_all is_word (tl w)"

definition number_ok :: "string \<Rightarrow> bool" where
  "number_ok t \<longleftrightarrow> scan_number t = Some (t, [])"

lemma delim_not:
  assumes "delim rest" "rest \<noteq> []"
  shows "\<not> is_word (hd rest)" "\<not> is_digit (hd rest)" "hd rest \<noteq> CHR ''.''" "hd rest \<notin> \<Union> (set ` set operators)"
  using assms by (auto simp: delim_def is_word_def is_head_def is_letter_def is_digit_def operators_def)

lemma takeWhile_delim:
  assumes "list_all P w" "rest = [] \<or> \<not> P (hd rest)"
  shows "takeWhile P (w @ rest) = w" "dropWhile P (w @ rest) = rest"
  using assms by (induction w; cases rest; auto)+

lemma scan_word_append: "list_all is_word w \<Longrightarrow> delim rest \<Longrightarrow> scan_word (w @ rest) = (w, rest)"
  using delim_not(1) [of rest] takeWhile_delim [of is_word w rest] by (auto simp: scan_word_def)

lemma operator_prefix:
  assumes "p \<in> set operators" "delim rest"
  shows "take (length p) (w @ rest) = p \<longleftrightarrow> take (length p) w = p"
proof
  assume eq: "take (length p) (w @ rest) = p"
  show "take (length p) w = p"
  proof (cases "length p \<le> length w \<or> rest = []")
    case True
    then show ?thesis using eq by auto
  next
    case False
    then obtain d ds where rest: "rest = d # ds" by (cases rest) auto
    have "d \<in> set (take (length p) (w @ rest))"
      using False by (cases "length p - length w") (auto simp: rest)
    then have "d \<in> set p" by (simp only: eq)
    then show ?thesis using delim_not(4) [OF assms(2)] assms(1) rest by auto
  qed
next
  assume eq: "take (length p) w = p"
  then have "length p \<le> length w" by (metis length_take min.cobounded1)
  with eq show "take (length p) (w @ rest) = p" by simp
qed

lemma find_cong: "(\<And>x. x \<in> set xs \<Longrightarrow> P x = Q x) \<Longrightarrow> find P xs = find Q xs"
  by (induction xs) auto

lemma scan_operator_append:
  assumes "delim rest"
  shows "scan_operator (w @ rest) = map_option (\<lambda>(p, u). (p, u @ rest)) (scan_operator w)"
proof -
  have "find (\<lambda>p. take (length p) (w @ rest) = p) operators = find (\<lambda>p. take (length p) w = p) operators"
    using operator_prefix [OF _ assms] by (intro find_cong) simp
  moreover have "drop (length p) (w @ rest) = drop (length p) w @ rest"
    if "find (\<lambda>p. take (length p) w = p) operators = Some p" for p
  proof -
    from that have "take (length p) w = p" by (auto simp: find_Some_iff)
    then have "length p \<le> length w" by (metis length_take min.cobounded1)
    then show ?thesis by simp
  qed
  ultimately show ?thesis
    unfolding scan_operator_def by (cases "find (\<lambda>p. take (length p) w = p) operators") auto
qed

lemma head_not:
  assumes "is_head c \<or> c = CHR ''$''"
  shows "c \<notin> {CHR ''('', CHR '')'', quote_char, CHR '':'', CHR ''-''}" "\<not> is_digit c"
  using assms by (auto simp: is_head_def is_letter_def is_digit_def)

lemma lexes_symbol: "symbol_ok w \<Longrightarrow> lexes w [(SYMBOL, w)]"
proof (cases w)
  case (Cons c u)
  assume ok: "symbol_ok w"
  have "next_token (w @ rest) = Some ((SYMBOL, w), rest)" if "delim rest" for rest
    using ok that head_not [of c] scan_operator_append [of rest w] scan_word_append [of u rest]
    by (auto simp: Cons symbol_ok_def next_token_def scan_number_def)
  then show ?thesis by (simp add: lexes_def Cons tokenize.simps)
qed (simp add: symbol_ok_def)

lemma keyword_wordy: "keyword_ok w \<Longrightarrow> list_all is_word w"
  by (cases w) (auto simp: keyword_ok_def is_word_def)

lemma lexes_keyword: "keyword_ok w \<Longrightarrow> lexes (CHR '':'' # w) [(KEYWORD, CHR '':'' # w)]"
proof -
  assume ok: "keyword_ok w"
  have "next_token (CHR '':'' # w @ rest) = Some ((KEYWORD, CHR '':'' # w), rest)" if "delim rest" for rest
    using ok that scan_word_append [OF keyword_wordy [OF ok] that] by (cases w) (auto simp: keyword_ok_def next_token_def)
  then show ?thesis by (simp add: lexes_def tokenize.simps)
qed

lemma number_ok_cases:
  assumes "number_ok t"
  obtains sign ds fs where "sign = [] \<or> sign = ''-''" "ds \<noteq> []" "list_all is_digit ds"
    "fs = [] \<or> (\<exists>gs. fs = CHR ''.'' # gs \<and> list_all is_digit gs)" "t = sign @ ds @ fs"
proof -
  define sign where "sign = (if take 1 t = ''-'' then ''-'' else [])"
  define u where "u = drop (length sign) t"
  have t: "t = sign @ u" by (cases t) (auto simp: sign_def u_def)
  have "takeWhile is_digit u \<noteq> []" and dw: "dropWhile is_digit u = [] \<or>
      take 1 (dropWhile is_digit u) = ''.'' \<and> dropWhile is_digit (tl (dropWhile is_digit u)) = []"
    using assms by (auto simp: number_ok_def scan_number_def Let_def u_def sign_def split: if_splits)
  moreover have "list_all is_digit (takeWhile is_digit u)" by (auto simp: list_all_iff dest: set_takeWhileD)
  moreover have "dropWhile is_digit u = [] \<or> (\<exists>gs. dropWhile is_digit u = CHR ''.'' # gs \<and> list_all is_digit gs)"
    using dw by (cases "dropWhile is_digit u") (auto simp: list_all_iff dropWhile_eq_Nil_conv)
  moreover have "t = sign @ takeWhile is_digit u @ dropWhile is_digit u" using t by simp
  moreover have "sign = [] \<or> sign = ''-''" by (simp add: sign_def)
  ultimately show ?thesis by (intro that)
qed

lemma scan_number_signed:
  assumes "sign = [] \<and> take 1 u \<noteq> ''-'' \<or> sign = ''-''"
  shows "scan_number (sign @ u) =
    (if takeWhile is_digit u = [] then None
     else if take 1 (dropWhile is_digit u) = ''.''
     then Some (sign @ takeWhile is_digit u @ ''.'' @ takeWhile is_digit (tl (dropWhile is_digit u)),
                dropWhile is_digit (tl (dropWhile is_digit u)))
     else Some (sign @ takeWhile is_digit u, dropWhile is_digit u))"
  using assms by (auto simp: scan_number_def Let_def)

lemma scan_number_append:
  assumes "number_ok t" "delim rest"
  shows "scan_number (t @ rest) = Some (t, rest)"
  using assms(1)
proof (cases rule: number_ok_cases)
  case (1 sign ds fs)
  have stop: "rest = [] \<or> \<not> is_digit (hd rest)" "take 1 rest \<noteq> ''.''"
    using delim_not(2,3) [OF assms(2)] by (cases rest; auto)+
  have "take 1 (ds @ u) \<noteq> ''-''" for u using 1(2,3) by (cases ds) (auto simp: is_digit_def)
  with 1(1) have scan: "scan_number (sign @ ds @ u) = (if takeWhile is_digit (ds @ u) = [] then None
     else if take 1 (dropWhile is_digit (ds @ u)) = ''.''
     then Some (sign @ takeWhile is_digit (ds @ u) @ ''.'' @ takeWhile is_digit (tl (dropWhile is_digit (ds @ u))),
                dropWhile is_digit (tl (dropWhile is_digit (ds @ u))))
     else Some (sign @ takeWhile is_digit (ds @ u), dropWhile is_digit (ds @ u)))" for u
    by (intro scan_number_signed) auto
  show ?thesis
    using 1(4)
  proof
    assume "fs = []"
    then show ?thesis using 1(2,5) stop scan [of rest] takeWhile_delim [OF 1(3), of rest] by simp
  next
    assume "\<exists>gs. fs = CHR ''.'' # gs \<and> list_all is_digit gs"
    then obtain gs where gs: "fs = CHR ''.'' # gs" "list_all is_digit gs" by blast
    have dot: "\<not> is_digit CHR ''.''" by (simp add: is_digit_def)
    show ?thesis
      using 1(2,5) gs(1) dot scan [of "fs @ rest"] takeWhile_delim [OF 1(3), of "fs @ rest"] takeWhile_delim [OF gs(2) stop(1)]
      by simp
  qed
qed

lemma lexes_number: "number_ok t \<Longrightarrow> lexes t [(NUMBER, t)]"
proof -
  assume ok: "number_ok t"
  then obtain c u where t: "t = c # u" "c = CHR ''-'' \<or> is_digit c"
  proof (cases rule: number_ok_cases)
    case (1 sign ds fs)
    then show ?thesis using that by (cases ds) auto
  qed
  have "next_token (t @ rest) = Some ((NUMBER, t), rest)" if "delim rest" for rest
    using scan_number_append [OF ok that] t(2) by (auto simp: t(1) next_token_def is_digit_def)
  then show ?thesis by (simp add: lexes_def t(1) tokenize.simps)
qed

lemma number_ok_show_int: "number_ok (show_int n)"
proof -
  have d: "list_all is_digit (show_digits \<bar>n\<bar>)" using all_digits_show_digits [of "\<bar>n\<bar>"] by auto
  have "hd (show_digits \<bar>n\<bar>) \<noteq> CHR ''-''" using d by (cases "show_digits \<bar>n\<bar>") (auto simp: is_digit_def)
  then have "take 1 (show_digits \<bar>n\<bar>) \<noteq> ''-''" by (cases "show_digits \<bar>n\<bar>") auto
  moreover have "takeWhile is_digit (show_digits \<bar>n\<bar>) = show_digits \<bar>n\<bar>" "dropWhile is_digit (show_digits \<bar>n\<bar>) = []"
    using d by (auto simp: list_all_iff)
  ultimately show ?thesis
    unfolding number_ok_def show_int_def by (subst scan_number_signed) (simp_all del: takeWhile_eq_all_conv dropWhile_eq_Nil_conv)
qed

lemma operators_shape:
  "list_all (\<lambda>op. scan_operator op = Some (op, []) \<and> op \<noteq> [] \<and> hd op \<notin> {CHR ''('', CHR '')'', quote_char, CHR '':''} \<and>
     \<not> is_digit (hd op) \<and> (hd op = CHR ''-'' \<longrightarrow> tl op = [])) operators"
  by code_simp

lemma scan_operator_self: "op \<in> set operators \<Longrightarrow> scan_operator op = Some (op, [])"
  using operators_shape by (auto simp: list_all_iff)

lemma operator_head:
  assumes "op \<in> set operators"
  obtains c u where "op = c # u" "c \<notin> {CHR ''('', CHR '')'', quote_char, CHR '':''}" "\<not> is_digit c" "c = CHR ''-'' \<longrightarrow> u = []"
proof -
  have "op \<noteq> []" "hd op \<notin> {CHR ''('', CHR '')'', quote_char, CHR '':''}" "\<not> is_digit (hd op)" "hd op = CHR ''-'' \<longrightarrow> tl op = []"
    using operators_shape assms by (auto simp: list_all_iff)
  then show ?thesis using that [of "hd op" "tl op"] by simp
qed

lemma lexes_operator:
  assumes "op \<in> set operators"
  shows "lexes op [(OPERATOR, op)]"
  using assms
proof (cases rule: operator_head)
  case (1 c u)
  have "next_token (op @ rest) = Some ((OPERATOR, op), rest)" if "delim rest" for rest
  proof -
    have "rest = [] \<or> \<not> is_digit (hd rest)" using delim_not(2) [OF that] by auto
    then have "scan_number (op @ rest) = None" using 1 by (cases rest) (auto simp: scan_number_def)
    then show ?thesis
      using 1 scan_operator_append [OF that, of op] scan_operator_self [OF assms] by (simp add: next_token_def)
  qed
  then show ?thesis by (simp add: lexes_def 1(1) tokenize.simps)
qed

section \<open>Escapes\<close>

definition escape_char :: "char \<Rightarrow> string" where
  "escape_char c =
     (if c = back_slash then [back_slash, back_slash]
      else if c = quote_char then [back_slash, quote_char]
      else if c = new_line then [back_slash, CHR ''n''] else [c])"

lemma escape_char_simps [simp]:
  "escape_char back_slash = [back_slash, back_slash]" "escape_char quote_char = [back_slash, quote_char]"
  "escape_char new_line = [back_slash, CHR ''n'']"
  "c \<notin> {back_slash, quote_char, new_line} \<Longrightarrow> escape_char c = [c]"
  by (simp_all add: escape_char_def)

text \<open>No backslash stands right before an \<^verbatim>\<open>n\<close>.\<close>

fun plain_text :: "string \<Rightarrow> bool" where
  "plain_text [] = True"
| "plain_text (c # s) \<longleftrightarrow> (c = back_slash \<longrightarrow> take 1 s \<noteq> ''n'') \<and> plain_text s"

lemma py_replace_char: "py_replace [c] new s = concat (map (\<lambda>d. if d = c then new else [d]) s)"
  by (induction s) auto

lemma escape_string_chars: "escape_string s = concat (map escape_char s)"
  by (induction s) (auto simp: escape_string_def py_replace_char escape_char_def)

lemma scan_string_escaped:
  "scan_string (escape_string s @ quote_char # rest) = Some (escape_string s @ [quote_char], rest)"
  by (induction s) (auto simp: escape_string_chars escape_char_def)

lemma lexes_quoted: "lexes (quoted s) [(STRING, quoted s)]"
proof -
  have "next_token (quoted s @ rest) = Some ((STRING, quoted s), rest)" for rest
    using scan_string_escaped [of s rest] by (simp add: quoted_def next_token_def)
  then show ?thesis by (simp add: lexes_def quoted_def tokenize.simps)
qed

text \<open>
  The three replacements of the parser, one after the other, on escaped text: the first undoes the
  quotes; the second undoes the newlines and also takes the second half of an escaped backslash
  that stands before an \<^verbatim>\<open>n\<close>.
\<close>

definition escape_2 :: "char \<Rightarrow> string" where
  "escape_2 c = (if c = back_slash then [back_slash, back_slash]
     else if c = new_line then [back_slash, CHR ''n''] else [c])"

fun unescape_n :: "string \<Rightarrow> string" where
  "unescape_n [] = []"
| "unescape_n (c # s) =
     (if c = back_slash
      then if take 1 s = ''n'' then back_slash # new_line # unescape_n (tl s)
           else back_slash # back_slash # unescape_n s
      else c # unescape_n s)"

lemma escape_2_simps [simp]:
  "escape_2 back_slash = [back_slash, back_slash]" "escape_2 new_line = [back_slash, CHR ''n'']"
  "c \<notin> {back_slash, new_line} \<Longrightarrow> escape_2 c = [c]"
  by (simp_all add: escape_2_def)

lemma unescape_quotes:
  "py_replace [back_slash, quote_char] [quote_char] (concat (map escape_char s)) = concat (map escape_2 s)"
proof (induction s)
  case (Cons c s)
  have "take 1 (concat (map escape_char s)) \<noteq> [quote_char]" by (cases s) (auto simp: escape_char_def)
  then show ?case using Cons by (cases "c \<in> {back_slash, quote_char, new_line}") auto
qed simp

lemma unescape_newlines:
  "py_replace [back_slash, CHR ''n''] [new_line] (concat (map escape_2 s)) = unescape_n s"
proof (induction s rule: unescape_n.induct)
  case (2 c s)
  have head: "take 1 (concat (map escape_2 s)) = ''n'' \<longleftrightarrow> take 1 s = ''n''"
    "take 1 s = ''n'' \<Longrightarrow> drop 1 (concat (map escape_2 s)) = concat (map escape_2 (tl s))"
    by (cases s; auto simp: escape_2_def)+
  show ?case
  proof (cases "c = back_slash")
    case True
    then show ?thesis using 2 head by (cases "take 1 s = ''n''") simp_all
  next
    case False
    then show ?thesis using 2(3) by (cases "c = new_line") simp_all
  qed
qed simp

lemma unescape_slashes:
  "plain_text s \<Longrightarrow> py_replace [back_slash, back_slash] [back_slash] (unescape_n s) = s"
  by (induction s rule: unescape_n.induct) auto

lemma count_replace_slashes:
  "count_list (py_replace [back_slash, back_slash] [back_slash] s) new_line = count_list s new_line"
proof (induction "[back_slash, back_slash]" "[back_slash]" s rule: py_replace.induct)
  case (2 c s)
  then show ?case by (cases s) auto
qed simp

lemma count_unescape_n:
  "count_list s new_line \<le> count_list (unescape_n s) new_line \<and>
   (\<not> plain_text s \<longrightarrow> count_list s new_line < count_list (unescape_n s) new_line)"
proof (induction s rule: unescape_n.induct)
  case (2 c s)
  show ?case
  proof (cases "c = back_slash \<and> take 1 s = ''n''")
    case True
    then have "count_list s new_line = count_list (tl s) new_line" by (cases s) auto
    then show ?thesis using 2(1) True by simp
  next
    case False
    then show ?thesis using 2(2,3) by auto
  qed
qed simp

text \<open>Exactly the names without backslash-n survive printing and reading.\<close>

lemma unescape_escape_iff: "unescape (escape_string s) = s \<longleftrightarrow> plain_text s"
proof -
  have "unescape (escape_string s) = py_replace [back_slash, back_slash] [back_slash] (unescape_n s)"
    by (simp only: unescape_def escape_string_chars unescape_quotes unescape_newlines)
  moreover have "plain_text s" if "py_replace [back_slash, back_slash] [back_slash] (unescape_n s) = s"
    using count_unescape_n [of s] count_replace_slashes [of "unescape_n s"] that by (cases "plain_text s") auto
  ultimately show ?thesis using unescape_slashes [of s] by auto
qed

end
