(* ===== verification/Dsl_Round_Trip.thy ===== *)
theory Dsl_Round_Trip
  imports Dsl_Printer
begin

text \<open>
  The round trip of the strategy language: a canonical strategy printed in either layout parses
  back to itself (\<open>print_parse_canonical\<close>).

  The proof goes through the token sequence of a node (\<open>block_tokens\<close>): the printed text, compact
  or pretty, lexes to it (\<open>serialize_block_lexes\<close>), the parser reads the node back from it with the
  fuel that the parser takes (\<open>parse_block_tokens\<close>), and it nests as deep as the node
  (\<open>nests_block\<close>).
\<close>

section \<open>Canonical nodes\<close>

definition weight_text :: "'f float_ops \<Rightarrow> 'f \<Rightarrow> string" where
  "weight_text ops x = (case format_weight ops x of Inl e \<Rightarrow> [] | Inr t \<Rightarrow> t)"

definition float_ok :: "'f float_ops \<Rightarrow> 'f \<Rightarrow> bool" where
  "float_ok ops x \<longleftrightarrow> is_ok (format_weight ops x) \<and> number_ok (weight_text ops x) \<and> fl_of_text ops (weight_text ops x) = x"

fun param_ok :: "'f float_ops \<Rightarrow> 'f param \<Rightarrow> bool" where
  "param_ok ops (PInt n) = True"
| "param_ok ops (PFloat x) \<longleftrightarrow> float_ok ops x \<and> CHR ''.'' \<in> set (weight_text ops x)"

fun value_ok :: "'f float_ops \<Rightarrow> 'f dsl_value \<Rightarrow> bool" where
  "value_ok ops (NumericLiteral x) = float_ok ops x"
| "value_ok ops (Price symbol fld) \<longleftrightarrow> symbol_ok symbol \<and> fld \<in> set price_fields"
| "value_ok ops (Indicator name symbol params out) \<longleftrightarrow>
     name \<in> set indicators \<and> symbol_ok symbol \<and> list_all (param_ok ops) params \<and> pred_option keyword_ok out"
| "value_ok ops (Metric name symbol period) \<longleftrightarrow> name \<in> set metrics \<and> symbol_ok symbol \<and> period \<noteq> Some 0"

fun cond_ok :: "'f float_ops \<Rightarrow> 'f condition \<Rightarrow> bool" where
  "cond_ok ops (Comparison op l r) \<longleftrightarrow> op \<in> set comparison_ops \<and> value_ok ops l \<and> value_ok ops r"
| "cond_ok ops (Crossover dir f s) \<longleftrightarrow> (dir = ''above'' \<or> dir = ''below'') \<and> value_ok ops f \<and> value_ok ops s"
| "cond_ok ops (LogicalOp op cs) \<longleftrightarrow> op \<in> set logical_ops \<and> list_all (cond_ok ops) cs"

fun block_ok :: "'f float_ops \<Rightarrow> 'f block \<Rightarrow> bool" where
  "block_ok ops (StrategyB name kids a) = False"
| "block_ok ops (GroupB name kids w) \<longleftrightarrow> plain_text name \<and> pred_option (float_ok ops) w \<and> list_all (block_ok ops) kids"
| "block_ok ops (WeightB meth kids lookback topn) \<longleftrightarrow> meth \<in> set weight_methods \<and> list_all (block_ok ops) kids"
| "block_ok ops (AssetB symbol w) \<longleftrightarrow> symbol_ok symbol \<and> pred_option (float_ok ops) w"
| "block_ok ops (IfB c th el) \<longleftrightarrow> cond_ok ops c \<and> block_ok ops th \<and> pred_option (block_ok ops) el"
| "block_ok ops (FilterB crit dir cnt kids lookback) \<longleftrightarrow>
     crit \<in> set filter_criteria \<and> (dir = ''top'' \<or> dir = ''bottom'') \<and> list_all (block_ok ops) kids"

definition attrs_ok :: "strategy_attrs \<Rightarrow> bool" where
  "attrs_ok a \<longleftrightarrow>
     pred_option (\<lambda>w. w \<in> set rebalance_frequencies) (at_rebalance a) \<and> pred_option symbol_ok (at_benchmark a) \<and>
     pred_option (\<lambda>w. w \<noteq> [] \<and> plain_text w) (at_description a)"

text \<open>How deep the parentheses of a printed node nest.\<close>

fun value_depth :: "'f dsl_value \<Rightarrow> nat" where
  "value_depth (NumericLiteral x) = 0"
| "value_depth v = 1"

fun cond_depth :: "'f condition \<Rightarrow> nat" where
  "cond_depth (Comparison op l r) = Suc (max (value_depth l) (value_depth r))"
| "cond_depth (Crossover dir f s) = Suc (max (value_depth f) (value_depth s))"
| "cond_depth (LogicalOp op cs) = Suc (fold max (map cond_depth cs) 0)"

fun block_depth :: "'f block \<Rightarrow> nat" where
  "block_depth (StrategyB name kids a) = Suc (fold max (map block_depth kids) 0)"
| "block_depth (GroupB name kids w) = Suc (fold max (map block_depth kids) 0)"
| "block_depth (WeightB meth kids lookback topn) = Suc (fold max (map block_depth kids) 0)"
| "block_depth (AssetB symbol w) = 1"
| "block_depth (IfB c th el) =
     Suc (max (cond_depth c) (max (block_depth th) (case el of None \<Rightarrow> 0 | Some b \<Rightarrow> Suc (block_depth b))))"
| "block_depth (FilterB crit dir cnt kids lookback) = Suc (fold max (map block_depth kids) 1)"

fun canonical :: "'f float_ops \<Rightarrow> 'f block \<Rightarrow> bool" where
  "canonical ops (StrategyB name kids a) \<longleftrightarrow>
     plain_text name \<and> attrs_ok a \<and> list_all (block_ok ops) kids \<and> block_depth (StrategyB name kids a) \<le> max_nesting"
| "canonical ops _ = False"

section \<open>The tokens of a node\<close>

fun param_token :: "'f float_ops \<Rightarrow> 'f param \<Rightarrow> token" where
  "param_token ops (PInt n) = (NUMBER, show_int n)"
| "param_token ops (PFloat x) = (NUMBER, weight_text ops x)"

fun value_tokens :: "'f float_ops \<Rightarrow> 'f dsl_value \<Rightarrow> token list" where
  "value_tokens ops (NumericLiteral x) = [(NUMBER, weight_text ops x)]"
| "value_tokens ops (Price symbol fld) =
     [lp, (SYMBOL, ''price''), (SYMBOL, symbol)] @ (if fld = ''close'' then [] else [(KEYWORD, '':'' @ fld)]) @ [rp]"
| "value_tokens ops (Indicator name symbol params out) =
     [lp, (SYMBOL, name), (SYMBOL, symbol)] @ map (param_token ops) params @
     (case out of None \<Rightarrow> [] | Some w \<Rightarrow> [(KEYWORD, '':'' @ w)]) @ [rp]"
| "value_tokens ops (Metric name symbol period) =
     [lp, (SYMBOL, name), (SYMBOL, symbol)] @ (case period of None \<Rightarrow> [] | Some n \<Rightarrow> [(NUMBER, show_int n)]) @ [rp]"

fun cond_tokens :: "'f float_ops \<Rightarrow> 'f condition \<Rightarrow> token list" where
  "cond_tokens ops (Comparison op l r) = [lp, (OPERATOR, op)] @ value_tokens ops l @ value_tokens ops r @ [rp]"
| "cond_tokens ops (Crossover dir f s) =
     [lp, (OPERATOR, ''crosses-'' @ dir)] @ value_tokens ops f @ value_tokens ops s @ [rp]"
| "cond_tokens ops (LogicalOp op cs) = [lp, (SYMBOL, op)] @ concat (map (cond_tokens ops) cs) @ [rp]"

definition weight_tokens :: "'f float_ops \<Rightarrow> 'f option \<Rightarrow> token list" where
  "weight_tokens ops w = (case w of None \<Rightarrow> [] | Some x \<Rightarrow> [(KEYWORD, '':weight''), (NUMBER, weight_text ops x)])"

definition option_tokens :: "string \<Rightarrow> int option \<Rightarrow> token list" where
  "option_tokens name v = (case v of None \<Rightarrow> [] | Some n \<Rightarrow> [(KEYWORD, '':'' @ name), (NUMBER, show_int n)])"

definition text_tokens :: "token_kind \<Rightarrow> string \<Rightarrow> string option \<Rightarrow> (string \<Rightarrow> string) \<Rightarrow> token list" where
  "text_tokens k name v f = (case v of None \<Rightarrow> [] | Some w \<Rightarrow> [(KEYWORD, '':'' @ name), (k, f w)])"

definition attrs_tokens :: "strategy_attrs \<Rightarrow> token list" where
  "attrs_tokens a = text_tokens SYMBOL ''rebalance'' (at_rebalance a) id @
     text_tokens SYMBOL ''benchmark'' (at_benchmark a) id @ text_tokens STRING ''description'' (at_description a) quoted"

fun block_tokens :: "'f float_ops \<Rightarrow> 'f block \<Rightarrow> token list" where
  "block_tokens ops (StrategyB name kids a) =
     [lp, (SYMBOL, ''strategy''), (STRING, quoted name)] @ attrs_tokens a @ concat (map (block_tokens ops) kids) @ [rp]"
| "block_tokens ops (GroupB name kids w) =
     [lp, (SYMBOL, ''group''), (STRING, quoted name)] @ weight_tokens ops w @ concat (map (block_tokens ops) kids) @ [rp]"
| "block_tokens ops (WeightB meth kids lookback topn) =
     [lp, (SYMBOL, ''weight''), (KEYWORD, '':method''), (SYMBOL, meth)] @ option_tokens ''lookback'' lookback @
     option_tokens ''top'' topn @ concat (map (block_tokens ops) kids) @ [rp]"
| "block_tokens ops (AssetB symbol w) = [lp, (SYMBOL, ''asset''), (SYMBOL, symbol)] @ weight_tokens ops w @ [rp]"
| "block_tokens ops (IfB c th el) =
     [lp, (SYMBOL, ''if'')] @ cond_tokens ops c @ block_tokens ops th @
     (case el of None \<Rightarrow> [] | Some b \<Rightarrow> [lp, (SYMBOL, ''else'')] @ block_tokens ops b @ [rp]) @ [rp]"
| "block_tokens ops (FilterB crit dir cnt kids lookback) =
     [lp, (SYMBOL, ''filter''), (KEYWORD, '':by''), (SYMBOL, crit), (KEYWORD, '':select''), lp, (SYMBOL, dir),
      (NUMBER, show_int cnt), rp] @ option_tokens ''lookback'' lookback @ concat (map (block_tokens ops) kids) @ [rp]"

section \<open>Printed text lexes to the tokens\<close>

definition reserved :: "string list" where
  "reserved = [''price'', ''strategy'', ''group'', ''weight'', ''asset'', ''if'', ''else'', ''filter'', ''top'', ''bottom'']"

lemma vocabulary_symbols:
  "list_all symbol_ok (rebalance_frequencies @ weight_methods @ filter_criteria @ logical_ops @ indicators @ metrics @ reserved)"
  by code_simp

lemma symbol_ok_vocabulary:
  "w \<in> set rebalance_frequencies \<Longrightarrow> symbol_ok w" "w \<in> set weight_methods \<Longrightarrow> symbol_ok w"
  "w \<in> set filter_criteria \<Longrightarrow> symbol_ok w" "w \<in> set logical_ops \<Longrightarrow> symbol_ok w"
  "w \<in> set indicators \<Longrightarrow> symbol_ok w" "w \<in> set metrics \<Longrightarrow> symbol_ok w" "w \<in> set reserved \<Longrightarrow> symbol_ok w"
  using vocabulary_symbols by (auto simp: list_all_iff)

lemma lexes_reserved:
  "lexes ''price'' [(SYMBOL, ''price'')]" "lexes ''strategy'' [(SYMBOL, ''strategy'')]"
  "lexes ''group'' [(SYMBOL, ''group'')]" "lexes ''weight'' [(SYMBOL, ''weight'')]"
  "lexes ''asset'' [(SYMBOL, ''asset'')]" "lexes ''if'' [(SYMBOL, ''if'')]"
  "lexes ''else'' [(SYMBOL, ''else'')]" "lexes ''filter'' [(SYMBOL, ''filter'')]"
  "lexes ''top'' [(SYMBOL, ''top'')]" "lexes ''bottom'' [(SYMBOL, ''bottom'')]"
  by (rule lexes_symbol, rule symbol_ok_vocabulary(7), simp add: reserved_def)+

lemma keyword_fields: "w \<in> set price_fields \<Longrightarrow> keyword_ok w"
proof -
  have "list_all keyword_ok price_fields" by code_simp
  then show "w \<in> set price_fields \<Longrightarrow> keyword_ok w" by (simp add: list_all_iff)
qed

definition attr_keywords :: "string list" where
  "attr_keywords = [''weight'', ''method'', ''lookback'', ''top'', ''by'', ''select'', ''rebalance'', ''benchmark'', ''description'']"

lemma lexes_attr: "w \<in> set attr_keywords \<Longrightarrow> lexes ('':'' @ w) [(KEYWORD, '':'' @ w)]"
proof -
  have "list_all keyword_ok attr_keywords" by code_simp
  then show "w \<in> set attr_keywords \<Longrightarrow> ?thesis" using lexes_keyword [of w] by (simp add: list_all_iff)
qed

text \<open>A word, a space and more text; a list of texts.\<close>

lemma lexes_space: "lexes x ts \<Longrightarrow> lexes y us \<Longrightarrow> lexes (x @ '' '' @ y) (ts @ us)"
  using lexes_sep [of x ts y us "CHR '' ''"] by simp

definition lexes_all :: "string list \<Rightarrow> token list \<Rightarrow> bool" where
  "lexes_all xs ts \<longleftrightarrow> (\<exists>tss. list_all2 lexes xs tss \<and> ts = concat tss)"

lemma lexes_all_Nil [simp, intro]: "lexes_all [] []"
  by (simp add: lexes_all_def)

lemma lexes_all_Cons: "lexes x ts \<Longrightarrow> lexes_all xs us \<Longrightarrow> lexes_all (x # xs) (ts @ us)"
  unfolding lexes_all_def by (metis concat.simps(2) list_all2_Cons)

lemma lexes_all_single: "lexes x ts \<Longrightarrow> lexes_all [x] ts"
  using lexes_all_Cons [of x ts "[]" "[]"] by simp

lemma lexes_all_append: "lexes_all xs ts \<Longrightarrow> lexes_all ys us \<Longrightarrow> lexes_all (xs @ ys) (ts @ us)"
  unfolding lexes_all_def by (metis concat_append list_all2_appendI)

lemma lexes_all_join: "lexes_all xs ts \<Longrightarrow> is_sep c \<Longrightarrow> lexes (join [c] xs) ts"
  using lexes_join by (auto simp: lexes_all_def)

lemma lexes_all_parens: "lexes_all xs ts \<Longrightarrow> lexes (parens xs) (lp # ts @ [rp])"
  using lexes_parens by (auto simp: lexes_all_def)

lemma lexes_all_layout:
  "lexes opening ts \<Longrightarrow> lexes_all kids us \<Longrightarrow> lexes (layout pretty indent opening kids) (ts @ us @ [rp])"
  using lexes_layout by (auto simp: lexes_all_def)

lemma mapR_lexes:
  assumes "\<And>x. x \<in> set xs \<Longrightarrow> \<exists>t. f x = Inr t \<and> lexes t (tok x)"
  obtains ts where "mapR f xs = Inr ts" "lexes_all ts (concat (map tok xs))"
  using assms
proof (induction xs arbitrary: thesis)
  case (Cons x xs)
  obtain t where "f x = Inr t" "lexes t (tok x)" using Cons.prems(2) by auto
  moreover obtain ts where "mapR f xs = Inr ts" "lexes_all ts (concat (map tok xs))" using Cons by auto
  ultimately show ?case using Cons.prems(1) [of "t # ts"] lexes_all_Cons by simp
qed simp

lemma float_text:
  assumes "float_ok ops x"
  shows "format_weight ops x = Inr (weight_text ops x)" "lexes (weight_text ops x) [(NUMBER, weight_text ops x)]"
  using assms lexes_number by (auto simp: float_ok_def weight_text_def result_simps)

lemma serialize_param_lexes:
  "param_ok ops p \<Longrightarrow> \<exists>t. serialize_param ops p = Inr t \<and> lexes t [param_token ops p]"
  by (cases p) (auto simp: float_text lexes_number [OF number_ok_show_int])

lemma serialize_value_lexes:
  assumes "value_ok ops v"
  shows "\<exists>t. serialize_value ops v = Inr t \<and> lexes t (value_tokens ops v)"
proof (cases v)
  case (NumericLiteral x)
  then show ?thesis using assms float_text [of ops x] by auto
next
  case (Price symbol fld)
  then have "lexes_all (if fld = ''close'' then [] else ['':'' @ fld]) (if fld = ''close'' then [] else [(KEYWORD, '':'' @ fld)])"
    using assms lexes_all_single [OF lexes_keyword [OF keyword_fields]] by simp
  from lexes_all_parens [OF lexes_all_Cons [OF lexes_reserved(1) lexes_all_Cons [OF lexes_symbol this]]]
  show ?thesis using assms Price by auto
next
  case (Indicator name symbol params out)
  have out: "lexes_all (case out of None \<Rightarrow> [] | Some w \<Rightarrow> if w = [] then [] else ['':'' @ w])
      (case out of None \<Rightarrow> [] | Some w \<Rightarrow> [(KEYWORD, '':'' @ w)])"
    using assms Indicator lexes_all_single [OF lexes_keyword] by (auto simp: keyword_ok_def split: option.split)
  obtain ps where ps: "mapR (serialize_param ops) params = Inr ps" "lexes_all ps (concat (map (\<lambda>p. [param_token ops p]) params))"
    using assms Indicator serialize_param_lexes
    by (elim mapR_lexes [of params "serialize_param ops" "\<lambda>p. [param_token ops p]", rotated]) (auto simp: list_all_iff)
  from lexes_all_parens [OF lexes_all_Cons [OF lexes_symbol lexes_all_Cons [OF lexes_symbol lexes_all_append [OF ps(2) out]]]]
  show ?thesis using assms Indicator ps(1) symbol_ok_vocabulary(5) by auto
next
  case (Metric name symbol period)
  have "lexes_all (case period of None \<Rightarrow> [] | Some n \<Rightarrow> [show_int n]) (case period of None \<Rightarrow> [] | Some n \<Rightarrow> [(NUMBER, show_int n)])"
    using lexes_all_single [OF lexes_number [OF number_ok_show_int]] by (auto split: option.split)
  from lexes_all_parens [OF lexes_all_Cons [OF lexes_symbol lexes_all_Cons [OF lexes_symbol this]]]
  show ?thesis using assms Metric symbol_ok_vocabulary(6) by (auto split: option.splits)
qed

lemma serialize_pair_lexes:
  assumes "lexes op ts" "value_ok ops l" "value_ok ops r"
  shows "\<exists>a b. serialize_value ops l = Inr a \<and> serialize_value ops r = Inr b \<and>
    lexes (parens [op, a, b]) (lp # ts @ value_tokens ops l @ value_tokens ops r @ [rp])"
proof -
  obtain a b where ab: "serialize_value ops l = Inr a" "serialize_value ops r = Inr b"
      "lexes a (value_tokens ops l)" "lexes b (value_tokens ops r)"
    using serialize_value_lexes [OF assms(2)] serialize_value_lexes [OF assms(3)] by blast
  from lexes_all_parens [OF lexes_all_Cons [OF assms(1) lexes_all_Cons [OF ab(3) lexes_all_single [OF ab(4)]]]] ab(1,2)
  show ?thesis by auto
qed

lemma serialize_condition_lexes:
  "cond_ok ops c \<Longrightarrow> \<exists>t. serialize_condition ops c = Inr t \<and> lexes t (cond_tokens ops c)"
proof (induction c)
  case (Comparison op l r)
  then have "lexes op [(OPERATOR, op)]" by (intro lexes_operator) (auto simp: comparison_ops_def operators_def)
  from serialize_pair_lexes [OF this, of ops l r] Comparison show ?case by auto
next
  case (Crossover dir f s)
  then have "lexes (''crosses-'' @ dir) [(OPERATOR, ''crosses-'' @ dir)]"
    by (intro lexes_operator) (auto simp: operators_def)
  from serialize_pair_lexes [OF this, of ops f s] Crossover show ?case by auto
next
  case (LogicalOp op cs)
  have "\<exists>t. serialize_condition ops c = Inr t \<and> lexes t (cond_tokens ops c)" if "c \<in> set cs" for c
    using LogicalOp that by (auto simp: list_all_iff)
  then obtain ts where ts: "mapR (serialize_condition ops) cs = Inr ts" "lexes_all ts (concat (map (cond_tokens ops) cs))"
    by (rule mapR_lexes) auto
  have "lexes op [(SYMBOL, op)]" using LogicalOp by (intro lexes_symbol symbol_ok_vocabulary(4)) simp
  from lexes_close [OF lexes_open [OF lexes_space [OF this lexes_all_join [OF ts(2), of "CHR '' ''"]]]]
  show ?case using ts(1) by simp
qed

subsection \<open>Blocks\<close>

lemma lexes_pair: "w \<in> set attr_keywords \<Longrightarrow> lexes x ts \<Longrightarrow> lexes ('':'' @ w @ '' '' @ x) ((KEYWORD, '':'' @ w) # ts)"
  using lexes_space [OF lexes_attr] by fastforce

lemma weight_attr_lexes:
  assumes "lexes x ts" "pred_option (float_ok ops) w"
  shows "\<exists>attr. weight_attr ops w = Inr attr \<and> lexes (x @ attr) (ts @ weight_tokens ops w)"
proof (cases w)
  case (Some y)
  have "lexes ('':weight '' @ weight_text ops y) [(KEYWORD, '':weight''), (NUMBER, weight_text ops y)]"
    using lexes_pair [of "''weight''" "weight_text ops y"] float_text(2) [of ops y] assms(2) Some by (simp add: attr_keywords_def)
  from lexes_space [OF assms(1) this] show ?thesis
    using Some assms(2) float_text(1) [of ops y] by (simp add: weight_attr_def weight_tokens_def)
qed (use assms in \<open>simp add: weight_attr_def weight_tokens_def\<close>)

lemma option_attr_lexes:
  "name \<in> set attr_keywords \<Longrightarrow> lexes_all (option_attr name v) (option_tokens name v)"
  using lexes_all_single [OF lexes_pair [OF _ lexes_number [OF number_ok_show_int]]]
  by (auto simp: option_attr_def option_tokens_def split: option.split)

lemma text_attr_lexes:
  "name \<in> set attr_keywords \<Longrightarrow> pred_option (\<lambda>w. w \<noteq> [] \<and> lexes (f w) [(k, f w)]) v \<Longrightarrow>
   lexes_all (text_attr name v f) (text_tokens k name v f)"
  using lexes_all_single [OF lexes_pair [of name "f (the v)"]]
  by (auto simp: text_attr_def text_tokens_def split: option.split)

lemma strategy_parts_lexes:
  assumes "attrs_ok a"
  shows "lexes_all (strategy_parts name a) ((STRING, quoted name) # attrs_tokens a)"
proof -
  have ok: "pred_option (\<lambda>w. w \<noteq> [] \<and> lexes (id w) [(SYMBOL, id w)]) (at_rebalance a)"
    "pred_option (\<lambda>w. w \<noteq> [] \<and> lexes (id w) [(SYMBOL, id w)]) (at_benchmark a)"
    "pred_option (\<lambda>w. w \<noteq> [] \<and> lexes (quoted w) [(STRING, quoted w)]) (at_description a)"
    using assms symbol_ok_vocabulary(1) lexes_symbol lexes_quoted
    by (auto simp: attrs_ok_def pred_option_def symbol_ok_def)
  have "lexes_all (text_attr ''rebalance'' (at_rebalance a) id) (text_tokens SYMBOL ''rebalance'' (at_rebalance a) id)"
    "lexes_all (text_attr ''benchmark'' (at_benchmark a) id) (text_tokens SYMBOL ''benchmark'' (at_benchmark a) id)"
    "lexes_all (text_attr ''description'' (at_description a) quoted) (text_tokens STRING ''description'' (at_description a) quoted)"
    by (rule text_attr_lexes [OF _ ok(1)] text_attr_lexes [OF _ ok(2)] text_attr_lexes [OF _ ok(3)], simp add: attr_keywords_def)+
  from lexes_all_Cons [OF lexes_quoted lexes_all_append [OF this(1) lexes_all_append [OF this(2,3)]]]
  show ?thesis by (simp add: strategy_parts_def attrs_tokens_def)
qed

lemma lexes_word_open: "lexes w ts \<Longrightarrow> lexes x us \<Longrightarrow> lexes (''('' @ w @ '' '' @ x) (lp # ts @ us)"
  using lexes_open [OF lexes_space] by fastforce

lemma strategy_text_lexes:
  assumes "lexes_all parts ts" "lexes_all kids us"
  shows "lexes (join [new_line] ([spaces indent @ ''(strategy''] @ map (\<lambda>p. spaces k @ p) parts @ kids @ [spaces indent @ '')'']))
      ([lp, (SYMBOL, ''strategy'')] @ ts @ us @ [rp])"
    "lexes (''(strategy '' @ join '' '' parts @ '' '' @ join '' '' kids @ '')'') ([lp, (SYMBOL, ''strategy'')] @ ts @ us @ [rp])"
proof -
  obtain tss where tss: "list_all2 lexes parts tss" "ts = concat tss" using assms(1) by (auto simp: lexes_all_def)
  from tss(1) have "list_all2 lexes (map (\<lambda>p. spaces k @ p) parts) tss"
    by (simp add: list_all2_map1 list_all2_mono lexes_spaces)
  then have "lexes_all (map (\<lambda>p. spaces k @ p) parts) ts" using tss(2) by (auto simp: lexes_all_def)
  from lexes_all_append [OF lexes_all_single [OF lexes_spaces [OF lexes_open [OF lexes_reserved(2)]]]
    lexes_all_append [OF this lexes_all_append [OF assms(2) lexes_all_single [OF lexes_spaces [OF lexes_rp]]]],
    THEN lexes_all_join, of new_line]
  show "lexes (join [new_line] ([spaces indent @ ''(strategy''] @ map (\<lambda>p. spaces k @ p) parts @ kids @ [spaces indent @ '')'']))
      ([lp, (SYMBOL, ''strategy'')] @ ts @ us @ [rp])" by simp
  from lexes_open [OF lexes_space [OF lexes_reserved(2) lexes_space [OF lexes_all_join [OF assms(1), of "CHR '' ''"]
    lexes_close [OF lexes_all_join [OF assms(2), of "CHR '' ''"]]]]]
  show "lexes (''(strategy '' @ join '' '' parts @ '' '' @ join '' '' kids @ '')'') ([lp, (SYMBOL, ''strategy'')] @ ts @ us @ [rp])"
    by simp
qed

lemma if_text_lexes:
  assumes "lexes cond cs" "lexes th ts"
  shows "lexes (join [new_line] ([spaces i @ ''(if '' @ cond, th] @ [spaces i @ '')'']))
      ([lp, (SYMBOL, ''if'')] @ cs @ ts @ [rp])"
    "lexes (''(if '' @ cond @ '' '' @ th @ '')'') ([lp, (SYMBOL, ''if'')] @ cs @ ts @ [rp])"
    "lexes el es \<Longrightarrow>
      lexes (join [new_line] ([spaces i @ ''(if '' @ cond, th] @ [spaces j @ ''(else'', el, spaces j @ '')''] @ [spaces i @ '')'']))
      ([lp, (SYMBOL, ''if'')] @ cs @ ts @ ([lp, (SYMBOL, ''else'')] @ es @ [rp]) @ [rp])"
    "lexes el es \<Longrightarrow>
      lexes (''(if '' @ cond @ '' '' @ th @ '' (else '' @ el @ '')'' @ '')'')
      ([lp, (SYMBOL, ''if'')] @ cs @ ts @ ([lp, (SYMBOL, ''else'')] @ es @ [rp]) @ [rp])"
proof -
  note open_if = lexes_word_open [OF lexes_reserved(6) assms(1)]
  note closing = lexes_all_single [OF lexes_spaces [OF lexes_rp]]
  note lines = lexes_all_Cons [OF lexes_spaces [OF open_if] lexes_all_Cons [OF assms(2)]]
  show "lexes (join [new_line] ([spaces i @ ''(if '' @ cond, th] @ [spaces i @ '')'']))
      ([lp, (SYMBOL, ''if'')] @ cs @ ts @ [rp])"
    using lexes_all_join [OF lines [OF closing], of new_line] by simp
  show "lexes (''(if '' @ cond @ '' '' @ th @ '')'') ([lp, (SYMBOL, ''if'')] @ cs @ ts @ [rp])"
    using lexes_space [OF open_if lexes_close [OF assms(2)]] by simp
  assume el: "lexes el es"
  from lexes_all_join [OF lines [OF lexes_all_Cons [OF lexes_spaces [OF lexes_open [OF lexes_reserved(7)]]
    lexes_all_Cons [OF el lexes_all_Cons [OF lexes_spaces [OF lexes_rp] closing]]]], of new_line]
  show "lexes (join [new_line] ([spaces i @ ''(if '' @ cond, th] @ [spaces j @ ''(else'', el, spaces j @ '')''] @ [spaces i @ '')'']))
      ([lp, (SYMBOL, ''if'')] @ cs @ ts @ ([lp, (SYMBOL, ''else'')] @ es @ [rp]) @ [rp])" by simp
  from lexes_space [OF open_if lexes_space [OF assms(2) lexes_close [OF lexes_close [OF lexes_word_open [OF lexes_reserved(7) el]]]]]
  show "lexes (''(if '' @ cond @ '' '' @ th @ '' (else '' @ el @ '')'' @ '')'')
      ([lp, (SYMBOL, ''if'')] @ cs @ ts @ ([lp, (SYMBOL, ''else'')] @ es @ [rp]) @ [rp])" by simp
qed

lemma filter_opening_lexes:
  assumes "crit \<in> set filter_criteria" "dir = ''top'' \<or> dir = ''bottom''"
  shows "lexes (''(filter '' @ join '' '' ([('':by '' @ crit), ('':select ('' @ dir @ '' '' @ show_int cnt @ '')'')] @
      option_attr ''lookback'' lookback))
    ([lp, (SYMBOL, ''filter''), (KEYWORD, '':by''), (SYMBOL, crit), (KEYWORD, '':select''), lp, (SYMBOL, dir),
      (NUMBER, show_int cnt), rp] @ option_tokens ''lookback'' lookback)"
proof -
  have crit: "lexes ('':'' @ ''by'' @ '' '' @ crit) [(KEYWORD, '':'' @ ''by''), (SYMBOL, crit)]"
    using assms(1) by (intro lexes_pair lexes_symbol symbol_ok_vocabulary(3)) (simp_all add: attr_keywords_def)
  have "lexes dir [(SYMBOL, dir)]" using assms(2) lexes_reserved by auto
  from lexes_pair [OF _ lexes_close [OF lexes_word_open [OF this lexes_number [OF number_ok_show_int, of cnt]]], of "''select''"]
  have sel: "lexes ('':select ('' @ dir @ '' '' @ show_int cnt @ '')'')
      [(KEYWORD, '':select''), lp, (SYMBOL, dir), (NUMBER, show_int cnt), rp]" by (simp add: attr_keywords_def)
  have look: "lexes_all (option_attr ''lookback'' lookback) (option_tokens ''lookback'' lookback)"
    by (rule option_attr_lexes) (simp add: attr_keywords_def)
  from lexes_word_open [OF lexes_reserved(8) lexes_all_join [OF lexes_all_Cons [OF crit lexes_all_Cons [OF sel look]], of "CHR '' ''"]]
  show ?thesis by simp
qed

lemma weight_opening_lexes:
  assumes "meth \<in> set weight_methods"
  shows "lexes (''(weight '' @ join '' '' ([('':method '' @ meth)] @ option_attr ''lookback'' lookback @ option_attr ''top'' topn))
    ([lp, (SYMBOL, ''weight''), (KEYWORD, '':method''), (SYMBOL, meth)] @ option_tokens ''lookback'' lookback @ option_tokens ''top'' topn)"
proof -
  have meth: "lexes ('':'' @ ''method'' @ '' '' @ meth) [(KEYWORD, '':'' @ ''method''), (SYMBOL, meth)]"
    using assms by (intro lexes_pair lexes_symbol symbol_ok_vocabulary(2)) (simp_all add: attr_keywords_def)
  have opts: "lexes_all (option_attr ''lookback'' lookback) (option_tokens ''lookback'' lookback)"
    "lexes_all (option_attr ''top'' topn) (option_tokens ''top'' topn)"
    by (rule option_attr_lexes, simp add: attr_keywords_def)+
  from lexes_word_open [OF lexes_reserved(4) lexes_all_join [OF lexes_all_Cons [OF meth lexes_all_append [OF opts]], of "CHR '' ''"]]
  show ?thesis by simp
qed

lemma kids_lexes:
  assumes "\<And>b indent. b \<in> set kids \<Longrightarrow> block_ok ops b \<Longrightarrow>
      \<exists>t. serialize_block ops pretty indent b = Inr t \<and> lexes t (block_tokens ops b)"
    "list_all (block_ok ops) kids"
  obtains ts where "mapR (serialize_block ops pretty k) kids = Inr ts" "lexes_all ts (concat (map (block_tokens ops) kids))"
  using assms by (elim mapR_lexes [rotated]) (auto simp: list_all_iff)

lemma serialize_block_lexes:
  "block_ok ops b \<Longrightarrow> \<exists>t. serialize_block ops pretty indent b = Inr t \<and> lexes t (block_tokens ops b)"
proof (induction b arbitrary: indent)
  case (GroupB name kids w)
  obtain ts where ts: "mapR (serialize_block ops pretty (if pretty then indent + 2 else 0)) kids = Inr ts"
      "lexes_all ts (concat (map (block_tokens ops) kids))"
    using GroupB by (elim kids_lexes [rotated 2]) auto
  obtain attr where attr: "weight_attr ops w = Inr attr"
      "lexes ((''(group '' @ quoted name) @ attr) ([lp, (SYMBOL, ''group''), (STRING, quoted name)] @ weight_tokens ops w)"
    using weight_attr_lexes [OF lexes_word_open [OF lexes_reserved(3) lexes_quoted], of ops w name] GroupB.prems by auto
  from lexes_all_layout [OF attr(2) ts(2)] show ?case using ts(1) attr(1) by simp
next
  case (WeightB meth kids lookback topn)
  obtain ts where ts: "mapR (serialize_block ops pretty (if pretty then indent + 2 else 0)) kids = Inr ts"
      "lexes_all ts (concat (map (block_tokens ops) kids))"
    using WeightB by (elim kids_lexes [rotated 2]) auto
  from WeightB.prems have "meth \<in> set weight_methods" by simp
  from lexes_all_layout [OF weight_opening_lexes [OF this] ts(2)] show ?case using ts(1) by simp
next
  case (AssetB symbol w)
  from AssetB have "symbol_ok symbol" by simp
  from weight_attr_lexes [OF lexes_word_open [OF lexes_reserved(5) lexes_symbol [OF this]], of ops w] AssetB
  obtain attr where attr: "weight_attr ops w = Inr attr"
      "lexes ((''(asset '' @ symbol) @ attr) ([lp, (SYMBOL, ''asset''), (SYMBOL, symbol)] @ weight_tokens ops w)" by auto
  from lexes_close [OF attr(2)] lexes_spaces [OF lexes_close [OF attr(2)]] show ?case using attr(1) by simp
next
  case (IfB c th el)
  obtain ct where ct: "serialize_condition ops c = Inr ct" "lexes ct (cond_tokens ops c)"
    using serialize_condition_lexes IfB.prems by auto
  obtain tt where tt: "serialize_block ops pretty (if pretty then indent + 2 else 0) th = Inr tt" "lexes tt (block_tokens ops th)"
    using IfB.IH(1) IfB.prems by auto
  show ?case
  proof (cases el)
    case None
    then show ?thesis using if_text_lexes(1,2) [OF ct(2) tt(2)] ct(1) tt(1) by simp
  next
    case (Some b)
    obtain et where et: "serialize_block ops pretty (if pretty then indent + 4 else 0) b = Inr et" "lexes et (block_tokens ops b)"
      using IfB.IH(2) [of b] IfB.prems Some by auto
    then show ?thesis using if_text_lexes(3,4) [OF ct(2) tt(2) et(2)] ct(1) tt(1) Some by simp
  qed
next
  case (FilterB crit dir cnt kids lookback)
  obtain ts where ts: "mapR (serialize_block ops pretty (if pretty then indent + 2 else 0)) kids = Inr ts"
      "lexes_all ts (concat (map (block_tokens ops) kids))"
    using FilterB by (elim kids_lexes [rotated 2]) auto
  from FilterB.prems have "crit \<in> set filter_criteria" "dir = ''top'' \<or> dir = ''bottom''" by auto
  from lexes_all_layout [OF filter_opening_lexes [OF this] ts(2)] show ?case using ts(1) by simp
qed simp

lemma serialize_lexes:
  assumes "canonical ops s"
  shows "\<exists>t. serialize ops pretty s = Inr t \<and> lexes t (block_tokens ops s)"
proof (cases s)
  case (StrategyB name kids a)
  obtain ts where ts: "mapR (serialize_block ops pretty (if pretty then 2 else 0)) kids = Inr ts"
      "lexes_all ts (concat (map (block_tokens ops) kids))"
    using serialize_block_lexes assms StrategyB by (elim kids_lexes [rotated 2]) auto
  have "attrs_ok a" using assms StrategyB by simp
  from strategy_text_lexes [OF strategy_parts_lexes [OF this] ts(2)] show ?thesis
    using ts(1) StrategyB by (cases pretty) (simp_all add: serialize_def numeral_2_eq_2)
qed (use assms in auto)

section \<open>The parser reads the tokens back\<close>

lemma not_dot_show_int: "CHR ''.'' \<notin> set (show_int n)"
  using all_digits_show_digits [of "\<bar>n\<bar>"] by (auto simp: show_int_def list_all_iff is_digit_def)

lemma parse_params_tokens:
  assumes "list_all (param_ok ops) ps" "k \<noteq> NUMBER"
  shows "parse_params ops (map (param_token ops) ps @ (k, v) # rest) = Inr (ps, (k, v) # rest)"
  using assms(1)
proof (induction ps)
  case (Cons p ps)
  then show ?case
    by (cases p) (auto simp: int_of_text_show_int not_dot_show_int float_ok_def)
qed (use assms(2) in simp)

lemma parse_value_tokens: "value_ok ops v \<Longrightarrow> parse_value ops (value_tokens ops v @ rest) = Inr (v, rest)"
proof (cases v)
  case (Indicator name symbol params out)
  assume "value_ok ops v"
  moreover have "''price'' \<notin> set indicators" by (simp add: indicators_def)
  ultimately show ?thesis
    using Indicator parse_params_tokens [of ops params]
    by (cases out) (auto simp: parse_value_def parse_indicator_rest_def)
next
  case (Metric name symbol period)
  assume "value_ok ops v"
  moreover have "list_all (\<lambda>w. w \<noteq> ''price'' \<and> w \<notin> set indicators) metrics" by code_simp
  ultimately show ?thesis
    using Metric by (cases period) (auto simp: parse_value_def parse_metric_rest_def int_of_text_show_int list_all_iff)
qed (auto simp: parse_value_def parse_price_rest_def float_ok_def)

lemma parse_pair_tokens:
  "value_ok ops l \<Longrightarrow> value_ok ops r \<Longrightarrow>
   parse_pair ops (value_tokens ops l @ value_tokens ops r @ rp # rest) = Inr ((l, r), rest)"
  by (simp add: parse_pair_def parse_value_tokens)

lemma operators_apart:
  "list_all (\<lambda>w. w \<notin> set crossover_ops \<and> w \<notin> set logical_ops) comparison_ops"
  "list_all (\<lambda>w. w \<notin> set comparison_ops \<and> w \<notin> set logical_ops) crossover_ops"
  "list_all (\<lambda>w. w \<notin> set comparison_ops \<and> w \<notin> set crossover_ops) logical_ops"
  by code_simp+

lemma cond_tokens_head: "\<exists>us. cond_tokens ops c = lp # us"
  by (cases c) auto

lemma parse_operands_tokens:
  assumes "\<And>c n rest. c \<in> set cs \<Longrightarrow> 2 * length (cond_tokens ops c) \<le> n \<Longrightarrow>
      parse_condition ops n (cond_tokens ops c @ rest) = Inr (c, rest)"
    "2 * length (concat (map (cond_tokens ops) cs)) + 1 \<le> m"
  shows "parse_operands ops m (concat (map (cond_tokens ops) cs) @ rp # rest) = Inr (cs, rp # rest)"
  using assms
proof (induction cs arbitrary: m)
  case Nil
  then show ?case by (cases m) auto
next
  case (Cons c cs)
  obtain k where m: "m = Suc k" using Cons.prems(2) by (cases m) auto
  obtain us where us: "cond_tokens ops c = lp # us" using cond_tokens_head by blast
  have "parse_condition ops k (cond_tokens ops c @ concat (map (cond_tokens ops) cs) @ rp # rest) =
      Inr (c, concat (map (cond_tokens ops) cs) @ rp # rest)"
    using Cons.prems by (simp add: m)
  moreover have "parse_operands ops k (concat (map (cond_tokens ops) cs) @ rp # rest) = Inr (cs, rp # rest)"
    using Cons.prems by (intro Cons.IH) (auto simp: m us)
  ultimately show ?case by (simp add: m us)
qed

lemma parse_condition_tokens:
  "cond_ok ops c \<Longrightarrow> 2 * length (cond_tokens ops c) \<le> n \<Longrightarrow> parse_condition ops n (cond_tokens ops c @ rest) = Inr (c, rest)"
proof (induction c arbitrary: n rest)
  case (Comparison op l r)
  then obtain k where "n = Suc k" by (cases n) auto
  with Comparison show ?case by (simp add: parse_operator_def parse_pair_tokens)
next
  case (Crossover dir l r)
  then obtain k where "n = Suc k" by (cases n) auto
  with Crossover operators_apart(2) show ?case
    by (auto simp: parse_operator_def parse_pair_tokens crossover_ops_def)
next
  case (LogicalOp op cs)
  then obtain k where n: "n = Suc k" by (cases n) auto
  have "parse_operands ops k (concat (map (cond_tokens ops) cs) @ rp # rest) = Inr (cs, rp # rest)"
    using LogicalOp by (intro parse_operands_tokens) (auto simp: n list_all_iff)
  then show ?case using LogicalOp.prems operators_apart(3) by (simp add: n parse_operator_def list_all_iff)
qed

subsection \<open>Blocks\<close>

lemma parse_string_quoted: "plain_text name \<Longrightarrow> parse_string ((STRING, quoted name) # rest) = Inr (name, rest)"
  by (simp add: parse_string_def quoted_def unescape_escape_iff)

lemma parse_opt_weight_tokens:
  "pred_option (float_ok ops) w \<Longrightarrow> peek_keyword ts = None \<Longrightarrow> parse_opt_weight ops (weight_tokens ops w @ ts) = Inr (w, ts)"
  by (cases w) (auto simp: parse_opt_weight_def weight_tokens_def parse_float_def float_ok_def)

lemma parse_opt_lookback_tokens:
  "peek_keyword ts = None \<Longrightarrow> parse_opt_lookback (option_tokens ''lookback'' v @ ts) = Inr (v, ts)"
  by (cases v) (auto simp: parse_opt_lookback_def option_tokens_def parse_int_def int_of_text_show_int)

lemma parse_weight_options_stop: "peek_keyword ts = None \<Longrightarrow> parse_weight_options l t ts = Inr ((l, t), ts)"
  by (cases ts) (auto split: if_splits)

lemma parse_weight_options_tokens:
  "peek_keyword ts = None \<Longrightarrow>
   parse_weight_options None None (option_tokens ''lookback'' l @ option_tokens ''top'' t @ ts) = Inr ((l, t), ts)"
  by (cases l; cases t) (auto simp: option_tokens_def int_of_text_show_int parse_weight_options_stop)

lemma parse_attrs_stop: "peek_keyword ts = None \<Longrightarrow> parse_attrs a ts = Inr (a, ts)"
  by (cases ts) (auto split: if_splits)

lemma parse_attrs_tokens:
  "attrs_ok a \<Longrightarrow> peek_keyword ts = None \<Longrightarrow> parse_attrs no_attrs (attrs_tokens a @ ts) = Inr (a, ts)"
  by (cases a; cases "at_rebalance a"; cases "at_benchmark a"; cases "at_description a")
    (auto simp: attrs_tokens_def text_tokens_def no_attrs_def attrs_ok_def parse_attrs_stop quoted_def unescape_escape_iff)

lemma block_tokens_head: "\<exists>ty us. block_tokens ops b = lp # (SYMBOL, ty) # us"
  by (cases b) auto

lemma kids_no_keyword: "peek_keyword (concat (map (block_tokens ops) kids) @ rp # rest) = None"
  using block_tokens_head [of ops "hd kids"] by (cases kids) auto

definition reads_back :: "'f float_ops \<Rightarrow> 'f block \<Rightarrow> bool" where
  "reads_back ops b \<longleftrightarrow> (\<forall>n rest. 2 * length (block_tokens ops b) \<le> n \<longrightarrow>
     parse_block ops n (block_tokens ops b @ rest) = Inr (b, rest))"

lemma parse_children_tokens:
  assumes "list_all (reads_back ops) kids" "2 * length (concat (map (block_tokens ops) kids)) + 1 \<le> m"
  shows "parse_children ops m (concat (map (block_tokens ops) kids) @ rp # rest) = Inr (kids, rp # rest)"
  using assms
proof (induction kids arbitrary: m)
  case Nil
  then show ?case by (cases m) auto
next
  case (Cons b bs)
  obtain k where m: "m = Suc k" using Cons.prems(2) by (cases m) auto
  obtain ty us where us: "block_tokens ops b = lp # (SYMBOL, ty) # us" using block_tokens_head by blast
  have "parse_block ops k (block_tokens ops b @ concat (map (block_tokens ops) bs) @ rp # rest) =
      Inr (b, concat (map (block_tokens ops) bs) @ rp # rest)"
    using Cons.prems by (auto simp: m reads_back_def)
  moreover have "parse_children ops k (concat (map (block_tokens ops) bs) @ rp # rest) = Inr (bs, rp # rest)"
    using Cons.prems by (intro Cons.IH) (auto simp: m us)
  ultimately show ?case by (simp add: m us)
qed

lemma reads_back_kids:
  assumes "list_all (reads_back ops) kids" "2 * length (concat (map (block_tokens ops) kids)) + 2 \<le> n"
  shows "parse_children ops (n - 1) (concat (map (block_tokens ops) kids) @ rp # rest) = Inr (kids, rp # rest)"
  using assms by (intro parse_children_tokens) auto

lemma reads_backI:
  assumes "\<And>n rest. 2 * length (block_tokens ops b) \<le> Suc n \<Longrightarrow>
    parse_block ops (Suc n) (block_tokens ops b @ rest) = Inr (b, rest)"
  shows "reads_back ops b"
  unfolding reads_back_def
proof (intro allI impI)
  fix n rest
  assume n: "2 * length (block_tokens ops b) \<le> n"
  moreover obtain ty us where "block_tokens ops b = lp # (SYMBOL, ty) # us" using block_tokens_head by blast
  ultimately obtain k where "n = Suc k" by (cases n) auto
  with assms n show "parse_block ops n (block_tokens ops b @ rest) = Inr (b, rest)" by simp
qed

lemma parse_else_tokens:
  assumes "pred_option (reads_back ops) el" "\<And>b. el = Some b \<Longrightarrow> 2 * length (block_tokens ops b) \<le> n"
  shows "parse_else (parse_block ops n)
    ((case el of None \<Rightarrow> [] | Some b \<Rightarrow> [lp, (SYMBOL, ''else'')] @ block_tokens ops b @ [rp]) @ rp # rest) = Inr (el, rp # rest)"
  using assms by (cases el) (auto simp: parse_else_def reads_back_def)

lemma parse_block_tokens: "block_ok ops b \<Longrightarrow> reads_back ops b"
proof (induction b)
  case (GroupB name kids w)
  have kids: "list_all (reads_back ops) kids" using GroupB by (auto simp: list_all_iff)
  show ?case
    using GroupB.prems parse_children_tokens [OF kids]
    by (intro reads_backI)
      (simp add: parse_group_def parse_string_quoted parse_opt_weight_tokens kids_no_keyword)
next
  case (WeightB meth kids lookback topn)
  have kids: "list_all (reads_back ops) kids" using WeightB by (auto simp: list_all_iff)
  show ?case
    using WeightB.prems parse_children_tokens [OF kids]
    by (intro reads_backI)
      (simp add: parse_weight_def parse_member_def parse_weight_options_tokens kids_no_keyword)
next
  case (AssetB symbol w)
  then show ?case
    by (intro reads_backI) (simp add: parse_asset_def parse_opt_weight_tokens)
next
  case (IfB c th el)
  have th: "reads_back ops th" and el: "pred_option (reads_back ops) el"
    using IfB by (auto simp: pred_option_def)
  show ?case
  proof (intro reads_backI)
    fix n and rest :: "token list"
    assume n: "2 * length (block_tokens ops (IfB c th el)) \<le> Suc n"
    have "parse_else (parse_block ops n)
        ((case el of None \<Rightarrow> [] | Some b \<Rightarrow> [lp, (SYMBOL, ''else'')] @ block_tokens ops b @ [rp]) @ rp # rest) = Inr (el, rp # rest)"
      using n by (intro parse_else_tokens [OF el]) auto
    moreover have "parse_block ops n (block_tokens ops th @ us) = Inr (th, us)" for us
      using th n by (auto simp: reads_back_def)
    moreover have "parse_condition ops (budget (cond_tokens ops c @ us)) (cond_tokens ops c @ us) = Inr (c, us)" for us
      using IfB.prems by (intro parse_condition_tokens) (auto simp: budget_def)
    ultimately show "parse_block ops (Suc n) (block_tokens ops (IfB c th el) @ rest) = Inr (IfB c th el, rest)"
      by (simp add: parse_if_def)
  qed
next
  case (FilterB crit dir cnt kids lookback)
  have kids: "list_all (reads_back ops) kids" using FilterB by (auto simp: list_all_iff)
  show ?case
    using FilterB.prems parse_children_tokens [OF kids]
    by (intro reads_backI)
      (auto simp: parse_filter_def parse_member_def parse_int_def int_of_text_show_int parse_opt_lookback_tokens kids_no_keyword)
qed simp

lemma parse_strategy_tokens:
  assumes "canonical ops s"
  shows "parse_strategy_block ops (block_tokens ops s) = Inr (s, [])"
proof (cases s)
  case (StrategyB name kids a)
  have kids: "list_all (reads_back ops) kids"
    using assms StrategyB parse_block_tokens by (auto simp: list_all_iff)
  have "parse_children ops (budget (concat (map (block_tokens ops) kids) @ [rp])) (concat (map (block_tokens ops) kids) @ [rp]) =
      Inr (kids, [rp])"
    by (rule parse_children_tokens [OF kids]) (simp add: budget_def)
  then show ?thesis
    using assms StrategyB kids_no_keyword [of ops kids "[]"]
    by (simp add: parse_strategy_block_def parse_string_quoted parse_attrs_tokens)
qed (use assms in auto)

section \<open>Nesting\<close>

definition nests :: "token list \<Rightarrow> nat \<Rightarrow> bool" where
  "nests ts d \<longleftrightarrow> (\<forall>depth rest. depth + d \<le> max_nesting \<longrightarrow> check_nesting depth (ts @ rest) = check_nesting depth rest)"

lemma nests_Nil [simp]: "nests [] d"
  by (simp add: nests_def)

lemma nests_flat [intro]: "k \<noteq> LPAREN \<Longrightarrow> k \<noteq> RPAREN \<Longrightarrow> nests ts d \<Longrightarrow> nests ((k, v) # ts) d"
  by (simp add: nests_def)

lemma nests_append: "nests ts d \<Longrightarrow> nests us d \<Longrightarrow> nests (ts @ us) d"
  by (simp add: nests_def)

lemma nests_mono: "nests ts d \<Longrightarrow> d \<le> e \<Longrightarrow> nests ts e"
  by (simp add: nests_def)

lemma nests_parens: "nests ts d \<Longrightarrow> nests (lp # ts @ [rp]) (Suc d)"
  by (auto simp: nests_def)

lemma fold_max_le: "(x :: nat) \<in> insert d (set ds) \<Longrightarrow> x \<le> fold max ds d"
  using Max_ge [of "set (d # ds)" x] by (simp only: Max.set_eq_fold) simp

lemma nests_concat:
  "(\<And>x. x \<in> set xs \<Longrightarrow> nests (tok x) (dep x)) \<Longrightarrow> nests (concat (map tok xs)) (fold max (map dep xs) d)"
proof -
  assume a: "\<And>x. x \<in> set xs \<Longrightarrow> nests (tok x) (dep x)"
  have "nests (concat (map tok ys)) e" if "\<And>y. y \<in> set ys \<Longrightarrow> nests (tok y) e" for ys e
    using that by (induction ys) (auto intro: nests_append)
  moreover have "nests (tok x) (fold max (map dep xs) d)" if "x \<in> set xs" for x
    using nests_mono [OF a [OF that]] fold_max_le [of "dep x" d "map dep xs"] that by simp
  ultimately show ?thesis by blast
qed

lemma check_nesting_params: "check_nesting d (map (param_token ops) ps @ rest) = check_nesting d rest"
proof (induction ps)
  case (Cons p ps)
  then show ?case by (cases p) auto
qed simp

lemma nests_value: "nests (value_tokens ops v) (value_depth v)"
  by (cases v) (auto simp: nests_def check_nesting_params split: option.split)

lemma nests_pair: "nests (lp # (k, op) # value_tokens ops l @ value_tokens ops r @ [rp]) (Suc (max (value_depth l) (value_depth r)))"
  if "k \<noteq> LPAREN" "k \<noteq> RPAREN"
  using nests_parens [OF nests_flat [OF that nests_append [OF nests_mono [OF nests_value max.cobounded1]
      nests_mono [OF nests_value max.cobounded2]]]] by simp

lemma nests_cond: "nests (cond_tokens ops c) (cond_depth c)"
proof (induction c)
  case (LogicalOp op cs)
  have "nests ((SYMBOL, op) # concat (map (cond_tokens ops) cs)) (fold max (map cond_depth cs) 0)"
    using LogicalOp by (intro nests_flat nests_concat) auto
  from nests_parens [OF this] show ?case by simp
qed (simp_all add: nests_pair)

lemma nests_attrs:
  "nests (weight_tokens ops w) d" "nests (option_tokens name v) d" "nests (attrs_tokens a) d"
  by (auto simp: nests_def weight_tokens_def option_tokens_def attrs_tokens_def text_tokens_def split: option.split)

lemma nests_block: "nests (block_tokens ops b) (block_depth b)"
proof (induction b)
  case (StrategyB name kids a)
  have "nests ((SYMBOL, ''strategy'') # (STRING, quoted name) # attrs_tokens a @ concat (map (block_tokens ops) kids))
      (fold max (map block_depth kids) 0)"
    using StrategyB by (intro nests_flat nests_append nests_attrs nests_concat) auto
  from nests_parens [OF this] show ?case by simp
next
  case (GroupB name kids w)
  have "nests ((SYMBOL, ''group'') # (STRING, quoted name) # weight_tokens ops w @ concat (map (block_tokens ops) kids))
      (fold max (map block_depth kids) 0)"
    using GroupB by (intro nests_flat nests_append nests_attrs nests_concat) auto
  from nests_parens [OF this] show ?case by simp
next
  case (WeightB meth kids lookback topn)
  have "nests ((SYMBOL, ''weight'') # (KEYWORD, '':method'') # (SYMBOL, meth) # option_tokens ''lookback'' lookback @
      option_tokens ''top'' topn @ concat (map (block_tokens ops) kids)) (fold max (map block_depth kids) 0)"
    using WeightB by (intro nests_flat nests_append nests_attrs nests_concat) auto
  from nests_parens [OF this] show ?case by simp
next
  case (AssetB symbol w)
  have "nests ((SYMBOL, ''asset'') # (SYMBOL, symbol) # weight_tokens ops w) 0"
    by (intro nests_flat nests_attrs) auto
  from nests_parens [OF this] show ?case by simp
next
  case (IfB c th el)
  define d where "d = max (cond_depth c) (max (block_depth th) (case el of None \<Rightarrow> 0 | Some b \<Rightarrow> Suc (block_depth b)))"
  have "nests (case el of None \<Rightarrow> [] | Some b \<Rightarrow> lp # ((SYMBOL, ''else'') # block_tokens ops b) @ [rp]) d"
    using IfB.IH(2) nests_mono [OF nests_parens [OF nests_flat]] by (cases el) (auto simp: d_def le_max_iff_disj)
  moreover have "nests (cond_tokens ops c) d" "nests (block_tokens ops th) d"
    by (rule nests_mono [OF nests_cond] nests_mono [OF IfB.IH(1)], simp add: d_def)+
  ultimately have "nests ((SYMBOL, ''if'') # cond_tokens ops c @ block_tokens ops th @
      (case el of None \<Rightarrow> [] | Some b \<Rightarrow> lp # ((SYMBOL, ''else'') # block_tokens ops b) @ [rp])) d"
    by (intro nests_flat nests_append) auto
  from nests_parens [OF this] show ?case by (cases el) (simp_all add: d_def)
next
  case (FilterB crit dir cnt kids lookback)
  define d where "d = fold max (map block_depth kids) 1"
  have "nests (lp # ((SYMBOL, dir) # (NUMBER, show_int cnt) # []) @ [rp]) (Suc 0)"
    by (intro nests_parens nests_flat nests_Nil) auto
  define sel where "sel = lp # [(SYMBOL, dir), (NUMBER, show_int cnt)] @ [rp]"
  from \<open>nests (lp # _) (Suc 0)\<close> have "nests sel d"
    unfolding sel_def by (rule nests_mono) (use fold_max_le [of 1 1 "map block_depth kids"] in \<open>simp add: d_def\<close>)
  moreover have "nests (concat (map (block_tokens ops) kids)) d"
    using FilterB unfolding d_def by (intro nests_concat) auto
  ultimately have "nests ((SYMBOL, ''filter'') # (KEYWORD, '':by'') # (SYMBOL, crit) # (KEYWORD, '':select'') #
      sel @ option_tokens ''lookback'' lookback @
      concat (map (block_tokens ops) kids)) d"
    by (intro nests_flat nests_append nests_attrs) auto
  from nests_parens [OF this] show ?case by (simp add: d_def sel_def)
qed

section \<open>The round trip\<close>

lemma print_parse_canonical:
  assumes "canonical ops s"
  shows "\<exists>t. serialize ops pretty s = Inr t \<and> parse_source ops t = Inr s"
proof -
  obtain t where t: "serialize ops pretty s = Inr t" "lexes t (block_tokens ops s)"
    using serialize_lexes [OF assms] by blast
  from lexesD [OF t(2), of "[]"] have tok: "tokenize t = block_tokens ops s" by simp
  have "block_depth s \<le> max_nesting" using assms by (cases s) auto
  then have "check_nesting 0 (block_tokens ops s) = Inr ()"
    using nests_block [of ops s, unfolded nests_def, rule_format, of 0 "[]"] by simp
  moreover have "block_tokens ops s \<noteq> []" using block_tokens_head [of ops s] by auto
  ultimately show ?thesis using t(1) tok parse_strategy_tokens [OF assms] by (simp add: parse_source_def)
qed

end
