(* ===== verification/Dsl_Json.thy ===== *)
theory Dsl_Json
  imports Dsl_Round_Trip
begin

text \<open>
  The JSON form of a strategy (\<^verbatim>\<open>to_json.py\<close>), which is what the database stores. A dict
  is its list of items in insertion order. Writing is total. Reading goes through untyped data: a
  missing key, data that is no dict and a non-iterable where a list is expected raise as in Python;
  a field whose value is not of the declared type ends in \<open>Untyped\<close>, because Python stores the value
  as it is and the syntax here cannot hold it.

  \<open>from_to_json_strategy\<close>: reading what was written gives the strategy back, with empty optional texts
  dropped (\<open>norm_block\<close>), for every strategy.
\<close>

section \<open>Data\<close>

datatype 'f jval =
    JvNull
  | JvBool bool
  | JvInt int
  | JvNum 'f
  | JvStr string
  | JvList "'f jval list"
  | JvObj "(string \<times> 'f jval) list"

section \<open>Writing\<close>

text \<open>The items \<^verbatim>\<open>if x is not None\<close> and \<^verbatim>\<open>if x\<close> add.\<close>

definition item :: "string \<Rightarrow> ('a \<Rightarrow> 'f jval) \<Rightarrow> 'a option \<Rightarrow> (string \<times> 'f jval) list" where
  "item k f v = (case v of None \<Rightarrow> [] | Some x \<Rightarrow> [(k, f x)])"

definition text_item :: "string \<Rightarrow> string option \<Rightarrow> (string \<times> 'f jval) list" where
  "text_item k v = (case v of None \<Rightarrow> [] | Some w \<Rightarrow> if w = [] then [] else [(k, JvStr w)])"

fun param_json :: "'f param \<Rightarrow> 'f jval" where
  "param_json (PInt n) = JvInt n"
| "param_json (PFloat x) = JvNum x"

fun value_to_json :: "'f dsl_value \<Rightarrow> 'f jval" where
  "value_to_json (NumericLiteral x) = JvObj [(''type'', JvStr ''numeric''), (''value'', JvNum x)]"
| "value_to_json (Price symbol fld) =
     JvObj ([(''type'', JvStr ''price''), (''symbol'', JvStr symbol)] @
       (if fld \<noteq> ''close'' then [(''field'', JvStr fld)] else []))"
| "value_to_json (Indicator name symbol params out) =
     JvObj ([(''type'', JvStr ''indicator''), (''name'', JvStr name), (''symbol'', JvStr symbol)] @
       (if params \<noteq> [] then [(''params'', JvList (map param_json params))] else []) @ text_item ''output'' out)"
| "value_to_json (Metric name symbol period) =
     JvObj ([(''type'', JvStr ''metric''), (''name'', JvStr name), (''symbol'', JvStr symbol)] @ item ''period'' JvInt period)"

fun condition_to_json :: "'f condition \<Rightarrow> 'f jval" where
  "condition_to_json (Comparison op l r) =
     JvObj [(''type'', JvStr ''comparison''), (''operator'', JvStr op), (''left'', value_to_json l), (''right'', value_to_json r)]"
| "condition_to_json (Crossover dir f s) =
     JvObj [(''type'', JvStr ''crossover''), (''direction'', JvStr dir), (''fast'', value_to_json f), (''slow'', value_to_json s)]"
| "condition_to_json (LogicalOp op cs) =
     JvObj [(''type'', JvStr ''logical''), (''operator'', JvStr op), (''operands'', JvList (map condition_to_json cs))]"

fun block_to_json :: "'f block \<Rightarrow> 'f jval" where
  "block_to_json (StrategyB name kids a) =
     JvObj ([(''type'', JvStr ''strategy''), (''name'', JvStr name), (''children'', JvList (map block_to_json kids))] @
       text_item ''rebalance'' (at_rebalance a) @ text_item ''benchmark'' (at_benchmark a) @
       text_item ''description'' (at_description a))"
| "block_to_json (GroupB name kids w) =
     JvObj ([(''type'', JvStr ''group''), (''name'', JvStr name), (''children'', JvList (map block_to_json kids))] @
       item ''weight'' JvNum w)"
| "block_to_json (WeightB meth kids lookback topn) =
     JvObj ([(''type'', JvStr ''weight''), (''method'', JvStr meth), (''children'', JvList (map block_to_json kids))] @
       item ''lookback'' JvInt lookback @ item ''top'' JvInt topn)"
| "block_to_json (AssetB symbol w) =
     JvObj ([(''type'', JvStr ''asset''), (''symbol'', JvStr symbol)] @ item ''weight'' JvNum w)"
| "block_to_json (IfB c th el) =
     JvObj ([(''type'', JvStr ''if''), (''condition'', condition_to_json c), (''then'', block_to_json th)] @
       (case el of None \<Rightarrow> [] | Some b \<Rightarrow> [(''else_block'', block_to_json b)]))"
| "block_to_json (FilterB crit dir cnt kids lookback) =
     JvObj ([(''type'', JvStr ''filter''), (''by'', JvStr crit), (''select_direction'', JvStr dir), (''select_count'', JvInt cnt),
       (''children'', JvList (map block_to_json kids))] @ item ''lookback'' JvInt lookback)"

section \<open>Reading\<close>

text \<open>\<^verbatim>\<open>data.get\<close> needs a dict; every other kind of value has no such attribute.\<close>

fun items :: "'f jval \<Rightarrow> (string \<times> 'f jval) list result" where
  "items (JvObj d) = Inr d"
| "items _ = Inl AttributeError"

definition need :: "(string \<times> 'f jval) list \<Rightarrow> string \<Rightarrow> 'f jval result" where
  "need d k = (case map_of d k of None \<Rightarrow> Inl KeyError | Some v \<Rightarrow> Inr v)"

fun as_str :: "'f jval \<Rightarrow> string result" where
  "as_str (JvStr s) = Inr s"
| "as_str _ = Inl Untyped"

fun as_int :: "'f jval \<Rightarrow> int result" where
  "as_int (JvInt n) = Inr n"
| "as_int _ = Inl Untyped"

fun as_float :: "'f jval \<Rightarrow> 'f result" where
  "as_float (JvNum x) = Inr x"
| "as_float _ = Inl Untyped"

fun as_param :: "'f jval \<Rightarrow> 'f param result" where
  "as_param (JvInt n) = Inr (PInt n)"
| "as_param (JvNum x) = Inr (PFloat x)"
| "as_param _ = Inl Untyped"

text \<open>\<^verbatim>\<open>data.get(k)\<close> for an optional field: a missing key and a null are \<^verbatim>\<open>None\<close>.\<close>

fun opt_value :: "('f jval \<Rightarrow> 'a result) \<Rightarrow> 'f jval option \<Rightarrow> 'a option result" where
  "opt_value f None = Inr None"
| "opt_value f (Some v) = (if v = JvNull then Inr None else bindR (f v) (\<lambda>x. Inr (Some x)))"

definition optional :: "(string \<times> 'f jval) list \<Rightarrow> string \<Rightarrow> ('f jval \<Rightarrow> 'a result) \<Rightarrow> 'a option result" where
  "optional d k f = opt_value f (map_of d k)"

text \<open>What a \<^verbatim>\<open>for\<close> loop sees; a dict yields its keys, a string its characters.\<close>

fun iterated :: "'f jval \<Rightarrow> 'f jval list result" where
  "iterated (JvList xs) = Inr xs"
| "iterated (JvStr s) = Inr (map (\<lambda>c. JvStr [c]) s)"
| "iterated (JvObj d) = Inr (map (\<lambda>(k, v). JvStr k) d)"
| "iterated _ = Inl TypeError"

definition listed :: "(string \<times> 'f jval) list \<Rightarrow> string \<Rightarrow> 'f jval list result" where
  "listed d k = (case map_of d k of None \<Rightarrow> Inr [] | Some v \<Rightarrow> iterated v)"

text \<open>Truth of a value, for \<^verbatim>\<open>if data.get(k)\<close>.\<close>

fun json_truthy :: "'f float_ops \<Rightarrow> 'f jval \<Rightarrow> bool" where
  "json_truthy ops JvNull = False"
| "json_truthy ops (JvBool b) = b"
| "json_truthy ops (JvInt n) = (n \<noteq> 0)"
| "json_truthy ops (JvNum x) = (\<not> fl_is ops x 0)"
| "json_truthy ops (JvStr s) = (s \<noteq> [])"
| "json_truthy ops (JvList xs) = (xs \<noteq> [])"
| "json_truthy ops (JvObj d) = (d \<noteq> [])"

definition value_from_json :: "'f jval \<Rightarrow> 'f dsl_value result" where
  "value_from_json v =
     bindR (items v) (\<lambda>d.
       case map_of d ''type'' of
         Some (JvStr ty) \<Rightarrow>
           if ty = ''numeric'' then bindR (need d ''value'') (\<lambda>x. bindR (as_float x) (\<lambda>y. Inr (NumericLiteral y)))
           else if ty = ''price''
           then bindR (need d ''symbol'') (\<lambda>x. bindR (as_str x) (\<lambda>symbol.
                bindR (case map_of d ''field'' of None \<Rightarrow> Inr ''close'' | Some y \<Rightarrow> as_str y) (\<lambda>fld.
                  Inr (Price symbol fld))))
           else if ty = ''indicator''
           then bindR (need d ''name'') (\<lambda>x. bindR (as_str x) (\<lambda>name.
                bindR (need d ''symbol'') (\<lambda>y. bindR (as_str y) (\<lambda>symbol.
                bindR (listed d ''params'') (\<lambda>ps. bindR (mapR as_param ps) (\<lambda>params.
                bindR (optional d ''output'' as_str) (\<lambda>out. Inr (Indicator name symbol params out))))))))
           else if ty = ''metric''
           then bindR (need d ''name'') (\<lambda>x. bindR (as_str x) (\<lambda>name.
                bindR (need d ''symbol'') (\<lambda>y. bindR (as_str y) (\<lambda>symbol.
                bindR (optional d ''period'' as_int) (\<lambda>period. Inr (Metric name symbol period))))))
           else Inl ValueError
       | _ \<Rightarrow> Inl ValueError)"

lemma size_item: "map_of d k = Some v \<Longrightarrow> size v < Suc (size_list (size_prod (\<lambda>_. 0) size) d)"
proof (induction d)
  case (Cons p d)
  then show ?case by (cases p) (auto split: if_splits)
qed simp

lemma size_iterated: "iterated v = Inr xs \<Longrightarrow> x \<in> set xs \<Longrightarrow> size x \<le> size v"
proof (cases v)
  case (JvList ys)
  assume "iterated v = Inr xs" "x \<in> set xs"
  then show ?thesis using JvList size_list_estimation' [of x ys "size x" size] by auto
qed auto

lemma size_need: "need d k = Inr v \<Longrightarrow> size v < size (JvObj d)"
  by (auto simp: need_def intro: size_item split: option.splits)

lemma size_listed: "listed d k = Inr xs \<Longrightarrow> x \<in> set xs \<Longrightarrow> size x < size (JvObj d)"
  using size_iterated size_item by (fastforce simp: listed_def split: option.splits)

lemma items_eq: "items v = Inr d \<longleftrightarrow> v = JvObj d"
  by (cases v) auto

function (sequential) condition_from_json :: "'f jval \<Rightarrow> 'f condition result" where
  "condition_from_json v =
     bindR (items v) (\<lambda>d.
       case map_of d ''type'' of
         Some (JvStr ty) \<Rightarrow>
           if ty = ''comparison''
           then bindR (need d ''operator'') (\<lambda>x. bindR (as_str x) (\<lambda>op.
                bindR (need d ''left'') (\<lambda>l. bindR (value_from_json l) (\<lambda>left.
                bindR (need d ''right'') (\<lambda>r. bindR (value_from_json r) (\<lambda>right. Inr (Comparison op left right)))))))
           else if ty = ''crossover''
           then bindR (need d ''direction'') (\<lambda>x. bindR (as_str x) (\<lambda>dir.
                bindR (need d ''fast'') (\<lambda>l. bindR (value_from_json l) (\<lambda>fast.
                bindR (need d ''slow'') (\<lambda>r. bindR (value_from_json r) (\<lambda>slow. Inr (Crossover dir fast slow)))))))
           else if ty = ''logical''
           then bindR (need d ''operator'') (\<lambda>x. bindR (as_str x) (\<lambda>op.
                bindR (need d ''operands'') (\<lambda>l. bindR (iterated l) (\<lambda>xs.
                bindR (mapR condition_from_json xs) (\<lambda>cs. Inr (LogicalOp op cs))))))
           else Inl ValueError
       | _ \<Rightarrow> Inl ValueError)"
  by pat_completeness auto
termination
  by (relation "measure size") (auto simp: items_eq dest!: size_need dest: size_iterated)

definition read_strategy :: "(string \<times> 'f jval) list \<Rightarrow> 'f jval \<Rightarrow> 'f block list \<Rightarrow> 'f block result" where
  "read_strategy d x kids =
     bindR (as_str x) (\<lambda>name.
     bindR (optional d ''rebalance'' as_str) (\<lambda>rebalance.
     bindR (optional d ''benchmark'' as_str) (\<lambda>benchmark.
     bindR (optional d ''description'' as_str) (\<lambda>description.
       Inr (StrategyB name kids \<lparr>at_rebalance = rebalance, at_benchmark = benchmark, at_description = description\<rparr>)))))"

definition read_group :: "(string \<times> 'f jval) list \<Rightarrow> 'f jval \<Rightarrow> 'f block list \<Rightarrow> 'f block result" where
  "read_group d x kids =
     bindR (as_str x) (\<lambda>name. bindR (optional d ''weight'' as_float) (\<lambda>w. Inr (GroupB name kids w)))"

definition read_weight :: "(string \<times> 'f jval) list \<Rightarrow> 'f jval \<Rightarrow> 'f block list \<Rightarrow> 'f block result" where
  "read_weight d x kids =
     bindR (as_str x) (\<lambda>meth.
     bindR (optional d ''lookback'' as_int) (\<lambda>lookback.
     bindR (optional d ''top'' as_int) (\<lambda>topn. Inr (WeightB meth kids lookback topn))))"

definition read_asset :: "(string \<times> 'f jval) list \<Rightarrow> 'f block result" where
  "read_asset d =
     bindR (need d ''symbol'') (\<lambda>x. bindR (as_str x) (\<lambda>symbol.
     bindR (optional d ''weight'' as_float) (\<lambda>w. Inr (AssetB symbol w))))"

definition read_filter ::
  "(string \<times> 'f jval) list \<Rightarrow> 'f jval \<Rightarrow> 'f jval \<Rightarrow> 'f jval \<Rightarrow> 'f block list \<Rightarrow> 'f block result" where
  "read_filter d x y z kids =
     bindR (as_str x) (\<lambda>crit. bindR (as_str y) (\<lambda>dir. bindR (as_int z) (\<lambda>cnt.
     bindR (optional d ''lookback'' as_int) (\<lambda>lookback. Inr (FilterB crit dir cnt kids lookback)))))"

function (sequential) block_from_json :: "'f float_ops \<Rightarrow> 'f jval \<Rightarrow> 'f block result" where
  "block_from_json ops v =
     bindR (items v) (\<lambda>d.
       case map_of d ''type'' of
         Some (JvStr ty) \<Rightarrow>
           if ty = ''strategy''
           then bindR (need d ''name'') (\<lambda>x. bindR (listed d ''children'') (\<lambda>xs.
                bindR (mapR (block_from_json ops) xs) (\<lambda>kids. read_strategy d x kids)))
           else if ty = ''group''
           then bindR (need d ''name'') (\<lambda>x. bindR (listed d ''children'') (\<lambda>xs.
                bindR (mapR (block_from_json ops) xs) (\<lambda>kids. read_group d x kids)))
           else if ty = ''weight''
           then bindR (need d ''method'') (\<lambda>x. bindR (listed d ''children'') (\<lambda>xs.
                bindR (mapR (block_from_json ops) xs) (\<lambda>kids. read_weight d x kids)))
           else if ty = ''asset'' then read_asset d
           else if ty = ''if''
           then bindR (need d ''condition'') (\<lambda>x. bindR (condition_from_json x) (\<lambda>c.
                bindR (need d ''then'') (\<lambda>y. bindR (block_from_json ops y) (\<lambda>th.
                bindR (case map_of d ''else_block'' of
                         None \<Rightarrow> Inr None
                       | Some z \<Rightarrow> if json_truthy ops z then bindR (block_from_json ops z) (\<lambda>b. Inr (Some b)) else Inr None)
                  (\<lambda>el. Inr (IfB c th el))))))
           else if ty = ''filter''
           then bindR (need d ''by'') (\<lambda>x. bindR (need d ''select_direction'') (\<lambda>y. bindR (need d ''select_count'') (\<lambda>z.
                bindR (listed d ''children'') (\<lambda>xs.
                bindR (mapR (block_from_json ops) xs) (\<lambda>kids. read_filter d x y z kids)))))
           else Inl ValueError
       | _ \<Rightarrow> Inl ValueError)"
  by pat_completeness auto
termination
  by (relation "measure (\<lambda>(ops, v). size v)") (auto simp: items_eq dest: size_need size_listed size_item)

text \<open>\<open>from_json\<close> does not look at the type of the root; subscripting anything but a dict is a type error.\<close>

fun from_json :: "'f float_ops \<Rightarrow> 'f jval \<Rightarrow> 'f block result" where
  "from_json ops (JvObj d) =
     bindR (need d ''name'') (\<lambda>x. bindR (listed d ''children'') (\<lambda>xs.
     bindR (mapR (block_from_json ops) xs) (\<lambda>kids. read_strategy d x kids)))"
| "from_json ops _ = Inl TypeError"

definition to_json :: "'f block \<Rightarrow> 'f jval" where
  "to_json s = block_to_json s"

section \<open>What a round trip keeps\<close>

definition norm_text :: "string option \<Rightarrow> string option" where
  "norm_text v = (if v = Some [] then None else v)"

fun norm_value :: "'f dsl_value \<Rightarrow> 'f dsl_value" where
  "norm_value (Indicator name symbol params out) = Indicator name symbol params (norm_text out)"
| "norm_value v = v"

fun norm_cond :: "'f condition \<Rightarrow> 'f condition" where
  "norm_cond (Comparison op l r) = Comparison op (norm_value l) (norm_value r)"
| "norm_cond (Crossover dir f s) = Crossover dir (norm_value f) (norm_value s)"
| "norm_cond (LogicalOp op cs) = LogicalOp op (map norm_cond cs)"

definition norm_attrs :: "strategy_attrs \<Rightarrow> strategy_attrs" where
  "norm_attrs a = \<lparr>at_rebalance = norm_text (at_rebalance a), at_benchmark = norm_text (at_benchmark a),
     at_description = norm_text (at_description a)\<rparr>"

fun norm_block :: "'f block \<Rightarrow> 'f block" where
  "norm_block (StrategyB name kids a) = StrategyB name (map norm_block kids) (norm_attrs a)"
| "norm_block (GroupB name kids w) = GroupB name (map norm_block kids) w"
| "norm_block (WeightB meth kids lookback topn) = WeightB meth (map norm_block kids) lookback topn"
| "norm_block (AssetB symbol w) = AssetB symbol w"
| "norm_block (IfB c th el) = IfB (norm_cond c) (norm_block th) (map_option norm_block el)"
| "norm_block (FilterB crit dir cnt kids lookback) = FilterB crit dir cnt (map norm_block kids) lookback"

declare condition_from_json.simps [simp del] block_from_json.simps [simp del]

text \<open>Lookup in the items a writer adds.\<close>

lemma map_of_item [simp]: "map_of (item k f v) j = (if j = k then map_option f v else None)"
  by (auto simp: item_def split: option.split)

lemma map_of_text_item [simp]: "map_of (text_item k v) j = (if j = k then map_option JvStr (norm_text v) else None)"
  by (auto simp: text_item_def norm_text_def split: option.split)

lemma case_option_map [simp]:
  "(case v of None \<Rightarrow> None | Some x \<Rightarrow> Some x) = v" "(case v of None \<Rightarrow> None | Some x \<Rightarrow> Some (f x)) = map_option f v"
  by (cases v; simp)+

lemma opt_value_item [simp]:
  "opt_value as_str (map_option JvStr t) = Inr t" "opt_value as_int (map_option JvInt n) = Inr n"
  "opt_value as_float (map_option JvNum x) = Inr x"
  by (cases t; cases n; cases x; simp)+

lemma mapR_as_param: "mapR as_param (map param_json ps) = Inr ps"
proof (induction ps)
  case (Cons p ps)
  then show ?case by (cases p) auto
qed simp

lemma value_round_trip: "value_from_json (value_to_json v) = Inr (norm_value v)"
  by (cases v) (auto simp: value_from_json_def need_def listed_def optional_def mapR_as_param map_add_def split: option.split)

lemma condition_round_trip: "condition_from_json (condition_to_json c) = Inr (norm_cond c)"
proof (induction c)
  case (LogicalOp op cs)
  then have "mapR condition_from_json (map condition_to_json cs) = Inr (map norm_cond cs)"
    by (induction cs) auto
  then show ?case by (subst condition_from_json.simps) (simp add: need_def)
qed (subst condition_from_json.simps, simp add: need_def value_round_trip)+

lemma mapR_round_trip:
  "(\<And>b. b \<in> set bs \<Longrightarrow> f (g b) = Inr (h b)) \<Longrightarrow> mapR f (map g bs) = Inr (map h bs)"
  by (induction bs) auto

lemma strategy_items_round_trip:
  "d = [(''type'', JvStr ''strategy''), (''name'', JvStr name), (''children'', JvList xs)] @
       text_item ''rebalance'' (at_rebalance a) @ text_item ''benchmark'' (at_benchmark a) @
       text_item ''description'' (at_description a) \<Longrightarrow>
   read_strategy d (JvStr name) kids = Inr (StrategyB name kids (norm_attrs a))"
  by (simp add: read_strategy_def norm_attrs_def optional_def map_add_def split: option.split)

lemma block_round_trip: "block_from_json ops (block_to_json b) = Inr (norm_block b)"
proof (induction b)
  case (StrategyB name kids a)
  then show ?case
    using mapR_round_trip [of kids "block_from_json ops" block_to_json norm_block]
    by (subst block_from_json.simps) (simp add: need_def listed_def strategy_items_round_trip)
next
  case (GroupB name kids w)
  then show ?case
    using mapR_round_trip [of kids "block_from_json ops" block_to_json norm_block]
    by (subst block_from_json.simps) (simp add: need_def listed_def read_group_def optional_def map_add_def split: option.split)
next
  case (WeightB meth kids lookback topn)
  then show ?case
    using mapR_round_trip [of kids "block_from_json ops" block_to_json norm_block]
    by (subst block_from_json.simps) (simp add: need_def listed_def read_weight_def optional_def map_add_def split: option.split)
next
  case (AssetB symbol w)
  then show ?case
    by (subst block_from_json.simps) (simp add: need_def read_asset_def optional_def map_add_def split: option.split)
next
  case (IfB c th el)
  have "json_truthy ops (block_to_json b)" for b :: "'a block" by (cases b) auto
  then show ?case
    using IfB by (subst block_from_json.simps) (auto simp: need_def condition_round_trip split: option.split)
next
  case (FilterB crit dir cnt kids lookback)
  then show ?case
    using mapR_round_trip [of kids "block_from_json ops" block_to_json norm_block]
    by (subst block_from_json.simps) (simp add: need_def listed_def read_filter_def optional_def map_add_def split: option.split)
qed

lemma from_to_json_strategy: "from_json ops (to_json (StrategyB name kids a)) = Inr (norm_block (StrategyB name kids a))"
  using mapR_round_trip [of kids "block_from_json ops" block_to_json norm_block] block_round_trip [of ops]
  by (simp add: to_json_def need_def listed_def strategy_items_round_trip)

section \<open>Canonical strategies are normal\<close>

lemma norm_value_ok: "value_ok ops v \<Longrightarrow> norm_value v = v"
  by (cases v) (auto simp: norm_text_def keyword_ok_def pred_option_def)

lemma norm_cond_ok: "cond_ok ops c \<Longrightarrow> norm_cond c = c"
  by (induction c) (auto simp: norm_value_ok list_all_iff intro: map_idI)

lemma norm_block_ok: "block_ok ops b \<Longrightarrow> norm_block b = b"
proof (induction b)
  case (IfB c th el)
  then show ?case by (cases el) (auto simp: norm_cond_ok)
qed (auto simp: list_all_iff intro: map_idI)

lemma norm_attrs_ok: "attrs_ok a \<Longrightarrow> norm_attrs a = a"
  by (cases a) (auto simp: norm_attrs_def norm_text_def attrs_ok_def symbol_ok_def rebalance_frequencies_def)

lemma norm_canonical: "canonical ops s \<Longrightarrow> norm_block s = s"
  by (cases s) (auto simp: norm_block_ok list_all_iff norm_attrs_ok intro!: map_idI)

end
