(* ===== verification/Dsl_Validator.thy ===== *)
theory Dsl_Validator
  imports Dsl_Json
begin

text \<open>
  The semantic validator (\<^verbatim>\<open>validator.py\<close>): the list of errors of a strategy in the order
  the visitor records them, each with its path in the tree. An error is its kind and its path; the
  message texts, the source location and the suggestions only decorate it and are left out.

  \<open>validate_well_formed\<close>: a strategy passes exactly when it is \<open>well_formed\<close>, a predicate that says what the
  rules mean. \<open>parsed_clear\<close>: the vocabulary rules can never fail for a strategy that the parser
  returned.
\<close>

section \<open>Errors\<close>

datatype issue =
    NameRequired | InvalidRebalance | NoChildren | NestedStrategy | WeightSum
  | InvalidMethod | MarketCap | LookbackPositive | TopNeedsMomentum | TopPositive | TopExceeds
  | AssetNeedsWeight | GroupNeedsWeight | BranchesNeedWeight | AssetHasWeight | GroupHasWeight
  | SymbolRequired | SymbolLetter | WeightPositive | ElseRequired
  | InvalidCriteria | InvalidDirection | CountPositive | CountExceeds
  | InvalidOperator | MetricCrossover | OperandCount | InvalidField
  | UnknownIndicator | ParamPositive | UnknownMetric | PeriodPositive

type_synonym errors = "(issue \<times> string) list"

definition failing :: "bool \<Rightarrow> issue \<Rightarrow> string \<Rightarrow> errors" where
  "failing b i path = (if b then [(i, path)] else [])"

lemma failing_simps [simp]: "failing b i path = [] \<longleftrightarrow> \<not> b" "(j, p) \<in> set (failing b i path) \<longleftrightarrow> b \<and> j = i \<and> p = path"
  by (auto simp: failing_def)

definition at_index :: "string \<Rightarrow> string \<Rightarrow> nat \<Rightarrow> string" where
  "at_index path fld i = path @ ''.'' @ fld @ ''['' @ show_int (int i) @ '']''"

text \<open>\<^verbatim>\<open>not s or not s.strip()\<close>, and \<^verbatim>\<open>c.isalpha()\<close> on Latin-1.\<close>

definition blank :: "string \<Rightarrow> bool" where
  "blank s \<longleftrightarrow> s = [] \<or> py_strip s = []"

definition is_alpha :: "char \<Rightarrow> bool" where
  "is_alpha c \<longleftrightarrow> is_letter c \<or>
     (let n = of_char c :: nat in n \<in> {170, 181, 186} \<or> 192 \<le> n \<and> n \<noteq> 215 \<and> n \<noteq> 247)"

section \<open>Values and conditions\<close>

fun param_nonpos :: "'f float_ops \<Rightarrow> 'f param \<Rightarrow> bool" where
  "param_nonpos ops (PInt n) = (n \<le> 0)"
| "param_nonpos ops (PFloat x) = fl_nonpos ops x"

definition validate_params :: "'f float_ops \<Rightarrow> string \<Rightarrow> 'f param list \<Rightarrow> errors" where
  "validate_params ops path ps =
     concat (map (\<lambda>(i, p). failing (param_nonpos ops p) ParamPositive (at_index path ''params'' i)) (enumerate 0 ps))"

fun validate_value :: "'f float_ops \<Rightarrow> string \<Rightarrow> 'f dsl_value \<Rightarrow> errors" where
  "validate_value ops path (NumericLiteral x) = []"
| "validate_value ops path (Price symbol fld) =
     failing (blank symbol) SymbolRequired (path @ ''.symbol'') @
     failing (fld \<notin> {''close'', ''open'', ''high'', ''low'', ''volume''}) InvalidField (path @ ''.field'')"
| "validate_value ops path (Indicator name symbol params out) =
     failing (name \<notin> set indicators) UnknownIndicator (path @ ''.name'') @
     failing (blank symbol) SymbolRequired (path @ ''.symbol'') @ validate_params ops path params"
| "validate_value ops path (Metric name symbol period) =
     failing (name \<notin> set metrics) UnknownMetric (path @ ''.name'') @
     failing (blank symbol) SymbolRequired (path @ ''.symbol'') @
     failing (case period of None \<Rightarrow> False | Some n \<Rightarrow> n \<le> 0) PeriodPositive (path @ ''.period'')"

fun is_metric :: "'f dsl_value \<Rightarrow> bool" where
  "is_metric (Metric name symbol period) = True"
| "is_metric _ = False"

fun validate_condition :: "'f float_ops \<Rightarrow> string \<Rightarrow> 'f condition \<Rightarrow> errors"
  and validate_operands :: "'f float_ops \<Rightarrow> string \<Rightarrow> nat \<Rightarrow> 'f condition list \<Rightarrow> errors" where
  "validate_condition ops path (Comparison op l r) =
     failing (op \<notin> set comparison_ops) InvalidOperator (path @ ''.operator'') @
     validate_value ops (path @ ''.left'') l @ validate_value ops (path @ ''.right'') r"
| "validate_condition ops path (Crossover dir f s) =
     failing (dir \<notin> {''above'', ''below''}) InvalidDirection (path @ ''.direction'') @
     failing (is_metric f) MetricCrossover (path @ ''.fast'') @ failing (is_metric s) MetricCrossover (path @ ''.slow'') @
     validate_value ops (path @ ''.fast'') f @ validate_value ops (path @ ''.slow'') s"
| "validate_condition ops path (LogicalOp op cs) =
     failing (op \<notin> set logical_ops) InvalidOperator (path @ ''.operator'') @
     failing (if op = ''not'' then length cs \<noteq> 1 else op \<in> {''and'', ''or''} \<and> length cs < 2) OperandCount (path @ ''.operands'') @
     validate_operands ops path 0 cs"
| "validate_operands ops path i [] = []"
| "validate_operands ops path i (c # cs) =
     validate_condition ops (at_index path ''operands'' i) c @ validate_operands ops path (i + 1) cs"

section \<open>Weights\<close>

fun common_branch_weight :: "'f float_ops \<Rightarrow> 'f block \<Rightarrow> 'f option" where
  "common_branch_weight ops (AssetB symbol w) = w"
| "common_branch_weight ops (GroupB name kids w) = w"
| "common_branch_weight ops (IfB c th el) =
     (case el of None \<Rightarrow> None
      | Some b \<Rightarrow>
          (case (common_branch_weight ops th, common_branch_weight ops b) of
             (Some x, Some y) \<Rightarrow> if fl_near ops x y then Some x else None
           | _ \<Rightarrow> None))"
| "common_branch_weight ops _ = None"

text \<open>\<^verbatim>\<open>_declared_sibling_weight\<close> delegates the if case to \<open>common_branch_weight\<close>.\<close>

fun declared_sibling_weight :: "'f float_ops \<Rightarrow> 'f block \<Rightarrow> 'f option" where
  "declared_sibling_weight ops (AssetB symbol w) = w"
| "declared_sibling_weight ops (GroupB name kids w) = w"
| "declared_sibling_weight ops (IfB c th el) = common_branch_weight ops (IfB c th el)"
| "declared_sibling_weight ops _ = None"

definition check_declared_weight_sum :: "'f float_ops \<Rightarrow> string \<Rightarrow> 'f block list \<Rightarrow> errors" where
  "check_declared_weight_sum ops path kids =
     (if kids = [] then []
      else let weights = map (declared_sibling_weight ops) kids
           in if None \<in> set weights then []
              else failing (fl_far ops (fl_sum ops (map the weights)) (fl_of_int ops 100)) WeightSum (path @ ''.children''))"

fun child_weight_errors :: "'f float_ops \<Rightarrow> bool \<Rightarrow> string \<Rightarrow> 'f block \<Rightarrow> errors" where
  "child_weight_errors ops specified path (AssetB symbol w) =
     (if specified then failing (w = None) AssetNeedsWeight path else failing (w \<noteq> None) AssetHasWeight path)"
| "child_weight_errors ops specified path (GroupB name kids w) =
     (if specified then failing (w = None) GroupNeedsWeight path else failing (w \<noteq> None) GroupHasWeight path)"
| "child_weight_errors ops specified path (IfB c th el) =
     failing (specified \<and> common_branch_weight ops (IfB c th el) = None) BranchesNeedWeight path"
| "child_weight_errors ops specified path _ = []"

definition children_weight_errors :: "'f float_ops \<Rightarrow> bool \<Rightarrow> string \<Rightarrow> 'f block list \<Rightarrow> errors" where
  "children_weight_errors ops specified path kids =
     concat (map (\<lambda>(i, c). child_weight_errors ops specified (at_index path ''children'' i) c) (enumerate 0 kids))"

definition dynamic_methods :: "string list" where
  "dynamic_methods = [''momentum'', ''inverse-volatility'', ''min-variance'', ''risk-parity'']"

definition nonpos_option :: "int option \<Rightarrow> bool" where
  "nonpos_option v = (case v of None \<Rightarrow> False | Some n \<Rightarrow> n \<le> 0)"

text \<open>The checks of a weight block before its children are visited.\<close>

definition weight_errors :: "'f float_ops \<Rightarrow> string \<Rightarrow> string \<Rightarrow> 'f block list \<Rightarrow> int option \<Rightarrow> int option \<Rightarrow> errors" where
  "weight_errors ops path meth kids lookback topn =
     failing (meth \<notin> set weight_methods) InvalidMethod (path @ ''.method'') @
     failing (meth = ''market-cap'') MarketCap (path @ ''.method'') @
     failing (kids = []) NoChildren (path @ ''.children'') @
     failing (meth \<in> set dynamic_methods \<and> nonpos_option lookback) LookbackPositive (path @ ''.lookback'') @
     (case topn of None \<Rightarrow> []
      | Some n \<Rightarrow>
          failing (meth \<noteq> ''momentum'') TopNeedsMomentum (path @ ''.top'') @
          failing (n \<le> 0) TopPositive (path @ ''.top'') @
          failing (int (length kids) < n) TopExceeds (path @ ''.top'')) @
     children_weight_errors ops (meth = ''specified'') path kids @
     (if meth = ''specified'' then check_declared_weight_sum ops path kids else [])"

definition validate_asset :: "'f float_ops \<Rightarrow> string \<Rightarrow> string \<Rightarrow> 'f option \<Rightarrow> errors" where
  "validate_asset ops path symbol w =
     failing (blank symbol) SymbolRequired (path @ ''.symbol'') @
     failing (symbol \<noteq> [] \<and> \<not> is_alpha (hd symbol)) SymbolLetter (path @ ''.symbol'') @
     failing (case w of None \<Rightarrow> False | Some x \<Rightarrow> fl_nonpos ops x) WeightPositive (path @ ''.weight'')"

fun count_assets :: "'f block list \<Rightarrow> nat" and count_block :: "'f block \<Rightarrow> nat" where
  "count_assets [] = 0"
| "count_assets (b # bs) = count_block b + count_assets bs"
| "count_block (AssetB symbol w) = 1"
| "count_block (GroupB name kids w) = count_assets kids"
| "count_block (WeightB meth kids lookback topn) = count_assets kids"
| "count_block (FilterB crit dir cnt kids lookback) = count_assets kids"
| "count_block (IfB c th el) = count_block th + (case el of None \<Rightarrow> 0 | Some b \<Rightarrow> count_block b)"
| "count_block (StrategyB name kids a) = 0"

text \<open>The checks of a filter block before its children are visited.\<close>

definition filter_errors :: "string \<Rightarrow> string \<Rightarrow> string \<Rightarrow> int \<Rightarrow> 'f block list \<Rightarrow> int option \<Rightarrow> errors" where
  "filter_errors path crit dir cnt kids lookback =
     failing (crit \<notin> set filter_criteria) InvalidCriteria (path @ ''.by'') @
     failing (dir \<notin> {''top'', ''bottom''}) InvalidDirection (path @ ''.select_direction'') @
     failing (cnt \<le> 0) CountPositive (path @ ''.select_count'') @
     failing (nonpos_option lookback) LookbackPositive (path @ ''.lookback'') @
     failing (kids = []) NoChildren (path @ ''.children'') @
     failing (int (count_assets kids) < cnt) CountExceeds (path @ ''.select_count'')"

section \<open>Blocks\<close>

fun validate_block :: "'f float_ops \<Rightarrow> string \<Rightarrow> 'f block \<Rightarrow> errors"
  and validate_children :: "'f float_ops \<Rightarrow> string \<Rightarrow> nat \<Rightarrow> 'f block list \<Rightarrow> errors" where
  "validate_block ops path (StrategyB name kids a) = [(NestedStrategy, path)]"
| "validate_block ops path (GroupB name kids w) =
     failing (blank name) NameRequired (path @ ''.name'') @ failing (kids = []) NoChildren (path @ ''.children'') @
     validate_children ops path 0 kids @ check_declared_weight_sum ops path kids"
| "validate_block ops path (WeightB meth kids lookback topn) =
     weight_errors ops path meth kids lookback topn @ validate_children ops path 0 kids"
| "validate_block ops path (AssetB symbol w) = validate_asset ops path symbol w"
| "validate_block ops path (IfB c th el) =
     validate_condition ops (path @ ''.condition'') c @ validate_block ops (path @ ''.then'') th @
     (case el of None \<Rightarrow> [(ElseRequired, path @ ''.else'')] | Some b \<Rightarrow> validate_block ops (path @ ''.else'') b)"
| "validate_block ops path (FilterB crit dir cnt kids lookback) =
     filter_errors path crit dir cnt kids lookback @ validate_children ops path 0 kids"
| "validate_children ops path i [] = []"
| "validate_children ops path i (b # bs) =
     validate_block ops (at_index path ''children'' i) b @ validate_children ops path (i + 1) bs"

definition validate_strategy ::
  "'f float_ops \<Rightarrow> string \<Rightarrow> string \<Rightarrow> 'f block list \<Rightarrow> strategy_attrs \<Rightarrow> errors" where
  "validate_strategy ops path name kids a =
     failing (blank name) NameRequired (path @ ''.name'') @
     failing (case at_rebalance a of None \<Rightarrow> False | Some w \<Rightarrow> w \<noteq> [] \<and> w \<notin> set rebalance_frequencies)
       InvalidRebalance (path @ ''.rebalance'') @
     failing (kids = []) NoChildren (path @ ''.children'') @
     validate_children ops path 0 kids @ check_declared_weight_sum ops path kids"

text \<open>The result is the validity and the errors; no other block has the attributes of a strategy.\<close>

fun validate :: "'f float_ops \<Rightarrow> 'f block \<Rightarrow> (bool \<times> errors) result" where
  "validate ops (StrategyB name kids a) =
     (let errs = validate_strategy ops ''strategy'' name kids a in Inr (errs = [], errs))"
| "validate ops _ = Inl AttributeError"

section \<open>What the rules mean\<close>

fun value_wf :: "'f float_ops \<Rightarrow> 'f dsl_value \<Rightarrow> bool" where
  "value_wf ops (NumericLiteral x) = True"
| "value_wf ops (Price symbol fld) \<longleftrightarrow> \<not> blank symbol \<and> fld \<in> set price_fields"
| "value_wf ops (Indicator name symbol params out) \<longleftrightarrow>
     name \<in> set indicators \<and> \<not> blank symbol \<and> list_all (\<lambda>p. \<not> param_nonpos ops p) params"
| "value_wf ops (Metric name symbol period) \<longleftrightarrow>
     name \<in> set metrics \<and> \<not> blank symbol \<and> pred_option (\<lambda>n. 0 < n) period"

fun cond_wf :: "'f float_ops \<Rightarrow> 'f condition \<Rightarrow> bool" where
  "cond_wf ops (Comparison op l r) \<longleftrightarrow> op \<in> set comparison_ops \<and> value_wf ops l \<and> value_wf ops r"
| "cond_wf ops (Crossover dir f s) \<longleftrightarrow>
     dir \<in> {''above'', ''below''} \<and> \<not> is_metric f \<and> \<not> is_metric s \<and> value_wf ops f \<and> value_wf ops s"
| "cond_wf ops (LogicalOp op cs) \<longleftrightarrow>
     op \<in> set logical_ops \<and> (if op = ''not'' then length cs = 1 else 2 \<le> length cs) \<and> list_all (cond_wf ops) cs"

text \<open>When every sibling declares a weight, the weights are shares of 100.\<close>

definition shares_ok :: "'f float_ops \<Rightarrow> 'f block list \<Rightarrow> bool" where
  "shares_ok ops kids \<longleftrightarrow>
     (kids \<noteq> [] \<longrightarrow> (\<forall>b \<in> set kids. declared_sibling_weight ops b \<noteq> None) \<longrightarrow>
      \<not> fl_far ops (fl_sum ops (map (\<lambda>b. the (declared_sibling_weight ops b)) kids)) (fl_of_int ops 100))"

text \<open>The children that take part in weighting declare a weight under \<open>specified\<close> and none elsewhere.\<close>

fun declares :: "'f float_ops \<Rightarrow> bool \<Rightarrow> 'f block \<Rightarrow> bool" where
  "declares ops specified (AssetB symbol w) \<longleftrightarrow> (w \<noteq> None) = specified"
| "declares ops specified (GroupB name kids w) \<longleftrightarrow> (w \<noteq> None) = specified"
| "declares ops specified (IfB c th el) \<longleftrightarrow> (specified \<longrightarrow> common_branch_weight ops (IfB c th el) \<noteq> None)"
| "declares ops specified _ = True"

fun block_wf :: "'f float_ops \<Rightarrow> 'f block \<Rightarrow> bool" where
  "block_wf ops (StrategyB name kids a) = False"
| "block_wf ops (GroupB name kids w) \<longleftrightarrow>
     \<not> blank name \<and> kids \<noteq> [] \<and> list_all (block_wf ops) kids \<and> shares_ok ops kids"
| "block_wf ops (WeightB meth kids lookback topn) \<longleftrightarrow>
     meth \<in> set weight_methods \<and> meth \<noteq> ''market-cap'' \<and> kids \<noteq> [] \<and>
     (meth \<in> set dynamic_methods \<longrightarrow> pred_option (\<lambda>n. 0 < n) lookback) \<and>
     pred_option (\<lambda>n. meth = ''momentum'' \<and> 0 < n \<and> n \<le> int (length kids)) topn \<and>
     list_all (declares ops (meth = ''specified'')) kids \<and> (meth = ''specified'' \<longrightarrow> shares_ok ops kids) \<and>
     list_all (block_wf ops) kids"
| "block_wf ops (AssetB symbol w) \<longleftrightarrow>
     \<not> blank symbol \<and> is_alpha (hd symbol) \<and> pred_option (\<lambda>x. \<not> fl_nonpos ops x) w"
| "block_wf ops (IfB c th el) \<longleftrightarrow>
     cond_wf ops c \<and> block_wf ops th \<and> (case el of None \<Rightarrow> False | Some b \<Rightarrow> block_wf ops b)"
| "block_wf ops (FilterB crit dir cnt kids lookback) \<longleftrightarrow>
     crit \<in> set filter_criteria \<and> dir \<in> {''top'', ''bottom''} \<and> 0 < cnt \<and> cnt \<le> int (count_assets kids) \<and>
     pred_option (\<lambda>n. 0 < n) lookback \<and> kids \<noteq> [] \<and> list_all (block_wf ops) kids"

fun well_formed :: "'f float_ops \<Rightarrow> 'f block \<Rightarrow> bool" where
  "well_formed ops (StrategyB name kids a) \<longleftrightarrow>
     \<not> blank name \<and> pred_option (\<lambda>w. w = [] \<or> w \<in> set rebalance_frequencies) (at_rebalance a) \<and> kids \<noteq> [] \<and>
     list_all (block_wf ops) kids \<and> shares_ok ops kids"
| "well_formed ops _ = False"

section \<open>The validator decides well-formedness\<close>

lemma nonpos_option_iff: "nonpos_option v \<longleftrightarrow> \<not> pred_option (\<lambda>n. 0 < n) v"
  by (cases v) (auto simp: nonpos_option_def)

lemma enumerate_empty:
  assumes "\<And>i x. f i x = [] \<longleftrightarrow> P x"
  shows "concat (map (\<lambda>(i, x). f i x) (enumerate n xs)) = [] \<longleftrightarrow> list_all P xs"
  using assms by (induction xs arbitrary: n) simp_all

lemma validate_params_empty: "validate_params ops path ps = [] \<longleftrightarrow> list_all (\<lambda>p. \<not> param_nonpos ops p) ps"
  unfolding validate_params_def by (rule enumerate_empty) simp

lemma validate_value_empty: "validate_value ops path v = [] \<longleftrightarrow> value_wf ops v"
  by (cases v) (auto simp: validate_params_empty price_fields_def split: option.split)

lemma validate_operands_empty:
  "validate_operands ops path i cs = [] \<longleftrightarrow> list_all (\<lambda>c. \<forall>p. validate_condition ops p c = []) cs"
  if "\<And>c p q. c \<in> set cs \<Longrightarrow> validate_condition ops p c = [] \<longleftrightarrow> validate_condition ops q c = []"
  using that by (induction cs arbitrary: i) (simp_all, blast)

lemma validate_condition_empty: "validate_condition ops path c = [] \<longleftrightarrow> cond_wf ops c"
proof (induction c arbitrary: path)
  case (LogicalOp op cs)
  have "validate_operands ops path 0 cs = [] \<longleftrightarrow> list_all (cond_wf ops) cs"
    using LogicalOp validate_operands_empty [of cs ops path 0] by (simp add: list_all_iff)
  then show ?case by (auto simp: logical_ops_def)
qed (auto simp: validate_value_empty)

lemma check_declared_weight_sum_empty: "check_declared_weight_sum ops path kids = [] \<longleftrightarrow> shares_ok ops kids"
  by (force simp: check_declared_weight_sum_def shares_ok_def Let_def comp_def)

lemma children_weight_errors_empty:
  "children_weight_errors ops specified path kids = [] \<longleftrightarrow> list_all (declares ops specified) kids"
proof -
  have "child_weight_errors ops specified p b = [] \<longleftrightarrow> declares ops specified b" for p b
    by (cases b) auto
  then show ?thesis unfolding children_weight_errors_def by (rule enumerate_empty)
qed

lemma weight_errors_empty:
  "weight_errors ops path meth kids lookback topn = [] \<longleftrightarrow>
     meth \<in> set weight_methods \<and> meth \<noteq> ''market-cap'' \<and> kids \<noteq> [] \<and>
     (meth \<in> set dynamic_methods \<longrightarrow> pred_option (\<lambda>n. 0 < n) lookback) \<and>
     pred_option (\<lambda>n. meth = ''momentum'' \<and> 0 < n \<and> n \<le> int (length kids)) topn \<and>
     list_all (declares ops (meth = ''specified'')) kids \<and> (meth = ''specified'' \<longrightarrow> shares_ok ops kids)"
  by (cases topn) (simp_all add: weight_errors_def children_weight_errors_empty check_declared_weight_sum_empty
      nonpos_option_iff not_le not_less)

lemma validate_children_empty:
  "validate_children ops path i kids = [] \<longleftrightarrow> list_all (\<lambda>b. \<forall>p. validate_block ops p b = []) kids"
  if "\<And>b p q. b \<in> set kids \<Longrightarrow> validate_block ops p b = [] \<longleftrightarrow> validate_block ops q b = []"
  using that by (induction kids arbitrary: i) (simp_all, blast)

lemma blank_Nil [simp]: "blank []"
  by (simp add: blank_def)

lemma validate_block_empty: "validate_block ops path b = [] \<longleftrightarrow> block_wf ops b"
proof (induction b arbitrary: path)
  case (GroupB name kids w)
  then have "validate_children ops path 0 kids = [] \<longleftrightarrow> list_all (block_wf ops) kids"
    using validate_children_empty [of kids ops path 0] by (simp add: list_all_iff)
  then show ?case by (auto simp: check_declared_weight_sum_empty)
next
  case (WeightB meth kids lookback topn)
  then have "validate_children ops path 0 kids = [] \<longleftrightarrow> list_all (block_wf ops) kids"
    using validate_children_empty [of kids ops path 0] by (simp add: list_all_iff)
  then show ?case by (auto simp: weight_errors_empty)
next
  case (AssetB symbol w)
  then show ?case by (cases w) (auto simp: validate_asset_def)
next
  case (IfB c th el)
  then show ?case by (cases el) (auto simp: validate_condition_empty)
next
  case (FilterB crit dir cnt kids lookback)
  then have "validate_children ops path 0 kids = [] \<longleftrightarrow> list_all (block_wf ops) kids"
    using validate_children_empty [of kids ops path 0] by (simp add: list_all_iff)
  then show ?case by (auto simp: filter_errors_def nonpos_option_iff)
qed simp

lemma validate_strategy_empty: "validate_strategy ops path name kids a = [] \<longleftrightarrow> well_formed ops (StrategyB name kids a)"
proof -
  have "validate_children ops path 0 kids = [] \<longleftrightarrow> list_all (block_wf ops) kids"
    using validate_children_empty [of kids ops path 0] validate_block_empty [of ops] by (simp add: list_all_iff)
  then show ?thesis
    by (cases "at_rebalance a") (auto simp: validate_strategy_def check_declared_weight_sum_empty)
qed

lemma validate_well_formed: "(\<exists>errs. validate ops s = Inr (True, errs)) \<longleftrightarrow> well_formed ops s"
  by (cases s) (auto simp: Let_def validate_strategy_empty simp del: well_formed.simps(1))

section \<open>Parsed strategies use the vocabulary\<close>

fun value_vocab :: "'f dsl_value \<Rightarrow> bool" where
  "value_vocab (NumericLiteral x) = True"
| "value_vocab (Price symbol fld) \<longleftrightarrow> fld \<in> set price_fields"
| "value_vocab (Indicator name symbol params out) \<longleftrightarrow> name \<in> set indicators"
| "value_vocab (Metric name symbol period) \<longleftrightarrow> name \<in> set metrics"

fun cond_vocab :: "'f condition \<Rightarrow> bool" where
  "cond_vocab (Comparison op l r) \<longleftrightarrow> op \<in> set comparison_ops \<and> value_vocab l \<and> value_vocab r"
| "cond_vocab (Crossover dir f s) \<longleftrightarrow> dir \<in> {''above'', ''below''} \<and> value_vocab f \<and> value_vocab s"
| "cond_vocab (LogicalOp op cs) \<longleftrightarrow> op \<in> set logical_ops \<and> list_all cond_vocab cs"

fun block_vocab :: "'f block \<Rightarrow> bool" where
  "block_vocab (StrategyB name kids a) = False"
| "block_vocab (GroupB name kids w) = list_all block_vocab kids"
| "block_vocab (WeightB meth kids lookback topn) \<longleftrightarrow> meth \<in> set weight_methods \<and> list_all block_vocab kids"
| "block_vocab (AssetB symbol w) = True"
| "block_vocab (IfB c th el) \<longleftrightarrow> cond_vocab c \<and> block_vocab th \<and> pred_option block_vocab el"
| "block_vocab (FilterB crit dir cnt kids lookback) \<longleftrightarrow>
     crit \<in> set filter_criteria \<and> dir \<in> {''top'', ''bottom''} \<and> list_all block_vocab kids"

lemma parse_member_vocab: "parse_member vocab ts = Inr (v, rest) \<Longrightarrow> v \<in> set vocab"
  by (auto simp: parse_member_def result_simps split: if_splits)

lemma parse_price_vocab: "parse_price_rest ts = Inr (v, rest) \<Longrightarrow> value_vocab v"
proof -
  have "''close'' \<in> set price_fields" by (simp add: price_fields_def)
  then show "parse_price_rest ts = Inr (v, rest) \<Longrightarrow> value_vocab v"
    by (auto simp: parse_price_rest_def Let_def result_simps split: option.splits if_splits)
qed

lemma parse_indicator_vocab: "name \<in> set indicators \<Longrightarrow> parse_indicator_rest ops name ts = Inr (v, rest) \<Longrightarrow> value_vocab v"
  by (auto simp: parse_indicator_rest_def Let_def result_simps split: option.splits)

lemma parse_metric_vocab: "name \<in> set metrics \<Longrightarrow> parse_metric_rest name ts = Inr (v, rest) \<Longrightarrow> value_vocab v"
  by (auto simp: parse_metric_rest_def bindR_eq_Inr)

lemma parse_value_vocab: "parse_value ops ts = Inr (v, rest) \<Longrightarrow> value_vocab v"
  by (auto simp: parse_value_def bindR_eq_Inr split: list.splits if_splits
      dest: parse_price_vocab parse_indicator_vocab parse_metric_vocab)

lemma parse_pair_vocab: "parse_pair ops ts = Inr ((l, r), rest) \<Longrightarrow> value_vocab l \<and> value_vocab r"
  by (auto simp: parse_pair_def result_simps dest: parse_value_vocab)

lemma parse_condition_vocab:
  "(parse_condition ops n ts = Inr (c, rest) \<longrightarrow> cond_vocab c) \<and>
   (parse_operands ops n ts = Inr (cs, rest) \<longrightarrow> list_all cond_vocab cs)"
proof (induction n arbitrary: ts c cs rest)
  case (Suc n)
  have "cond_vocab c" if "parse_condition ops (Suc n) ts = Inr (c, rest)"
    using that Suc.IH by (auto simp: result_simps split: if_splits dest: parse_pair_vocab)
  moreover have "list_all cond_vocab cs" if "parse_operands ops (Suc n) ts = Inr (cs, rest)"
    using that Suc.IH by (auto simp: result_simps split: list.splits if_splits)
  ultimately show ?case by blast
qed simp

definition kids_vocab :: "'f children_parser \<Rightarrow> bool" where
  "kids_vocab kids \<longleftrightarrow> (\<forall>ts bs rest. kids ts = Inr (bs, rest) \<longrightarrow> list_all block_vocab bs)"

definition blk_vocab :: "(token list \<Rightarrow> ('f block \<times> token list) result) \<Rightarrow> bool" where
  "blk_vocab blk \<longleftrightarrow> (\<forall>ts b rest. blk ts = Inr (b, rest) \<longrightarrow> block_vocab b)"

lemma kids_vocabD: "kids_vocab kids \<Longrightarrow> kids ts = Inr (bs, rest) \<Longrightarrow> list_all block_vocab bs"
  by (auto simp: kids_vocab_def)

lemma blk_vocabD: "blk_vocab blk \<Longrightarrow> blk ts = Inr (b, rest) \<Longrightarrow> block_vocab b"
  by (auto simp: blk_vocab_def)

lemma containers_vocab:
  assumes "kids_vocab kids"
  shows "parse_group ops kids ts = Inr (b, rest) \<Longrightarrow> block_vocab b" "parse_weight kids ts = Inr (b, rest) \<Longrightarrow> block_vocab b"
    "parse_filter kids ts = Inr (b, rest) \<Longrightarrow> block_vocab b" "parse_asset ops ts = Inr (b, rest) \<Longrightarrow> block_vocab b"
  by (auto simp: parse_group_def parse_weight_def parse_filter_def parse_asset_def result_simps
      dest!: kids_vocabD [OF assms] parse_member_vocab)

lemma parse_else_vocab:
  assumes "blk_vocab blk" "parse_else blk ts = Inr (el, rest)"
  shows "pred_option block_vocab el"
proof (cases "\<exists>p k v us. ts = (LPAREN, p) # (k, v) # us")
  case True
  then show ?thesis
    using assms(2) by (auto simp: parse_else_def result_simps split: if_splits dest!: blk_vocabD [OF assms(1)])
next
  case False
  then have "parse_else blk ts = Inr (None, ts)"
    by (auto simp: parse_else_def split: list.split prod.split token_kind.split)
  then show ?thesis using assms(2) by auto
qed

lemma parse_if_vocab:
  assumes "blk_vocab blk" "parse_if ops blk ts = Inr (b, rest)"
  shows "block_vocab b"
  using assms(2)
  by (auto simp: parse_if_def result_simps dest!: blk_vocabD [OF assms(1)] parse_else_vocab [OF assms(1)]
      parse_condition_vocab [THEN conjunct1, rule_format])

lemma parse_block_vocab: "blk_vocab (parse_block ops n) \<and> kids_vocab (parse_children ops n)"
proof (induction n)
  case 0
  then show ?case by (simp add: blk_vocab_def kids_vocab_def)
next
  case (Suc n)
  have "block_vocab b" if b: "parse_block ops (Suc n) ts = Inr (b, rest)" for ts b rest
  proof -
    obtain p ty us where "ts = (LPAREN, p) # (SYMBOL, ty) # us"
      using b by (auto split: list.splits prod.splits token_kind.splits)
    then show ?thesis
      using b Suc.IH containers_vocab [of "parse_children ops n"] parse_if_vocab [of "parse_block ops n"]
      by (auto split: if_splits)
  qed
  moreover have "list_all block_vocab bs" if "parse_children ops (Suc n) ts = Inr (bs, rest)" for ts bs rest
    using that Suc.IH by (auto simp: result_simps split: list.splits if_splits dest: blk_vocabD kids_vocabD)
  ultimately show ?case by (simp add: blk_vocab_def kids_vocab_def)
qed

lemma parse_attrs_vocab:
  "parse_attrs a ts = Inr (a', rest) \<Longrightarrow> pred_option (\<lambda>w. w \<in> set rebalance_frequencies) (at_rebalance a) \<Longrightarrow>
   pred_option (\<lambda>w. w \<in> set rebalance_frequencies) (at_rebalance a')"
  by (induction a ts rule: parse_attrs.induct) (auto split: if_splits list.splits)

lemma parse_source_vocab:
  assumes "parse_source ops t = Inr s"
  obtains name kids a where "s = StrategyB name kids a" "list_all block_vocab kids"
    "pred_option (\<lambda>w. w \<in> set rebalance_frequencies) (at_rebalance a)"
proof -
  have "kids_vocab (parse_children ops n)" for n using parse_block_vocab by blast
  then show ?thesis
    using assms that
    by (auto simp: parse_source_def parse_strategy_block_def no_attrs_def result_simps Let_def split: if_splits
        dest!: kids_vocabD parse_attrs_vocab)
qed

definition vocabulary_issues :: "issue list" where
  "vocabulary_issues = [InvalidRebalance, NestedStrategy, InvalidMethod, InvalidCriteria, InvalidDirection, InvalidOperator,
     InvalidField, UnknownIndicator, UnknownMetric]"

definition clear :: "errors \<Rightarrow> bool" where
  "clear errs \<longleftrightarrow> (\<forall>(i, p) \<in> set errs. i \<notin> set vocabulary_issues)"

lemma clear_simps [simp]:
  "clear []" "clear (xs @ ys) \<longleftrightarrow> clear xs \<and> clear ys" "clear (failing b i p) \<longleftrightarrow> b \<longrightarrow> i \<notin> set vocabulary_issues"
  "clear ((i, p) # xs) \<longleftrightarrow> i \<notin> set vocabulary_issues \<and> clear xs"
  by (auto simp: clear_def failing_def)

lemma issues_apart [simp]:
  "{NameRequired, NoChildren, WeightSum, MarketCap, LookbackPositive, TopNeedsMomentum, TopPositive, TopExceeds,
    AssetNeedsWeight, GroupNeedsWeight, BranchesNeedWeight, AssetHasWeight, GroupHasWeight, SymbolRequired, SymbolLetter,
    WeightPositive, ElseRequired, CountPositive, CountExceeds, MetricCrossover, OperandCount, ParamPositive, PeriodPositive}
   \<inter> set vocabulary_issues = {}"
  by (simp add: vocabulary_issues_def)

lemma clear_enumerate:
  "(\<And>i x. clear (f i x)) \<Longrightarrow> clear (concat (map (\<lambda>(i, x). f i x) (enumerate n xs)))"
  by (induction xs arbitrary: n) simp_all

lemma clear_value: "value_vocab v \<Longrightarrow> clear (validate_value ops path v)"
  by (cases v) (auto simp: validate_params_def vocabulary_issues_def price_fields_def intro!: clear_enumerate)

lemma clear_condition:
  "cond_vocab c \<Longrightarrow> clear (validate_condition ops path c)"
  "list_all cond_vocab cs \<Longrightarrow> clear (validate_operands ops path i cs)"
  by (induction ops path c and ops path i cs rule: validate_condition_validate_operands.induct)
    (auto simp: clear_value vocabulary_issues_def)

lemma clear_weight_sum: "clear (check_declared_weight_sum ops path kids)"
  by (simp add: check_declared_weight_sum_def Let_def vocabulary_issues_def)

lemma clear_child_weights: "clear (children_weight_errors ops specified path kids)"
proof -
  have "clear (child_weight_errors ops specified p b)" for p b
    by (cases b) (auto simp: vocabulary_issues_def)
  then show ?thesis unfolding children_weight_errors_def by (intro clear_enumerate)
qed

lemma clear_block:
  "block_vocab b \<Longrightarrow> clear (validate_block ops path b)"
  "list_all block_vocab bs \<Longrightarrow> clear (validate_children ops path i bs)"
proof (induction ops path b and ops path i bs rule: validate_block_validate_children.induct)
  case (3 ops path meth kids lookback topn)
  then show ?case
    by (cases topn) (simp_all add: weight_errors_def clear_child_weights clear_weight_sum vocabulary_issues_def)
next
  case (5 ops path c th el)
  then show ?case by (cases el) (simp_all add: clear_condition vocabulary_issues_def)
qed (simp_all add: clear_weight_sum validate_asset_def filter_errors_def vocabulary_issues_def)

lemma parsed_clear:
  assumes "parse_source ops t = Inr s"
  shows "\<exists>ok errs. validate ops s = Inr (ok, errs) \<and> clear errs"
  using assms
proof (rule parse_source_vocab)
  fix name kids a
  assume s: "s = StrategyB name kids a" "list_all block_vocab kids"
    "pred_option (\<lambda>w. w \<in> set rebalance_frequencies) (at_rebalance a)"
  then have "clear (validate_strategy ops path name kids a)" for path
    by (cases "at_rebalance a") (simp_all add: validate_strategy_def clear_block clear_weight_sum vocabulary_issues_def)
  then show ?thesis by (simp add: s(1) Let_def)
qed

end
