(* ===== verification/Dsl_Analysis.thy ===== *)
theory Dsl_Analysis
  imports Dsl_Validator
begin

text \<open>
  What a strategy needs before it can be evaluated: its indicators with their warm-up
  (\<^verbatim>\<open>analysis.py\<close>), its symbols, and the history window (\<^verbatim>\<open>window.py\<close>).

  The walks thread the dict of indicators and the list of lookbacks as the code mutates them.
  \<open>walk_block_collects\<close> says what the window walk leaves in the accumulator; \<open>compute_window_covers\<close>
  that the window holds every lookback with its headroom; \<open>extract_block_complete\<close> that every
  indicator of the tree is extracted, once per key.
\<close>

section \<open>Indicator warm-up\<close>

record 'f indicator_spec =
  indicator_type :: string
  spec_symbol :: string
  spec_source :: string
  spec_params :: "'f param list"
  output_key :: string
  output_field :: "string option"
  required_bars :: int

definition default_periods :: "'f float_ops \<Rightarrow> string \<Rightarrow> 'f param list" where
  "default_periods ops ty =
     (if ty \<in> {''sma'', ''ema'', ''cci'', ''donchian'', ''stddev''} then [PInt 20]
      else if ty \<in> {''rsi'', ''atr'', ''adx'', ''williams-r'', ''mfi''} then [PInt 14]
      else if ty = ''macd'' then [PInt 12, PInt 26, PInt 9]
      else if ty \<in> {''bbands'', ''keltner''} then [PInt 20, PFloat (fl_of_text ops ''2.0'')]
      else if ty = ''stoch'' then [PInt 14, PInt 3, PInt 3]
      else if ty \<in> {''obv'', ''vwap''} then []
      else if ty = ''momentum'' then [PInt 10]
      else [PInt 14])"

fun param_int :: "'f float_ops \<Rightarrow> 'f param \<Rightarrow> int result" where
  "param_int ops (PInt n) = Inr n"
| "param_int ops (PFloat x) = fl_int ops x"

definition period_at :: "'f float_ops \<Rightarrow> 'f param list \<Rightarrow> nat \<Rightarrow> int result" where
  "period_at ops ps i = (if i < length ps then param_int ops (ps ! i) else Inl IndexError)"

definition calculate_required_bars :: "'f float_ops \<Rightarrow> string \<Rightarrow> 'f param list \<Rightarrow> int result" where
  "calculate_required_bars ops ty params =
     (let ps = params @ drop (length params) (default_periods ops ty)
      in if ty = ''adx'' then bindR (period_at ops ps 0) (\<lambda>p. Inr (2 * p))
         else if ty = ''macd''
         then bindR (period_at ops ps 1) (\<lambda>slow. bindR (period_at ops ps 2) (\<lambda>signal. Inr (slow + signal - 1)))
         else if ty = ''stoch''
         then bindR (period_at ops ps 0) (\<lambda>k. bindR (period_at ops ps 2) (\<lambda>smooth.
              bindR (period_at ops ps 1) (\<lambda>d. Inr (k + smooth + d - 2))))
         else if ty = ''ema'' then bindR (period_at ops ps 0) (\<lambda>p. Inr (p + 2))
         else if ty \<in> {''rsi'', ''atr'', ''mfi'', ''momentum'', ''keltner''} then bindR (period_at ops ps 0) (\<lambda>p. Inr (p + 1))
         else if ty \<in> {''obv'', ''vwap''} then Inr 1
         else period_at ops ps 0)"

fun param_str :: "'f float_ops \<Rightarrow> 'f param \<Rightarrow> string" where
  "param_str ops (PInt n) = show_int n"
| "param_str ops (PFloat x) = fl_str ops x"

definition generate_output_key ::
  "'f float_ops \<Rightarrow> string \<Rightarrow> string \<Rightarrow> string \<Rightarrow> 'f param list \<Rightarrow> string option \<Rightarrow> string" where
  "generate_output_key ops ty symbol source params out =
     join ''_'' ([ty, symbol, source] @ map (param_str ops) params @
       (case out of None \<Rightarrow> [] | Some w \<Rightarrow> if w = [] then [] else [w]))"

section \<open>Extraction\<close>

type_synonym 'f spec_dict = "(string, 'f indicator_spec) dict"

fun extract_from_value :: "'f float_ops \<Rightarrow> 'f dsl_value \<Rightarrow> 'f spec_dict \<Rightarrow> 'f spec_dict result" where
  "extract_from_value ops (Indicator name symbol params out) d =
     (if name \<notin> set indicators then Inr d
      else let key = generate_output_key ops name symbol ''close'' params out
           in if key \<in> set (keys d) then Inr d
              else bindR (calculate_required_bars ops name params) (\<lambda>bars.
                     Inr (AList.update key
                       \<lparr>indicator_type = name, spec_symbol = symbol, spec_source = ''close'', spec_params = params,
                        output_key = key, output_field = out, required_bars = bars\<rparr> d)))"
| "extract_from_value ops _ d = Inr d"

fun extract_from_condition :: "'f float_ops \<Rightarrow> 'f condition \<Rightarrow> 'f spec_dict \<Rightarrow> 'f spec_dict result"
  and extract_from_operands :: "'f float_ops \<Rightarrow> 'f condition list \<Rightarrow> 'f spec_dict \<Rightarrow> 'f spec_dict result" where
  "extract_from_condition ops (Comparison op l r) d = bindR (extract_from_value ops l d) (extract_from_value ops r)"
| "extract_from_condition ops (Crossover dir f s) d = bindR (extract_from_value ops f d) (extract_from_value ops s)"
| "extract_from_condition ops (LogicalOp op cs) d = extract_from_operands ops cs d"
| "extract_from_operands ops [] d = Inr d"
| "extract_from_operands ops (c # cs) d = bindR (extract_from_condition ops c d) (extract_from_operands ops cs)"

fun extract_from_block :: "'f float_ops \<Rightarrow> 'f block \<Rightarrow> 'f spec_dict \<Rightarrow> 'f spec_dict result"
  and extract_from_children :: "'f float_ops \<Rightarrow> 'f block list \<Rightarrow> 'f spec_dict \<Rightarrow> 'f spec_dict result" where
  "extract_from_block ops (StrategyB name kids a) d = extract_from_children ops kids d"
| "extract_from_block ops (GroupB name kids w) d = extract_from_children ops kids d"
| "extract_from_block ops (WeightB meth kids lookback topn) d = extract_from_children ops kids d"
| "extract_from_block ops (IfB c th el) d =
     bindR (extract_from_condition ops c d) (\<lambda>d1.
     bindR (extract_from_block ops th d1) (\<lambda>d2.
       case el of None \<Rightarrow> Inr d2 | Some b \<Rightarrow> extract_from_block ops b d2))"
| "extract_from_block ops (FilterB crit dir cnt kids lookback) d = extract_from_children ops kids d"
| "extract_from_block ops (AssetB symbol w) d = Inr d"
| "extract_from_children ops [] d = Inr d"
| "extract_from_children ops (b # bs) d = bindR (extract_from_block ops b d) (extract_from_children ops bs)"

definition extract_indicators :: "'f float_ops \<Rightarrow> 'f block \<Rightarrow> 'f indicator_spec list result" where
  "extract_indicators ops s = bindR (extract_from_block ops s []) (\<lambda>d. Inr (vals d))"

definition get_max_lookback :: "'f indicator_spec list \<Rightarrow> int" where
  "get_max_lookback specs =
     (case map required_bars specs of [] \<Rightarrow> 0 | n # ns \<Rightarrow> fold max ns n)"

definition get_required_sources :: "'f indicator_spec list \<Rightarrow> string set" where
  "get_required_sources specs = \<Union> (set (map (\<lambda>spec.
     (if spec_source spec \<in> set price_fields then {spec_source spec} else {}) \<union>
     (if indicator_type spec \<in> {''atr'', ''stoch'', ''williams-r'', ''cci''} then {''high'', ''low'', ''close''} else {}) \<union>
     (if indicator_type spec \<in> {''obv'', ''mfi'', ''vwap''} then {''volume''} else {})) specs))"

section \<open>Symbols\<close>

fun symbols_of_value :: "'f dsl_value \<Rightarrow> string set" where
  "symbols_of_value (NumericLiteral x) = {}"
| "symbols_of_value (Price symbol fld) = {symbol}"
| "symbols_of_value (Indicator name symbol params out) = {symbol}"
| "symbols_of_value (Metric name symbol period) = {symbol}"

fun symbols_of_condition :: "'f condition \<Rightarrow> string set" where
  "symbols_of_condition (Comparison op l r) = symbols_of_value l \<union> symbols_of_value r"
| "symbols_of_condition (Crossover dir f s) = symbols_of_value f \<union> symbols_of_value s"
| "symbols_of_condition (LogicalOp op cs) = \<Union> (set (map symbols_of_condition cs))"

fun symbols_of_block :: "'f block \<Rightarrow> string set" where
  "symbols_of_block (StrategyB name kids a) = \<Union> (set (map symbols_of_block kids))"
| "symbols_of_block (GroupB name kids w) = \<Union> (set (map symbols_of_block kids))"
| "symbols_of_block (WeightB meth kids lookback topn) = \<Union> (set (map symbols_of_block kids))"
| "symbols_of_block (IfB c th el) =
     symbols_of_condition c \<union> symbols_of_block th \<union> (case el of None \<Rightarrow> {} | Some b \<Rightarrow> symbols_of_block b)"
| "symbols_of_block (FilterB crit dir cnt kids lookback) = \<Union> (set (map symbols_of_block kids))"
| "symbols_of_block (AssetB symbol w) = {symbol}"

definition get_required_symbols :: "'f block \<Rightarrow> string set" where
  "get_required_symbols s = symbols_of_block s"

section \<open>The history window\<close>

definition window_buffer :: int where
  "window_buffer = 10"

definition max_window :: int where
  "max_window = 2000"

definition vol_methods :: "string list" where
  "vol_methods = [''inverse-volatility'', ''risk-parity'', ''min-variance'']"

text \<open>\<^verbatim>\<open>x or default\<close> for an optional integer: zero is false as well.\<close>

definition or_default :: "int option \<Rightarrow> int \<Rightarrow> int" where
  "or_default v n = (case v of None \<Rightarrow> n | Some m \<Rightarrow> if m = 0 then n else m)"

fun walk_value :: "'f dsl_value \<Rightarrow> int list \<Rightarrow> bool \<times> int list" where
  "walk_value (Indicator name symbol params out) acc = (name \<in> {''obv'', ''vwap''}, acc)"
| "walk_value (Metric name symbol period) acc =
     (case period of None \<Rightarrow> (True, acc)
      | Some n \<Rightarrow> (False, acc @ [if name = ''return'' then n + 1 else n]))"
| "walk_value _ acc = (False, acc)"

fun walk_condition :: "'f condition \<Rightarrow> int list \<Rightarrow> bool \<times> int list"
  and walk_operands :: "'f condition list \<Rightarrow> int list \<Rightarrow> bool \<times> int list" where
  "walk_condition (Comparison op l r) acc =
     (case walk_value l acc of (u, acc1) \<Rightarrow> case walk_value r acc1 of (v, acc2) \<Rightarrow> (u \<or> v, acc2))"
| "walk_condition (Crossover dir f s) acc =
     (case walk_value f acc of (u, acc1) \<Rightarrow> case walk_value s acc1 of (v, acc2) \<Rightarrow> (u \<or> v, acc2))"
| "walk_condition (LogicalOp op cs) acc = walk_operands cs acc"
| "walk_operands [] acc = (False, acc)"
| "walk_operands (c # cs) acc =
     (case walk_condition c acc of (u, acc1) \<Rightarrow> case walk_operands cs acc1 of (v, acc2) \<Rightarrow> (u \<or> v, acc2))"

fun walk_block :: "'f block \<Rightarrow> int list \<Rightarrow> bool \<times> int list"
  and walk_children :: "'f block list \<Rightarrow> int list \<Rightarrow> bool \<times> int list" where
  "walk_block (WeightB meth kids lookback topn) acc =
     walk_children kids
       (if meth = ''momentum'' then acc @ [or_default lookback 90 + 1]
        else if meth \<in> set vol_methods then acc @ [or_default lookback 60] else acc)"
| "walk_block (FilterB crit dir cnt kids lookback) acc = walk_children kids (acc @ [or_default lookback 90 + 1])"
| "walk_block (GroupB name kids w) acc = walk_children kids acc"
| "walk_block (StrategyB name kids a) acc = walk_children kids acc"
| "walk_block (IfB c th el) acc =
     (case walk_condition c acc of (u, acc1) \<Rightarrow>
      case walk_block th acc1 of (v, acc2) \<Rightarrow>
      case el of None \<Rightarrow> (u \<or> v, acc2)
      | Some b \<Rightarrow> (case walk_block b acc2 of (w, acc3) \<Rightarrow> (u \<or> v \<or> w, acc3)))"
| "walk_block (AssetB symbol w) acc = (False, acc)"
| "walk_children [] acc = (False, acc)"
| "walk_children (b # bs) acc =
     (case walk_block b acc of (u, acc1) \<Rightarrow> case walk_children bs acc1 of (v, acc2) \<Rightarrow> (u \<or> v, acc2))"

text \<open>\<^verbatim>\<open>max\<close> of a non-empty list.\<close>

definition collect_lookbacks :: "'f block \<Rightarrow> int \<Rightarrow> int \<times> bool" where
  "collect_lookbacks s indicator_bars =
     (case walk_block s [indicator_bars] of (unbounded, acc) \<Rightarrow> (fold max (tl acc) (hd acc), unbounded))"

definition max_lookback :: "'f block \<Rightarrow> int \<Rightarrow> int" where
  "max_lookback s indicator_bars = fst (collect_lookbacks s indicator_bars)"

definition compute_window :: "'f block \<Rightarrow> int \<Rightarrow> int \<Rightarrow> int" where
  "compute_window s min_bars cap =
     (case collect_lookbacks s min_bars of (needed_max, unbounded) \<Rightarrow>
        let needed = needed_max + window_buffer in if unbounded then max needed cap else needed)"

section \<open>What the walk collects\<close>

text \<open>The lookbacks of a node and whether it reads unbounded history, without the accumulator.\<close>

definition value_lookbacks :: "'f dsl_value \<Rightarrow> int list" where
  "value_lookbacks v = snd (walk_value v [])"

fun cond_lookbacks :: "'f condition \<Rightarrow> int list" where
  "cond_lookbacks (Comparison op l r) = value_lookbacks l @ value_lookbacks r"
| "cond_lookbacks (Crossover dir f s) = value_lookbacks f @ value_lookbacks s"
| "cond_lookbacks (LogicalOp op cs) = concat (map cond_lookbacks cs)"

fun block_lookbacks :: "'f block \<Rightarrow> int list" where
  "block_lookbacks (WeightB meth kids lookback topn) =
     (if meth = ''momentum'' then [or_default lookback 90 + 1]
      else if meth \<in> set vol_methods then [or_default lookback 60] else []) @ concat (map block_lookbacks kids)"
| "block_lookbacks (FilterB crit dir cnt kids lookback) = (or_default lookback 90 + 1) # concat (map block_lookbacks kids)"
| "block_lookbacks (GroupB name kids w) = concat (map block_lookbacks kids)"
| "block_lookbacks (StrategyB name kids a) = concat (map block_lookbacks kids)"
| "block_lookbacks (IfB c th el) =
     cond_lookbacks c @ block_lookbacks th @ (case el of None \<Rightarrow> [] | Some b \<Rightarrow> block_lookbacks b)"
| "block_lookbacks (AssetB symbol w) = []"

fun value_unbounded :: "'f dsl_value \<Rightarrow> bool" where
  "value_unbounded (Indicator name symbol params out) \<longleftrightarrow> name \<in> {''obv'', ''vwap''}"
| "value_unbounded (Metric name symbol period) \<longleftrightarrow> period = None"
| "value_unbounded _ = False"

fun cond_unbounded :: "'f condition \<Rightarrow> bool" where
  "cond_unbounded (Comparison op l r) \<longleftrightarrow> value_unbounded l \<or> value_unbounded r"
| "cond_unbounded (Crossover dir f s) \<longleftrightarrow> value_unbounded f \<or> value_unbounded s"
| "cond_unbounded (LogicalOp op cs) \<longleftrightarrow> list_ex cond_unbounded cs"

fun block_unbounded :: "'f block \<Rightarrow> bool" where
  "block_unbounded (WeightB meth kids lookback topn) \<longleftrightarrow> list_ex block_unbounded kids"
| "block_unbounded (FilterB crit dir cnt kids lookback) \<longleftrightarrow> list_ex block_unbounded kids"
| "block_unbounded (GroupB name kids w) \<longleftrightarrow> list_ex block_unbounded kids"
| "block_unbounded (StrategyB name kids a) \<longleftrightarrow> list_ex block_unbounded kids"
| "block_unbounded (IfB c th el) \<longleftrightarrow>
     cond_unbounded c \<or> block_unbounded th \<or> (case el of None \<Rightarrow> False | Some b \<Rightarrow> block_unbounded b)"
| "block_unbounded (AssetB symbol w) = False"

lemma walk_value_collects: "walk_value v acc = (value_unbounded v, acc @ value_lookbacks v)"
  by (cases v) (auto simp: value_lookbacks_def split: option.split)

lemma walk_condition_collects:
  fixes c :: "'f condition" and cs :: "'f condition list"
  shows "walk_condition c acc = (cond_unbounded c, acc @ cond_lookbacks c)"
  "walk_operands cs acc = (list_ex cond_unbounded cs, acc @ concat (map cond_lookbacks cs))"
  by (induction c acc and cs acc rule: walk_condition_walk_operands.induct) (simp_all add: walk_value_collects)

lemma walk_block_collects:
  fixes b :: "'f block" and bs :: "'f block list"
  shows "walk_block b acc = (block_unbounded b, acc @ block_lookbacks b)"
  "walk_children bs acc = (list_ex block_unbounded bs, acc @ concat (map block_lookbacks bs))"
proof (induction b acc and bs acc rule: walk_block_walk_children.induct)
  case (1 meth kids lookback topn acc)
  then show ?case by (simp split: if_split)
next
  case (5 c th el acc)
  note c = walk_condition_collects(1) [of c acc]
  note th = 5(1) [OF c [symmetric]]
  have "walk_block b ((acc @ cond_lookbacks c) @ block_lookbacks th) =
      (block_unbounded b, ((acc @ cond_lookbacks c) @ block_lookbacks th) @ block_lookbacks b)" if "el = Some b" for b
    by (rule 5(2) [OF c [symmetric] th [symmetric] that])
  with c th show ?case by (cases el) (simp_all only: walk_block.simps block_unbounded.simps block_lookbacks.simps prod.case option.case append_assoc append_Nil2 simp_thms)
qed simp_all

lemma fold_max_Max: "fold max ns (n :: int) = Max (set (n # ns))"
  by (simp only: Max.set_eq_fold)

lemma collect_lookbacks_eq:
  "collect_lookbacks s n = (Max (insert n (set (block_lookbacks s))), block_unbounded s)"
  by (simp add: collect_lookbacks_def walk_block_collects fold_max_Max)

lemma max_lookback_eq: "max_lookback s n = Max (insert n (set (block_lookbacks s)))"
  by (simp add: max_lookback_def collect_lookbacks_eq)

lemma max_lookback_ge: "n \<le> max_lookback s n" "m \<in> set (block_lookbacks s) \<Longrightarrow> m \<le> max_lookback s n"
  by (simp_all add: max_lookback_eq)

lemma compute_window_eq:
  "compute_window s n cap = (if block_unbounded s then max (max_lookback s n + 10) cap else max_lookback s n + 10)"
  by (simp add: compute_window_def collect_lookbacks_eq max_lookback_eq window_buffer_def)

lemma compute_window_covers:
  "n + 10 \<le> compute_window s n cap" "m \<in> set (block_lookbacks s) \<Longrightarrow> m + 10 \<le> compute_window s n cap"
  "block_unbounded s \<Longrightarrow> cap \<le> compute_window s n cap"
  using max_lookback_ge [of n s] max_lookback_ge(2) [of m s n] by (auto simp: compute_window_eq)

section \<open>What the extraction collects\<close>

text \<open>The indicators of a node, in order.\<close>

fun value_indicators :: "'f float_ops \<Rightarrow> 'f dsl_value \<Rightarrow> (string \<times> string \<times> 'f param list) list" where
  "value_indicators ops (Indicator name symbol params out) =
     (if name \<in> set indicators then [(generate_output_key ops name symbol ''close'' params out, name, params)] else [])"
| "value_indicators ops _ = []"

fun cond_indicators :: "'f float_ops \<Rightarrow> 'f condition \<Rightarrow> (string \<times> string \<times> 'f param list) list" where
  "cond_indicators ops (Comparison op l r) = value_indicators ops l @ value_indicators ops r"
| "cond_indicators ops (Crossover dir f s) = value_indicators ops f @ value_indicators ops s"
| "cond_indicators ops (LogicalOp op cs) = concat (map (cond_indicators ops) cs)"

fun block_indicators :: "'f float_ops \<Rightarrow> 'f block \<Rightarrow> (string \<times> string \<times> 'f param list) list" where
  "block_indicators ops (StrategyB name kids a) = concat (map (block_indicators ops) kids)"
| "block_indicators ops (GroupB name kids w) = concat (map (block_indicators ops) kids)"
| "block_indicators ops (WeightB meth kids lookback topn) = concat (map (block_indicators ops) kids)"
| "block_indicators ops (IfB c th el) =
     cond_indicators ops c @ block_indicators ops th @ (case el of None \<Rightarrow> [] | Some b \<Rightarrow> block_indicators ops b)"
| "block_indicators ops (FilterB crit dir cnt kids lookback) = concat (map (block_indicators ops) kids)"
| "block_indicators ops (AssetB symbol w) = []"

text \<open>
  \<open>extracts ops xs d d'\<close>: the step from \<open>d\<close> to \<open>d'\<close> adds entries under the keys of \<open>xs\<close> that \<open>d\<close> lacks,
  each with its own key and the warm-up of its parameters, and keeps the keys distinct.
\<close>

definition spec_ok :: "'f float_ops \<Rightarrow> string \<times> 'f indicator_spec \<Rightarrow> bool" where
  "spec_ok ops e \<longleftrightarrow> output_key (snd e) = fst e \<and> indicator_type (snd e) \<in> set indicators \<and>
     calculate_required_bars ops (indicator_type (snd e)) (spec_params (snd e)) = Inr (required_bars (snd e)) \<and>
     fst e = generate_output_key ops (indicator_type (snd e)) (spec_symbol (snd e)) (spec_source (snd e))
       (spec_params (snd e)) (output_field (snd e))"

definition extracts ::
  "'f float_ops \<Rightarrow> (string \<times> string \<times> 'f param list) list \<Rightarrow> 'f spec_dict \<Rightarrow> 'f spec_dict \<Rightarrow> bool" where
  "extracts ops xs d d' \<longleftrightarrow>
     set (keys d') = set (keys d) \<union> fst ` set xs \<and> (wf_dict d \<longrightarrow> wf_dict d') \<and>
     (list_all (spec_ok ops) d \<longrightarrow> list_all (spec_ok ops) d')"

lemma extracts_refl: "extracts ops [] d d"
  by (simp add: extracts_def)

lemma extracts_trans: "extracts ops xs d d1 \<Longrightarrow> extracts ops ys d1 d2 \<Longrightarrow> extracts ops (xs @ ys) d d2"
  by (auto simp: extracts_def)

lemma update_fresh: "k \<notin> set (keys d) \<Longrightarrow> AList.update k v d = d @ [(k, v)]"
  by (induction d) auto

lemma extract_value_complete:
  "extract_from_value ops v d = Inr d' \<Longrightarrow> extracts ops (value_indicators ops v) d d'"
  by (cases v) (auto simp: Let_def result_simps extracts_refl extracts_def update_fresh spec_ok_def split: if_splits)

lemma extract_condition_complete:
  "extract_from_condition ops c d = Inr d' \<Longrightarrow> extracts ops (cond_indicators ops c) d d'"
  "extract_from_operands ops cs d = Inr d' \<Longrightarrow> extracts ops (concat (map (cond_indicators ops) cs)) d d'"
  by (induction ops c d and ops cs d arbitrary: d' and d' rule: extract_from_condition_extract_from_operands.induct)
    (auto simp: result_simps extracts_refl intro: extracts_trans extract_value_complete)

lemma extract_block_complete:
  "extract_from_block ops b d = Inr d' \<Longrightarrow> extracts ops (block_indicators ops b) d d'"
  "extract_from_children ops bs d = Inr d' \<Longrightarrow> extracts ops (concat (map (block_indicators ops) bs)) d d'"
proof (induction ops b d and ops bs d arbitrary: d' and d' rule: extract_from_block_extract_from_children.induct)
  case (4 ops c th el d)
  then obtain d1 d2 where d: "extract_from_condition ops c d = Inr d1" "extract_from_block ops th d1 = Inr d2"
      "(case el of None \<Rightarrow> Inr d2 | Some b \<Rightarrow> extract_from_block ops b d2) = Inr d'"
    by (auto simp: result_simps)
  have "extracts ops (case el of None \<Rightarrow> [] | Some b \<Rightarrow> block_indicators ops b) d2 d'"
    using d 4(2) by (cases el) (auto simp: extracts_refl)
  from extracts_trans [OF extract_condition_complete(1) [OF d(1)] extracts_trans [OF 4(1) [OF d(1,2)] this]]
  show ?case by simp
qed (auto simp: result_simps extracts_refl intro: extracts_trans)

lemma get_max_lookback_ge: "spec \<in> set specs \<Longrightarrow> required_bars spec \<le> get_max_lookback specs"
  by (cases specs) (auto simp: get_max_lookback_def fold_max_Max simp del: Max_insert)

end
