(* ===== verification/Strategy_Samples.thy ===== *)
theory Strategy_Samples
  imports Dsl_Analysis
begin

text \<open>
  Concrete data the witnesses of the strategy language run on: decimals in the place of floats and a
  sample strategy, as text and as syntax.
\<close>

lemma pred_option_code [code]: "pred_option P None = True" "pred_option P (Some x) = P x"
  by simp_all

definition decimal_floats :: "decimal float_ops" where
  "decimal_floats =
     \<lparr>fl_of_text = (\<lambda>t. case dec_of_string t of None \<Rightarrow> 0 | Some x \<Rightarrow> x), fl_int = (\<lambda>x. Inr (dec_trunc x)),
      fl_is = (\<lambda>x n. deq x (Dec n 0)), fl_str = dec_str, fl_of_int = (\<lambda>n. Dec n 0), fl_sum = dec_sum,
      fl_near = (\<lambda>x y. abs (x - y) \<le> Dec 1 (- 2)), fl_far = (\<lambda>x y. Dec 1 (- 2) < abs (x - y)), fl_nonpos = (\<lambda>x. x \<le> 0)\<rparr>"

definition sample_source :: string where
  "sample_source =
     ''(strategy \"Trend\" :rebalance monthly :benchmark SPY (if (> (sma SPY 50) (sma SPY 200.5))'' @
     '' (weight :method specified (asset VTI :weight 60) (asset BND :weight 40)) (else (asset SHY))))''"

definition sample_strategy :: "decimal block" where
  "sample_strategy =
     StrategyB ''Trend''
       [IfB (Comparison ''>'' (Indicator ''sma'' ''SPY'' [PInt 50] None) (Indicator ''sma'' ''SPY'' [PFloat (Dec 2005 (- 1))] None))
         (WeightB ''specified'' [AssetB ''VTI'' (Some (Dec 60 0)), AssetB ''BND'' (Some (Dec 40 0))] None None)
         (Some (AssetB ''SHY'' None))]
       \<lparr>at_rebalance = Some ''monthly'', at_benchmark = Some ''SPY'', at_description = None\<rparr>"

lemma sample_parses: "parse_source decimal_floats sample_source = Inr sample_strategy"
  by code_simp

lemma sample_canonical: "canonical decimal_floats sample_strategy"
  by code_simp

lemma sample_well_formed: "well_formed decimal_floats sample_strategy"
  by code_simp

end
