(* ===== verification/Dsl_Properties.thy ===== *)
theory Dsl_Properties
  imports Strategy_Samples
begin

text \<open>
  Properties of the strategy language: the parser, the printer, the stored JSON form and the
  validator, and how they fit together.
\<close>


text \<open>
  C7. A canonical strategy, printed compactly or in lines, parses back to itself: names without a
  backslash before an n, symbols of the token alphabet, vocabulary words, floats whose text reads
  back, nesting up to the limit.
\<close>
theorem print_parse:
  assumes "canonical ops s"
  shows "\<exists>t. serialize ops pretty s = Inr t \<and> parse_source ops t = Inr s"
  using assms by (rule print_parse_canonical)

theorem print_parse_witness:
  "canonical decimal_floats sample_strategy \<and>
   (\<exists>t. serialize decimal_floats True sample_strategy = Inr t \<and> parse_source decimal_floats t = Inr sample_strategy)"
  using print_parse [OF sample_canonical, of True] sample_canonical by simp

text \<open>
  C33. Reading back an escaped string gives the string exactly when no backslash stands before an n.
  The parser undoes the escapes in the wrong order: a name with a backslash before an n comes back
  with a line break.
\<close>
theorem escape_round_trip:
  "unescape (escape_string s) = s \<longleftrightarrow> plain_text s"
  by (rule unescape_escape_iff)

text \<open>
  C25. Reading the stored JSON of a strategy gives the strategy back, except that empty optional texts
  come back as missing; for a canonical strategy nothing changes at all.
\<close>
theorem json_round_trip:
  "from_json ops (to_json (StrategyB name kids a)) = Inr (norm_block (StrategyB name kids a)) \<and>
   (\<not> canonical ops (StrategyB name kids a) \<or> from_json ops (to_json (StrategyB name kids a)) = Inr (StrategyB name kids a))"
  using from_to_json_strategy [of ops name kids a] norm_canonical [of ops "StrategyB name kids a"] by metis

theorem json_round_trip_witness:
  "from_json decimal_floats (to_json (StrategyB ''S'' [AssetB ''SPY'' None] no_attrs)) =
     Inr (StrategyB ''S'' [AssetB ''SPY'' None] no_attrs)"
proof -
  have "canonical decimal_floats (StrategyB ''S'' [AssetB ''SPY'' None] no_attrs)" by code_simp
  then show ?thesis using json_round_trip [of decimal_floats "''S''" "[AssetB ''SPY'' None]" no_attrs] by blast
qed


text \<open>
  Whatever the validator reports for a parsed strategy, it is no vocabulary error: the parser only
  returns known methods, criteria, operators, fields, indicators, metrics and frequencies, and no
  nested strategy.
\<close>
theorem parsed_vocabulary:
  assumes "parse_source ops t = Inr s"
  shows "\<exists>ok errs. validate ops s = Inr (ok, errs) \<and> (\<forall>e \<in> set errs. fst e \<notin> set vocabulary_issues)"
  using parsed_clear [OF assms] by (fastforce simp: clear_def)

theorem parsed_vocabulary_witness:
  "\<exists>ok errs. validate decimal_floats sample_strategy = Inr (ok, errs) \<and> (\<forall>e \<in> set errs. fst e \<notin> set vocabulary_issues)"
  by (rule parsed_vocabulary [OF sample_parses])

end
