(* ===== verification/Runtime_Statistics.thy ===== *)
theory Runtime_Statistics
  imports Dsl_Analysis
begin

text \<open>
  The series statistics and the evaluation state of the strategy runtime
  (\<^verbatim>\<open>libs/runtime/llamatrade_runtime/evaluation\<close>: \<^verbatim>\<open>statistics.py\<close>, \<^verbatim>\<open>state.py\<close>) over bars
  of floats. What the code does with floats is the record \<open>num_ops\<close>: Python's arithmetic and
  comparisons and \<^verbatim>\<open>sum\<close>, numpy's \<^verbatim>\<open>std\<close>, \<^verbatim>\<open>isnan\<close>, division, \<^verbatim>\<open>sum\<close>, \<^verbatim>\<open>mean\<close>, \<^verbatim>\<open>max\<close>,
  \<^verbatim>\<open>min\<close>, \<^verbatim>\<open>nan\<close>, covariance, matrix product and \<^verbatim>\<open>pinv(cov) @ ones\<close> (which may raise), all
  third-party code, \<^verbatim>\<open>math.floor\<close> (which raises for a NaN or an infinity), \<^verbatim>\<open>**\<close>, \<^verbatim>\<open>isfinite\<close> and
  \<^verbatim>\<open>sqrt\<close>, and the constants 1e-12, 1e-9 and 0.015.

  \<open>last_bars_of w bars\<close> keeps the last \<open>w\<close> bars. The lemmas at the end say when a statistic cannot tell
  them from the whole series.
\<close>

section \<open>Floats\<close>

record 'f num_ops =
  nm_of_int :: "int \<Rightarrow> 'f"
  nm_add :: "'f \<Rightarrow> 'f \<Rightarrow> 'f"
  nm_sub :: "'f \<Rightarrow> 'f \<Rightarrow> 'f"
  nm_mul :: "'f \<Rightarrow> 'f \<Rightarrow> 'f"
  nm_div :: "'f \<Rightarrow> 'f \<Rightarrow> 'f"
  nm_abs :: "'f \<Rightarrow> 'f"
  nm_lt :: "'f \<Rightarrow> 'f \<Rightarrow> bool"
  nm_le :: "'f \<Rightarrow> 'f \<Rightarrow> bool"
  nm_eq :: "'f \<Rightarrow> 'f \<Rightarrow> bool"
  nm_nan :: "'f \<Rightarrow> bool"
  nm_sum :: "'f list \<Rightarrow> 'f"
  nm_std :: "'f list \<Rightarrow> 'f"
  nm_sqrt252 :: 'f
  np_div :: "'f \<Rightarrow> 'f \<Rightarrow> 'f"
  np_sum :: "'f list \<Rightarrow> 'f"
  np_max :: "'f list \<Rightarrow> 'f"
  np_cov :: "'f list list \<Rightarrow> 'f list list"
  np_pinv_ones :: "'f list list \<Rightarrow> 'f list option"
  np_matvec :: "'f list list \<Rightarrow> 'f list \<Rightarrow> 'f list"
  nm_neg :: "'f \<Rightarrow> 'f"
  np_nan :: 'f
  np_mean :: "'f list \<Rightarrow> 'f"
  np_min :: "'f list \<Rightarrow> 'f"
  nm_tiny :: 'f
  nm_tolerance :: 'f
  nm_cci :: 'f
  nm_floor :: "'f \<Rightarrow> int result"
  nm_pow :: "'f \<Rightarrow> 'f \<Rightarrow> 'f"
  np_sqrt :: "'f \<Rightarrow> 'f"
  nm_finite :: "'f \<Rightarrow> bool"

abbreviation zero_of :: "'f num_ops \<Rightarrow> 'f" where "zero_of num \<equiv> nm_of_int num 0"

section \<open>Bars\<close>

record 'f bar =
  bar_timestamp :: int
  bar_open :: 'f
  bar_high :: 'f
  bar_low :: 'f
  bar_close :: 'f
  bar_volume :: int

type_synonym 'f history = "(string, 'f bar list) dict"

text \<open>\<^verbatim>\<open>xs[k:]\<close> and \<^verbatim>\<open>xs[:k]\<close>.\<close>

definition slice_from :: "'a list \<Rightarrow> int \<Rightarrow> 'a list" where
  "slice_from xs k = (if 0 \<le> k then drop (nat k) xs else drop (length xs - nat (- k)) xs)"

definition slice_to :: "'a list \<Rightarrow> int \<Rightarrow> 'a list" where
  "slice_to xs k = (if 0 \<le> k then take (nat k) xs else take (length xs - nat (- k)) xs)"

section \<open>Statistics\<close>

definition trailing_return :: "'f num_ops \<Rightarrow> 'f bar list \<Rightarrow> int \<Rightarrow> 'f" where
  "trailing_return num bars lookback =
     (if lookback < 1 \<or> int (length bars) < lookback + 1 then zero_of num
      else let start = bar_close (bars ! (length bars - nat (lookback + 1))); fin = bar_close (bars ! (length bars - 1))
           in if nm_lt num (zero_of num) start then nm_div num (nm_sub num fin start) start else zero_of num)"

text \<open>\<^verbatim>\<open>bars[-lookback:] if lookback else bars\<close>\<close>

definition lookback_series :: "'f bar list \<Rightarrow> int option \<Rightarrow> 'f bar list" where
  "lookback_series bars lookback =
     (case lookback of None \<Rightarrow> bars | Some n \<Rightarrow> if n = 0 then bars else slice_from bars (- n))"

text \<open>\<^verbatim>\<open>np.diff(closes) / closes[:-1]\<close>\<close>

definition returns_of :: "'f num_ops \<Rightarrow> 'f list \<Rightarrow> 'f list" where
  "returns_of num closes =
     map (\<lambda>(prev, cur). np_div num (nm_sub num cur prev) prev) (zip (butlast closes) (tl closes))"

definition return_volatility :: "'f num_ops \<Rightarrow> 'f bar list \<Rightarrow> int option \<Rightarrow> 'f" where
  "return_volatility num bars lookback =
     (let series = lookback_series bars lookback
      in if length series < 2 then zero_of num else nm_std num (returns_of num (map bar_close series)))"

definition average_dollar_volume :: "'f num_ops \<Rightarrow> 'f bar list \<Rightarrow> int option \<Rightarrow> 'f" where
  "average_dollar_volume num bars lookback =
     (let series = lookback_series bars lookback
      in if series = [] then zero_of num
         else nm_div num (nm_sum num (map (\<lambda>b. nm_mul num (bar_close b) (nm_of_int num (bar_volume b))) series))
                (nm_of_int num (int (length series))))"

section \<open>The evaluation state\<close>

record 'f eval_state =
  current_bars :: "(string, 'f bar) dict"
  prev_bars :: "(string, 'f bar) dict"
  st_indicators :: "(string, 'f list) dict"
  bar_history :: "'f history"

definition bar_field :: "'f num_ops \<Rightarrow> 'f bar \<Rightarrow> string \<Rightarrow> 'f result" where
  "bar_field num b fld =
     (if fld = ''close'' then Inr (bar_close b) else if fld = ''open'' then Inr (bar_open b)
      else if fld = ''high'' then Inr (bar_high b) else if fld = ''low'' then Inr (bar_low b)
      else if fld = ''volume'' then Inr (nm_of_int num (bar_volume b)) else Inl KeyError)"

definition get_price :: "'f num_ops \<Rightarrow> 'f eval_state \<Rightarrow> string \<Rightarrow> string \<Rightarrow> 'f result" where
  "get_price num st symbol fld =
     (case map_of (current_bars st) symbol of None \<Rightarrow> Inl KeyError | Some b \<Rightarrow> bar_field num b fld)"

definition get_prev_price :: "'f num_ops \<Rightarrow> 'f eval_state \<Rightarrow> string \<Rightarrow> string \<Rightarrow> 'f result" where
  "get_prev_price num st symbol fld =
     (case map_of (prev_bars st) symbol of None \<Rightarrow> Inl KeyError | Some b \<Rightarrow> bar_field num b fld)"

text \<open>The key under which an indicator is looked up: with its output, else without.\<close>

definition indicator_array ::
  "'f float_ops \<Rightarrow> 'f eval_state \<Rightarrow> string \<Rightarrow> string \<Rightarrow> 'f param list \<Rightarrow> string option \<Rightarrow> 'f list result" where
  "indicator_array ops st name symbol params out =
     (case map_of (st_indicators st) (generate_output_key ops name symbol ''close'' params out) of
        Some xs \<Rightarrow> Inr xs
      | None \<Rightarrow>
          if out \<noteq> None \<and> out \<noteq> Some []
          then (case map_of (st_indicators st) (generate_output_key ops name symbol ''close'' params None) of
                  Some xs \<Rightarrow> Inr xs | None \<Rightarrow> Inl KeyError)
          else Inl KeyError)"

definition get_indicator_value ::
  "'f float_ops \<Rightarrow> 'f eval_state \<Rightarrow> string \<Rightarrow> string \<Rightarrow> 'f param list \<Rightarrow> string option \<Rightarrow> 'f result" where
  "get_indicator_value ops st name symbol params out =
     bindR (indicator_array ops st name symbol params out) (\<lambda>xs.
       if xs = [] then Inl IndexError else Inr (xs ! (length xs - 1)))"

definition get_prev_indicator_value ::
  "'f float_ops \<Rightarrow> 'f eval_state \<Rightarrow> string \<Rightarrow> string \<Rightarrow> 'f param list \<Rightarrow> string option \<Rightarrow> 'f result" where
  "get_prev_indicator_value ops st name symbol params out =
     bindR (indicator_array ops st name symbol params out) (\<lambda>xs.
       if xs = [] then Inl IndexError
       else Inr (xs ! (if 1 < length xs then length xs - 2 else length xs - 1)))"

definition py_max :: "'f num_ops \<Rightarrow> 'f list \<Rightarrow> 'f result" where
  "py_max num xs =
     (case xs of [] \<Rightarrow> Inl ValueError | y # ys \<Rightarrow> Inr (foldl (\<lambda>m x. if nm_lt num m x then x else m) y ys))"

definition calculate_drawdown :: "'f num_ops \<Rightarrow> 'f eval_state \<Rightarrow> string \<Rightarrow> int option \<Rightarrow> 'f result" where
  "calculate_drawdown num st symbol period =
     (case map_of (bar_history st) symbol of
        None \<Rightarrow> Inr (zero_of num)
      | Some bars \<Rightarrow>
          if bars = [] then Inr (zero_of num)
          else let closes = map bar_close (lookback_series bars period)
               in bindR (py_max num closes) (\<lambda>peak.
                    let cur = closes ! (length closes - 1)
                    in Inr (if nm_eq num peak (zero_of num) then zero_of num else nm_div num (nm_sub num peak cur) peak)))"

definition calculate_return :: "'f num_ops \<Rightarrow> 'f eval_state \<Rightarrow> string \<Rightarrow> int option \<Rightarrow> 'f" where
  "calculate_return num st symbol period =
     (let bars = dict_get (bar_history st) symbol []
      in if length bars < 2 then zero_of num
         else if (case period of None \<Rightarrow> False | Some n \<Rightarrow> n < int (length bars)) then trailing_return num bars (the period)
         else let start = bar_close (hd bars); fin = bar_close (bars ! (length bars - 1))
              in if nm_lt num (zero_of num) start then nm_div num (nm_sub num fin start) start else zero_of num)"

definition calculate_volatility :: "'f num_ops \<Rightarrow> 'f eval_state \<Rightarrow> string \<Rightarrow> int option \<Rightarrow> 'f" where
  "calculate_volatility num st symbol period =
     (let bars = dict_get (bar_history st) symbol []
      in if length bars < 2 then zero_of num else nm_mul num (return_volatility num bars period) (nm_sqrt252 num))"

definition get_metric_value :: "'f num_ops \<Rightarrow> 'f eval_state \<Rightarrow> string \<Rightarrow> string \<Rightarrow> int option \<Rightarrow> 'f result" where
  "get_metric_value num st name symbol period =
     (if name = ''drawdown'' then calculate_drawdown num st symbol period
      else if name = ''return'' then Inr (calculate_return num st symbol period)
      else if name = ''volatility'' then Inr (calculate_volatility num st symbol period)
      else Inl KeyError)"

section \<open>Histories that keep the last bars\<close>

definition last_bars_of :: "nat \<Rightarrow> 'a list \<Rightarrow> 'a list" where
  "last_bars_of w xs = drop (length xs - w) xs"

lemma length_last_bars_of [simp]: "length (last_bars_of w xs) = min w (length xs)"
  by (simp add: last_bars_of_def)

lemma last_bars_of_short [simp]: "length xs \<le> w \<Longrightarrow> last_bars_of w xs = xs"
  by (simp add: last_bars_of_def)

lemma last_bars_of_Nil_iff: "0 < w \<Longrightarrow> last_bars_of w xs = [] \<longleftrightarrow> xs = []"
  by (cases xs) (auto simp: last_bars_of_def)

lemma nth_last_bars_of:
  "0 < k \<Longrightarrow> k \<le> w \<Longrightarrow> k \<le> length xs \<Longrightarrow> last_bars_of w xs ! (length (last_bars_of w xs) - k) = xs ! (length xs - k)"
  by (simp add: last_bars_of_def min_def)

lemma last_bars_of_last_bars_of: "k \<le> w \<Longrightarrow> last_bars_of k (last_bars_of w xs) = last_bars_of k xs"
proof -
  assume "k \<le> w"
  then have "length xs - (length xs - w + k) + (length xs - w) = length xs - k" by arith
  then show ?thesis by (simp add: last_bars_of_def)
qed

lemma slice_from_neg: "0 < n \<Longrightarrow> slice_from xs (- n) = last_bars_of (nat n) xs"
  by (simp add: slice_from_def last_bars_of_def)

lemma lookback_series_pos: "0 < n \<Longrightarrow> lookback_series bars (Some n) = last_bars_of (nat n) bars"
  by (simp add: lookback_series_def slice_from_neg)

lemma lookback_series_tail:
  "0 < n \<Longrightarrow> n \<le> int w \<Longrightarrow> lookback_series (last_bars_of w bars) (Some n) = lookback_series bars (Some n)"
  by (simp add: lookback_series_pos last_bars_of_last_bars_of nat_le_iff)

lemma trailing_return_tail:
  assumes "n + 1 \<le> int w"
  shows "trailing_return num (last_bars_of w bars) n = trailing_return num bars n"
proof (cases "n < 1 \<or> int (length bars) < n + 1")
  case False
  then have "nat (n + 1) \<le> w" "nat (n + 1) \<le> length bars" "0 < nat (n + 1)" "0 < length bars" "1 \<le> w"
    using assms by auto
  then show ?thesis
    using False assms nth_last_bars_of [of "nat (n + 1)" w bars] nth_last_bars_of [of 1 w bars]
    by (auto simp: trailing_return_def Let_def min_def)
qed (use assms in \<open>auto simp: trailing_return_def\<close>)

lemma return_volatility_tail:
  "0 < n \<Longrightarrow> n \<le> int w \<Longrightarrow> return_volatility num (last_bars_of w bars) (Some n) = return_volatility num bars (Some n)"
  by (simp add: return_volatility_def lookback_series_tail)

lemma average_dollar_volume_tail:
  "0 < n \<Longrightarrow> n \<le> int w \<Longrightarrow> average_dollar_volume num (last_bars_of w bars) (Some n) = average_dollar_volume num bars (Some n)"
  by (simp add: average_dollar_volume_def lookback_series_tail)

end
