(* ===== verification/Runtime_Indicators.thy ===== *)
theory Runtime_Indicators
  imports Runtime_Statistics
begin

text \<open>
  The indicator library (\<^verbatim>\<open>indicators/library.py\<close>): every indicator over lists of floats, and the
  dispatch that reads the parameters of a spec and names the arrays it returns. Array expressions
  are element-wise lists, loops over an index range are lists built by index or by a recursion
  that carries the loop variables. \<^verbatim>\<open>np.cumsum\<close> adds from left to right.

  A parameter may be a fraction below one, which passes the validator and becomes the period 0; what
  numpy does with it differs from function to function and mostly raises. A period below one ends
  the model in \<open>Untyped\<close>.
\<close>

section \<open>Arrays\<close>

definition nans :: "'f num_ops \<Rightarrow> nat \<Rightarrow> 'f list" where
  "nans num n = replicate n (np_nan num)"

text \<open>\<^verbatim>\<open>xs[i - p + 1 : i + 1]\<close> for \<open>p - 1 \<le> i\<close>.\<close>

definition window_of :: "nat \<Rightarrow> nat \<Rightarrow> 'a list \<Rightarrow> 'a list" where
  "window_of p i xs = take p (drop (i + 1 - p) xs)"

text \<open>An array that is NaN before index \<open>k\<close> and filled by a loop from there.\<close>

definition filled_from :: "'f num_ops \<Rightarrow> nat \<Rightarrow> nat \<Rightarrow> (nat \<Rightarrow> 'f) \<Rightarrow> 'f list" where
  "filled_from num k n f = map (\<lambda>i. if i < k then np_nan num else f i) [0..<n]"

fun cumulate :: "'f num_ops \<Rightarrow> 'f \<Rightarrow> 'f list \<Rightarrow> 'f list" where
  "cumulate num a [] = []"
| "cumulate num a (x # xs) = nm_add num a x # cumulate num (nm_add num a x) xs"

definition np_cumsum :: "'f num_ops \<Rightarrow> 'f list \<Rightarrow> 'f list" where
  "np_cumsum num xs = (case xs of [] \<Rightarrow> [] | x # ys \<Rightarrow> x # cumulate num x ys)"

definition clean :: "'f num_ops \<Rightarrow> 'f list \<Rightarrow> bool" where
  "clean num xs \<longleftrightarrow> \<not> list_ex (nm_nan num) xs"

section \<open>Averages\<close>

definition sma :: "'f num_ops \<Rightarrow> 'f list \<Rightarrow> nat \<Rightarrow> 'f list" where
  "sma num xs p =
     (let n = length xs
      in if n < p then nans num n
         else let csum = np_cumsum num (map (\<lambda>x. if nm_nan num x then zero_of num else x) xs);
                  win_sum = (\<lambda>i. if i < p then csum ! i else nm_sub num (csum ! i) (csum ! (i - p)));
                  cnan = (\<lambda>i. length (filter (nm_nan num) (take (i + 1) xs)));
                  win_nan = (\<lambda>i. if i < p then cnan i else cnan i - cnan (i - p))
              in filled_from num (p - 1) n (\<lambda>i.
                   if win_nan i = 0 then np_div num (win_sum i) (nm_of_int num (int p)) else np_nan num))"

fun ema_run :: "'f num_ops \<Rightarrow> 'f list \<Rightarrow> nat \<Rightarrow> nat \<Rightarrow> 'f \<Rightarrow> nat \<Rightarrow> 'f list" where
  "ema_run num xs p i prev 0 = []"
| "ema_run num xs p i prev (Suc k) =
     (let x = xs ! i;
          v = (if nm_nan num x then np_nan num
               else if nm_nan num prev
               then (if clean num (window_of p i xs) then np_mean num (window_of p i xs) else np_nan num)
               else nm_add num (nm_mul num (nm_sub num x prev)
                      (nm_div num (nm_of_int num 2) (nm_of_int num (int p + 1)))) prev)
      in v # ema_run num xs p (i + 1) v k)"

definition ema :: "'f num_ops \<Rightarrow> 'f list \<Rightarrow> nat \<Rightarrow> 'f list" where
  "ema num xs p =
     (let n = length xs
      in if n < p then nans num n
         else (case find (\<lambda>i. clean num (window_of p i xs)) [p - 1..<n] of
                 None \<Rightarrow> nans num n
               | Some start \<Rightarrow>
                   let seed = np_mean num (window_of p start xs)
                   in nans num start @ seed # ema_run num xs p (start + 1) seed (n - 1 - start)))"

section \<open>Oscillators\<close>

definition np_diff :: "'f num_ops \<Rightarrow> 'f list \<Rightarrow> 'f list" where
  "np_diff num xs = map (\<lambda>(a, b). nm_sub num b a) (zip (butlast xs) (tl xs))"

definition rsi_value :: "'f num_ops \<Rightarrow> 'f \<Rightarrow> 'f \<Rightarrow> 'f" where
  "rsi_value num avg_gain avg_loss =
     (let hundred = nm_of_int num 100
      in if nm_eq num avg_loss (zero_of num) then hundred
         else nm_sub num hundred (np_div num hundred (nm_add num (nm_of_int num 1) (np_div num avg_gain avg_loss))))"

definition wilder_step :: "'f num_ops \<Rightarrow> nat \<Rightarrow> 'f \<Rightarrow> 'f \<Rightarrow> 'f" where
  "wilder_step num p avg x =
     np_div num (nm_add num (nm_mul num avg (nm_of_int num (int p - 1))) x) (nm_of_int num (int p))"

fun rsi_run :: "'f num_ops \<Rightarrow> nat \<Rightarrow> 'f \<Rightarrow> 'f \<Rightarrow> ('f \<times> 'f) list \<Rightarrow> 'f list" where
  "rsi_run num p avg_gain avg_loss [] = []"
| "rsi_run num p avg_gain avg_loss ((g, l) # rest) =
     (let gain = wilder_step num p avg_gain g; loss = wilder_step num p avg_loss l
      in rsi_value num gain loss # rsi_run num p gain loss rest)"

definition rsi :: "'f num_ops \<Rightarrow> 'f list \<Rightarrow> nat \<Rightarrow> 'f list" where
  "rsi num xs p =
     (if length xs < p + 1 then nans num (length xs)
      else let deltas = np_diff num xs;
               gains = map (\<lambda>d. if nm_lt num (zero_of num) d then d else zero_of num) deltas;
               losses = map (\<lambda>d. if nm_lt num d (zero_of num) then nm_neg num d else zero_of num) deltas;
               avg_gain = np_mean num (take p gains); avg_loss = np_mean num (take p losses)
           in nans num p @ rsi_value num avg_gain avg_loss #
                rsi_run num p avg_gain avg_loss (zip (drop p gains) (drop p losses)))"

definition macd :: "'f num_ops \<Rightarrow> 'f list \<Rightarrow> nat \<Rightarrow> nat \<Rightarrow> nat \<Rightarrow> 'f list \<times> 'f list \<times> 'f list" where
  "macd num xs fast slow signal =
     (let macd_line = map2 (nm_sub num) (ema num xs fast) (ema num xs slow);
          signal_line = ema num macd_line signal
      in (macd_line, signal_line, map2 (nm_sub num) macd_line signal_line))"

definition stddev :: "'f num_ops \<Rightarrow> 'f list \<Rightarrow> nat \<Rightarrow> 'f list" where
  "stddev num xs p = filled_from num (p - 1) (length xs) (\<lambda>i. nm_std num (window_of p i xs))"

definition momentum :: "'f num_ops \<Rightarrow> 'f list \<Rightarrow> nat \<Rightarrow> 'f list" where
  "momentum num xs p = filled_from num p (length xs) (\<lambda>i. nm_sub num (xs ! i) (xs ! (i - p)))"

text \<open>The bands around a middle line: upper, middle, lower.\<close>

definition bands :: "'f num_ops \<Rightarrow> 'f \<Rightarrow> 'f list \<Rightarrow> 'f list \<Rightarrow> 'f list \<times> 'f list \<times> 'f list" where
  "bands num factor middle spread =
     (map2 (\<lambda>m s. nm_add num m (nm_mul num factor s)) middle spread, middle,
      map2 (\<lambda>m s. nm_sub num m (nm_mul num factor s)) middle spread)"

definition bollinger_bands :: "'f num_ops \<Rightarrow> 'f list \<Rightarrow> nat \<Rightarrow> 'f \<Rightarrow> 'f list \<times> 'f list \<times> 'f list" where
  "bollinger_bands num xs p std_mult = bands num std_mult (sma num xs p) (stddev num xs p)"

section \<open>Ranges\<close>

definition true_range :: "'f num_ops \<Rightarrow> 'f list \<Rightarrow> 'f list \<Rightarrow> 'f list \<Rightarrow> 'f list" where
  "true_range num high low close =
     filled_from num 1 (length close) (\<lambda>i.
       let hl = nm_sub num (high ! i) (low ! i);
           hc = nm_abs num (nm_sub num (high ! i) (close ! (i - 1)));
           lc = nm_abs num (nm_sub num (low ! i) (close ! (i - 1)));
           m = (if nm_lt num hl hc then hc else hl)
       in if nm_lt num m lc then lc else m)"

fun wilder_run :: "'f num_ops \<Rightarrow> nat \<Rightarrow> 'f \<Rightarrow> 'f list \<Rightarrow> 'f list" where
  "wilder_run num p prev [] = []"
| "wilder_run num p prev (x # xs) = (let v = wilder_step num p prev x in v # wilder_run num p v xs)"

definition wilder_smooth :: "'f num_ops \<Rightarrow> 'f list \<Rightarrow> nat \<Rightarrow> nat \<Rightarrow> 'f list" where
  "wilder_smooth num xs p start =
     (if length xs \<le> start then nans num (length xs)
      else let seed = np_mean num (window_of p start xs)
           in nans num start @ seed # wilder_run num p seed (drop (start + 1) xs))"

definition atr :: "'f num_ops \<Rightarrow> 'f list \<Rightarrow> 'f list \<Rightarrow> 'f list \<Rightarrow> nat \<Rightarrow> 'f list" where
  "atr num high low close p =
     (if length close < p + 1 then nans num (length close)
      else wilder_smooth num (true_range num high low close) p p)"

text \<open>Directional movement at an index, and the movement and its index from the smoothed values.\<close>

definition plus_dm :: "'f num_ops \<Rightarrow> 'f list \<Rightarrow> 'f list \<Rightarrow> nat \<Rightarrow> 'f" where
  "plus_dm num high low i =
     (if i = 0 then zero_of num
      else let up_move = nm_sub num (high ! i) (high ! (i - 1)); down_move = nm_sub num (low ! (i - 1)) (low ! i)
           in if nm_lt num down_move up_move \<and> nm_lt num (zero_of num) up_move then up_move else zero_of num)"

definition minus_dm :: "'f num_ops \<Rightarrow> 'f list \<Rightarrow> 'f list \<Rightarrow> nat \<Rightarrow> 'f" where
  "minus_dm num high low i =
     (if i = 0 then zero_of num
      else let up_move = nm_sub num (high ! i) (high ! (i - 1)); down_move = nm_sub num (low ! (i - 1)) (low ! i)
           in if nm_lt num up_move down_move \<and> nm_lt num (zero_of num) down_move then down_move else zero_of num)"

definition usable_range :: "'f num_ops \<Rightarrow> 'f \<Rightarrow> bool" where
  "usable_range num x \<longleftrightarrow> \<not> nm_nan num x \<and> \<not> nm_eq num x (zero_of num)"

definition adx :: "'f num_ops \<Rightarrow> 'f list \<Rightarrow> 'f list \<Rightarrow> 'f list \<Rightarrow> nat \<Rightarrow> 'f list \<times> 'f list \<times> 'f list" where
  "adx num high low close p =
     (let n = length close
      in if n < 2 * p then (nans num n, nans num n, nans num n)
         else let hundred = nm_of_int num 100;
                  tr = (true_range num high low close)[0 := zero_of num];
                  str = wilder_smooth num tr p p;
                  sp = wilder_smooth num (map (plus_dm num high low) [0..<n]) p p;
                  sm = wilder_smooth num (map (minus_dm num high low) [0..<n]) p p;
                  di = (\<lambda>s. filled_from num p n (\<lambda>i.
                         if usable_range num (str ! i) then np_div num (nm_mul num hundred (s ! i)) (str ! i) else np_nan num));
                  plus_di = di sp; minus_di = di sm;
                  dx = filled_from num p n (\<lambda>i.
                         let di_sum = nm_add num (plus_di ! i) (minus_di ! i)
                         in if usable_range num (str ! i) \<and> \<not> nm_eq num di_sum (zero_of num)
                            then np_div num (nm_mul num hundred (nm_abs num (nm_sub num (plus_di ! i) (minus_di ! i)))) di_sum
                            else np_nan num)
              in (wilder_smooth num dx p (2 * p - 1), plus_di, minus_di))"

section \<open>Channels\<close>

text \<open>The position of the close in the range of the window, scaled; a otherwise when there is no range.\<close>

definition stochastic :: "'f num_ops \<Rightarrow> 'f list \<Rightarrow> 'f list \<Rightarrow> 'f list \<Rightarrow> nat \<Rightarrow> nat \<Rightarrow> nat \<Rightarrow> 'f list \<times> 'f list" where
  "stochastic num high low close k_period d_period smooth =
     (let n = length close
      in if n < k_period then (nans num n, nans num n)
         else let raw_k = filled_from num (k_period - 1) n (\<lambda>i.
                    let highest = np_max num (window_of k_period i high); lowest = np_min num (window_of k_period i low)
                    in if nm_eq num highest lowest then nm_of_int num 50
                       else np_div num (nm_mul num (nm_of_int num 100) (nm_sub num (close ! i) lowest)) (nm_sub num highest lowest));
                  k = sma num raw_k smooth
              in (k, sma num k d_period))"

definition williams_r :: "'f num_ops \<Rightarrow> 'f list \<Rightarrow> 'f list \<Rightarrow> 'f list \<Rightarrow> nat \<Rightarrow> 'f list" where
  "williams_r num high low close p =
     filled_from num (p - 1) (length close) (\<lambda>i.
       let highest = np_max num (window_of p i high); lowest = np_min num (window_of p i low)
       in if nm_eq num highest lowest then nm_of_int num (- 50)
          else np_div num (nm_mul num (nm_of_int num (- 100)) (nm_sub num highest (close ! i))) (nm_sub num highest lowest))"

definition typical_price :: "'f num_ops \<Rightarrow> 'f list \<Rightarrow> 'f list \<Rightarrow> 'f list \<Rightarrow> 'f list" where
  "typical_price num high low close =
     map (\<lambda>(h, l, c). np_div num (nm_add num (nm_add num h l) c) (nm_of_int num 3)) (zip high (zip low close))"

definition cci :: "'f num_ops \<Rightarrow> 'f list \<Rightarrow> 'f list \<Rightarrow> 'f list \<Rightarrow> nat \<Rightarrow> 'f list" where
  "cci num high low close p =
     (let tp = typical_price num high low close; tp_sma = sma num tp p;
          mad = (\<lambda>i. np_mean num (map (\<lambda>x. nm_abs num (nm_sub num x (tp_sma ! i))) (window_of p i tp)))
      in filled_from num (p - 1) (length close) (\<lambda>i.
           if nm_eq num (mad i) (zero_of num) then np_nan num
           else np_div num (nm_sub num (tp ! i) (tp_sma ! i)) (nm_mul num (nm_cci num) (mad i))))"

definition donchian :: "'f num_ops \<Rightarrow> 'f list \<Rightarrow> 'f list \<Rightarrow> nat \<Rightarrow> 'f list \<times> 'f list" where
  "donchian num high low p =
     (filled_from num (p - 1) (length high) (\<lambda>i. np_max num (window_of p i high)),
      filled_from num (p - 1) (length high) (\<lambda>i. np_min num (window_of p i low)))"

definition keltner ::
  "'f num_ops \<Rightarrow> 'f list \<Rightarrow> 'f list \<Rightarrow> 'f list \<Rightarrow> nat \<Rightarrow> 'f \<Rightarrow> 'f list \<times> 'f list \<times> 'f list" where
  "keltner num high low close p atr_mult = bands num atr_mult (ema num close p) (atr num high low close p)"

section \<open>Volume\<close>

fun obv_run :: "'f num_ops \<Rightarrow> 'f \<Rightarrow> 'f \<Rightarrow> ('f \<times> 'f) list \<Rightarrow> 'f list" where
  "obv_run num prev_close acc [] = []"
| "obv_run num prev_close acc ((c, v) # rest) =
     (let x = (if nm_lt num prev_close c then nm_add num acc v
               else if nm_lt num c prev_close then nm_sub num acc v else acc)
      in x # obv_run num c x rest)"

definition obv :: "'f num_ops \<Rightarrow> 'f list \<Rightarrow> 'f list \<Rightarrow> 'f list result" where
  "obv num close volume =
     (case zip close volume of [] \<Rightarrow> Inl IndexError | (c, v) # rest \<Rightarrow> Inr (v # obv_run num c v rest))"

text \<open>The money flow of an index that rose, and of one that fell.\<close>

definition mfi :: "'f num_ops \<Rightarrow> 'f list \<Rightarrow> 'f list \<Rightarrow> 'f list \<Rightarrow> 'f list \<Rightarrow> nat \<Rightarrow> 'f list" where
  "mfi num high low close volume p =
     (let tp = typical_price num high low close; mf = map2 (nm_mul num) tp volume; n = length close;
          pos_mf = map (\<lambda>i. if 0 < i \<and> nm_lt num (tp ! (i - 1)) (tp ! i) then mf ! i else zero_of num) [0..<n];
          neg_mf = map (\<lambda>i. if 0 < i \<and> \<not> nm_lt num (tp ! (i - 1)) (tp ! i) \<and> nm_lt num (tp ! i) (tp ! (i - 1))
                     then mf ! i else zero_of num) [0..<n]
      in filled_from num p n (\<lambda>i.
           rsi_value num (np_sum num (window_of p i pos_mf)) (np_sum num (window_of p i neg_mf))))"

definition vwap :: "'f num_ops \<Rightarrow> 'f list \<Rightarrow> 'f list \<Rightarrow> 'f list \<Rightarrow> 'f list \<Rightarrow> 'f list" where
  "vwap num high low close volume =
     map2 (\<lambda>tv v. if nm_eq num v (zero_of num) then np_nan num else np_div num tv v)
       (np_cumsum num (map2 (nm_mul num) (typical_price num high low close) volume)) (np_cumsum num volume)"

section \<open>Dispatch\<close>

record 'f price_data =
  pd_open :: "'f list"
  pd_high :: "'f list"
  pd_low :: "'f list"
  pd_close :: "'f list"
  pd_volume :: "'f list"

definition price_data_of :: "'f num_ops \<Rightarrow> 'f bar list \<Rightarrow> 'f price_data" where
  "price_data_of num bars =
     \<lparr>pd_open = map bar_open bars, pd_high = map bar_high bars, pd_low = map bar_low bars, pd_close = map bar_close bars,
      pd_volume = map (\<lambda>b. nm_of_int num (bar_volume b)) bars\<rparr>"

definition get_source :: "'f price_data \<Rightarrow> string \<Rightarrow> 'f list result" where
  "get_source prices name =
     (if name = ''open'' then Inr (pd_open prices) else if name = ''high'' then Inr (pd_high prices)
      else if name = ''low'' then Inr (pd_low prices) else if name = ''close'' then Inr (pd_close prices)
      else if name = ''volume'' then Inr (pd_volume prices) else Inl KeyError)"

text \<open>\<^verbatim>\<open>int(params[i]) if len(params) > i else otherwise\<close>, and the same with \<^verbatim>\<open>float\<close>.\<close>

definition period_param :: "'f float_ops \<Rightarrow> 'f param list \<Rightarrow> nat \<Rightarrow> int \<Rightarrow> nat result" where
  "period_param ops params i otherwise =
     bindR (if i < length params then param_int ops (params ! i) else Inr otherwise) (\<lambda>n.
       if n < 1 then Inl Untyped else Inr (nat n))"

definition float_param :: "'f float_ops \<Rightarrow> 'f param list \<Rightarrow> nat \<Rightarrow> 'f \<Rightarrow> 'f" where
  "float_param ops params i otherwise =
     (if i < length params then (case params ! i of PInt n \<Rightarrow> fl_of_int ops n | PFloat x \<Rightarrow> x) else otherwise)"

definition base_key :: "'f indicator_spec \<Rightarrow> string list \<Rightarrow> string" where
  "base_key spec parts = join ''_'' ([indicator_type spec, spec_symbol spec, spec_source spec] @ parts)"

text \<open>The named outputs of an indicator, then the requested one under the key of the spec.\<close>

definition outputs :: "'f indicator_spec \<Rightarrow> string list \<Rightarrow> (string \<times> 'f list) list \<Rightarrow> 'f list \<Rightarrow> (string, 'f list) dict" where
  "outputs spec parts named otherwise =
     AList.update (output_key spec)
       (case output_field spec of None \<Rightarrow> otherwise | Some w \<Rightarrow> (case map_of named w of None \<Rightarrow> otherwise | Some xs \<Rightarrow> xs))
       (foldl (\<lambda>d (w, xs). AList.update (base_key spec parts @ ''_'' @ w) xs d) [] named)"

definition single :: "'f indicator_spec \<Rightarrow> 'f list \<Rightarrow> (string, 'f list) dict" where
  "single spec xs = [(output_key spec, xs)]"

definition compute_indicator ::
  "'f num_ops \<Rightarrow> 'f float_ops \<Rightarrow> 'f indicator_spec \<Rightarrow> 'f price_data \<Rightarrow> (string, 'f list) dict result" where
  "compute_indicator num ops spec prices =
     (let ty = indicator_type spec; params = spec_params spec; source = get_source prices (spec_source spec);
          high = pd_high prices; low = pd_low prices; close = pd_close prices; volume = pd_volume prices;
          int_text = (\<lambda>n :: nat. show_int (int n)); period = (\<lambda>otherwise. period_param ops params 0 otherwise)
      in if ty = ''sma'' then bindR source (\<lambda>xs. bindR (period 20) (\<lambda>p. Inr (single spec (sma num xs p))))
         else if ty = ''ema'' then bindR source (\<lambda>xs. bindR (period 20) (\<lambda>p. Inr (single spec (ema num xs p))))
         else if ty = ''rsi'' then bindR source (\<lambda>xs. bindR (period 14) (\<lambda>p. Inr (single spec (rsi num xs p))))
         else if ty = ''macd''
         then bindR source (\<lambda>xs. bindR (period 12) (\<lambda>fast. bindR (period_param ops params 1 26) (\<lambda>slow.
              bindR (period_param ops params 2 9) (\<lambda>signal.
                case macd num xs fast slow signal of (line, sig, hist) \<Rightarrow>
                  Inr (outputs spec [int_text fast, int_text slow, int_text signal]
                    [(''line'', line), (''signal'', sig), (''histogram'', hist)] line)))))
         else if ty = ''bbands''
         then bindR source (\<lambda>xs. bindR (period 20) (\<lambda>p.
                let factor = float_param ops params 1 (fl_of_int ops 2)
                in case bollinger_bands num xs p factor of (upper, middle, lower) \<Rightarrow>
                     Inr (outputs spec [int_text p, fl_str ops factor]
                       [(''upper'', upper), (''middle'', middle), (''lower'', lower)] middle)))
         else if ty = ''atr'' then bindR (period 14) (\<lambda>p. Inr (single spec (atr num high low close p)))
         else if ty = ''adx''
         then bindR (period 14) (\<lambda>p. case adx num high low close p of (value, plus_di, minus_di) \<Rightarrow>
                Inr (outputs spec [int_text p] [(''value'', value), (''plus_di'', plus_di), (''minus_di'', minus_di)] value))
         else if ty = ''stoch''
         then bindR (period 14) (\<lambda>k_period. bindR (period_param ops params 1 3) (\<lambda>d_period.
              bindR (period_param ops params 2 3) (\<lambda>smooth.
                case stochastic num high low close k_period d_period smooth of (k, d) \<Rightarrow>
                  Inr (outputs spec [int_text k_period, int_text d_period, int_text smooth] [(''k'', k), (''d'', d)] k))))
         else if ty = ''cci'' then bindR (period 20) (\<lambda>p. Inr (single spec (cci num high low close p)))
         else if ty = ''williams-r'' then bindR (period 14) (\<lambda>p. Inr (single spec (williams_r num high low close p)))
         else if ty = ''obv'' then bindR (obv num close volume) (\<lambda>xs. Inr (single spec xs))
         else if ty = ''mfi'' then bindR (period 14) (\<lambda>p. Inr (single spec (mfi num high low close volume p)))
         else if ty = ''vwap'' then Inr (single spec (vwap num high low close volume))
         else if ty = ''keltner''
         then bindR (period 20) (\<lambda>p.
                let factor = float_param ops params 1 (fl_of_int ops 2)
                in case keltner num high low close p factor of (upper, middle, lower) \<Rightarrow>
                     Inr (outputs spec [int_text p, fl_str ops factor]
                       [(''upper'', upper), (''middle'', middle), (''lower'', lower)] middle))
         else if ty = ''donchian''
         then bindR (period 20) (\<lambda>p. case donchian num high low p of (upper, lower) \<Rightarrow>
                Inr (outputs spec [int_text p] [(''upper'', upper), (''lower'', lower)] upper))
         else if ty = ''stddev'' then bindR source (\<lambda>xs. bindR (period 20) (\<lambda>p. Inr (single spec (stddev num xs p))))
         else if ty = ''momentum'' then bindR source (\<lambda>xs. bindR (period 10) (\<lambda>p. Inr (single spec (momentum num xs p))))
         else Inr [])"

definition update_all_keys :: "('k, 'v) dict \<Rightarrow> ('k, 'v) dict \<Rightarrow> ('k, 'v) dict" where
  "update_all_keys d e = foldl (\<lambda>a (k, v). AList.update k v a) d e"

text \<open>\<^verbatim>\<open>compute_all_indicators\<close> of the library.\<close>

fun library_indicators ::
  "'f num_ops \<Rightarrow> 'f float_ops \<Rightarrow> 'f price_data \<Rightarrow> 'f indicator_spec list \<Rightarrow> (string, 'f list) dict \<Rightarrow>
   (string, 'f list) dict result" where
  "library_indicators num ops prices [] d = Inr d"
| "library_indicators num ops prices (spec # specs) d =
     bindR (compute_indicator num ops spec prices) (\<lambda>e. library_indicators num ops prices specs (update_all_keys d e))"

end
