(* ===== verification/Runtime_Evaluator.thy ===== *)
theory Runtime_Evaluator
  imports Runtime_Indicators
begin

text \<open>
  The evaluator of the strategy runtime (\<^verbatim>\<open>evaluation/conditions.py\<close>, \<^verbatim>\<open>evaluation/compiled.py\<close>):
  conditions, the allocation of every block and the compiled strategy with its bar history.

  The count of degraded conditions that the code keeps on the state is threaded through the
  evaluation, also where a condition raises: a \<open>counted\<close> computation takes the count and returns the
  new one with its outcome.
\<close>

section \<open>Counting computations\<close>

type_synonym 'a counted = "nat \<Rightarrow> nat \<times> 'a result"

definition returnC :: "'a \<Rightarrow> 'a counted" where
  "returnC x n = (n, Inr x)"

definition raiseC :: "py_error \<Rightarrow> 'a counted" where
  "raiseC e n = (n, Inl e)"

definition liftC :: "'a result \<Rightarrow> 'a counted" where
  "liftC r n = (n, r)"

text \<open>\<^verbatim>\<open>_record_degraded\<close>\<close>

definition degraded :: "bool counted" where
  "degraded n = (n + 1, Inr False)"

definition bindC :: "'a counted \<Rightarrow> ('a \<Rightarrow> 'b counted) \<Rightarrow> 'b counted" where
  "bindC m f n = (case m n of (k, r) \<Rightarrow> (case r of Inl e \<Rightarrow> (k, Inl e) | Inr x \<Rightarrow> f x k))"

fun mapC :: "('a \<Rightarrow> 'b counted) \<Rightarrow> 'a list \<Rightarrow> 'b list counted" where
  "mapC f [] = returnC []"
| "mapC f (x # xs) = bindC (f x) (\<lambda>y. bindC (mapC f xs) (\<lambda>ys. returnC (y # ys)))"

lemma bindC_cong [fundef_cong]:
  "m n = m' n' \<Longrightarrow> n = n' \<Longrightarrow> (\<And>x k. m' n' = (k, Inr x) \<Longrightarrow> f x k = g x k) \<Longrightarrow> bindC m f n = bindC m' g n'"
  by (auto simp: bindC_def split: prod.split sum.split)

lemma mapC_cong [fundef_cong]:
  "xs = ys \<Longrightarrow> n = n' \<Longrightarrow> (\<And>x k. x \<in> set ys \<Longrightarrow> f x k = g x k) \<Longrightarrow> mapC f xs n = mapC g ys n'"
proof (induction ys arbitrary: xs n n')
  case (Cons y ys)
  then show ?case by (auto intro!: bindC_cong)
qed simp

section \<open>Conditions\<close>

fun resolve_value :: "'f num_ops \<Rightarrow> 'f float_ops \<Rightarrow> 'f eval_state \<Rightarrow> 'f dsl_value \<Rightarrow> 'f result" where
  "resolve_value num ops st (NumericLiteral x) = Inr x"
| "resolve_value num ops st (Price symbol fld) = get_price num st symbol fld"
| "resolve_value num ops st (Indicator name symbol params out) = get_indicator_value ops st name symbol params out"
| "resolve_value num ops st (Metric name symbol period) = get_metric_value num st name symbol period"

fun get_prev_value :: "'f num_ops \<Rightarrow> 'f float_ops \<Rightarrow> 'f eval_state \<Rightarrow> 'f dsl_value \<Rightarrow> 'f result" where
  "get_prev_value num ops st (NumericLiteral x) = Inr x"
| "get_prev_value num ops st (Price symbol fld) = get_prev_price num st symbol fld"
| "get_prev_value num ops st (Indicator name symbol params out) = get_prev_indicator_value ops st name symbol params out"
| "get_prev_value num ops st (Metric name symbol period) = get_metric_value num st name symbol period"

definition compare_floats :: "'f num_ops \<Rightarrow> string \<Rightarrow> 'f \<Rightarrow> 'f \<Rightarrow> bool" where
  "compare_floats num op l r =
     (if op = ''>'' then nm_lt num r l else if op = ''<'' then nm_lt num l r
      else if op = ''>='' then nm_le num r l else if op = ''<='' then nm_le num l r
      else if op = ''='' then nm_eq num l r else \<not> nm_eq num l r)"

definition evaluate_comparison ::
  "'f num_ops \<Rightarrow> 'f float_ops \<Rightarrow> 'f eval_state \<Rightarrow> string \<Rightarrow> 'f dsl_value \<Rightarrow> 'f dsl_value \<Rightarrow> bool counted" where
  "evaluate_comparison num ops st op l r =
     bindC (liftC (resolve_value num ops st l)) (\<lambda>lv.
     bindC (liftC (resolve_value num ops st r)) (\<lambda>rv.
       if nm_nan num lv \<or> nm_nan num rv then degraded else returnC (compare_floats num op lv rv)))"

definition evaluate_crossover ::
  "'f num_ops \<Rightarrow> 'f float_ops \<Rightarrow> 'f eval_state \<Rightarrow> string \<Rightarrow> 'f dsl_value \<Rightarrow> 'f dsl_value \<Rightarrow> bool counted" where
  "evaluate_crossover num ops st dir f s =
     bindC (liftC (resolve_value num ops st f)) (\<lambda>fast_curr.
     bindC (liftC (resolve_value num ops st s)) (\<lambda>slow_curr.
     bindC (liftC (get_prev_value num ops st f)) (\<lambda>fast_prev.
     bindC (liftC (get_prev_value num ops st s)) (\<lambda>slow_prev.
       if nm_nan num fast_curr \<or> nm_nan num slow_curr \<or> nm_nan num fast_prev \<or> nm_nan num slow_prev then degraded
       else if dir = ''above'' then returnC (nm_le num fast_prev slow_prev \<and> nm_lt num slow_curr fast_curr)
       else if dir = ''below'' then returnC (nm_le num slow_prev fast_prev \<and> nm_lt num fast_curr slow_curr)
       else raiseC EvaluationError))))"

text \<open>\<^verbatim>\<open>all\<close> and \<^verbatim>\<open>any\<close> stop at the first operand that decides.\<close>

fun evaluate_condition :: "'f num_ops \<Rightarrow> 'f float_ops \<Rightarrow> 'f eval_state \<Rightarrow> 'f condition \<Rightarrow> bool counted"
  and evaluate_until :: "'f num_ops \<Rightarrow> 'f float_ops \<Rightarrow> 'f eval_state \<Rightarrow> bool \<Rightarrow> 'f condition list \<Rightarrow> bool counted" where
  "evaluate_condition num ops st (Comparison op l r) n = evaluate_comparison num ops st op l r n"
| "evaluate_condition num ops st (Crossover dir f s) n = evaluate_crossover num ops st dir f s n"
| "evaluate_condition num ops st (LogicalOp op cs) n =
     (if op = ''and'' then evaluate_until num ops st False cs n
      else if op = ''or'' then evaluate_until num ops st True cs n
      else if op = ''not''
      then (case cs of [c] \<Rightarrow> bindC (evaluate_condition num ops st c) (\<lambda>b. returnC (\<not> b)) n | _ \<Rightarrow> raiseC EvaluationError n)
      else raiseC EvaluationError n)"
| "evaluate_until num ops st decisive [] n = returnC (\<not> decisive) n"
| "evaluate_until num ops st decisive (c # cs) n =
     bindC (evaluate_condition num ops st c) (\<lambda>b. if b = decisive then returnC decisive else evaluate_until num ops st decisive cs) n"

definition evaluate_condition_safe :: "'f num_ops \<Rightarrow> 'f float_ops \<Rightarrow> 'f eval_state \<Rightarrow> 'f condition \<Rightarrow> bool counted" where
  "evaluate_condition_safe num ops st c n =
     (case evaluate_condition num ops st c n of
        (k, Inr b) \<Rightarrow> (k, Inr b)
      | (k, Inl e) \<Rightarrow>
          if e \<in> {EvaluationError, KeyError, ValueError, IndexError} then degraded k else raiseC e k)"

section \<open>Merging allocations\<close>

type_synonym 'f weights = "(string, 'f) dict"

definition normalized :: "'f num_ops \<Rightarrow> 'f weights \<Rightarrow> 'f weights" where
  "normalized num ws =
     (let total = nm_sum num (vals ws)
      in if nm_le num total (zero_of num) then []
         else map (\<lambda>(s, w). (s, nm_div num (nm_mul num w (nm_of_int num 100)) total)) ws)"

definition merge_one :: "'f num_ops \<Rightarrow> 'f weights \<Rightarrow> 'f weights \<times> 'f \<Rightarrow> 'f weights" where
  "merge_one num combined p =
     foldl (\<lambda>d (symbol, w). AList.update symbol
       (nm_add num (dict_get d symbol (zero_of num)) (nm_div num (nm_mul num w (snd p)) (nm_of_int num 100))) d) combined (fst p)"

definition scaled_merge :: "'f num_ops \<Rightarrow> ('f weights \<times> 'f) list \<Rightarrow> 'f weights" where
  "scaled_merge num pairs = normalized num (foldl (merge_one num) [] pairs)"

definition equal_share :: "'f num_ops \<Rightarrow> 'a list \<Rightarrow> 'f" where
  "equal_share num xs = nm_div num (nm_of_int num 100) (nm_of_int num (int (length xs)))"

text \<open>\<^verbatim>\<open>_evaluate_children\<close> after its children are evaluated.\<close>

definition combine_children :: "'f num_ops \<Rightarrow> ('f option \<times> 'f weights) list \<Rightarrow> 'f weights" where
  "combine_children num evaluated =
     (let contributions = filter (\<lambda>(share, a). a \<noteq> []) evaluated
      in if contributions = [] then []
         else if list_all (\<lambda>(share, a). share \<noteq> None) contributions
         then scaled_merge num (map (\<lambda>(share, a). (a, the share)) contributions)
         else scaled_merge num (map (\<lambda>(share, a). (a, equal_share num contributions)) contributions))"

section \<open>Computed weight methods\<close>

fun insert_desc :: "'f num_ops \<Rightarrow> ('a \<Rightarrow> 'f) \<Rightarrow> 'a \<Rightarrow> 'a list \<Rightarrow> 'a list" where
  "insert_desc num key x [] = [x]"
| "insert_desc num key x (y # ys) = (if nm_lt num (key x) (key y) then y # insert_desc num key x ys else x # y # ys)"

text \<open>\<^verbatim>\<open>sorted(xs, key=key, reverse=True)\<close>: descending and stable (for keys that are no NaN).\<close>

definition sorted_desc :: "'f num_ops \<Rightarrow> ('a \<Rightarrow> 'f) \<Rightarrow> 'a list \<Rightarrow> 'a list" where
  "sorted_desc num key xs = foldr (insert_desc num key) xs []"

definition equal_weights :: "'f num_ops \<Rightarrow> string list \<Rightarrow> 'f weights" where
  "equal_weights num symbols = map (\<lambda>s. (s, equal_share num symbols)) symbols"

definition compute_momentum_weights ::
  "'f num_ops \<Rightarrow> 'f history \<Rightarrow> string list \<Rightarrow> int option \<Rightarrow> int option \<Rightarrow> 'f weights" where
  "compute_momentum_weights num h symbols lookback topn =
     (let score = (\<lambda>s. trailing_return num (dict_get h s []) (or_default lookback 90));
          ranked = sorted_desc num score symbols;
          selected = (case topn of None \<Rightarrow> ranked
            | Some n \<Rightarrow> if n \<noteq> 0 \<and> n < int (length ranked) then slice_to ranked n else ranked)
      in if selected = [] then []
         else let positive = (\<lambda>s. if nm_lt num (score s) (zero_of num) then zero_of num else score s);
                  total = nm_sum num (map positive selected)
              in if nm_le num total (zero_of num) then equal_weights num selected
                 else map (\<lambda>s. (s, nm_mul num (nm_div num (positive s) total) (nm_of_int num 100))) selected)"

definition compute_inverse_volatility_weights ::
  "'f num_ops \<Rightarrow> 'f history \<Rightarrow> string list \<Rightarrow> int option \<Rightarrow> 'f weights" where
  "compute_inverse_volatility_weights num h symbols lookback =
     (let n = or_default lookback 60;
          vol = (\<lambda>s. return_volatility num (dict_get h s []) (Some n));
          usable = filter (\<lambda>s. n \<le> int (length (dict_get h s [])) \<and> nm_lt num (zero_of num) (vol s)) symbols;
          inv = (\<lambda>s. nm_div num (nm_of_int num 1) (vol s))
      in if usable = [] then equal_weights num symbols
         else let total = nm_sum num (map inv usable);
                  result = map (\<lambda>s. (s, nm_mul num (nm_div num (inv s) total) (nm_of_int num 100))) usable
              in foldl (\<lambda>d s. dict_setdefault s (zero_of num) d) result symbols)"

text \<open>The matrix of the last closes over the common window, symbols in sorted order.\<close>

definition aligned_closes :: "'f history \<Rightarrow> string list \<Rightarrow> int option \<Rightarrow> (string list \<times> 'f list list) option" where
  "aligned_closes h symbols lookback =
     (let usable = filter (\<lambda>s. 3 \<le> length (dict_get h s [])) symbols;
          lengths = map (\<lambda>s. int (length (dict_get h s []))) usable
      in if length usable < 2 then None
         else let common = fold min (tl lengths) (hd lengths);
                  window = (case lookback of None \<Rightarrow> common | Some n \<Rightarrow> if n = 0 then common else min common (n + 1))
              in if window < 3 then None
                 else let syms = sort usable
                      in Some (syms, map (\<lambda>s. map bar_close (slice_from (dict_get h s []) (- window))) syms))"

text \<open>The fixed-point iteration of risk parity, for as many rounds as are left.\<close>

fun risk_parity_loop :: "'f num_ops \<Rightarrow> 'f list list \<Rightarrow> nat \<Rightarrow> 'f list \<Rightarrow> 'f list" where
  "risk_parity_loop num cov 0 w = w"
| "risk_parity_loop num cov (Suc k) w =
     (let marginal = map (\<lambda>m. if nm_lt num (nm_abs num m) (nm_tiny num) then nm_tiny num else m) (np_matvec num cov w);
          inv = map (np_div num (nm_of_int num 1)) marginal;
          w_next = map (\<lambda>x. np_div num x (np_sum num inv)) inv
      in if nm_lt num (np_max num (map2 (\<lambda>a b. nm_abs num (nm_sub num a b)) w_next w)) (nm_tolerance num) then w_next
         else risk_parity_loop num cov k w_next)"

definition raw_weights :: "'f num_ops \<Rightarrow> string \<Rightarrow> 'f list list \<Rightarrow> 'f list option" where
  "raw_weights num meth cov =
     (if meth = ''min-variance'' then np_pinv_ones num cov
      else let n = length cov
           in Some (risk_parity_loop num cov 500 (replicate n (np_div num (nm_of_int num 1) (nm_of_int num (int n))))))"

text \<open>The long-only weights from the matrix of closes: negatives clipped, scaled to 100.\<close>

definition scaled_covariance :: "'f num_ops \<Rightarrow> string \<Rightarrow> 'f list list \<Rightarrow> 'f list option" where
  "scaled_covariance num meth closes =
     (case raw_weights num meth (np_cov num (map (returns_of num) closes)) of
        None \<Rightarrow> None
      | Some raw \<Rightarrow>
          let clipped = map (\<lambda>x. if nm_lt num x (zero_of num) then zero_of num else x) raw;
              total = np_sum num clipped
          in if nm_le num total (zero_of num) then None
             else Some (map (\<lambda>x. nm_mul num (np_div num x total) (nm_of_int num 100)) clipped))"

definition covariance_weights ::
  "'f num_ops \<Rightarrow> 'f history \<Rightarrow> string \<Rightarrow> string list \<Rightarrow> int option \<Rightarrow> 'f weights" where
  "covariance_weights num h meth symbols lookback =
     (case aligned_closes h symbols lookback of
        None \<Rightarrow> compute_inverse_volatility_weights num h symbols lookback
      | Some (syms, closes) \<Rightarrow>
          (case scaled_covariance num meth closes of
             None \<Rightarrow> compute_inverse_volatility_weights num h symbols lookback
           | Some scaled \<Rightarrow> foldl (\<lambda>d s. dict_setdefault s (zero_of num) d) (zip syms scaled) symbols))"

definition computed_weights ::
  "'f num_ops \<Rightarrow> 'f history \<Rightarrow> string \<Rightarrow> int option \<Rightarrow> int option \<Rightarrow> string list \<Rightarrow> 'f weights" where
  "computed_weights num h meth lookback topn symbols =
     (if symbols = [] then []
      else if meth = ''momentum'' then compute_momentum_weights num h symbols lookback topn
      else if meth = ''inverse-volatility'' then compute_inverse_volatility_weights num h symbols lookback
      else if meth = ''risk-parity'' \<or> meth = ''min-variance'' then covariance_weights num h meth symbols lookback
      else equal_weights num symbols)"

text \<open>The distinct symbols in order of first appearance.\<close>

definition symbol_union :: "'f weights list \<Rightarrow> string list" where
  "symbol_union as = foldl (\<lambda>acc s. if s \<in> set acc then acc else acc @ [s]) [] (concat (map keys as))"

section \<open>Filters\<close>

definition filter_score :: "'f num_ops \<Rightarrow> 'f history \<Rightarrow> string \<Rightarrow> int option \<Rightarrow> string \<Rightarrow> 'f" where
  "filter_score num h crit lookback symbol =
     (let n = or_default lookback 90; bars = dict_get h symbol []
      in if crit = ''momentum'' then trailing_return num bars n
         else if crit = ''volatility''
         then if n \<le> int (length bars) then return_volatility num bars (Some n) else zero_of num
         else if crit = ''volume'' then average_dollar_volume num bars (Some n)
         else zero_of num)"

definition select_weights ::
  "'f num_ops \<Rightarrow> 'f history \<Rightarrow> string \<Rightarrow> string \<Rightarrow> int \<Rightarrow> int option \<Rightarrow> 'f weights \<Rightarrow> 'f weights" where
  "select_weights num h crit dir cnt lookback ws =
     (if ws = [] then []
      else let ranked = sorted_desc num (filter_score num h crit lookback) (keys ws);
               selected = (if dir = ''top'' then slice_to ranked cnt else slice_from ranked (- cnt))
           in normalized num (map (\<lambda>s. (s, dict_get ws s (zero_of num))) selected))"

section \<open>Blocks\<close>

fun declared_weight :: "'f block \<Rightarrow> 'f option" where
  "declared_weight (AssetB symbol w) = w"
| "declared_weight (GroupB name kids w) = w"
| "declared_weight _ = None"

fun is_if :: "'f block \<Rightarrow> bool" where
  "is_if (IfB c th el) = True"
| "is_if _ = False"

function (sequential) evaluate_block :: "'f num_ops \<Rightarrow> 'f float_ops \<Rightarrow> 'f eval_state \<Rightarrow> 'f block \<Rightarrow> 'f weights counted"
  and share_and_allocation ::
    "'f num_ops \<Rightarrow> 'f float_ops \<Rightarrow> 'f eval_state \<Rightarrow> 'f block \<Rightarrow> ('f option \<times> 'f weights) counted" where
  "evaluate_block num ops st (StrategyB name kids a) n =
     bindC (mapC (share_and_allocation num ops st) kids) (\<lambda>xs. returnC (combine_children num xs)) n"
| "evaluate_block num ops st (GroupB name kids w) n =
     bindC (mapC (share_and_allocation num ops st) kids) (\<lambda>xs. returnC (combine_children num xs)) n"
| "evaluate_block num ops st (WeightB meth kids lookback topn) n =
     (if meth = ''specified''
      then bindC (mapC (share_and_allocation num ops st) kids) (\<lambda>xs.
             returnC (scaled_merge num
               (map (\<lambda>(share, a). (a, the share)) (filter (\<lambda>(share, a). share \<noteq> None \<and> a \<noteq> []) xs)))) n
      else bindC (mapC (evaluate_block num ops st) kids) (\<lambda>as.
             if meth = ''equal''
             then (let contributing = filter (\<lambda>a. a \<noteq> []) as
                   in if contributing = [] then returnC []
                      else returnC (scaled_merge num (map (\<lambda>a. (a, equal_share num contributing)) contributing)))
             else returnC (computed_weights num (bar_history st) meth lookback topn (symbol_union as))) n)"
| "evaluate_block num ops st (AssetB symbol w) n = returnC [(symbol, nm_of_int num 100)] n"
| "evaluate_block num ops st (IfB c th el) n =
     bindC (evaluate_condition_safe num ops st c) (\<lambda>met.
       if met then evaluate_block num ops st th
       else (case el of None \<Rightarrow> returnC [] | Some b \<Rightarrow> evaluate_block num ops st b)) n"
| "evaluate_block num ops st (FilterB crit dir cnt kids lookback) n =
     bindC (mapC (share_and_allocation num ops st) kids) (\<lambda>xs.
       returnC (select_weights num (bar_history st) crit dir cnt lookback (combine_children num xs))) n"
| "share_and_allocation num ops st (IfB c th el) n =
     bindC (evaluate_condition_safe num ops st c) (\<lambda>met.
       if met then share_and_allocation num ops st th
       else (case el of None \<Rightarrow> returnC (None, []) | Some b \<Rightarrow> share_and_allocation num ops st b)) n"
| "share_and_allocation num ops st b n =
     bindC (evaluate_block num ops st b) (\<lambda>a. returnC (declared_weight b, a)) n"
  by pat_completeness auto
termination
  by (relation "measure (\<lambda>x. case x of Inl (num, ops, st, b, n) \<Rightarrow> 2 * size b | Inr (num, ops, st, b, n) \<Rightarrow> 2 * size b + 1)")
    (auto simp: less_Suc_eq_le dest!: size_list_estimation' [where f = size, OF _ order_refl])

end
