(* ===== verification/Runtime_Compiled.thy ===== *)
theory Runtime_Compiled
  imports Runtime_Evaluator
begin

text \<open>
  The compiled strategy (\<^verbatim>\<open>evaluation/compiled.py\<close>, class \<^verbatim>\<open>CompiledStrategy\<close>): compilation, the bar
  history it accumulates and caps, and the allocation of one step.

  The module \<^verbatim>\<open>window.py\<close> promises that capping the history at the window it computes does not
  change the result. \<open>evaluate_block_tail\<close> and \<open>run_tail\<close> prove it for a validated strategy that reads
  bounded history, gives its covariance weights a lookback, and whose indicator library depends on
  the retained bars only (\<open>local_indicators\<close>); the hypotheses are needed.
\<close>

section \<open>Compilation\<close>

record 'f compiled =
  co_strategy :: "'f block"
  co_indicators :: "'f indicator_spec list"
  co_symbols :: "string set"
  co_min_bars :: int
  co_window :: "int option"
  co_history :: "'f history"
  co_last_allocation :: "'f weights"
  co_degraded :: nat

definition compile_strategy :: "'f float_ops \<Rightarrow> 'f block \<Rightarrow> 'f compiled result" where
  "compile_strategy ops s =
     bindR (extract_indicators ops s) (\<lambda>specs.
       let min_bars = max (max_lookback s (get_max_lookback specs)) 2
       in Inr \<lparr>co_strategy = s, co_indicators = specs, co_symbols = get_required_symbols s, co_min_bars = min_bars,
               co_window = Some (compute_window s min_bars max_window), co_history = [], co_last_allocation = [],
               co_degraded = 0\<rparr>)"

definition reset_compiled :: "'f compiled \<Rightarrow> 'f compiled" where
  "reset_compiled c = c\<lparr>co_history := [], co_last_allocation := [], co_degraded := 0\<rparr>"

section \<open>History\<close>

text \<open>
  One bar: the last bar is revised in place when its timestamp is sent again; otherwise the bar is
  appended and the oldest bars beyond the window are deleted.
\<close>

definition push_bar :: "int option \<Rightarrow> 'f bar list \<Rightarrow> 'f bar \<Rightarrow> 'f bar list" where
  "push_bar window bars b =
     (if bars \<noteq> [] \<and> bar_timestamp (last bars) = bar_timestamp b then butlast bars @ [b]
      else let grown = bars @ [b]
           in case window of None \<Rightarrow> grown
              | Some w \<Rightarrow> if w < int (length grown) then drop (length (slice_to grown (- w))) grown else grown)"

definition add_to_history :: "int option \<Rightarrow> 'f history \<Rightarrow> (string, 'f bar) dict \<Rightarrow> 'f history" where
  "add_to_history window h bars =
     foldl (\<lambda>d (symbol, b). dict_modify symbol [] (\<lambda>xs. push_bar window xs b) d) h bars"

definition add_bars :: "'f compiled \<Rightarrow> (string, 'f bar) dict \<Rightarrow> 'f compiled" where
  "add_bars c bars = c\<lparr>co_history := add_to_history (co_window c) (co_history c) bars\<rparr>"

definition last_bars :: "'f compiled \<Rightarrow> (string, 'f bar) dict" where
  "last_bars c = map (\<lambda>(symbol, bars). (symbol, last bars)) (filter (\<lambda>(symbol, bars). bars \<noteq> []) (co_history c))"

definition has_enough_history :: "'f compiled \<Rightarrow> bool" where
  "has_enough_history c \<longleftrightarrow>
     co_history c \<noteq> [] \<and> list_all (\<lambda>(symbol, bars). co_min_bars c \<le> int (length bars)) (co_history c)"

section \<open>One step\<close>

text \<open>\<^verbatim>\<open>_compute_all_indicators\<close>: the library on each symbol with its own specs.\<close>

definition indicators_of ::
  "'f num_ops \<Rightarrow> 'f float_ops \<Rightarrow> 'f indicator_spec list \<Rightarrow> string \<Rightarrow> 'f bar list \<Rightarrow> (string, 'f list) dict result" where
  "indicators_of num ops specs symbol bars =
     library_indicators num ops (price_data_of num bars) (filter (\<lambda>spec. spec_symbol spec = symbol) specs) []"

definition compute_all_indicators ::
  "'f num_ops \<Rightarrow> 'f float_ops \<Rightarrow> 'f indicator_spec list \<Rightarrow> 'f history \<Rightarrow> (string, 'f list) dict result" where
  "compute_all_indicators num ops specs h =
     foldl (\<lambda>r (symbol, bars). bindR r (\<lambda>d.
       if bars = [] then Inr d else bindR (indicators_of num ops specs symbol bars) (\<lambda>e. Inr (update_all_keys d e)))) (Inr []) h"

definition build_state ::
  "'f num_ops \<Rightarrow> 'f float_ops \<Rightarrow> 'f compiled \<Rightarrow> (string, 'f bar) dict \<Rightarrow> 'f eval_state result" where
  "build_state num ops c bars =
     bindR (compute_all_indicators num ops (co_indicators c) (co_history c)) (\<lambda>arrays.
       Inr \<lparr>current_bars = bars,
            prev_bars = map (\<lambda>(symbol, xs). (symbol, xs ! (length xs - 2)))
              (filter (\<lambda>(symbol, xs). 2 \<le> length xs) (co_history c)),
            st_indicators = arrays, bar_history = co_history c\<rparr>)"

definition normalize_weights :: "'f num_ops \<Rightarrow> 'f weights \<Rightarrow> 'f weights" where
  "normalize_weights num ws =
     (let total = nm_sum num (vals ws)
      in if nm_le num total (zero_of num) then ws
         else map (\<lambda>(s, w). (s, nm_mul num (nm_div num w total) (nm_of_int num 100))) ws)"

definition check_rebalance_needed :: "'f num_ops \<Rightarrow> 'f weights \<Rightarrow> 'f weights \<Rightarrow> bool" where
  "check_rebalance_needed num old new =
     (old = [] \<or> list_ex (\<lambda>(s, w). nm_lt num (nm_of_int num 5) (nm_abs num (nm_sub num w (dict_get old s (zero_of num))))) new)"

text \<open>The result is the weights and whether to rebalance; the metadata is left out.\<close>

definition compute_allocation ::
  "'f num_ops \<Rightarrow> 'f float_ops \<Rightarrow> 'f compiled \<Rightarrow> (string, 'f bar) dict \<Rightarrow>
   'f compiled \<times> ('f weights \<times> bool) result" where
  "compute_allocation num ops c bars =
     (let c1 = add_bars c bars
      in if \<not> has_enough_history c1 then (c1, Inr ([], False))
         else (case build_state num ops c1 bars of
                 Inl e \<Rightarrow> (c1, Inl e)
               | Inr st \<Rightarrow>
                   (case evaluate_block num ops st (co_strategy c1) 0 of
                      (n, Inl e) \<Rightarrow> (c1, Inl e)
                    | (n, Inr ws) \<Rightarrow>
                        let ws1 = normalize_weights num ws
                        in (c1\<lparr>co_degraded := co_degraded c1 + n, co_last_allocation := ws1\<rparr>,
                            Inr (ws1, check_rebalance_needed num (co_last_allocation c1) ws1)))))"

text \<open>A run feeds the bars of one step after the other.\<close>

fun run_steps ::
  "'f num_ops \<Rightarrow> 'f float_ops \<Rightarrow> 'f compiled \<Rightarrow> (string, 'f bar) dict list \<Rightarrow>
   'f compiled \<times> ('f weights \<times> bool) result list" where
  "run_steps num ops c [] = (c, [])"
| "run_steps num ops c (bars # feed) =
     (case compute_allocation num ops c bars of (c1, r) \<Rightarrow>
      case run_steps num ops c1 feed of (c2, rs) \<Rightarrow> (c2, r # rs))"

section \<open>The capped history\<close>

lemma last_bars_of_snoc: "0 < w \<Longrightarrow> last_bars_of w (last_bars_of w xs @ [b]) = last_bars_of w (xs @ [b])"
  by (cases "length xs < w") (auto simp: last_bars_of_def Suc_diff_le not_less)

lemma last_last_bars_of: "0 < w \<Longrightarrow> xs \<noteq> [] \<Longrightarrow> last (last_bars_of w xs) = last xs"
  by (cases xs) (auto simp: last_bars_of_def last_drop)

lemma butlast_last_bars_of: "0 < w \<Longrightarrow> xs \<noteq> [] \<Longrightarrow> butlast (last_bars_of w xs) @ [b] = last_bars_of w (butlast xs @ [b])"
  by (cases "length xs \<le> w") (auto simp: last_bars_of_def butlast_conv_take drop_take Suc_diff_le min_def)

lemma push_bar_window:
  assumes "0 < w" "length xs \<le> nat w"
  shows "push_bar (Some w) xs b = last_bars_of (nat w) (push_bar None xs b)"
proof (cases "xs \<noteq> [] \<and> bar_timestamp (last xs) = bar_timestamp b")
  case True
  then have "length (butlast xs @ [b]) \<le> nat w" using assms by (cases xs) auto
  then show ?thesis using True by (simp add: push_bar_def)
next
  case False
  show ?thesis
  proof (cases "w < int (length (xs @ [b]))")
    case True
    then show ?thesis using False assms
      by (auto simp: push_bar_def slice_to_def last_bars_of_def)
  next
    case w: False
    then show ?thesis using False assms by (auto simp: push_bar_def)
  qed
qed

text \<open>Pushing commutes with keeping the last bars.\<close>

lemma push_bar_tail:
  assumes "0 < w"
  shows "push_bar (Some w) (last_bars_of (nat w) xs) b = last_bars_of (nat w) (push_bar None xs b)"
proof -
  have w: "0 < nat w" using assms by simp
  have "push_bar (Some w) (last_bars_of (nat w) xs) b = last_bars_of (nat w) (push_bar None (last_bars_of (nat w) xs) b)"
    using assms by (intro push_bar_window) auto
  also have "\<dots> = last_bars_of (nat w) (push_bar None xs b)"
  proof (cases "xs = []")
    case False
    then show ?thesis
      using w last_last_bars_of [OF w False] butlast_last_bars_of [OF w False, of b] last_bars_of_snoc [OF w, of xs b]
      by (auto simp: push_bar_def last_bars_of_Nil_iff last_bars_of_last_bars_of)
  qed simp
  finally show ?thesis .
qed

definition tail_of :: "nat \<Rightarrow> 'f history \<Rightarrow> 'f history" where
  "tail_of w h = map (\<lambda>(s, bars). (s, last_bars_of w bars)) h"

lemma map_of_tail_of: "map_of (tail_of w h) s = map_option (last_bars_of w) (map_of h s)"
  by (induction h) (auto simp: tail_of_def)

lemma dict_get_tail_of [simp]: "dict_get (tail_of w h) s [] = last_bars_of w (dict_get h s [])"
  by (auto simp: dict_get_def map_of_tail_of last_bars_of_def split: option.split)

lemma keys_tail_of [simp]: "keys (tail_of w h) = keys h"
  by (auto simp: tail_of_def)

lemma update_tail_of: "AList.update s (last_bars_of w xs) (tail_of w h) = tail_of w (AList.update s xs h)"
  by (induction h) (auto simp: tail_of_def)

lemma add_to_history_tail:
  assumes "0 < w"
  shows "add_to_history (Some w) (tail_of (nat w) h) bars = tail_of (nat w) (add_to_history None h bars)"
proof (induction bars arbitrary: h)
  case (Cons p bars)
  obtain s b where p: "p = (s, b)" by (cases p)
  have "dict_modify s [] (\<lambda>xs. push_bar (Some w) xs b) (tail_of (nat w) h) =
      tail_of (nat w) (dict_modify s [] (\<lambda>xs. push_bar None xs b) h)"
    by (simp add: dict_modify_def push_bar_tail [OF assms] update_tail_of)
  with Cons [of "dict_modify s [] (\<lambda>xs. push_bar None xs b) h"] show ?case by (simp add: add_to_history_def p)
qed (simp add: add_to_history_def)

section \<open>Evaluation cannot see beyond the window\<close>

definition same_ends :: "'a list \<Rightarrow> 'a list \<Rightarrow> bool" where
  "same_ends xs ys \<longleftrightarrow> min 2 (length xs) = min 2 (length ys) \<and> last_bars_of 2 xs = last_bars_of 2 ys"

lemma same_ends_nth:
  assumes "same_ends xs ys"
  shows "xs = [] \<longleftrightarrow> ys = []" "1 < length xs \<longleftrightarrow> 1 < length ys"
    "xs \<noteq> [] \<Longrightarrow> xs ! (length xs - 1) = ys ! (length ys - 1)"
    "1 < length xs \<Longrightarrow> xs ! (length xs - 2) = ys ! (length ys - 2)"
proof -
  have l: "min 2 (length xs) = min 2 (length ys)" and e: "last_bars_of 2 xs = last_bars_of 2 ys"
    using assms by (auto simp: same_ends_def)
  have "length xs = 0 \<longleftrightarrow> length ys = 0" and two: "1 < length xs \<longleftrightarrow> 1 < length ys" using l by linarith+
  then show nil: "xs = [] \<longleftrightarrow> ys = []" by simp
  show "1 < length xs \<longleftrightarrow> 1 < length ys" by (rule two)
  show "xs ! (length xs - 1) = ys ! (length ys - 1)" if "xs \<noteq> []"
  proof -
    have "1 \<le> length xs" "1 \<le> length ys" using that nil by (auto simp: Suc_le_eq)
    then show ?thesis using nth_last_bars_of [of 1 2 xs] nth_last_bars_of [of 1 2 ys] e by simp
  qed
  show "xs ! (length xs - 2) = ys ! (length ys - 2)" if "1 < length xs"
    using that two nth_last_bars_of [of 2 2 xs] nth_last_bars_of [of 2 2 ys] e by simp
qed

definition tail_state :: "nat \<Rightarrow> 'f eval_state \<Rightarrow> 'f eval_state \<Rightarrow> bool" where
  "tail_state w st tl_st \<longleftrightarrow>
     current_bars tl_st = current_bars st \<and> prev_bars tl_st = prev_bars st \<and> bar_history tl_st = tail_of w (bar_history st) \<and>
     (\<forall>k. rel_option same_ends (map_of (st_indicators st) k) (map_of (st_indicators tl_st) k))"

lemma indicator_array_tail:
  assumes "tail_state w st tl_st"
  shows "(\<exists>e. indicator_array ops st name symbol params out = Inl e \<and> indicator_array ops tl_st name symbol params out = Inl e) \<or>
    (\<exists>xs ys. indicator_array ops st name symbol params out = Inr xs \<and> indicator_array ops tl_st name symbol params out = Inr ys \<and>
      same_ends xs ys)"
proof -
  have "rel_option same_ends (map_of (st_indicators st) k) (map_of (st_indicators tl_st) k)" for k
    using assms by (simp add: tail_state_def)
  from this [of "generate_output_key ops name symbol ''close'' params out"]
    this [of "generate_output_key ops name symbol ''close'' params None"]
  show ?thesis by (auto simp: indicator_array_def option_rel_Some1 option_rel_Some2 split: option.split elim!: option.rel_cases)
qed

lemma indicator_values_tail:
  assumes "tail_state w st tl_st"
  shows "get_indicator_value ops tl_st name symbol params out = get_indicator_value ops st name symbol params out"
    "get_prev_indicator_value ops tl_st name symbol params out = get_prev_indicator_value ops st name symbol params out"
proof -
  have "get_indicator_value ops tl_st name symbol params out = get_indicator_value ops st name symbol params out \<and>
    get_prev_indicator_value ops tl_st name symbol params out = get_prev_indicator_value ops st name symbol params out"
    using indicator_array_tail [OF assms, of ops name symbol params out]
  proof (elim disjE exE conjE)
    fix xs ys
    assume r: "indicator_array ops st name symbol params out = Inr xs" "indicator_array ops tl_st name symbol params out = Inr ys"
      and e: "same_ends xs ys"
    show ?thesis
      using same_ends_nth [OF e]
      by (cases "xs = []"; cases "1 < length xs") (simp_all add: get_indicator_value_def get_prev_indicator_value_def r)
  qed (simp add: get_indicator_value_def get_prev_indicator_value_def)
  then show "get_indicator_value ops tl_st name symbol params out = get_indicator_value ops st name symbol params out"
    "get_prev_indicator_value ops tl_st name symbol params out = get_prev_indicator_value ops st name symbol params out" by auto
qed

text \<open>Every lookback of a node fits, with one bar to spare, and the node reads no unbounded history.\<close>

lemma metric_tail:
  assumes "tail_state w st tl_st" "0 < n" "(if name = ''return'' then n + 1 else n) < int w" "1 < w"
  shows "get_metric_value num tl_st name symbol (Some n) = get_metric_value num st name symbol (Some n)"
proof -
  have h: "bar_history tl_st = tail_of w (bar_history st)" using assms(1) by (simp add: tail_state_def)
  have n: "n \<le> int w" using assms(2,3) by (auto split: if_splits)
  have w: "0 < w" using assms(4) by simp
  have drawdown: "calculate_drawdown num tl_st symbol (Some n) = calculate_drawdown num st symbol (Some n)"
    by (simp add: calculate_drawdown_def h map_of_tail_of lookback_series_tail [OF assms(2) n] last_bars_of_Nil_iff [OF w]
        split: option.split)
  have ret: "calculate_return num tl_st symbol (Some n) = calculate_return num st symbol (Some n)" if "n + 1 < int w"
  proof (cases "length (dict_get (bar_history st) symbol []) \<le> w")
    case False
    then show ?thesis using that assms(2) trailing_return_tail [of n w num "dict_get (bar_history st) symbol []"]
      by (simp add: calculate_return_def h Let_def)
  qed (simp add: calculate_return_def h Let_def)
  have vol: "calculate_volatility num tl_st symbol (Some n) = calculate_volatility num st symbol (Some n)"
    using assms(4) return_volatility_tail [OF assms(2) n, of num "dict_get (bar_history st) symbol []"]
    by (auto simp: calculate_volatility_def h Let_def)
  show ?thesis using assms(3) drawdown ret vol by (auto simp: get_metric_value_def split: if_splits)
qed

lemma value_tail:
  assumes "tail_state w st tl_st" "value_wf ops v" "\<not> value_unbounded v" "\<forall>m \<in> set (value_lookbacks v). m < int w" "1 < w"
  shows "resolve_value num ops tl_st v = resolve_value num ops st v" "get_prev_value num ops tl_st v = get_prev_value num ops st v"
proof -
  have "resolve_value num ops tl_st v = resolve_value num ops st v \<and> get_prev_value num ops tl_st v = get_prev_value num ops st v"
  proof (cases v)
    case (Metric name symbol period)
    then obtain n where n: "period = Some n" "0 < n" using assms(2,3) by (cases period) auto
    have "(if name = ''return'' then n + 1 else n) < int w" using assms(4) by (simp add: Metric n value_lookbacks_def)
    from metric_tail [OF assms(1) n(2) this assms(5)] show ?thesis by (simp add: Metric n)
  next
    case (Indicator name symbol params out)
    then show ?thesis by (simp add: indicator_values_tail [OF assms(1)])
  qed (use assms(1) in \<open>simp_all add: tail_state_def get_price_def get_prev_price_def\<close>)
  then show "resolve_value num ops tl_st v = resolve_value num ops st v" "get_prev_value num ops tl_st v = get_prev_value num ops st v"
    by auto
qed

definition cond_fits :: "'f float_ops \<Rightarrow> nat \<Rightarrow> 'f condition \<Rightarrow> bool" where
  "cond_fits ops w c \<longleftrightarrow> cond_wf ops c \<and> \<not> cond_unbounded c \<and> (\<forall>m \<in> set (cond_lookbacks c). m < int w)"

lemma evaluate_until_cong:
  assumes "\<And>c k. c \<in> set cs \<Longrightarrow> evaluate_condition num ops st1 c k = evaluate_condition num ops st2 c k"
  shows "evaluate_until num ops st1 d cs n = evaluate_until num ops st2 d cs n"
  using assms
proof (induction cs arbitrary: n)
  case (Cons c cs)
  then show ?case by (auto intro!: bindC_cong)
qed simp

lemma condition_tail:
  assumes "tail_state w st tl_st" "1 < w"
  shows "cond_fits ops w c \<Longrightarrow> evaluate_condition num ops tl_st c n = evaluate_condition num ops st c n"
proof (induction c arbitrary: n)
  case (Comparison op l r)
  then have "resolve_value num ops tl_st l = resolve_value num ops st l" "resolve_value num ops tl_st r = resolve_value num ops st r"
    using assms by (auto simp: cond_fits_def intro!: value_tail)
  then show ?case by (simp add: evaluate_comparison_def)
next
  case (Crossover dir f s)
  then have "resolve_value num ops tl_st f = resolve_value num ops st f" "resolve_value num ops tl_st s = resolve_value num ops st s"
    "get_prev_value num ops tl_st f = get_prev_value num ops st f" "get_prev_value num ops tl_st s = get_prev_value num ops st s"
    using assms by (auto simp: cond_fits_def intro!: value_tail)
  then show ?case by (simp add: evaluate_crossover_def)
next
  case (LogicalOp op cs)
  have each: "evaluate_condition num ops tl_st c k = evaluate_condition num ops st c k" if "c \<in> set cs" for c k
    using that LogicalOp by (auto simp: cond_fits_def list_all_iff list_ex_iff)
  from evaluate_until_cong [OF this]
  have "evaluate_until num ops tl_st d cs k = evaluate_until num ops st d cs k" for d k by blast
  with each show ?case by (auto simp: bindC_def split: list.split)
qed

lemma condition_safe_tail:
  "tail_state w st tl_st \<Longrightarrow> 1 < w \<Longrightarrow> cond_fits ops w c \<Longrightarrow>
   evaluate_condition_safe num ops tl_st c n = evaluate_condition_safe num ops st c n"
  by (simp add: evaluate_condition_safe_def condition_tail)

section \<open>Weights and filters\<close>

text \<open>The lookback a covariance method reads with: without one it reads the whole history.\<close>

fun cov_bounded :: "'f block \<Rightarrow> bool" where
  "cov_bounded (StrategyB name kids a) = list_all cov_bounded kids"
| "cov_bounded (GroupB name kids w) = list_all cov_bounded kids"
| "cov_bounded (WeightB meth kids lookback topn) \<longleftrightarrow>
     (meth \<in> {''risk-parity'', ''min-variance''} \<longrightarrow> lookback \<noteq> None) \<and> list_all cov_bounded kids"
| "cov_bounded (AssetB symbol w) = True"
| "cov_bounded (IfB c th el) \<longleftrightarrow> cov_bounded th \<and> pred_option cov_bounded el"
| "cov_bounded (FilterB crit dir cnt kids lookback) = list_all cov_bounded kids"

lemma or_default_pos: "pred_option (\<lambda>n. 0 < n) v \<Longrightarrow> 0 < k \<Longrightarrow> 0 < or_default v k"
  by (cases v) (auto simp: or_default_def)

lemma momentum_tail:
  assumes "or_default lookback 90 + 1 \<le> int w"
  shows "compute_momentum_weights num (tail_of w h) symbols lookback topn = compute_momentum_weights num h symbols lookback topn"
  by (simp add: compute_momentum_weights_def trailing_return_tail [OF assms])

lemma inverse_volatility_tail:
  assumes "0 < or_default lookback 60" "or_default lookback 60 \<le> int w"
  shows "compute_inverse_volatility_weights num (tail_of w h) symbols lookback = compute_inverse_volatility_weights num h symbols lookback"
proof -
  have "or_default lookback 60 \<le> int (length (dict_get (tail_of w h) s [])) \<longleftrightarrow>
      or_default lookback 60 \<le> int (length (dict_get h s []))" for s
    using assms(2) by auto
  then show ?thesis
    by (simp add: compute_inverse_volatility_weights_def Let_def return_volatility_tail [OF assms])
qed

lemma fold_min_min: "fold min (map (\<lambda>x. min (k :: int) (f x)) xs) (min k m) = min k (fold min (map f xs) m)"
  by (induction xs arbitrary: m) (simp_all add: min.left_commute min.assoc)

lemma aligned_closes_tail:
  assumes "0 < n" "n + 1 \<le> int w" "3 \<le> w"
  shows "aligned_closes (tail_of w h) symbols (Some n) = aligned_closes h symbols (Some n)"
proof -
  define usable where "usable = filter (\<lambda>s. 3 \<le> length (dict_get h s [])) symbols"
  define len where "len = (\<lambda>s. int (length (dict_get h s [])))"
  define common where "common = fold min (map len (tl usable)) (len (hd usable))"
  have usable: "filter (\<lambda>s. 3 \<le> length (dict_get (tail_of w h) s [])) symbols = usable"
    using assms(3) by (simp add: usable_def)
  have lens: "int (length (dict_get (tail_of w h) s [])) = min (int w) (len s)" for s by (simp add: len_def)
  have closes: "slice_from (last_bars_of w xs) (- m) = slice_from xs (- m)" if "\<not> m < 3" "m \<le> int w" for m and xs :: "'a bar list"
    using that by (simp add: slice_from_neg last_bars_of_last_bars_of nat_le_iff)
  have common_tail: "fold min (tl (map (\<lambda>s. min (int w) (len s)) usable)) (hd (map (\<lambda>s. min (int w) (len s)) usable)) =
      min (int w) common" if "\<not> length usable < 2"
    using that by (cases usable) (simp_all add: fold_min_min common_def)
  have common: "fold min (tl (map len usable)) (hd (map len usable)) = common" if "\<not> length usable < 2"
    using that by (cases usable) (simp_all add: common_def)
  have win: "min (min (int w) common) (n + 1) = min common (n + 1)" using assms(2) by simp
  have n: "(if n = 0 then x else y) = y" for x y :: int using assms(1) by simp
  have "aligned_closes g symbols (Some n) =
      (if length usable < 2 then None
       else if min common (n + 1) < 3 then None
       else Some (sort usable, map (\<lambda>s. map bar_close (slice_from (dict_get h s []) (- min common (n + 1)))) (sort usable)))"
    if "g = h \<or> g = tail_of w h" for g
    using that
  proof
    assume g: "g = h"
    show ?thesis
      unfolding aligned_closes_def g usable_def [symmetric] len_def [symmetric] Let_def option.case n
      using common by simp
  next
    assume g: "g = tail_of w h"
    have "map bar_close (slice_from (dict_get (tail_of w h) s []) (- min common (n + 1))) =
        map bar_close (slice_from (dict_get h s []) (- min common (n + 1)))" if "\<not> min common (n + 1) < 3" for s
      using closes [of "min common (n + 1)"] that assms(2) by simp
    then show ?thesis
      unfolding aligned_closes_def g usable lens Let_def option.case n
      using common_tail win by (simp del: dict_get_tail_of)
  qed
  then show ?thesis by simp
qed

lemma covariance_tail:
  assumes "0 < n" "n + 1 \<le> int w" "3 \<le> w"
  shows "covariance_weights num (tail_of w h) meth symbols (Some n) = covariance_weights num h meth symbols (Some n)"
proof -
  have "0 < or_default (Some n) 60" "or_default (Some n) 60 \<le> int w" using assms by (auto simp: or_default_def)
  from inverse_volatility_tail [OF this, of num h symbols] show ?thesis
    by (simp add: covariance_weights_def aligned_closes_tail [OF assms] split: option.split)
qed

lemma computed_weights_tail:
  assumes "block_wf ops (WeightB meth kids lookback topn)" "cov_bounded (WeightB meth kids lookback topn)"
    "\<forall>m \<in> set (block_lookbacks (WeightB meth kids lookback topn)). m < int w" "3 \<le> w"
  shows "computed_weights num (tail_of w h) meth lookback topn symbols = computed_weights num h meth lookback topn symbols"
proof (cases "meth \<in> set dynamic_methods")
  case True
  then have pos: "0 < or_default lookback k" if "0 < k" for k
    using assms(1) that by (intro or_default_pos) auto
  show ?thesis
  proof (cases "meth = ''momentum''")
    case True
    then have "or_default lookback 90 + 1 \<le> int w" using assms(3) by simp
    then show ?thesis using True by (simp add: computed_weights_def momentum_tail)
  next
    case False
    then have vol: "meth \<in> set vol_methods" using \<open>meth \<in> set dynamic_methods\<close> by (auto simp: dynamic_methods_def vol_methods_def)
    then have fits: "or_default lookback 60 < int w" using assms(3) False by simp
    show ?thesis
    proof (cases "meth = ''inverse-volatility''")
      case True
      then show ?thesis using pos [of 60] fits by (simp add: computed_weights_def inverse_volatility_tail)
    next
      case other: False
      then have "meth = ''risk-parity'' \<or> meth = ''min-variance''" using vol by (auto simp: vol_methods_def)
      then obtain n where n: "lookback = Some n" using assms(2) by auto
      moreover have "0 < n" using assms(1) True n by auto
      ultimately show ?thesis
        using fits other False covariance_tail [of n w num h meth symbols] assms(4)
        by (auto simp: computed_weights_def or_default_def)
    qed
  qed
next
  case False
  then show ?thesis by (auto simp: computed_weights_def dynamic_methods_def)
qed

lemma select_weights_tail:
  assumes "pred_option (\<lambda>n. 0 < n) lookback" "or_default lookback 90 + 1 < int w"
  shows "select_weights num (tail_of w h) crit dir cnt lookback ws = select_weights num h crit dir cnt lookback ws"
proof -
  have "0 < or_default lookback 90" using assms(1) by (rule or_default_pos) simp
  then have "filter_score num (tail_of w h) crit lookback = filter_score num h crit lookback"
    using assms(2)
    by (intro ext) (auto simp: filter_score_def Let_def trailing_return_tail return_volatility_tail average_dollar_volume_tail)
  then show ?thesis by (simp add: select_weights_def)
qed

section \<open>Blocks and runs\<close>

definition block_fits :: "'f float_ops \<Rightarrow> nat \<Rightarrow> 'f block \<Rightarrow> bool" where
  "block_fits ops w b \<longleftrightarrow> block_wf ops b \<and> \<not> block_unbounded b \<and> cov_bounded b \<and> (\<forall>m \<in> set (block_lookbacks b). m < int w)"

lemma block_fits_kids:
  "block_fits ops w (GroupB name kids a) \<Longrightarrow> b \<in> set kids \<Longrightarrow> block_fits ops w b"
  "block_fits ops w (WeightB meth kids l t) \<Longrightarrow> b \<in> set kids \<Longrightarrow> block_fits ops w b"
  "block_fits ops w (FilterB crit dir cnt kids l) \<Longrightarrow> b \<in> set kids \<Longrightarrow> block_fits ops w b"
  by (auto simp: block_fits_def list_all_iff list_ex_iff)

lemma block_fits_if:
  "block_fits ops w (IfB c th el) \<Longrightarrow> cond_fits ops w c \<and> block_fits ops w th \<and> pred_option (block_fits ops w) el"
  by (cases el) (auto simp: block_fits_def cond_fits_def)

definition blind :: "'f num_ops \<Rightarrow> 'f float_ops \<Rightarrow> 'f eval_state \<Rightarrow> 'f eval_state \<Rightarrow> 'f block \<Rightarrow> bool" where
  "blind num ops st tl_st b \<longleftrightarrow>
     (\<forall>n. evaluate_block num ops tl_st b n = evaluate_block num ops st b n \<and>
          share_and_allocation num ops tl_st b n = share_and_allocation num ops st b n)"

lemma share_not_if:
  "\<not> is_if b \<Longrightarrow> share_and_allocation num ops st b n =
     bindC (evaluate_block num ops st b) (\<lambda>a. returnC (declared_weight b, a)) n"
  by (cases b) simp_all

lemma blindI:
  assumes "\<And>n. evaluate_block num ops tl_st b n = evaluate_block num ops st b n" "\<not> is_if b"
  shows "blind num ops st tl_st b"
proof -
  have "evaluate_block num ops tl_st b = evaluate_block num ops st b" using assms(1) by (rule ext)
  with assms(2) show ?thesis by (simp add: blind_def share_not_if)
qed

lemma blind_kids:
  assumes "\<And>b. b \<in> set kids \<Longrightarrow> blind num ops st tl_st b"
  shows "mapC (share_and_allocation num ops tl_st) kids = mapC (share_and_allocation num ops st) kids"
    "mapC (evaluate_block num ops tl_st) kids = mapC (evaluate_block num ops st) kids"
  using assms by (auto simp: blind_def intro!: ext mapC_cong)

lemma evaluate_block_tail:
  assumes st: "tail_state w st tl_st" and w: "3 \<le> w"
  shows "block_fits ops w b \<Longrightarrow> blind num ops st tl_st b"
proof (induction b)
  case (StrategyB name kids a)
  then show ?case by (simp add: block_fits_def)
next
  case (GroupB name kids a)
  then have "blind num ops st tl_st b" if "b \<in> set kids" for b using block_fits_kids(1) that by blast
  note kids = blind_kids [OF this]
  show ?case by (rule blindI) (simp_all add: kids)
next
  case (WeightB meth kids lookback topn)
  then have "blind num ops st tl_st b" if "b \<in> set kids" for b using block_fits_kids(2) that by blast
  note kids = blind_kids [OF this]
  have "computed_weights num (bar_history tl_st) meth lookback topn symbols =
      computed_weights num (bar_history st) meth lookback topn symbols" for symbols
    using WeightB.prems st w computed_weights_tail [of ops meth kids lookback topn w num "bar_history st" symbols]
    by (simp add: block_fits_def tail_state_def del: block_wf.simps cov_bounded.simps block_lookbacks.simps)
  then show ?case by (intro blindI) (simp_all add: kids cong: if_cong)
next
  case (AssetB symbol a)
  then show ?case by (intro blindI) simp_all
next
  case (IfB c th el)
  have cond: "evaluate_condition_safe num ops tl_st c = evaluate_condition_safe num ops st c"
    using block_fits_if [OF IfB.prems] condition_safe_tail [OF st, of ops c num] w by (intro ext) auto
  have th: "blind num ops st tl_st th" using IfB block_fits_if by blast
  have el: "blind num ops st tl_st b" if "el = Some b" for b
    using IfB.IH(2) [of b] block_fits_if [OF IfB.prems] that by auto
  show ?case
    using th el by (cases el) (auto simp: blind_def cond intro!: bindC_cong)
next
  case (FilterB crit dir cnt kids lookback)
  then have "blind num ops st tl_st b" if "b \<in> set kids" for b using block_fits_kids(3) that by blast
  note kids = blind_kids [OF this]
  have "select_weights num (bar_history tl_st) crit dir cnt lookback ws = select_weights num (bar_history st) crit dir cnt lookback ws" for ws
    using FilterB.prems st select_weights_tail [of lookback w num "bar_history st" crit dir cnt ws]
    by (simp add: block_fits_def tail_state_def)
  then show ?case by (intro blindI) (simp_all add: kids)
qed

subsection \<open>The state of a step\<close>

definition ends_agree :: "(string, 'f list) dict \<Rightarrow> (string, 'f list) dict \<Rightarrow> bool" where
  "ends_agree d e \<longleftrightarrow> (\<forall>k. rel_option same_ends (map_of d k) (map_of e k))"

text \<open>
  The indicators depend on the retained bars only: the last two entries of every array are the same
  when only the last \<open>w\<close> bars are kept. A sliding-window indicator satisfies it when \<open>w\<close> covers its
  window and one bar more; a cumulative or exponentially smoothed one does not.
\<close>

definition local_indicators :: "'f num_ops \<Rightarrow> 'f float_ops \<Rightarrow> 'f indicator_spec list \<Rightarrow> nat \<Rightarrow> bool" where
  "local_indicators num ops specs w \<longleftrightarrow>
     (\<forall>symbol bars. bars \<noteq> [] \<longrightarrow>
        rel_sum (=) ends_agree (indicators_of num ops specs symbol bars) (indicators_of num ops specs symbol (last_bars_of w bars)))"

lemma wf_update_all_keys: "wf_dict d \<Longrightarrow> wf_dict (update_all_keys d e)"
  by (induction e arbitrary: d) (auto simp: update_all_keys_def distinct_update)

lemma wf_library: "library_indicators num ops prices specs d = Inr e \<Longrightarrow> wf_dict d \<Longrightarrow> wf_dict e"
  by (induction specs arbitrary: d) (auto simp: result_simps wf_update_all_keys)

lemma map_of_update_all:
  "wf_dict e \<Longrightarrow> map_of (update_all_keys d e) j = (case map_of e j of Some v \<Rightarrow> Some v | None \<Rightarrow> map_of d j)"
proof (induction e arbitrary: d)
  case (Cons p e)
  obtain k v where p: "p = (k, v)" by (cases p)
  have "map_of e k = None" using Cons.prems p by (simp add: map_of_eq_None_iff)
  then show ?case using Cons.IH [of "AList.update k v d"] Cons.prems
    by (auto simp: p update_all_keys_def map_of_update split: option.split)
qed (simp add: update_all_keys_def)

lemma ends_agree_update:
  assumes "ends_agree d e" "wf_dict xs" "wf_dict ys" "ends_agree xs ys"
  shows "ends_agree (update_all_keys d xs) (update_all_keys e ys)"
  unfolding ends_agree_def
proof
  fix k
  have "rel_option same_ends (map_of xs k) (map_of ys k)" "rel_option same_ends (map_of d k) (map_of e k)"
    using assms(1,4) by (simp_all add: ends_agree_def)
  then show "rel_option same_ends (map_of (update_all_keys d xs) k) (map_of (update_all_keys e ys) k)"
    by (auto simp: map_of_update_all [OF assms(2)] map_of_update_all [OF assms(3)] split: option.split)
qed

lemma indicators_tail:
  assumes "local_indicators num ops specs w" "0 < w"
  shows "rel_sum (=) ends_agree (compute_all_indicators num ops specs h) (compute_all_indicators num ops specs (tail_of w h))"
proof -
  define one where "one = (\<lambda>r (symbol, bars). bindR r (\<lambda>d.
       if bars = [] then Inr d else bindR (indicators_of num ops specs symbol bars) (\<lambda>e. Inr (update_all_keys d e))))"
  have step: "rel_sum (=) ends_agree (one r (s, bars)) (one q (s, last_bars_of w bars))" if "rel_sum (=) ends_agree r q" for r q s bars
  proof (cases "bars = []")
    case True
    then show ?thesis using that by (cases r; cases q) (simp_all add: one_def)
  next
    case False
    then have rel: "rel_sum (=) ends_agree (indicators_of num ops specs s bars) (indicators_of num ops specs s (last_bars_of w bars))"
      using assms(1) by (simp add: local_indicators_def)
    have wf: "wf_dict e" if "indicators_of num ops specs s xs = Inr e" for xs e
      using that wf_library by (fastforce simp: indicators_of_def)
    from that rel wf show ?thesis
      using False by (auto simp: one_def last_bars_of_Nil_iff [OF assms(2)] ends_agree_update elim!: rel_sum.cases)
  qed
  have "rel_sum (=) ends_agree (foldl one r h) (foldl one q (tail_of w h))" if "rel_sum (=) ends_agree r q" for r q
    using that
  proof (induction h arbitrary: r q)
    case (Cons p h)
    obtain s bars where p: "p = (s, bars)" by (cases p)
    from Cons.IH [OF step [OF Cons.prems, of s bars]] show ?case by (simp add: p tail_of_def)
  qed (simp add: tail_of_def)
  from this [of "Inr []" "Inr []"] show ?thesis by (simp add: compute_all_indicators_def one_def ends_agree_def)
qed

lemma prev_bars_tail:
  "2 \<le> w \<Longrightarrow>
   map (\<lambda>(symbol, xs). (symbol, xs ! (length xs - 2))) (filter (\<lambda>(symbol, xs). 2 \<le> length xs) (tail_of w h)) =
   map (\<lambda>(symbol, xs). (symbol, xs ! (length xs - 2))) (filter (\<lambda>(symbol, xs). 2 \<le> length xs) h)"
proof (induction h)
  case (Cons p h)
  obtain s xs where p: "p = (s, xs)" by (cases p)
  have "2 \<le> length (last_bars_of w xs) \<longleftrightarrow> 2 \<le> length xs" using Cons.prems by simp
  then show ?case
    using Cons nth_last_bars_of [of 2 w xs] by (simp add: p tail_of_def del: length_last_bars_of)
qed (simp add: tail_of_def)

section \<open>Runs with and without the cap\<close>

definition capped :: "int \<Rightarrow> 'f compiled \<Rightarrow> 'f compiled \<Rightarrow> bool" where
  "capped w c f \<longleftrightarrow> co_window f = None \<and> c = f\<lparr>co_window := Some w, co_history := tail_of (nat w) (co_history f)\<rparr>"

lemma capped_add_bars: "capped w c f \<Longrightarrow> 0 < w \<Longrightarrow> capped w (add_bars c bars) (add_bars f bars)"
  by (simp add: capped_def add_bars_def add_to_history_tail)

lemma capped_history:
  assumes "capped w c f" "co_min_bars f \<le> w"
  shows "has_enough_history c = has_enough_history f"
proof -
  have "co_min_bars f \<le> int (min (nat w) k) \<longleftrightarrow> co_min_bars f \<le> int k" for k using assms(2) by auto
  then show ?thesis
    using assms(1) by (auto simp: capped_def has_enough_history_def tail_of_def list_all_iff)
qed

lemma capped_state:
  assumes "capped w c f" "local_indicators num ops (co_indicators f) (nat w)" "2 \<le> w"
  shows "rel_sum (=) (tail_state (nat w)) (build_state num ops f bars) (build_state num ops c bars)"
proof -
  have "rel_sum (=) ends_agree (compute_all_indicators num ops (co_indicators f) (co_history f))
      (compute_all_indicators num ops (co_indicators c) (co_history c))"
    using indicators_tail [OF assms(2), of "co_history f"] assms(1,3) by (simp add: capped_def)
  then show ?thesis
    using assms(1,3) prev_bars_tail [of "nat w" "co_history f"]
    by (auto simp: build_state_def capped_def tail_state_def ends_agree_def elim!: rel_sum.cases)
qed

definition window_safe :: "'f float_ops \<Rightarrow> int \<Rightarrow> 'f block \<Rightarrow> bool" where
  "window_safe ops w s \<longleftrightarrow>
     (case s of StrategyB name kids a \<Rightarrow> list_all (block_fits ops (nat w)) kids | _ \<Rightarrow> False)"

lemma capped_step:
  assumes "capped w c f" "local_indicators num ops (co_indicators f) (nat w)" "3 \<le> w" "co_min_bars f \<le> w"
    "window_safe ops w (co_strategy f)"
  shows "\<exists>c1 f1 r. compute_allocation num ops c bars = (c1, r) \<and> compute_allocation num ops f bars = (f1, r) \<and>
    capped w c1 f1 \<and> co_indicators f1 = co_indicators f \<and> co_min_bars f1 = co_min_bars f \<and> co_strategy f1 = co_strategy f"
proof -
  define c1 f1 where "c1 = add_bars c bars" and "f1 = add_bars f bars"
  have cap: "capped w c1 f1" using capped_add_bars [OF assms(1)] assms(3) by (simp add: c1_def f1_def)
  have same: "co_indicators f1 = co_indicators f" "co_min_bars f1 = co_min_bars f" "co_strategy f1 = co_strategy f"
    by (simp_all add: f1_def add_bars_def)
  have enough: "has_enough_history c1 = has_enough_history f1" using capped_history [OF cap] assms(4) same by simp
  have st: "rel_sum (=) (tail_state (nat w)) (build_state num ops f1 bars) (build_state num ops c1 bars)"
    using capped_state [OF cap] assms(2,3) same by simp
  obtain name kids a where s: "co_strategy f = StrategyB name kids a" "list_all (block_fits ops (nat w)) kids"
    using assms(5) by (auto simp: window_safe_def split: block.splits)
  have eval: "evaluate_block num ops st_c (co_strategy c1) 0 = evaluate_block num ops st_f (co_strategy f1) 0"
    if "tail_state (nat w) st_f st_c" for st_f st_c
  proof -
    have "mapC (share_and_allocation num ops st_c) kids = mapC (share_and_allocation num ops st_f) kids"
      using evaluate_block_tail [OF that] s(2) assms(3) by (intro blind_kids) (auto simp: list_all_iff)
    then show ?thesis using cap s(1) same by (simp add: capped_def)
  qed
  have fields: "co_degraded c1 = co_degraded f1" "co_last_allocation c1 = co_last_allocation f1"
    using cap by (simp_all add: capped_def)
  note defs = compute_allocation_def c1_def [symmetric] f1_def [symmetric]
  show ?thesis
  proof (cases "has_enough_history f1")
    case False
    then show ?thesis using cap same enough by (simp add: defs)
  next
    case True
    from st show ?thesis
    proof (cases rule: rel_sum.cases)
      case (1 e e')
      then show ?thesis using True cap same enough by (simp add: defs)
    next
      case (2 st_f st_c)
      obtain n r where ev: "evaluate_block num ops st_f (co_strategy f1) 0 = (n, r)" by fastforce
      define out where "out = (\<lambda>k :: 'a compiled. case r of Inl e \<Rightarrow> k
        | Inr ws \<Rightarrow> k\<lparr>co_degraded := co_degraded f1 + n, co_last_allocation := normalize_weights num ws\<rparr>)"
      have "capped w (out c1) (out f1)" using cap by (auto simp: out_def capped_def split: sum.split)
      then show ?thesis
        using True same enough eval [OF 2(3)] ev 2 fields
        by (auto simp: defs out_def Let_def split: sum.splits)
    qed
  qed
qed

lemma run_tail:
  assumes "capped w c f" "local_indicators num ops (co_indicators f) (nat w)" "3 \<le> w" "co_min_bars f \<le> w"
    "window_safe ops w (co_strategy f)"
  shows "snd (run_steps num ops c feed) = snd (run_steps num ops f feed)"
  using assms
proof (induction feed arbitrary: c f)
  case (Cons bars feed)
  obtain c1 f1 r where step: "compute_allocation num ops c bars = (c1, r)" "compute_allocation num ops f bars = (f1, r)"
      "capped w c1 f1" "co_indicators f1 = co_indicators f" "co_min_bars f1 = co_min_bars f" "co_strategy f1 = co_strategy f"
    using capped_step [OF Cons.prems, of bars] by blast
  have "snd (run_steps num ops c1 feed) = snd (run_steps num ops f1 feed)"
    using Cons.prems step by (intro Cons.IH) simp_all
  then show ?case using step(1,2) by (auto split: prod.split)
qed simp

text \<open>The compiled strategy against the one that keeps everything.\<close>

lemma run_capped:
  assumes "compile_strategy ops s = Inr c" "well_formed ops s" "\<not> block_unbounded s" "cov_bounded s"
    "local_indicators num ops (co_indicators c) (nat (the (co_window c)))"
  shows "snd (run_steps num ops c feed) = snd (run_steps num ops (c\<lparr>co_window := None\<rparr>) feed)"
proof -
  define w where "w = the (co_window c)"
  obtain specs where c: "extract_indicators ops s = Inr specs"
      "c = \<lparr>co_strategy = s, co_indicators = specs, co_symbols = get_required_symbols s,
        co_min_bars = max (max_lookback s (get_max_lookback specs)) 2,
        co_window = Some (compute_window s (max (max_lookback s (get_max_lookback specs)) 2) max_window), co_history = [],
        co_last_allocation = [], co_degraded = 0\<rparr>"
    using assms(1) by (auto simp: compile_strategy_def result_simps Let_def)
  obtain name kids a where s: "s = StrategyB name kids a" using assms(2) by (cases s) auto
  have w: "co_window c = Some w" "co_min_bars c + 10 \<le> w" "2 \<le> co_min_bars c"
    using compute_window_covers(1) [of "co_min_bars c" s max_window] by (auto simp: w_def c)
  have fit: "m + 10 \<le> w" if "m \<in> set (block_lookbacks s)" for m
    using compute_window_covers(2) [OF that, of "co_min_bars c" max_window] by (simp add: w_def c)
  have "block_fits ops (nat w) b" if "b \<in> set kids" for b
    using assms(2-4) that fit w(2,3) by (fastforce simp: s block_fits_def list_all_iff list_ex_iff)
  then have "window_safe ops w (co_strategy c)" by (simp add: window_safe_def c s list_all_iff)
  moreover have "capped w c (c\<lparr>co_window := None\<rparr>)" using w(1) by (simp add: capped_def c tail_of_def)
  ultimately show ?thesis using assms(5) w by (intro run_tail) (auto simp: w_def [symmetric] c)
qed

end
