(* ===== verification/Runtime_Windows.thy ===== *)
theory Runtime_Windows
  imports Runtime_Compiled
begin

text \<open>
  Indicators that see a window only. \<open>windowed p F\<close>: from index \<open>p - 1\<close> on, an entry of the array is
  determined by the last \<open>p\<close> elements up to its index. The closure lemmas follow how the library
  builds one array from another.
\<close>

section \<open>Windows\<close>

definition windowed :: "nat \<Rightarrow> ('a list \<Rightarrow> 'b list) \<Rightarrow> bool" where
  "windowed p F \<longleftrightarrow> 0 < p \<and> (\<forall>xs. length (F xs) = length xs) \<and>
     (\<forall>xs i. p \<le> i + 1 \<longrightarrow> i < length xs \<longrightarrow> F xs ! i = F (window_of p i xs) ! (p - 1))"

lemma length_window_of [simp]: "p \<le> i + 1 \<Longrightarrow> i < length xs \<Longrightarrow> length (window_of p i xs) = p"
  by (simp add: window_of_def)

lemma nth_window_of: "p \<le> i + 1 \<Longrightarrow> i < length xs \<Longrightarrow> j < p \<Longrightarrow> window_of p i xs ! j = xs ! (i + 1 - p + j)"
  by (simp add: window_of_def)

lemma window_of_window:
  assumes "p \<le> j + 1" "j < q" "q \<le> i + 1" "i < length xs"
  shows "window_of p j (window_of q i xs) = window_of p (i + 1 - q + j) xs"
  using assms by (intro nth_equalityI) (simp_all add: nth_window_of ac_simps)

lemma window_of_last_bars:
  assumes "p \<le> w - d" "d < w" "w \<le> length xs"
  shows "window_of p (w - 1 - d) (last_bars_of w xs) = window_of p (length xs - 1 - d) xs"
proof -
  have "last_bars_of w xs = window_of w (length xs - 1) xs"
    using assms by (simp add: last_bars_of_def window_of_def)
  moreover have "length xs - 1 + 1 - w + (w - 1 - d) = length xs - 1 - d" using assms by simp
  ultimately show ?thesis using assms window_of_window [of p "w - 1 - d" w "length xs - 1" xs] by simp
qed

lemma windowedD:
  "windowed p F \<Longrightarrow> length (F xs) = length xs"
  "windowed p F \<Longrightarrow> p \<le> i + 1 \<Longrightarrow> i < length xs \<Longrightarrow> F xs ! i = F (window_of p i xs) ! (p - 1)"
  "windowed p F \<Longrightarrow> 0 < p"
  by (auto simp: windowed_def)

lemma windowedI:
  "0 < p \<Longrightarrow> (\<And>xs. length (F xs) = length xs) \<Longrightarrow>
   (\<And>xs i. p \<le> i + 1 \<Longrightarrow> i < length xs \<Longrightarrow> F xs ! i = F (window_of p i xs) ! (p - 1)) \<Longrightarrow> windowed p F"
  by (simp add: windowed_def)

text \<open>The last two entries survive when more than \<open>p\<close> elements are kept.\<close>

lemma windowed_same_ends:
  assumes F: "windowed p F" and w: "p < w"
  shows "same_ends (F xs) (F (last_bars_of w xs))"
proof (cases "length xs \<le> w")
  case False
  let ?ys = "last_bars_of w xs"
  have len: "length (F xs) = length xs" "length (F ?ys) = w" using windowedD(1) [OF F] False by simp_all
  have "F xs ! (length xs - 1 - d) = F ?ys ! (w - 1 - d)" if "d < 2" for d
  proof -
    have d: "p \<le> w - d" "d < w" using w that windowedD(3) [OF F] by auto
    have "F xs ! (length xs - 1 - d) = F (window_of p (length xs - 1 - d) xs) ! (p - 1)"
      using windowedD(2) [OF F, of "length xs - 1 - d" xs] False w that by simp
    also have "\<dots> = F (window_of p (w - 1 - d) ?ys) ! (p - 1)"
      using window_of_last_bars [OF d, of xs] False by simp
    also have "\<dots> = F ?ys ! (w - 1 - d)"
      using windowedD(2) [OF F, of "w - 1 - d" ?ys] False w that by simp
    finally show ?thesis .
  qed
  from this [of 0] this [of 1] have e: "F xs ! (length xs - 1) = F ?ys ! (w - 1)" "F xs ! (length xs - 2) = F ?ys ! (w - 2)"
    by (simp_all add: numeral_2_eq_2)
  have two: "last_bars_of 2 zs = [zs ! (length zs - 2), zs ! (length zs - 1)]" if "2 \<le> length zs" for zs :: "'b list"
    using that by (intro nth_equalityI) (auto simp: last_bars_of_def less_Suc_eq numeral_2_eq_2 Suc_diff_Suc)
  have "2 \<le> length (F xs)" "2 \<le> length (F ?ys)" using len False w windowedD(3) [OF F] by simp_all
  then show ?thesis using two e len by (simp add: same_ends_def)
qed (simp add: same_ends_def)

lemma windowed_mono:
  assumes F: "windowed p F" and q: "p \<le> q"
  shows "windowed q F"
proof (rule windowedI)
  have p: "0 < p" using windowedD(3) [OF F] .
  then show "0 < q" using q by simp
  show "length (F xs) = length xs" for xs using windowedD(1) [OF F] .
  fix xs :: "'a list" and i
  assume i: "q \<le> i + 1" "i < length xs"
  have "F (window_of q i xs) ! (q - 1) = F (window_of p (q - 1) (window_of q i xs)) ! (p - 1)"
    using windowedD(2) [OF F, of "q - 1" "window_of q i xs"] i q p by simp
  also have "\<dots> = F (window_of p i xs) ! (p - 1)"
    using window_of_window [of p "q - 1" q i xs] i q p by simp
  finally show "F xs ! i = F (window_of q i xs) ! (q - 1)" using windowedD(2) [OF F, of i xs] i q by simp
qed

text \<open>A window of the derived array is determined by the wider window of the series.\<close>

lemma windowed_window:
  assumes F: "windowed p F" and i: "p + q \<le> i + 2" "i < length xs" and q: "0 < q"
  shows "window_of q i (F xs) = window_of q (p + q - 2) (F (window_of (p + q - 1) i xs))"
proof (rule nth_equalityI)
  let ?m = "p + q - 1" let ?W = "window_of ?m i xs"
  have p: "0 < p" using windowedD(3) [OF F] .
  have lens: "length (F xs) = length xs" "length (F ?W) = ?m" using windowedD(1) [OF F] i p q by simp_all
  show "length (window_of q i (F xs)) = length (window_of q (p + q - 2) (F ?W))" using lens i p q by simp
  fix j assume "j < length (window_of q i (F xs))"
  then have j: "j < q" using lens i p q by simp
  have "window_of q i (F xs) ! j = F xs ! (i + 1 - q + j)" using nth_window_of [of q i "F xs" j] lens i p q j by simp
  also have "\<dots> = F (window_of p (i + 1 - q + j) xs) ! (p - 1)"
    using windowedD(2) [OF F, of "i + 1 - q + j" xs] i p q j by simp
  also have "window_of p (i + 1 - q + j) xs = window_of p (p - 1 + j) ?W"
    using window_of_window [of p "p - 1 + j" ?m i xs] i p q j by (simp add: algebra_simps)
  also have "F (window_of p (p - 1 + j) ?W) ! (p - 1) = F ?W ! (p - 1 + j)"
    using windowedD(2) [OF F, of "p - 1 + j" ?W] i p q j by simp
  also have "\<dots> = window_of q (p + q - 2) (F ?W) ! j"
    using nth_window_of [of q "p + q - 2" "F ?W" j] lens p q j by simp
  finally show "window_of q i (F xs) ! j = window_of q (p + q - 2) (F ?W) ! j" .
qed

lemma windowed_compose:
  assumes F: "windowed p F" and G: "windowed q G"
  shows "windowed (p + q - 1) (\<lambda>xs. G (F xs))"
proof (rule windowedI)
  have p: "0 < p" "0 < q" using windowedD(3) [OF F] windowedD(3) [OF G] .
  then show "0 < p + q - 1" by simp
  show "length (G (F xs)) = length xs" for xs using windowedD(1) [OF F] windowedD(1) [OF G] by simp
  fix xs :: "'a list" and i
  assume i: "p + q - 1 \<le> i + 1" "i < length xs"
  let ?W = "window_of (p + q - 1) i xs"
  have lens: "length (F xs) = length xs" "length (F ?W) = p + q - 1" using windowedD(1) [OF F] i p by simp_all
  have "G (F xs) ! i = G (window_of q i (F xs)) ! (q - 1)"
    using windowedD(2) [OF G, of i "F xs"] lens i p by simp
  also have "window_of q i (F xs) = window_of q (p + q - 2) (F ?W)" using windowed_window [OF F, of q i xs] i p by simp
  also have "G (window_of q (p + q - 2) (F ?W)) ! (q - 1) = G (F ?W) ! (p + q - 2)"
    using windowedD(2) [OF G, of "p + q - 2" "F ?W"] lens p by simp
  finally show "G (F xs) ! i = G (F ?W) ! (p + q - 1 - 1)" by (simp add: numeral_2_eq_2)
qed

lemma windowed_map: "windowed 1 (map f)"
  by (rule windowedI) (simp_all add: window_of_def)

lemma windowed_map2:
  assumes F: "windowed p F" and G: "windowed p G"
  shows "windowed p (\<lambda>xs. map2 f (F xs) (G xs))"
proof (rule windowedI)
  note lens = windowedD(1) [OF F] windowedD(1) [OF G]
  show "0 < p" using windowedD(3) [OF F] .
  show "length (map2 f (F xs) (G xs)) = length xs" for xs by (simp add: lens)
  fix xs :: "'a list" and i
  assume i: "p \<le> i + 1" "i < length xs"
  then show "map2 f (F xs) (G xs) ! i = map2 f (F (window_of p i xs)) (G (window_of p i xs)) ! (p - 1)"
    using windowedD(2) [OF F i] windowedD(2) [OF G i] windowedD(3) [OF F] by (simp add: lens)
qed

lemma length_filled_from [simp]: "length (filled_from num k n f) = n"
  by (simp add: filled_from_def)

lemma nth_filled_from: "i < n \<Longrightarrow> filled_from num k n f ! i = (if i < k then np_nan num else f i)"
  by (simp add: filled_from_def)

lemma windowed_filled:
  assumes "0 < p" "k < p" "\<And>xs i. p \<le> i + 1 \<Longrightarrow> i < length xs \<Longrightarrow> f xs i = f (window_of p i xs) (p - 1)"
  shows "windowed p (\<lambda>xs. filled_from num k (length xs) (f xs))"
proof (rule windowedI)
  fix xs :: "'a list" and i
  assume i: "p \<le> i + 1" "i < length xs"
  have "\<not> i < k" "\<not> p - 1 < k" "p - 1 < p" using assms(1,2) i by simp_all
  then show "filled_from num k (length xs) (f xs) ! i =
      filled_from num k (length (window_of p i xs)) (f (window_of p i xs)) ! (p - 1)"
    using assms(3) [OF i] i by (simp only: nth_filled_from length_window_of if_False)
qed (use assms(1) in simp_all)

end
