(* ===== verification/Runtime_Exact.thy ===== *)
theory Runtime_Exact
  imports Runtime_Windows Complex_Main
begin

text \<open>
  The indicators in exact arithmetic: \<open>exact_num\<close> computes with reals, and \<open>None\<close> for NaN and for the
  result of a division by zero. The linear algebra, roots, powers and standard deviations stay as given.

  The moving average takes differences of a running sum, so it sees a window only where sums are
  exact; with floats the rounding of the running sum depends on where the series starts.
\<close>

section \<open>Exact arithmetic\<close>

fun lift2 :: "(real \<Rightarrow> real \<Rightarrow> real) \<Rightarrow> real option \<Rightarrow> real option \<Rightarrow> real option" where
  "lift2 f (Some x) (Some y) = Some (f x y)"
| "lift2 f _ _ = None"

fun lift_rel :: "(real \<Rightarrow> real \<Rightarrow> bool) \<Rightarrow> real option \<Rightarrow> real option \<Rightarrow> bool" where
  "lift_rel f (Some x) (Some y) = f x y"
| "lift_rel f _ _ = False"

fun exact_div :: "real option \<Rightarrow> real option \<Rightarrow> real option" where
  "exact_div (Some x) (Some y) = (if y = 0 then None else Some (x / y))"
| "exact_div _ _ = None"

definition exact_sum :: "real option list \<Rightarrow> real option" where
  "exact_sum xs = (if None \<in> set xs then None else Some (sum_list (map the xs)))"

definition exact_mean :: "real option list \<Rightarrow> real option" where
  "exact_mean xs = exact_div (exact_sum xs) (Some (real (length xs)))"

definition exact_pick :: "(real set \<Rightarrow> real) \<Rightarrow> real option list \<Rightarrow> real option" where
  "exact_pick f xs = (if xs = [] \<or> None \<in> set xs then None else Some (f (the ` set xs)))"

definition exact_num :: "real option num_ops \<Rightarrow> real option num_ops" where
  "exact_num base = base\<lparr>nm_of_int := \<lambda>n. Some (of_int n), nm_add := lift2 (+), nm_sub := lift2 (-), nm_mul := lift2 (*),
     nm_div := exact_div, nm_abs := map_option abs, nm_lt := lift_rel (<), nm_le := lift_rel (\<le>), nm_eq := lift_rel (=),
     nm_nan := \<lambda>x. x = None, nm_sum := exact_sum, np_div := exact_div, np_sum := exact_sum,
     np_max := exact_pick Max, nm_neg := map_option uminus, np_nan := None, np_mean := exact_mean, np_min := exact_pick Min,
     nm_cci := Some (3 / 200), nm_floor := case_option (Inl ValueError) (\<lambda>x. Inr \<lfloor>x\<rfloor>), nm_finite := \<lambda>x. x \<noteq> None\<rparr>"

lemma exact_num_simps [simp]:
  "nm_of_int (exact_num base) n = Some (of_int n)" "nm_add (exact_num base) = lift2 (+)" "nm_sub (exact_num base) = lift2 (-)"
  "nm_mul (exact_num base) = lift2 (*)" "nm_div (exact_num base) = exact_div" "nm_abs (exact_num base) = map_option abs"
  "nm_lt (exact_num base) = lift_rel (<)" "nm_le (exact_num base) = lift_rel (\<le>)" "nm_eq (exact_num base) = lift_rel (=)"
  "nm_nan (exact_num base) = (\<lambda>x. x = None)" "nm_sum (exact_num base) = exact_sum" 
  "np_div (exact_num base) = exact_div" "np_sum (exact_num base) = exact_sum" "np_max (exact_num base) = exact_pick Max"
  "nm_neg (exact_num base) = map_option uminus" "np_nan (exact_num base) = None" "np_mean (exact_num base) = exact_mean"
  "np_min (exact_num base) = exact_pick Min" "nm_cci (exact_num base) = Some (3 / 200)"
  "nm_floor (exact_num base) = case_option (Inl ValueError) (\<lambda>x. Inr \<lfloor>x\<rfloor>)" "nm_finite (exact_num base) = (\<lambda>x. x \<noteq> None)"
  by (simp_all add: exact_num_def)

section \<open>The moving average sees a window\<close>

lemma nth_cumulate:
  "i < length ys \<Longrightarrow> cumulate (exact_num base) (Some a) (map Some ys) ! i = Some (a + sum_list (take (i + 1) ys))"
proof (induction ys arbitrary: a i)
  case (Cons y ys)
  then show ?case by (cases i) (simp_all add: add.assoc)
qed simp

lemma nth_cumsum: "i < length ys \<Longrightarrow> np_cumsum (exact_num base) (map Some ys) ! i = Some (sum_list (take (i + 1) ys))"
  by (cases ys; cases i) (simp_all add: np_cumsum_def nth_cumulate)

lemma take_window: "p \<le> i + 1 \<Longrightarrow> take (i + 1) xs = take (i + 1 - p) xs @ window_of p i xs"
  using take_add [of "i + 1 - p" p xs] by (simp add: window_of_def)

definition zero_if_nan :: "real option \<Rightarrow> real" where
  "zero_if_nan x = (case x of None \<Rightarrow> 0 | Some y \<Rightarrow> y)"

lemma nth_sma:
  assumes "0 < p" "p \<le> i + 1" "i < length xs"
  shows "sma (exact_num base) xs p ! i = exact_div (exact_sum (window_of p i xs)) (Some (real p))"
proof -
  let ?num = "exact_num base" and ?W = "window_of p i xs"
  have zeros: "map (\<lambda>x. if nm_nan ?num x then zero_of ?num else x) xs = map Some (map zero_if_nan xs)"
    by (auto simp: zero_if_nan_def split: option.split)
  define csum where "csum = np_cumsum ?num (map (\<lambda>x. if nm_nan ?num x then zero_of ?num else x) xs)"
  have c: "csum ! j = Some (sum_list (map zero_if_nan (take (j + 1) xs)))" if "j < length xs" for j
    using nth_cumsum [of j "map zero_if_nan xs" base] that unfolding csum_def zeros by (simp add: take_map)
  have sum: "(if i < p then csum ! i else lift2 (-) (csum ! i) (csum ! (i - p))) = Some (sum_list (map zero_if_nan ?W))"
    using assms take_window [OF assms(2), of xs] c [of i] c [of "i - p"]
    by (auto simp: Suc_diff_le not_less le_Suc_eq)
  define cnan where "cnan = (\<lambda>i. length (filter (nm_nan ?num) (take (i + 1) xs)))"
  have nan: "(if i < p then cnan i else cnan i - cnan (i - p)) = length (filter (\<lambda>x. x = None) ?W)"
    using assms take_window [OF assms(2), of xs] by (auto simp: cnan_def Suc_diff_le not_less le_Suc_eq)
  have "\<not> i < p - 1" using assms by simp
  then have "sma ?num xs p ! i = (if (if i < p then cnan i else cnan i - cnan (i - p)) = 0
      then np_div ?num (if i < p then csum ! i else nm_sub ?num (csum ! i) (csum ! (i - p))) (nm_of_int ?num (int p))
      else np_nan ?num)"
    using assms unfolding sma_def Let_def csum_def [symmetric] cnan_def [symmetric]
    by (simp add: nth_filled_from del: exact_num_simps)
  then have "sma ?num xs p ! i = (if length (filter (\<lambda>x. x = None) ?W) = 0
      then exact_div (Some (sum_list (map zero_if_nan ?W))) (Some (real p)) else None)"
    by (simp only: sum nan exact_num_simps of_int_of_nat_eq)
  moreover have "sum_list (map zero_if_nan ?W) = sum_list (map the ?W)" if "None \<notin> set ?W"
    using that by (intro arg_cong [of _ _ sum_list] map_cong) (auto simp: zero_if_nan_def split: option.split)
  ultimately show ?thesis by (auto simp: exact_sum_def filter_empty_conv)
qed

lemma length_sma [simp]: "length (sma num xs p) = length xs"
  by (simp add: sma_def Let_def nans_def)

lemma windowed_sma: "0 < p \<Longrightarrow> windowed p (\<lambda>xs. sma (exact_num base) xs p)"
  by (rule windowedI) (simp_all add: nth_sma, simp add: window_of_def)

section \<open>The sliding-window indicators\<close>

text \<open>The series of the bars.\<close>

abbreviation closes :: "'f bar list \<Rightarrow> 'f list" where "closes bars \<equiv> map bar_close bars"
abbreviation highs :: "'f bar list \<Rightarrow> 'f list" where "highs bars \<equiv> map bar_high bars"
abbreviation lows :: "'f bar list \<Rightarrow> 'f list" where "lows bars \<equiv> map bar_low bars"
abbreviation volumes :: "'f num_ops \<Rightarrow> 'f bar list \<Rightarrow> 'f list" where
  "volumes num bars \<equiv> map (\<lambda>b. nm_of_int num (bar_volume b)) bars"

lemma at_window:
  assumes "0 < p" "p \<le> Suc i" "i < length xs"
  shows "window_of p (p - Suc 0) (map f (window_of p i xs)) = window_of p i (map f xs)"
    "map f (window_of p i xs) ! (p - Suc 0) = f (xs ! i)" "window_of p i xs ! (p - Suc 0) = xs ! i"
  using assms by (simp_all add: nth_window_of) (simp add: window_of_def take_map drop_map)

lemma windowed_stddev: "0 < p \<Longrightarrow> windowed p (\<lambda>bars. stddev num (map f bars) p)"
  unfolding stddev_def length_map by (rule windowed_filled) (simp_all add: at_window)

lemma windowed_momentum: "0 < p \<Longrightarrow> windowed (p + 1) (\<lambda>bars. momentum num (map f bars) p)"
  unfolding momentum_def length_map by (rule windowed_filled) (simp_all add: nth_window_of)

lemma windowed_donchian:
  "0 < p \<Longrightarrow> windowed p (\<lambda>bars. fst (donchian num (highs bars) (lows bars) p))"
  "0 < p \<Longrightarrow> windowed p (\<lambda>bars. snd (donchian num (highs bars) (lows bars) p))"
  unfolding donchian_def length_map fst_conv snd_conv by (rule windowed_filled; simp add: at_window)+

lemma windowed_williams: "0 < p \<Longrightarrow> windowed p (\<lambda>bars. williams_r num (highs bars) (lows bars) (closes bars) p)"
  unfolding williams_r_def length_map Let_def by (rule windowed_filled) (simp_all add: at_window cong: if_cong)

definition typical :: "'f num_ops \<Rightarrow> 'f bar \<Rightarrow> 'f" where
  "typical num b = np_div num (nm_add num (nm_add num (bar_high b) (bar_low b)) (bar_close b)) (nm_of_int num 3)"

lemma typical_price_map: "typical_price num (highs bars) (lows bars) (closes bars) = map (typical num) bars"
  by (induction bars) (simp_all add: typical_price_def typical_def)

lemma windowed_sma_map: "0 < p \<Longrightarrow> windowed p (\<lambda>bars. sma (exact_num base) (map f bars) p)"
  using windowed_compose [OF windowed_map [of f] windowed_sma [of p base]] by simp

lemma windowed_cci: "0 < p \<Longrightarrow> windowed p (\<lambda>bars. cci (exact_num base) (highs bars) (lows bars) (closes bars) p)"
proof -
  assume p: "0 < p"
  let ?num = "exact_num base"
  define mad where "mad = (\<lambda>bars i. np_mean ?num (map (\<lambda>x. nm_abs ?num (nm_sub ?num x (sma ?num (map (typical ?num) bars) p ! i)))
      (window_of p i (map (typical ?num) bars))))"
  have sma: "sma ?num (map (typical ?num) (window_of p i bars)) p ! (p - Suc 0) = sma ?num (map (typical ?num) bars) p ! i"
    if "p \<le> Suc i" "i < length bars" for bars i
    using windowedD(2) [OF windowed_sma_map [OF p, of base "typical ?num"], of i bars] that by simp
  have "windowed p (\<lambda>bars. filled_from ?num (p - 1) (length bars) (\<lambda>i.
           if nm_eq ?num (mad bars i) (zero_of ?num) then np_nan ?num
           else np_div ?num (nm_sub ?num (map (typical ?num) bars ! i) (sma ?num (map (typical ?num) bars) p ! i))
             (nm_mul ?num (nm_cci ?num) (mad bars i))))"
    using p by (intro windowed_filled) (simp_all add: mad_def sma at_window cong: if_cong)
  then show ?thesis unfolding cci_def typical_price_map Let_def mad_def length_map .
qed

lemma windowed_guard:
  assumes F: "windowed p F" and q: "q \<le> p"
  shows "windowed p (\<lambda>xs. if length xs < q then nans num (length xs) else F xs)"
proof (rule windowedI)
  show "0 < p" using windowedD(3) [OF F] .
  show "length (if length xs < q then nans num (length xs) else F xs) = length xs" for xs
    using windowedD(1) [OF F] by (simp add: nans_def)
  fix xs :: "'a list" and i
  assume i: "p \<le> i + 1" "i < length xs"
  then have "\<not> length xs < q" "\<not> length (window_of p i xs) < q" using q by simp_all
  then show "(if length xs < q then nans num (length xs) else F xs) ! i =
      (if length (window_of p i xs) < q then nans num (length (window_of p i xs)) else F (window_of p i xs)) ! (p - 1)"
    using windowedD(2) [OF F i] by simp
qed

definition raw_stochastic :: "'f num_ops \<Rightarrow> nat \<Rightarrow> 'f bar list \<Rightarrow> 'f list" where
  "raw_stochastic num k_period bars = filled_from num (k_period - 1) (length bars) (\<lambda>i.
     let highest = np_max num (window_of k_period i (highs bars)); lowest = np_min num (window_of k_period i (lows bars))
     in if nm_eq num highest lowest then nm_of_int num 50
        else np_div num (nm_mul num (nm_of_int num 100) (nm_sub num (closes bars ! i) lowest)) (nm_sub num highest lowest))"

lemma windowed_raw_stochastic: "0 < p \<Longrightarrow> windowed p (raw_stochastic num p)"
  unfolding raw_stochastic_def [abs_def] Let_def by (rule windowed_filled) (simp_all add: at_window cong: if_cong)

lemma stochastic_eqs:
  "fst (stochastic num (highs bars) (lows bars) (closes bars) kp dp sp) =
     (if length bars < kp then nans num (length bars) else sma num (raw_stochastic num kp bars) sp)"
  "snd (stochastic num (highs bars) (lows bars) (closes bars) kp dp sp) =
     (if length bars < kp then nans num (length bars) else sma num (sma num (raw_stochastic num kp bars) sp) dp)"
  by (simp_all add: stochastic_def raw_stochastic_def Let_def)

lemma windowed_stochastic:
  assumes "0 < kp" "0 < dp" "0 < sp"
  shows "windowed (kp + sp - 1) (\<lambda>bars. fst (stochastic (exact_num base) (highs bars) (lows bars) (closes bars) kp dp sp))"
    "windowed (kp + sp + dp - 2) (\<lambda>bars. snd (stochastic (exact_num base) (highs bars) (lows bars) (closes bars) kp dp sp))"
proof -
  note k = windowed_compose [OF windowed_raw_stochastic [OF assms(1), of "exact_num base"] windowed_sma [OF assms(3), of base]]
  note d = windowed_compose [OF k windowed_sma [OF assms(2), of base]]
  have e: "kp + sp - 1 + dp - 1 = kp + sp + dp - 2" using assms by simp
  show "windowed (kp + sp - 1) (\<lambda>bars. fst (stochastic (exact_num base) (highs bars) (lows bars) (closes bars) kp dp sp))"
    using windowed_guard [OF k, of kp] assms by (simp add: stochastic_eqs)
  show "windowed (kp + sp + dp - 2) (\<lambda>bars. snd (stochastic (exact_num base) (highs bars) (lows bars) (closes bars) kp dp sp))"
    using windowed_guard [OF d [unfolded e], of kp] assms by (simp add: stochastic_eqs)
qed

lemma windowed_bollinger:
  assumes "0 < p"
  shows "windowed p (\<lambda>bars. fst (bollinger_bands (exact_num base) (map f bars) p m))"
    "windowed p (\<lambda>bars. fst (snd (bollinger_bands (exact_num base) (map f bars) p m)))"
    "windowed p (\<lambda>bars. snd (snd (bollinger_bands (exact_num base) (map f bars) p m)))"
  unfolding bollinger_bands_def bands_def fst_conv snd_conv
  using assms by (simp_all add: windowed_map2 windowed_sma_map windowed_stddev)

text \<open>The money flow looks one bar back.\<close>

definition money_flow :: "'f num_ops \<Rightarrow> ('f \<Rightarrow> 'f \<Rightarrow> bool) \<Rightarrow> 'f bar list \<Rightarrow> 'f list" where
  "money_flow num moved bars =
     map (\<lambda>i. if 0 < i \<and> moved (typical num (bars ! (i - 1))) (typical num (bars ! i))
        then nm_mul num (typical num (bars ! i)) (nm_of_int num (bar_volume (bars ! i))) else zero_of num) [0..<length bars]"

lemma windowed_money_flow: "windowed 2 (money_flow num moved)"
proof (rule windowedI)
  fix bars :: "'a bar list" and i
  assume i: "2 \<le> i + 1" "i < length bars"
  then have "window_of 2 i bars ! 0 = bars ! (i - 1)" "window_of 2 i bars ! 1 = bars ! i" by (simp_all add: nth_window_of)
  then show "money_flow num moved bars ! i = money_flow num moved (window_of 2 i bars) ! (2 - 1)"
    using i by (simp add: money_flow_def)
qed (simp_all add: money_flow_def)

lemma mfi_money_flow:
  "mfi num (highs bars) (lows bars) (closes bars) (volumes num bars) p = filled_from num p (length bars) (\<lambda>i.
     rsi_value num (np_sum num (window_of p i (money_flow num (nm_lt num) bars)))
       (np_sum num (window_of p i (money_flow num (\<lambda>a b. \<not> nm_lt num a b \<and> nm_lt num b a) bars))))"
proof -
  have "map2 (nm_mul num) (map (typical num) bars) (volumes num bars) = map (\<lambda>b. nm_mul num (typical num b) (nm_of_int num (bar_volume b))) bars"
    by (induction bars) simp_all
  then have flow: "map (\<lambda>i. if 0 < i \<and> moved (map (typical num) bars ! (i - 1)) (map (typical num) bars ! i)
       then map2 (nm_mul num) (map (typical num) bars) (volumes num bars) ! i else zero_of num) [0..<length bars] = money_flow num moved bars" for moved
    by (auto simp: money_flow_def)
  from this [of "nm_lt num"] this [of "\<lambda>a b. \<not> nm_lt num a b \<and> nm_lt num b a"]
  show ?thesis by (simp add: mfi_def typical_price_map Let_def)
qed

lemma windowed_mfi:
  assumes "0 < p"
  shows "windowed (p + 1) (\<lambda>bars. mfi num (highs bars) (lows bars) (closes bars) (volumes num bars) p)"
proof -
  have "window_of p i (money_flow num moved bars) = window_of p p (money_flow num moved (window_of (p + 1) i bars))"
    if "p + 1 \<le> i + 1" "i < length bars" for bars i moved
    using windowed_window [OF windowed_money_flow [of num moved], of p i bars] that assms by simp
  then show ?thesis unfolding mfi_money_flow by (intro windowed_filled) simp_all
qed

end
