(* ===== verification/Runtime_Local.thy ===== *)
theory Runtime_Local
  imports Runtime_Exact
begin

text \<open>
  The sliding-window indicators depend on the retained bars only: as soon as the warm-up that the
  analysis computes for a spec is retained with one bar to spare, the last two entries of its arrays
  are those of the whole series (\<open>local_windowed\<close>).
\<close>

section \<open>Parameters\<close>

definition price_field_of :: "'f num_ops \<Rightarrow> string \<Rightarrow> ('f bar \<Rightarrow> 'f) option" where
  "price_field_of num name =
     (if name = ''open'' then Some bar_open else if name = ''high'' then Some bar_high
      else if name = ''low'' then Some bar_low else if name = ''close'' then Some bar_close
      else if name = ''volume'' then Some (\<lambda>b. nm_of_int num (bar_volume b)) else None)"

lemma get_source_of:
  "get_source (price_data_of num bars) name = (case price_field_of num name of None \<Rightarrow> Inl KeyError | Some g \<Rightarrow> Inr (map g bars))"
  by (simp add: get_source_def price_data_of_def price_field_of_def)

lemma price_data_fields [simp]:
  "pd_high (price_data_of num bars) = highs bars" "pd_low (price_data_of num bars) = lows bars"
  "pd_close (price_data_of num bars) = closes bars" "pd_volume (price_data_of num bars) = volumes num bars"
  by (simp_all add: price_data_of_def)

text \<open>The analysis and the library read the same period.\<close>

lemma period_agrees:
  assumes "period_param ops params i d = Inr p" "i < length defs" "defs ! i = PInt d"
  shows "period_at ops (params @ drop (length params) defs) i = Inr (int p)" "0 < p"
proof -
  have "(params @ drop (length params) defs) ! i = (if i < length params then params ! i else PInt d)"
    "i < length (params @ drop (length params) defs)"
    using assms(2,3) by (simp_all add: nth_append)
  then show "period_at ops (params @ drop (length params) defs) i = Inr (int p)" "0 < p"
    using assms(1) by (auto simp: period_at_def period_param_def result_simps split: if_splits)
qed

section \<open>Agreement of the arrays\<close>

lemma ends_agree_Nil [simp]: "ends_agree [] []"
  by (simp add: ends_agree_def)

lemma ends_agree_one: "ends_agree d e \<Longrightarrow> same_ends x y \<Longrightarrow> ends_agree (AList.update k x d) (AList.update k y e)"
  by (simp add: ends_agree_def map_of_update)

lemma local_single: "windowed q F \<Longrightarrow> q < w \<Longrightarrow> ends_agree (single spec (F bars)) (single spec (F (last_bars_of w bars)))"
  using ends_agree_one [OF ends_agree_Nil windowed_same_ends] by (fastforce simp: single_def)

lemma local_outputs:
  assumes "list_all (\<lambda>(n, F). windowed q F) Fs" "windowed q D" "q < w"
  shows "ends_agree (outputs spec parts (map (\<lambda>(n, F). (n, F bars)) Fs) (D bars))
    (outputs spec parts (map (\<lambda>(n, F). (n, F (last_bars_of w bars))) Fs) (D (last_bars_of w bars)))"
proof -
  have fold: "ends_agree (foldl (\<lambda>d (n, xs). AList.update (base_key spec parts @ ''_'' @ n) xs d) d (map (\<lambda>(n, F). (n, F bars)) Fs))
    (foldl (\<lambda>d (n, xs). AList.update (base_key spec parts @ ''_'' @ n) xs d) e (map (\<lambda>(n, F). (n, F (last_bars_of w bars))) Fs))"
    if "ends_agree d e" for d e
    using assms(1) that
  proof (induction Fs arbitrary: d e)
    case (Cons p Fs)
    obtain n F where p: "p = (n, F)" by (cases p)
    have "same_ends (F bars) (F (last_bars_of w bars))" using Cons.prems(1) assms(3) by (auto simp: p intro: windowed_same_ends)
    from Cons.IH [OF _ ends_agree_one [OF Cons.prems(2) this]] Cons.prems(1) show ?case by (simp add: p)
  qed simp
  have named: "map_of (map (\<lambda>(n, F). (n, F xs)) Fs) v = map_option (\<lambda>F. F xs) (map_of Fs v)" for xs v
    by (induction Fs) auto
  have "same_ends (F bars) (F (last_bars_of w bars))" if "map_of Fs v = Some F" for v F
    using assms(1,3) map_of_SomeD [OF that] by (fastforce simp: list_all_iff intro: windowed_same_ends)
  moreover have "same_ends (D bars) (D (last_bars_of w bars))" using assms(2,3) by (rule windowed_same_ends)
  ultimately have "same_ends (case output_field spec of None \<Rightarrow> D bars
        | Some v \<Rightarrow> (case map_of (map (\<lambda>(n, F). (n, F bars)) Fs) v of None \<Rightarrow> D bars | Some xs \<Rightarrow> xs))
      (case output_field spec of None \<Rightarrow> D (last_bars_of w bars)
        | Some v \<Rightarrow> (case map_of (map (\<lambda>(n, F). (n, F (last_bars_of w bars))) Fs) v of
            None \<Rightarrow> D (last_bars_of w bars) | Some xs \<Rightarrow> xs))"
    by (auto simp: named split: option.split)
  from ends_agree_one [OF fold [OF ends_agree_Nil] this] show ?thesis by (simp add: outputs_def)
qed

section \<open>Sliding-window indicators\<close>

definition windowed_types :: "string list" where
  "windowed_types = [''sma'', ''stddev'', ''cci'', ''williams-r'', ''bbands'', ''donchian'', ''momentum'', ''mfi'', ''stoch'']"

definition warm_spec :: "'f float_ops \<Rightarrow> nat \<Rightarrow> 'f indicator_spec \<Rightarrow> bool" where
  "warm_spec ops w spec \<longleftrightarrow>
     (\<exists>n. calculate_required_bars ops (indicator_type spec) (spec_params spec) = Inr n \<and> n < int w)"

abbreviation agree :: "(string, 'f list) dict result \<Rightarrow> (string, 'f list) dict result \<Rightarrow> bool" where
  "agree \<equiv> rel_sum (=) ends_agree"

lemma agree_bind:
  "(\<And>x. r = Inr x \<Longrightarrow> agree (f x) (g x)) \<Longrightarrow> agree (bindR r f) (bindR r g)"
  by (cases r) simp_all

lemma agree_source:
  "(\<And>g. agree (f (map g bars)) (f' (map g bars'))) \<Longrightarrow>
   agree (bindR (get_source (price_data_of num bars) name) f) (bindR (get_source (price_data_of num bars') name) f')"
  by (cases "price_field_of num name") (simp_all add: get_source_of)

lemma warm_period:
  assumes "warm_spec ops w spec"
  shows "indicator_type spec \<in> {''sma'', ''stddev'', ''cci'', ''donchian'', ''bbands''} \<Longrightarrow>
      period_param ops (spec_params spec) 0 20 = Inr p \<Longrightarrow> 0 < p \<and> p < w"
    "indicator_type spec = ''williams-r'' \<Longrightarrow> period_param ops (spec_params spec) 0 14 = Inr p \<Longrightarrow> 0 < p \<and> p < w"
    "indicator_type spec = ''mfi'' \<Longrightarrow> period_param ops (spec_params spec) 0 14 = Inr p \<Longrightarrow> 0 < p \<and> p + 1 < w"
    "indicator_type spec = ''momentum'' \<Longrightarrow> period_param ops (spec_params spec) 0 10 = Inr p \<Longrightarrow> 0 < p \<and> p + 1 < w"
proof -
  obtain n where n: "calculate_required_bars ops (indicator_type spec) (spec_params spec) = Inr n" "n < int w"
    using assms by (auto simp: warm_spec_def)
  let ?defs = "default_periods ops (indicator_type spec)"
  note agrees = period_agrees [of ops "spec_params spec" 0 _ p ?defs]
  show "indicator_type spec \<in> {''sma'', ''stddev'', ''cci'', ''donchian'', ''bbands''} \<Longrightarrow>
      period_param ops (spec_params spec) 0 20 = Inr p \<Longrightarrow> 0 < p \<and> p < w"
    using agrees [of 20] n by (auto simp: calculate_required_bars_def default_periods_def Let_def)
  show "indicator_type spec = ''williams-r'' \<Longrightarrow> period_param ops (spec_params spec) 0 14 = Inr p \<Longrightarrow> 0 < p \<and> p < w"
    using agrees [of 14] n by (auto simp: calculate_required_bars_def default_periods_def Let_def)
  show "indicator_type spec = ''mfi'' \<Longrightarrow> period_param ops (spec_params spec) 0 14 = Inr p \<Longrightarrow> 0 < p \<and> p + 1 < w"
    using agrees [of 14] n by (auto simp: calculate_required_bars_def default_periods_def Let_def)
  show "indicator_type spec = ''momentum'' \<Longrightarrow> period_param ops (spec_params spec) 0 10 = Inr p \<Longrightarrow> 0 < p \<and> p + 1 < w"
    using agrees [of 10] n by (auto simp: calculate_required_bars_def default_periods_def Let_def)
qed

lemma warm_stoch:
  assumes "warm_spec ops w spec" "indicator_type spec = ''stoch''" "period_param ops (spec_params spec) 0 14 = Inr kp"
    "period_param ops (spec_params spec) 1 3 = Inr dp" "period_param ops (spec_params spec) 2 3 = Inr sp"
  shows "0 < kp \<and> 0 < dp \<and> 0 < sp \<and> kp + sp + dp - 2 < w"
  using assms(1,2) period_agrees [OF assms(3), of "default_periods ops ''stoch''"]
    period_agrees [OF assms(4), of "default_periods ops ''stoch''"] period_agrees [OF assms(5), of "default_periods ops ''stoch''"]
  by (auto simp: warm_spec_def calculate_required_bars_def default_periods_def Let_def)

lemma local_indicator:
  assumes ty: "indicator_type spec \<in> set windowed_types" and warm: "warm_spec ops w spec"
  shows "agree (compute_indicator (exact_num base) ops spec (price_data_of (exact_num base) bars))
    (compute_indicator (exact_num base) ops spec (price_data_of (exact_num base) (last_bars_of w bars)))"
proof -
  let ?num = "exact_num base"
  note period = warm_period [OF warm]
  consider "indicator_type spec = ''sma''" | "indicator_type spec = ''stddev''" | "indicator_type spec = ''cci''"
    | "indicator_type spec = ''williams-r''" | "indicator_type spec = ''bbands''" | "indicator_type spec = ''donchian''"
    | "indicator_type spec = ''momentum''" | "indicator_type spec = ''mfi''" | "indicator_type spec = ''stoch''"
    using ty by (auto simp: windowed_types_def)
  then show ?thesis
  proof cases
    case 1
    then show ?thesis using period(1)
      by (auto simp: compute_indicator_def intro!: agree_source agree_bind local_single windowed_sma_map)
  next
    case 2
    then show ?thesis using period(1)
      by (auto simp: compute_indicator_def intro!: agree_source agree_bind local_single windowed_stddev)
  next
    case 3
    then show ?thesis using period(1)
      by (auto simp: compute_indicator_def intro!: agree_bind local_single windowed_cci)
  next
    case 4
    then show ?thesis using period(2)
      by (auto simp: compute_indicator_def intro!: agree_bind local_single windowed_williams)
  next
    case 7
    then show ?thesis using period(4)
      by (auto simp: compute_indicator_def intro!: agree_source agree_bind local_single windowed_momentum)
  next
    case 8
    then show ?thesis using period(3)
      by (auto simp: compute_indicator_def simp del: exact_num_simps intro!: agree_bind local_single windowed_mfi)
  next
    case 5
    have "agree (Inr (outputs spec parts [(''upper'', fst (bollinger_bands ?num (map g bars) p m)),
          (''middle'', fst (snd (bollinger_bands ?num (map g bars) p m))), (''lower'', snd (snd (bollinger_bands ?num (map g bars) p m)))]
          (fst (snd (bollinger_bands ?num (map g bars) p m)))))
        (Inr (outputs spec parts [(''upper'', fst (bollinger_bands ?num (map g (last_bars_of w bars)) p m)),
          (''middle'', fst (snd (bollinger_bands ?num (map g (last_bars_of w bars)) p m))),
          (''lower'', snd (snd (bollinger_bands ?num (map g (last_bars_of w bars)) p m)))]
          (fst (snd (bollinger_bands ?num (map g (last_bars_of w bars)) p m)))))"
      if "period_param ops (spec_params spec) 0 20 = Inr p" for p m g parts
      using local_outputs [of p "[(''upper'', \<lambda>bars. fst (bollinger_bands ?num (map g bars) p m)),
          (''middle'', \<lambda>bars. fst (snd (bollinger_bands ?num (map g bars) p m))),
          (''lower'', \<lambda>bars. snd (snd (bollinger_bands ?num (map g bars) p m)))]"
          "\<lambda>bars. fst (snd (bollinger_bands ?num (map g bars) p m))" w spec parts bars] period(1) [OF _ that] 5
      by (simp add: windowed_bollinger)
    then show ?thesis using 5
      by (auto simp: compute_indicator_def case_prod_beta Let_def intro!: agree_source agree_bind)
  next
    case 6
    have "agree (Inr (outputs spec parts [(''upper'', fst (donchian ?num (highs bars) (lows bars) p)),
          (''lower'', snd (donchian ?num (highs bars) (lows bars) p))] (fst (donchian ?num (highs bars) (lows bars) p))))
        (Inr (outputs spec parts [(''upper'', fst (donchian ?num (highs (last_bars_of w bars)) (lows (last_bars_of w bars)) p)),
          (''lower'', snd (donchian ?num (highs (last_bars_of w bars)) (lows (last_bars_of w bars)) p))]
          (fst (donchian ?num (highs (last_bars_of w bars)) (lows (last_bars_of w bars)) p))))"
      if "period_param ops (spec_params spec) 0 20 = Inr p" for p parts
      using local_outputs [of p "[(''upper'', \<lambda>bars. fst (donchian ?num (highs bars) (lows bars) p)),
          (''lower'', \<lambda>bars. snd (donchian ?num (highs bars) (lows bars) p))]"
          "\<lambda>bars. fst (donchian ?num (highs bars) (lows bars) p)" w spec parts bars] period(1) [OF _ that] 6
      by (simp add: windowed_donchian)
    then show ?thesis using 6 by (auto simp: compute_indicator_def case_prod_beta Let_def intro!: agree_bind)
  next
    case 9
    have "agree (Inr (outputs spec parts [(''k'', fst (stochastic ?num (highs bars) (lows bars) (closes bars) kp dp sp)),
          (''d'', snd (stochastic ?num (highs bars) (lows bars) (closes bars) kp dp sp))]
          (fst (stochastic ?num (highs bars) (lows bars) (closes bars) kp dp sp))))
        (Inr (outputs spec parts
          [(''k'', fst (stochastic ?num (highs (last_bars_of w bars)) (lows (last_bars_of w bars)) (closes (last_bars_of w bars)) kp dp sp)),
           (''d'', snd (stochastic ?num (highs (last_bars_of w bars)) (lows (last_bars_of w bars)) (closes (last_bars_of w bars)) kp dp sp))]
          (fst (stochastic ?num (highs (last_bars_of w bars)) (lows (last_bars_of w bars)) (closes (last_bars_of w bars)) kp dp sp))))"
      if "period_param ops (spec_params spec) 0 14 = Inr kp" "period_param ops (spec_params spec) 1 3 = Inr dp"
        "period_param ops (spec_params spec) 2 3 = Inr sp" for kp dp sp parts
    proof -
      note pos = warm_stoch [OF warm 9 that]
      have "windowed (kp + sp + dp - 2) (\<lambda>bars. fst (stochastic ?num (highs bars) (lows bars) (closes bars) kp dp sp))"
        using pos by (intro windowed_mono [OF windowed_stochastic(1)]) auto
      then show ?thesis
        using local_outputs [of "kp + sp + dp - 2" "[(''k'', \<lambda>bars. fst (stochastic ?num (highs bars) (lows bars) (closes bars) kp dp sp)),
          (''d'', \<lambda>bars. snd (stochastic ?num (highs bars) (lows bars) (closes bars) kp dp sp))]"
          "\<lambda>bars. fst (stochastic ?num (highs bars) (lows bars) (closes bars) kp dp sp)" w spec parts bars] pos
        by (simp add: windowed_stochastic)
    qed
    then show ?thesis using 9 by (auto simp: compute_indicator_def case_prod_beta Let_def intro!: agree_bind)
  qed
qed

section \<open>The library\<close>

lemma wf_single: "wf_dict (single spec xs)"
  by (simp add: single_def)

lemma wf_named: "wf_dict d \<Longrightarrow> wf_dict (foldl (\<lambda>d (n, xs). AList.update (f n) xs d) d named)"
  by (induction named arbitrary: d) (auto simp: distinct_update)

lemma wf_outputs: "wf_dict (outputs spec parts named xs)"
  by (simp add: outputs_def distinct_update wf_named)

lemma wf_indicator: "compute_indicator num ops spec prices = Inr d \<Longrightarrow> wf_dict d"
  by (auto simp: compute_indicator_def Let_def result_simps wf_single wf_outputs case_prod_beta split: if_splits)

lemma local_library:
  assumes "list_all (\<lambda>spec. indicator_type spec \<in> set windowed_types \<and> warm_spec ops w spec) specs" "ends_agree d e"
  shows "agree (library_indicators (exact_num base) ops (price_data_of (exact_num base) bars) specs d)
    (library_indicators (exact_num base) ops (price_data_of (exact_num base) (last_bars_of w bars)) specs e)"
  using assms
proof (induction specs arbitrary: d e)
  case (Cons spec specs)
  let ?f = "\<lambda>bars. compute_indicator (exact_num base) ops spec (price_data_of (exact_num base) bars)"
  have "agree (?f bars) (?f (last_bars_of w bars))" using Cons.prems(1) by (intro local_indicator) simp_all
  then show ?case
  proof (cases rule: rel_sum.cases)
    case (2 x y)
    have "ends_agree (update_all_keys d x) (update_all_keys e y)"
      using Cons.prems(2) wf_indicator [OF 2(1)] wf_indicator [OF 2(2)] 2(3) by (rule ends_agree_update)
    from Cons.IH [OF _ this] Cons.prems(1) show ?thesis by (simp add: 2(1,2))
  qed auto
qed simp

lemma local_windowed:
  assumes "\<And>spec. spec \<in> set specs \<Longrightarrow> indicator_type spec \<in> set windowed_types \<and> warm_spec ops w spec"
  shows "local_indicators (exact_num base) ops specs w"
  using local_library [of ops w "filter (\<lambda>spec. spec_symbol spec = symbol) specs" "[]" "[]" base for symbol] assms
  by (simp add: local_indicators_def indicators_of_def list_all_iff)

section \<open>The compiled strategy\<close>

lemma compile_specs:
  assumes "compile_strategy ops s = Inr c"
  shows "list_all (\<lambda>spec. spec_ok ops (output_key spec, spec) \<and> required_bars spec \<le> co_min_bars c) (co_indicators c)"
    "distinct (map output_key (co_indicators c))"
    "set (map output_key (co_indicators c)) = fst ` set (block_indicators ops s)"
    "co_window c = Some (compute_window s (co_min_bars c) max_window)"
    "2 \<le> co_min_bars c"
proof -
  obtain d where d: "extract_from_block ops s [] = Inr d" and c: "co_indicators c = vals d"
      "co_min_bars c = max (max_lookback s (get_max_lookback (vals d))) 2"
      "co_window c = Some (compute_window s (co_min_bars c) max_window)"
    using assms by (auto simp: compile_strategy_def extract_indicators_def result_simps Let_def)
  have e: "extracts ops (block_indicators ops s) [] d" by (rule extract_block_complete(1) [OF d])
  then have ok: "list_all (spec_ok ops) d" and wf: "wf_dict d" and k: "set (keys d) = fst ` set (block_indicators ops s)"
    by (simp_all add: extracts_def)
  have names: "map output_key (vals d) = keys d"
    using ok by (auto simp: list_all_iff spec_ok_def)
  show "distinct (map output_key (co_indicators c))" "set (map output_key (co_indicators c)) = fst ` set (block_indicators ops s)"
    using wf k by (simp_all only: c names)
  have "required_bars spec \<le> co_min_bars c" if "spec \<in> set (vals d)" for spec
    using get_max_lookback_ge [OF that] max_lookback_ge(1) [of "get_max_lookback (vals d)" s] by (simp add: c)
  moreover have "spec_ok ops (output_key spec, spec)" if "spec \<in> set (vals d)" for spec
    using that ok by (fastforce simp: list_all_iff spec_ok_def)
  ultimately show "list_all (\<lambda>spec. spec_ok ops (output_key spec, spec) \<and> required_bars spec \<le> co_min_bars c) (co_indicators c)"
    by (simp add: c(1) list_all_iff)
  show "co_window c = Some (compute_window s (co_min_bars c) max_window)" "2 \<le> co_min_bars c" using c by simp_all
qed

lemma compiled_local:
  assumes "compile_strategy ops s = Inr c" "list_all (\<lambda>spec. indicator_type spec \<in> set windowed_types) (co_indicators c)"
  shows "local_indicators (exact_num base) ops (co_indicators c) (nat (the (co_window c)))"
proof (rule local_windowed)
  fix spec assume spec: "spec \<in> set (co_indicators c)"
  have "co_min_bars c + 10 \<le> the (co_window c)"
    using compile_specs(4,5) [OF assms(1)] compute_window_covers(1) [of "co_min_bars c" s max_window] by simp
  moreover have "spec_ok ops (output_key spec, spec) \<and> required_bars spec \<le> co_min_bars c"
    using compile_specs(1) [OF assms(1)] spec by (simp add: list_all_iff)
  ultimately show "indicator_type spec \<in> set windowed_types \<and> warm_spec ops (nat (the (co_window c))) spec"
    using assms(2) spec compile_specs(5) [OF assms(1)] by (auto simp: list_all_iff warm_spec_def spec_ok_def)
qed

end
