(* ===== verification/Runtime_Orders.thy ===== *)
theory Runtime_Orders
  imports Runtime_Exact "HOL-Library.Product_Lexorder" "HOL-Library.Sublist"
begin

text \<open>
  Target weights to intended orders (\<^verbatim>\<open>libs/runtime/llamatrade_runtime/sizing.py\<close>), as the live
  runner and the backtest size them. The counters that the sizer records on \<^verbatim>\<open>SizingState\<close> are
  returned; Python's \<^verbatim>\<open>min\<close> and \<^verbatim>\<open>max\<close> keep their first argument when the comparison fails, as with a
  NaN.

  For any arithmetic, \<open>size_orders_shape\<close>: sells come before buys, one order per symbol, each for a
  priced symbol of the targets or holdings, not under the notional floor. In exact arithmetic the
  drift mode never spends more than the free cash and the sells bring in (\<open>size_orders_affordable\<close>),
  and a buy is scaled down, never up.
\<close>

section \<open>Quantities\<close>

definition smaller :: "'f num_ops \<Rightarrow> 'f \<Rightarrow> 'f \<Rightarrow> 'f" where
  "smaller num a b = (if nm_lt num b a then b else a)"

definition larger :: "'f num_ops \<Rightarrow> 'f \<Rightarrow> 'f \<Rightarrow> 'f" where
  "larger num a b = (if nm_lt num a b then b else a)"

definition quantize_quantity :: "'f num_ops \<Rightarrow> 'f \<Rightarrow> bool \<Rightarrow> int \<Rightarrow> 'f result" where
  "quantize_quantity num quantity fractional decimals =
     (if nm_le num quantity (zero_of num) then Inr (zero_of num)
      else if \<not> fractional then bindR (nm_floor num quantity) (\<lambda>n. Inr (nm_of_int num n))
      else let scale = nm_pow num (nm_of_int num 10) (nm_of_int num decimals)
           in bindR (nm_floor num (nm_mul num quantity scale)) (\<lambda>n. Inr (nm_div num (nm_of_int num n) scale)))"

record share_quantization =
  sq_fractional :: bool
  sq_decimals :: int

definition apply_quantization :: "'f num_ops \<Rightarrow> share_quantization \<Rightarrow> 'f \<Rightarrow> 'f result" where
  "apply_quantization num q quantity = quantize_quantity num quantity (sq_fractional q) (sq_decimals q)"

datatype sizing_mode = BINARY | DRIFT

record 'f holding =
  hd_symbol :: string
  hd_quantity :: 'f

record 'f intended_order =
  io_symbol :: string
  io_side :: string
  io_quantity :: 'f
  io_price :: 'f

definition affordable_quantity :: "'f num_ops \<Rightarrow> 'f \<Rightarrow> 'f \<Rightarrow> 'f \<Rightarrow> 'f \<Rightarrow> 'f" where
  "affordable_quantity num quantity price cash commission =
     (if nm_le num price (zero_of num) then zero_of num
      else smaller num quantity (larger num (nm_div num (nm_sub num cash commission) price) (zero_of num)))"

section \<open>One symbol\<close>

definition buy_order :: "'f num_ops \<Rightarrow> string \<Rightarrow> 'f \<Rightarrow> 'f \<Rightarrow> 'f intended_order option" where
  "buy_order num symbol quantity price =
     (if nm_le num quantity (zero_of num) then None
      else Some \<lparr>io_symbol = symbol, io_side = ''buy'', io_quantity = quantity, io_price = price\<rparr>)"

definition sell_order :: "'f num_ops \<Rightarrow> string \<Rightarrow> 'f \<Rightarrow> 'f \<Rightarrow> 'f intended_order option" where
  "sell_order num symbol quantity price =
     (if nm_le num quantity (zero_of num) then None
      else Some \<lparr>io_symbol = symbol, io_side = ''sell'', io_quantity = quantity, io_price = price\<rparr>)"

definition size_one ::
  "'f num_ops \<Rightarrow> string \<Rightarrow> 'f \<Rightarrow> 'f \<Rightarrow> 'f \<Rightarrow> 'f \<Rightarrow> sizing_mode \<Rightarrow> 'f \<Rightarrow> 'f intended_order option" where
  "size_one num symbol target_weight held_qty price equity mode drift_tolerance =
     (let zero = zero_of num; has_position = nm_lt num zero held_qty;
          target_value = nm_mul num equity (nm_div num target_weight (nm_of_int num 100))
      in case mode of
           BINARY \<Rightarrow>
             if nm_lt num zero target_weight \<and> \<not> has_position then buy_order num symbol (nm_div num target_value price) price
             else if nm_eq num target_weight zero \<and> has_position then sell_order num symbol held_qty price
             else None
         | DRIFT \<Rightarrow>
             let delta_value = nm_sub num target_value (nm_mul num held_qty price)
             in if nm_lt num zero target_value \<and> nm_le num (nm_div num (nm_abs num delta_value) target_value) drift_tolerance
                then None
                else if nm_lt num zero delta_value then buy_order num symbol (nm_div num delta_value price) price
                else sell_order num symbol (smaller num (nm_div num (nm_neg num delta_value) price) held_qty) price)"

section \<open>The batch\<close>

definition order_notional :: "'f num_ops \<Rightarrow> 'f intended_order \<Rightarrow> 'f" where
  "order_notional num ord = nm_mul num (io_quantity ord) (io_price ord)"

definition under_floor :: "'f num_ops \<Rightarrow> 'f \<Rightarrow> 'f intended_order \<Rightarrow> bool" where
  "under_floor num flr ord = nm_lt num (order_notional num ord) flr"

text \<open>The kept orders and the number of recorded skips.\<close>

definition fit_buys_to_budget ::
  "'f num_ops \<Rightarrow> 'f intended_order list \<Rightarrow> 'f \<Rightarrow> 'f \<Rightarrow> 'f intended_order list \<times> nat" where
  "fit_buys_to_budget num buys funds flr =
     (let total = nm_sum num (map (order_notional num) buys)
      in if nm_le num total (zero_of num) then ([], 0)
         else let scale = (if nm_lt num (zero_of num) funds then smaller num (nm_of_int num 1) (nm_div num funds total)
                           else zero_of num);
                  trimmed = map (\<lambda>ord. ord\<lparr>io_side := ''buy'', io_quantity := nm_mul num (io_quantity ord) scale\<rparr>) buys;
                  dropped = (\<lambda>ord. nm_le num (io_quantity ord) (zero_of num) \<or> under_floor num flr ord)
              in (filter (\<lambda>ord. \<not> dropped ord) trimmed, length (filter dropped trimmed)))"

definition apply_notional_floor ::
  "'f num_ops \<Rightarrow> 'f intended_order list \<Rightarrow> 'f \<Rightarrow> 'f option \<Rightarrow> 'f intended_order list \<times> nat" where
  "apply_notional_floor num orders flr free_cash =
     (let skipped = filter (under_floor num flr) orders;
          kept = filter (\<lambda>ord. \<not> under_floor num flr ord) orders;
          buys = filter (\<lambda>ord. io_side ord = ''buy'') kept;
          sells = filter (\<lambda>ord. io_side ord \<noteq> ''buy'') kept;
          fit = (\<lambda>funds. case fit_buys_to_budget num buys funds flr of (fitted, n) \<Rightarrow> (sells @ fitted, length skipped + n))
      in case free_cash of
           Some cash \<Rightarrow> fit (nm_add num cash (nm_sum num (map (order_notional num) sells)))
         | None \<Rightarrow>
             let shortfall = foldl (\<lambda>acc ord. nm_add num acc (order_notional num ord)) (zero_of num)
                   (filter (\<lambda>ord. io_side ord = ''sell'') skipped)
             in if nm_le num shortfall (zero_of num) then (sells @ buys, length skipped)
                else fit (nm_sub num (nm_sum num (map (order_notional num) buys)) shortfall))"

fun quantize_orders ::
  "'f num_ops \<Rightarrow> share_quantization \<Rightarrow> 'f \<Rightarrow> 'f intended_order list \<Rightarrow> ('f intended_order list \<times> nat) result" where
  "quantize_orders num q flr [] = Inr ([], 0)"
| "quantize_orders num q flr (ord # orders) =
     bindR (apply_quantization num q (io_quantity ord)) (\<lambda>quantity.
       bindR (quantize_orders num q flr orders) (\<lambda>(kept, n).
         let rounded = ord\<lparr>io_quantity := quantity\<rparr>
         in if nm_le num quantity (zero_of num) \<or> under_floor num flr rounded then Inr (kept, n + 1)
            else Inr (rounded # kept, n)))"

record 'f sizing_options =
  so_mode :: sizing_mode
  so_drift_tolerance :: 'f
  so_min_weight_change :: 'f
  so_min_order_notional :: 'f
  so_quantization :: "share_quantization option"

definition sizing_min_weight_change :: "'f num_ops \<Rightarrow> 'f" where
  "sizing_min_weight_change num = nm_div num (nm_of_int num 1) (nm_of_int num 10)"

definition sizing_drift_tolerance :: "'f num_ops \<Rightarrow> 'f" where
  "sizing_drift_tolerance num = nm_div num (nm_of_int num 1) (nm_of_int num 20)"

definition sizing_min_order_notional :: "'f num_ops \<Rightarrow> 'f" where
  "sizing_min_order_notional num = nm_of_int num 1"

definition churns ::
  "'f num_ops \<Rightarrow> 'f \<Rightarrow> 'f \<Rightarrow> 'f option \<Rightarrow> 'f \<Rightarrow> bool" where
  "churns num target_weight held_qty prev_weight min_weight_change =
     (case prev_weight of
        None \<Rightarrow> False
      | Some prev \<Rightarrow> nm_lt num (nm_abs num (nm_sub num target_weight prev)) min_weight_change \<and>
          nm_lt num (zero_of num) held_qty = nm_lt num (zero_of num) target_weight)"

definition order_for ::
  "'f num_ops \<Rightarrow> 'f sizing_options \<Rightarrow> (string, 'f) dict \<Rightarrow> (string, 'f holding) dict \<Rightarrow> (string, 'f) dict \<Rightarrow> 'f \<Rightarrow>
   (string, 'f) dict \<Rightarrow> string \<Rightarrow> 'f intended_order option" where
  "order_for num opts target_weights holdings prices equity current_weights symbol =
     (let price = dict_get prices symbol (zero_of num)
      in if nm_le num price (zero_of num) then None
         else let target_weight = dict_get target_weights symbol (zero_of num);
                  held_qty = (case map_of holdings symbol of Some h \<Rightarrow> hd_quantity h | None \<Rightarrow> zero_of num)
              in if churns num target_weight held_qty (map_of current_weights symbol) (so_min_weight_change opts) then None
                 else size_one num symbol target_weight held_qty price equity (so_mode opts) (so_drift_tolerance opts))"

definition size_orders ::
  "'f num_ops \<Rightarrow> 'f sizing_options \<Rightarrow> (string, 'f) dict \<Rightarrow> (string, 'f holding) dict \<Rightarrow> (string, 'f) dict \<Rightarrow> 'f \<Rightarrow>
   (string, 'f) dict \<Rightarrow> 'f option \<Rightarrow> ('f intended_order list \<times> nat) result" where
  "size_orders num opts target_weights holdings prices equity current_weights free_cash =
     (let symbols = sort (remdups (keys target_weights @ keys holdings));
          orders = List.map_filter (order_for num opts target_weights holdings prices equity current_weights) symbols;
          sorted_orders = sort_key (\<lambda>ord. (io_side ord \<noteq> ''sell'', io_symbol ord)) orders;
          (kept, skips) = apply_notional_floor num sorted_orders (so_min_order_notional opts) free_cash
      in case so_quantization opts of
           None \<Rightarrow> Inr (kept, skips)
         | Some q \<Rightarrow> bindR (quantize_orders num q (so_min_order_notional opts) kept) (\<lambda>(rounded, n). Inr (rounded, skips + n)))"

section \<open>The shape of a batch\<close>

definition order_priced :: "'f num_ops \<Rightarrow> (string, 'f) dict \<Rightarrow> 'f intended_order \<Rightarrow> bool" where
  "order_priced num prices ord \<longleftrightarrow>
     io_price ord = dict_get prices (io_symbol ord) (zero_of num) \<and> \<not> nm_le num (io_price ord) (zero_of num) \<and>
     io_side ord \<in> {''buy'', ''sell''}"

definition order_tradable :: "'f num_ops \<Rightarrow> 'f \<Rightarrow> 'f intended_order \<Rightarrow> bool" where
  "order_tradable num flr ord \<longleftrightarrow> \<not> nm_le num (io_quantity ord) (zero_of num) \<and> \<not> under_floor num flr ord"

lemma order_for_spec:
  assumes "order_for num opts targets holdings prices equity current symbol = Some ord"
  shows "io_symbol ord = symbol" "order_priced num prices ord" "\<not> nm_le num (io_quantity ord) (zero_of num)"
  using assms
  by (auto simp: order_for_def size_one_def buy_order_def sell_order_def order_priced_def Let_def
      split: if_splits sizing_mode.splits)

lemma map_filter_mem: "y \<in> set (List.map_filter f xs) \<Longrightarrow> \<exists>x \<in> set xs. f x = Some y"
  by (auto simp: List.map_filter_def)

lemma distinct_map_filter:
  assumes "\<And>x y. f x = Some y \<Longrightarrow> g y = x" "distinct xs"
  shows "distinct (map g (List.map_filter f xs))"
  using assms(2)
proof (induction xs)
  case (Cons x xs)
  then show ?case using assms(1) by (cases "f x") (auto simp: List.map_filter_simps dest!: map_filter_mem)
qed (simp add: List.map_filter_simps)

definition sized :: "'f num_ops \<Rightarrow> 'f sizing_options \<Rightarrow> (string, 'f) dict \<Rightarrow> (string, 'f holding) dict \<Rightarrow> (string, 'f) dict \<Rightarrow> 'f \<Rightarrow>
   (string, 'f) dict \<Rightarrow> 'f intended_order list" where
  "sized num opts targets holdings prices equity current =
     sort_key (\<lambda>ord. (io_side ord \<noteq> ''sell'', io_symbol ord))
       (List.map_filter (order_for num opts targets holdings prices equity current) (sort (remdups (keys targets @ keys holdings))))"

lemma sized_mem:
  "ord \<in> set (sized num opts targets holdings prices equity current) \<Longrightarrow>
   order_for num opts targets holdings prices equity current (io_symbol ord) = Some ord \<and>
   io_symbol ord \<in> set (keys targets) \<union> set (keys holdings)"
  using order_for_spec(1) [of num opts targets holdings prices equity current]
  by (fastforce simp: sized_def dest!: map_filter_mem)

lemma distinct_sized: "distinct (map io_symbol (sized num opts targets holdings prices equity current))"
proof -
  let ?f = "order_for num opts targets holdings prices equity current"
  have "distinct (map io_symbol (List.map_filter ?f (sort (remdups (keys targets @ keys holdings)))))"
    by (rule distinct_map_filter) (auto dest: order_for_spec(1))
  then show ?thesis by (simp add: sized_def distinct_map)
qed

text \<open>
  What the floor and the rounding keep: a subsequence of the sells followed by the buys, with other
  quantities.
\<close>

abbreviation ticket :: "'f intended_order \<Rightarrow> string \<times> string \<times> 'f" where
  "ticket ord \<equiv> (io_symbol ord, io_side ord, io_price ord)"

definition sells_of :: "'f intended_order list \<Rightarrow> 'f intended_order list" where
  "sells_of orders = filter (\<lambda>ord. io_side ord \<noteq> ''buy'') orders"

definition buys_of :: "'f intended_order list \<Rightarrow> 'f intended_order list" where
  "buys_of orders = filter (\<lambda>ord. io_side ord = ''buy'') orders"

definition batch_of :: "'f num_ops \<Rightarrow> 'f \<Rightarrow> 'f intended_order list \<Rightarrow> 'f intended_order list \<Rightarrow> bool" where
  "batch_of num flr orders os \<longleftrightarrow>
     list_all (order_tradable num flr) os \<and> subseq (map ticket os) (map ticket (sells_of orders @ buys_of orders))"

lemma fit_buys_kept:
  assumes "fit_buys_to_budget num buys funds flr = (fitted, n)" "list_all (\<lambda>ord. io_side ord = ''buy'') buys"
  shows "list_all (order_tradable num flr) fitted" "subseq (map ticket fitted) (map ticket buys)"
proof -
  have side: "map ticket (map (\<lambda>ord. ord\<lparr>io_side := ''buy'', io_quantity := nm_mul num (io_quantity ord) k\<rparr>) buys) = map ticket buys" for k
    using assms(2) by (auto simp: list_all_iff)
  have "subseq (map ticket (filter P (map (\<lambda>ord. ord\<lparr>io_side := ''buy'', io_quantity := nm_mul num (io_quantity ord) k\<rparr>) buys)))
      (map ticket buys)" for P k
    by (subst side [of k, symmetric]) (intro subseq_map subseq_filter_left)
  then show "list_all (order_tradable num flr) fitted" "subseq (map ticket fitted) (map ticket buys)"
    using assms(1) unfolding fit_buys_to_budget_def Let_def
    by (auto simp: list_all_iff order_tradable_def split: if_splits)
qed

lemma notional_floor_cases:
  assumes "apply_notional_floor num orders flr cash = (os, n)"
  defines "kept \<equiv> filter (\<lambda>ord. \<not> under_floor num flr ord) orders"
  obtains fitted where "os = sells_of kept @ fitted"
    "fitted = buys_of kept \<or> (\<exists>funds k. fit_buys_to_budget num (buys_of kept) funds flr = (fitted, k))"
    "\<And>c. cash = Some c \<Longrightarrow> fitted = fst (fit_buys_to_budget num (buys_of kept)
        (nm_add num c (nm_sum num (map (order_notional num) (sells_of kept)))) flr)"
proof (cases cash)
  case None
  then show thesis
    using assms(1) that unfolding apply_notional_floor_def Let_def kept_def [symmetric] sells_of_def [symmetric] buys_of_def [symmetric]
    by (auto split: if_splits prod.splits)
next
  case (Some c)
  then show thesis
    using assms(1) that unfolding apply_notional_floor_def Let_def kept_def [symmetric] sells_of_def [symmetric] buys_of_def [symmetric]
    by (auto split: prod.splits)
qed

lemma subseq_sides:
  "subseq (sells_of (filter P orders)) (sells_of orders)" "subseq (buys_of (filter P orders)) (buys_of orders)"
  unfolding sells_of_def buys_of_def by (induction orders) auto

lemma batch_floor:
  assumes "apply_notional_floor num orders flr cash = (os, n)"
    "list_all (\<lambda>ord. \<not> nm_le num (io_quantity ord) (zero_of num)) orders"
  shows "batch_of num flr orders os"
proof -
  let ?kept = "filter (\<lambda>ord. \<not> under_floor num flr ord) orders"
  from notional_floor_cases [OF assms(1)] obtain fitted where os: "os = sells_of ?kept @ fitted"
    and fit: "fitted = buys_of ?kept \<or> (\<exists>funds k. fit_buys_to_budget num (buys_of ?kept) funds flr = (fitted, k))" by metis
  have trad: "list_all (order_tradable num flr) (buys_of ?kept)" "list_all (order_tradable num flr) (sells_of ?kept)"
    using assms(2) by (auto simp: list_all_iff order_tradable_def buys_of_def sells_of_def)
  have side: "list_all (\<lambda>ord. io_side ord = ''buy'') (buys_of ?kept)" by (simp add: buys_of_def list_all_iff)
  have "list_all (order_tradable num flr) fitted \<and> subseq (map ticket fitted) (map ticket (buys_of ?kept))"
    using fit trad(1) fit_buys_kept [OF _ side] by blast
  then show ?thesis
    using trad(2) subseq_map [OF subseq_sides(1) [of "\<lambda>ord. \<not> under_floor num flr ord" orders], of ticket]
      subseq_map [OF subseq_sides(2) [of "\<lambda>ord. \<not> under_floor num flr ord" orders], of ticket]
    by (auto simp: batch_of_def os intro: list_emb_append_mono subseq_order.trans)
qed

lemma quantize_batch:
  "quantize_orders num q flr orders = Inr (os, n) \<Longrightarrow>
   list_all (order_tradable num flr) os \<and> subseq (map ticket os) (map ticket orders)"
proof (induction orders arbitrary: os n)
  case (Cons ord orders)
  then show ?case
    by (auto simp: result_simps order_tradable_def Let_def split: if_splits)
qed simp

lemma size_orders_batch:
  assumes "size_orders num opts targets holdings prices equity current cash = Inr (os, n)"
  shows "batch_of num (so_min_order_notional opts) (sized num opts targets holdings prices equity current) os"
proof -
  let ?orders = "sized num opts targets holdings prices equity current"
  obtain kept k where fl: "apply_notional_floor num ?orders (so_min_order_notional opts) cash = (kept, k)" by fastforce
  have "list_all (\<lambda>ord. \<not> nm_le num (io_quantity ord) (zero_of num)) ?orders"
    using sized_mem order_for_spec(3) by (fastforce simp: list_all_iff)
  from batch_floor [OF fl this] have b: "batch_of num (so_min_order_notional opts) ?orders kept" .
  show ?thesis
  proof (cases "so_quantization opts")
    case None
    then show ?thesis using assms b fl by (simp add: size_orders_def sized_def)
  next
    case (Some q)
    then obtain j where "quantize_orders num q (so_min_order_notional opts) kept = Inr (os, j)"
      using assms fl by (auto simp: size_orders_def sized_def result_simps)
    from quantize_batch [OF this] b show ?thesis by (auto simp: batch_of_def intro: subseq_order.trans)
  qed
qed

lemma distinct_subseq: "subseq xs ys \<Longrightarrow> distinct ys \<Longrightarrow> distinct xs"
  by (auto simp: subseq_conv_nths)

lemma set_subseq: "subseq xs ys \<Longrightarrow> x \<in> set xs \<Longrightarrow> x \<in> set ys"
  using set_nths_subset by (fastforce simp: subseq_conv_nths)

lemma sides_split:
  assumes "subseq (map ticket os) (map ticket (sells_of orders) @ map ticket (buys_of orders))"
  shows "os = sells_of os @ buys_of os"
proof -
  obtain ss bs where sb: "map ticket os = ss @ bs" "subseq ss (map ticket (sells_of orders))" "subseq bs (map ticket (buys_of orders))"
    using assms by (auto simp: subseq_append_iff)
  then obtain ss' bs' where os: "os = ss' @ bs'" "map ticket ss' = ss" "map ticket bs' = bs"
    by (auto simp: map_eq_append_conv)
  have "io_side ord \<noteq> ''buy''" if "ord \<in> set ss'" for ord
  proof -
    have "ticket ord \<in> set ss" using that unfolding os(2) [symmetric] by simp
    from set_subseq [OF sb(2) this] show ?thesis by (auto simp: sells_of_def)
  qed
  moreover have "io_side ord = ''buy''" if "ord \<in> set bs'" for ord
  proof -
    have "ticket ord \<in> set bs" using that unfolding os(3) [symmetric] by simp
    from set_subseq [OF sb(3) this] show ?thesis by (auto simp: buys_of_def)
  qed
  ultimately show ?thesis by (simp add: os(1) sells_of_def buys_of_def filter_id_conv filter_empty_conv)
qed

lemma size_orders_shape:
  assumes "size_orders num opts targets holdings prices equity current cash = Inr (os, n)"
  shows "os = sells_of os @ buys_of os" "distinct (map io_symbol os)"
    "list_all (order_tradable num (so_min_order_notional opts)) os" "list_all (order_priced num prices) os"
    "io_symbol ` set os \<subseteq> set (keys targets) \<union> set (keys holdings)"
proof -
  let ?orders = "sized num opts targets holdings prices equity current"
  have b: "list_all (order_tradable num (so_min_order_notional opts)) os"
      "subseq (map ticket os) (map ticket (sells_of ?orders @ buys_of ?orders))"
    using size_orders_batch [OF assms] by (simp_all add: batch_of_def)
  show "list_all (order_tradable num (so_min_order_notional opts)) os" by (rule b(1))
  have mem: "order_priced num prices ord \<and> io_symbol ord \<in> set (keys targets) \<union> set (keys holdings)" if ord: "ord \<in> set os" for ord
  proof -
    obtain orig where orig: "orig \<in> set ?orders" "ticket ord = ticket orig"
      using set_subseq [OF b(2), of "ticket ord"] ord by (auto simp: sells_of_def buys_of_def)
    from sized_mem [OF orig(1)] have "order_priced num prices orig" by (auto intro: order_for_spec(2))
    then show ?thesis using orig(2) sized_mem [OF orig(1)] by (auto simp: order_priced_def)
  qed
  then show "list_all (order_priced num prices) os" "io_symbol ` set os \<subseteq> set (keys targets) \<union> set (keys holdings)"
    by (auto simp: list_all_iff)
  have "distinct (map fst (map ticket (sells_of ?orders @ buys_of ?orders)))"
    using distinct_sized [of num opts targets holdings prices equity current]
    by (auto simp: sells_of_def buys_of_def comp_def distinct_map inj_on_def)
  then show "distinct (map io_symbol os)"
    using subseq_map [OF b(2), of fst] distinct_subseq by (fastforce simp: comp_def)
  show "os = sells_of os @ buys_of os"
    using sides_split [of os ?orders] b(2) by simp
qed

section \<open>Exact arithmetic: the batch is affordable\<close>

definition positive :: "real option \<Rightarrow> bool" where
  "positive x \<longleftrightarrow> (\<exists>r. x = Some r \<and> 0 < r)"

lemma drift_buy_positive:
  assumes "order_for (exact_num base) opts targets holdings prices equity current symbol = Some ord"
    "so_mode opts = DRIFT" "io_side ord = ''buy''"
  shows "positive (io_quantity ord) \<and> positive (io_price ord)"
proof -
  let ?num = "exact_num base"
  define price where "price = dict_get prices symbol (Some 0)"
  define held where "held = (case map_of holdings symbol of Some h \<Rightarrow> hd_quantity h | None \<Rightarrow> Some 0)"
  define delta where "delta = lift2 (-) (lift2 (*) equity (exact_div (dict_get targets symbol (Some 0)) (Some 100))) (lift2 (*) held price)"
  have "\<not> lift_rel (\<le>) price (Some 0)" "lift_rel (<) (Some 0) delta" "io_quantity ord = exact_div delta price" "io_price ord = price"
    using assms unfolding order_for_def size_one_def buy_order_def sell_order_def Let_def exact_num_simps of_int_0 of_int_numeral
      price_def [symmetric] held_def [symmetric]
    by (auto simp: delta_def split: if_splits)
  moreover obtain d where d: "delta = Some d" "0 < d" using calculation(2) by (cases delta) auto
  moreover obtain p where "price = Some p" using d(1) by (cases price) (auto simp: delta_def elim: lift2.elims)
  ultimately show ?thesis by (auto simp: positive_def)
qed

lemma exact_sum_positive:
  "list_all positive xs \<Longrightarrow> exact_sum xs = Some (sum_list (map the xs)) \<and> 0 \<le> sum_list (map the xs)"
  by (induction xs) (auto simp: exact_sum_def positive_def)

lemma fit_buys_exact:
  assumes "list_all (\<lambda>ord. positive (io_quantity ord) \<and> positive (io_price ord)) buys"
    "fit_buys_to_budget (exact_num base) buys funds flr = (fitted, n)"
  shows "fitted = [] \<or> (\<exists>c b. funds = Some c \<and> exact_sum (map (order_notional (exact_num base)) fitted) = Some b \<and> b \<le> c)"
proof (cases "buys = []")
  case True
  then show ?thesis using assms(2) by (simp add: fit_buys_to_budget_def exact_sum_def)
next
  case False
  let ?num = "exact_num base"
  let ?cost = "order_notional ?num"
  have pos: "list_all positive (map ?cost buys)"
    using assms(1) by (auto simp: list_all_iff order_notional_def positive_def)
  define t where "t = sum_list (map the (map ?cost buys))"
  have t: "exact_sum (map ?cost buys) = Some t" "0 < t"
  proof -
    show "exact_sum (map ?cost buys) = Some t" using exact_sum_positive [OF pos] by (simp add: t_def)
    obtain x xs where "buys = x # xs" using False by (cases buys) auto
    then show "0 < t" using pos exact_sum_positive [of "map ?cost xs"] by (auto simp: t_def positive_def)
  qed
  define scale where "scale = (if lift_rel (<) (Some 0) funds then smaller ?num (Some 1) (exact_div funds (Some t)) else Some 0)"
  define trimmed where "trimmed = map (\<lambda>ord. ord\<lparr>io_side := ''buy'', io_quantity := lift2 (*) (io_quantity ord) scale\<rparr>) buys"
  define dropped where "dropped = (\<lambda>ord. lift_rel (\<le>) (io_quantity ord) (Some 0) \<or> under_floor ?num flr ord)"
  have fitted: "fitted = filter (\<lambda>ord. \<not> dropped ord) trimmed"
    using assms(2) t(2) unfolding fit_buys_to_budget_def Let_def exact_num_simps t(1) of_int_0 of_int_1 scale_def trimmed_def dropped_def
    by simp
  show ?thesis
  proof (cases "lift_rel (<) (Some 0) funds")
    case False
    then have "lift_rel (\<le>) (io_quantity ord) (Some 0)" if "ord \<in> set trimmed" for ord
      using that assms(1) by (auto simp: trimmed_def scale_def list_all_iff positive_def)
    then show ?thesis by (auto simp: fitted dropped_def filter_empty_conv)
  next
    case True
    then obtain c where c: "funds = Some c" "0 < c" by (cases funds) auto
    define k where "k = min 1 (c / t)"
    have scale: "scale = Some k" "0 < k" "k * t \<le> c"
      using c t(2) by (auto simp: scale_def smaller_def k_def min_def field_simps)
    have trims: "map ?cost trimmed = map (\<lambda>x. Some (k * the x)) (map ?cost buys)"
      using assms(1) by (auto simp: trimmed_def scale(1) order_notional_def list_all_iff positive_def)
    have pos': "list_all positive (map ?cost trimmed)"
      using pos scale(2) unfolding trims by (auto simp: list_all_iff positive_def)
    then have kept: "list_all positive (map ?cost fitted)" by (auto simp: fitted list_all_iff)
    have "sum_list (map the (map ?cost trimmed)) = k * t"
      unfolding trims t_def by (simp add: sum_list_const_mult comp_def)
    moreover have "sum_list (map (the \<circ> ?cost) fitted) \<le> sum_list (map (the \<circ> ?cost) trimmed)"
      using pos' unfolding fitted by (induction trimmed) (auto simp: positive_def)
    ultimately show ?thesis using exact_sum_positive [OF kept] scale(3) c(1) by simp
  qed
qed

lemma size_orders_affordable:
  assumes "size_orders (exact_num base) opts targets holdings prices equity current (Some cash) = Inr (os, n)"
    "so_mode opts = DRIFT" "so_quantization opts = None"
  shows "buys_of os = [] \<or> (\<exists>c s b. cash = Some c \<and> exact_sum (map (order_notional (exact_num base)) (sells_of os)) = Some s \<and>
    exact_sum (map (order_notional (exact_num base)) (buys_of os)) = Some b \<and> b \<le> c + s)"
proof -
  let ?num = "exact_num base"
  let ?orders = "sized ?num opts targets holdings prices equity current"
  let ?kept = "filter (\<lambda>ord. \<not> under_floor ?num (so_min_order_notional opts) ord) ?orders"
  have fl: "apply_notional_floor ?num ?orders (so_min_order_notional opts) (Some cash) = (os, n)"
    using assms by (simp add: size_orders_def sized_def split: prod.splits)
  obtain fitted where os: "os = sells_of ?kept @ fitted"
    and fit: "fitted = fst (fit_buys_to_budget ?num (buys_of ?kept)
        (nm_add ?num cash (nm_sum ?num (map (order_notional ?num) (sells_of ?kept)))) (so_min_order_notional opts))"
    using notional_floor_cases [OF fl] by metis
  have pos: "list_all (\<lambda>ord. positive (io_quantity ord) \<and> positive (io_price ord)) (buys_of ?kept)"
    using sized_mem drift_buy_positive [OF _ assms(2)] by (fastforce simp: list_all_iff buys_of_def)
  have side: "list_all (\<lambda>ord. io_side ord = ''buy'') (buys_of ?kept)" by (simp add: buys_of_def list_all_iff)
  obtain m where m: "fit_buys_to_budget ?num (buys_of ?kept)
        (nm_add ?num cash (nm_sum ?num (map (order_notional ?num) (sells_of ?kept)))) (so_min_order_notional opts) = (fitted, m)"
    using fit by (metis prod.collapse)
  have "buys_of os = fitted" "sells_of os = sells_of ?kept"
  proof -
    have "io_side ord = ''buy''" if "ord \<in> set fitted" for ord
      using set_subseq [OF fit_buys_kept(2) [OF m side], of "ticket ord"] that by (auto simp: buys_of_def)
    then show "buys_of os = fitted" "sells_of os = sells_of ?kept"
      by (auto simp: os buys_of_def sells_of_def filter_id_conv filter_empty_conv)
  qed
  with fit_buys_exact [OF pos m] show ?thesis
    by (cases cash; cases "exact_sum (map (order_notional ?num) (sells_of ?kept))") auto
qed

end
