(* ===== verification/Runtime_Book.thy ===== *)
theory Runtime_Book
  imports Runtime_Orders
begin

text \<open>
  The simulated book of record and its fill engine (\<^verbatim>\<open>libs/runtime/llamatrade_runtime\<close>:
  \<^verbatim>\<open>models.py\<close>, \<^verbatim>\<open>portfolio.py\<close>, \<^verbatim>\<open>execution.py\<close>). The reason texts of rejections are left out.

  In exact arithmetic, whatever orders are executed: a buy never overdraws the cash, and the books
  balance (\<open>accounts\<close>): cash and the cost basis of the open positions equal the initial capital and the
  profit of the closed trades. A NaN that reaches the cash stays there; the statements are about
  books whose cash is a number.
\<close>

section \<open>Values\<close>

record 'f fill =
  fi_date :: int
  fi_symbol :: string
  fi_side :: string
  fi_price :: 'f
  fi_quantity :: 'f
  fi_commission :: 'f

record 'f trade =
  tr_entry_date :: int
  tr_exit_date :: int
  tr_symbol :: string
  tr_side :: string
  tr_entry_price :: 'f
  tr_exit_price :: 'f
  tr_quantity :: 'f
  tr_commission :: 'f

definition trade_pnl :: "'f num_ops \<Rightarrow> 'f trade \<Rightarrow> 'f" where
  "trade_pnl num t =
     nm_sub num (nm_mul num (nm_sub num (tr_exit_price t) (tr_entry_price t)) (tr_quantity t)) (tr_commission t)"

definition trade_pnl_percent :: "'f num_ops \<Rightarrow> 'f trade \<Rightarrow> 'f" where
  "trade_pnl_percent num t =
     (let denominator = nm_mul num (tr_entry_price t) (tr_quantity t)
      in if nm_eq num denominator (zero_of num) then zero_of num
         else nm_mul num (nm_div num (trade_pnl num t) denominator) (nm_of_int num 100))"

record 'f position =
  po_symbol :: string
  po_side :: string
  po_entry_price :: 'f
  po_quantity :: 'f
  po_entry_date :: int
  po_entry_commission_remaining :: 'f

record 'f rejected_signal =
  rj_date :: int
  rj_symbol :: string
  rj_signal_type :: string
  rj_quantity :: 'f
  rj_price :: 'f

record 'f exec_outcome =
  oc_fill :: "'f fill option"
  oc_trade :: "'f trade option"
  oc_rejected :: "'f rejected_signal option"

record 'f portfolio =
  pf_initial_capital :: 'f
  pf_cash :: 'f
  pf_positions :: "(string, 'f position) dict"
  pf_trades :: "'f trade list"
  pf_last_prices :: "(string, 'f) dict"

section \<open>The book\<close>

definition new_portfolio :: "'f \<Rightarrow> 'f portfolio" where
  "new_portfolio capital = \<lparr>pf_initial_capital = capital, pf_cash = capital, pf_positions = [], pf_trades = [], pf_last_prices = []\<rparr>"

definition update_prices :: "'f portfolio \<Rightarrow> (string, 'f) dict \<Rightarrow> 'f portfolio" where
  "update_prices pf prices = pf\<lparr>pf_last_prices := update_all_keys (pf_last_prices pf) prices\<rparr>"

definition last_price :: "'f portfolio \<Rightarrow> string \<Rightarrow> 'f option" where
  "last_price pf symbol = map_of (pf_last_prices pf) symbol"

definition pf_equity :: "'f num_ops \<Rightarrow> 'f portfolio \<Rightarrow> 'f" where
  "pf_equity num pf =
     foldl (\<lambda>equity (symbol, pos). nm_add num equity (nm_mul num (po_quantity pos)
       (dict_get (pf_last_prices pf) symbol (po_entry_price pos)))) (pf_cash pf) (pf_positions pf)"

definition pf_holdings :: "'f num_ops \<Rightarrow> 'f portfolio \<Rightarrow> (string, 'f holding) dict" where
  "pf_holdings num pf =
     map (\<lambda>(symbol, pos). (symbol, \<lparr>hd_symbol = symbol, hd_quantity = po_quantity pos\<rparr>))
       (filter (\<lambda>(symbol, pos). nm_lt num (zero_of num) (po_quantity pos)) (pf_positions pf))"

definition no_outcome :: "'f exec_outcome" where
  "no_outcome = \<lparr>oc_fill = None, oc_trade = None, oc_rejected = None\<rparr>"

definition pf_open ::
  "'f num_ops \<Rightarrow> 'f portfolio \<Rightarrow> int \<Rightarrow> string \<Rightarrow> 'f \<Rightarrow> 'f \<Rightarrow> 'f \<Rightarrow> 'f portfolio \<times> 'f exec_outcome" where
  "pf_open num pf date symbol price quantity commission =
     (let fill_qty = affordable_quantity num quantity price (pf_cash pf) commission
      in if nm_le num fill_qty (zero_of num)
         then (pf, no_outcome\<lparr>oc_rejected := Some \<lparr>rj_date = date, rj_symbol = symbol, rj_signal_type = ''buy'',
                 rj_quantity = quantity, rj_price = price\<rparr>\<rparr>)
         else let cost = nm_mul num price fill_qty;
                  pos = (case map_of (pf_positions pf) symbol of
                           Some existing \<Rightarrow>
                             let total_quantity = nm_add num (po_quantity existing) fill_qty
                             in existing\<lparr>po_entry_price := nm_div num (nm_add num (nm_mul num (po_entry_price existing) (po_quantity existing))
                                    (nm_mul num price fill_qty)) total_quantity,
                                  po_quantity := total_quantity,
                                  po_entry_commission_remaining := nm_add num (po_entry_commission_remaining existing) commission\<rparr>
                         | None \<Rightarrow> \<lparr>po_symbol = symbol, po_side = ''long'', po_entry_price = price, po_quantity = fill_qty,
                             po_entry_date = date, po_entry_commission_remaining = commission\<rparr>)
              in (pf\<lparr>pf_cash := nm_sub num (pf_cash pf) (nm_add num cost commission),
                     pf_positions := AList.update symbol pos (pf_positions pf)\<rparr>,
                  no_outcome\<lparr>oc_fill := Some \<lparr>fi_date = date, fi_symbol = symbol, fi_side = ''buy'', fi_price = price,
                     fi_quantity = fill_qty, fi_commission = commission\<rparr>\<rparr>))"

definition pf_close ::
  "'f num_ops \<Rightarrow> 'f portfolio \<Rightarrow> int \<Rightarrow> string \<Rightarrow> 'f \<Rightarrow> 'f option \<Rightarrow> 'f \<Rightarrow> 'f portfolio \<times> 'f exec_outcome" where
  "pf_close num pf date symbol price quantity commission =
     (case map_of (pf_positions pf) symbol of
        None \<Rightarrow> (pf, no_outcome\<lparr>oc_rejected := Some \<lparr>rj_date = date, rj_symbol = symbol, rj_signal_type = ''sell'',
                   rj_quantity = (case quantity of None \<Rightarrow> zero_of num | Some q \<Rightarrow> if nm_eq num q (zero_of num) then zero_of num else q),
                   rj_price = price\<rparr>\<rparr>)
      | Some pos \<Rightarrow>
          let sell_quantity = (case quantity of None \<Rightarrow> po_quantity pos | Some q \<Rightarrow> smaller num q (po_quantity pos))
          in if nm_le num sell_quantity (zero_of num) then (pf, no_outcome)
             else let all_sold = nm_le num (po_quantity pos) sell_quantity;
                      entry_commission_alloc =
                        (if all_sold then po_entry_commission_remaining pos
                         else nm_mul num (po_entry_commission_remaining pos) (nm_div num sell_quantity (po_quantity pos)));
                      trade = \<lparr>tr_entry_date = po_entry_date pos, tr_exit_date = date, tr_symbol = symbol, tr_side = po_side pos,
                               tr_entry_price = po_entry_price pos, tr_exit_price = price, tr_quantity = sell_quantity,
                               tr_commission = nm_add num entry_commission_alloc commission\<rparr>
                  in (pf\<lparr>pf_trades := pf_trades pf @ [trade],
                         pf_cash := nm_add num (pf_cash pf) (nm_sub num (nm_mul num price sell_quantity) commission),
                         pf_positions :=
                           (if all_sold then AList.delete symbol (pf_positions pf)
                            else AList.update symbol (pos\<lparr>
                              po_entry_commission_remaining := nm_sub num (po_entry_commission_remaining pos) entry_commission_alloc,
                              po_quantity := nm_sub num (po_quantity pos) sell_quantity\<rparr>) (pf_positions pf))\<rparr>,
                      no_outcome\<lparr>oc_fill := Some \<lparr>fi_date = date, fi_symbol = symbol, fi_side = ''sell'', fi_price = price,
                         fi_quantity = sell_quantity, fi_commission = commission\<rparr>, oc_trade := Some trade\<rparr>))"

section \<open>The fill engine\<close>

record 'f execution =
  ex_commission_rate :: 'f
  ex_slippage_rate :: 'f

definition execute_order ::
  "'f num_ops \<Rightarrow> 'f execution \<Rightarrow> 'f intended_order \<Rightarrow> 'f bar \<Rightarrow> 'f portfolio \<Rightarrow> int \<Rightarrow> 'f portfolio \<times> 'f exec_outcome" where
  "execute_order num ex ord b pf date =
     (let one = nm_of_int num 1; rate = ex_slippage_rate ex;
          price = (if nm_lt num (zero_of num) rate
                   then if io_side ord = ''buy'' then nm_mul num (bar_close b) (nm_add num one rate)
                        else if io_side ord = ''sell'' then nm_mul num (bar_close b) (nm_sub num one rate)
                        else bar_close b
                   else bar_close b)
      in if io_side ord = ''buy''
         then pf_open num pf date (io_symbol ord) price (io_quantity ord) (ex_commission_rate ex)
         else if io_side ord = ''sell''
         then pf_close num pf date (io_symbol ord) price
                (if nm_lt num (zero_of num) (io_quantity ord) then Some (io_quantity ord) else None) (ex_commission_rate ex)
         else (pf, no_outcome\<lparr>oc_rejected := Some \<lparr>rj_date = date, rj_symbol = io_symbol ord, rj_signal_type = io_side ord,
                rj_quantity = io_quantity ord, rj_price = price\<rparr>\<rparr>))"

definition liquidate_one ::
  "'f num_ops \<Rightarrow> 'f execution \<Rightarrow> int \<Rightarrow> 'f portfolio \<Rightarrow> string \<Rightarrow> 'f portfolio \<times> 'f exec_outcome" where
  "liquidate_one num ex date pf symbol =
     (let unpriced = (pf, no_outcome\<lparr>oc_rejected := Some \<lparr>rj_date = date, rj_symbol = symbol, rj_signal_type = ''close'',
            rj_quantity = (case map_of (pf_positions pf) symbol of Some pos \<Rightarrow> po_quantity pos | None \<Rightarrow> zero_of num),
            rj_price = zero_of num\<rparr>\<rparr>)
      in case last_price pf symbol of
           None \<Rightarrow> unpriced
         | Some price \<Rightarrow> if nm_eq num price (zero_of num) then unpriced
             else pf_close num pf date symbol price None (ex_commission_rate ex))"

fun liquidate_symbols ::
  "'f num_ops \<Rightarrow> 'f execution \<Rightarrow> int \<Rightarrow> string list \<Rightarrow> 'f portfolio \<Rightarrow> 'f portfolio \<times> 'f exec_outcome list" where
  "liquidate_symbols num ex date [] pf = (pf, [])"
| "liquidate_symbols num ex date (symbol # symbols) pf =
     (case liquidate_one num ex date pf symbol of (pf1, oc) \<Rightarrow>
      case liquidate_symbols num ex date symbols pf1 of (pf2, ocs) \<Rightarrow> (pf2, oc # ocs))"

definition liquidate :: "'f num_ops \<Rightarrow> 'f execution \<Rightarrow> 'f portfolio \<Rightarrow> int \<Rightarrow> 'f portfolio \<times> 'f exec_outcome list" where
  "liquidate num ex pf date = liquidate_symbols num ex date (keys (pf_positions pf)) pf"

section \<open>The books balance\<close>

lemma lift2_Some: "lift2 f x y = Some z \<longleftrightarrow> (\<exists>a b. x = Some a \<and> y = Some b \<and> z = f a b)"
  by (cases "(f, x, y)" rule: lift2.cases) auto

lemma lift2_None: "lift2 f x y = None \<longleftrightarrow> x = None \<or> y = None"
  by (cases "(f, x, y)" rule: lift2.cases) auto

lemma exact_div_Some: "exact_div x y = Some z \<longleftrightarrow> (\<exists>a b. x = Some a \<and> y = Some b \<and> b \<noteq> 0 \<and> z = a / b)"
  by (cases "(x, y)" rule: exact_div.cases) auto

lemmas exact_Some = lift2_Some exact_div_Some

definition real_position :: "real option position \<Rightarrow> bool" where
  "real_position pos \<longleftrightarrow> (\<exists>e q m. po_entry_price pos = Some e \<and> po_quantity pos = Some q \<and> 0 < q \<and> po_entry_commission_remaining pos = Some m)"

definition cost_basis :: "real option position \<Rightarrow> real" where
  "cost_basis pos = the (po_entry_price pos) * the (po_quantity pos) + the (po_entry_commission_remaining pos)"

definition accounts :: "real option num_ops \<Rightarrow> real \<Rightarrow> real option portfolio \<Rightarrow> bool" where
  "accounts base capital pf \<longleftrightarrow> wf_dict (pf_positions pf) \<and>
     (\<forall>c. pf_cash pf = Some c \<longrightarrow>
        list_all real_position (vals (pf_positions pf)) \<and> list_all (\<lambda>t. trade_pnl (exact_num base) t \<noteq> None) (pf_trades pf) \<and>
        c + sum_vals cost_basis (pf_positions pf) = capital + sum_list (map (\<lambda>t. the (trade_pnl (exact_num base) t)) (pf_trades pf)))"

lemma list_all_update: "list_all P (vals d) \<Longrightarrow> P v \<Longrightarrow> list_all P (vals (AList.update k v d))"
  by (induction d) auto

lemma list_all_delete: "list_all P (vals d) \<Longrightarrow> list_all P (vals (AList.delete k d))"
  by (auto simp: list_all_iff AList.delete_eq)

lemma list_all_map_of: "list_all P (vals d) \<Longrightarrow> map_of d k = Some v \<Longrightarrow> P v"
  by (induction d) (auto split: if_splits)

lemma accounts_open:
  assumes acc: "accounts base capital pf"
  shows "accounts base capital (fst (pf_open (exact_num base) pf date symbol price quantity commission))"
proof -
  let ?num = "exact_num base" and ?d = "pf_positions pf"
  define fq where "fq = affordable_quantity ?num quantity price (pf_cash pf) commission"
  note open_eq = pf_open_def [of ?num pf date symbol price quantity commission, folded fq_def, unfolded Let_def exact_num_simps of_int_0]
  show ?thesis
  proof (cases "lift_rel (\<le>) fq (Some 0)")
    case True
    then show ?thesis using acc by (simp add: open_eq)
  next
    case False
    define pos where "pos = (case map_of ?d symbol of
        Some existing \<Rightarrow> existing\<lparr>po_entry_price := exact_div (lift2 (+) (lift2 (*) (po_entry_price existing) (po_quantity existing))
              (lift2 (*) price fq)) (lift2 (+) (po_quantity existing) fq),
            po_quantity := lift2 (+) (po_quantity existing) fq,
            po_entry_commission_remaining := lift2 (+) (po_entry_commission_remaining existing) commission\<rparr>
      | None \<Rightarrow> \<lparr>po_symbol = symbol, po_side = ''long'', po_entry_price = price, po_quantity = fq,
            po_entry_date = date, po_entry_commission_remaining = commission\<rparr>)"
    define pf1 where "pf1 = fst (pf_open ?num pf date symbol price quantity commission)"
    have pf1: "pf_cash pf1 = lift2 (-) (pf_cash pf) (lift2 (+) (lift2 (*) price fq) commission)"
      "pf_positions pf1 = AList.update symbol pos ?d" "pf_trades pf1 = pf_trades pf"
      using False by (simp_all add: pf1_def open_eq pos_def)
    have wf: "wf_dict ?d" using acc by (simp add: accounts_def)
    show ?thesis unfolding pf1_def [symmetric] accounts_def
    proof (intro conjI allI impI)
      show "wf_dict (pf_positions pf1)" using wf by (simp add: pf1)
      fix c' assume "pf_cash pf1 = Some c'"
      then obtain c p f m where num: "pf_cash pf = Some c" "price = Some p" "fq = Some f" "commission = Some m" "c' = c - (p * f + m)"
        unfolding pf1 by (auto simp: lift2_Some)
      have f: "0 < f" using False num(3) by simp
      have old: "list_all real_position (vals ?d)" "list_all (\<lambda>t. trade_pnl ?num t \<noteq> None) (pf_trades pf)"
        "c + sum_vals cost_basis ?d = capital + sum_list (map (\<lambda>t. the (trade_pnl ?num t)) (pf_trades pf))"
        using acc num(1) by (simp_all add: accounts_def)
      have new: "real_position pos \<and> cost_basis pos = p * f + m + (case map_of ?d symbol of None \<Rightarrow> 0 | Some u \<Rightarrow> cost_basis u)"
      proof (cases "map_of ?d symbol")
        case None
        then show ?thesis using f num by (simp add: pos_def real_position_def cost_basis_def)
      next
        case (Some u)
        then obtain e q k where u: "po_entry_price u = Some e" "po_quantity u = Some q" "0 < q" "po_entry_commission_remaining u = Some k"
          using list_all_map_of [OF old(1) Some] by (auto simp: real_position_def)
        have "q + f \<noteq> 0" "0 < q + f" using u(3) f by simp_all
        then show ?thesis using Some u num by (simp add: pos_def real_position_def cost_basis_def)
      qed
      show "list_all real_position (vals (pf_positions pf1))" using old(1) new by (simp add: pf1 list_all_update)
      show "list_all (\<lambda>t. trade_pnl ?num t \<noteq> None) (pf_trades pf1)" using old(2) by (simp add: pf1)
      show "c' + sum_vals cost_basis (pf_positions pf1) = capital + sum_list (map (\<lambda>t. the (trade_pnl ?num t)) (pf_trades pf1))"
        using old(3) new num(5) by (simp add: pf1 sum_vals_update)
    qed
  qed
qed

lemma accounts_close:
  assumes acc: "accounts base capital pf"
  shows "accounts base capital (fst (pf_close (exact_num base) pf date symbol price quantity commission))"
proof (cases "map_of (pf_positions pf) symbol")
  case None
  then show ?thesis using acc by (simp add: pf_close_def)
next
  case (Some pos)
  let ?num = "exact_num base" and ?d = "pf_positions pf"
  define sq where "sq = (case quantity of None \<Rightarrow> po_quantity pos | Some q \<Rightarrow> smaller ?num q (po_quantity pos))"
  define all_sold where "all_sold = lift_rel (\<le>) (po_quantity pos) sq"
  define alloc where "alloc = (if all_sold then po_entry_commission_remaining pos
    else lift2 (*) (po_entry_commission_remaining pos) (exact_div sq (po_quantity pos)))"
  define trade where "trade = \<lparr>tr_entry_date = po_entry_date pos, tr_exit_date = date, tr_symbol = symbol, tr_side = po_side pos,
    tr_entry_price = po_entry_price pos, tr_exit_price = price, tr_quantity = sq, tr_commission = lift2 (+) alloc commission\<rparr>"
  define pf1 where "pf1 = fst (pf_close ?num pf date symbol price quantity commission)"
  note close_eq = pf_close_def [of ?num pf date symbol price quantity commission, unfolded Let_def exact_num_simps of_int_0]
  show ?thesis
  proof (cases "lift_rel (\<le>) sq (Some 0)")
    case True
    then show ?thesis using acc Some by (simp add: close_eq sq_def)
  next
    case False
    have pf1: "pf_cash pf1 = lift2 (+) (pf_cash pf) (lift2 (-) (lift2 (*) price sq) commission)"
      "pf_trades pf1 = pf_trades pf @ [trade]"
      "pf_positions pf1 = (if all_sold then AList.delete symbol ?d else AList.update symbol (pos\<lparr>
         po_entry_commission_remaining := lift2 (-) (po_entry_commission_remaining pos) alloc,
         po_quantity := lift2 (-) (po_quantity pos) sq\<rparr>) ?d)"
      using False Some unfolding pf1_def close_eq Some option.case sq_def [symmetric] all_sold_def [symmetric] alloc_def [symmetric]
      by (simp_all add: trade_def)
    have wf: "wf_dict ?d" using acc by (simp add: accounts_def)
    show ?thesis unfolding pf1_def [symmetric] accounts_def
    proof (intro conjI allI impI)
      show "wf_dict (pf_positions pf1)" using wf by (simp add: pf1)
      fix c' assume "pf_cash pf1 = Some c'"
      then obtain c p f m where num: "pf_cash pf = Some c" "price = Some p" "sq = Some f" "commission = Some m" "c' = c + (p * f - m)"
        unfolding pf1 by (auto simp: lift2_Some)
      have old: "list_all real_position (vals ?d)" "list_all (\<lambda>t. trade_pnl ?num t \<noteq> None) (pf_trades pf)"
        "c + sum_vals cost_basis ?d = capital + sum_list (map (\<lambda>t. the (trade_pnl ?num t)) (pf_trades pf))"
        using acc num(1) by (simp_all add: accounts_def)
      obtain e q k where u: "po_entry_price pos = Some e" "po_quantity pos = Some q" "0 < q" "po_entry_commission_remaining pos = Some k"
        using list_all_map_of [OF old(1) Some] by (auto simp: real_position_def)
      have f: "0 < f" "f \<le> q" using False num(3) u(2,3) by (auto simp: sq_def smaller_def split: option.splits if_splits)
      have sold: "all_sold \<longleftrightarrow> q \<le> f" by (simp add: all_sold_def u num)
      define a where "a = (if all_sold then k else k * (f / q))"
      have alloc: "alloc = Some a" using u num by (simp add: alloc_def a_def)
      have pnl: "trade_pnl ?num trade = Some ((p - e) * f - (a + m))" by (simp add: trade_pnl_def trade_def u num alloc)
      show "list_all real_position (vals (pf_positions pf1))"
        using old(1) f sold u num alloc
        by (auto simp: pf1 list_all_delete real_position_def intro!: list_all_update)
      show "list_all (\<lambda>t. trade_pnl ?num t \<noteq> None) (pf_trades pf1)" using old(2) pnl by (simp add: pf1)
      have "sum_vals cost_basis (pf_positions pf1) = sum_vals cost_basis ?d - (e * f + a)"
        using wf Some u num alloc f sold
        by (simp add: pf1 sum_vals_delete sum_vals_update cost_basis_def a_def algebra_simps)
      then show "c' + sum_vals cost_basis (pf_positions pf1) = capital + sum_list (map (\<lambda>t. the (trade_pnl ?num t)) (pf_trades pf1))"
        using old(3) pnl num(5) by (simp add: pf1 algebra_simps)
    qed
  qed
qed

lemma accounts_execute:
  "accounts base capital pf \<Longrightarrow> accounts base capital (fst (execute_order (exact_num base) ex ord b pf date))"
  by (simp add: execute_order_def Let_def accounts_open accounts_close)

lemma accounts_liquidate_one:
  "accounts base capital pf \<Longrightarrow> accounts base capital (fst (liquidate_one (exact_num base) ex date pf symbol))"
  by (simp add: liquidate_one_def Let_def accounts_close split: option.split)

lemma liquidate_Cons:
  "fst (liquidate_symbols num ex date (s # ss) pf) = fst (liquidate_symbols num ex date ss (fst (liquidate_one num ex date pf s)))"
  by (simp split: prod.split)

lemma liquidate_keeps:
  assumes "\<And>pf s. P pf \<Longrightarrow> P (fst (liquidate_one num ex date pf s))" "P pf"
  shows "P (fst (liquidate_symbols num ex date symbols pf))"
  using assms(2) by (induction symbols arbitrary: pf) (simp_all add: assms(1) liquidate_Cons del: liquidate_symbols.simps(2))

lemma accounts_liquidate:
  "accounts base capital pf \<Longrightarrow> accounts base capital (fst (liquidate (exact_num base) ex pf date))"
  unfolding liquidate_def by (rule liquidate_keeps [where P = "accounts base capital", OF accounts_liquidate_one])

lemma accounts_new: "accounts base c (new_portfolio (Some c))"
  by (simp add: accounts_def new_portfolio_def)

lemma accounts_prices: "accounts base c (update_prices pf prices) = accounts base c pf"
  by (simp add: accounts_def update_prices_def)

section \<open>Liquidation closes every priced position\<close>

lemma close_None: "pf_cash pf = None \<Longrightarrow> pf_cash (fst (pf_close (exact_num base) pf date symbol price quantity commission)) = None"
  by (auto simp: pf_close_def Let_def lift2_None split: option.split)

lemma close_prices: "pf_last_prices (fst (pf_close num pf date symbol price quantity commission)) = pf_last_prices pf"
  by (auto simp: pf_close_def Let_def split: option.split)

lemma close_all:
  assumes "accounts base capital pf" "pf_cash pf = Some c"
  shows "pf_positions (fst (pf_close (exact_num base) pf date symbol price None commission)) = AList.delete symbol (pf_positions pf)"
proof (cases "map_of (pf_positions pf) symbol")
  case None
  then have "AList.delete symbol (pf_positions pf) = pf_positions pf"
    by (auto simp: AList.delete_eq filter_id_conv map_of_eq_None_iff image_iff)
  then show ?thesis using None by (simp add: pf_close_def)
next
  case (Some pos)
  have "list_all real_position (vals (pf_positions pf))" using assms by (simp add: accounts_def)
  then obtain q where "po_quantity pos = Some q" "0 < q" using list_all_map_of Some by (fastforce simp: real_position_def)
  then show ?thesis using Some by (simp add: pf_close_def Let_def)
qed

definition sellable :: "real option portfolio \<Rightarrow> string \<Rightarrow> bool" where
  "sellable pf symbol \<longleftrightarrow> (\<exists>p. last_price pf symbol = Some p \<and> \<not> lift_rel (=) p (Some 0))"

lemma liquidate_symbols_positions:
  assumes "accounts base capital pf" "pf_cash (fst (liquidate_symbols (exact_num base) ex date symbols pf)) \<noteq> None"
  shows "pf_positions (fst (liquidate_symbols (exact_num base) ex date symbols pf)) =
    filter (\<lambda>(s, pos). \<not> (s \<in> set symbols \<and> sellable pf s)) (pf_positions pf) \<and>
    pf_last_prices (fst (liquidate_symbols (exact_num base) ex date symbols pf)) = pf_last_prices pf"
  using assms
proof (induction symbols arbitrary: pf)
  case (Cons symbol symbols)
  define pf1 where "pf1 = fst (liquidate_one (exact_num base) ex date pf symbol)"
  have step: "fst (liquidate_symbols (exact_num base) ex date (symbol # symbols) pf) = fst (liquidate_symbols (exact_num base) ex date symbols pf1)"
    by (simp only: liquidate_Cons pf1_def)
  have acc: "accounts base capital pf1" unfolding pf1_def by (rule accounts_liquidate_one [OF Cons.prems(1)])
  have prices: "pf_last_prices pf1 = pf_last_prices pf"
    by (auto simp: pf1_def liquidate_one_def Let_def close_prices split: option.split)
  have None: "pf_cash pf = None \<Longrightarrow> pf_cash (fst (liquidate_one (exact_num base) ex date pf s)) = None" for pf s
    by (auto simp: liquidate_one_def Let_def close_None split: option.split)
  have all_None: "pf_cash pf = None \<Longrightarrow> pf_cash (fst (liquidate_symbols (exact_num base) ex date ss pf)) = None" for pf ss
    by (rule liquidate_keeps [where P = "\<lambda>pf. pf_cash pf = None"]) (simp_all add: None)
  have "pf_cash pf1 \<noteq> None" using Cons.prems(2) all_None [of pf1 symbols] unfolding step by (cases "pf_cash pf1") auto
  then obtain c where c: "pf_cash pf = Some c" using None [of pf symbol] unfolding pf1_def by fastforce
  have "pf_positions pf1 = filter (\<lambda>(s, pos). \<not> (s = symbol \<and> sellable pf s)) (pf_positions pf)"
  proof (cases "sellable pf symbol")
    case True
    then have "pf_positions pf1 = AList.delete symbol (pf_positions pf)"
      using close_all [OF Cons.prems(1) c] by (auto simp: pf1_def liquidate_one_def Let_def sellable_def)
    then show ?thesis using True by (auto simp: AList.delete_eq intro!: filter_cong)
  next
    case False
    then have "pf_positions pf1 = pf_positions pf"
      by (auto simp: pf1_def liquidate_one_def Let_def sellable_def split: option.split)
    then show ?thesis using False by (auto simp: filter_id_conv)
  qed
  moreover have "sellable pf1 = sellable pf" by (simp add: sellable_def last_price_def prices fun_eq_iff)
  ultimately show ?case
    using Cons.IH [OF acc] Cons.prems(2) prices unfolding step by (auto intro!: filter_cong)
qed simp

section \<open>Cash\<close>

definition cash_covered :: "real \<Rightarrow> real option portfolio \<Rightarrow> bool" where
  "cash_covered k pf \<longleftrightarrow> (\<forall>c. pf_cash pf = Some c \<longrightarrow> 0 \<le> c + k * real (length (pf_trades pf)))"

text \<open>A buy that fills leaves the cash non-negative, whatever it was before.\<close>

lemma open_never_overdraws:
  assumes "oc_fill (snd (pf_open (exact_num base) pf date symbol price quantity commission)) \<noteq> None"
    "pf_cash (fst (pf_open (exact_num base) pf date symbol price quantity commission)) = Some c"
  shows "0 \<le> c"
proof -
  let ?num = "exact_num base"
  define fq where "fq = affordable_quantity ?num quantity price (pf_cash pf) commission"
  note open_eq = pf_open_def [of ?num pf date symbol price quantity commission, folded fq_def, unfolded Let_def exact_num_simps of_int_0]
  have fill: "\<not> lift_rel (\<le>) fq (Some 0)" using assms(1) by (auto simp: open_eq no_outcome_def)
  then obtain c0 p f m where num: "pf_cash pf = Some c0" "price = Some p" "fq = Some f" "commission = Some m" "c = c0 - (p * f + m)"
    using assms(2) by (auto simp: open_eq lift2_Some)
  have f: "0 < f" using fill num(3) by simp
  have p: "0 < p" using num(3) f by (auto simp: fq_def affordable_quantity_def num(2) split: if_splits)
  have "f \<le> max ((c0 - m) / p) 0"
    using num(3) p by (auto simp: fq_def affordable_quantity_def num(1,2,4) smaller_def larger_def split: if_splits)
  then have "f \<le> (c0 - m) / p" using f by (auto simp: max_def split: if_splits)
  then have "p * f \<le> c0 - m" using p by (simp add: field_simps)
  then show ?thesis by (simp add: num(5))
qed

lemma solvent_open:
  assumes "cash_covered k pf" "0 \<le> k"
  shows "cash_covered k (fst (pf_open (exact_num base) pf date symbol price quantity commission))"
proof (cases "oc_fill (snd (pf_open (exact_num base) pf date symbol price quantity commission))")
  case None
  then have "fst (pf_open (exact_num base) pf date symbol price quantity commission) = pf"
    by (auto simp: pf_open_def Let_def no_outcome_def split: if_splits)
  then show ?thesis using assms by simp
next
  case (Some f)
  then show ?thesis using open_never_overdraws assms(2) by (fastforce simp: cash_covered_def)
qed

lemma solvent_close:
  assumes "cash_covered k pf" "commission = Some k" "\<And>p. price = Some p \<Longrightarrow> 0 \<le> p"
  shows "cash_covered k (fst (pf_close (exact_num base) pf date symbol price quantity commission))"
proof (cases "map_of (pf_positions pf) symbol")
  case None
  then show ?thesis using assms by (simp add: pf_close_def)
next
  case (Some pos)
  let ?num = "exact_num base"
  define sq where "sq = (case quantity of None \<Rightarrow> po_quantity pos | Some q \<Rightarrow> smaller ?num q (po_quantity pos))"
  define pf1 where "pf1 = fst (pf_close ?num pf date symbol price quantity commission)"
  note close_eq = pf_close_def [of ?num pf date symbol price quantity commission, unfolded Let_def exact_num_simps of_int_0 Some option.case
      sq_def [symmetric]]
  show ?thesis
  proof (cases "lift_rel (\<le>) sq (Some 0)")
    case True
    then show ?thesis using assms(1) unfolding close_eq by simp
  next
    case False
    have pf1: "pf_cash pf1 = lift2 (+) (pf_cash pf) (lift2 (-) (lift2 (*) price sq) commission)"
      "length (pf_trades pf1) = length (pf_trades pf) + 1"
      using False by (simp_all add: pf1_def close_eq)
    show ?thesis unfolding pf1_def [symmetric] cash_covered_def
    proof (intro allI impI)
      fix c' assume "pf_cash pf1 = Some c'"
      then obtain c p f where num: "pf_cash pf = Some c" "price = Some p" "sq = Some f" "c' = c + (p * f - k)"
        unfolding pf1 assms(2) by (auto simp: lift2_Some)
      have "0 \<le> p * f" using assms(3) [OF num(2)] False num(3) by simp
      moreover have "0 \<le> c + k * real (length (pf_trades pf))" using assms(1) num(1) by (simp add: cash_covered_def)
      ultimately show "0 \<le> c' + k * real (length (pf_trades pf1))" by (simp add: pf1 num(4) algebra_simps)
    qed
  qed
qed

definition fair_execution :: "real option execution \<Rightarrow> real \<Rightarrow> bool" where
  "fair_execution ex k \<longleftrightarrow> ex_commission_rate ex = Some k \<and> 0 \<le> k \<and> (\<forall>r. ex_slippage_rate ex = Some r \<longrightarrow> r \<le> 1)"

lemma solvent_execute:
  assumes "cash_covered k pf" "fair_execution ex k" "\<not> lift_rel (\<le>) (bar_close b) (Some 0)"
  shows "cash_covered k (fst (execute_order (exact_num base) ex ord b pf date))"
proof -
  have "0 \<le> p" if "bar_close b = Some p" for p using assms(3) that by simp
  then have "0 \<le> p" if "lift2 (*) (bar_close b) (lift2 (-) (Some 1) (ex_slippage_rate ex)) = Some p" for p
    using that assms(2) by (auto simp: lift2_Some fair_execution_def)
  then show ?thesis
    using assms(1-3) \<open>\<And>p. bar_close b = Some p \<Longrightarrow> 0 \<le> p\<close>
    by (simp add: execute_order_def Let_def fair_execution_def solvent_open solvent_close)
qed

lemma solvent_new: "0 \<le> c \<Longrightarrow> 0 \<le> k \<Longrightarrow> cash_covered k (new_portfolio (Some c))"
  by (simp add: cash_covered_def new_portfolio_def)

end
