(* ===== verification/Runtime_Calendar.thy ===== *)
theory Runtime_Calendar
  imports Dsl_Syntax "HOL-Library.Product_Lexorder"
begin

text \<open>
  The rebalance clock (\<^verbatim>\<open>libs/runtime/llamatrade_runtime/rebalance.py\<close>) on Python's proleptic
  Gregorian calendar. A \<^verbatim>\<open>date\<close> is its ordinal: day 1 is 1 January of year 1. \<open>ord2ymd\<close> and
  \<open>isocalendar\<close> compute year, month and ISO week as the standard library does.

  A frequency divides the days into periods (\<open>period_of\<close>): days, weeks from Monday to Sunday, months,
  quarters and years. \<open>should_rebalance_iff\<close>: the clock fires exactly when the period changes, for the
  ISO week although the code compares week numbers of ISO years. Periods never go back
  (\<open>period_of_mono\<close>), so along dates that do not go back no period fires twice (\<open>fired_periods\<close>).
\<close>

section \<open>Dates\<close>

definition is_leap :: "int \<Rightarrow> bool" where
  "is_leap year \<longleftrightarrow> year mod 4 = 0 \<and> (year mod 100 \<noteq> 0 \<or> year mod 400 = 0)"

definition days_before_year :: "int \<Rightarrow> int" where
  "days_before_year year = (let y = year - 1 in y * 365 + y div 4 - y div 100 + y div 400)"

definition days_before_month :: "bool \<Rightarrow> int \<Rightarrow> int" where
  "days_before_month leap month =
     [0, 0, 31, 59, 90, 120, 151, 181, 212, 243, 273, 304, 334, 365] ! nat month + (if month > 2 \<and> leap then 1 else 0)"

definition ord2ymd :: "int \<Rightarrow> int \<times> int \<times> int" where
  "ord2ymd n =
     (let n0 = n - 1; n400 = n0 div 146097; r400 = n0 mod 146097;
          n100 = r400 div 36524; r100 = r400 mod 36524;
          n4 = r100 div 1461; r4 = r100 mod 1461;
          n1 = r4 div 365; r1 = r4 mod 365;
          year = n400 * 400 + 1 + n100 * 100 + n4 * 4 + n1
      in if n1 = 4 \<or> n100 = 4 then (year - 1, 12, 31)
         else let leap = (n1 = 3 \<and> (n4 \<noteq> 24 \<or> n100 = 3));
                  month = (r1 + 50) div 32;
                  month1 = (if days_before_month leap month > r1 then month - 1 else month)
              in (year, month1, r1 - days_before_month leap month1 + 1))"

definition date_year :: "int \<Rightarrow> int" where
  "date_year d = fst (ord2ymd d)"

definition date_month :: "int \<Rightarrow> int" where
  "date_month d = fst (snd (ord2ymd d))"

definition isoweek1monday :: "int \<Rightarrow> int" where
  "isoweek1monday year =
     (let firstday = days_before_year year + 1; firstweekday = (firstday + 6) mod 7; monday = firstday - firstweekday
      in if firstweekday > 3 then monday + 7 else monday)"

definition isocalendar :: "int \<Rightarrow> int \<times> int \<times> int" where
  "isocalendar d =
     (let year = date_year d; week1 = isoweek1monday year; week = (d - week1) div 7; day = (d - week1) mod 7
      in if week < 0
         then let week1 = isoweek1monday (year - 1) in (year - 1, (d - week1) div 7 + 1, (d - week1) mod 7 + 1)
         else if 52 \<le> week \<and> isoweek1monday (year + 1) \<le> d then (year + 1, 1, day + 1)
         else (year, week + 1, day + 1))"

section \<open>The clock\<close>

definition should_rebalance :: "int \<Rightarrow> int option \<Rightarrow> string option \<Rightarrow> bool" where
  "should_rebalance current last_rebalance frequency =
     (case last_rebalance of
        None \<Rightarrow> True
      | Some l \<Rightarrow>
          if current = l then False
          else let freq = (case frequency of None \<Rightarrow> ''daily'' | Some f \<Rightarrow> if f = [] then ''daily'' else f)
               in if freq = ''daily'' then l < current
                  else if freq = ''weekly''
                  then (fst (isocalendar current), fst (snd (isocalendar current))) \<noteq> (fst (isocalendar l), fst (snd (isocalendar l)))
                  else if freq = ''monthly'' then date_month current \<noteq> date_month l \<or> date_year current \<noteq> date_year l
                  else if freq = ''quarterly''
                  then (date_month current - 1) div 3 \<noteq> (date_month l - 1) div 3 \<or> date_year current \<noteq> date_year l
                  else if freq = ''annually'' then date_year current \<noteq> date_year l
                  else l < current)"

section \<open>Years and months\<close>

lemma days_before_digits:
  assumes "b \<in> {0..3}" "c \<in> {0..24}" "e \<in> {0..3}"
  shows "days_before_year (400 * a + 100 * b + 4 * c + e + 1) = 146097 * a + 36524 * b + 1461 * c + 365 * e"
proof -
  have "(400 * a + 100 * b + 4 * c + e) div 4 = 100 * a + 25 * b + c"
    "(400 * a + 100 * b + 4 * c + e) div 100 = 4 * a + b" "(400 * a + 100 * b + 4 * c + e) div 400 = a"
    using assms by auto
  then show ?thesis by (simp add: days_before_year_def Let_def)
qed

lemma div_pred:
  assumes "0 < (m :: int)"
  shows "y div m = (y - 1) div m + (if y mod m = 0 then 1 else 0)"
proof -
  have y: "y = m * (y div m) + y mod m" "0 \<le> y mod m" "y mod m < m" using assms by simp_all
  show ?thesis
  proof (cases "y mod m = 0")
    case True
    have "y - 1 = m * (y div m - 1) + (m - 1)" using y True by (simp add: algebra_simps)
    then have "(y - 1) div m = y div m - 1" using assms by (intro int_div_pos_eq [where r = "m - 1"]) simp_all
    then show ?thesis using True by simp
  next
    case False
    then have "(y - 1) div m = y div m" using y by (intro int_div_pos_eq [where r = "y mod m - 1"]) linarith+
    then show ?thesis using False by simp
  qed
qed

lemma days_before_Suc: "days_before_year (y + 1) = days_before_year y + (if is_leap y then 366 else 365)"
proof -
  have count: "a = a' + (if p then 1 else 0) \<Longrightarrow> b = b' + (if q then 1 else 0) \<Longrightarrow> c = c' + (if r then 1 else 0) \<Longrightarrow>
      (q \<longrightarrow> p) \<Longrightarrow> (r \<longrightarrow> q) \<Longrightarrow>
      y * 365 + a - b + c = (y - 1) * 365 + a' - b' + c' + (if p \<and> (\<not> q \<or> r) then 366 else 365)" for a a' b b' c c' and p q r
    by (cases p; cases q; cases r; hypsubst) (simp_all only: if_True if_False simp_thms, simp_all)
  have "y mod 100 = 0 \<longrightarrow> y mod 4 = 0" "y mod 400 = 0 \<longrightarrow> y mod 100 = 0"
    unfolding mod_eq_0_iff_dvd by (auto intro: dvd_trans [of 4 100 y] dvd_trans [of 100 400 y])
  then show ?thesis
    unfolding days_before_year_def is_leap_def Let_def add_diff_cancel_right' by (intro count div_pred) simp_all
qed

lemma days_before_mono: "y \<le> z \<Longrightarrow> days_before_year y \<le> days_before_year z"
proof -
  have "days_before_year y \<le> days_before_year (y + int k)" for k
  proof (induction k)
    case (Suc k)
    then show ?case using days_before_Suc [of "y + int k"] by (simp add: add.commute add.left_commute split: if_splits)
  qed simp
  from this [of "nat (z - y)"] show "y \<le> z \<Longrightarrow> ?thesis" by simp
qed

text \<open>The digits of an ordinal: 400-, 100-, 4- and 1-year cycles.\<close>

lemma ordinal_digits:
  fixes d :: int
  obtains a b c e r where "d - 1 = 146097 * a + 36524 * b + 1461 * c + 365 * e + r"
    "a = (d - 1) div 146097" "b = (d - 1) mod 146097 div 36524" "c = (d - 1) mod 146097 mod 36524 div 1461"
    "e = (d - 1) mod 146097 mod 36524 mod 1461 div 365" "r = (d - 1) mod 146097 mod 36524 mod 1461 mod 365"
    "b \<in> {0..4}" "c \<in> {0..24}" "e \<in> {0..4}" "r \<in> {0..364}"
    "b = 4 \<longrightarrow> c = 0 \<and> e = 0 \<and> r = 0" "e = 4 \<longrightarrow> r = 0 \<and> c < 24"
proof
  let ?q = "(d - 1) mod 146097" let ?s = "?q mod 36524" let ?t = "?s mod 1461"
  have q: "0 \<le> ?q" "?q < 146097" and s: "0 \<le> ?s" "?s < 36524" and t: "0 \<le> ?t" "?t < 1461" by simp_all
  show "d - 1 = 146097 * ((d - 1) div 146097) + 36524 * (?q div 36524) + 1461 * (?s div 1461) + 365 * (?t div 365) + ?t mod 365"
    using mult_div_mod_eq [of 146097 "d - 1"] mult_div_mod_eq [of 36524 ?q] mult_div_mod_eq [of 1461 ?s] mult_div_mod_eq [of 365 ?t]
    by linarith
  show "?q div 36524 \<in> {0..4}" using q by auto
  show "?s div 1461 \<in> {0..24}" using s by auto
  show "?t div 365 \<in> {0..4}" using t by auto
  show "?t mod 365 \<in> {0..364}" by auto
  have rest: "m * x + y = n \<Longrightarrow> x = 4 \<Longrightarrow> n < 4 * m + 1 \<Longrightarrow> 0 \<le> y \<Longrightarrow> y = 0" for m x y n :: int by simp
  have "?q div 36524 = 4 \<Longrightarrow> ?s = 0"
    using q by (intro rest [OF mult_div_mod_eq [of 36524 ?q]]) simp_all
  then show "?q div 36524 = 4 \<longrightarrow> ?s div 1461 = 0 \<and> ?t div 365 = 0 \<and> ?t mod 365 = 0" by simp
  have "?t div 365 = 4 \<Longrightarrow> ?t mod 365 = 0"
    using t by (intro rest [OF mult_div_mod_eq [of 365 ?t]]) simp_all
  moreover have "\<not> ?t div 365 = 4" if "\<not> ?s div 1461 < 24"
  proof -
    have "1461 * x + y = n \<Longrightarrow> \<not> x < 24 \<Longrightarrow> n < 36524 \<Longrightarrow> y < 1460" for x y n :: int by simp
    from this [OF mult_div_mod_eq [of 1461 ?s] that s(2)] show ?thesis by simp
  qed
  ultimately show "?t div 365 = 4 \<longrightarrow> ?t mod 365 = 0 \<and> ?s div 1461 < 24" by blast
qed (rule refl)+

lemma month_bounds:
  fixes r :: int
  assumes "0 \<le> r" "r < (if leap then 366 else 365)"
  defines "m \<equiv> (r + 50) div 32"
  defines "k \<equiv> (if r < days_before_month leap m then m - 1 else m)"
  shows "k \<in> {1..12} \<and> days_before_month leap k \<le> r \<and> (k < 12 \<longrightarrow> r < days_before_month leap (k + 1))"
proof -
  have "m \<in> {1..12}" using assms(1,2) by (auto simp: m_def split: if_splits)
  then have "m = 1 \<or> m = 2 \<or> m = 3 \<or> m = 4 \<or> m = 5 \<or> m = 6 \<or> m = 7 \<or> m = 8 \<or> m = 9 \<or> m = 10 \<or> m = 11 \<or> m = 12"
    unfolding atLeastAtMost_iff by presburger
  then consider "m = 1" | "m = 2" | "m = 3" | "m = 4" | "m = 5" | "m = 6" | "m = 7" | "m = 8" | "m = 9" | "m = 10" | "m = 11" | "m = 12"
    by blast
  moreover have "32 * m \<le> r + 50" "r + 50 < 32 * m + 32"
    using mult_div_mod_eq [of 32 "r + 50"] pos_mod_sign [of 32 "r + 50"] pos_mod_bound [of 32 "r + 50"] unfolding m_def by simp_all
  ultimately show ?thesis
    using assms(1,2) by cases (auto simp: k_def days_before_month_def split: if_splits)
qed

lemma leap_digits:
  assumes "b \<in> {0..3}" "c \<in> {0..24}" "e \<in> {0..3}"
  shows "is_leap (400 * a + 100 * b + 4 * c + e + 1) \<longleftrightarrow> e = 3 \<and> (c \<noteq> 24 \<or> b = 3)"
proof -
  let ?y = "400 * a + 100 * b + 4 * c + e + 1"
  have "?y = (e + 1) + 4 * (100 * a + 25 * b + c)" "?y = (4 * c + e + 1) + 100 * (4 * a + b)" "?y = (100 * b + 4 * c + e + 1) + 400 * a"
    by simp_all
  then have m: "?y mod 4 = (e + 1) mod 4" "?y mod 100 = (4 * c + e + 1) mod 100" "?y mod 400 = (100 * b + 4 * c + e + 1) mod 400"
    by (metis mod_mult_self2)+
  have top_digit: "0 < x \<Longrightarrow> x \<le> n \<Longrightarrow> x mod n = 0 \<longleftrightarrow> x = n" for x n :: int
    by (cases "x = n") (simp_all add: mod_pos_pos_trivial del: mod_eq_0_iff_dvd)
  have "(e + 1) mod 4 = 0 \<longleftrightarrow> e = 3" using top_digit [of "e + 1" 4] assms(3) by auto
  moreover have "(4 * c + e + 1) mod 100 = 0 \<longleftrightarrow> c = 24" if "e = 3" using top_digit [of "4 * c + e + 1" 100] assms(2) that by auto
  moreover have "(100 * b + 4 * c + e + 1) mod 400 = 0 \<longleftrightarrow> b = 3" if "e = 3" "c = 24"
    using top_digit [of "100 * b + 4 * c + e + 1" 400] assms(1) that by auto
  ultimately show ?thesis unfolding is_leap_def m by metis
qed

text \<open>The year and the month of a date are those of the interval it lies in.\<close>

lemma ord2ymd_digits:
  obtains a b c e r where "date_year d = 400 * a + 100 * b + 4 * c + e + 1" "d - 1 = 146097 * a + 36524 * b + 1461 * c + 365 * e + r"
    "b \<in> {0..3}" "c \<in> {0..24}" "e \<in> {0..3}" "0 \<le> r" "r < (if e = 3 \<and> (c \<noteq> 24 \<or> b = 3) then 366 else 365)"
    "date_month d = (let leap = (e = 3 \<and> (c \<noteq> 24 \<or> b = 3)); m = (r + 50) div 32
       in if days_before_month leap m > r then m - 1 else m)"
proof -
  obtain a b c e r where dig: "d - 1 = 146097 * a + 36524 * b + 1461 * c + 365 * e + r"
    "a = (d - 1) div 146097" "b = (d - 1) mod 146097 div 36524" "c = (d - 1) mod 146097 mod 36524 div 1461"
    "e = (d - 1) mod 146097 mod 36524 mod 1461 div 365" "r = (d - 1) mod 146097 mod 36524 mod 1461 mod 365"
    and bnd: "b \<in> {0..4}" "c \<in> {0..24}" "e \<in> {0..4}" "r \<in> {0..364}"
    "b = 4 \<longrightarrow> c = 0 \<and> e = 0 \<and> r = 0" "e = 4 \<longrightarrow> r = 0 \<and> c < 24"
    by (rule ordinal_digits [of d])
  note ymd = ord2ymd_def [of d, unfolded Let_def dig(2-6) [symmetric]]
  show thesis
  proof (cases "e = 4 \<or> b = 4")
    case False
    then have "date_year d = 400 * a + 100 * b + 4 * c + e + 1"
      "date_month d = (let leap = (e = 3 \<and> (c \<noteq> 24 \<or> b = 3)); m = (r + 50) div 32
       in if days_before_month leap m > r then m - 1 else m)"
      unfolding date_year_def date_month_def ymd by (simp_all add: Let_def)
    then show thesis using that [of a b c e r] dig(1) bnd False by auto
  next
    case True
    then have "date_year d = 400 * a + 100 * b + 4 * c + e" "date_month d = 12"
      unfolding date_year_def date_month_def ymd by simp_all
    moreover have "days_before_month True 12 = 335" by (simp add: days_before_month_def)
    ultimately show thesis using True that [of a b c 3 365] that [of a 3 24 3 365] dig(1) bnd by auto
  qed
qed

lemma date_bounds:
  "days_before_year (date_year d) < d \<and> d \<le> days_before_year (date_year d + 1) \<and> date_month d \<in> {1..12} \<and>
    days_before_month (is_leap (date_year d)) (date_month d) < d - days_before_year (date_year d) \<and>
    (date_month d < 12 \<longrightarrow> d - days_before_year (date_year d) \<le> days_before_month (is_leap (date_year d)) (date_month d + 1))"
proof -
  obtain a b c e r where dig: "date_year d = 400 * a + 100 * b + 4 * c + e + 1"
    "d - 1 = 146097 * a + 36524 * b + 1461 * c + 365 * e + r"
    "b \<in> {0..3}" "c \<in> {0..24}" "e \<in> {0..3}" "0 \<le> r" "r < (if e = 3 \<and> (c \<noteq> 24 \<or> b = 3) then 366 else 365)"
    "date_month d = (let leap = (e = 3 \<and> (c \<noteq> 24 \<or> b = 3)); m = (r + 50) div 32
       in if days_before_month leap m > r then m - 1 else m)"
    by (rule ord2ymd_digits)
  have leap: "is_leap (date_year d) \<longleftrightarrow> e = 3 \<and> (c \<noteq> 24 \<or> b = 3)" unfolding dig(1) by (rule leap_digits [OF dig(3-5)])
  have r: "d = days_before_year (date_year d) + 1 + r" unfolding dig(1) days_before_digits [OF dig(3-5)] using dig(2) by simp
  have "r < (if is_leap (date_year d) then 366 else 365)" unfolding leap by (rule dig(7))
  with month_bounds [OF dig(6) this] dig(6) r days_before_Suc [of "date_year d"] show ?thesis
    unfolding dig(8) leap [symmetric] Let_def by (auto split: if_splits)
qed

lemma date_year_mono: "d \<le> d' \<Longrightarrow> date_year d \<le> date_year d'"
proof (rule ccontr)
  assume "d \<le> d'" "\<not> date_year d \<le> date_year d'"
  then have "days_before_year (date_year d' + 1) \<le> days_before_year (date_year d)" by (intro days_before_mono) simp
  then show False using date_bounds [of d] date_bounds [of d'] \<open>d \<le> d'\<close> by linarith
qed

lemma days_before_month_mono: "1 \<le> m \<Longrightarrow> m \<le> n \<Longrightarrow> n \<le> 12 \<Longrightarrow> days_before_month leap m \<le> days_before_month leap n"
proof -
  have "\<forall>leap. \<forall>m \<in> set [1..12]. \<forall>n \<in> set [m..12]. days_before_month leap m \<le> days_before_month leap n"
    by code_simp
  then show "1 \<le> m \<Longrightarrow> m \<le> n \<Longrightarrow> n \<le> 12 \<Longrightarrow> ?thesis" by simp
qed

lemma date_month_mono:
  assumes "d \<le> d'" "date_year d = date_year d'"
  shows "date_month d \<le> date_month d'"
proof (rule ccontr)
  assume less: "\<not> date_month d \<le> date_month d'"
  have "days_before_month (is_leap (date_year d)) (date_month d' + 1) \<le> days_before_month (is_leap (date_year d)) (date_month d)"
    using less date_bounds [of d] date_bounds [of d'] by (intro days_before_month_mono) auto
  then show False using date_bounds [of d] date_bounds [of d'] assms less by auto
qed

section \<open>ISO weeks\<close>

definition week_of :: "int \<Rightarrow> int" where
  "week_of d = (d + 6) div 7"

lemma week1_monday:
  "\<exists>k. isoweek1monday y = 7 * k + 1" "days_before_year y - 2 \<le> isoweek1monday y" "isoweek1monday y \<le> days_before_year y + 4"
proof -
  let ?f = "days_before_year y + 1"
  have "7 * x + r = f + 6 \<Longrightarrow> f - r = 7 * (x - 1) + 1" for x r f :: int by simp
  from this [OF mult_div_mod_eq [of 7 "?f + 6"]] show "\<exists>k. isoweek1monday y = 7 * k + 1"
    unfolding isoweek1monday_def Let_def
    by (cases "(?f + 6) mod 7 > 3") (auto intro: exI [of _ "(?f + 6) div 7"] exI [of _ "(?f + 6) div 7 - 1"])
  have "0 \<le> (?f + 6) mod 7" "(?f + 6) mod 7 < 7" by simp_all
  then show "days_before_year y - 2 \<le> isoweek1monday y" "isoweek1monday y \<le> days_before_year y + 4"
    unfolding isoweek1monday_def Let_def by (auto simp del: pos_mod_sign pos_mod_bound)
qed

lemma week1_Suc: "isoweek1monday y + 364 \<le> isoweek1monday (y + 1)"
proof -
  obtain k k' where k: "isoweek1monday y = 7 * k + 1" "isoweek1monday (y + 1) = 7 * k' + 1"
    using week1_monday(1) [of y] week1_monday(1) [of "y + 1"] by blast
  have "isoweek1monday y + 359 \<le> isoweek1monday (y + 1)"
    using week1_monday(3) [of y] week1_monday(2) [of "y + 1"] days_before_Suc [of y] by (auto split: if_splits)
  then show ?thesis unfolding k by presburger
qed

lemma week1_mono: "y \<le> z \<Longrightarrow> isoweek1monday y \<le> isoweek1monday z"
proof -
  have "isoweek1monday y \<le> isoweek1monday (y + int k)" for k
  proof (induction k)
    case (Suc k)
    then show ?case using week1_Suc [of "y + int k"] by (simp add: add.commute add.left_commute)
  qed simp
  from this [of "nat (z - y)"] show "y \<le> z \<Longrightarrow> ?thesis" by simp
qed

text \<open>The ISO year and week of a date are those of the interval between two first Mondays.\<close>

lemma isocalendar_bounds:
  assumes "isocalendar d = (y, w, k)"
  shows "isoweek1monday y \<le> d \<and> d < isoweek1monday (y + 1) \<and> w = (d - isoweek1monday y) div 7 + 1"
proof -
  define Y where "Y = date_year d"
  have d: "days_before_year Y < d" "d \<le> days_before_year (Y + 1)" using date_bounds [of d] by (simp_all add: Y_def)
  note eq = assms [unfolded isocalendar_def Let_def Y_def [symmetric]]
  have neg: "(d - isoweek1monday Y) div 7 < 0 \<longleftrightarrow> d < isoweek1monday Y" by (auto simp: neg_imp_zdiv_neg_iff)
  consider "d < isoweek1monday Y" | "isoweek1monday Y \<le> d" "isoweek1monday (Y + 1) \<le> d"
    | "isoweek1monday Y \<le> d" "d < isoweek1monday (Y + 1)" by linarith
  then show ?thesis
  proof cases
    case 1
    have "isoweek1monday (Y - 1) \<le> d"
      using week1_monday(3) [of "Y - 1"] days_before_Suc [of "Y - 1"] d by (auto split: if_splits)
    moreover have "y = Y - 1" "w = (d - isoweek1monday (Y - 1)) div 7 + 1" using eq 1 neg by auto
    ultimately show ?thesis using 1 by simp
  next
    case 2
    have "52 \<le> (d - isoweek1monday Y) div 7" using week1_Suc [of Y] 2 by simp
    moreover have "(d - isoweek1monday (Y + 1)) div 7 = 0"
      using 2 d week1_monday(2) [of "Y + 1"] by (intro div_pos_pos_trivial) linarith+
    moreover have "y = Y + 1 \<and> w = 1" using eq 2 neg calculation by auto
    moreover have "d < isoweek1monday (Y + 1 + 1)" using week1_Suc [of "Y + 1"] d week1_monday(2) [of "Y + 1"] by linarith
    ultimately show ?thesis using 2 by auto
  next
    case 3
    then show ?thesis using eq neg by auto
  qed
qed

lemma same_iso_week:
  "(fst (isocalendar d), fst (snd (isocalendar d))) = (fst (isocalendar l), fst (snd (isocalendar l))) \<longleftrightarrow> week_of d = week_of l"
proof -
  obtain y w k where d: "isocalendar d = (y, w, k)" by (cases "isocalendar d")
  obtain z v j where l: "isocalendar l = (z, v, j)" by (cases "isocalendar l")
  obtain a b where ab: "isoweek1monday y = 7 * a + 1" "isoweek1monday z = 7 * b + 1" using week1_monday(1) by metis
  have week: "week_of x = (x - (7 * m + 1)) div 7 + 1 + m" for x m
  proof -
    have "x + 6 = (x - (7 * m + 1)) + (m + 1) * 7" by simp
    then show ?thesis unfolding week_of_def by (simp only: div_mult_self1)
  qed
  note bd = isocalendar_bounds [OF d] and bl = isocalendar_bounds [OF l]
  have w: "w = week_of d - a" "v = week_of l - b" using bd bl week [of d a] week [of l b] unfolding ab by simp_all
  have inside: "m \<le> week_of x - 1 \<longleftrightarrow> 7 * m + 1 \<le> x" for m x
  proof -
    have "7 * q + r = x + 6 \<Longrightarrow> 0 \<le> r \<Longrightarrow> r < 7 \<Longrightarrow> m \<le> q - 1 \<longleftrightarrow> 7 * m + 1 \<le> x" for q r by presburger
    from this [OF mult_div_mod_eq [of 7 "x + 6"]] show ?thesis unfolding week_of_def by simp
  qed
  have "y = z" if same: "week_of d = week_of l"
  proof (rule ccontr)
    assume "y \<noteq> z"
    obtain c e where ce: "isoweek1monday (y + 1) = 7 * c + 1" "isoweek1monday (z + 1) = 7 * e + 1" using week1_monday(1) by metis
    have "isoweek1monday (y + 1) \<le> isoweek1monday z \<or> isoweek1monday (z + 1) \<le> isoweek1monday y"
      using week1_mono [of "y + 1" z] week1_mono [of "z + 1" y] \<open>y \<noteq> z\<close> by linarith
    then show False using bd bl same inside [of a d] inside [of c d] inside [of b l] inside [of e l] unfolding ab ce by linarith
  qed
  then show ?thesis using w ab unfolding d l by auto
qed

section \<open>The clock fires when the period changes\<close>

definition frequency_of :: "string option \<Rightarrow> string" where
  "frequency_of frequency = (case frequency of None \<Rightarrow> ''daily'' | Some f \<Rightarrow> f)"

definition period_of :: "string \<Rightarrow> int \<Rightarrow> int" where
  "period_of f d =
     (if f = ''weekly'' then week_of d else if f = ''monthly'' then 12 * date_year d + date_month d
      else if f = ''quarterly'' then 4 * date_year d + (date_month d - 1) div 3
      else if f = ''annually'' then date_year d else d)"

lemma month_range: "date_month d \<in> {1..12}"
  using date_bounds [of d] by blast

lemma quarter_bounds: "(date_month d - 1) div 3 \<in> {0..3}"
  using month_range [of d] by auto

lemma period_of_mono:
  assumes "d \<le> d'"
  shows "period_of f d \<le> period_of f d'"
proof -
  have y: "date_year d \<le> date_year d'" using date_year_mono [OF assms] .
  have m: "date_year d = date_year d' \<Longrightarrow> date_month d \<le> date_month d'" using date_month_mono [OF assms] .
  have "12 * date_year d + date_month d \<le> 12 * date_year d' + date_month d'"
    using y m date_bounds [of d] date_bounds [of d'] by (cases "date_year d = date_year d'") auto
  moreover have "4 * date_year d + (date_month d - 1) div 3 \<le> 4 * date_year d' + (date_month d' - 1) div 3"
  proof (cases "date_year d = date_year d'")
    case True
    then show ?thesis using m zdiv_mono1 [of "date_month d - 1" "date_month d' - 1" 3] by simp
  next
    case False
    then show ?thesis using y quarter_bounds [of d] quarter_bounds [of d'] by auto
  qed
  moreover have "week_of d \<le> week_of d'" using assms by (auto simp: week_of_def intro: zdiv_mono1)
  ultimately show ?thesis using assms y by (simp add: period_of_def)
qed

lemma should_rebalance_iff:
  assumes "l \<le> d"
  shows "should_rebalance d (Some l) frequency \<longleftrightarrow> period_of (frequency_of frequency) l < period_of (frequency_of frequency) d"
proof -
  let ?f = "frequency_of frequency"
  have le: "period_of ?f l \<le> period_of ?f d" by (rule period_of_mono [OF assms])
  have months: "12 * x + m = 12 * y + n \<longleftrightarrow> x = y \<and> m = n" if "m \<in> {1..12}" "n \<in> {1..12}" for x y m n :: int
    using that by (cases x y rule: linorder_cases) auto
  have quarters: "4 * x + m = 4 * y + n \<longleftrightarrow> x = y \<and> m = n" if "m \<in> {0..3}" "n \<in> {0..3}" for x y m n :: int
    using that by (cases x y rule: linorder_cases) auto
  have periods: "period_of ''monthly'' l = period_of ''monthly'' d \<longleftrightarrow> date_month d = date_month l \<and> date_year d = date_year l"
    "period_of ''quarterly'' l = period_of ''quarterly'' d \<longleftrightarrow> (date_month d - 1) div 3 = (date_month l - 1) div 3 \<and> date_year d = date_year l"
    "period_of ''weekly'' l = period_of ''weekly'' d \<longleftrightarrow>
      fst (isocalendar d) = fst (isocalendar l) \<and> fst (snd (isocalendar d)) = fst (snd (isocalendar l))"
    "period_of ''annually'' l = period_of ''annually'' d \<longleftrightarrow> date_year d = date_year l"
    using months [OF month_range [of l] month_range [of d], of "date_year l" "date_year d"]
      quarters [OF quarter_bounds [of l] quarter_bounds [of d], of "date_year l" "date_year d"] same_iso_week [of d l]
    by (simp_all add: period_of_def; metis)+
  have other: "period_of f l = period_of f d \<longleftrightarrow> l = d" if "f \<notin> {''weekly'', ''monthly'', ''quarterly'', ''annually''}" for f
    using that by (simp add: period_of_def)
  have same: "should_rebalance d (Some l) frequency \<longleftrightarrow> period_of ?f l \<noteq> period_of ?f d"
  proof (cases "d = l")
    case False
    then have "l < d" using assms by simp
    consider "?f = ''weekly''" | "?f = ''monthly''" | "?f = ''quarterly''" | "?f = ''annually''"
      | "?f \<notin> {''weekly'', ''monthly'', ''quarterly'', ''annually''}" by blast
    then show ?thesis
    proof cases
      case 5
      then show ?thesis using other [OF 5] False \<open>l < d\<close>
        by (cases frequency) (auto simp: should_rebalance_def frequency_of_def)
    qed (cases frequency; simp add: should_rebalance_def frequency_of_def periods False)+
  qed (simp add: should_rebalance_def)
  show ?thesis unfolding same using le by auto
qed

text \<open>
  A feed of dates against the clock: the date becomes the last rebalance when the clock fires and the
  caller accepts it. Along dates that do not go back, the accepted periods strictly increase.
\<close>

fun fired :: "string option \<Rightarrow> int option \<Rightarrow> (int \<times> bool) list \<Rightarrow> int list" where
  "fired frequency l [] = []"
| "fired frequency l ((d, accept) # ds) =
     (if should_rebalance d l frequency \<and> accept then d # fired frequency (Some d) ds else fired frequency l ds)"

lemma fired_periods:
  "sorted (map fst ds) \<Longrightarrow> (\<And>x. l = Some x \<Longrightarrow> \<forall>(d, a) \<in> set ds. x \<le> d) \<Longrightarrow>
   sorted_wrt (<) (map (period_of (frequency_of frequency)) (fired frequency l ds)) \<and>
   (\<forall>x. l = Some x \<longrightarrow> (\<forall>d \<in> set (fired frequency l ds). period_of (frequency_of frequency) x < period_of (frequency_of frequency) d))"
proof (induction ds arbitrary: l)
  case (Cons p ds)
  obtain d accept where p: "p = (d, accept)" by (cases p)
  let ?P = "period_of (frequency_of frequency)"
  have later: "\<forall>(e, a) \<in> set ds. d \<le> e" using Cons.prems(1) by (auto simp: p)
  show ?case
  proof (cases "should_rebalance d l frequency \<and> accept")
    case True
    have IH: "sorted_wrt (<) (map ?P (fired frequency (Some d) ds))" "\<forall>e \<in> set (fired frequency (Some d) ds). ?P d < ?P e"
      using Cons.IH [of "Some d"] Cons.prems(1) later by (auto simp: p)
    have "?P x < ?P d" if "l = Some x" for x
      using should_rebalance_iff [of x d frequency] Cons.prems(2) [OF that] True that by (simp add: p)
    then show ?thesis using IH True by (auto simp: p intro: less_trans)
  next
    case False
    then show ?thesis using Cons.IH [of l] Cons.prems by (auto simp: p)
  qed
qed simp

end
