(* ===== verification/Runtime_Metrics.thy ===== *)
theory Runtime_Metrics
  imports Runtime_Book Runtime_Calendar
begin

text \<open>
  The performance metrics and the assembled result of a run
  (\<^verbatim>\<open>libs/runtime/llamatrade_runtime\<close>: \<^verbatim>\<open>metrics.py\<close>, \<^verbatim>\<open>result.py\<close>). numpy's \<^verbatim>\<open>minimum\<close> and
  \<^verbatim>\<open>maximum\<close> return a NaN argument; \<^verbatim>\<open>nan_to_num\<close> with zeros replaces what is not finite. Timestamps
  count microseconds from the start of year 1 on the clock of the bars. The benchmark fields of the
  result, which the runtime leaves at their defaults, are left out.

  \<open>drawdown_bounds\<close>: in exact arithmetic the maximal drawdown of an equity curve that stays
  non-negative lies between 0 and 1 and no drawdown lasts longer than the curve. \<open>resample_daily_last\<close>:
  the daily grid has the last point of every day and neighbouring points lie on different days.
\<close>

section \<open>Metrics\<close>

definition ts_date :: "int \<Rightarrow> int" where
  "ts_date t = t div 86400000000 + 1"

definition np_minimum :: "'f num_ops \<Rightarrow> 'f \<Rightarrow> 'f \<Rightarrow> 'f" where
  "np_minimum num a b = (if nm_nan num a then a else if nm_nan num b then b else smaller num a b)"

definition np_maximum :: "'f num_ops \<Rightarrow> 'f \<Rightarrow> 'f \<Rightarrow> 'f" where
  "np_maximum num a b = (if nm_nan num a then a else if nm_nan num b then b else larger num a b)"

definition nan_to_zero :: "'f num_ops \<Rightarrow> 'f \<Rightarrow> 'f" where
  "nan_to_zero num x = (if nm_finite num x then x else zero_of num)"

definition calculate_sharpe_ratio :: "'f num_ops \<Rightarrow> 'f list \<Rightarrow> 'f \<Rightarrow> 'f" where
  "calculate_sharpe_ratio num daily_returns risk_free_rate =
     (if daily_returns = [] \<or> nm_eq num (nm_std num daily_returns) (zero_of num) then zero_of num
      else let daily_rf = nm_div num risk_free_rate (nm_of_int num 252);
               excess = map (\<lambda>r. nm_sub num r daily_rf) daily_returns
           in np_div num (nm_mul num (nm_sqrt252 num) (np_mean num excess)) (nm_std num daily_returns))"

definition calculate_sortino_ratio :: "'f num_ops \<Rightarrow> 'f list \<Rightarrow> 'f \<Rightarrow> 'f" where
  "calculate_sortino_ratio num daily_returns risk_free_rate =
     (if daily_returns = [] then zero_of num
      else let daily_rf = nm_div num risk_free_rate (nm_of_int num 252);
               excess = map (\<lambda>r. nm_sub num r daily_rf) daily_returns;
               downside = map (\<lambda>r. np_minimum num r (zero_of num)) excess;
               deviation = np_sqrt num (np_mean num (map (\<lambda>r. nm_mul num r r) downside))
           in if nm_eq num deviation (zero_of num) then zero_of num
              else np_div num (nm_mul num (nm_sqrt252 num) (np_mean num excess)) deviation)"

fun accumulate_max :: "'f num_ops \<Rightarrow> 'f \<Rightarrow> 'f list \<Rightarrow> 'f list" where
  "accumulate_max num peak [] = []"
| "accumulate_max num peak (x # xs) = (let p = np_maximum num peak x in p # accumulate_max num p xs)"

definition running_peak :: "'f num_ops \<Rightarrow> 'f list \<Rightarrow> 'f list" where
  "running_peak num xs = (case xs of [] \<Rightarrow> [] | x # ys \<Rightarrow> x # accumulate_max num x ys)"

definition drawdowns :: "'f num_ops \<Rightarrow> 'f list \<Rightarrow> 'f list" where
  "drawdowns num equity =
     map2 (\<lambda>peak e. nan_to_zero num (if nm_lt num (zero_of num) peak then np_div num (nm_sub num peak e) peak else zero_of num))
       (running_peak num equity) equity"

fun drawdown_duration :: "'f num_ops \<Rightarrow> 'f list \<Rightarrow> nat \<Rightarrow> nat \<Rightarrow> nat" where
  "drawdown_duration num [] cur longest = longest"
| "drawdown_duration num (dd # dds) cur longest =
     (if nm_lt num (zero_of num) dd then drawdown_duration num dds (cur + 1) (max longest (cur + 1))
      else drawdown_duration num dds 0 longest)"

definition calculate_max_drawdown :: "'f num_ops \<Rightarrow> 'f list \<Rightarrow> 'f \<times> nat" where
  "calculate_max_drawdown num equity =
     (if equity = [] then (zero_of num, 0)
      else let dds = drawdowns num equity in (np_max num dds, drawdown_duration num dds 0 0))"

definition month_key :: "int \<Rightarrow> string" where
  "month_key t =
     (let d = ts_date t; m = date_month d in show_int (date_year d) @ ''-'' @ (if m < 10 then ''0'' else []) @ show_int m)"

fun month_returns :: "'f num_ops \<Rightarrow> 'f \<Rightarrow> (string \<times> (int \<times> 'f) list) list \<Rightarrow> (string, 'f) dict" where
  "month_returns num prev [] = []"
| "month_returns num prev ((month, points) # ms) =
     (let month_end = snd (last points)
      in (month, if nm_lt num (zero_of num) prev then nm_div num (nm_sub num month_end prev) prev else zero_of num)
           # month_returns num month_end ms)"

definition calculate_monthly_returns :: "'f num_ops \<Rightarrow> (int \<times> 'f) list \<Rightarrow> 'f \<Rightarrow> (string, 'f) dict" where
  "calculate_monthly_returns num curve initial_capital =
     (let months = foldl (\<lambda>d (t, e). dict_modify (month_key t) [] (\<lambda>ps. ps @ [(t, e)]) d) [] curve
      in month_returns num initial_capital (map (\<lambda>m. (m, dict_get months m [])) (sort (keys months))))"

definition calculate_trade_statistics :: "'f num_ops \<Rightarrow> 'f trade list \<Rightarrow> 'f \<times> 'f option" where
  "calculate_trade_statistics num trades =
     (if trades = [] then (zero_of num, None)
      else let wins = filter (\<lambda>t. nm_lt num (zero_of num) (trade_pnl num t)) trades;
               losses = filter (\<lambda>t. nm_le num (trade_pnl num t) (zero_of num)) trades;
               total_wins = nm_sum num (map (trade_pnl num) wins);
               total_losses = nm_abs num (nm_sum num (map (trade_pnl num) losses))
           in (nm_div num (nm_of_int num (int (length wins))) (nm_of_int num (int (length trades))),
               if nm_lt num (zero_of num) total_losses then Some (nm_div num total_wins total_losses) else None))"

definition calculate_returns :: "'f num_ops \<Rightarrow> 'f list \<Rightarrow> 'f \<Rightarrow> int \<Rightarrow> 'f \<times> 'f \<times> 'f list" where
  "calculate_returns num equity initial_capital num_days =
     (if equity = [] then (zero_of num, zero_of num, [])
      else let zero = zero_of num; one = nm_of_int num 1;
               total_return = (if nm_lt num zero initial_capital
                 then nm_div num (nm_sub num (last equity) initial_capital) initial_capital else zero);
               annual_return =
                 (if num_days \<le> 0 then zero
                  else if nm_lt num zero (nm_add num one total_return)
                  then nm_sub num (nm_pow num (nm_add num one total_return) (nm_div num (nm_of_int num 252) (nm_of_int num num_days))) one
                  else nm_of_int num (-1));
               daily_returns = map2 (\<lambda>prev cur. nan_to_zero num (if nm_lt num zero prev then np_div num (nm_sub num cur prev) prev else zero))
                 (butlast equity) (tl equity)
           in (total_return, annual_return, daily_returns))"

fun resample_from :: "(int \<times> 'f) list \<Rightarrow> (int \<times> 'f) list \<Rightarrow> (int \<times> 'f) list" where
  "resample_from daily [] = daily"
| "resample_from daily ((t, e) # curve) =
     (if daily \<noteq> [] \<and> ts_date (fst (last daily)) = ts_date t then resample_from (butlast daily @ [(t, e)]) curve
      else resample_from (daily @ [(t, e)]) curve)"

definition resample_daily :: "(int \<times> 'f) list \<Rightarrow> (int \<times> 'f) list" where
  "resample_daily curve = resample_from [] curve"

section \<open>The result of a run\<close>

record 'f run_result =
  rr_trades :: "'f trade list"
  rr_equity_curve :: "(int \<times> 'f) list"
  rr_daily_equity_curve :: "(int \<times> 'f) list"
  rr_rejected_signals :: "'f rejected_signal list"
  rr_final_equity :: 'f
  rr_total_return :: 'f
  rr_annual_return :: 'f
  rr_sharpe_ratio :: 'f
  rr_sortino_ratio :: 'f
  rr_max_drawdown :: 'f
  rr_max_drawdown_duration :: nat
  rr_win_rate :: 'f
  rr_profit_factor :: "'f option"
  rr_daily_returns :: "'f list"
  rr_monthly_returns :: "(string, 'f) dict"
  rr_exposure_time :: 'f

definition finite_or :: "'f num_ops \<Rightarrow> 'f \<Rightarrow> 'f \<Rightarrow> 'f" where
  "finite_or num x d = (if nm_finite num x then x else d)"

definition empty_result :: "'f num_ops \<Rightarrow> 'f \<Rightarrow> 'f run_result" where
  "empty_result num initial_capital =
     (let zero = zero_of num
      in \<lparr>rr_trades = [], rr_equity_curve = [], rr_daily_equity_curve = [], rr_rejected_signals = [], rr_final_equity = initial_capital,
          rr_total_return = zero, rr_annual_return = zero, rr_sharpe_ratio = zero, rr_sortino_ratio = zero, rr_max_drawdown = zero,
          rr_max_drawdown_duration = 0, rr_win_rate = zero, rr_profit_factor = None, rr_daily_returns = [], rr_monthly_returns = [],
          rr_exposure_time = zero\<rparr>)"

definition assemble_result ::
  "'f num_ops \<Rightarrow> 'f \<Rightarrow> (int \<times> 'f) list \<Rightarrow> 'f trade list \<Rightarrow> 'f rejected_signal list \<Rightarrow> nat \<Rightarrow> nat \<Rightarrow> 'f \<Rightarrow> 'f run_result" where
  "assemble_result num initial_capital curve trades rejected days_with_position total_days risk_free_rate =
     (if curve = [] then empty_result num initial_capital
      else let zero = zero_of num; daily_curve = resample_daily curve; equities = map snd daily_curve;
               (total_return, annual_return, daily_returns) = calculate_returns num equities initial_capital (int (length equities));
               (max_drawdown, duration) = calculate_max_drawdown num equities;
               exposure = (if 0 < total_days
                 then nm_mul num (nm_div num (nm_of_int num (int days_with_position)) (nm_of_int num (int total_days))) (nm_of_int num 100)
                 else zero);
               (win_rate, profit_factor) = calculate_trade_statistics num trades
           in \<lparr>rr_trades = trades, rr_equity_curve = curve, rr_daily_equity_curve = daily_curve, rr_rejected_signals = rejected,
               rr_final_equity = finite_or num (last equities) initial_capital,
               rr_total_return = finite_or num total_return zero, rr_annual_return = finite_or num annual_return zero,
               rr_sharpe_ratio = finite_or num (calculate_sharpe_ratio num daily_returns risk_free_rate) zero,
               rr_sortino_ratio = finite_or num (calculate_sortino_ratio num daily_returns risk_free_rate) zero,
               rr_max_drawdown = finite_or num max_drawdown zero, rr_max_drawdown_duration = duration,
               rr_win_rate = finite_or num win_rate zero,
               rr_profit_factor = (case profit_factor of None \<Rightarrow> None | Some x \<Rightarrow> if nm_finite num x then Some x else None),
               rr_daily_returns = daily_returns, rr_monthly_returns = calculate_monthly_returns num daily_curve initial_capital,
               rr_exposure_time = finite_or num exposure zero\<rparr>)"

section \<open>The daily grid\<close>

fun days_apart :: "(int \<times> 'f) list \<Rightarrow> bool" where
  "days_apart (a # b # xs) \<longleftrightarrow> ts_date (fst a) \<noteq> ts_date (fst b) \<and> days_apart (b # xs)"
| "days_apart _ = True"

lemma days_apart_snoc: "days_apart (xs @ [b]) \<longleftrightarrow> days_apart xs \<and> (xs \<noteq> [] \<longrightarrow> ts_date (fst (last xs)) \<noteq> ts_date (fst b))"
  by (induction xs rule: days_apart.induct) auto

lemma days_apart_replace:
  "days_apart (xs @ [a]) \<Longrightarrow> ts_date (fst a) = ts_date (fst b) \<Longrightarrow> days_apart (xs @ [b])"
  by (simp add: days_apart_snoc)

lemma resample_from_ok:
  "days_apart daily \<Longrightarrow> days_apart (resample_from daily curve) \<and>
   (daily @ curve \<noteq> [] \<longrightarrow> resample_from daily curve \<noteq> [] \<and> last (resample_from daily curve) = last (daily @ curve)) \<and>
   set (resample_from daily curve) \<subseteq> set (daily @ curve)"
proof (induction daily curve rule: resample_from.induct)
  case (2 daily t e curve)
  show ?case
  proof (cases "daily \<noteq> [] \<and> ts_date (fst (last daily)) = ts_date t")
    case True
    then obtain xs x where d: "daily = xs @ [x]" by (metis append_butlast_last_id)
    have "days_apart (xs @ [(t, e)])" using 2(3) True by (auto simp: d intro: days_apart_replace)
    then show ?thesis using 2(1) True by (fastforce simp: d)
  next
    case False
    then have "days_apart (daily @ [(t, e)])" using 2(3) by (auto simp: days_apart_snoc)
    then show ?thesis using 2(2) False by (fastforce simp: not_le)
  qed
qed simp

lemma resample_daily_last:
  "days_apart (resample_daily curve)" "curve \<noteq> [] \<Longrightarrow> resample_daily curve \<noteq> [] \<and> last (resample_daily curve) = last curve"
  "set (resample_daily curve) \<subseteq> set curve"
  using resample_from_ok [of "[]" curve] by (auto simp: resample_daily_def)

lemma resample_daily_id: "days_apart (daily @ curve) \<Longrightarrow> resample_from daily curve = daily @ curve"
proof (induction daily curve rule: resample_from.induct)
  case (2 daily t e curve)
  have "\<not> (daily \<noteq> [] \<and> ts_date (fst (last daily)) = ts_date t)"
  proof
    assume same: "daily \<noteq> [] \<and> ts_date (fst (last daily)) = ts_date t"
    have pre: "days_apart (xs @ ys) \<Longrightarrow> days_apart xs" for xs ys :: "(int \<times> 'a) list"
      by (induction ys rule: rev_induct) (auto simp: days_apart_snoc simp flip: append_assoc)
    from pre [of "daily @ [(t, e)]" curve] 2(3) same show False by (simp add: days_apart_snoc)
  qed
  then show ?case using 2(2,3) by auto
qed simp

section \<open>Drawdowns\<close>

definition nonneg_curve :: "real option list \<Rightarrow> bool" where
  "nonneg_curve xs \<longleftrightarrow> list_all (\<lambda>x. \<exists>r. x = Some r \<and> 0 \<le> r) xs"

lemma accumulate_max_above:
  "0 \<le> p \<Longrightarrow> nonneg_curve xs \<Longrightarrow>
   list_all2 (\<lambda>a x. \<exists>q r. a = Some q \<and> x = Some r \<and> 0 \<le> r \<and> r \<le> q) (accumulate_max (exact_num base) (Some p) xs) xs"
proof (induction xs arbitrary: p)
  case (Cons x xs)
  then obtain r where r: "x = Some r" "0 \<le> r" by (auto simp: nonneg_curve_def)
  have "np_maximum (exact_num base) (Some p) x = Some (max p r)" by (simp add: r np_maximum_def larger_def)
  then show ?case using Cons.IH [of "max p r"] Cons.prems r by (simp add: nonneg_curve_def Let_def)
qed simp

lemma drawdowns_unit:
  assumes "nonneg_curve equity"
  shows "list_all (\<lambda>x. \<exists>r. x = Some r \<and> 0 \<le> r \<and> r \<le> 1) (drawdowns (exact_num base) equity)" "length (drawdowns (exact_num base) equity) = length equity"
proof -
  let ?f = "\<lambda>peak e. nan_to_zero (exact_num base) (if lift_rel (<) (Some 0) peak then exact_div (lift2 (-) peak e) peak else Some 0)"
  have peaks: "list_all2 (\<lambda>a x. \<exists>q r. a = Some q \<and> x = Some r \<and> 0 \<le> r \<and> r \<le> q) (running_peak (exact_num base) equity) equity"
  proof (cases equity)
    case (Cons x xs)
    then obtain r where "x = Some r" "0 \<le> r" "nonneg_curve xs" using assms by (auto simp: nonneg_curve_def)
    then show ?thesis using accumulate_max_above [of r xs base] by (simp add: running_peak_def Cons)
  qed (simp add: running_peak_def)
  have "list_all (\<lambda>x. \<exists>r. x = Some r \<and> 0 \<le> r \<and> r \<le> 1) (map2 ?f ps xs)"
    if "list_all2 (\<lambda>a x. \<exists>q r. a = Some q \<and> x = Some r \<and> 0 \<le> r \<and> r \<le> q) ps xs" for ps xs
    using that by (induction rule: list_all2_induct) (auto simp: nan_to_zero_def divide_le_eq)
  from this [OF peaks] show "list_all (\<lambda>x. \<exists>r. x = Some r \<and> 0 \<le> r \<and> r \<le> 1) (drawdowns (exact_num base) equity)"
    by (simp add: drawdowns_def cong: if_cong)
  show "length (drawdowns (exact_num base) equity) = length equity"
    using list_all2_lengthD [OF peaks] by (simp add: drawdowns_def)
qed

lemma drawdown_duration_le: "drawdown_duration num dds cur longest \<le> max longest (cur + length dds)"
proof (induction dds arbitrary: cur longest)
  case (Cons dd dds)
  show ?case using Cons [of "cur + 1" "max longest (cur + 1)"] Cons [of 0 longest] by auto
qed simp

lemma drawdown_bounds:
  assumes "nonneg_curve equity"
  shows "\<exists>r. fst (calculate_max_drawdown (exact_num base) equity) = Some r \<and> 0 \<le> r \<and> r \<le> 1"
    "snd (calculate_max_drawdown (exact_num base) equity) \<le> length equity"
proof -
  let ?dds = "drawdowns (exact_num base) equity"
  note unit = drawdowns_unit [OF assms, of base]
  show "\<exists>r. fst (calculate_max_drawdown (exact_num base) equity) = Some r \<and> 0 \<le> r \<and> r \<le> 1"
  proof (cases "equity = []")
    case False
    have ne: "?dds \<noteq> []" using unit(2) False by auto
    have "None \<notin> set ?dds" using unit(1) by (auto simp: list_all_iff)
    moreover have "Max (the ` set ?dds) \<in> the ` set ?dds" using ne by (intro Max_in) auto
    moreover from this obtain x where x: "x \<in> set ?dds" "Max (the ` set ?dds) = the x" by (elim imageE)
    moreover have "0 \<le> the x \<and> the x \<le> 1" using unit(1) x(1) by (auto simp: list_all_iff)
    ultimately show ?thesis using ne False by (auto simp: calculate_max_drawdown_def Let_def exact_pick_def)
  qed (simp add: calculate_max_drawdown_def)
  show "snd (calculate_max_drawdown (exact_num base) equity) \<le> length equity"
    using drawdown_duration_le [of "exact_num base" ?dds 0 0] unit(2) by (simp add: calculate_max_drawdown_def Let_def)
qed

end
