(* ===== verification/Runtime_Feed.thy ===== *)
theory Runtime_Feed
  imports Runtime_Orders
begin

text \<open>
  The bar feeds (\<^verbatim>\<open>libs/runtime/llamatrade_runtime\<close>: \<^verbatim>\<open>aggregation.py\<close>, \<^verbatim>\<open>feed.py\<close>). A tick is
  a timestamp, the bars of the symbols and the warm-up flag; an async iterator is the list of what it
  yields. \<open>period_start\<close> maps a timestamp to the start of its period; the exchange calendar behind its
  default is data of the platform, so it is a parameter, and all that is used of it is that the start
  of a period lies in the period (\<open>period_starts\<close>).

  \<open>forming_history\<close>: a history fed with every forming bar of an intraday stream is the history fed with
  the completed period bars, as a backtest feeds it, whatever the window. \<open>historical_tick\<close> says what
  the replay yields.
\<close>

section \<open>Forming bars\<close>

type_synonym 'f forming = "(string, 'f bar) dict"

definition aggregate_bar ::
  "'f num_ops \<Rightarrow> (int \<Rightarrow> int) \<Rightarrow> 'f forming \<Rightarrow> string \<Rightarrow> 'f bar \<Rightarrow> 'f forming \<times> 'f bar" where
  "aggregate_bar num period_start forming symbol b =
     (let period = period_start (bar_timestamp b);
          fresh = b\<lparr>bar_timestamp := period\<rparr>;
          bar1 = (case map_of forming symbol of
                    None \<Rightarrow> fresh
                  | Some current \<Rightarrow>
                      if period_start (bar_timestamp current) \<noteq> period then fresh
                      else \<lparr>bar_timestamp = bar_timestamp current, bar_open = bar_open current,
                            bar_high = larger num (bar_high current) (bar_high b), bar_low = smaller num (bar_low current) (bar_low b),
                            bar_close = bar_close b, bar_volume = bar_volume current + bar_volume b\<rparr>)
      in (AList.update symbol bar1 forming, bar1))"

definition current_bar :: "'f forming \<Rightarrow> string \<Rightarrow> 'f bar option" where
  "current_bar forming symbol = map_of forming symbol"

section \<open>Replay\<close>

type_synonym 'f tick = "int \<times> (string, 'f bar) dict \<times> bool"

definition bars_by_date :: "(string, 'f bar list) dict \<Rightarrow> int \<Rightarrow> (int, (string, 'f bar) dict) dict" where
  "bars_by_date bars end_date =
     foldl (\<lambda>d (symbol, bs). foldl (\<lambda>d b.
       if bar_timestamp b \<le> end_date then dict_modify (bar_timestamp b) [] (AList.update symbol b) d else d) d bs) [] bars"

definition historical_ticks :: "(string, 'f bar list) dict \<Rightarrow> int \<Rightarrow> int \<Rightarrow> 'f tick list" where
  "historical_ticks bars start_date end_date =
     (let by_date = bars_by_date bars end_date
      in map (\<lambda>date. (date, dict_get by_date date [], date < start_date)) (sort (keys by_date)))"

definition total_ticks :: "(string, 'f bar list) dict \<Rightarrow> int \<Rightarrow> int \<Rightarrow> nat" where
  "total_ticks bars start_date end_date = length (filter (\<lambda>date. start_date \<le> date) (sort (keys (bars_by_date bars end_date))))"

section \<open>Live\<close>

record 'f live_feed =
  lf_symbols :: "string list"
  lf_forming :: "'f forming"
  lf_latest :: "(string, 'f bar) dict"
  lf_latest_ts :: "(string, int) dict"
  lf_last_evaluated :: "int option"

definition new_feed :: "string list \<Rightarrow> 'f forming \<Rightarrow> 'f live_feed" where
  "new_feed symbols forming = \<lparr>lf_symbols = symbols, lf_forming = forming, lf_latest = [], lf_latest_ts = [], lf_last_evaluated = None\<rparr>"

definition feed_step ::
  "'f num_ops \<Rightarrow> (int \<Rightarrow> int) \<Rightarrow> (int \<Rightarrow> bool) option \<Rightarrow> 'f live_feed \<Rightarrow> string \<Rightarrow> 'f bar \<Rightarrow> 'f live_feed \<times> 'f tick option" where
  "feed_step num period_start gate lf symbol b =
     (if symbol \<notin> set (lf_symbols lf) then (lf, None)
      else case aggregate_bar num period_start (lf_forming lf) symbol b of (forming, bar1) \<Rightarrow>
        let ts = bar_timestamp b;
            lf1 = lf\<lparr>lf_forming := forming, lf_latest := AList.update symbol bar1 (lf_latest lf),
                     lf_latest_ts := AList.update symbol ts (lf_latest_ts lf)\<rparr>
        in if list_ex (\<lambda>s. map_of (lf_latest_ts lf1) s \<noteq> Some ts) (lf_symbols lf1) then (lf1, None)
           else if lf_last_evaluated lf1 = Some ts then (lf1, None)
           else let lf2 = lf1\<lparr>lf_last_evaluated := Some ts\<rparr>
                in if (case gate of None \<Rightarrow> False | Some g \<Rightarrow> \<not> g ts) then (lf2, None)
                   else (lf2, Some (ts, lf_latest lf2, False)))"

text \<open>A source element comes with the answer of \<^verbatim>\<open>is_running\<close> before it is read.\<close>

fun live_ticks ::
  "'f num_ops \<Rightarrow> (int \<Rightarrow> int) \<Rightarrow> (int \<Rightarrow> bool) option \<Rightarrow> 'f live_feed \<Rightarrow> (bool \<times> string \<times> 'f bar) list \<Rightarrow> 'f live_feed \<times> 'f tick list" where
  "live_ticks num period_start gate lf [] = (lf, [])"
| "live_ticks num period_start gate lf ((running, symbol, b) # source) =
     (if \<not> running then (lf, [])
      else case feed_step num period_start gate lf symbol b of (lf1, t) \<Rightarrow>
        case live_ticks num period_start gate lf1 source of (lf2, ts) \<Rightarrow> (lf2, (case t of None \<Rightarrow> ts | Some x \<Rightarrow> x # ts)))"

section \<open>One slot per period\<close>

definition period_starts :: "(int \<Rightarrow> int) \<Rightarrow> bool" where
  "period_starts period_start \<longleftrightarrow> (\<forall>t. period_start (period_start t) = period_start t)"

text \<open>The forming bars that the bars of one symbol produce, and the completed bar of a period.\<close>

fun forming_bars :: "'f num_ops \<Rightarrow> (int \<Rightarrow> int) \<Rightarrow> 'f forming \<Rightarrow> string \<Rightarrow> 'f bar list \<Rightarrow> 'f bar list" where
  "forming_bars num period_start forming symbol [] = []"
| "forming_bars num period_start forming symbol (b # bs) =
     (case aggregate_bar num period_start forming symbol b of (forming1, bar1) \<Rightarrow>
        bar1 # forming_bars num period_start forming1 symbol bs)"

definition period_bar :: "'f num_ops \<Rightarrow> (int \<Rightarrow> int) \<Rightarrow> 'f bar list \<Rightarrow> 'f bar" where
  "period_bar num period_start bs =
     \<lparr>bar_timestamp = period_start (bar_timestamp (hd bs)), bar_open = bar_open (hd bs),
      bar_high = foldl (larger num) (bar_high (hd bs)) (map bar_high (tl bs)),
      bar_low = foldl (smaller num) (bar_low (hd bs)) (map bar_low (tl bs)),
      bar_close = bar_close (last bs), bar_volume = sum_list (map bar_volume bs)\<rparr>"

text \<open>A stream cut into its periods.\<close>

fun periods_ok :: "(int \<Rightarrow> int) \<Rightarrow> 'f bar list list \<Rightarrow> bool" where
  "periods_ok period_start [] = True"
| "periods_ok period_start (g # gs) \<longleftrightarrow>
     g \<noteq> [] \<and> list_all (\<lambda>b. period_start (bar_timestamp b) = period_start (bar_timestamp (hd g))) g \<and>
     (gs \<noteq> [] \<longrightarrow> period_start (bar_timestamp (hd (hd gs))) \<noteq> period_start (bar_timestamp (hd g))) \<and>
     periods_ok period_start gs"

text \<open>Sending a period again replaces its slot.\<close>

lemma push_again:
  assumes "\<forall>w. window = Some w \<longrightarrow> 0 < w" "bar_timestamp b = bar_timestamp a" "h = [] \<or> bar_timestamp (last h) \<noteq> bar_timestamp a"
  shows "push_bar window (push_bar window h a) b = push_bar window h b"
proof -
  have "\<not> (h \<noteq> [] \<and> bar_timestamp (last h) = bar_timestamp a)" using assms(3) by blast
  then have push: "push_bar window h x = (case window of None \<Rightarrow> h @ [x]
      | Some w \<Rightarrow> if w < int (length (h @ [x])) then drop (length (slice_to (h @ [x]) (- w))) (h @ [x]) else h @ [x])"
    if "bar_timestamp x = bar_timestamp a" for x
    using that by (auto simp: push_bar_def Let_def)
  define k where "k = (case window of None \<Rightarrow> 0 | Some w \<Rightarrow> if w < int (length h + 1) then length h + 1 - nat w else 0)"
  have k: "k \<le> length h" using assms(1) by (auto simp: k_def split: option.split)
  have "push_bar window h x = drop k h @ [x]" if "bar_timestamp x = bar_timestamp a" for x
    using k push [OF that] assms(1) by (auto simp: k_def slice_to_def split: option.splits)
  then show ?thesis using assms(2) by (simp add: push_bar_def)
qed

lemma foldl_replace:
  assumes "\<forall>w. window = Some w \<longrightarrow> 0 < w" "h = [] \<or> bar_timestamp (last h) \<noteq> t" "bs \<noteq> []" "list_all (\<lambda>b. bar_timestamp b = t) bs"
  shows "foldl (push_bar window) h bs = push_bar window h (last bs)"
  using assms(3,4)
proof (induction bs rule: rev_induct)
  case (snoc b bs)
  show ?case
  proof (cases "bs = []")
    case False
    then have "foldl (push_bar window) h bs = push_bar window h (last bs)" "bar_timestamp (last bs) = t" "bar_timestamp b = t"
      using snoc by (simp_all add: list_all_iff)
    then show ?thesis using push_again [OF assms(1), of b "last bs" h] assms(2) by simp
  qed simp
qed simp

definition forming_after :: "'f num_ops \<Rightarrow> (int \<Rightarrow> int) \<Rightarrow> 'f forming \<Rightarrow> string \<Rightarrow> 'f bar list \<Rightarrow> 'f forming" where
  "forming_after num period_start forming symbol bs = foldl (\<lambda>d b. fst (aggregate_bar num period_start d symbol b)) forming bs"

lemma forming_bars_append:
  "forming_bars num ps forming symbol (xs @ ys) =
   forming_bars num ps forming symbol xs @ forming_bars num ps (forming_after num ps forming symbol xs) symbol ys"
  by (induction xs arbitrary: forming) (simp_all add: forming_after_def split: prod.split)

lemma forming_after_snoc:
  "forming_after num ps forming symbol (bs @ [b]) = fst (aggregate_bar num ps (forming_after num ps forming symbol bs) symbol b)"
  by (simp add: forming_after_def)

definition outside :: "(int \<Rightarrow> int) \<Rightarrow> 'f forming \<Rightarrow> string \<Rightarrow> int \<Rightarrow> bool" where
  "outside ps forming symbol p \<longleftrightarrow> (case map_of forming symbol of None \<Rightarrow> True | Some c \<Rightarrow> ps (bar_timestamp c) \<noteq> p)"

text \<open>Within a period the forming bar is the bar of the period so far.\<close>

lemma period_bar_forms:
  assumes ps: "period_starts ps" and out: "outside ps forming symbol p"
    and g: "g \<noteq> []" "list_all (\<lambda>b. ps (bar_timestamp b) = p) g"
  shows "map_of (forming_after num ps forming symbol g) symbol = Some (period_bar num ps g) \<and>
    forming_bars num ps forming symbol g \<noteq> [] \<and>
    last (forming_bars num ps forming symbol g) = period_bar num ps g \<and>
    list_all (\<lambda>b. bar_timestamp b = p) (forming_bars num ps forming symbol g)"
  using g
proof (induction g rule: rev_induct)
  case (snoc b g)
  have b: "ps (bar_timestamp b) = p" using snoc.prems by simp
  show ?case
  proof (cases "g = []")
    case True
    have "aggregate_bar num ps forming symbol b = (AList.update symbol (b\<lparr>bar_timestamp := p\<rparr>) forming, b\<lparr>bar_timestamp := p\<rparr>)"
      using out b by (auto simp: aggregate_bar_def outside_def Let_def split: option.splits)
    moreover have "period_bar num ps [b] = b\<lparr>bar_timestamp := p\<rparr>" by (simp add: period_bar_def b)
    ultimately show ?thesis using True by (simp add: forming_after_def map_of_update)
  next
    case False
    then have IH: "map_of (forming_after num ps forming symbol g) symbol = Some (period_bar num ps g)"
      "list_all (\<lambda>b. bar_timestamp b = p) (forming_bars num ps forming symbol g)"
      using snoc by simp_all
    have hd: "ps (bar_timestamp (hd g)) = p" using False snoc.prems by (cases g) auto
    have t: "bar_timestamp (period_bar num ps g) = p" by (simp add: period_bar_def hd)
    have "ps p = p" using ps hd by (metis period_starts_def)
    then have "aggregate_bar num ps (forming_after num ps forming symbol g) symbol b =
        (AList.update symbol (period_bar num ps (g @ [b])) (forming_after num ps forming symbol g), period_bar num ps (g @ [b]))"
      using IH(1) t b False hd by (simp add: aggregate_bar_def Let_def) (simp add: period_bar_def)
    then show ?thesis using IH(2) t False
      by (simp add: forming_after_snoc forming_bars_append map_of_update) (simp add: period_bar_def)
  qed
qed simp

lemma forming_groups:
  assumes ps: "period_starts ps" and w: "\<forall>w. window = Some w \<longrightarrow> 0 < w"
  shows "periods_ok ps gs \<Longrightarrow> (gs \<noteq> [] \<longrightarrow> outside ps forming symbol (ps (bar_timestamp (hd (hd gs)))) \<and>
      (h = [] \<or> bar_timestamp (last h) \<noteq> ps (bar_timestamp (hd (hd gs))))) \<Longrightarrow>
    foldl (push_bar window) h (forming_bars num ps forming symbol (concat gs)) = foldl (push_bar window) h (map (period_bar num ps) gs)"
proof (induction gs arbitrary: forming h)
  case (Cons g gs)
  let ?p = "ps (bar_timestamp (hd g))"
  let ?forming = "forming_after num ps forming symbol g" and ?h = "push_bar window h (period_bar num ps g)"
  have g: "g \<noteq> []" "list_all (\<lambda>b. ps (bar_timestamp b) = ?p) g" and gs: "periods_ok ps gs" using Cons.prems(1) by simp_all
  have pre: "outside ps forming symbol ?p" "h = [] \<or> bar_timestamp (last h) \<noteq> ?p" using Cons.prems(2) by simp_all
  note form = period_bar_forms [OF ps pre(1) g, of num]
  have first: "foldl (push_bar window) h (forming_bars num ps forming symbol g) = ?h"
    using foldl_replace [OF w pre(2), of "forming_bars num ps forming symbol g"] form by simp
  have "ps ?p = ?p" using ps by (simp add: period_starts_def)
  then have out: "outside ps ?forming symbol (ps (bar_timestamp (hd (hd gs))))" if "gs \<noteq> []"
    using form Cons.prems(1) that by (auto simp: outside_def period_bar_def)
  have last: "?h \<noteq> [] \<and> last ?h = period_bar num ps g"
    using w pre(2) by (auto simp: push_bar_def Let_def slice_to_def period_bar_def split: option.split)
  have "bar_timestamp (period_bar num ps g) = ?p" by (simp add: period_bar_def)
  then have "gs \<noteq> [] \<longrightarrow> bar_timestamp (last ?h) \<noteq> ps (bar_timestamp (hd (hd gs)))" using last Cons.prems(1) by auto
  then have "foldl (push_bar window) ?h (forming_bars num ps ?forming symbol (concat gs)) = foldl (push_bar window) ?h (map (period_bar num ps) gs)"
    using Cons.IH [OF gs] out by blast
  then show ?case by (simp add: forming_bars_append first)
qed simp

lemma forming_history:
  assumes "period_starts ps" "\<forall>w. window = Some w \<longrightarrow> 0 < w" "periods_ok ps gs" "map_of forming symbol = None"
  shows "foldl (push_bar window) [] (forming_bars num ps forming symbol (concat gs)) = foldl (push_bar window) [] (map (period_bar num ps) gs)"
  using assms by (intro forming_groups) (auto simp: outside_def)

section \<open>What the replay yields\<close>

definition last_at :: "int \<Rightarrow> 'f bar list \<Rightarrow> 'f bar option" where
  "last_at date bs = (let xs = filter (\<lambda>b. bar_timestamp b = date) bs in if xs = [] then None else Some (last xs))"

definition place :: "int \<Rightarrow> string \<Rightarrow> (int, (string, 'f bar) dict) dict \<Rightarrow> 'f bar \<Rightarrow> (int, (string, 'f bar) dict) dict" where
  "place end_date symbol d b =
     (if bar_timestamp b \<le> end_date then dict_modify (bar_timestamp b) [] (AList.update symbol b) d else d)"

lemma bars_by_date_place:
  "bars_by_date bars end_date = foldl (\<lambda>d (symbol, bs). foldl (place end_date symbol) d bs) [] bars"
  by (simp add: bars_by_date_def place_def [abs_def])

lemma place_all:
  "map_of (dict_get (foldl (place end_date symbol) d bs) date []) s =
     (if s = symbol \<and> date \<le> end_date \<and> last_at date bs \<noteq> None then last_at date bs else map_of (dict_get d date []) s)"
proof (induction bs rule: rev_induct)
  case (snoc b bs)
  then show ?case by (auto simp: place_def dict_get_modify map_of_update last_at_def Let_def)
qed (simp add: last_at_def)

lemma keys_place_all:
  "set (keys (foldl (place end_date symbol) d bs)) = set (keys d) \<union> {bar_timestamp b |b. b \<in> set bs \<and> bar_timestamp b \<le> end_date}"
  "wf_dict d \<Longrightarrow> wf_dict (foldl (place end_date symbol) d bs)"
proof (induction bs rule: rev_induct)
  case (snoc b bs)
  {
    case 1
    then show ?case using snoc(1) by (auto simp: place_def dict_modify_def AList.dom_update)
  next
    case 2
    then show ?case using snoc(2) by (simp add: place_def)
  }
qed simp_all

lemma bars_by_date_keys:
  "set (keys (bars_by_date bars end_date)) = {bar_timestamp b |s bs b. (s, bs) \<in> set bars \<and> b \<in> set bs \<and> bar_timestamp b \<le> end_date}"
  "wf_dict (bars_by_date bars end_date)"
  unfolding bars_by_date_place
proof (induction bars rule: rev_induct)
  case (snoc p bars)
  obtain s bs where p: "p = (s, bs)" by (cases p)
  {
    case 1
    then show ?case using snoc(1) by (auto simp: p keys_place_all(1) simp del: set_map)
  next
    case 2
    then show ?case using snoc(2) by (simp add: p keys_place_all(2) del: set_map)
  }
qed simp_all

lemma bars_by_date_lookup:
  "wf_dict bars \<Longrightarrow> map_of (dict_get (bars_by_date bars end_date) date []) s =
     (if date \<le> end_date then Option.bind (map_of bars s) (last_at date) else None)"
  unfolding bars_by_date_place
proof (induction bars rule: rev_induct)
  case (snoc p bars)
  obtain k bs where p: "p = (k, bs)" by (cases p)
  have "map_of bars k = None" using snoc.prems by (auto simp: p map_of_eq_None_iff)
  then show ?case using snoc by (auto simp: p place_all map_add_def split: option.split)
qed (simp add: dict_get_def)

lemma historical_tick:
  assumes "wf_dict bars" "(date, tick, warm) \<in> set (historical_ticks bars start_date end_date)"
  shows "warm \<longleftrightarrow> date < start_date" "date \<le> end_date" "map_of tick s = Option.bind (map_of bars s) (last_at date)"
proof -
  have d: "date \<in> set (keys (bars_by_date bars end_date))" and t: "tick = dict_get (bars_by_date bars end_date) date []"
      and w: "warm = (date < start_date)"
    using assms(2) by (auto simp: historical_ticks_def Let_def)
  show "warm \<longleftrightarrow> date < start_date" by (simp add: w)
  show "date \<le> end_date" using d unfolding bars_by_date_keys(1) by auto
  then show "map_of tick s = Option.bind (map_of bars s) (last_at date)" using bars_by_date_lookup [OF assms(1)] by (simp add: t)
qed

lemma historical_dates:
  "sorted_wrt (<) (map fst (historical_ticks bars start_date end_date))"
  "set (map fst (historical_ticks bars start_date end_date)) =
     {bar_timestamp b |s bs b. (s, bs) \<in> set bars \<and> b \<in> set bs \<and> bar_timestamp b \<le> end_date}"
  "length (filter (\<lambda>(date, tick, warm). \<not> warm) (historical_ticks bars start_date end_date)) = total_ticks bars start_date end_date"
proof -
  have dates: "map fst (historical_ticks bars start_date end_date) = sort (keys (bars_by_date bars end_date))"
    by (simp add: historical_ticks_def Let_def comp_def)
  show "sorted_wrt (<) (map fst (historical_ticks bars start_date end_date))"
    using bars_by_date_keys(2) unfolding dates strict_sorted_iff by simp
  show "set (map fst (historical_ticks bars start_date end_date)) =
     {bar_timestamp b |s bs b. (s, bs) \<in> set bars \<and> b \<in> set bs \<and> bar_timestamp b \<le> end_date}"
    unfolding dates set_sort by (rule bars_by_date_keys(1))
  show "length (filter (\<lambda>(date, tick, warm). \<not> warm) (historical_ticks bars start_date end_date)) = total_ticks bars start_date end_date"
    by (simp add: historical_ticks_def total_ticks_def Let_def filter_map comp_def not_less)
qed

end
