(* ===== verification/Runtime_Session.thy ===== *)
theory Runtime_Session
  imports Runtime_Compiled Runtime_Metrics Runtime_Feed
begin

text \<open>
  The session and the run loop (\<^verbatim>\<open>libs/runtime/llamatrade_runtime\<close>: \<^verbatim>\<open>session.py\<close>, \<^verbatim>\<open>strategy.py\<close>,
  \<^verbatim>\<open>runtime.py\<close>, \<^verbatim>\<open>observer.py\<close>). An execution adapter is a record of its two operations; the answers
  of the callbacks \<^verbatim>\<open>should_abort\<close> and \<^verbatim>\<open>should_stop\<close> are functions of the number of earlier calls.
  What the observer is told is the list of events. A worker thread that evaluates the same call is
  the call.

  The locales \<open>order_adapter\<close> and \<open>book_adapter\<close> are what the loops need of an adapter to keep a property
  of the book; the simulated adapter satisfies them for the cover of the cash and for the balance
  of the books.
\<close>

section \<open>The session\<close>

record 'f session =
  se_compiled :: "'f compiled"
  se_symbols :: "string set"
  se_rebalance_freq :: "string option"
  se_options :: "'f sizing_options"
  se_last_rebalance :: "int option"
  se_current_weights :: "'f weights"
  se_sub_notional_skips :: nat

fun strategy_rebalance :: "'f block \<Rightarrow> string option" where
  "strategy_rebalance (StrategyB name kids attrs) = at_rebalance attrs"
| "strategy_rebalance _ = None"

text \<open>The strategy is its text or its syntax tree; what goes wrong in parsing or compiling is re-raised.\<close>

definition new_session ::
  "'f num_ops \<Rightarrow> 'f float_ops \<Rightarrow> string + 'f block \<Rightarrow> sizing_mode \<Rightarrow> 'f \<Rightarrow> 'f \<Rightarrow> 'f session result" where
  "new_session num ops strategy mode drift_tolerance min_order_notional =
     bindR (case strategy of
              Inl text \<Rightarrow> (case parse_source ops text of Inl e \<Rightarrow> Inl ValueError | Inr s \<Rightarrow> Inr s)
            | Inr s \<Rightarrow> Inr s) (\<lambda>ast.
       bindR (validate ops ast) (\<lambda>(valid, errs).
         if \<not> valid then Inl ValueError
         else case compile_strategy ops ast of
                Inl e \<Rightarrow> Inl ValueError
              | Inr c \<Rightarrow> Inr \<lparr>se_compiled = c, se_symbols = get_required_symbols ast, se_rebalance_freq = strategy_rebalance ast,
                  se_options = \<lparr>so_mode = mode, so_drift_tolerance = drift_tolerance, so_min_weight_change = sizing_min_weight_change num,
                    so_min_order_notional = min_order_notional, so_quantization = None\<rparr>,
                  se_last_rebalance = None, se_current_weights = [], se_sub_notional_skips = 0\<rparr>))"

definition build_session ::
  "'f num_ops \<Rightarrow> 'f float_ops \<Rightarrow> string \<Rightarrow> sizing_mode \<Rightarrow> 'f \<Rightarrow> 'f \<Rightarrow> ('f session \<times> string set \<times> int) result" where
  "build_session num ops config mode drift_tolerance min_order_notional =
     bindR (new_session num ops (Inl config) mode drift_tolerance min_order_notional) (\<lambda>se.
       Inr (se, se_symbols se, co_min_bars (se_compiled se)))"

definition latest_date :: "(string, 'f bar) dict \<Rightarrow> int" where
  "latest_date bars = Max (set (map (\<lambda>b. ts_date (bar_timestamp b)) (vals bars)))"

definition derive_free_cash :: "'f num_ops \<Rightarrow> (string, 'f holding) dict \<Rightarrow> (string, 'f) dict \<Rightarrow> 'f \<Rightarrow> 'f" where
  "derive_free_cash num holdings prices equity =
     (let held = filter (\<lambda>(symbol, h). \<not> nm_le num (hd_quantity h) (zero_of num)) holdings;
          priced = (\<lambda>(symbol, h). nm_lt num (zero_of num) (dict_get prices symbol (zero_of num)))
      in if filter (\<lambda>p. \<not> priced p) held \<noteq> [] then zero_of num
         else nm_sub num equity (foldl (\<lambda>acc (symbol, h). nm_add num acc (nm_mul num (hd_quantity h) (dict_get prices symbol (zero_of num))))
                (zero_of num) (filter priced held)))"

definition close_prices_of :: "(string, 'f bar) dict \<Rightarrow> (string, 'f) dict" where
  "close_prices_of bars = map (\<lambda>(symbol, b). (symbol, bar_close b)) bars"

definition evaluate_session ::
  "'f num_ops \<Rightarrow> 'f float_ops \<Rightarrow> 'f session \<Rightarrow> (string, 'f bar) dict \<Rightarrow> (string, 'f holding) dict \<Rightarrow> 'f \<Rightarrow> bool \<Rightarrow>
   'f session \<times> 'f intended_order list result" where
  "evaluate_session num ops se bars holdings equity warm_up =
     (if bars = [] then (se, Inr [])
      else let current = latest_date bars
           in if warm_up \<or> \<not> should_rebalance current (se_last_rebalance se) (se_rebalance_freq se)
              then (se\<lparr>se_compiled := add_bars (se_compiled se) bars\<rparr>, Inr [])
              else case compute_allocation num ops (se_compiled se) bars of
                     (c, Inl e) \<Rightarrow> (se\<lparr>se_compiled := c\<rparr>, Inl e)
                   | (c, Inr (weights, rebalance)) \<Rightarrow>
                       let se1 = se\<lparr>se_compiled := c\<rparr>
                       in if weights = [] then (se1, Inr [])
                          else let prices = close_prices_of bars; free_cash = derive_free_cash num holdings prices equity
                               in case size_orders num (se_options se) weights holdings prices equity (se_current_weights se) (Some free_cash) of
                                    Inl e \<Rightarrow> (se1, Inl e)
                                  | Inr (orders, skips) \<Rightarrow>
                                      (se1\<lparr>se_sub_notional_skips := se_sub_notional_skips se + skips, se_current_weights := weights,
                                           se_last_rebalance := Some current\<rparr>, Inr orders))"

definition reset_session :: "'f session \<Rightarrow> 'f session" where
  "reset_session se = se\<lparr>se_compiled := reset_compiled (se_compiled se), se_last_rebalance := None, se_current_weights := [],
     se_sub_notional_skips := 0\<rparr>"

section \<open>The run loop\<close>

record 'f adapter =
  ad_execute :: "'f intended_order \<Rightarrow> 'f bar \<Rightarrow> 'f portfolio \<Rightarrow> int \<Rightarrow> 'f portfolio \<times> 'f exec_outcome"
  ad_liquidate :: "'f portfolio \<Rightarrow> int \<Rightarrow> 'f portfolio \<times> 'f exec_outcome list"

definition simulated :: "'f num_ops \<Rightarrow> 'f execution \<Rightarrow> 'f adapter" where
  "simulated num ex = \<lparr>ad_execute = execute_order num ex, ad_liquidate = liquidate num ex\<rparr>"

datatype 'f event =
    OnStart "nat option"
  | OnTick nat "nat option" int 'f
  | OnFill "'f fill"
  | OnTrade "'f trade"
  | OnReject "'f rejected_signal"
  | OnComplete "'f run_result"

datatype run_error = Cancelled int | Raised py_error

record 'f run =
  rn_session :: "'f session"
  rn_portfolio :: "'f portfolio"
  rn_curve :: "(int \<times> 'f) list"
  rn_rejected :: "'f rejected_signal list"
  rn_days_with_position :: nat
  rn_total_days :: nat
  rn_events :: "'f event list"

definition start_run :: "'f session \<Rightarrow> 'f portfolio \<Rightarrow> nat option \<Rightarrow> 'f run" where
  "start_run se pf ticks = \<lparr>rn_session = se, rn_portfolio = pf, rn_curve = [], rn_rejected = [], rn_days_with_position = 0,
     rn_total_days = 0, rn_events = [OnStart ticks]\<rparr>"

definition emit :: "'f exec_outcome \<Rightarrow> 'f run \<Rightarrow> 'f run" where
  "emit oc rn = rn\<lparr>
     rn_rejected := rn_rejected rn @ (case oc_rejected oc of None \<Rightarrow> [] | Some r \<Rightarrow> [r]),
     rn_events := rn_events rn @ (case oc_fill oc of None \<Rightarrow> [] | Some f \<Rightarrow> [OnFill f]) @
       (case oc_trade oc of None \<Rightarrow> [] | Some t \<Rightarrow> [OnTrade t]) @ (case oc_rejected oc of None \<Rightarrow> [] | Some r \<Rightarrow> [OnReject r])\<rparr>"

fun execute_orders :: "'f adapter \<Rightarrow> int \<Rightarrow> (string, 'f bar) dict \<Rightarrow> 'f intended_order list \<Rightarrow> 'f run \<Rightarrow> 'f run" where
  "execute_orders ad date bars [] rn = rn"
| "execute_orders ad date bars (ord # orders) rn =
     (case map_of bars (io_symbol ord) of
        None \<Rightarrow> execute_orders ad date bars orders rn
      | Some b \<Rightarrow> (case ad_execute ad ord b (rn_portfolio rn) date of (pf, oc) \<Rightarrow>
          execute_orders ad date bars orders (emit oc (rn\<lparr>rn_portfolio := pf\<rparr>))))"

definition evaluate_and_execute ::
  "'f num_ops \<Rightarrow> 'f float_ops \<Rightarrow> 'f adapter \<Rightarrow> int \<Rightarrow> (string, 'f bar) dict \<Rightarrow> 'f run \<Rightarrow> 'f run result" where
  "evaluate_and_execute num ops ad date bars rn =
     (case evaluate_session num ops (rn_session rn) bars (pf_holdings num (rn_portfolio rn)) (pf_equity num (rn_portfolio rn)) False of
        (se, Inl e) \<Rightarrow> Inl e
      | (se, Inr orders) \<Rightarrow> Inr (execute_orders ad date bars orders (rn\<lparr>rn_session := se\<rparr>)))"

definition price_run :: "(string, 'f bar) dict \<Rightarrow> 'f run \<Rightarrow> 'f run" where
  "price_run bars rn = rn\<lparr>rn_portfolio := update_prices (rn_portfolio rn) (close_prices_of bars)\<rparr>"

definition warm_run :: "'f num_ops \<Rightarrow> 'f float_ops \<Rightarrow> (string, 'f bar) dict \<Rightarrow> 'f run \<Rightarrow> 'f run" where
  "warm_run num ops bars rn =
     rn\<lparr>rn_session := fst (evaluate_session num ops (rn_session rn) bars [] (pf_equity num (rn_portfolio rn)) True)\<rparr>"

definition run_tick ::
  "'f num_ops \<Rightarrow> 'f float_ops \<Rightarrow> 'f adapter \<Rightarrow> (nat \<Rightarrow> bool) \<Rightarrow> nat option \<Rightarrow> 'f run \<Rightarrow> 'f tick \<Rightarrow> run_error + 'f run" where
  "run_tick num ops ad abort ticks rn t =
     (case t of (date, bars, warm_up) \<Rightarrow>
      let rn1 = price_run bars rn
      in if warm_up then Inr (warm_run num ops bars rn1)
         else if abort (rn_total_days rn1) then Inl (Cancelled date)
         else case evaluate_and_execute num ops ad date bars (rn1\<lparr>rn_total_days := rn_total_days rn1 + 1\<rparr>) of
                Inl e \<Rightarrow> Inl (Raised e)
              | Inr rn2 \<Rightarrow>
                  let equity = pf_equity num (rn_portfolio rn2);
                      rn3 = rn2\<lparr>rn_days_with_position := rn_days_with_position rn2 + (if pf_positions (rn_portfolio rn2) \<noteq> [] then 1 else 0),
                        rn_curve := rn_curve rn2 @ [(date, equity)]\<rparr>
                  in Inr (rn3\<lparr>rn_events := rn_events rn3 @ [OnTick (length (rn_curve rn3)) ticks date equity]\<rparr>))"

fun run_ticks ::
  "'f num_ops \<Rightarrow> 'f float_ops \<Rightarrow> 'f adapter \<Rightarrow> (nat \<Rightarrow> bool) \<Rightarrow> nat option \<Rightarrow> 'f run \<Rightarrow> 'f tick list \<Rightarrow> run_error + 'f run" where
  "run_ticks num ops ad abort ticks rn [] = Inr rn"
| "run_ticks num ops ad abort ticks rn (t # ts) =
     (case run_tick num ops ad abort ticks rn t of Inl e \<Rightarrow> Inl e | Inr rn1 \<Rightarrow> run_ticks num ops ad abort ticks rn1 ts)"

definition finish_run ::
  "'f num_ops \<Rightarrow> 'f adapter \<Rightarrow> 'f \<Rightarrow> 'f tick list \<Rightarrow> 'f run \<Rightarrow> 'f run \<times> 'f run_result" where
  "finish_run num ad risk_free_rate feed rn =
     (let rn1 = (if feed = [] then rn
                 else case ad_liquidate ad (rn_portfolio rn) (fst (last feed)) of (pf, outcomes) \<Rightarrow>
                   foldl (\<lambda>r oc. emit oc r) (rn\<lparr>rn_portfolio := pf\<rparr>) outcomes);
          curve = (if rn_curve rn1 = [] then []
                   else butlast (rn_curve rn1) @ [(fst (last (rn_curve rn1)), pf_equity num (rn_portfolio rn1))]);
          result = assemble_result num (pf_initial_capital (rn_portfolio rn1)) curve (pf_trades (rn_portfolio rn1)) (rn_rejected rn1)
            (rn_days_with_position rn1) (rn_total_days rn1) risk_free_rate
      in (rn1\<lparr>rn_curve := curve, rn_events := rn_events rn1 @ [OnComplete result]\<rparr>, result))"

definition run_strategy ::
  "'f num_ops \<Rightarrow> 'f float_ops \<Rightarrow> 'f adapter \<Rightarrow> 'f \<Rightarrow> (nat \<Rightarrow> bool) \<Rightarrow> nat option \<Rightarrow> 'f session \<Rightarrow> 'f portfolio \<Rightarrow> 'f tick list \<Rightarrow>
   run_error + ('f run \<times> 'f run_result)" where
  "run_strategy num ops ad risk_free_rate abort ticks se pf feed =
     (case run_ticks num ops ad abort ticks (start_run se pf ticks) feed of
        Inl e \<Rightarrow> Inl e
      | Inr rn \<Rightarrow> Inr (finish_run num ad risk_free_rate feed rn))"

text \<open>The live loop never liquidates; it ends with the feed or when it is told to stop.\<close>

fun stream_ticks ::
  "'f num_ops \<Rightarrow> 'f float_ops \<Rightarrow> 'f adapter \<Rightarrow> (nat \<Rightarrow> bool) \<Rightarrow> nat option \<Rightarrow> nat \<Rightarrow> 'f run \<Rightarrow> 'f tick list \<Rightarrow> 'f run result" where
  "stream_ticks num ops ad halt ticks index rn [] = Inr rn"
| "stream_ticks num ops ad halt ticks index rn ((date, bars, warm_up) # feed) =
     (let rn1 = price_run bars rn
      in if warm_up then stream_ticks num ops ad halt ticks index (warm_run num ops bars rn1) feed
         else if halt index then Inr rn1
         else case evaluate_and_execute num ops ad date bars rn1 of
                Inl e \<Rightarrow> Inl e
              | Inr rn2 \<Rightarrow> stream_ticks num ops ad halt ticks (index + 1)
                  (rn2\<lparr>rn_events := rn_events rn2 @ [OnTick (index + 1) ticks date (pf_equity num (rn_portfolio rn2))]\<rparr>) feed)"

section \<open>Orders of a session\<close>

lemma map_of_close_prices: "map_of (close_prices_of bars) symbol = map_option bar_close (map_of bars symbol)"
  by (induction bars) (auto simp: close_prices_of_def)

lemma evaluate_cases:
  assumes "evaluate_session num ops se bars holdings equity warm_up = (se', r)"
  shows "(se_last_rebalance se' = se_last_rebalance se \<and> (r = Inr [] \<or> (\<exists>e. r = Inl e))) \<or>
    (\<not> warm_up \<and> bars \<noteq> [] \<and> should_rebalance (latest_date bars) (se_last_rebalance se) (se_rebalance_freq se) \<and>
     se_last_rebalance se' = Some (latest_date bars) \<and>
     (\<exists>weights orders skips. r = Inr orders \<and> size_orders num (se_options se) weights holdings (close_prices_of bars) equity
        (se_current_weights se) (Some (derive_free_cash num holdings (close_prices_of bars) equity)) = Inr (orders, skips)))"
    "se_rebalance_freq se' = se_rebalance_freq se" "se_options se' = se_options se"
  using assms by (auto simp: evaluate_session_def Let_def split: if_splits prod.splits sum.splits)

lemma evaluate_orders_priced:
  assumes "evaluate_session num ops se bars holdings equity warm_up = (se', Inr orders)" "ord \<in> set orders"
    "map_of bars (io_symbol ord) = Some b"
  shows "io_price ord = bar_close b \<and> \<not> nm_le num (bar_close b) (zero_of num)"
proof -
  from evaluate_cases(1) [OF assms(1)] assms(2) obtain weights skips where
    "size_orders num (se_options se) weights holdings (close_prices_of bars) equity
        (se_current_weights se) (Some (derive_free_cash num holdings (close_prices_of bars) equity)) = Inr (orders, skips)"
    by auto
  from size_orders_shape(4) [OF this] assms(2,3) show ?thesis
    by (auto simp: list_all_iff order_priced_def dict_get_def map_of_close_prices)
qed

section \<open>What the loops need of an adapter\<close>

locale order_adapter =
  fixes num :: "'f num_ops" and ad :: "'f adapter" and keeps :: "'f portfolio \<Rightarrow> bool"
  assumes execute_keeps: "keeps pf \<Longrightarrow> \<not> nm_le num (bar_close b) (zero_of num) \<Longrightarrow> keeps (fst (ad_execute ad ord b pf date))"
    and prices_keep: "keeps pf \<Longrightarrow> keeps (update_prices pf prices)"
begin

lemma execute_orders_keep:
  assumes "\<And>ord b. ord \<in> set orders \<Longrightarrow> map_of bars (io_symbol ord) = Some b \<Longrightarrow> \<not> nm_le num (bar_close b) (zero_of num)"
    "keeps (rn_portfolio rn)"
  shows "keeps (rn_portfolio (execute_orders ad date bars orders rn))"
  using assms
proof (induction orders arbitrary: rn)
  case (Cons ord orders)
  show ?case
  proof (cases "map_of bars (io_symbol ord)")
    case (Some b)
    obtain pf oc where e: "ad_execute ad ord b (rn_portfolio rn) date = (pf, oc)" by fastforce
    have "keeps pf" using execute_keeps [OF Cons.prems(2), of b ord date] Cons.prems(1) [of ord b] Some e by simp
    then have "keeps (rn_portfolio (execute_orders ad date bars orders (emit oc (rn\<lparr>rn_portfolio := pf\<rparr>))))"
      using Cons.prems(1) by (intro Cons.IH) (auto simp: emit_def)
    then show ?thesis using Some e by simp
  next
    case None
    then show ?thesis using Cons.prems Cons.IH [of rn] by auto
  qed
qed simp

lemma evaluate_and_execute_keeps:
  assumes "evaluate_and_execute num ops ad date bars rn = Inr rn'" "keeps (rn_portfolio rn)"
  shows "keeps (rn_portfolio rn')"
proof -
  obtain se orders where ev: "evaluate_session num ops (rn_session rn) bars (pf_holdings num (rn_portfolio rn)) (pf_equity num (rn_portfolio rn)) False
      = (se, Inr orders)" and rn': "rn' = execute_orders ad date bars orders (rn\<lparr>rn_session := se\<rparr>)"
    using assms(1) by (auto simp: evaluate_and_execute_def split: prod.splits sum.splits)
  show ?thesis unfolding rn' using evaluate_orders_priced [OF ev] assms(2) by (intro execute_orders_keep) auto
qed

lemma price_run_keeps: "keeps (rn_portfolio rn) \<Longrightarrow> keeps (rn_portfolio (price_run bars rn))"
  by (simp add: price_run_def prices_keep)

lemma run_tick_keeps:
  assumes "run_tick num ops ad abort ticks rn t = Inr rn'" "keeps (rn_portfolio rn)"
  shows "keeps (rn_portfolio rn')"
proof -
  obtain date bars warm_up where t: "t = (date, bars, warm_up)" by (cases t)
  note pre = price_run_keeps [OF assms(2), of bars]
  show ?thesis
  proof (cases warm_up)
    case True
    then show ?thesis using assms(1) pre by (auto simp: run_tick_def t warm_run_def Let_def)
  next
    case False
    then obtain rn2 where rn2: "evaluate_and_execute num ops ad date bars
          ((price_run bars rn)\<lparr>rn_total_days := rn_total_days (price_run bars rn) + 1\<rparr>) = Inr rn2"
        "rn_portfolio rn' = rn_portfolio rn2"
      using assms(1) by (auto simp: run_tick_def t Let_def split: if_splits sum.splits)
    from evaluate_and_execute_keeps [OF rn2(1)] pre rn2(2) show ?thesis by simp
  qed
qed

lemma run_ticks_keep:
  "run_ticks num ops ad abort ticks rn feed = Inr rn' \<Longrightarrow> keeps (rn_portfolio rn) \<Longrightarrow> keeps (rn_portfolio rn')"
  by (induction feed arbitrary: rn) (auto split: sum.splits intro: run_tick_keeps)

lemma stream_keeps:
  "stream_ticks num ops ad halt ticks index rn feed = Inr rn' \<Longrightarrow> keeps (rn_portfolio rn) \<Longrightarrow> keeps (rn_portfolio rn')"
proof (induction feed arbitrary: rn index)
  case (Cons t feed)
  obtain date bars warm_up where t: "t = (date, bars, warm_up)" by (cases t)
  note pre = price_run_keeps [OF Cons.prems(2), of bars]
  show ?case
  proof (cases warm_up)
    case True
    then show ?thesis using Cons.prems(1) pre by (intro Cons.IH [of index "warm_run num ops bars (price_run bars rn)"]) (auto simp: t Let_def warm_run_def)
  next
    case False
    show ?thesis
    proof (cases "halt index")
      case True
      then show ?thesis using Cons.prems(1) pre \<open>\<not> warm_up\<close> by (auto simp: t Let_def)
    next
      case False
      then obtain rn2 where rn2: "evaluate_and_execute num ops ad date bars (price_run bars rn) = Inr rn2"
          "stream_ticks num ops ad halt ticks (index + 1)
             (rn2\<lparr>rn_events := rn_events rn2 @ [OnTick (index + 1) ticks date (pf_equity num (rn_portfolio rn2))]\<rparr>) feed = Inr rn'"
        using Cons.prems(1) \<open>\<not> warm_up\<close> by (auto simp: t Let_def split: sum.splits)
      show ?thesis using Cons.IH [OF rn2(2)] evaluate_and_execute_keeps [OF rn2(1) pre] by simp
    qed
  qed
qed simp

end

locale book_adapter = order_adapter +
  assumes liquidate_keeps_book: "keeps pf \<Longrightarrow> keeps (fst (ad_liquidate ad pf date))"
begin

lemma finish_keeps:
  assumes "keeps (rn_portfolio rn)"
  shows "keeps (rn_portfolio (fst (finish_run num ad rf feed rn)))"
proof -
  have emits: "rn_portfolio (foldl (\<lambda>r oc. emit oc r) r ocs) = rn_portfolio r" for r :: "'a run" and ocs
    by (induction ocs arbitrary: r) (simp_all add: emit_def)
  show ?thesis
    using assms liquidate_keeps_book [OF assms, of "fst (last feed)"] by (auto simp: finish_run_def Let_def emits split: prod.splits)
qed

lemma run_keeps:
  assumes "run_strategy num ops ad rf abort ticks se pf feed = Inr (rn, result)" "keeps pf"
  shows "keeps (rn_portfolio rn)"
proof -
  obtain rn1 where r: "run_ticks num ops ad abort ticks (start_run se pf ticks) feed = Inr rn1" "rn = fst (finish_run num ad rf feed rn1)"
    using assms(1) by (auto simp: run_strategy_def split: sum.splits)
  have "keeps (rn_portfolio rn1)" using run_ticks_keep [OF r(1)] assms(2) by (simp add: start_run_def)
  then show ?thesis unfolding r(2) by (rule finish_keeps)
qed

end

section \<open>The simulated adapter\<close>

interpretation simulated_book: book_adapter "exact_num base" "simulated (exact_num base) ex" "accounts base capital"
  for base ex capital
  by unfold_locales (simp_all add: simulated_def accounts_execute accounts_prices accounts_liquidate)

lemma solvent_prices: "cash_covered k (update_prices pf prices) = cash_covered k pf"
  by (simp add: cash_covered_def update_prices_def)

text \<open>A fee of at least zero and a slippage of at most the price keep the cash covered up to the fees.\<close>

interpretation simulated_cash: order_adapter "exact_num base" "simulated (exact_num base) ex" "\<lambda>pf. fair_execution ex k \<longrightarrow> cash_covered k pf"
  for base ex k
  by unfold_locales (simp_all add: simulated_def solvent_execute solvent_prices)

section \<open>The result of a simulated run\<close>

lemma assemble_final:
  assumes "curve \<noteq> []"
  shows "rr_trades (assemble_result num capital curve trades rejected dp td rf) = trades"
    "rr_final_equity (assemble_result num capital curve trades rejected dp td rf) = finite_or num (snd (last curve)) capital"
proof -
  have "last (map snd (resample_daily curve)) = snd (last curve)" using resample_daily_last(2) [OF assms] by (simp add: last_map)
  then show "rr_trades (assemble_result num capital curve trades rejected dp td rf) = trades"
    "rr_final_equity (assemble_result num capital curve trades rejected dp td rf) = finite_or num (snd (last curve)) capital"
    using assms by (simp_all add: assemble_result_def Let_def case_prod_beta)
qed

lemma emits_portfolio: "rn_portfolio (foldl (\<lambda>r oc. emit oc r) rn ocs) = rn_portfolio rn"
  by (induction ocs arbitrary: rn) (simp_all add: emit_def)

lemma run_strategy_ends:
  assumes "run_strategy num ops (simulated num ex) rf abort ticks se pf feed = Inr (rn, result)"
  obtains rn1 where "run_ticks num ops (simulated num ex) abort ticks (start_run se pf ticks) feed = Inr rn1"
    "rn_portfolio rn = (if feed = [] then rn_portfolio rn1 else fst (liquidate num ex (rn_portfolio rn1) (fst (last feed))))"
    "rn_curve rn \<noteq> [] \<Longrightarrow> rr_trades result = pf_trades (rn_portfolio rn) \<and>
       rr_final_equity result = finite_or num (pf_equity num (rn_portfolio rn)) (pf_initial_capital (rn_portfolio rn))"
proof -
  obtain rn1 where r: "run_ticks num ops (simulated num ex) abort ticks (start_run se pf ticks) feed = Inr rn1"
      "(rn, result) = finish_run num (simulated num ex) rf feed rn1"
    using assms by (auto simp: run_strategy_def split: sum.splits)
  define rn2 where "rn2 = (if feed = [] then rn1
      else case ad_liquidate (simulated num ex) (rn_portfolio rn1) (fst (last feed)) of (pf, outcomes) \<Rightarrow>
        foldl (\<lambda>r oc. emit oc r) (rn1\<lparr>rn_portfolio := pf\<rparr>) outcomes)"
  define curve where "curve = (if rn_curve rn2 = [] then []
      else butlast (rn_curve rn2) @ [(fst (last (rn_curve rn2)), pf_equity num (rn_portfolio rn2))])"
  have rn: "rn_portfolio rn = rn_portfolio rn2" "rn_curve rn = curve"
      "result = assemble_result num (pf_initial_capital (rn_portfolio rn2)) curve (pf_trades (rn_portfolio rn2)) (rn_rejected rn2)
        (rn_days_with_position rn2) (rn_total_days rn2) rf"
    using r(2) unfolding finish_run_def Let_def rn2_def [symmetric] curve_def [symmetric] by simp_all
  have "rn_portfolio rn2 = (if feed = [] then rn_portfolio rn1 else fst (liquidate num ex (rn_portfolio rn1) (fst (last feed))))"
    by (simp add: rn2_def simulated_def emits_portfolio split: prod.split)
  moreover have "snd (last curve) = pf_equity num (rn_portfolio rn2)" if "curve \<noteq> []" using that by (auto simp: curve_def split: if_splits)
  ultimately show thesis using that r(1) rn assemble_final [of curve] by simp
qed

section \<open>The clock of a session\<close>

text \<open>The dates on which a session that is fed step by step emits orders.\<close>

fun order_dates ::
  "'f num_ops \<Rightarrow> 'f float_ops \<Rightarrow> 'f session \<Rightarrow> ((string, 'f bar) dict \<times> (string, 'f holding) dict \<times> 'f \<times> bool) list \<Rightarrow> int list" where
  "order_dates num ops se [] = []"
| "order_dates num ops se ((bars, holdings, equity, warm_up) # steps) =
     (case evaluate_session num ops se bars holdings equity warm_up of (se1, r) \<Rightarrow>
        (case r of Inl e \<Rightarrow> [] | Inr orders \<Rightarrow> if orders = [] then [] else [latest_date bars]) @ order_dates num ops se1 steps)"

lemma order_dates_fired:
  "\<exists>accepts moves. length accepts = length steps \<and>
     moves = fired (se_rebalance_freq se) (se_last_rebalance se) (zip (map (\<lambda>s. latest_date (fst s)) steps) accepts) \<and>
     subseq (order_dates num ops se steps) moves"
proof (induction steps arbitrary: se)
  case (Cons s steps)
  obtain bars holdings equity warm_up where s: "s = (bars, holdings, equity, warm_up)" by (cases s)
  obtain se1 r where ev: "evaluate_session num ops se bars holdings equity warm_up = (se1, r)" by fastforce
  obtain accepts where IH: "length accepts = length steps"
      "subseq (order_dates num ops se1 steps)
        (fired (se_rebalance_freq se1) (se_last_rebalance se1) (zip (map (\<lambda>s. latest_date (fst s)) steps) accepts))"
    using Cons.IH [of se1] by blast
  note step = evaluate_cases [OF ev]
  show ?case
  proof (cases "should_rebalance (latest_date bars) (se_last_rebalance se) (se_rebalance_freq se) \<and>
      se_last_rebalance se1 = Some (latest_date bars)")
    case True
    then show ?thesis using IH step(2) ev by (intro exI [of _ "True # accepts"] exI conjI) (auto simp: s split: sum.split)
  next
    case False
    then have "r = Inr [] \<or> (\<exists>e. r = Inl e)" "se_last_rebalance se1 = se_last_rebalance se" using step(1) by auto
    then show ?thesis using IH step(2) ev by (intro exI [of _ "False # accepts"] exI conjI) (auto simp: s)
  qed
qed simp

lemma session_periods:
  assumes "sorted (map (\<lambda>s. latest_date (fst s)) steps)" "se_last_rebalance se = None"
  shows "sorted_wrt (<) (map (period_of (frequency_of (se_rebalance_freq se))) (order_dates num ops se steps))"
proof -
  let ?P = "period_of (frequency_of (se_rebalance_freq se))"
  obtain accepts where a: "length accepts = length steps"
      "subseq (order_dates num ops se steps) (fired (se_rebalance_freq se) None (zip (map (\<lambda>s. latest_date (fst s)) steps) accepts))"
    using order_dates_fired [of steps se num ops] assms(2) by auto
  have "sorted (map fst (zip (map (\<lambda>s. latest_date (fst s)) steps) accepts))" using assms(1) a(1) by simp
  from fired_periods [OF this, of None "se_rebalance_freq se"]
  have "sorted_wrt (<) (map ?P (fired (se_rebalance_freq se) None (zip (map (\<lambda>s. latest_date (fst s)) steps) accepts)))" by simp
  moreover have "sorted_wrt (<) xs" if "subseq xs ys" "sorted_wrt (<) ys" for xs ys :: "int list"
    using that by (induction rule: list_emb.induct) (auto dest: set_subseq)
  ultimately show ?thesis using subseq_map [OF a(2), of ?P] by blast
qed

end
