(* ===== verification/Runtime_Results.thy ===== *)
theory Runtime_Results
  imports Runtime_Compiled
begin

text \<open>
  What an evaluation of the runtime returns: it never raises (\<open>evaluate_block_returns\<close>), because every
  error a condition can raise is among those that \<open>evaluate_condition_safe\<close> turns into a degraded
  evaluation; it allocates to assets of the strategy only, each once (\<open>evaluate_block_assets\<close>); and the
  history it keeps is bounded, with one slot per period (\<open>run_history_ok\<close>).
\<close>

section \<open>Errors\<close>

definition caught :: "py_error \<Rightarrow> bool" where
  "caught e \<longleftrightarrow> e \<in> {EvaluationError, KeyError, ValueError, IndexError}"

lemma caught_simps [simp]: "caught EvaluationError" "caught KeyError" "caught ValueError" "caught IndexError"
  by (simp_all add: caught_def)

definition safeC :: "'a counted \<Rightarrow> bool" where
  "safeC m \<longleftrightarrow> (\<forall>n k e. m n = (k, Inl e) \<longrightarrow> caught e)"

lemma safeC_bind: "safeC m \<Longrightarrow> (\<And>x. safeC (f x)) \<Longrightarrow> safeC (bindC m f)"
  by (auto simp: safeC_def bindC_def split: prod.splits sum.splits)

lemma safeC_simps [simp]:
  "safeC (returnC x)" "safeC (raiseC e) \<longleftrightarrow> caught e" "safeC degraded" "safeC (liftC r) \<longleftrightarrow> (\<forall>e. r = Inl e \<longrightarrow> caught e)"
  by (auto simp: safeC_def returnC_def raiseC_def degraded_def liftC_def)

lemma metric_error: "get_metric_value num st name symbol period = Inl e \<Longrightarrow> caught e"
  by (auto simp: get_metric_value_def calculate_drawdown_def py_max_def caught_def Let_def result_simps
      split: if_splits option.splits list.splits)

lemma resolve_value_error: "resolve_value num ops st v = Inl e \<Longrightarrow> caught e"
  by (cases v) (auto simp: get_price_def bar_field_def get_indicator_value_def indicator_array_def caught_def result_simps
      dest: metric_error split: option.splits if_splits)

lemma get_prev_value_error: "get_prev_value num ops st v = Inl e \<Longrightarrow> caught e"
  by (cases v) (auto simp: get_prev_price_def bar_field_def get_prev_indicator_value_def indicator_array_def caught_def result_simps
      dest: metric_error split: option.splits if_splits)

lemma evaluate_until_safe:
  "(\<And>c. c \<in> set cs \<Longrightarrow> safeC (evaluate_condition num ops st c)) \<Longrightarrow> safeC (evaluate_until num ops st d cs)"
proof (induction cs)
  case (Cons c cs)
  have "safeC (bindC (evaluate_condition num ops st c) (\<lambda>b. if b = d then returnC d else evaluate_until num ops st d cs))"
    using Cons by (intro safeC_bind) auto
  then show ?case by (simp add: safeC_def)
qed (simp add: safeC_def returnC_def)

lemma evaluate_condition_caught: "safeC (evaluate_condition num ops st c)"
proof (induction c)
  case (Comparison op l r)
  have "safeC (evaluate_comparison num ops st op l r)"
    unfolding evaluate_comparison_def using resolve_value_error by (intro safeC_bind) auto
  then show ?case by (simp add: safeC_def)
next
  case (Crossover dir f s)
  have "safeC (evaluate_crossover num ops st dir f s)"
    unfolding evaluate_crossover_def using resolve_value_error get_prev_value_error
    by (intro safeC_bind) auto
  then show ?case by (simp add: safeC_def)
next
  case (LogicalOp op cs)
  have until: "safeC (evaluate_until num ops st d cs)" for d using LogicalOp by (intro evaluate_until_safe)
  have neg: "safeC (bindC (evaluate_condition num ops st c) (\<lambda>b. returnC (\<not> b)))" if "cs = [c]" for c
    using LogicalOp that by (intro safeC_bind) auto
  show ?case
    using until neg by (auto simp: safeC_def raiseC_def caught_def split: list.splits if_splits)
qed

definition returns :: "'a counted \<Rightarrow> bool" where
  "returns m \<longleftrightarrow> (\<forall>n. \<exists>k x. m n = (k, Inr x))"

lemma returns_bind: "returns m \<Longrightarrow> (\<And>x. returns (f x)) \<Longrightarrow> returns (bindC m f)"
  unfolding returns_def
proof
  fix n
  assume m: "\<forall>n. \<exists>k x. m n = (k, Inr x)" and f: "\<And>x. \<forall>n. \<exists>k y. f x n = (k, Inr y)"
  obtain k x where "m n = (k, Inr x)" using m by blast
  then show "\<exists>k y. bindC m f n = (k, Inr y)" using f [of x] by (simp add: bindC_def)
qed

lemma returns_returnC [simp]: "returns (returnC x)"
  by (simp add: returns_def returnC_def)

lemma returns_mapC: "(\<And>x. x \<in> set xs \<Longrightarrow> returns (f x)) \<Longrightarrow> returns (mapC f xs)"
  by (induction xs) (auto intro!: returns_bind)

lemma evaluate_condition_safe_returns: "returns (evaluate_condition_safe num ops st c)"
proof -
  have "\<exists>k b. evaluate_condition_safe num ops st c n = (k, Inr b)" for n
    using evaluate_condition_caught [of num ops st c]
    by (cases "evaluate_condition num ops st c n"; cases "snd (evaluate_condition num ops st c n)")
      (auto simp: evaluate_condition_safe_def safeC_def caught_def degraded_def)
  then show ?thesis by (simp add: returns_def)
qed

lemma evaluate_block_eqs:
  "evaluate_block num ops st (StrategyB name kids a) =
     bindC (mapC (share_and_allocation num ops st) kids) (\<lambda>xs. returnC (combine_children num xs))"
  "evaluate_block num ops st (GroupB name kids w) =
     bindC (mapC (share_and_allocation num ops st) kids) (\<lambda>xs. returnC (combine_children num xs))"
  "evaluate_block num ops st (AssetB symbol w) = returnC [(symbol, nm_of_int num 100)]"
  "evaluate_block num ops st (IfB c th el) =
     bindC (evaluate_condition_safe num ops st c) (\<lambda>met. if met then evaluate_block num ops st th
       else (case el of None \<Rightarrow> returnC [] | Some b \<Rightarrow> evaluate_block num ops st b))"
  "evaluate_block num ops st (FilterB crit dir cnt kids lookback) =
     bindC (mapC (share_and_allocation num ops st) kids) (\<lambda>xs.
       returnC (select_weights num (bar_history st) crit dir cnt lookback (combine_children num xs)))"
  "share_and_allocation num ops st (IfB c th el) =
     bindC (evaluate_condition_safe num ops st c) (\<lambda>met. if met then share_and_allocation num ops st th
       else (case el of None \<Rightarrow> returnC (None, []) | Some b \<Rightarrow> share_and_allocation num ops st b))"
  by (rule ext, simp)+

text \<open>The weight block: what it returns from its evaluated children.\<close>

definition weight_result ::
  "'f num_ops \<Rightarrow> 'f history \<Rightarrow> string \<Rightarrow> int option \<Rightarrow> int option \<Rightarrow> 'f weights list \<Rightarrow> 'f weights" where
  "weight_result num h meth lookback topn as =
     (if meth = ''equal''
      then (let contributing = filter (\<lambda>a. a \<noteq> []) as
            in if contributing = [] then [] else scaled_merge num (map (\<lambda>a. (a, equal_share num contributing)) contributing))
      else computed_weights num h meth lookback topn (symbol_union as))"

lemma evaluate_weight_eq:
  "evaluate_block num ops st (WeightB meth kids lookback topn) =
     (if meth = ''specified''
      then bindC (mapC (share_and_allocation num ops st) kids) (\<lambda>xs. returnC (scaled_merge num
             (map (\<lambda>(share, a). (a, the share)) (filter (\<lambda>(share, a). share \<noteq> None \<and> a \<noteq> []) xs))))
      else bindC (mapC (evaluate_block num ops st) kids) (\<lambda>as. returnC (weight_result num (bar_history st) meth lookback topn as)))"
proof (rule ext)
  fix n
  have "(if meth = ''equal''
      then (let contributing = filter (\<lambda>a. a \<noteq> []) as
            in if contributing = [] then returnC []
               else returnC (scaled_merge num (map (\<lambda>a. (a, equal_share num contributing)) contributing)))
      else returnC (computed_weights num (bar_history st) meth lookback topn (symbol_union as))) =
      returnC (weight_result num (bar_history st) meth lookback topn as)" for as
    by (simp add: weight_result_def Let_def)
  then show "evaluate_block num ops st (WeightB meth kids lookback topn) n =
     (if meth = ''specified''
      then bindC (mapC (share_and_allocation num ops st) kids) (\<lambda>xs. returnC (scaled_merge num
             (map (\<lambda>(share, a). (a, the share)) (filter (\<lambda>(share, a). share \<noteq> None \<and> a \<noteq> []) xs))))
      else bindC (mapC (evaluate_block num ops st) kids) (\<lambda>as. returnC (weight_result num (bar_history st) meth lookback topn as))) n"
    by (simp only: evaluate_block.simps if_distrib [of "\<lambda>f. f n"])
qed

lemma share_eq: "\<not> is_if b \<Longrightarrow> share_and_allocation num ops st b =
    bindC (evaluate_block num ops st b) (\<lambda>a. returnC (declared_weight b, a))"
  by (rule ext) (rule share_not_if)

lemma returns_share:
  "returns (evaluate_block num ops st b) \<Longrightarrow> \<not> is_if b \<Longrightarrow>
   returns (evaluate_block num ops st b) \<and> returns (share_and_allocation num ops st b)"
  by (simp add: share_eq returns_bind)

lemma evaluate_block_returns: "returns (evaluate_block num ops st b) \<and> returns (share_and_allocation num ops st b)"
proof (induction b)
  case (IfB c th el)
  then show ?case
    unfolding evaluate_block_eqs
    by (intro conjI returns_bind [OF evaluate_condition_safe_returns]) (auto split: option.split)
next
  case (WeightB meth kids lookback topn)
  then have "returns (evaluate_block num ops st (WeightB meth kids lookback topn))"
    unfolding evaluate_weight_eq by (auto intro!: returns_bind returns_mapC)
  then show ?case by (rule returns_share) simp
next
  case (StrategyB name kids a)
  then have "returns (evaluate_block num ops st (StrategyB name kids a))"
    unfolding evaluate_block_eqs by (auto intro!: returns_bind returns_mapC)
  then show ?case by (rule returns_share) simp
next
  case (GroupB name kids w)
  then have "returns (evaluate_block num ops st (GroupB name kids w))"
    unfolding evaluate_block_eqs by (auto intro!: returns_bind returns_mapC)
  then show ?case by (rule returns_share) simp
next
  case (AssetB symbol w)
  have "returns (evaluate_block num ops st (AssetB symbol w))" unfolding evaluate_block_eqs by simp
  then show ?case by (rule returns_share) simp
next
  case (FilterB crit dir cnt kids lookback)
  then have "returns (evaluate_block num ops st (FilterB crit dir cnt kids lookback))"
    unfolding evaluate_block_eqs by (auto intro!: returns_bind returns_mapC)
  then show ?case by (rule returns_share) simp
qed

section \<open>Allocations name assets of the strategy, each once\<close>

fun asset_symbols :: "'f block \<Rightarrow> string set" where
  "asset_symbols (StrategyB name kids a) = \<Union> (set (map asset_symbols kids))"
| "asset_symbols (GroupB name kids w) = \<Union> (set (map asset_symbols kids))"
| "asset_symbols (WeightB meth kids lookback topn) = \<Union> (set (map asset_symbols kids))"
| "asset_symbols (AssetB symbol w) = {symbol}"
| "asset_symbols (IfB c th el) = asset_symbols th \<union> (case el of None \<Rightarrow> {} | Some b \<Rightarrow> asset_symbols b)"
| "asset_symbols (FilterB crit dir cnt kids lookback) = \<Union> (set (map asset_symbols kids))"

definition within_symbols :: "string set \<Rightarrow> 'f weights \<Rightarrow> bool" where
  "within_symbols S ws \<longleftrightarrow> wf_dict ws \<and> set (keys ws) \<subseteq> S"

lemma within_Nil [simp]: "within_symbols S []"
  by (simp add: within_symbols_def)

lemma normalized_within: "within_symbols S ws \<Longrightarrow> within_symbols S (normalized num ws)"
  by (auto simp: within_symbols_def normalized_def Let_def comp_def case_prod_beta)

lemma update_within: "within_symbols S d \<Longrightarrow> s \<in> S \<Longrightarrow> within_symbols S (AList.update s v d)"
  using distinct_update [of d s v] by (auto simp: within_symbols_def update_keys split: if_splits)

lemma merge_one_within:
  assumes "within_symbols S d" "set (keys (fst p)) \<subseteq> S"
  shows "within_symbols S (merge_one num d p)"
proof -
  have "within_symbols S (foldl (\<lambda>d (symbol, w). AList.update symbol (g d symbol w) d) d xs)"
    if "set (keys xs) \<subseteq> S" "within_symbols S d" for xs d and g :: "'a weights \<Rightarrow> string \<Rightarrow> 'a \<Rightarrow> 'a"
    using that
  proof (induction xs arbitrary: d)
    case (Cons x xs)
    obtain s w where x: "x = (s, w)" by (cases x)
    have "within_symbols S (AList.update s (g d s w) d)" using Cons.prems by (intro update_within) (auto simp: x)
    from Cons.IH [OF _ this] Cons.prems(1) show ?case by (simp add: x)
  qed simp
  from this [of "fst p" d "\<lambda>d symbol w. nm_add num (dict_get d symbol (zero_of num)) (nm_div num (nm_mul num w (snd p)) (nm_of_int num 100))"]
  show ?thesis using assms by (simp add: merge_one_def)
qed

lemma scaled_merge_within:
  assumes "\<forall>p \<in> set pairs. set (keys (fst p)) \<subseteq> S"
  shows "within_symbols S (scaled_merge num pairs)"
proof -
  have "within_symbols S (foldl (merge_one num) d pairs)" if "within_symbols S d" for d
    using assms that by (induction pairs arbitrary: d) (simp_all add: merge_one_within)
  from normalized_within [OF this [OF within_Nil]] show ?thesis by (simp add: scaled_merge_def)
qed

lemma combine_children_within:
  assumes "\<forall>p \<in> set xs. set (keys (snd p)) \<subseteq> S"
  shows "within_symbols S (combine_children num xs)"
proof -
  have "within_symbols S (scaled_merge num (map (\<lambda>p. (snd p, f p)) (filter (\<lambda>p. snd p \<noteq> []) xs)))" for f
    using assms by (intro scaled_merge_within) simp
  then show ?thesis by (simp add: combine_children_def Let_def case_prod_beta')
qed

lemma set_insert_desc: "set (insert_desc num key x xs) = insert x (set xs)"
  by (induction xs) auto

lemma distinct_insert_desc: "distinct (insert_desc num key x xs) \<longleftrightarrow> x \<notin> set xs \<and> distinct xs"
  by (induction xs) (auto simp: set_insert_desc)

lemma sorted_desc_set: "set (sorted_desc num key xs) = set xs" "distinct (sorted_desc num key xs) \<longleftrightarrow> distinct xs"
proof -
  show s: "set (sorted_desc num key xs) = set xs" for xs
    by (induction xs) (auto simp: sorted_desc_def set_insert_desc)
  show "distinct (sorted_desc num key xs) \<longleftrightarrow> distinct xs"
    by (induction xs) (use s in \<open>auto simp: sorted_desc_def distinct_insert_desc\<close>)
qed

lemma slice_sub:
  "set (slice_to xs k) \<subseteq> set xs" "set (slice_from xs k) \<subseteq> set xs"
  "distinct xs \<Longrightarrow> distinct (slice_to xs k)" "distinct xs \<Longrightarrow> distinct (slice_from xs k)"
  by (auto simp: slice_to_def slice_from_def dest: in_set_takeD in_set_dropD)

lemma equal_weights_within: "distinct xs \<Longrightarrow> set xs \<subseteq> S \<Longrightarrow> within_symbols S (equal_weights num xs)"
  by (simp add: within_symbols_def equal_weights_def comp_def)

lemma select_weights_within:
  assumes "within_symbols S ws"
  shows "within_symbols S (select_weights num h crit dir cnt lookback ws)"
proof -
  define ranked where "ranked = sorted_desc num (filter_score num h crit lookback) (keys ws)"
  have r: "set ranked \<subseteq> S" "distinct ranked" using assms by (auto simp: ranked_def sorted_desc_set within_symbols_def)
  have "within_symbols S (map (\<lambda>s. (s, dict_get ws s (zero_of num))) sel)" if "set sel \<subseteq> S" "distinct sel" for sel
    using that by (simp add: within_symbols_def comp_def)
  then have "within_symbols S (normalized num (map (\<lambda>s. (s, dict_get ws s (zero_of num)))
      (if dir = ''top'' then slice_to ranked cnt else slice_from ranked (- cnt))))"
    using r subset_trans [OF slice_sub(1) r(1)] subset_trans [OF slice_sub(2) r(1)]
    by (intro normalized_within) (simp add: slice_sub)
  then show ?thesis
    by (simp add: select_weights_def ranked_def [symmetric] Let_def)
qed

lemma setdefault_within: "within_symbols S d \<Longrightarrow> set xs \<subseteq> S \<Longrightarrow> within_symbols S (foldl (\<lambda>d s. dict_setdefault s z d) d xs)"
proof (induction xs arbitrary: d)
  case (Cons x xs)
  have "within_symbols S (dict_setdefault x z d)"
    using Cons.prems by (auto simp: within_symbols_def dict_setdefault_def map_of_eq_None_iff split: option.split)
  then show ?case using Cons by simp
qed simp

lemma momentum_within:
  assumes "distinct symbols" "set symbols \<subseteq> S"
  shows "within_symbols S (compute_momentum_weights num h symbols lookback topn)"
proof -
  define ranked where "ranked = sorted_desc num (\<lambda>s. trailing_return num (dict_get h s []) (or_default lookback 90)) symbols"
  have r: "set ranked \<subseteq> S" "distinct ranked" using assms by (auto simp: ranked_def sorted_desc_set)
  define sel where "sel = (case topn of None \<Rightarrow> ranked
    | Some n \<Rightarrow> if n \<noteq> 0 \<and> n < int (length ranked) then slice_to ranked n else ranked)"
  have sel: "set sel \<subseteq> S" "distinct sel"
    using r subset_trans [OF slice_sub(1) r(1)] by (auto simp: sel_def slice_sub(3) split: option.split)
  then show ?thesis
    unfolding compute_momentum_weights_def Let_def ranked_def [symmetric] sel_def [symmetric]
    by (auto simp: equal_weights_within) (auto simp: within_symbols_def comp_def)
qed

lemma inverse_volatility_within:
  assumes "distinct symbols" "set symbols \<subseteq> S"
  shows "within_symbols S (compute_inverse_volatility_weights num h symbols lookback)"
proof -
  have "within_symbols S (map (\<lambda>s. (s, f s)) (filter P symbols))" for f :: "string \<Rightarrow> 'a" and P
    using assms by (auto simp: within_symbols_def comp_def)
  then show ?thesis
    using assms by (simp add: compute_inverse_volatility_weights_def Let_def equal_weights_within setdefault_within)
qed

lemma covariance_within:
  assumes "distinct symbols" "set symbols \<subseteq> S"
  shows "within_symbols S (covariance_weights num h meth symbols lookback)"
proof (cases "aligned_closes h symbols lookback")
  case None
  then show ?thesis using inverse_volatility_within [OF assms] by (simp add: covariance_weights_def)
next
  case (Some p)
  obtain syms closes where p: "p = (syms, closes)" by (cases p)
  have syms: "distinct syms" "set syms \<subseteq> S"
    using Some assms by (auto simp: p aligned_closes_def Let_def split: if_splits option.splits)
  have "within_symbols S (zip syms scaled)" for scaled :: "'a list"
    using syms by (auto simp: within_symbols_def map_fst_zip_take dest: in_set_takeD)
  then show ?thesis
    using Some p inverse_volatility_within [OF assms] assms(2)
    by (auto simp: covariance_weights_def intro!: setdefault_within split: option.split)
qed

lemma computed_within:
  "distinct symbols \<Longrightarrow> set symbols \<subseteq> S \<Longrightarrow> within_symbols S (computed_weights num h meth lookback topn symbols)"
  by (simp add: computed_weights_def momentum_within inverse_volatility_within covariance_within equal_weights_within)

lemma symbol_union_set: "distinct (symbol_union as)" "set (symbol_union as) = \<Union> (set ` set (map keys as))"
proof -
  have "distinct acc \<Longrightarrow> distinct (foldl (\<lambda>acc s. if s \<in> set acc then acc else acc @ [s]) acc xs) \<and>
      set (foldl (\<lambda>acc s. if s \<in> set acc then acc else acc @ [s]) acc xs) = set acc \<union> set xs" for acc and xs :: "string list"
    by (induction xs arbitrary: acc) auto
  from this [of "[]" "concat (map keys as)"] show "distinct (symbol_union as)" "set (symbol_union as) = \<Union> (set ` set (map keys as))"
    by (auto simp: symbol_union_def)
qed

lemma weight_result_within:
  assumes "\<forall>a \<in> set as. set (keys a) \<subseteq> S"
  shows "within_symbols S (weight_result num h meth lookback topn as)"
proof (cases "meth = ''equal''")
  case True
  have "within_symbols S (scaled_merge num (map (\<lambda>a. (a, x)) (filter (\<lambda>a. a \<noteq> []) as)))" for x
    using assms by (intro scaled_merge_within) simp
  then show ?thesis using True by (simp add: weight_result_def Let_def)
next
  case False
  then show ?thesis
    using assms by (simp add: weight_result_def computed_within symbol_union_set UN_subset_iff)
qed

definition yieldsC :: "('a \<Rightarrow> bool) \<Rightarrow> 'a counted \<Rightarrow> bool" where
  "yieldsC P m \<longleftrightarrow> (\<forall>n k x. m n = (k, Inr x) \<longrightarrow> P x)"

lemma yieldsC_bind: "yieldsC Q m \<Longrightarrow> (\<And>x. Q x \<Longrightarrow> yieldsC P (f x)) \<Longrightarrow> yieldsC P (bindC m f)"
  by (fastforce simp: yieldsC_def bindC_def split: prod.splits sum.splits)

lemma yieldsC_return [simp]: "yieldsC P (returnC x) \<longleftrightarrow> P x"
  by (simp add: yieldsC_def returnC_def)

lemma yieldsC_mapC: "(\<And>x. x \<in> set xs \<Longrightarrow> yieldsC P (f x)) \<Longrightarrow> yieldsC (\<lambda>ys. \<forall>y \<in> set ys. P y) (mapC f xs)"
  by (induction xs) (auto intro!: yieldsC_bind)

lemma yieldsC_mono: "yieldsC P m \<Longrightarrow> (\<And>x. P x \<Longrightarrow> Q x) \<Longrightarrow> yieldsC Q m"
  by (auto simp: yieldsC_def)

definition assets_only :: "'f num_ops \<Rightarrow> 'f float_ops \<Rightarrow> 'f eval_state \<Rightarrow> 'f block \<Rightarrow> bool" where
  "assets_only num ops st b \<longleftrightarrow>
     yieldsC (within_symbols (asset_symbols b)) (evaluate_block num ops st b) \<and>
     yieldsC (\<lambda>p. within_symbols (asset_symbols b) (snd p)) (share_and_allocation num ops st b)"

lemma assets_onlyI:
  "yieldsC (within_symbols (asset_symbols b)) (evaluate_block num ops st b) \<Longrightarrow> \<not> is_if b \<Longrightarrow> assets_only num ops st b"
  by (auto simp: assets_only_def share_eq intro: yieldsC_bind)

lemma within_mono: "within_symbols S ws \<Longrightarrow> S \<subseteq> T \<Longrightarrow> within_symbols T ws"
  by (auto simp: within_symbols_def)

lemma assets_kids:
  assumes "\<And>b. b \<in> set kids \<Longrightarrow> assets_only num ops st b"
  shows "yieldsC (\<lambda>xs. \<forall>p \<in> set xs. set (keys (snd p)) \<subseteq> \<Union> (asset_symbols ` set kids)) (mapC (share_and_allocation num ops st) kids)"
    "yieldsC (\<lambda>as. \<forall>a \<in> set as. set (keys a) \<subseteq> \<Union> (asset_symbols ` set kids)) (mapC (evaluate_block num ops st) kids)"
  using assms
  by (intro yieldsC_mapC; fastforce simp: assets_only_def within_symbols_def intro: yieldsC_mono)+

lemma evaluate_block_assets: "assets_only num ops st b"
proof (induction b)
  case (StrategyB name kids a)
  show ?case
    by (rule assets_onlyI, unfold evaluate_block_eqs, rule yieldsC_bind [OF assets_kids(1) [OF StrategyB]])
      (simp_all add: combine_children_within)
next
  case (GroupB name kids w)
  show ?case
    by (rule assets_onlyI, unfold evaluate_block_eqs, rule yieldsC_bind [OF assets_kids(1) [OF GroupB]])
      (simp_all add: combine_children_within)
next
  case (FilterB crit dir cnt kids lookback)
  show ?case
    by (rule assets_onlyI, unfold evaluate_block_eqs, rule yieldsC_bind [OF assets_kids(1) [OF FilterB]])
      (simp_all add: combine_children_within select_weights_within)
next
  case (AssetB symbol w)
  show ?case by (rule assets_onlyI, unfold evaluate_block_eqs) (simp_all add: within_symbols_def)
next
  case (WeightB meth kids lookback topn)
  let ?S = "\<Union> (asset_symbols ` set kids)"
  have "yieldsC (within_symbols ?S) (bindC (mapC (share_and_allocation num ops st) kids) (\<lambda>xs. returnC (scaled_merge num
      (map (\<lambda>(share, a). (a, the share)) (filter (\<lambda>(share, a). share \<noteq> None \<and> a \<noteq> []) xs)))))"
  proof (rule yieldsC_bind [OF assets_kids(1) [OF WeightB]])
    fix xs :: "('a option \<times> 'a weights) list"
    assume "\<forall>p \<in> set xs. set (keys (snd p)) \<subseteq> ?S"
    then show "yieldsC (within_symbols ?S) (returnC (scaled_merge num
      (map (\<lambda>(share, a). (a, the share)) (filter (\<lambda>(share, a). share \<noteq> None \<and> a \<noteq> []) xs))))"
      unfolding yieldsC_return by (intro scaled_merge_within) (simp add: case_prod_beta')
  qed
  moreover have "yieldsC (within_symbols ?S) (bindC (mapC (evaluate_block num ops st) kids)
      (\<lambda>as. returnC (weight_result num (bar_history st) meth lookback topn as)))"
    by (rule yieldsC_bind [OF assets_kids(2) [OF WeightB]], assumption, unfold yieldsC_return) (rule weight_result_within)
  ultimately have "yieldsC (within_symbols (asset_symbols (WeightB meth kids lookback topn)))
      (evaluate_block num ops st (WeightB meth kids lookback topn))"
    by (simp add: evaluate_weight_eq del: evaluate_block.simps)
  then show ?case by (rule assets_onlyI) simp
next
  case (IfB c th el)
  have any: "yieldsC (\<lambda>_. True) (evaluate_condition_safe num ops st c)" by (simp add: yieldsC_def)
  have th: "yieldsC (within_symbols (asset_symbols (IfB c th el))) (evaluate_block num ops st th)"
    "yieldsC (\<lambda>p. within_symbols (asset_symbols (IfB c th el)) (snd p)) (share_and_allocation num ops st th)"
    using IfB.IH(1) by (auto simp: assets_only_def elim!: yieldsC_mono intro: within_mono)
  have el: "yieldsC (within_symbols (asset_symbols (IfB c th el))) (evaluate_block num ops st b)"
    "yieldsC (\<lambda>p. within_symbols (asset_symbols (IfB c th el)) (snd p)) (share_and_allocation num ops st b)" if "el = Some b" for b
    using IfB.IH(2) [of b] that by (auto simp: assets_only_def elim!: yieldsC_mono intro: within_mono)
  show ?case
    unfolding assets_only_def evaluate_block_eqs
    by (intro conjI yieldsC_bind [OF any]) (use th el in \<open>auto split: option.split simp del: asset_symbols.simps\<close>)
qed

section \<open>The history is bounded and has one slot per period\<close>

fun periods_apart :: "'f bar list \<Rightarrow> bool" where
  "periods_apart (a # b # xs) \<longleftrightarrow> bar_timestamp a \<noteq> bar_timestamp b \<and> periods_apart (b # xs)"
| "periods_apart _ = True"

lemma periods_apart_snoc: "periods_apart (xs @ [b]) \<longleftrightarrow> periods_apart xs \<and> (xs \<noteq> [] \<longrightarrow> bar_timestamp (last xs) \<noteq> bar_timestamp b)"
  by (induction xs rule: periods_apart.induct) auto

lemma periods_apart_drop: "periods_apart xs \<Longrightarrow> periods_apart (drop k xs)"
proof (induction k arbitrary: xs)
  case (Suc k)
  then show ?case
  proof (cases xs rule: periods_apart.cases)
    case (1 a b ys)
    then show ?thesis using Suc by simp
  qed auto
qed simp

lemma periods_apart_butlast: "periods_apart xs \<Longrightarrow> periods_apart (butlast xs)"
  by (induction xs rule: periods_apart.induct) auto

definition bars_ok :: "int \<Rightarrow> 'f bar list \<Rightarrow> bool" where
  "bars_ok w bars \<longleftrightarrow> int (length bars) \<le> w \<and> periods_apart bars"

lemma push_bar_ok:
  assumes "bars_ok w bars" "0 < w"
  shows "bars_ok w (push_bar (Some w) bars b)"
proof (cases "bars \<noteq> [] \<and> bar_timestamp (last bars) = bar_timestamp b")
  case True
  obtain xs x where x: "bars = xs @ [x]" using True by (cases bars rule: rev_cases) auto
  have "periods_apart (xs @ [b])" using assms(1) True by (simp add: x bars_ok_def periods_apart_snoc)
  then show ?thesis using True assms by (simp add: push_bar_def x bars_ok_def)
next
  case False
  then have "periods_apart (bars @ [b])" using assms(1) by (auto simp: bars_ok_def periods_apart_snoc)
  moreover have "length (push_bar (Some w) bars b) \<le> nat w"
    using push_bar_window [of w bars b] assms by (simp add: bars_ok_def le_nat_iff last_bars_of_def)
  ultimately show ?thesis
    using False assms(2) by (auto simp: bars_ok_def push_bar_def Let_def periods_apart_drop simp del: drop_append)
qed

definition history_ok :: "int \<Rightarrow> 'f history \<Rightarrow> bool" where
  "history_ok w h \<longleftrightarrow> wf_dict h \<and> list_all (\<lambda>(s, bars). bars_ok w bars) h"

lemma update_all:
  "list_all (\<lambda>(s, x). P x) d \<Longrightarrow> P v \<Longrightarrow> list_all (\<lambda>(s, x). P x) (AList.update k v d)"
  by (induction d) auto

lemma dict_get_all: "list_all (\<lambda>(s, x). P x) d \<Longrightarrow> P z \<Longrightarrow> P (dict_get d k z)"
  by (induction d) (auto simp: dict_get_def)

lemma add_to_history_ok:
  assumes "history_ok w h" "0 < w"
  shows "history_ok w (add_to_history (Some w) h bars)"
  using assms(1)
proof (induction bars arbitrary: h)
  case (Cons p bars)
  obtain s b where p: "p = (s, b)" by (cases p)
  have "bars_ok w (push_bar (Some w) (dict_get h s []) b)"
    using Cons.prems assms(2) dict_get_all [of "bars_ok w" h "[]" s]
    by (intro push_bar_ok) (auto simp: history_ok_def bars_ok_def [of w "[]"])
  then have "history_ok w (dict_modify s [] (\<lambda>xs. push_bar (Some w) xs b) h)"
    using Cons.prems by (simp add: history_ok_def dict_modify_def update_all distinct_update)
  from Cons.IH [OF this] show ?case by (simp add: add_to_history_def p)
qed (simp add: add_to_history_def)

lemma compute_allocation_history:
  "co_history (fst (compute_allocation num ops c bars)) = add_to_history (co_window c) (co_history c) bars"
  "co_window (fst (compute_allocation num ops c bars)) = co_window c"
  by (auto simp: compute_allocation_def Let_def add_bars_def split: prod.split sum.split)

lemma run_history_ok:
  "co_window c = Some w \<Longrightarrow> 0 < w \<Longrightarrow> history_ok w (co_history c) \<Longrightarrow>
   history_ok w (co_history (fst (run_steps num ops c feed)))"
proof (induction feed arbitrary: c)
  case (Cons bars feed)
  obtain c1 r where c1: "compute_allocation num ops c bars = (c1, r)" by fastforce
  have "co_history c1 = add_to_history (Some w) (co_history c) bars" "co_window c1 = Some w"
    using compute_allocation_history [of num ops c bars] Cons.prems(1) by (simp_all add: c1)
  then have "history_ok w (co_history (fst (run_steps num ops c1 feed)))"
    using Cons.prems by (intro Cons.IH) (simp_all add: add_to_history_ok)
  then show ?case by (auto simp: c1 split: prod.split)
qed simp

end
