(* ===== verification/Runtime_Samples.thy ===== *)
theory Runtime_Samples
  imports Runtime_Local Runtime_Session Runtime_Results Strategy_Samples
begin

text \<open>
  Concrete data the witnesses of the strategy runtime run on: exact arithmetic, a strategy that
  compares a moving average with the price, its session, days of bars and a feed of them.
\<close>

definition exact_floats :: "real option float_ops" where
  "exact_floats =
     \<lparr>fl_of_text = (\<lambda>t. None), fl_int = (\<lambda>x. case x of None \<Rightarrow> Inl ValueError | Some r \<Rightarrow> Inr \<lfloor>r\<rfloor>),
      fl_is = (\<lambda>x n. x = Some (of_int n)), fl_str = (\<lambda>x. ''x''), fl_of_int = (\<lambda>n. Some (of_int n)), fl_sum = exact_sum,
      fl_near = lift_rel (\<lambda>x y. \<bar>x - y\<bar> \<le> 1 / 100), fl_far = lift_rel (\<lambda>x y. 1 / 100 < \<bar>x - y\<bar>),
      fl_nonpos = (\<lambda>x. lift_rel (\<le>) x (Some 0))\<rparr>"

definition plain_num :: "real option num_ops" where
  "plain_num =
     \<lparr>nm_of_int = (\<lambda>n. Some (of_int n)), nm_add = lift2 (+), nm_sub = lift2 (-), nm_mul = lift2 (*), nm_div = exact_div,
      nm_abs = map_option abs, nm_lt = lift_rel (<), nm_le = lift_rel (\<le>), nm_eq = lift_rel (=), nm_nan = (\<lambda>x. x = None),
      nm_sum = exact_sum, nm_std = (\<lambda>xs. Some 0), nm_sqrt252 = Some 16, np_div = exact_div, np_sum = exact_sum,
      np_max = exact_pick Max, np_cov = (\<lambda>m. m), np_pinv_ones = (\<lambda>m. None), np_matvec = (\<lambda>m v. v), nm_neg = map_option uminus,
      np_nan = None, np_mean = exact_mean, np_min = exact_pick Min, nm_tiny = Some (1 / 10 ^ 12), nm_tolerance = Some (1 / 10 ^ 9),
      nm_cci = Some (3 / 200), nm_floor = (\<lambda>x. case x of None \<Rightarrow> Inl ValueError | Some r \<Rightarrow> Inr \<lfloor>r\<rfloor>), nm_pow = (\<lambda>x y. x),
      np_sqrt = (\<lambda>x. x), nm_finite = (\<lambda>x. x \<noteq> None)\<rparr>"

definition trend_strategy :: "real option block" where
  "trend_strategy =
     StrategyB ''Trend''
       [IfB (Comparison ''>'' (Price ''SPY'' ''close'') (Indicator ''sma'' ''SPY'' [PInt 2] None))
         (AssetB ''SPY'' None) (Some (AssetB ''BIL'' None))]
       \<lparr>at_rebalance = Some ''weekly'', at_benchmark = None, at_description = None\<rparr>"

definition trend_compiled :: "real option compiled" where
  "trend_compiled =
     \<lparr>co_strategy = trend_strategy,
      co_indicators = [\<lparr>indicator_type = ''sma'', spec_symbol = ''SPY'', spec_source = ''close'', spec_params = [PInt 2],
        output_key = ''sma_SPY_close_2'', output_field = None, required_bars = 2\<rparr>],
      co_symbols = {''SPY'', ''BIL''}, co_min_bars = 2, co_window = Some 12, co_history = [], co_last_allocation = [], co_degraded = 0\<rparr>"

definition day_bar :: "int \<Rightarrow> real \<Rightarrow> real option bar" where
  "day_bar day price = \<lparr>bar_timestamp = 86400000000 * day, bar_open = Some price, bar_high = Some price, bar_low = Some price,
     bar_close = Some price, bar_volume = 1\<rparr>"

definition day_bars :: "int \<Rightarrow> real \<Rightarrow> (string, real option bar) dict" where
  "day_bars day price = [(''SPY'', day_bar day price), (''BIL'', day_bar day 10)]"

lemma trend_compiles: "compile_strategy exact_floats trend_strategy = Inr trend_compiled"
  by code_simp

lemma trend_well_formed: "well_formed exact_floats trend_strategy"
  by code_simp

lemma trend_bounded: "\<not> block_unbounded trend_strategy" "cov_bounded trend_strategy"
  by code_simp+

definition trend_session :: "real option session" where
  "trend_session =
     \<lparr>se_compiled = trend_compiled, se_symbols = {''SPY'', ''BIL''}, se_rebalance_freq = Some ''weekly'',
      se_options = \<lparr>so_mode = DRIFT, so_drift_tolerance = Some (1 / 20), so_min_weight_change = Some (1 / 10),
        so_min_order_notional = Some 1, so_quantization = None\<rparr>,
      se_last_rebalance = None, se_current_weights = [], se_sub_notional_skips = 0\<rparr>"

definition flat_fee :: "real option execution" where
  "flat_fee = \<lparr>ex_commission_rate = Some 1, ex_slippage_rate = Some 0\<rparr>"

definition trend_feed :: "real option tick list" where
  "trend_feed = [(86400000000, day_bars 1 100, True), (86400000000 * 2, day_bars 2 110, False), (86400000000 * 9, day_bars 9 121, False)]"

lemma trend_session_new: "new_session (exact_num plain_num) exact_floats (Inr trend_strategy) DRIFT (Some (1 / 20)) (Some 1) = Inr trend_session"
  by code_simp

end
