(* ===== verification/Runtime_Properties.thy ===== *)
theory Runtime_Properties
  imports Runtime_Samples
begin

text \<open>
  The properties of the strategy runtime: the evaluation of compiled strategies, the rebalance clock,
  sizing, the simulated book, feeds and metrics. What is said of amounts is said in exact arithmetic
  (\<open>exact_num\<close>); the rest holds for any arithmetic.
\<close>

section \<open>Runs\<close>







section \<open>Sizing\<close>


definition drift_options :: "real option sizing_options" where
  "drift_options = \<lparr>so_mode = DRIFT, so_drift_tolerance = Some (1 / 20), so_min_weight_change = Some (1 / 10),
     so_min_order_notional = Some 1, so_quantization = None\<rparr>"

definition sample_orders :: "real option intended_order list" where
  "sample_orders = [\<lparr>io_symbol = ''BIL'', io_side = ''sell'', io_quantity = Some 10, io_price = Some 10\<rparr>,
     \<lparr>io_symbol = ''SPY'', io_side = ''buy'', io_quantity = Some 1, io_price = Some 110\<rparr>]"


text \<open>
  Rounding to whole shares afterwards breaks this: the sells are rounded down too, and the buys were
  fitted to what the sells bring in before.
\<close>

lemma rounded_batch_overspends:
  "\<exists>os. size_orders (exact_num plain_num) (drift_options\<lparr>so_quantization := Some \<lparr>sq_fractional = False, sq_decimals = 9\<rparr>\<rparr>)
     [(''SPY'', Some 100)] [(''BIL'', \<lparr>hd_symbol = ''BIL'', hd_quantity = Some (19 / 10)\<rparr>)] [(''SPY'', Some 190), (''BIL'', Some 100)]
     (Some 190) [] (Some (Some 0)) = Inr (os, 0) \<and>
   exact_sum (map (order_notional (exact_num plain_num)) (sells_of os)) = Some 100 \<and>
   exact_sum (map (order_notional (exact_num plain_num)) (buys_of os)) = Some 190"
proof -
  define os where "os = [\<lparr>io_symbol = ''BIL'', io_side = ''sell'', io_quantity = Some 1, io_price = Some 100\<rparr>,
     \<lparr>io_symbol = ''SPY'', io_side = ''buy'', io_quantity = Some 1, io_price = Some (190 :: real)\<rparr>]"
  have "size_orders (exact_num plain_num) (drift_options\<lparr>so_quantization := Some \<lparr>sq_fractional = False, sq_decimals = 9\<rparr>\<rparr>)
     [(''SPY'', Some 100)] [(''BIL'', \<lparr>hd_symbol = ''BIL'', hd_quantity = Some (19 / 10)\<rparr>)] [(''SPY'', Some 190), (''BIL'', Some 100)]
     (Some 190) [] (Some (Some 0)) = Inr (os, 0)"
    unfolding os_def by code_simp
  moreover have "exact_sum (map (order_notional (exact_num plain_num)) (sells_of os)) = Some 100"
    "exact_sum (map (order_notional (exact_num plain_num)) (buys_of os)) = Some 190"
    unfolding os_def by code_simp+
  ultimately show ?thesis by blast
qed

text \<open>
  C38. For any arithmetic a sized batch lists its sells before its buys, has at most one order per
  symbol, each for a symbol of the targets or the holdings at its given price, which is not zero or
  less, and none of an empty quantity or under the notional floor.
\<close>

theorem batch_shape:
  assumes "size_orders num opts targets holdings prices equity current cash = Inr (os, n)"
  shows "os = sells_of os @ buys_of os \<and> distinct (map io_symbol os) \<and>
    list_all (\<lambda>ord. order_tradable num (so_min_order_notional opts) ord \<and> order_priced num prices ord) os \<and>
    io_symbol ` set os \<subseteq> set (keys targets) \<union> set (keys holdings)"
  using size_orders_shape [OF assms] by (simp add: list_all_iff)

theorem batch_shape_witness:
  "length sample_orders = 2 \<and> sample_orders = sells_of sample_orders @ buys_of sample_orders \<and>
   list_all (\<lambda>ord. order_tradable (exact_num plain_num) (so_min_order_notional drift_options) ord \<and>
     order_priced (exact_num plain_num) [(''SPY'', Some 110), (''BIL'', Some 10)] ord) sample_orders"
proof -
  have "size_orders (exact_num plain_num) drift_options [(''SPY'', Some 100)] [(''BIL'', \<lparr>hd_symbol = ''BIL'', hd_quantity = Some 10\<rparr>)]
     [(''SPY'', Some 110), (''BIL'', Some 10)] (Some 200) [] (Some (Some 10)) = Inr (sample_orders, 0)"
    by code_simp
  from batch_shape [OF this] show ?thesis by (simp add: sample_orders_def)
qed

section \<open>Evaluation\<close>






text \<open>
  C23. After any run of a compiled strategy every symbol has at most the window of bars, and neighbouring
  bars are of different periods: a bar that is sent again replaces its slot.
\<close>

theorem history_one_slot:
  assumes "compile_strategy ops s = Inr c"
  shows "\<exists>w. co_window c = Some w \<and> history_ok w (co_history (fst (run_steps num ops c feed)))"
proof -
  note c = compile_specs [OF assms]
  have "0 < compute_window s (co_min_bars c) max_window" using compute_window_covers(1) [of "co_min_bars c" s max_window] c(5) by linarith
  moreover have "co_history c = []" using assms by (auto simp: compile_strategy_def result_simps Let_def)
  ultimately show ?thesis using run_history_ok [OF c(4)] c(4) by (simp add: history_ok_def)
qed

theorem history_one_slot_witness:
  "\<exists>w. co_window trend_compiled = Some w \<and>
     history_ok w (co_history (fst (run_steps (exact_num plain_num) exact_floats trend_compiled [day_bars 1 100, day_bars 2 110, day_bars 2 111])))"
  by (rule history_one_slot [OF trend_compiles])

section \<open>The clock\<close>

text \<open>
  C17. Along dates that do not go back the clock fires exactly when the period changes: the day, the
  week from Monday to Sunday, the month, the quarter or the year. The code decides the week by ISO
  year and week number; around New Year that is the same.
\<close>

theorem clock_fires_on_new_period:
  assumes "l \<le> d"
  shows "should_rebalance d (Some l) frequency \<longleftrightarrow> period_of (frequency_of frequency) l < period_of (frequency_of frequency) d"
  by (rule should_rebalance_iff [OF assms])

theorem clock_fires_on_new_period_witness:
  "date_year 739251 = 2024 \<and> date_year 739252 = 2025 \<and> \<not> should_rebalance 739252 (Some 739251) (Some ''weekly'') \<and>
   (should_rebalance 739252 (Some 739251) (Some ''weekly'') \<longleftrightarrow> week_of 739251 < week_of 739252)"
  using clock_fires_on_new_period [of 739251 739252 "Some ''weekly''"]
  by (simp add: frequency_of_def period_of_def week_of_def date_year_def ord2ymd_def)

text \<open>
  C9. A fresh session that is fed steps whose dates do not go back emits orders at most once per period
  of its frequency, whatever the bars, holdings and equity.
\<close>

theorem one_batch_per_period:
  assumes "new_session num ops strategy mode drift flr = Inr se" "sorted (map (\<lambda>s. latest_date (fst s)) steps)"
  shows "sorted_wrt (<) (map (period_of (frequency_of (se_rebalance_freq se))) (order_dates num ops se steps))"
proof -
  have "se_last_rebalance se = None"
    using assms(1) by (auto simp: new_session_def result_simps split: sum.splits if_splits)
  then show ?thesis by (rule session_periods [OF assms(2)])
qed

definition trend_steps :: "((string, real option bar) dict \<times> (string, real option holding) dict \<times> real option \<times> bool) list" where
  "trend_steps = [(day_bars 1 100, [], Some 1000, True), (day_bars 2 110, [], Some 1000, False),
     (day_bars 3 120, [], Some 1000, False), (day_bars 9 121, [], Some 1000, False)]"

theorem one_batch_per_period_witness:
  "order_dates (exact_num plain_num) exact_floats trend_session trend_steps = [3, 10] \<and>
   sorted_wrt (<) (map (period_of (frequency_of (Some ''weekly''))) (order_dates (exact_num plain_num) exact_floats trend_session trend_steps))"
proof -
  have "order_dates (exact_num plain_num) exact_floats trend_session trend_steps = [3, 10]"
    "sorted (map (\<lambda>s. latest_date (fst s)) trend_steps)"
    by code_simp+
  with one_batch_per_period [OF trend_session_new, of trend_steps] show ?thesis by (simp add: trend_session_def)
qed

section \<open>Feeds\<close>

text \<open>
  C8. A live session that is fed the forming bar after every intraday bar keeps the history a backtest
  keeps that is fed the completed bar of each period: open of the first bar, highest high, lowest
  low, close of the last, summed volume. The period function is any that maps the start of a period
  to itself.
\<close>

theorem live_history_is_backtest_history:
  assumes "period_starts ps" "\<forall>w. window = Some w \<longrightarrow> 0 < w" "periods_ok ps gs" "map_of forming symbol = None"
  shows "foldl (push_bar window) [] (forming_bars num ps forming symbol (concat gs)) = foldl (push_bar window) [] (map (period_bar num ps) gs)"
  by (rule forming_history [OF assms])

definition intraday :: "int \<Rightarrow> real \<Rightarrow> real option bar" where
  "intraday t price = \<lparr>bar_timestamp = t, bar_open = Some price, bar_high = Some price, bar_low = Some price, bar_close = Some price, bar_volume = 1\<rparr>"

theorem live_history_is_backtest_history_witness:
  "foldl (push_bar (Some 5)) [] (forming_bars (exact_num plain_num) (\<lambda>t. t - t mod 10) [] ''SPY'' (concat [[intraday 1 3, intraday 5 7], [intraday 12 4]])) =
     map (period_bar (exact_num plain_num) (\<lambda>t. t - t mod 10)) [[intraday 1 3, intraday 5 7], [intraday 12 4]]"
proof -
  have "period_starts (\<lambda>t. t - t mod 10)" by (simp add: period_starts_def mod_diff_eq [symmetric])
  moreover have "periods_ok (\<lambda>t. t - t mod 10) [[intraday 1 3, intraday 5 7], [intraday 12 4]]" by code_simp
  ultimately have "foldl (push_bar (Some 5)) [] (forming_bars (exact_num plain_num) (\<lambda>t. t - t mod 10) [] ''SPY''
      (concat [[intraday 1 3, intraday 5 7], [intraday 12 4]])) =
    foldl (push_bar (Some 5)) [] (map (period_bar (exact_num plain_num) (\<lambda>t. t - t mod 10)) [[intraday 1 3, intraday 5 7], [intraday 12 4]])"
    by (intro live_history_is_backtest_history) simp_all
  also have "\<dots> = map (period_bar (exact_num plain_num) (\<lambda>t. t - t mod 10)) [[intraday 1 3, intraday 5 7], [intraday 12 4]]"
    by (simp add: push_bar_def period_bar_def intraday_def Let_def)
  finally show ?thesis .
qed

text \<open>
  C39. The replay yields one tick per timestamp of the stored bars up to the end date, in strictly
  increasing order, warm-up exactly before the start date; a tick has for each symbol the last of its
  bars with that timestamp.
\<close>

theorem replay_ticks:
  assumes "distinct (keys bars)"
  shows "sorted_wrt (<) (map fst (historical_ticks bars start_date end_date)) \<and>
    set (map fst (historical_ticks bars start_date end_date)) =
      {bar_timestamp b |s bs b. (s, bs) \<in> set bars \<and> b \<in> set bs \<and> bar_timestamp b \<le> end_date} \<and>
    (\<forall>(date, tick, warm) \<in> set (historical_ticks bars start_date end_date).
      warm = (date < start_date) \<and> (\<forall>s. map_of tick s = Option.bind (map_of bars s) (last_at date)))"
proof -
  have "\<forall>(date, tick, warm) \<in> set (historical_ticks bars start_date end_date).
      warm = (date < start_date) \<and> (\<forall>s. map_of tick s = Option.bind (map_of bars s) (last_at date))"
    using historical_tick(1,3) [OF assms] by fast
  then show ?thesis using historical_dates(1,2) by blast
qed

theorem replay_ticks_witness:
  "sorted_wrt (<) (map fst (historical_ticks [(''SPY'', [intraday 2 3, intraday 1 7]), (''BIL'', [intraday 2 4])] 2 5)) \<and>
   map fst (historical_ticks [(''SPY'', [intraday 2 3, intraday 1 7]), (''BIL'', [intraday 2 4])] 2 5) = [1, 2]"
proof -
  have "distinct (keys [(''SPY'', [intraday 2 3, intraday 1 7]), (''BIL'', [intraday 2 4])])" by simp
  from replay_ticks [OF this, of 2 5]
  have "sorted_wrt (<) (map fst (historical_ticks [(''SPY'', [intraday 2 3, intraday 1 7]), (''BIL'', [intraday 2 4])] 2 5))" by blast
  moreover have "map fst (historical_ticks [(''SPY'', [intraday 2 3, intraday 1 7]), (''BIL'', [intraday 2 4])] 2 5) = [1, 2]"
    by code_simp
  ultimately show ?thesis by blast
qed

section \<open>Metrics\<close>



end
